(* ===== verification/Azync_Prelude.thy ===== *)
theory Azync_Prelude
  imports
    Main
    "HOL-Library.AList"
    "HOL-Library.Char_ord"
    "HOL-Library.List_Lexorder"
    "HOL-Library.Product_Lexorder"
begin

text \<open>
  Shared vocabulary of the development: the Go types every component uses
  (instants, durations, UUIDs, raw JSON, string maps), the error values of the
  driver contract, Go maps as association lists with the semantics of a
  \<open>for ... range\<close> loop over them, and the lemmas the component theories build on.

  \<^item> An instant (Go \<open>time.Time\<close>) is the number of nanoseconds since Go's zero
    time, January 1 of year 1, 00:00 UTC; the zero value \<open>time.Time{}\<close> is \<open>0\<close>.
    A \<open>time.Duration\<close> is a number of nanoseconds. Both are \<open>int\<close>: no component
    that computes with instants gets near the 64-bit bounds of a duration or the
    292-billion-year bounds of an instant. The one routine whose arithmetic can
    wrap, the retry backoff, is modelled on 64-bit words in its own theory.
  \<^item> A UUID is its 16 bytes read as a big-endian number, so that
    \<open>bytes.Compare\<close> is \<open>\<le>\<close> and \<open>uuid.Nil\<close> is \<open>0\<close>. \<open>uuid.New()\<close> belongs to a
    package outside the repository: it is a parameter \<open>gen\<close> of the operations
    that draw from it, where \<open>gen n\<close> is the \<open>n\<close>-th UUID drawn by the process.
  \<^item> \<open>json.RawMessage\<close> and nil-able string maps are options (\<open>None\<close> is nil).
\<close>

section \<open>Go values\<close>

type_synonym time = int
type_synonym duration = int
type_synonym uuid = nat
type_synonym raw = "string option"
type_synonym meta = "(string \<times> string) list option"

abbreviation Nil_uuid :: uuid where
  "Nil_uuid \<equiv> 0"

abbreviation zero_time :: time where
  "zero_time \<equiv> 0"

definition nsPerSecond :: int where
  "nsPerSecond = 1000000000"

definition nsPerDay :: int where
  "nsPerDay = 24 * 3600 * nsPerSecond"

text \<open>\<open>strconv.Itoa\<close>: decimal digits, with a leading minus sign for a negative number.\<close>

fun nat_digits :: "nat \<Rightarrow> string" where
  "nat_digits n = (if n < 10 then [char_of (48 + n)]
                   else nat_digits (n div 10) @ [char_of (48 + n mod 10)])"

declare nat_digits.simps [simp del]

definition itoa :: "int \<Rightarrow> string" where
  "itoa i = (if i < 0 then ''-'' @ nat_digits (nat (- i)) else nat_digits (nat i))"

section \<open>Errors\<close>

text \<open>
  The error values the modelled operations return: the contract's not-found
  error carries the operation it names; the other constructors are the
  remaining error returns of the modelled code.
\<close>

datatype error =
    NotFound string
  | AlreadyExists
  | NotSupported
  | OtherError string

type_synonym ('s, 'a) outcome = "(error + 'a) \<times> 's"

definition IsNotFound :: "error \<Rightarrow> bool" where
  "IsNotFound e = (case e of NotFound _ \<Rightarrow> True | _ \<Rightarrow> False)"

lemma IsNotFound_simps [simp]:
  "IsNotFound (NotFound op)" "\<not> IsNotFound AlreadyExists"
  "\<not> IsNotFound NotSupported" "\<not> IsNotFound (OtherError m)"
  by (simp_all add: IsNotFound_def)

named_theorems store_defs \<open>unfolding rules of the state accessors and updaters\<close>
named_theorems store_frame \<open>which component of a state an effect leaves alone\<close>
named_theorems store_inv \<open>preservation of a store invariant by one operation\<close>

section \<open>Go maps\<close>

text \<open>
  A Go map is an association list with distinct keys: \<open>m[k]\<close> is
  \<^const>\<open>map_of\<close>, \<open>m[k] = v\<close> is \<^const>\<open>AList.update\<close> and \<open>delete(m, k)\<close> is
  \<^const>\<open>AList.delete\<close>.
\<close>

abbreviation distinct_keys :: "('k \<times> 'v) list \<Rightarrow> bool" where
  "distinct_keys m \<equiv> distinct (map fst m)"

definition the_default :: "'a \<Rightarrow> 'a option \<Rightarrow> 'a" where
  "the_default d x = (case x of None \<Rightarrow> d | Some a \<Rightarrow> a)"

lemma the_default_simps [simp]:
  "the_default d None = d" "the_default d (Some a) = a"
  by (simp_all add: the_default_def)

text \<open>
  A \<open>for k, v := range m\<close> loop visits each key once, skips entries deleted by
  the body and reads the current value. Go leaves the order unspecified; the
  model takes the order of the association list. The body may change any part
  of the state, the map included.
\<close>

definition range_fold ::
  "('s \<Rightarrow> ('k \<times> 'v) list) \<Rightarrow> ('k \<Rightarrow> 'v \<Rightarrow> 's \<Rightarrow> 's) \<Rightarrow> 's \<Rightarrow> 's" where
  "range_fold get body s =
     fold (\<lambda>k st. case map_of (get st) k of None \<Rightarrow> st | Some v \<Rightarrow> body k v st) (map fst (get s)) s"

lemma update_keys_in: "k \<in> fst ` set m \<Longrightarrow> map fst (AList.update k v m) = map fst m"
  by (induction m) auto

lemma update_as_map:
  "distinct_keys m \<Longrightarrow> map_of m k = Some v0 \<Longrightarrow>
   AList.update k v m = map (\<lambda>(k', v'). (k', if k' = k then v else v')) m"
proof (induction m)
  case Nil
  then show ?case by simp
next
  case (Cons p m)
  obtain a b where p: "p = (a, b)" by force
  show ?case
  proof (cases "a = k")
    case True
    with Cons.prems(1) p have "k \<notin> fst ` set m" by auto
    then have "map (\<lambda>(k', v'). (k', if k' = k then v else v')) m = m"
      by (intro map_idI) force
    with True p show ?thesis by simp
  next
    case False
    with Cons p show ?thesis by simp
  qed
qed

declare map_of_eq_Some_iff [simp del]

lemma map_of_in_set: "distinct_keys m \<Longrightarrow> (k, v) \<in> set m \<longleftrightarrow> map_of m k = Some v"
  by (rule map_of_eq_Some_iff [symmetric])

lemma map_of_map_snd: "map_of (map (\<lambda>(k, v). (k, f k v)) m) k = map_option (f k) (map_of m k)"
  by (induction m) auto

lemma map_of_filter_keyed:
  "distinct_keys m \<Longrightarrow>
   map_of (filter (\<lambda>(k, v). P k v) m) k
     = (case map_of m k of None \<Rightarrow> None | Some v \<Rightarrow> if P k v then Some v else None)"
proof (induction m)
  case Nil
  then show ?case by simp
next
  case (Cons p m)
  obtain a b where p: "p = (a, b)" by force
  from Cons p have IH: "map_of (filter (\<lambda>(k, v). P k v) m) k
      = (case map_of m k of None \<Rightarrow> None | Some v \<Rightarrow> if P k v then Some v else None)"
    and fresh: "map_of m a = None" by (simp_all add: map_of_eq_None_iff)
  from IH fresh p show ?case by (cases "a = k") simp_all
qed

lemma distinct_keys_map [simp]: "map fst (map (\<lambda>(k, v). (k, f k v)) m) = map fst m"
  by (simp add: case_prod_unfold comp_def)

lemma distinct_keys_filter: "distinct_keys m \<Longrightarrow> distinct_keys (filter P m)"
  by (simp add: distinct_map_filter)

lemma distinct_keys_delete: "distinct_keys m \<Longrightarrow> distinct_keys (AList.delete k m)"
  by (simp add: AList.distinct_delete)

lemma distinct_keys_update: "distinct_keys m \<Longrightarrow> distinct_keys (AList.update k v m)"
  by (simp add: AList.distinct_update)

lemma in_set_delete: "x \<in> set (AList.delete k m) \<longleftrightarrow> x \<in> set m \<and> fst x \<noteq> k"
  by (auto simp: AList.delete_eq)

lemma in_set_update:
  "distinct_keys m \<Longrightarrow> (a, b) \<in> set (AList.update k v m) \<longleftrightarrow>
     (if a = k then b = v else (a, b) \<in> set m)"
  using map_of_eq_Some_iff [of "AList.update k v m" a b] map_of_eq_Some_iff [of m a b]
  by (auto simp: distinct_keys_update AList.update_conv')

section \<open>Laws of the range loop\<close>

lemma range_fold_inv:
  assumes "I s" and "\<And>k v st. I st \<Longrightarrow> map_of (get st) k = Some v \<Longrightarrow> I (body k v st)"
  shows "I (range_fold get body s)"
proof -
  have "I st \<Longrightarrow> I (fold (\<lambda>k st. case map_of (get st) k of None \<Rightarrow> st | Some v \<Rightarrow> body k v st) ks st)"
    for ks st
    by (induction ks arbitrary: st) (auto split: option.splits intro: assms(2))
  with assms(1) show ?thesis by (simp add: range_fold_def)
qed

text \<open>
  A loop whose body rewrites or removes only the entry it visits acts on the
  map pointwise, and one accumulator that grows by a weight of the visited
  entry ends at the sum of the weights. Both are proved from one induction over
  the keys still to visit: a key not yet visited still has its initial value.
\<close>

locale pointwise_loop =
  fixes get :: "'s \<Rightarrow> ('k \<times> 'v) list"
    and body :: "'k \<Rightarrow> 'v \<Rightarrow> 's \<Rightarrow> 's"
    and I :: "'s \<Rightarrow> bool"
    and h :: "'v \<Rightarrow> 'v option"
  assumes body_I: "I st \<Longrightarrow> map_of (get st) k = Some v \<Longrightarrow> I (body k v st)"
    and body_get: "I st \<Longrightarrow> map_of (get st) k = Some v \<Longrightarrow> distinct_keys (get st) \<Longrightarrow>
      map_of (get (body k v st)) = (map_of (get st))(k := h v) \<and>
      map fst (get (body k v st)) = (if h v = None then filter (\<lambda>x. x \<noteq> k) (map fst (get st)) else map fst (get st))"
begin

abbreviation visit :: "'k \<Rightarrow> 's \<Rightarrow> 's" where
  "visit k st \<equiv> (case map_of (get st) k of None \<Rightarrow> st | Some v \<Rightarrow> body k v st)"

lemma fold_visit:
  assumes "I st" "distinct_keys (get st)" "distinct ks"
  shows "I (fold visit ks st) \<and> distinct_keys (get (fold visit ks st)) \<and>
     map_of (get (fold visit ks st))
       = (\<lambda>k. if k \<in> set ks then Option.bind (map_of (get st) k) h else map_of (get st) k)"
  using assms
proof (induction ks arbitrary: st)
  case Nil
  then show ?case by simp
next
  case (Cons k ks)
  let ?st = "visit k st"
  have st: "I ?st" "distinct_keys (get ?st)"
    "map_of (get ?st) = (map_of (get st))(k := Option.bind (map_of (get st) k) h)"
  proof -
    show "I ?st" using Cons.prems(1) by (auto split: option.splits intro: body_I)
    show "distinct_keys (get ?st)"
      using Cons.prems(1,2) body_get [of st k] by (auto split: option.splits if_splits)
    show "map_of (get ?st) = (map_of (get st))(k := Option.bind (map_of (get st) k) h)"
      using Cons.prems(1,2) body_get [of st k] by (auto split: option.splits)
  qed
  from Cons.prems(3) have "distinct ks" "k \<notin> set ks" by auto
  with Cons.IH [OF st(1,2)] st(3) show ?case by (auto simp: fun_eq_iff)
qed

lemma loop_get:
  assumes "I s" "distinct_keys (get s)"
  shows "map_of (get (range_fold get body s)) = (\<lambda>k. Option.bind (map_of (get s) k) h)"
    and "I (range_fold get body s)"
    and "distinct_keys (get (range_fold get body s))"
proof -
  note V = fold_visit [OF assms assms(2)]
  show "I (range_fold get body s)" "distinct_keys (get (range_fold get body s))"
    using V by (simp_all add: range_fold_def)
  have "map_of (get s) k = None" if "k \<notin> fst ` set (get s)" for k
    using that by (simp add: map_of_eq_None_iff)
  with V show "map_of (get (range_fold get body s)) = (\<lambda>k. Option.bind (map_of (get s) k) h)"
    by (auto simp: range_fold_def fun_eq_iff)
qed

lemma loop_acc:
  fixes f :: "'s \<Rightarrow> 'n::comm_monoid_add"
  assumes "I s" "distinct_keys (get s)"
    and acc: "\<And>st k v. I st \<Longrightarrow> map_of (get st) k = Some v \<Longrightarrow> f (body k v st) = f st + w v"
  shows "f (range_fold get body s) = f s + sum_list (map (\<lambda>(k, v). w v) (get s))"
proof -
  have *: "f (fold visit ks st) = f st + sum_list (map (\<lambda>k. case map_of (get st) k of None \<Rightarrow> 0 | Some v \<Rightarrow> w v) ks)"
    if "I st" "distinct_keys (get st)" "distinct ks" for ks st
    using that
  proof (induction ks arbitrary: st)
    case Nil
    then show ?case by simp
  next
    case (Cons k ks)
    let ?st = "visit k st"
    from Cons.prems(1,2) have st: "I ?st" "distinct_keys (get ?st)"
      "map_of (get ?st) = (map_of (get st))(k := Option.bind (map_of (get st) k) h)"
      using fold_visit [of st "[k]"] by auto
    have fst': "f ?st = f st + (case map_of (get st) k of None \<Rightarrow> 0 | Some v \<Rightarrow> w v)"
      using Cons.prems(1) by (auto split: option.splits intro: acc)
    from Cons.prems(3) have "k \<notin> set ks" "distinct ks" by auto
    then have eq: "map (\<lambda>k. case map_of (get ?st) k of None \<Rightarrow> 0 | Some v \<Rightarrow> w v) ks =
      map (\<lambda>k. case map_of (get st) k of None \<Rightarrow> 0 | Some v \<Rightarrow> w v) ks"
      by (intro map_cong refl) (auto simp: st(3))
    have "f (fold visit ks ?st) =
        f ?st + sum_list (map (\<lambda>k. case map_of (get ?st) k of None \<Rightarrow> 0 | Some v \<Rightarrow> w v) ks)"
      by (rule Cons.IH [OF st(1,2) \<open>distinct ks\<close>])
    with fst' show ?case unfolding eq by (simp add: add.assoc)
  qed
  have E: "map (\<lambda>k. case map_of (get s) k of None \<Rightarrow> 0 | Some v \<Rightarrow> w v) (map fst (get s))
      = map (\<lambda>(k, v). w v) (get s)"
    using assms(2) by (auto simp: comp_def case_prod_unfold)
  show ?thesis using * [OF assms(1,2,2)] unfolding range_fold_def E .
qed

end

section \<open>Lists\<close>

lemma sum_list_indicator:
  "sum_list (map (\<lambda>x. if P x then 1 else 0) xs) = (of_nat (length (filter P xs)) :: 'n::semiring_1)"
  by (induction xs) auto

lemma sum_list_count_values:
  "sum_list (map (\<lambda>(k, v). if P v then 1 else 0) m) = (of_nat (length (filter P (map snd m))) :: 'n::semiring_1)"
  by (induction m) auto

lemma fold_preserves: "P s \<Longrightarrow> (\<And>x st. x \<in> set xs \<Longrightarrow> P st \<Longrightarrow> P (f x st)) \<Longrightarrow> P (fold f xs s)"
  by (induction xs arbitrary: s) auto

lemma fold_frame: "(\<And>x st. x \<in> set xs \<Longrightarrow> g (f x st) = g st) \<Longrightarrow> g (fold f xs s) = g s"
  by (induction xs arbitrary: s) auto

text \<open>The Go idiom \<open>xs[offset:]\<close>, then \<open>[:limit]\<close>, of the paginated listings.\<close>

definition paginate :: "int \<Rightarrow> int \<Rightarrow> 'a list \<Rightarrow> 'a list" where
  "paginate offset limit xs =
     (let off = (if offset < 0 then 0 else offset);
          off = (if off > int (length xs) then int (length xs) else off);
          ys = drop (nat off) xs
      in if limit > 0 \<and> limit < int (length ys) then take (nat limit) ys else ys)"

lemma paginate_length: "0 < limit \<Longrightarrow> length (paginate offset limit xs) \<le> nat limit"
  by (auto simp: paginate_def Let_def)

lemma paginate_all: "offset \<le> 0 \<Longrightarrow> limit \<le> 0 \<Longrightarrow> paginate offset limit xs = xs"
  by (auto simp: paginate_def Let_def)

lemma paginate_subset: "set (paginate offset limit xs) \<subseteq> set xs"
  by (auto simp: paginate_def Let_def dest: in_set_takeD in_set_dropD)

end
