(* ===== verification/Driver_Rows.thy ===== *)
theory Driver_Rows
  imports Azync_Prelude
begin

text \<open>
  The data of the driver contract (\<open>driver/rows.go\<close>, \<open>driver/driver.go\<close>,
  \<open>driver/dag.go\<close>, \<open>driver/workflow.go\<close>): the partitions and states of the
  unified job table, the parameters of the operations, the wire records a store
  returns and the row-change hints.

  The string types with a closed set of constants (\<open>Source\<close>, \<open>JobState\<close>,
  \<open>DAGState\<close>, ...) are datatypes; where the code gives the empty string a
  meaning (no filter, no policy) the field is an option. Fields carry a prefix
  for their struct (\<open>jState\<close> is \<open>Job.State\<close>).
\<close>

section \<open>Partitions and lifecycle states\<close>

datatype source = SourceQueue | SourceEvent | SourceDAG | SourceWorkflow

datatype job_state =
    StatePending
  | StateScheduled
  | StateActive
  | StateDead
  | StatePaused
  | StateSucceeded
  | StateBlocked
  | StateWaiting
  | StateCancelled
  | StateUncertain
  | StateSkipped

datatype dag_state =
    DAGRunning
  | DAGSuspended
  | DAGCompensating
  | DAGPaused
  | DAGSucceeded
  | DAGFailed
  | DAGCancelled

datatype on_failure = OnFailureCancel | OnFailureSuspend

datatype workflow_state =
    WorkflowRunning
  | WorkflowSuspended
  | WorkflowSucceeded
  | WorkflowFailed
  | WorkflowCancelled

datatype uncertain_decision = UncertainComplete | UncertainFail | UncertainRetry

definition KindSleep :: string where
  "KindSleep = ''$sleep''"

definition KindSignal :: string where
  "KindSignal = ''$signal''"

definition TaskKeyCompensationPrefix :: string where
  "TaskKeyCompensationPrefix = ''comp:''"

section \<open>Parameters\<close>

record enqueueParams =
  epID :: uuid
  epKind :: string
  epPayload :: raw
  epMeta :: meta
  epRunAt :: time
  epDelay :: duration
  epMaxAttempts :: int
  epMaxAttemptsExplicit :: bool
  epIdempotencyKey :: string
  epIdempotencyTTL :: duration
  epCoalesceKey :: string

record publishParams =
  ppID :: uuid
  ppType :: string
  ppAggregateType :: string
  ppAggregateID :: string
  ppVersion :: int
  ppOccurredAt :: time
  ppPayload :: raw
  ppMeta :: meta

record dequeueParams =
  dpKind :: string
  dpLimit :: int
  dpLease :: duration
  dpDefaultMaxAttempts :: int
  dpOverrideDefault :: bool

section \<open>Records\<close>

record eventRecord =
  evID :: uuid
  evType :: string
  evAggregateType :: string
  evAggregateID :: string
  evVersion :: int
  evOccurredAt :: time
  evPayload :: raw
  evMeta :: meta

record job =
  jID :: uuid
  jSource :: source
  jKind :: string
  jState :: job_state
  jAttempt :: int
  jMaxAttempts :: int
  jReapCount :: int
  jPayload :: raw
  jMeta :: meta
  jRunAt :: time
  jLeaseUntil :: time
  jLeaseToken :: uuid
  jLastError :: string
  jEventID :: uuid
  jReplay :: bool
  jEvent :: "eventRecord option"
  jDAGID :: uuid
  jRunID :: uuid
  jTaskKey :: string
  jResult :: raw
  jSignalName :: string
  jCompensationKind :: string
  jIgnoreDeadDeps :: bool
  jSnoozeBudget :: duration
  jDeadlineAt :: time
  jEnqueuedAt :: time
  jFailedAt :: time
  jCompletedAt :: time
  jStartedAt :: time

record subscriber =
  subName :: string
  subEventType :: string
  subMaxAttempts :: int

record depths =
  dPending :: int
  dScheduled :: int
  dActive :: int
  dDead :: int
  dPaused :: int
  dSucceeded :: int
  dOldestPendingAge :: duration

record dailyCount =
  dcDate :: time
  dcEnqueued :: int
  dcProcessed :: int
  dcFailed :: int
  dcReaped :: int

record attemptError =
  aeAttempt :: int
  aeError :: string
  aeAt :: time

record jobFilter =
  jfKind :: string
  jfState :: "job_state option"

record eventFilter =
  efType :: string
  efUndispatched :: "bool option"
  efSince :: time
  efUntil :: time

record replayFilter =
  rfSubscriber :: string
  rfEventType :: string
  rfEventID :: uuid
  rfSince :: time
  rfUntil :: time
  rfLimit :: int

record nukeReport =
  nrJobs :: int
  nrStats :: int
  nrKeys :: int

record opsStats =
  osUndispatched :: int
  osTotal24h :: int
  osTypes24h :: int
  osSubscribers :: int

record eventAdminRow =
  earEvent :: eventRecord
  earDispatchedAt :: time
  earDeliveries :: int

record subscriberView =
  svEventType :: string
  svSubscriber :: string
  svMaxAttempts :: int
  svCreatedAt :: time
  svUpdatedAt :: time

section \<open>DAG executions\<close>

record dagTask =
  dtKey :: string
  dtKind :: string
  dtPayload :: raw
  dtMaxAttempts :: int
  dtCompensationKind :: string
  dtCompensationPayload :: raw
  dtSignalName :: string
  dtSleepFor :: duration
  dtIgnoreDeadDeps :: bool
  dtDeadline :: duration

record dagDep =
  ddTaskKey :: string
  ddDependsOnKey :: string

record dagParams =
  dgID :: uuid
  dgName :: string
  dgOnFailure :: "on_failure option"
  dgIdempotencyKey :: string
  dgMeta :: meta
  dgTasks :: "dagTask list"
  dgDeps :: "dagDep list"

record taskResult =
  trResult :: raw
  trSkipped :: bool

record dagSignalParams =
  dspDAGID :: uuid
  dspName :: string
  dspMessageID :: string
  dspPayload :: raw

record dagView =
  wID :: uuid
  wName :: string
  wState :: dag_state
  wOnFailure :: on_failure
  wIdempotencyKey :: string
  wFailureReason :: string
  wMeta :: meta
  wCreatedAt :: time
  wUpdatedAt :: time
  wCompletedAt :: time

record dagFilter =
  dfName :: string
  dfState :: "dag_state option"

record dagFailure =
  dflDAGID :: uuid
  dflPolicy :: on_failure
  dflDeadTasks :: "string list"

section \<open>Workflow-as-code executions\<close>

record workflowStartParams =
  wspID :: uuid
  wspName :: string
  wspVersion :: string
  wspInput :: raw
  wspBusinessIdempotencyKey :: string
  wspTaskQueue :: string
  wspMeta :: meta

record workflowExecutionView =
  exID :: uuid
  exName :: string
  exVersion :: string
  exState :: workflow_state
  exBusinessIdempotencyKey :: string
  exTaskQueue :: string
  exInput :: raw
  exResult :: raw
  exFailureReason :: string
  exMeta :: meta
  exCreatedAt :: time
  exUpdatedAt :: time
  exCompletedAt :: time

record historyEvent =
  heWorkflowID :: uuid
  heSeq :: int
  heType :: string
  hePayload :: raw
  heCreatedAt :: time

record signalParams =
  spWorkflowID :: uuid
  spName :: string
  spMessageID :: string
  spPayload :: raw

record scheduleOperationParams =
  sopWorkflowID :: uuid
  sopKind :: string
  sopPayload :: raw
  sopMeta :: meta
  sopExecutionKey :: string
  sopRunAt :: time
  sopMaxAttempts :: int

section \<open>Wakeups and row-change hints\<close>

record wake =
  wkSource :: source
  wkKind :: string

datatype change_entity = ChangeJob | ChangeDAG | ChangeEvent | ChangeReset

text \<open>
  The \<open>State\<close> field of a hint is a string that shares the job and DAG
  vocabularies; \<open>change_state\<close> keeps the two apart and \<open>NoState\<close> is the empty
  string of event and reset hints.
\<close>

datatype change_state = NoState | JobSt job_state | DagSt dag_state

record change =
  cEntity :: change_entity
  cSource :: "source option"
  cID :: uuid
  cDAGID :: uuid
  cKind :: string
  cTaskKey :: string
  cState :: change_state
  cAt :: time
  cBulk :: bool
  cCount :: int

section \<open>State classes the code tests for\<close>

text \<open>
  \<open>live_key\<close> is the test of the live-job dedupe (\<open>state NOT IN (dead,
  succeeded)\<close>); \<open>settled_states\<close> are the states a settlement of a leased job can
  land on.
\<close>

definition live_key :: "job_state \<Rightarrow> bool" where
  "live_key st = (st \<noteq> StateDead \<and> st \<noteq> StateSucceeded)"

lemma live_key_simps [simp]:
  "live_key StatePending" "live_key StateScheduled" "live_key StateActive"
  "live_key StatePaused" "live_key StateSkipped" "\<not> live_key StateDead" "\<not> live_key StateSucceeded"
  by (simp_all add: live_key_def)

end
