(* ===== verification/Fake_State.thy ===== *)
theory Fake_State
  imports Driver_Rows
begin

text \<open>
  The in-memory store of \<open>internal/drivertest\<close> (the behavioural oracle of the
  driver contract): its records, its state and the effects every operation
  shares - creation stamps, daily counters, attempt history, wakeups and
  row-change hints (\<open>fake.go\<close>, \<open>fake_watch.go\<close>, the record types of
  \<open>fake_dag.go\<close> and \<open>fake_wac.go\<close>).

  Every method of the store holds one mutex for its whole body, so a method is
  one atomic function on the state. The clock is read from the state (\<open>clock\<close>)
  and does not advance inside a method. Channels are their buffered contents;
  a receive is a separate step of the environment.
\<close>

section \<open>Records\<close>

record fakeJob = job +
  maxAttemptsExplicit :: bool
  idempotencyKey :: string
  coalesceKey :: string
  compensationPayload :: raw
  sleepFor :: duration
  seq :: int

record subRecord = subscriber +
  createdAt :: time
  updatedAt :: time

type_synonym subKey = "string \<times> string"
type_synonym idemKey = "source \<times> string \<times> string"
type_synonym statKey = "source \<times> string \<times> time"

datatype statField = statEnqueued | statProcessed | statFailed | statReaped

record statCounters =
  scEnqueued :: int
  scProcessed :: int
  scFailed :: int
  scReaped :: int

record fakeDAGSignal =
  sgID :: uuid
  sgName :: string
  sgMessageID :: string
  sgPayload :: raw
  sgConsumed :: bool
  sgCreatedAt :: time
  sgSeq :: int

record fakeDAG = dagView +
  deps :: "dagDep list"
  cancelRequested :: bool
  signals :: "fakeDAGSignal list"

record fakeExecution = workflowExecutionView +
  history :: "historyEvent list"

type_synonym signalDedupeKey = "uuid \<times> string \<times> string"

record changeSub =
  csCh :: "change list"
  csOverflowed :: bool

record fakeLease =
  flName :: string
  flInvalid :: bool
  flReleased :: bool

record fake =
  clock :: time
  jobs :: "(uuid \<times> fakeJob) list"
  events :: "(uuid \<times> eventRecord) list"
  subscribers :: "(subKey \<times> subRecord) list"
  idempotency :: "(idemKey \<times> time) list"
  attempts :: "(uuid \<times> attemptError list) list"
  stats :: "(statKey \<times> statCounters) list"
  leaders :: "(string \<times> bool) list"
  activeLease :: "(string \<times> nat) list"
  leases :: "(nat \<times> fakeLease) list"
  dags :: "(uuid \<times> fakeDAG) list"
  executions :: "(uuid \<times> fakeExecution) list"
  signalKeys :: "(signalDedupeKey \<times> bool) list"
  jobSeq :: int
  wakers :: "(nat \<times> wake list) list"
  changeSubs :: "(nat \<times> changeSub) list"
  nextChan :: nat
  draws :: nat

text \<open>
  \<open>NewFake\<close>. The zero value of \<open>fakeJob\<close> gives the fields a Go composite
  literal leaves out.
\<close>

definition NewFake :: "time \<Rightarrow> fake" where
  "NewFake now =
     \<lparr>clock = now, jobs = [], events = [], subscribers = [], idempotency = [], attempts = [],
      stats = [], leaders = [], activeLease = [], leases = [], dags = [], executions = [],
      signalKeys = [], jobSeq = 0, wakers = [], changeSubs = [], nextChan = 0, draws = 0\<rparr>"

definition zeroJob :: fakeJob where
  "zeroJob =
     \<lparr>jID = Nil_uuid, jSource = SourceQueue, jKind = [], jState = StatePending, jAttempt = 0,
      jMaxAttempts = 0, jReapCount = 0, jPayload = None, jMeta = None, jRunAt = zero_time,
      jLeaseUntil = zero_time, jLeaseToken = Nil_uuid, jLastError = [], jEventID = Nil_uuid,
      jReplay = False, jEvent = None, jDAGID = Nil_uuid, jRunID = Nil_uuid, jTaskKey = [],
      jResult = None, jSignalName = [], jCompensationKind = [], jIgnoreDeadDeps = False,
      jSnoozeBudget = 0, jDeadlineAt = zero_time, jEnqueuedAt = zero_time, jFailedAt = zero_time,
      jCompletedAt = zero_time, jStartedAt = zero_time,
      maxAttemptsExplicit = False, idempotencyKey = [], coalesceKey = [],
      compensationPayload = None, sleepFor = 0, seq = 0\<rparr>"

section \<open>Helpers\<close>

definition clonePayload :: "raw \<Rightarrow> raw" where
  "clonePayload p = p"

definition cloneMeta :: "meta \<Rightarrow> meta" where
  "cloneMeta m = (case m of None \<Rightarrow> Some [] | Some kv \<Rightarrow> Some kv)"

definition dayOf :: "time \<Rightarrow> time" where
  "dayOf t = (t div nsPerDay) * nsPerDay"

definition nextSeq :: "fake \<Rightarrow> int \<times> fake" where
  "nextSeq s = (jobSeq s + 1, s\<lparr>jobSeq := jobSeq s + 1\<rparr>)"

definition toJob :: "fakeJob \<Rightarrow> job" where
  "toJob j = job.truncate (j\<lparr>jPayload := clonePayload (jPayload j), jMeta := cloneMeta (jMeta j),
     jResult := clonePayload (jResult j), jEvent := None\<rparr>)"

definition putJob :: "fakeJob \<Rightarrow> fake \<Rightarrow> fake" where
  [store_defs]: "putJob j s = s\<lparr>jobs := AList.update (jID j) j (jobs s)\<rparr>"

definition delJob :: "uuid \<Rightarrow> fake \<Rightarrow> fake" where
  [store_defs]: "delJob jid s = s\<lparr>jobs := AList.delete jid (jobs s), attempts := AList.delete jid (attempts s)\<rparr>"

definition recordAttempt :: "uuid \<Rightarrow> int \<Rightarrow> string \<Rightarrow> time \<Rightarrow> fake \<Rightarrow> fake" where
  "recordAttempt jid attempt lastError at s =
     s\<lparr>attempts := AList.update jid
         (the_default [] (map_of (attempts s) jid) @
            [\<lparr>aeAttempt = attempt, aeError = lastError, aeAt = at\<rparr>]) (attempts s)\<rparr>"

definition zeroCounters :: statCounters where
  "zeroCounters = \<lparr>scEnqueued = 0, scProcessed = 0, scFailed = 0, scReaped = 0\<rparr>"

fun bumpCounter :: "statField \<Rightarrow> int \<Rightarrow> statCounters \<Rightarrow> statCounters" where
  "bumpCounter statEnqueued n c = c\<lparr>scEnqueued := scEnqueued c + n\<rparr>"
| "bumpCounter statProcessed n c = c\<lparr>scProcessed := scProcessed c + n\<rparr>"
| "bumpCounter statFailed n c = c\<lparr>scFailed := scFailed c + n\<rparr>"
| "bumpCounter statReaped n c = c\<lparr>scReaped := scReaped c + n\<rparr>"

definition bumpStat :: "source \<Rightarrow> string \<Rightarrow> statField \<Rightarrow> int \<Rightarrow> time \<Rightarrow> fake \<Rightarrow> fake" where
  "bumpStat src kind field n at s =
     (let k = (src, kind, dayOf at)
      in s\<lparr>stats := AList.update k
             (bumpCounter field n (the_default zeroCounters (map_of (stats s) k))) (stats s)\<rparr>)"

definition sliceSet :: "string list \<Rightarrow> string \<Rightarrow> bool" where
  "sliceSet items k = (k \<in> set items)"

section \<open>Wakeups\<close>

definition wakeBuffer :: nat where
  "wakeBuffer = 256"

definition wake :: "source \<Rightarrow> string \<Rightarrow> fake \<Rightarrow> fake" where
  "wake src kind s =
     s\<lparr>wakers := map (\<lambda>(c, b). (c, if length b < wakeBuffer
                                  then b @ [\<lparr>wkSource = src, wkKind = kind\<rparr>] else b)) (wakers s)\<rparr>"

text \<open>\<open>Fake.Wake\<close>: registering a listener, and its removal when the context ends.\<close>

definition Wake :: "fake \<Rightarrow> nat \<times> fake" where
  "Wake s = (nextChan s, s\<lparr>wakers := wakers s @ [(nextChan s, [])], nextChan := Suc (nextChan s)\<rparr>)"

definition Wake_done :: "nat \<Rightarrow> fake \<Rightarrow> fake" where
  "Wake_done c s = s\<lparr>wakers := AList.delete c (wakers s)\<rparr>"

section \<open>Row-change hints\<close>

definition changeBuffer :: nat where
  "changeBuffer = 256"

definition resetAt :: "time \<Rightarrow> change" where
  "resetAt t = \<lparr>cEntity = ChangeReset, cSource = None, cID = Nil_uuid, cDAGID = Nil_uuid, cKind = [],
     cTaskKey = [], cState = NoState, cAt = t, cBulk = False, cCount = 0\<rparr>"

definition notifySub :: "change \<Rightarrow> changeSub \<Rightarrow> changeSub" where
  "notifySub c sub =
     (if csOverflowed sub \<and> \<not> length (csCh sub) < changeBuffer then sub
      else
        (let sub1 = (if csOverflowed sub
                     then sub\<lparr>csCh := csCh sub @ [resetAt (cAt c)], csOverflowed := False\<rparr>
                     else sub)
         in if length (csCh sub1) < changeBuffer
            then sub1\<lparr>csCh := csCh sub1 @ [c]\<rparr>
            else sub1\<lparr>csOverflowed := True\<rparr>))"

definition notifyChange :: "change \<Rightarrow> fake \<Rightarrow> fake" where
  "notifyChange c s = s\<lparr>changeSubs := map (\<lambda>(i, sub). (i, notifySub c sub)) (changeSubs s)\<rparr>"

definition changeJob :: "fakeJob \<Rightarrow> fake \<Rightarrow> fake" where
  "changeJob j s = notifyChange
     \<lparr>cEntity = ChangeJob, cSource = Some (jSource j), cID = jID j, cDAGID = jDAGID j,
      cKind = jKind j, cTaskKey = jTaskKey j, cState = JobSt (jState j), cAt = clock s,
      cBulk = False, cCount = 0\<rparr> s"

definition changeDAG :: "fakeDAG \<Rightarrow> fake \<Rightarrow> fake" where
  "changeDAG w s = notifyChange
     \<lparr>cEntity = ChangeDAG, cSource = None, cID = wID w, cDAGID = Nil_uuid,
      cKind = wName w, cTaskKey = [], cState = DagSt (wState w), cAt = clock s,
      cBulk = False, cCount = 0\<rparr> s"

definition changeEvent :: "uuid \<Rightarrow> string \<Rightarrow> fake \<Rightarrow> fake" where
  "changeEvent jid eventType s = notifyChange
     \<lparr>cEntity = ChangeEvent, cSource = None, cID = jid, cDAGID = Nil_uuid,
      cKind = eventType, cTaskKey = [], cState = NoState, cAt = clock s,
      cBulk = False, cCount = 0\<rparr> s"

text \<open>\<open>Fake.Changes\<close> and the removal of a subscription when its context ends.\<close>

definition Changes :: "fake \<Rightarrow> nat \<times> fake" where
  "Changes s = (nextChan s,
     s\<lparr>changeSubs := changeSubs s @ [(nextChan s, \<lparr>csCh = [resetAt (clock s)], csOverflowed = False\<rparr>)],
       nextChan := Suc (nextChan s)\<rparr>)"

definition Changes_done :: "nat \<Rightarrow> fake \<Rightarrow> fake" where
  "Changes_done c s = s\<lparr>changeSubs := AList.delete c (changeSubs s)\<rparr>"

section \<open>Frame facts of the effects\<close>

text \<open>
  An operation is a chain of the effects above around updates of the job map.
  These rules let the simplifier see through the chain: each effect changes its
  own component only.
\<close>

lemma frame_jobs [simp, store_frame]:
  "jobs (recordAttempt jid a e t s) = jobs s"
  "jobs (bumpStat src kind f n t s) = jobs s"
  "jobs (wake src kind s) = jobs s"
  "jobs (notifyChange c s) = jobs s"
  "jobs (changeJob j s) = jobs s"
  "jobs (changeDAG w s) = jobs s"
  "jobs (changeEvent jid et s) = jobs s"
  by (simp_all add: recordAttempt_def bumpStat_def Let_def wake_def notifyChange_def changeJob_def
      changeDAG_def changeEvent_def)

lemma frame_clock [simp, store_frame]:
  "clock (recordAttempt jid a e t s) = clock s"
  "clock (bumpStat src kind f n t s) = clock s"
  "clock (wake src kind s) = clock s"
  "clock (notifyChange c s) = clock s"
  "clock (changeJob j s) = clock s"
  "clock (changeDAG w s) = clock s"
  "clock (changeEvent jid et s) = clock s"
  "clock (putJob j s) = clock s"
  "clock (delJob jid s) = clock s"
  by (simp_all add: recordAttempt_def bumpStat_def Let_def wake_def notifyChange_def changeJob_def
      changeDAG_def changeEvent_def putJob_def delJob_def)

lemma frame_events [simp, store_frame]:
  "events (recordAttempt jid a e t s) = events s"
  "events (bumpStat src kind f n t s) = events s"
  "events (wake src kind s) = events s"
  "events (notifyChange c s) = events s"
  "events (changeJob j s) = events s"
  "events (changeDAG w s) = events s"
  "events (changeEvent jid et s) = events s"
  "events (putJob j s) = events s"
  "events (delJob jid s) = events s"
  by (simp_all add: recordAttempt_def bumpStat_def Let_def wake_def notifyChange_def changeJob_def
      changeDAG_def changeEvent_def putJob_def delJob_def)

lemma frame_attempts [simp, store_frame]:
  "attempts (bumpStat src kind f n t s) = attempts s"
  "attempts (wake src kind s) = attempts s"
  "attempts (notifyChange c s) = attempts s"
  "attempts (changeJob j s) = attempts s"
  "attempts (changeDAG w s) = attempts s"
  "attempts (changeEvent jid et s) = attempts s"
  "attempts (putJob j s) = attempts s"
  by (simp_all add: bumpStat_def Let_def wake_def notifyChange_def changeJob_def
      changeDAG_def changeEvent_def putJob_def)

lemma frame_idempotency [simp, store_frame]:
  "idempotency (recordAttempt jid a e t s) = idempotency s"
  "idempotency (bumpStat src kind f n t s) = idempotency s"
  "idempotency (wake src kind s) = idempotency s"
  "idempotency (notifyChange c s) = idempotency s"
  "idempotency (changeJob j s) = idempotency s"
  "idempotency (changeDAG w s) = idempotency s"
  "idempotency (changeEvent jid et s) = idempotency s"
  "idempotency (putJob j s) = idempotency s"
  "idempotency (delJob jid s) = idempotency s"
  by (simp_all add: recordAttempt_def bumpStat_def Let_def wake_def notifyChange_def changeJob_def
      changeDAG_def changeEvent_def putJob_def delJob_def)

lemma frame_subscribers [simp, store_frame]:
  "subscribers (recordAttempt jid a e t s) = subscribers s"
  "subscribers (bumpStat src kind f n t s) = subscribers s"
  "subscribers (wake src kind s) = subscribers s"
  "subscribers (notifyChange c s) = subscribers s"
  "subscribers (changeJob j s) = subscribers s"
  "subscribers (changeDAG w s) = subscribers s"
  "subscribers (changeEvent jid et s) = subscribers s"
  "subscribers (putJob j s) = subscribers s"
  "subscribers (delJob jid s) = subscribers s"
  by (simp_all add: recordAttempt_def bumpStat_def Let_def wake_def notifyChange_def changeJob_def
      changeDAG_def changeEvent_def putJob_def delJob_def)

lemma frame_dags [simp, store_frame]:
  "dags (recordAttempt jid a e t s) = dags s"
  "dags (bumpStat src kind f n t s) = dags s"
  "dags (wake src kind s) = dags s"
  "dags (notifyChange c s) = dags s"
  "dags (changeJob j s) = dags s"
  "dags (changeDAG w s) = dags s"
  "dags (changeEvent jid et s) = dags s"
  "dags (putJob j s) = dags s"
  "dags (delJob jid s) = dags s"
  by (simp_all add: recordAttempt_def bumpStat_def Let_def wake_def notifyChange_def changeJob_def
      changeDAG_def changeEvent_def putJob_def delJob_def)

lemma frame_executions [simp, store_frame]:
  "executions (recordAttempt jid a e t s) = executions s"
  "executions (bumpStat src kind f n t s) = executions s"
  "executions (wake src kind s) = executions s"
  "executions (notifyChange c s) = executions s"
  "executions (changeJob j s) = executions s"
  "executions (changeDAG w s) = executions s"
  "executions (changeEvent jid et s) = executions s"
  "executions (putJob j s) = executions s"
  "executions (delJob jid s) = executions s"
  by (simp_all add: recordAttempt_def bumpStat_def Let_def wake_def notifyChange_def changeJob_def
      changeDAG_def changeEvent_def putJob_def delJob_def)

lemma frame_draws [simp, store_frame]:
  "draws (recordAttempt jid a e t s) = draws s"
  "draws (bumpStat src kind f n t s) = draws s"
  "draws (wake src kind s) = draws s"
  "draws (notifyChange c s) = draws s"
  "draws (changeJob j s) = draws s"
  "draws (changeDAG w s) = draws s"
  "draws (changeEvent jid et s) = draws s"
  "draws (putJob j s) = draws s"
  "draws (delJob jid s) = draws s"
  by (simp_all add: recordAttempt_def bumpStat_def Let_def wake_def notifyChange_def changeJob_def
      changeDAG_def changeEvent_def putJob_def delJob_def)

lemma jobs_putJob [simp]: "jobs (putJob j s) = AList.update (jID j) j (jobs s)"
  by (simp add: putJob_def)

lemma jobs_delJob [simp]: "jobs (delJob jid s) = AList.delete jid (jobs s)"
  by (simp add: delJob_def)

lemma toJob_fields [simp]:
  "jID (toJob j) = jID j" "jSource (toJob j) = jSource j" "jKind (toJob j) = jKind j"
  "jState (toJob j) = jState j" "jAttempt (toJob j) = jAttempt j"
  "jMaxAttempts (toJob j) = jMaxAttempts j" "jReapCount (toJob j) = jReapCount j"
  "jRunAt (toJob j) = jRunAt j" "jLeaseUntil (toJob j) = jLeaseUntil j"
  "jLeaseToken (toJob j) = jLeaseToken j" "jLastError (toJob j) = jLastError j"
  "jPayload (toJob j) = jPayload j" "jResult (toJob j) = jResult j"
  "jEvent (toJob j) = None" "jMeta (toJob j) \<noteq> None"
  "jEventID (toJob j) = jEventID j" "jDAGID (toJob j) = jDAGID j"
  "jDeadlineAt (toJob j) = jDeadlineAt j" "jSnoozeBudget (toJob j) = jSnoozeBudget j"
  by (simp_all add: toJob_def job.truncate_def clonePayload_def cloneMeta_def split: option.split)

section \<open>Well-formedness of the job map\<close>

text \<open>
  The map is keyed by the job's own id, and only a leased job carries a lease:
  every other state has the nil token and the zero deadline.
\<close>

definition job_ok :: "fakeJob \<Rightarrow> bool" where
  "job_ok j = (jState j \<noteq> StateActive \<longrightarrow> jLeaseToken j = Nil_uuid \<and> jLeaseUntil j = zero_time)"

definition wf_jobs :: "fake \<Rightarrow> bool" where
  "wf_jobs s = (distinct_keys (jobs s) \<and>
     (\<forall>k j. map_of (jobs s) k = Some j \<longrightarrow> jID j = k \<and> job_ok j))"

lemma wf_jobsD:
  "wf_jobs s \<Longrightarrow> distinct_keys (jobs s)"
  "wf_jobs s \<Longrightarrow> map_of (jobs s) k = Some j \<Longrightarrow> jID j = k"
  "wf_jobs s \<Longrightarrow> map_of (jobs s) k = Some j \<Longrightarrow> job_ok j"
  by (auto simp: wf_jobs_def)

lemma wf_jobs_cong: "jobs s' = jobs s \<Longrightarrow> wf_jobs s \<Longrightarrow> wf_jobs s'"
  by (simp add: wf_jobs_def)

lemma wf_jobs_putJob [store_inv]: "wf_jobs s \<Longrightarrow> job_ok j \<Longrightarrow> wf_jobs (putJob j s)"
  by (auto simp: wf_jobs_def distinct_keys_update AList.update_conv' split: if_splits)

lemma wf_jobs_delJob [store_inv]: "wf_jobs s \<Longrightarrow> wf_jobs (delJob jid s)"
  by (auto simp: wf_jobs_def distinct_keys_delete AList.delete_conv' split: if_splits)

lemma wf_jobs_effects [simp]:
  "wf_jobs (recordAttempt jid a e t s) = wf_jobs s"
  "wf_jobs (bumpStat src kind f n t s) = wf_jobs s"
  "wf_jobs (wake src kind s) = wf_jobs s"
  "wf_jobs (notifyChange c s) = wf_jobs s"
  "wf_jobs (changeJob j s) = wf_jobs s"
  "wf_jobs (changeDAG w s) = wf_jobs s"
  "wf_jobs (changeEvent jid et s) = wf_jobs s"
  by (simp_all add: wf_jobs_def)

lemma wf_jobs_NewFake: "wf_jobs (NewFake now)"
  by (simp add: wf_jobs_def NewFake_def)

section \<open>Delivery of hints and wakeups\<close>

text \<open>
  A subscription's buffer never exceeds its capacity, and a dropped hint is
  never silent: a subscription that is not in overflow has received every hint
  since its last reset; one that is in overflow delivers a reset before any
  further hint.
\<close>

lemma notifySub_bounded:
  "length (csCh sub) \<le> changeBuffer \<Longrightarrow> length (csCh (notifySub c sub)) \<le> changeBuffer"
  by (auto simp: notifySub_def Let_def)

lemma notifySub_prefix: "\<exists>xs. csCh (notifySub c sub) = csCh sub @ xs"
  by (auto simp: notifySub_def Let_def)

lemma notifySub_cases:
  "(\<not> csOverflowed sub \<and> csCh (notifySub c sub) = csCh sub @ [c] \<and> \<not> csOverflowed (notifySub c sub))
   \<or> (csOverflowed sub \<and> csCh (notifySub c sub) = csCh sub @ [resetAt (cAt c), c]
        \<and> \<not> csOverflowed (notifySub c sub))
   \<or> (csOverflowed sub \<and> csCh (notifySub c sub) = csCh sub @ [resetAt (cAt c)]
        \<and> csOverflowed (notifySub c sub))
   \<or> (csCh (notifySub c sub) = csCh sub \<and> csOverflowed (notifySub c sub))"
  by (auto simp: notifySub_def Let_def)

end
