(* ===== verification/Store_Contract.thy ===== *)
theory Store_Contract
  imports Driver_Rows
begin

text \<open>
  The contract of \<open>driver.Store\<close> that the runtimes rely on, as an interface:
  the operations of the Go interface as a record of functions over a store
  state (\<open>storeOps\<close>), the job transitions the contract's comments promise
  (\<open>wire_ack\<close>, ...) and the locale \<open>fenced_store\<close>, whose laws say that each
  settlement is fenced by the lease token and performs exactly its transition.
  The in-memory store is an instance, and the PostgreSQL store one of the weaker
  \<open>fenced_store_on\<close>; the engine is verified against the locale only.
\<close>

section \<open>The operations a runtime calls\<close>

record 's storeOps =
  opDequeueBatch :: "source \<Rightarrow> dequeueParams \<Rightarrow> 's \<Rightarrow> ('s, job list) outcome"
  opAck :: "uuid \<Rightarrow> uuid \<Rightarrow> 's \<Rightarrow> ('s, unit) outcome"
  opReschedule :: "uuid \<Rightarrow> uuid \<Rightarrow> duration \<Rightarrow> string \<Rightarrow> 's \<Rightarrow> ('s, unit) outcome"
  opDead :: "uuid \<Rightarrow> uuid \<Rightarrow> string \<Rightarrow> 's \<Rightarrow> ('s, unit) outcome"
  opSkip :: "uuid \<Rightarrow> uuid \<Rightarrow> string \<Rightarrow> 's \<Rightarrow> ('s, unit) outcome"
  opRelease :: "uuid \<Rightarrow> uuid \<Rightarrow> 's \<Rightarrow> ('s, unit) outcome"
  opSnooze :: "uuid \<Rightarrow> uuid \<Rightarrow> duration \<Rightarrow> string \<Rightarrow> 's \<Rightarrow> ('s, bool) outcome"
  opExtendLease :: "uuid \<Rightarrow> uuid \<Rightarrow> duration \<Rightarrow> 's \<Rightarrow> ('s, unit) outcome"
  opPromoteDue :: "source \<Rightarrow> string list \<Rightarrow> 's \<Rightarrow> ('s, int) outcome"
  opReapExpired :: "source \<Rightarrow> string list \<Rightarrow> int \<Rightarrow> 's \<Rightarrow> ('s, int \<times> int) outcome"
  opVacuumStats :: "source \<Rightarrow> duration \<Rightarrow> 's \<Rightarrow> ('s, int) outcome"
  opVacuumIdempotency :: "source \<Rightarrow> 's \<Rightarrow> ('s, int) outcome"
  opVacuumCompleted :: "source \<Rightarrow> duration \<Rightarrow> 's \<Rightarrow> ('s, int) outcome"
  opVacuumDead :: "source \<Rightarrow> string \<Rightarrow> duration \<Rightarrow> 's \<Rightarrow> ('s, int) outcome"

section \<open>The transitions the contract promises\<close>

definition wire_ack :: "time \<Rightarrow> 'a job_scheme \<Rightarrow> 'a job_scheme" where
  "wire_ack now j =
     j\<lparr>jState := StateSucceeded, jLeaseToken := Nil_uuid, jLeaseUntil := zero_time, jCompletedAt := now\<rparr>"

definition wire_reschedule :: "duration \<Rightarrow> string \<Rightarrow> time \<Rightarrow> 'a job_scheme \<Rightarrow> 'a job_scheme" where
  "wire_reschedule delay err now j =
     j\<lparr>jState := StateScheduled, jRunAt := now + delay, jLeaseToken := Nil_uuid,
       jLeaseUntil := zero_time, jLastError := err, jFailedAt := now\<rparr>"

definition wire_dead :: "string \<Rightarrow> time \<Rightarrow> 'a job_scheme \<Rightarrow> 'a job_scheme" where
  "wire_dead err now j =
     j\<lparr>jState := StateDead, jLeaseToken := Nil_uuid, jLeaseUntil := zero_time, jLastError := err,
       jFailedAt := now\<rparr>"

definition wire_skip :: "string \<Rightarrow> time \<Rightarrow> 'a job_scheme \<Rightarrow> 'a job_scheme" where
  "wire_skip reason now j =
     j\<lparr>jState := StateSkipped, jLeaseToken := Nil_uuid, jLeaseUntil := zero_time, jLastError := reason,
       jCompletedAt := now\<rparr>"

definition wire_release :: "time \<Rightarrow> 'a job_scheme \<Rightarrow> 'a job_scheme" where
  "wire_release now j =
     j\<lparr>jState := StatePending, jAttempt := max (jAttempt j - 1) 0, jLeaseToken := Nil_uuid,
       jLeaseUntil := zero_time, jRunAt := now\<rparr>"

definition deadlined :: "time \<Rightarrow> 'a job_scheme \<Rightarrow> bool" where
  "deadlined now j = (jDeadlineAt j \<noteq> zero_time \<and> jDeadlineAt j \<le> now)"

definition wire_snooze :: "duration \<Rightarrow> string \<Rightarrow> time \<Rightarrow> 'a job_scheme \<Rightarrow> 'a job_scheme" where
  "wire_snooze delay err now j =
     (if deadlined now j then wire_dead err now j
      else j\<lparr>jDeadlineAt := (if jDeadlineAt j = zero_time \<and> jSnoozeBudget j > 0
                             then now + jSnoozeBudget j else jDeadlineAt j),
             jState := StateScheduled, jRunAt := now + delay, jAttempt := max (jAttempt j - 1) 0,
             jLeaseToken := Nil_uuid, jLeaseUntil := zero_time\<rparr>)"

definition wire_extend :: "duration \<Rightarrow> time \<Rightarrow> 'a job_scheme \<Rightarrow> 'a job_scheme" where
  "wire_extend lease now j = j\<lparr>jLeaseUntil := now + lease\<rparr>"

lemmas wire_defs = wire_ack_def wire_reschedule_def wire_dead_def wire_skip_def
  wire_release_def wire_snooze_def wire_extend_def

lemma wire_leaves_active:
  "jState (wire_ack now j) \<noteq> StateActive"
  "jState (wire_reschedule delay err now j) \<noteq> StateActive"
  "jState (wire_dead err now j) \<noteq> StateActive"
  "jState (wire_skip err now j) \<noteq> StateActive"
  "jState (wire_release now j) \<noteq> StateActive"
  "jState (wire_snooze delay err now j) \<noteq> StateActive"
  by (simp_all add: wire_defs)

section \<open>Fencing\<close>

definition owned :: "('s \<Rightarrow> uuid \<Rightarrow> job option) \<Rightarrow> uuid \<Rightarrow> uuid \<Rightarrow> 's \<Rightarrow> bool" where
  "owned job_at jid tok s =
     (case job_at s jid of None \<Rightarrow> False | Some j \<Rightarrow> jState j = StateActive \<and> jLeaseToken j = tok)"

text \<open>
  \<open>fenced job_at now invar opn tr res f\<close>: on a state satisfying \<open>invar\<close>, the
  operation \<open>f\<close> of name \<open>opn\<close> applies the transition \<open>tr\<close> to exactly the job the
  token owns and returns \<open>res\<close>; without ownership it answers not-found and
  leaves the state as it was.
\<close>

definition fenced ::
  "('s \<Rightarrow> uuid \<Rightarrow> job option) \<Rightarrow> ('s \<Rightarrow> time) \<Rightarrow> ('s \<Rightarrow> bool) \<Rightarrow> string \<Rightarrow> (time \<Rightarrow> job \<Rightarrow> job)
    \<Rightarrow> (time \<Rightarrow> job \<Rightarrow> 'r) \<Rightarrow> (uuid \<Rightarrow> uuid \<Rightarrow> 's \<Rightarrow> ('s, 'r) outcome) \<Rightarrow> bool" where
  "fenced job_at now invar opn tr res f \<longleftrightarrow>
     (\<forall>s jid tok. invar s \<longrightarrow>
        (if owned job_at jid tok s
         then \<exists>s'. f jid tok s = (Inr (res (now s) (the (job_at s jid))), s') \<and> invar s' \<and> now s' = now s \<and>
                job_at s' = (job_at s)(jid \<mapsto> tr (now s) (the (job_at s jid)))
         else f jid tok s = (Inl (NotFound opn), s)))"

lemma fencedI:
  assumes "\<And>s jid tok. invar s \<Longrightarrow> \<not> owned job_at jid tok s \<Longrightarrow> f jid tok s = (Inl (NotFound opn), s)"
    and "\<And>s jid tok j. invar s \<Longrightarrow> job_at s jid = Some j \<Longrightarrow> jState j = StateActive \<Longrightarrow> jLeaseToken j = tok \<Longrightarrow>
      \<exists>s'. f jid tok s = (Inr (res (now s) j), s') \<and> invar s' \<and> now s' = now s \<and>
           job_at s' = (job_at s)(jid \<mapsto> tr (now s) j)"
  shows "fenced job_at now invar opn tr res f"
  using assms by (auto simp: fenced_def owned_def split: option.splits)

lemma fenced_stale:
  "fenced job_at now invar opn tr res f \<Longrightarrow> invar s \<Longrightarrow> \<not> owned job_at jid tok s \<Longrightarrow>
   f jid tok s = (Inl (NotFound opn), s)"
  by (simp add: fenced_def)

lemma fenced_owned:
  assumes "fenced job_at now invar opn tr res f" "invar s" "job_at s jid = Some j"
    "jState j = StateActive" "jLeaseToken j = tok"
  obtains s' where "f jid tok s = (Inr (res (now s) j), s')" "invar s'" "now s' = now s"
    "job_at s' = (job_at s)(jid \<mapsto> tr (now s) j)"
proof -
  from assms(3-5) have own: "owned job_at jid tok s" by (simp add: owned_def)
  have "if owned job_at jid tok s
    then \<exists>s'. f jid tok s = (Inr (res (now s) (the (job_at s jid))), s') \<and> invar s' \<and> now s' = now s \<and>
                job_at s' = (job_at s)(jid \<mapsto> tr (now s) (the (job_at s jid)))
    else f jid tok s = (Inl (NotFound opn), s)"
    using assms(1,2) unfolding fenced_def by blast
  with own assms(3) show thesis using that by auto
qed

lemma fenced_ok_owned:
  "fenced job_at now invar opn tr res f \<Longrightarrow> invar s \<Longrightarrow> f jid tok s = (Inr r, s') \<Longrightarrow> owned job_at jid tok s"
  by (rule ccontr) (simp add: fenced_stale)

lemma fenced_wf:
  assumes "fenced job_at now invar opn tr res f" "invar s"
  shows "invar (snd (f jid tok s))"
proof (cases "owned job_at jid tok s")
  case True
  then obtain j where "job_at s jid = Some j" "jState j = StateActive" "jLeaseToken j = tok"
    by (auto simp: owned_def split: option.splits)
  then obtain s' where "f jid tok s = (Inr (res (now s) j), s')" "invar s'"
    by (rule fenced_owned [OF assms])
  then show ?thesis by simp
qed (simp add: fenced_stale [OF assms] assms(2))

text \<open>
  A settlement whose transition leaves the active state consumes the lease: no
  operation fenced by the same token succeeds afterwards.
\<close>

lemma fenced_consumes:
  assumes "fenced job_at now invar opn tr res f" "invar s" "f jid tok s = (Inr r, s')"
    and "\<And>j. jState (tr (now s) j) \<noteq> StateActive"
  shows "invar s' \<and> \<not> owned job_at jid tok s'"
proof -
  from assms(1-3) have "owned job_at jid tok s" by (rule fenced_ok_owned)
  then obtain j where "job_at s jid = Some j" "jState j = StateActive" "jLeaseToken j = tok"
    by (auto simp: owned_def split: option.splits)
  from fenced_owned [OF assms(1,2) this] assms(3)
  have "invar s'" "job_at s' = (job_at s)(jid \<mapsto> tr (now s) j)" by auto
  with assms(4) show ?thesis by (simp add: owned_def)
qed

section \<open>Settlements\<close>

text \<open>
  The six settlements as one datatype, so that a fact about any settlement is
  one statement. \<open>settle_with\<close> dispatches to the operation of the interface;
  its answer is \<open>Snooze\<close>'s flag, and \<open>False\<close> for the operations without one.
\<close>

datatype settlement =
    DoAck
  | DoReschedule duration string
  | DoDead string
  | DoSkip string
  | DoRelease
  | DoSnooze duration string

definition no_flag :: "('s, unit) outcome \<Rightarrow> ('s, bool) outcome" where
  "no_flag r = (map_sum (\<lambda>e. e) (\<lambda>_. False) (fst r), snd r)"

lemma no_flag_simps [simp]:
  "no_flag (Inl e, s) = (Inl e, s)" "no_flag (Inr u, s) = (Inr False, s)"
  by (simp_all add: no_flag_def)

fun settle_with :: "'s storeOps \<Rightarrow> settlement \<Rightarrow> uuid \<Rightarrow> uuid \<Rightarrow> 's \<Rightarrow> ('s, bool) outcome" where
  "settle_with ops DoAck jid tok s = no_flag (opAck ops jid tok s)"
| "settle_with ops (DoReschedule delay err) jid tok s = no_flag (opReschedule ops jid tok delay err s)"
| "settle_with ops (DoDead err) jid tok s = no_flag (opDead ops jid tok err s)"
| "settle_with ops (DoSkip err) jid tok s = no_flag (opSkip ops jid tok err s)"
| "settle_with ops DoRelease jid tok s = no_flag (opRelease ops jid tok s)"
| "settle_with ops (DoSnooze delay err) jid tok s = opSnooze ops jid tok delay err s"

fun settle_name :: "settlement \<Rightarrow> string" where
  "settle_name DoAck = ''ack''"
| "settle_name (DoReschedule delay err) = ''reschedule''"
| "settle_name (DoDead err) = ''dead''"
| "settle_name (DoSkip err) = ''skip''"
| "settle_name DoRelease = ''release''"
| "settle_name (DoSnooze delay err) = ''snooze''"

fun settle_wire :: "settlement \<Rightarrow> time \<Rightarrow> 'a job_scheme \<Rightarrow> 'a job_scheme" where
  "settle_wire DoAck now j = wire_ack now j"
| "settle_wire (DoReschedule delay err) now j = wire_reschedule delay err now j"
| "settle_wire (DoDead err) now j = wire_dead err now j"
| "settle_wire (DoSkip err) now j = wire_skip err now j"
| "settle_wire DoRelease now j = wire_release now j"
| "settle_wire (DoSnooze delay err) now j = wire_snooze delay err now j"

fun settle_result :: "settlement \<Rightarrow> time \<Rightarrow> 'a job_scheme \<Rightarrow> bool" where
  "settle_result (DoSnooze delay err) now j = deadlined now j"
| "settle_result c now j = False"

lemma settlement_eta:
  "settle_with ops DoAck = (\<lambda>jid tok s. no_flag (opAck ops jid tok s))"
  "settle_with ops (DoReschedule delay err) = (\<lambda>jid tok s. no_flag (opReschedule ops jid tok delay err s))"
  "settle_with ops (DoDead err) = (\<lambda>jid tok s. no_flag (opDead ops jid tok err s))"
  "settle_with ops (DoSkip err) = (\<lambda>jid tok s. no_flag (opSkip ops jid tok err s))"
  "settle_with ops DoRelease = (\<lambda>jid tok s. no_flag (opRelease ops jid tok s))"
  "settle_with ops (DoSnooze delay err) = (\<lambda>jid tok s. opSnooze ops jid tok delay err s)"
  "settle_wire DoAck = wire_ack" "settle_wire (DoReschedule delay err) = wire_reschedule delay err"
  "settle_wire (DoDead err) = wire_dead err" "settle_wire (DoSkip err) = wire_skip err"
  "settle_wire DoRelease = wire_release" "settle_wire (DoSnooze delay err) = wire_snooze delay err"
  "settle_result DoAck = (\<lambda>_ _. False)" "settle_result (DoReschedule delay err) = (\<lambda>_ _. False)"
  "settle_result (DoDead err) = (\<lambda>_ _. False)" "settle_result (DoSkip err) = (\<lambda>_ _. False)"
  "settle_result DoRelease = (\<lambda>_ _. False)" "settle_result (DoSnooze delay err) = deadlined"
  by (simp_all add: fun_eq_iff)

lemma fenced_no_flag:
  assumes f: "fenced job_at now invar opn tr (\<lambda>_ _. ()) f"
  shows "fenced job_at now invar opn tr (\<lambda>_ _. False) (\<lambda>jid tok s. no_flag (f jid tok s))"
proof (rule fencedI)
  fix s jid tok
  assume "invar s" "\<not> owned job_at jid tok s"
  with f show "no_flag (f jid tok s) = (Inl (NotFound opn), s)"
    by (simp add: fenced_stale)
next
  fix s jid tok j
  assume "invar s" "job_at s jid = Some j" "jState j = StateActive" "jLeaseToken j = tok"
  from fenced_owned [OF f this]
  show "\<exists>s'. no_flag (f jid tok s) = (Inr False, s') \<and> invar s' \<and> now s' = now s \<and>
    job_at s' = (job_at s)(jid \<mapsto> tr (now s) j)" by force
qed

lemma settle_wire_leaves_active: "jState (settle_wire c now j) \<noteq> StateActive"
  by (cases c) (simp_all add: wire_leaves_active)

section \<open>The contract\<close>

text \<open>
  \<open>fenced_store_on\<close> is the contract of a store that keeps durations exactly only
  where \<open>dur\<close> holds: a backend may round the others. \<open>fenced_store\<close> is the contract of
  a store that keeps every duration.
\<close>

fun settle_dur :: "(duration \<Rightarrow> bool) \<Rightarrow> settlement \<Rightarrow> bool" where
  "settle_dur dur (DoReschedule delay err) = dur delay"
| "settle_dur dur (DoSnooze delay err) = dur delay"
| "settle_dur dur c = True"

locale fenced_store_on =
  fixes ops :: "'s storeOps"
    and now :: "'s \<Rightarrow> time"
    and job_at :: "'s \<Rightarrow> uuid \<Rightarrow> job option"
    and invar :: "'s \<Rightarrow> bool"
    and dur :: "duration \<Rightarrow> bool"
  assumes ack_law: "fenced job_at now invar ''ack'' wire_ack (\<lambda>_ _. ()) (opAck ops)"
    and reschedule_law: "dur delay \<Longrightarrow> fenced job_at now invar ''reschedule'' (wire_reschedule delay err) (\<lambda>_ _. ())
          (\<lambda>jid tok. opReschedule ops jid tok delay err)"
    and dead_law: "fenced job_at now invar ''dead'' (wire_dead err) (\<lambda>_ _. ())
          (\<lambda>jid tok. opDead ops jid tok err)"
    and skip_law: "fenced job_at now invar ''skip'' (wire_skip err) (\<lambda>_ _. ())
          (\<lambda>jid tok. opSkip ops jid tok err)"
    and release_law: "fenced job_at now invar ''release'' wire_release (\<lambda>_ _. ()) (opRelease ops)"
    and snooze_law: "dur delay \<Longrightarrow> fenced job_at now invar ''snooze'' (wire_snooze delay err) deadlined
          (\<lambda>jid tok. opSnooze ops jid tok delay err)"
    and extend_law: "dur lease \<Longrightarrow> fenced job_at now invar ''extend lease'' (wire_extend lease) (\<lambda>_ _. ())
          (\<lambda>jid tok. opExtendLease ops jid tok lease)"
begin

lemma settle_fenced_on:
  assumes "settle_dur dur c"
  shows "fenced job_at now invar (settle_name c) (settle_wire c) (settle_result c) (settle_with ops c)"
proof (cases c)
  case DoAck
  then show ?thesis using fenced_no_flag [OF ack_law] by (simp add: settlement_eta)
next
  case (DoReschedule delay err)
  with assms show ?thesis using fenced_no_flag [OF reschedule_law] by (simp add: settlement_eta)
next
  case (DoDead err)
  then show ?thesis using fenced_no_flag [OF dead_law] by (simp add: settlement_eta)
next
  case (DoSkip err)
  then show ?thesis using fenced_no_flag [OF skip_law] by (simp add: settlement_eta)
next
  case DoRelease
  then show ?thesis using fenced_no_flag [OF release_law] by (simp add: settlement_eta)
next
  case (DoSnooze delay err)
  with assms show ?thesis using snooze_law by (simp add: settlement_eta)
qed

lemma settle_consumes_on:
  "invar s \<Longrightarrow> settle_dur dur c \<Longrightarrow> settle_with ops c jid tok s = (Inr r, s') \<Longrightarrow>
   invar s' \<and> \<not> owned job_at jid tok s'"
  by (rule fenced_consumes [OF settle_fenced_on]) (simp_all add: settle_wire_leaves_active)

text \<open>
  A lease is settled at most once: after one settlement with a token, every
  settlement and every renewal with the same token is refused and changes
  nothing.
\<close>

lemma settled_once_on:
  assumes "invar s" "settle_dur dur c" "settle_with ops c jid tok s = (Inr r, s')"
  shows "settle_dur dur c' \<Longrightarrow> settle_with ops c' jid tok s' = (Inl (NotFound (settle_name c')), s')"
    and "dur lease \<Longrightarrow> opExtendLease ops jid tok lease s' = (Inl (NotFound ''extend lease''), s')"
proof -
  from settle_consumes_on [OF assms] have 1: "invar s'" "\<not> owned job_at jid tok s'" by auto
  show "settle_with ops c' jid tok s' = (Inl (NotFound (settle_name c')), s')" if "settle_dur dur c'"
    by (rule fenced_stale [OF settle_fenced_on [OF that] 1])
  show "opExtendLease ops jid tok lease s' = (Inl (NotFound ''extend lease''), s')" if "dur lease"
    using fenced_stale [OF extend_law [OF that] 1] by simp
qed

end

locale fenced_store = fenced_store_on ops now job_at invar "\<lambda>_. True"
  for ops :: "'s storeOps" and now job_at invar
begin

lemma settle_any_dur: "settle_dur (\<lambda>_. True) c"
  by (cases c) simp_all

lemma settle_fenced:
  "fenced job_at now invar (settle_name c) (settle_wire c) (settle_result c) (settle_with ops c)"
  by (rule settle_fenced_on [OF settle_any_dur])

lemma settled_once:
  assumes "invar s" "settle_with ops c jid tok s = (Inr r, s')"
  shows "settle_with ops c' jid tok s' = (Inl (NotFound (settle_name c')), s')"
    and "opExtendLease ops jid tok lease s' = (Inl (NotFound ''extend lease''), s')"
  by (rule settled_once_on [OF assms(1) settle_any_dur assms(2)], simp_all add: settle_any_dur)+

end

end
