(* ===== verification/Fake_Jobs.thy ===== *)
theory Fake_Jobs
  imports Fake_State Store_Contract
begin

text \<open>
  The mandatory job operations of the in-memory store (\<open>fake.go\<close>, sections
  producers, fetch, settlement and maintenance): \<open>Enqueue\<close> with its two dedupe
  modes and coalescing, \<open>DequeueBatch\<close>, the lease-fenced settlements, and the
  maintenance passes. Publishing is in \<open>Fake_Ledger\<close>, the operator verbs in
  \<open>Fake_Admin\<close>.
\<close>

section \<open>Enqueue\<close>

definition live_dup :: "enqueueParams \<Rightarrow> fakeJob \<Rightarrow> bool" where
  "live_dup p j = (jSource j = SourceQueue \<and> jKind j = epKind p \<and>
     idempotencyKey j = epIdempotencyKey p \<and> live_key (jState j))"

definition coalesces :: "enqueueParams \<Rightarrow> fakeJob \<Rightarrow> bool" where
  "coalesces p j = (jSource j = SourceQueue \<and> jKind j = epKind p \<and> coalesceKey j = epCoalesceKey p \<and>
     (jState j = StatePending \<or> jState j = StateScheduled))"

definition reserved :: "enqueueParams \<Rightarrow> fake \<Rightarrow> bool" where
  "reserved p s = (epIdempotencyTTL p > 0 \<and>
     (case map_of (idempotency s) (SourceQueue, epKind p, epIdempotencyKey p) of
        None \<Rightarrow> False | Some exp \<Rightarrow> exp > clock s))"

definition enqueue_runAt :: "enqueueParams \<Rightarrow> time \<Rightarrow> time" where
  "enqueue_runAt p now = (if epRunAt p = zero_time then now + epDelay p else epRunAt p)"

definition enqueue_state :: "time \<Rightarrow> time \<Rightarrow> job_state" where
  "enqueue_state runAt now = (if runAt > now then StateScheduled else StatePending)"

definition enqueue_job :: "enqueueParams \<Rightarrow> time \<Rightarrow> int \<Rightarrow> fakeJob" where
  "enqueue_job p now sq =
     (let runAt = enqueue_runAt p now
      in zeroJob\<lparr>jID := epID p, jSource := SourceQueue, jKind := epKind p,
           jState := enqueue_state runAt now, jMaxAttempts := epMaxAttempts p,
           jPayload := clonePayload (epPayload p), jMeta := cloneMeta (epMeta p), jRunAt := runAt,
           jEnqueuedAt := now, maxAttemptsExplicit := epMaxAttemptsExplicit p,
           idempotencyKey := epIdempotencyKey p, coalesceKey := epCoalesceKey p, seq := sq\<rparr>)"

definition Enqueue :: "enqueueParams \<Rightarrow> fake \<Rightarrow> (fake, bool) outcome" where
  "Enqueue p s =
     (let now = clock s in
      if epIdempotencyKey p \<noteq> [] \<and> list_ex (live_dup p) (map snd (jobs s)) then (Inr False, s)
      else if epIdempotencyKey p \<noteq> [] \<and> reserved p s then (Inr False, s)
      else if epCoalesceKey p \<noteq> [] \<and> list_ex (coalesces p) (map snd (jobs s)) then (Inr False, s)
      else if map_of (jobs s) (epID p) \<noteq> None then (Inl AlreadyExists, s)
      else
        let s1 = (if epIdempotencyKey p \<noteq> [] \<and> epIdempotencyTTL p > 0
                  then s\<lparr>idempotency := AList.update (SourceQueue, epKind p, epIdempotencyKey p)
                           (now + epIdempotencyTTL p) (idempotency s)\<rparr>
                  else s);
            (sq, s2) = nextSeq s1;
            j = enqueue_job p now sq;
            s3 = changeJob j (bumpStat SourceQueue (epKind p) statEnqueued 1 now (putJob j s2));
            s4 = (if jState j = StatePending then wake SourceQueue (epKind p) s3 else s3)
        in (Inr True, s4))"

section \<open>DequeueBatch\<close>

definition is_due :: "source \<Rightarrow> string \<Rightarrow> time \<Rightarrow> fakeJob \<Rightarrow> bool" where
  "is_due src kind now j = (jSource j = src \<and> jKind j = kind \<and> jState j = StatePending \<and> \<not> jRunAt j > now)"

definition lease_order :: "fakeJob \<Rightarrow> time \<times> uuid" where
  "lease_order j = (jRunAt j, jID j)"

definition due_jobs :: "source \<Rightarrow> dequeueParams \<Rightarrow> fake \<Rightarrow> fakeJob list" where
  "due_jobs src p s =
     (let due = sort_key lease_order (filter (is_due src (dpKind p) (clock s)) (map snd (jobs s)))
      in if int (length due) > dpLimit p then take (nat (dpLimit p)) due else due)"

definition lease_job :: "dequeueParams \<Rightarrow> time \<Rightarrow> uuid \<Rightarrow> fakeJob \<Rightarrow> fakeJob" where
  "lease_job p now tok j =
     j\<lparr>jAttempt := jAttempt j + 1,
       jMaxAttempts := (if \<not> maxAttemptsExplicit j \<and> dpOverrideDefault p
                        then dpDefaultMaxAttempts p else jMaxAttempts j),
       maxAttemptsExplicit := True, jState := StateActive, jLeaseToken := tok,
       jLeaseUntil := now + dpLease p, jStartedAt := now\<rparr>"

definition rehydrate :: "source \<Rightarrow> fake \<Rightarrow> fakeJob \<Rightarrow> job" where
  "rehydrate src s j =
     (let leased = toJob j
      in if src = SourceEvent
         then (case map_of (events s) (jEventID j) of
                 None \<Rightarrow> leased
               | Some rec \<Rightarrow> leased\<lparr>jEvent := Some (rec\<lparr>evPayload := clonePayload (evPayload rec),
                                                      evMeta := cloneMeta (evMeta rec)\<rparr>)\<rparr>)
         else leased)"

definition dequeue_step ::
  "(nat \<Rightarrow> uuid) \<Rightarrow> source \<Rightarrow> dequeueParams \<Rightarrow> fakeJob \<Rightarrow> job list \<times> fake \<Rightarrow> job list \<times> fake" where
  "dequeue_step gen src p j st =
     (let (out, s) = st;
          j' = lease_job p (clock s) (gen (draws s)) j;
          s' = changeJob j' (putJob j' (s\<lparr>draws := Suc (draws s)\<rparr>))
      in (out @ [rehydrate src s' j'], s'))"

definition DequeueBatch ::
  "(nat \<Rightarrow> uuid) \<Rightarrow> source \<Rightarrow> dequeueParams \<Rightarrow> fake \<Rightarrow> (fake, job list) outcome" where
  "DequeueBatch gen src p s =
     (if dpLimit p \<le> 0 then (Inr [], s)
      else let (out, s') = fold (dequeue_step gen src p) (due_jobs src p s) ([], s)
           in (Inr out, s'))"

section \<open>Settlement\<close>

definition settle :: "string \<Rightarrow> uuid \<Rightarrow> uuid \<Rightarrow> fake \<Rightarrow> error + fakeJob" where
  "settle opn jid leaseToken s =
     (case map_of (jobs s) jid of
        None \<Rightarrow> Inl (NotFound opn)
      | Some j \<Rightarrow> if jState j \<noteq> StateActive \<or> jLeaseToken j \<noteq> leaseToken
                  then Inl (NotFound opn) else Inr j)"

definition Ack :: "uuid \<Rightarrow> uuid \<Rightarrow> fake \<Rightarrow> (fake, unit) outcome" where
  "Ack jid leaseToken s =
     (case settle ''ack'' jid leaseToken s of
        Inl e \<Rightarrow> (Inl e, s)
      | Inr j \<Rightarrow>
          let now = clock s;
              j' = j\<lparr>jState := StateSucceeded, jLeaseToken := Nil_uuid, jLeaseUntil := zero_time,
                     jCompletedAt := now\<rparr>
          in (Inr (), changeJob j' (bumpStat (jSource j) (jKind j) statProcessed 1 now (putJob j' s))))"

definition Reschedule :: "uuid \<Rightarrow> uuid \<Rightarrow> duration \<Rightarrow> string \<Rightarrow> fake \<Rightarrow> (fake, unit) outcome" where
  "Reschedule jid leaseToken delay lastError s =
     (case settle ''reschedule'' jid leaseToken s of
        Inl e \<Rightarrow> (Inl e, s)
      | Inr j \<Rightarrow>
          let now = clock s;
              j' = j\<lparr>jState := StateScheduled, jRunAt := now + delay, jLeaseToken := Nil_uuid,
                     jLeaseUntil := zero_time, jLastError := lastError, jFailedAt := now\<rparr>
          in (Inr (), changeJob j' (bumpStat (jSource j) (jKind j) statFailed 1 now
                (recordAttempt (jID j) (jAttempt j) lastError now (putJob j' s)))))"

definition Dead :: "uuid \<Rightarrow> uuid \<Rightarrow> string \<Rightarrow> fake \<Rightarrow> (fake, unit) outcome" where
  "Dead jid leaseToken lastError s =
     (case settle ''dead'' jid leaseToken s of
        Inl e \<Rightarrow> (Inl e, s)
      | Inr j \<Rightarrow>
          let now = clock s;
              j' = j\<lparr>jState := StateDead, jLeaseToken := Nil_uuid, jLeaseUntil := zero_time,
                     jLastError := lastError, jFailedAt := now\<rparr>
          in (Inr (), changeJob j' (bumpStat (jSource j) (jKind j) statFailed 1 now
                (recordAttempt (jID j) (jAttempt j) lastError now (putJob j' s)))))"

definition Skip :: "uuid \<Rightarrow> uuid \<Rightarrow> string \<Rightarrow> fake \<Rightarrow> (fake, unit) outcome" where
  "Skip jid leaseToken reason s =
     (case settle ''skip'' jid leaseToken s of
        Inl e \<Rightarrow> (Inl e, s)
      | Inr j \<Rightarrow>
          let now = clock s;
              j' = j\<lparr>jState := StateSkipped, jLeaseToken := Nil_uuid, jLeaseUntil := zero_time,
                     jLastError := reason, jCompletedAt := now\<rparr>
          in (Inr (), changeJob j' (bumpStat (jSource j) (jKind j) statProcessed 1 now (putJob j' s))))"

definition Release :: "uuid \<Rightarrow> uuid \<Rightarrow> fake \<Rightarrow> (fake, unit) outcome" where
  "Release jid leaseToken s =
     (case settle ''release'' jid leaseToken s of
        Inl e \<Rightarrow> (Inl e, s)
      | Inr j \<Rightarrow>
          let now = clock s;
              j' = j\<lparr>jState := StatePending, jAttempt := max (jAttempt j - 1) 0,
                     jLeaseToken := Nil_uuid, jLeaseUntil := zero_time, jRunAt := now\<rparr>
          in (Inr (), wake (jSource j) (jKind j) (changeJob j' (putJob j' s))))"

definition Snooze :: "uuid \<Rightarrow> uuid \<Rightarrow> duration \<Rightarrow> string \<Rightarrow> fake \<Rightarrow> (fake, bool) outcome" where
  "Snooze jid leaseToken delay deadlineError s =
     (case settle ''snooze'' jid leaseToken s of
        Inl e \<Rightarrow> (Inl e, s)
      | Inr j \<Rightarrow>
          let now = clock s in
          if jDeadlineAt j \<noteq> zero_time \<and> \<not> now < jDeadlineAt j
          then
            let j' = j\<lparr>jState := StateDead, jLeaseToken := Nil_uuid, jLeaseUntil := zero_time,
                       jLastError := deadlineError, jFailedAt := now\<rparr>
            in (Inr True, changeJob j' (bumpStat (jSource j) (jKind j) statFailed 1 now
                  (recordAttempt (jID j) (jAttempt j) deadlineError now (putJob j' s))))
          else
            let j' = j\<lparr>jDeadlineAt := (if jDeadlineAt j = zero_time \<and> jSnoozeBudget j > 0
                                        then now + jSnoozeBudget j else jDeadlineAt j),
                       jState := StateScheduled, jRunAt := now + delay,
                       jAttempt := max (jAttempt j - 1) 0,
                       jLeaseToken := Nil_uuid, jLeaseUntil := zero_time\<rparr>
            in (Inr False, changeJob j' (putJob j' s)))"

definition ExtendLease :: "uuid \<Rightarrow> uuid \<Rightarrow> duration \<Rightarrow> fake \<Rightarrow> (fake, unit) outcome" where
  "ExtendLease jid leaseToken lease s =
     (case settle ''extend lease'' jid leaseToken s of
        Inl e \<Rightarrow> (Inl e, s)
      | Inr j \<Rightarrow> (Inr (), putJob (j\<lparr>jLeaseUntil := clock s + lease\<rparr>) s))"

section \<open>Maintenance\<close>

text \<open>
  The loops below carry the function's counters beside the store, as the Go
  locals do.
\<close>

definition promotable :: "source \<Rightarrow> string list \<Rightarrow> time \<Rightarrow> fakeJob \<Rightarrow> bool" where
  "promotable src kinds now j =
     (jSource j = src \<and> sliceSet kinds (jKind j) \<and> jState j = StateScheduled \<and> \<not> jRunAt j > now)"

definition promote_body ::
  "source \<Rightarrow> string list \<Rightarrow> uuid \<Rightarrow> fakeJob \<Rightarrow> int \<times> fake \<Rightarrow> int \<times> fake" where
  "promote_body src kinds k j st =
     (let (promoted, s) = st in
      if promotable src kinds (clock s) j
      then let j' = j\<lparr>jState := StatePending\<rparr>
           in (promoted + 1, wake src (jKind j) (changeJob j' (putJob j' s)))
      else st)"

definition PromoteDue :: "source \<Rightarrow> string list \<Rightarrow> fake \<Rightarrow> (fake, int) outcome" where
  "PromoteDue src kinds s =
     (if kinds = [] then (Inr 0, s)
      else let (promoted, s') = range_fold (jobs \<circ> snd) (promote_body src kinds) (0, s)
           in (Inr promoted, s'))"

definition expired :: "source \<Rightarrow> string list \<Rightarrow> time \<Rightarrow> fakeJob \<Rightarrow> bool" where
  "expired src kinds now j =
     (jSource j = src \<and> sliceSet kinds (jKind j) \<and> jState j = StateActive \<and> jLeaseUntil j < now)"

definition reaped_job :: "int \<Rightarrow> time \<Rightarrow> fakeJob \<Rightarrow> fakeJob" where
  "reaped_job maxReaps now j =
     (let j1 = j\<lparr>jReapCount := jReapCount j + 1, jLeaseToken := Nil_uuid, jLeaseUntil := zero_time\<rparr>
      in if jReapCount j1 \<ge> maxReaps
         then j1\<lparr>jState := StateDead, jLastError := ''lease expired '' @ itoa (jReapCount j1) @ '' times'', jFailedAt := now\<rparr>
         else j1\<lparr>jState := StatePending\<rparr>)"

definition reap_body ::
  "source \<Rightarrow> string list \<Rightarrow> int \<Rightarrow> uuid \<Rightarrow> fakeJob
     \<Rightarrow> (int \<times> int \<times> (string \<times> int) list) \<times> fake \<Rightarrow> (int \<times> int \<times> (string \<times> int) list) \<times> fake" where
  "reap_body src kinds maxReaps k j st =
     (let ((reaped, killed, perKind), s) = st; now = clock s in
      if \<not> expired src kinds now j then st
      else
        let j' = reaped_job maxReaps now j;
            perKind' = AList.update (jKind j) (the_default 0 (map_of perKind (jKind j)) + 1) perKind;
            s1 = putJob j' s;
            s2 = (if jState j' = StateDead
                  then recordAttempt (jID j) (jAttempt j) (jLastError j') now s1
                  else wake src (jKind j) s1)
        in ((reaped + 1, killed + (if jState j' = StateDead then 1 else 0), perKind'), changeJob j' s2))"

definition ReapExpired ::
  "source \<Rightarrow> string list \<Rightarrow> int \<Rightarrow> fake \<Rightarrow> (fake, int \<times> int) outcome" where
  "ReapExpired src kinds maxReaps s =
     (if kinds = [] then (Inr (0, 0), s)
      else
        let ((reaped, killed, perKind), s') =
              range_fold (jobs \<circ> snd) (reap_body src kinds maxReaps) ((0, 0, []), s)
        in (Inr (reaped, killed),
            fold (\<lambda>(kind, n) st. bumpStat src kind statReaped n (clock s) st) perKind s'))"

definition VacuumStats :: "source \<Rightarrow> duration \<Rightarrow> fake \<Rightarrow> (fake, int) outcome" where
  "VacuumStats src retention s =
     (if retention \<le> 0 then (Inr 0, s)
      else
        let cutoff = dayOf (clock s - retention);
            old = (\<lambda>(k, c). (case k of (ksrc, kind, day) \<Rightarrow> ksrc = src \<and> day < cutoff))
        in (Inr (int (length (filter old (stats s)))), s\<lparr>stats := filter (\<lambda>e. \<not> old e) (stats s)\<rparr>))"

definition VacuumIdempotency :: "source \<Rightarrow> fake \<Rightarrow> (fake, int) outcome" where
  "VacuumIdempotency src s =
     (let gone = (\<lambda>(k, exp). fst k = src \<and> \<not> exp > clock s)
      in (Inr (int (length (filter gone (idempotency s)))),
          s\<lparr>idempotency := filter (\<lambda>e. \<not> gone e) (idempotency s)\<rparr>))"

definition vacuumable :: "source \<Rightarrow> time \<Rightarrow> fakeJob \<Rightarrow> bool" where
  "vacuumable src cutoff j =
     (jSource j = src \<and> jState j = StateSucceeded \<and> jCompletedAt j < cutoff \<and>
      jDAGID j = Nil_uuid \<and> jRunID j = Nil_uuid)"

definition delete_body :: "(fakeJob \<Rightarrow> bool) \<Rightarrow> uuid \<Rightarrow> fakeJob \<Rightarrow> int \<times> fake \<Rightarrow> int \<times> fake" where
  "delete_body P k j st = (let (removed, s) = st in if P j then (removed + 1, delJob k s) else st)"

definition VacuumCompleted :: "source \<Rightarrow> duration \<Rightarrow> fake \<Rightarrow> (fake, int) outcome" where
  "VacuumCompleted src retention s =
     (if retention \<le> 0 then (Inr 0, s)
      else
        let (removed, s') =
              range_fold (jobs \<circ> snd) (delete_body (vacuumable src (clock s - retention))) (0, s)
        in (Inr removed, s'))"

text \<open>\<open>VacuumDead\<close> (\<open>fake.go\<close>, job admin) is part of the engine's vacuum pass.\<close>

definition VacuumDead :: "source \<Rightarrow> string \<Rightarrow> duration \<Rightarrow> fake \<Rightarrow> (fake, int) outcome" where
  "VacuumDead src kind olderThan s =
     (let cutoff = clock s - olderThan;
          (removed, s') = range_fold (jobs \<circ> snd)
             (delete_body (\<lambda>j. jSource j = src \<and> (kind = [] \<or> jKind j = kind) \<and> jState j = StateDead \<and>
                              jEnqueuedAt j < cutoff)) (0, s)
      in (Inr removed, s'))"

text \<open>The store as a value of the \<open>driver.Store\<close> interface.\<close>

definition fake_ops :: "(nat \<Rightarrow> uuid) \<Rightarrow> fake storeOps" where
  "fake_ops gen =
     \<lparr>opDequeueBatch = DequeueBatch gen, opAck = Ack, opReschedule = Reschedule, opDead = Dead,
      opSkip = Skip, opRelease = Release, opSnooze = Snooze, opExtendLease = ExtendLease,
      opPromoteDue = PromoteDue, opReapExpired = ReapExpired, opVacuumStats = VacuumStats,
      opVacuumIdempotency = VacuumIdempotency, opVacuumCompleted = VacuumCompleted,
      opVacuumDead = VacuumDead\<rparr>"

definition fake_job_at :: "fake \<Rightarrow> uuid \<Rightarrow> job option" where
  "fake_job_at s jid = map_option toJob (map_of (jobs s) jid)"

section \<open>The in-memory store keeps the settlement contract\<close>

lemma settle_owned:
  "settle opn jid tok s =
     (if owned fake_job_at jid tok s then Inr (the (map_of (jobs s) jid)) else Inl (NotFound opn))"
  by (auto simp: settle_def owned_def fake_job_at_def split: option.splits)

lemma fake_fenced:
  assumes f: "\<And>s jid tok. f jid tok s = (case settle opn jid tok s of Inl e \<Rightarrow> (Inl e, s)
      | Inr j \<Rightarrow> (Inr (r (clock s) j), E j s))"
    and jobsE: "\<And>j s. jobs (E j s) = AList.update (jID j) (g (clock s) j) (jobs s)"
    and clockE: "\<And>j s. clock (E j s) = clock s"
    and gID: "\<And>now j. jID (g now j) = jID j"
    and gok: "\<And>now j. jState j = StateActive \<Longrightarrow> job_ok (g now j)"
    and gtr: "\<And>now j. toJob (g now j) = tr now (toJob j)"
    and rres: "\<And>now j. r now j = res now (toJob j)"
  shows "fenced fake_job_at clock wf_jobs opn tr res f"
proof (rule fencedI)
  fix s jid tok
  assume "wf_jobs s" "\<not> owned fake_job_at jid tok s"
  then show "f jid tok s = (Inl (NotFound opn), s)" by (simp add: f settle_owned)
next
  fix s jid tok and j :: job
  assume wf: "wf_jobs s" and at: "fake_job_at s jid = Some j"
    and act: "jState j = StateActive" "jLeaseToken j = tok"
  from at obtain j0 where j0: "map_of (jobs s) jid = Some j0" "j = toJob j0"
    by (auto simp: fake_job_at_def)
  from wf j0 have ID: "jID j0 = jid" by (auto dest: wf_jobsD)
  from at act have own: "owned fake_job_at jid tok s" by (simp add: owned_def)
  have E: "jobs (E j0 s) = AList.update jid (g (clock s) j0) (jobs s)" by (simp add: jobsE ID)
  from act j0 have "job_ok (g (clock s) j0)" by (intro gok) simp
  then have "wf_jobs (E j0 s)"
    using wf wf_jobs_putJob [of s "g (clock s) j0"] gID [of "clock s" j0] ID
    by (auto simp: E wf_jobs_def)
  moreover have "fake_job_at (E j0 s) = (fake_job_at s)(jid \<mapsto> tr (clock s) j)"
    by (auto simp: fake_job_at_def E AList.update_conv' fun_eq_iff gtr j0)
  ultimately show "\<exists>s'. f jid tok s = (Inr (res (clock s) j), s') \<and> wf_jobs s' \<and> clock s' = clock s \<and>
      fake_job_at s' = (fake_job_at s)(jid \<mapsto> tr (clock s) j)"
    using own j0 by (auto simp: f settle_owned clockE rres)
qed

lemmas toJob_defs = toJob_def job.truncate_def cloneMeta_def clonePayload_def job_ok_def wire_defs

lemma Ack_fenced: "fenced fake_job_at clock wf_jobs ''ack'' wire_ack (\<lambda>_ _. ()) Ack"
  by (rule fake_fenced [where g = "wire_ack", OF Ack_def [unfolded Let_def]]) (simp_all add: toJob_defs)

lemma Reschedule_fenced:
  "fenced fake_job_at clock wf_jobs ''reschedule'' (wire_reschedule delay err) (\<lambda>_ _. ())
     (\<lambda>jid tok. Reschedule jid tok delay err)"
  by (rule fake_fenced [where g = "wire_reschedule delay err", OF Reschedule_def [unfolded Let_def]]) (simp_all add: toJob_defs)

lemma Dead_fenced:
  "fenced fake_job_at clock wf_jobs ''dead'' (wire_dead err) (\<lambda>_ _. ()) (\<lambda>jid tok. Dead jid tok err)"
  by (rule fake_fenced [where g = "wire_dead err", OF Dead_def [unfolded Let_def]]) (simp_all add: toJob_defs)

lemma Skip_fenced:
  "fenced fake_job_at clock wf_jobs ''skip'' (wire_skip err) (\<lambda>_ _. ()) (\<lambda>jid tok. Skip jid tok err)"
  by (rule fake_fenced [where g = "wire_skip err", OF Skip_def [unfolded Let_def]]) (simp_all add: toJob_defs)

lemma Release_fenced:
  "fenced fake_job_at clock wf_jobs ''release'' wire_release (\<lambda>_ _. ()) Release"
  by (rule fake_fenced [where g = "wire_release", OF Release_def [unfolded Let_def]]) (simp_all add: toJob_defs)

lemma ExtendLease_fenced:
  "fenced fake_job_at clock wf_jobs ''extend lease'' (wire_extend lease) (\<lambda>_ _. ())
     (\<lambda>jid tok. ExtendLease jid tok lease)"
  by (rule fake_fenced [where g = "wire_extend lease", OF ExtendLease_def [unfolded Let_def]]) (simp_all add: toJob_defs)

lemma Snooze_eq:
  "Snooze jid tok delay err s =
     (case settle ''snooze'' jid tok s of Inl e \<Rightarrow> (Inl e, s)
      | Inr j \<Rightarrow> (Inr (deadlined (clock s) j),
          let now = clock s; j' = wire_snooze delay err now j in
          if deadlined now j
          then changeJob j' (bumpStat (jSource j) (jKind j) statFailed 1 now
                 (recordAttempt (jID j) (jAttempt j) err now (putJob j' s)))
          else changeJob j' (putJob j' s)))"
  by (auto simp: Snooze_def Let_def wire_defs deadlined_def not_less split: sum.split)

lemma Snooze_fenced:
  "fenced fake_job_at clock wf_jobs ''snooze'' (wire_snooze delay err) deadlined
     (\<lambda>jid tok. Snooze jid tok delay err)"
  by (rule fake_fenced [where g = "wire_snooze delay err", OF Snooze_eq])
    (simp_all add: toJob_defs deadlined_def Let_def)

interpretation fs: fenced_store "fake_ops gen" clock fake_job_at wf_jobs for gen
  by unfold_locales
    (simp_all add: fake_ops_def Ack_fenced Reschedule_fenced Dead_fenced Skip_fenced Release_fenced
      Snooze_fenced ExtendLease_fenced)

section \<open>Enqueue: dedupe, coalescing, placement\<close>

text \<open>At most one live queue job holds an idempotency key of a kind.\<close>

definition same_key :: "fakeJob \<Rightarrow> fakeJob \<Rightarrow> bool" where
  "same_key a b = (jSource a = SourceQueue \<and> jSource b = SourceQueue \<and> jKind a = jKind b \<and>
     idempotencyKey a = idempotencyKey b \<and> idempotencyKey a \<noteq> [] \<and> live_key (jState a) \<and> live_key (jState b))"

definition live_keys_unique :: "fake \<Rightarrow> bool" where
  "live_keys_unique s = (\<forall>x\<in>set (jobs s). \<forall>y\<in>set (jobs s). same_key (snd x) (snd y) \<longrightarrow> fst x = fst y)"

lemma live_keys_uniqueI:
  assumes "\<And>k a k' b. map_of (jobs s) k = Some a \<Longrightarrow> map_of (jobs s) k' = Some b \<Longrightarrow> same_key a b \<Longrightarrow> k = k'"
    and "distinct_keys (jobs s)"
  shows "live_keys_unique s"
  unfolding live_keys_unique_def
proof (intro ballI impI)
  fix x y assume "x \<in> set (jobs s)" "y \<in> set (jobs s)" and sk: "same_key (snd x) (snd y)"
  then have "map_of (jobs s) (fst x) = Some (snd x)" "map_of (jobs s) (fst y) = Some (snd y)"
    using assms(2) by (metis map_of_in_set prod.collapse)+
  then show "fst x = fst y" using sk by (rule assms(1))
qed

lemma live_keys_uniqueD:
  "live_keys_unique s \<Longrightarrow> distinct_keys (jobs s) \<Longrightarrow> map_of (jobs s) k = Some a \<Longrightarrow>
   map_of (jobs s) k' = Some b \<Longrightarrow> same_key a b \<Longrightarrow> k = k'"
  unfolding live_keys_unique_def by (metis fst_conv map_of_in_set snd_conv)

lemma live_dup_iff_same_key:
  "idempotencyKey a = epIdempotencyKey p \<Longrightarrow> jKind a = epKind p \<Longrightarrow> jSource a = SourceQueue \<Longrightarrow>
   live_key (jState a) \<Longrightarrow> epIdempotencyKey p \<noteq> [] \<Longrightarrow> same_key a b \<longleftrightarrow> live_dup p b"
  by (auto simp: same_key_def live_dup_def)

lemma enqueue_job_fields [simp]:
  "jID (enqueue_job p now sq) = epID p" "jSource (enqueue_job p now sq) = SourceQueue"
  "jKind (enqueue_job p now sq) = epKind p"
  "jState (enqueue_job p now sq) = enqueue_state (enqueue_runAt p now) now"
  "idempotencyKey (enqueue_job p now sq) = epIdempotencyKey p"
  "coalesceKey (enqueue_job p now sq) = epCoalesceKey p"
  "jAttempt (enqueue_job p now sq) = 0" "jReapCount (enqueue_job p now sq) = 0"
  "jRunAt (enqueue_job p now sq) = enqueue_runAt p now"
  "jLeaseToken (enqueue_job p now sq) = Nil_uuid" "jLeaseUntil (enqueue_job p now sq) = zero_time"
  by (simp_all add: enqueue_job_def zeroJob_def Let_def)

lemma job_ok_enqueue_job [simp]: "job_ok (enqueue_job p now sq)"
  by (simp add: job_ok_def)

definition enqueue_refused :: "enqueueParams \<Rightarrow> fake \<Rightarrow> bool" where
  "enqueue_refused p s =
     (epIdempotencyKey p \<noteq> [] \<and> (list_ex (live_dup p) (map snd (jobs s)) \<or> reserved p s) \<or>
      epCoalesceKey p \<noteq> [] \<and> list_ex (coalesces p) (map snd (jobs s)))"

lemma Enqueue_cases:
  obtains (refused) "enqueue_refused p s" "Enqueue p s = (Inr False, s)"
  | (exists) "\<not> enqueue_refused p s" "map_of (jobs s) (epID p) \<noteq> None" "Enqueue p s = (Inl AlreadyExists, s)"
  | (inserted) s' where "\<not> enqueue_refused p s" "map_of (jobs s) (epID p) = None" "Enqueue p s = (Inr True, s')"
      "jobs s' = AList.update (epID p) (enqueue_job p (clock s) (jobSeq s + 1)) (jobs s)"
      "clock s' = clock s"
      "idempotency s' = (if epIdempotencyKey p \<noteq> [] \<and> epIdempotencyTTL p > 0
         then AList.update (SourceQueue, epKind p, epIdempotencyKey p) (clock s + epIdempotencyTTL p) (idempotency s)
         else idempotency s)"
proof -
  have "(\<exists>s'. Enqueue p s = (Inr True, s') \<and>
      jobs s' = AList.update (epID p) (enqueue_job p (clock s) (jobSeq s + 1)) (jobs s) \<and>
      clock s' = clock s \<and>
      idempotency s' = (if epIdempotencyKey p \<noteq> [] \<and> epIdempotencyTTL p > 0
         then AList.update (SourceQueue, epKind p, epIdempotencyKey p) (clock s + epIdempotencyTTL p) (idempotency s)
         else idempotency s))"
    if "\<not> enqueue_refused p s" "map_of (jobs s) (epID p) = None"
    using that by (auto simp: Enqueue_def Let_def enqueue_refused_def nextSeq_def)
  moreover have "Enqueue p s = (Inr False, s)" if "enqueue_refused p s"
    using that by (auto simp: Enqueue_def Let_def enqueue_refused_def)
  moreover have "Enqueue p s = (Inl AlreadyExists, s)"
    if "\<not> enqueue_refused p s" "map_of (jobs s) (epID p) \<noteq> None"
    using that by (auto simp: Enqueue_def Let_def enqueue_refused_def)
  ultimately show thesis using that by blast
qed

lemma enqueue_not_refused_fresh_key:
  assumes "\<not> enqueue_refused p s" "epIdempotencyKey p \<noteq> []" "distinct_keys (jobs s)" "map_of (jobs s) k = Some j"
  shows "\<not> live_dup p j"
proof -
  from assms(4) have "(k, j) \<in> set (jobs s)" by (rule map_of_SomeD)
  with assms(1,2) show ?thesis by (fastforce simp: enqueue_refused_def list_ex_iff)
qed

lemma Enqueue_wf [store_inv]: "wf_jobs s \<Longrightarrow> wf_jobs (snd (Enqueue p s))"
proof (cases rule: Enqueue_cases [of p s])
  case (inserted s')
  assume wf: "wf_jobs s"
  have "wf_jobs (putJob (enqueue_job p (clock s) (jobSeq s + 1)) s)"
    by (rule wf_jobs_putJob [OF wf]) simp
  with inserted show ?thesis by (simp add: wf_jobs_def)
qed simp_all

lemma Enqueue_unique [store_inv]:
  assumes wf: "wf_jobs s" and u: "live_keys_unique s"
  shows "live_keys_unique (snd (Enqueue p s))"
proof (cases rule: Enqueue_cases [of p s])
  case (inserted s')
  let ?n = "enqueue_job p (clock s) (jobSeq s + 1)"
  from wf have d: "distinct_keys (jobs s)" by (rule wf_jobsD)
  have noclash: False if "map_of (jobs s) k = Some j" "same_key j ?n \<or> same_key ?n j" for k j
  proof -
    from that have "epIdempotencyKey p \<noteq> []" "live_dup p j"
      by (auto simp: same_key_def live_dup_def)
    with enqueue_not_refused_fresh_key [OF inserted(1) _ d that(1)] show False by blast
  qed
  have "live_keys_unique s'"
  proof (rule live_keys_uniqueI)
    show "distinct_keys (jobs s')" using d inserted(4) by (simp add: distinct_keys_update)
    fix k a k' b
    assume "map_of (jobs s') k = Some a" "map_of (jobs s') k' = Some b" "same_key a b"
    then show "k = k'"
      using noclash live_keys_uniqueD [OF u d] inserted(4)
      by (auto simp: AList.update_conv' split: if_splits)
  qed
  with inserted(3) show ?thesis by simp
qed (use u in simp_all)

section \<open>DequeueBatch: exclusive, ordered leases\<close>

definition leased :: "(nat \<Rightarrow> uuid) \<Rightarrow> dequeueParams \<Rightarrow> fake \<Rightarrow> fakeJob list \<Rightarrow> fakeJob list" where
  "leased gen p s js = map (\<lambda>(i, j). lease_job p (clock s) (gen (draws s + i)) j) (enumerate 0 js)"

lemma lease_job_fields [simp]:
  "jID (lease_job p now tok j) = jID j" "jSource (lease_job p now tok j) = jSource j"
  "jKind (lease_job p now tok j) = jKind j" "jState (lease_job p now tok j) = StateActive"
  "jLeaseToken (lease_job p now tok j) = tok" "jLeaseUntil (lease_job p now tok j) = now + dpLease p"
  "jAttempt (lease_job p now tok j) = jAttempt j + 1" "jRunAt (lease_job p now tok j) = jRunAt j"
  "jEventID (lease_job p now tok j) = jEventID j"
  "idempotencyKey (lease_job p now tok j) = idempotencyKey j"
  "job_ok (lease_job p now tok j)"
  by (simp_all add: lease_job_def job_ok_def)

lemma map_jID_leased [simp]: "map jID (leased gen p s js) = map jID js"
  by (simp add: leased_def case_prod_unfold comp_def)
    (metis (no_types, lifting) map_snd_enumerate map_map comp_apply map_cong)

lemma length_leased [simp]: "length (leased gen p s js) = length js"
  by (simp add: leased_def)

lemma leased_nth: "i < length js \<Longrightarrow> leased gen p s js ! i = lease_job p (clock s) (gen (draws s + i)) (js ! i)"
  by (simp add: leased_def nth_enumerate_eq)

lemma leased_Cons:
  "leased gen p s (j # js) =
     lease_job p (clock s) (gen (draws s)) j # leased gen p (s\<lparr>draws := Suc (draws s)\<rparr>) js"
  by (rule nth_equalityI) (auto simp: leased_nth nth_Cons split: nat.split)

lemma leased_cong: "clock s' = clock s \<Longrightarrow> draws s' = draws s \<Longrightarrow> leased gen p s' js = leased gen p s js"
  by (simp add: leased_def)

lemma rehydrate_cong: "events s' = events s \<Longrightarrow> rehydrate src s' = rehydrate src s"
  by (simp add: rehydrate_def Let_def fun_eq_iff)

abbreviation keyed :: "fakeJob list \<Rightarrow> (uuid \<times> fakeJob) list" where
  "keyed js \<equiv> map (\<lambda>j. (jID j, j)) js"

lemma dequeue_fold:
  assumes "distinct (map jID js)" "wf_jobs s"
  obtains s' where "fold (dequeue_step gen src p) js (out, s) =
      (out @ map (rehydrate src s) (leased gen p s js), s')"
    "clock s' = clock s" "events s' = events s" "draws s' = draws s + length js" "wf_jobs s'"
    "map_of (jobs s') = map_of (jobs s) ++ map_of (keyed (leased gen p s js))"
  using assms
proof (induction js arbitrary: s out thesis)
  case Nil
  then show ?case by (simp add: leased_def)
next
  case (Cons j js)
  let ?j = "lease_job p (clock s) (gen (draws s)) j"
  let ?s = "changeJob ?j (putJob ?j (s\<lparr>draws := Suc (draws s)\<rparr>))"
  have wf: "wf_jobs ?s"
  proof -
    from Cons.prems(3) have "wf_jobs (s\<lparr>draws := Suc (draws s)\<rparr>)" by (rule wf_jobs_cong [rotated]) simp
    then have "wf_jobs (putJob ?j (s\<lparr>draws := Suc (draws s)\<rparr>))" by (rule wf_jobs_putJob) simp
    then show ?thesis by simp
  qed
  have ev: "events ?s = events s" "clock ?s = clock s" "draws ?s = Suc (draws s)" by simp_all
  have lc: "leased gen p ?s js = leased gen p (s\<lparr>draws := Suc (draws s)\<rparr>) js"
    by (rule leased_cong) simp_all
  from Cons.prems(2) have d: "distinct (map jID js)" by simp
  obtain s' where s':
    "fold (dequeue_step gen src p) js (out @ [rehydrate src ?s ?j], ?s) =
       ((out @ [rehydrate src ?s ?j]) @ map (rehydrate src ?s) (leased gen p ?s js), s')"
    "clock s' = clock ?s" "events s' = events ?s" "draws s' = draws ?s + length js" "wf_jobs s'"
    "map_of (jobs s') = map_of (jobs ?s) ++ map_of (keyed (leased gen p ?s js))"
    by (rule Cons.IH [OF _ d wf])
  have "fold (dequeue_step gen src p) (j # js) (out, s) =
      (out @ map (rehydrate src s) (leased gen p s (j # js)), s')"
    using s'(1) by (simp add: dequeue_step_def Let_def leased_Cons lc rehydrate_cong [OF ev(1)])
  moreover have "map_of (jobs s') = map_of (jobs s) ++ map_of (keyed (leased gen p s (j # js)))"
  proof -
    have "fst ` set (keyed (leased gen p ?s js)) = set (map jID (leased gen p ?s js))"
      by (simp only: set_map image_image fst_conv)
    with Cons.prems(2) have "map_of (keyed (leased gen p ?s js)) (jID j) = None"
      unfolding map_of_eq_None_iff map_jID_leased by simp
    then show ?thesis
      unfolding s'(6) by (auto simp: leased_Cons lc fun_eq_iff map_add_def AList.update_conv' split: option.splits)
  qed
  ultimately show ?case using Cons.prems(1) s' ev by simp
qed

lemma due_jobs_props:
  assumes wf: "wf_jobs s"
  shows "distinct (map jID (due_jobs src p s))"
    and "sorted (map lease_order (due_jobs src p s))"
    and "j \<in> set (due_jobs src p s) \<Longrightarrow> map_of (jobs s) (jID j) = Some j \<and> is_due src (dpKind p) (clock s) j"
    and "0 \<le> dpLimit p \<Longrightarrow> int (length (due_jobs src p s)) \<le> dpLimit p"
proof -
  let ?all = "filter (is_due src (dpKind p) (clock s)) (map snd (jobs s))"
  have ids: "map jID (map snd (jobs s)) = map fst (jobs s)"
    using wf by (auto simp: wf_jobs_def)
  have "distinct (map jID (map snd (jobs s)))" unfolding ids using wf by (rule wf_jobsD)
  then have "distinct (map jID ?all)" by (rule distinct_map_filter)
  then have "distinct (map jID (sort_key lease_order ?all))"
    by (metis distinct_map distinct_sort set_sort)
  then show "distinct (map jID (due_jobs src p s))"
    by (auto simp: due_jobs_def Let_def take_map [symmetric])
  show "sorted (map lease_order (due_jobs src p s))"
    by (auto simp: due_jobs_def Let_def take_map [symmetric] sorted_wrt_take)
  show "map_of (jobs s) (jID j) = Some j \<and> is_due src (dpKind p) (clock s) j"
    if "j \<in> set (due_jobs src p s)"
  proof -
    from that have "j \<in> set ?all"
      by (auto simp: due_jobs_def Let_def dest: in_set_takeD split: if_splits)
    then obtain k where kj: "(k, j) \<in> set (jobs s)" and due: "is_due src (dpKind p) (clock s) j" by auto
    from kj wf have "map_of (jobs s) k = Some j" by (simp add: wf_jobsD)
    with wf due show ?thesis by (auto dest: wf_jobsD)
  qed
  show "int (length (due_jobs src p s)) \<le> dpLimit p" if "0 \<le> dpLimit p"
    using that by (auto simp: due_jobs_def Let_def)
qed

text \<open>A due job that is left behind is left behind by a full batch of jobs that come before it.\<close>

lemma due_jobs_left_behind:
  assumes wf: "wf_jobs s" and lim: "0 < dpLimit p"
    and j: "map_of (jobs s) k = Some j" "is_due src (dpKind p) (clock s) j" "j \<notin> set (due_jobs src p s)"
  shows "int (length (due_jobs src p s)) = dpLimit p"
    and "j' \<in> set (due_jobs src p s) \<Longrightarrow> lease_order j' \<le> lease_order j"
proof -
  let ?S = "sort_key lease_order (filter (is_due src (dpKind p) (clock s)) (map snd (jobs s)))"
  from j(1) have "(k, j) \<in> set (jobs s)" by (rule map_of_SomeD)
  then have "j \<in> set (map snd (jobs s))" by force
  with j(2) have inS: "j \<in> set ?S" by simp
  have long: "dpLimit p < int (length ?S)"
    using inS j(3) by (auto simp: due_jobs_def Let_def split: if_splits)
  then have tk: "due_jobs src p s = take (nat (dpLimit p)) ?S" by (auto simp: due_jobs_def Let_def)
  show "int (length (due_jobs src p s)) = dpLimit p" using long lim by (simp add: tk)
  show "lease_order j' \<le> lease_order j" if "j' \<in> set (due_jobs src p s)"
  proof -
    have "j \<in> set (drop (nat (dpLimit p)) ?S)"
      using inS j(3) unfolding tk by (metis Un_iff append_take_drop_id set_append)
    moreover have "sorted (map lease_order (take (nat (dpLimit p)) ?S @ drop (nat (dpLimit p)) ?S))"
      unfolding append_take_drop_id by (rule sorted_sort_key)
    ultimately show ?thesis using that unfolding tk map_append sorted_append by auto
  qed
qed

lemma DequeueBatch_result:
  assumes wf: "wf_jobs s" and lim: "0 < dpLimit p"
  obtains s' where "DequeueBatch gen src p s = (Inr (map (rehydrate src s) (leased gen p s (due_jobs src p s))), s')"
    "clock s' = clock s" "events s' = events s" "wf_jobs s'" "draws s' = draws s + length (due_jobs src p s)"
    "map_of (jobs s') = map_of (jobs s) ++ map_of (keyed (leased gen p s (due_jobs src p s)))"
proof -
  obtain s' where
    "fold (dequeue_step gen src p) (due_jobs src p s) ([], s) =
      ([] @ map (rehydrate src s) (leased gen p s (due_jobs src p s)), s')"
    "clock s' = clock s" "events s' = events s" "draws s' = draws s + length (due_jobs src p s)" "wf_jobs s'"
    "map_of (jobs s') = map_of (jobs s) ++ map_of (keyed (leased gen p s (due_jobs src p s)))"
    by (rule dequeue_fold [OF due_jobs_props(1) [OF wf] wf])
  with lim show thesis by (intro that [of s']) (simp_all add: DequeueBatch_def)
qed

lemma DequeueBatch_wf [store_inv]: "wf_jobs s \<Longrightarrow> wf_jobs (snd (DequeueBatch gen src p s))"
proof (cases "dpLimit p \<le> 0")
  case False
  assume wf: "wf_jobs s"
  from False have "0 < dpLimit p" by simp
  from DequeueBatch_result [OF wf this, of gen src] show ?thesis by (metis snd_conv)
qed (simp add: DequeueBatch_def)

section \<open>Maintenance passes act on the job map pointwise\<close>

interpretation prom: pointwise_loop "jobs \<circ> snd" "promote_body src kinds"
    "\<lambda>st. clock (snd st) = now \<and> wf_jobs (snd st)"
    "\<lambda>j. Some (if promotable src kinds now j then j\<lparr>jState := StatePending\<rparr> else j)"
  for src kinds now
proof (unfold_locales, goal_cases)
  case (1 st k v)
  then have "job_ok (v\<lparr>jState := StatePending\<rparr>)" if "promotable src kinds now v"
    using that wf_jobsD(3) [of "snd st" k v] by (auto simp: job_ok_def promotable_def)
  with 1 show ?case
    by (auto simp: promote_body_def Let_def case_prod_unfold intro: wf_jobs_putJob)
next
  case (2 st k v)
  then have "jID v = k" by (auto dest: wf_jobsD)
  moreover have "k \<in> fst ` set (jobs (snd st))" using 2(2) by (force dest: map_of_SomeD)
  ultimately show ?case using 2
    by (auto simp: promote_body_def Let_def case_prod_unfold AList.update_conv' update_keys_in fun_eq_iff)
qed

lemma PromoteDue_result:
  assumes wf: "wf_jobs s" and ne: "kinds \<noteq> []"
  obtains s' where
    "PromoteDue src kinds s = (Inr (int (length (filter (promotable src kinds (clock s)) (map snd (jobs s))))), s')"
    "clock s' = clock s" "wf_jobs s'"
    "map_of (jobs s') = (\<lambda>k. map_option (\<lambda>j. if promotable src kinds (clock s) j
        then j\<lparr>jState := StatePending\<rparr> else j) (map_of (jobs s) k))"
proof -
  let ?r = "range_fold (jobs \<circ> snd) (promote_body src kinds) (0, s)"
  have I: "clock (snd (0::int, s)) = clock s \<and> wf_jobs (snd (0::int, s))" using wf by simp
  have d: "distinct_keys ((jobs \<circ> snd) (0::int, s))" using wf by (simp add: wf_jobsD)
  note L = prom.loop_get [OF I d, of src kinds]
  have "fst ?r = fst (0::int, s) + sum_list (map (\<lambda>(k, v). if promotable src kinds (clock s) v then 1 else 0) ((jobs \<circ> snd) (0::int, s)))"
    by (rule prom.loop_acc [OF I d]) (auto simp: promote_body_def Let_def case_prod_unfold)
  also have "\<dots> = int (length (filter (promotable src kinds (clock s)) (map snd (jobs s))))"
    by (simp add: sum_list_count_values)
  finally have cnt: "fst ?r = int (length (filter (promotable src kinds (clock s)) (map snd (jobs s))))" .
  show thesis
  proof (rule that [of "snd ?r"])
    show "PromoteDue src kinds s = (Inr (int (length (filter (promotable src kinds (clock s)) (map snd (jobs s))))), snd ?r)"
      using ne cnt by (simp add: PromoteDue_def case_prod_unfold Let_def)
    show "clock (snd ?r) = clock s" "wf_jobs (snd ?r)" using L(2) by auto
    show "map_of (jobs (snd ?r)) = (\<lambda>k. map_option (\<lambda>j. if promotable src kinds (clock s) j
        then j\<lparr>jState := StatePending\<rparr> else j) (map_of (jobs s) k))"
      using L(1) by (auto simp: fun_eq_iff split: option.splits bind_splits)
  qed
qed

lemma reaped_job_fields [simp]:
  "jID (reaped_job maxReaps now j) = jID j" "jSource (reaped_job maxReaps now j) = jSource j"
  "jKind (reaped_job maxReaps now j) = jKind j" "jAttempt (reaped_job maxReaps now j) = jAttempt j"
  "jReapCount (reaped_job maxReaps now j) = jReapCount j + 1"
  "jState (reaped_job maxReaps now j) = (if jReapCount j + 1 \<ge> maxReaps then StateDead else StatePending)"
  "jLeaseToken (reaped_job maxReaps now j) = Nil_uuid" "jLeaseUntil (reaped_job maxReaps now j) = zero_time"
  "idempotencyKey (reaped_job maxReaps now j) = idempotencyKey j"
  "job_ok (reaped_job maxReaps now j)"
  by (simp_all add: reaped_job_def Let_def job_ok_def)

interpretation reap: pointwise_loop "jobs \<circ> snd" "reap_body src kinds maxReaps"
    "\<lambda>st. clock (snd st) = now \<and> wf_jobs (snd st)"
    "\<lambda>j. Some (if expired src kinds now j then reaped_job maxReaps now j else j)"
  for src kinds maxReaps now
proof (unfold_locales, goal_cases)
  case (1 st k v)
  then show ?case
    by (auto simp: reap_body_def Let_def case_prod_unfold intro: wf_jobs_putJob)
next
  case (2 st k v)
  then have "jID v = k" by (auto dest: wf_jobsD)
  moreover have "k \<in> fst ` set (jobs (snd st))" using 2(2) by (force dest: map_of_SomeD)
  ultimately show ?case using 2
    by (auto simp: reap_body_def Let_def case_prod_unfold AList.update_conv' update_keys_in fun_eq_iff)
qed

lemma fold_bumpStat_frame [simp]:
  "jobs (fold (\<lambda>(kind, n) st. bumpStat src kind f n t st) ps s) = jobs s"
  "clock (fold (\<lambda>(kind, n) st. bumpStat src kind f n t st) ps s) = clock s"
  "attempts (fold (\<lambda>(kind, n) st. bumpStat src kind f n t st) ps s) = attempts s"
  by (rule fold_frame; auto)+

lemma ReapExpired_result:
  assumes wf: "wf_jobs s" and ne: "kinds \<noteq> []"
  obtains s' where
    "ReapExpired src kinds maxReaps s =
       (Inr (int (length (filter (expired src kinds (clock s)) (map snd (jobs s)))),
             int (length (filter (\<lambda>j. expired src kinds (clock s) j \<and> jReapCount j + 1 \<ge> maxReaps) (map snd (jobs s))))), s')"
    "clock s' = clock s" "wf_jobs s'"
    "map_of (jobs s') = (\<lambda>k. map_option (\<lambda>j. if expired src kinds (clock s) j
        then reaped_job maxReaps (clock s) j else j) (map_of (jobs s) k))"
proof -
  let ?i = "((0::int, 0::int, [] :: (string \<times> int) list), s)"
  let ?r = "range_fold (jobs \<circ> snd) (reap_body src kinds maxReaps) ?i"
  have I: "clock (snd ?i) = clock s \<and> wf_jobs (snd ?i)" using wf by simp
  have d: "distinct_keys ((jobs \<circ> snd) ?i)" using wf by (simp add: wf_jobsD)
  note L = reap.loop_get [OF I d, of src kinds maxReaps]
  have "fst (fst ?r) = fst (fst ?i) + sum_list (map (\<lambda>(k, v). if expired src kinds (clock s) v then 1 else 0) ((jobs \<circ> snd) ?i))"
    by (rule reap.loop_acc [OF I d]) (auto simp: reap_body_def Let_def case_prod_unfold)
  then have c1: "fst (fst ?r) = int (length (filter (expired src kinds (clock s)) (map snd (jobs s))))"
    by (simp add: sum_list_count_values)
  have "fst (snd (fst ?r)) = fst (snd (fst ?i)) + sum_list (map (\<lambda>(k, v). if expired src kinds (clock s) v \<and> jReapCount v + 1 \<ge> maxReaps
      then 1 else 0) ((jobs \<circ> snd) ?i))"
    by (rule reap.loop_acc [OF I d]) (auto simp: reap_body_def Let_def case_prod_unfold)
  then have c2: "fst (snd (fst ?r)) = int (length (filter (\<lambda>j. expired src kinds (clock s) j \<and> jReapCount j + 1 \<ge> maxReaps) (map snd (jobs s))))"
    by (simp add: sum_list_count_values)
  let ?s = "fold (\<lambda>(kind, n) st. bumpStat src kind statReaped n (clock s) st) (snd (snd (fst ?r))) (snd ?r)"
  show thesis
  proof (rule that [of ?s])
    show "ReapExpired src kinds maxReaps s =
       (Inr (int (length (filter (expired src kinds (clock s)) (map snd (jobs s)))),
             int (length (filter (\<lambda>j. expired src kinds (clock s) j \<and> jReapCount j + 1 \<ge> maxReaps) (map snd (jobs s))))), ?s)"
      using ne c1 c2 by (simp add: ReapExpired_def case_prod_unfold Let_def)
    show "clock ?s = clock s" using L(2) by simp
    show "wf_jobs ?s" using L(2) by (auto intro: wf_jobs_cong [rotated])
    show "map_of (jobs ?s) = (\<lambda>k. map_option (\<lambda>j. if expired src kinds (clock s) j
        then reaped_job maxReaps (clock s) j else j) (map_of (jobs s) k))"
      using L(1) by (auto simp: fun_eq_iff split: option.splits bind_splits)
  qed
qed

interpretation del: pointwise_loop "jobs \<circ> snd" "delete_body P"
    "\<lambda>st. clock (snd st) = now \<and> wf_jobs (snd st)" "\<lambda>j. if P j then None else Some j"
  for P now
proof (unfold_locales, goal_cases)
  case (1 st k v)
  then show ?case by (auto simp: delete_body_def Let_def case_prod_unfold intro: wf_jobs_delJob)
next
  case (2 st k v)
  then show ?case
    by (auto simp: delete_body_def Let_def case_prod_unfold AList.delete_conv' fun_eq_iff AList.delete_keys
        removeAll_filter_not_eq intro!: filter_cong)
qed

lemma delete_loop_result:
  assumes wf: "wf_jobs s"
  obtains s' where
    "range_fold (jobs \<circ> snd) (delete_body P) (0, s) = (int (length (filter P (map snd (jobs s)))), s')"
    "clock s' = clock s" "wf_jobs s'"
    "map_of (jobs s') = (\<lambda>k. case map_of (jobs s) k of None \<Rightarrow> None | Some j \<Rightarrow> if P j then None else Some j)"
proof -
  let ?r = "range_fold (jobs \<circ> snd) (delete_body P) (0::int, s)"
  have I: "clock (snd (0::int, s)) = clock s \<and> wf_jobs (snd (0::int, s))" using wf by simp
  have d: "distinct_keys ((jobs \<circ> snd) (0::int, s))" using wf by (simp add: wf_jobsD)
  note L = del.loop_get [OF I d, of P]
  have "fst ?r = fst (0::int, s) + sum_list (map (\<lambda>(k, v). if P v then 1 else 0) ((jobs \<circ> snd) (0::int, s)))"
    by (rule del.loop_acc [OF I d]) (auto simp: delete_body_def Let_def case_prod_unfold)
  then have cnt: "fst ?r = int (length (filter P (map snd (jobs s))))"
    by (simp add: sum_list_count_values)
  show thesis
  proof (rule that [of "snd ?r"])
    show "?r = (int (length (filter P (map snd (jobs s)))), snd ?r)" using cnt by (simp add: prod_eq_iff)
    show "clock (snd ?r) = clock s" "wf_jobs (snd ?r)" using L(2) by auto
    show "map_of (jobs (snd ?r)) = (\<lambda>k. case map_of (jobs s) k of None \<Rightarrow> None | Some j \<Rightarrow> if P j then None else Some j)"
      using L(1) by (auto simp: fun_eq_iff split: option.splits bind_splits)
  qed
qed

section \<open>Live keys stay unique\<close>

text \<open>
  A step that keeps every job's partition, key and metadata, deletes jobs or moves them,
  and brings no job back from a finished state, keeps the live keys unique.
\<close>

definition open_state :: "job_state \<Rightarrow> bool" where
  "open_state st = (st \<in> {StatePending, StateScheduled, StateActive, StateUncertain})"

lemma open_states [simp]:
  "open_state StatePending" "open_state StateScheduled" "open_state StateActive" "open_state StateUncertain"
  "\<not> open_state StateDead" "\<not> open_state StateSucceeded" "\<not> open_state StatePaused"
  by (simp_all add: open_state_def)

definition kept :: "fakeJob \<Rightarrow> fakeJob \<Rightarrow> bool" where
  "kept a b = (jSource a = jSource b \<and> jKind a = jKind b \<and> idempotencyKey a = idempotencyKey b \<and>
     jRunID a = jRunID b \<and> jMeta a = jMeta b \<and> jDAGID a = jDAGID b \<and> jTaskKey a = jTaskKey b \<and>
     jPayload a = jPayload b \<and> compensationPayload a = compensationPayload b \<and> jCompensationKind a = jCompensationKind b \<and>
     sleepFor a = sleepFor b \<and> (live_key (jState b) \<longrightarrow> live_key (jState a)) \<and>
     (open_state (jState b) \<longrightarrow> open_state (jState a)))"

definition no_revival :: "fake \<Rightarrow> fake \<Rightarrow> bool" where
  "no_revival s s' = (distinct_keys (jobs s') \<and>
     (\<forall>k b. map_of (jobs s') k = Some b \<longrightarrow> (\<exists>a. map_of (jobs s) k = Some a \<and> kept a b)))"

lemma kept_refl [simp]: "kept a a"
  by (simp add: kept_def)

lemma same_key_kept: "kept a0 a \<Longrightarrow> kept b0 b \<Longrightarrow> same_key a b \<Longrightarrow> same_key a0 b0"
  by (auto simp: same_key_def kept_def)

lemma no_revivalI:
  assumes "wf_jobs s'" and "\<And>k b. map_of (jobs s') k = Some b \<Longrightarrow> \<exists>a. map_of (jobs s) k = Some a \<and> kept a b"
  shows "no_revival s s'"
  using assms by (simp add: no_revival_def wf_jobsD)

lemma no_revival_refl: "wf_jobs s \<Longrightarrow> no_revival s s"
  by (rule no_revivalI) auto

lemma unique_no_revival:
  assumes wf: "wf_jobs s" and u: "live_keys_unique s" and step: "no_revival s s'"
  shows "live_keys_unique s'"
proof (rule live_keys_uniqueI)
  show "distinct_keys (jobs s')" using step by (simp add: no_revival_def)
  fix k a k' b
  assume at: "map_of (jobs s') k = Some a" "map_of (jobs s') k' = Some b" and sk: "same_key a b"
  from step at(1) obtain a0 where a0: "map_of (jobs s) k = Some a0" "kept a0 a"
    unfolding no_revival_def by blast
  from step at(2) obtain b0 where b0: "map_of (jobs s) k' = Some b0" "kept b0 b"
    unfolding no_revival_def by blast
  from a0(2) b0(2) sk have "same_key a0 b0" by (rule same_key_kept)
  with a0(1) b0(1) show "k = k'" by (rule live_keys_uniqueD [OF u wf_jobsD(1) [OF wf]])
qed

lemma no_revival_pointwise:
  assumes "wf_jobs s'" and m: "map_of (jobs s') = (\<lambda>k. map_option f (map_of (jobs s) k))" and "\<And>j. kept j (f j)"
  shows "no_revival s s'"
  using assms(1)
proof (rule no_revivalI)
  fix k b
  assume "map_of (jobs s') k = Some b"
  then obtain a where "map_of (jobs s) k = Some a" "b = f a" unfolding m by auto
  with assms(3) show "\<exists>a. map_of (jobs s) k = Some a \<and> kept a b" by auto
qed

lemma DequeueBatch_no_revival:
  assumes wf: "wf_jobs s"
  shows "no_revival s (snd (DequeueBatch gen src p s))"
proof (cases "dpLimit p \<le> 0")
  case True
  with wf show ?thesis by (simp add: DequeueBatch_def no_revival_refl)
next
  case False
  then have lim: "0 < dpLimit p" by simp
  let ?js = "due_jobs src p s"
  obtain s' where s': "DequeueBatch gen src p s = (Inr (map (rehydrate src s) (leased gen p s ?js)), s')" "wf_jobs s'"
    "map_of (jobs s') = map_of (jobs s) ++ map_of (keyed (leased gen p s ?js))"
    by (rule DequeueBatch_result [OF wf lim])
  have "no_revival s s'"
    using s'(2)
  proof (rule no_revivalI)
    fix k b
    assume b: "map_of (jobs s') k = Some b"
    show "\<exists>a. map_of (jobs s) k = Some a \<and> kept a b"
    proof (cases "map_of (keyed (leased gen p s ?js)) k")
      case None
      with b s'(3) have "map_of (jobs s) k = Some b" by (simp add: map_add_def)
      then show ?thesis by auto
    next
      case (Some c)
      with b s'(3) have c: "c = b" by (simp add: map_add_def)
      from Some have "(k, c) \<in> set (keyed (leased gen p s ?js))" by (rule map_of_SomeD)
      then obtain i where i: "i < length ?js" "k = jID c" "c = leased gen p s ?js ! i"
        by (auto simp: in_set_conv_nth)
      from i(1) have "?js ! i \<in> set ?js" by simp
      from due_jobs_props(3) [OF wf this] i c show ?thesis
        by (auto simp: is_due_def kept_def leased_nth lease_job_def Let_def)
    qed
  qed
  with s'(1) show ?thesis by simp
qed

lemma PromoteDue_no_revival: "wf_jobs s \<Longrightarrow> no_revival s (snd (PromoteDue src kinds s))"
proof (cases "kinds = []")
  case False
  assume wf: "wf_jobs s"
  obtain s' where s': "snd (PromoteDue src kinds s) = s'" "wf_jobs s'"
    "map_of (jobs s') = (\<lambda>k. map_option (\<lambda>j. if promotable src kinds (clock s) j
        then j\<lparr>jState := StatePending\<rparr> else j) (map_of (jobs s) k))"
    by (rule PromoteDue_result [OF wf False, of src]) simp
  from s'(2,3) have "no_revival s s'"
    by (rule no_revival_pointwise) (simp add: kept_def promotable_def)
  with s'(1) show ?thesis by simp
qed (simp add: PromoteDue_def no_revival_refl)

lemma ReapExpired_no_revival: "wf_jobs s \<Longrightarrow> no_revival s (snd (ReapExpired src kinds maxReaps s))"
proof (cases "kinds = []")
  case False
  assume wf: "wf_jobs s"
  obtain s' where s': "snd (ReapExpired src kinds maxReaps s) = s'" "wf_jobs s'"
    "map_of (jobs s') = (\<lambda>k. map_option (\<lambda>j. if expired src kinds (clock s) j
        then reaped_job maxReaps (clock s) j else j) (map_of (jobs s) k))"
    by (rule ReapExpired_result [OF wf False, of src maxReaps]) simp
  from s'(2,3) have "no_revival s s'"
    by (rule no_revival_pointwise) (simp add: kept_def expired_def reaped_job_def Let_def)
  with s'(1) show ?thesis by simp
qed (simp add: ReapExpired_def no_revival_refl)

end
