(* ===== verification/Fake_Admin.thy ===== *)
theory Fake_Admin
  imports Fake_Jobs
begin

text \<open>
  The operator surface of the in-memory store over jobs (\<open>fake.go\<close>, section job
  admin, and the leadership capability): listings and counters, the retry,
  archive, pause, resume, expedite and delete verbs, and the named leadership
  leases. \<open>VacuumDead\<close> is in \<open>Fake_Jobs\<close>.
\<close>

section \<open>Counters and listings\<close>

definition ListKinds :: "source \<Rightarrow> fake \<Rightarrow> string list" where
  "ListKinds src s =
     sort (remdups (map (jKind \<circ> snd) (filter (\<lambda>(k, j). jSource j = src) (jobs s)) @
                    map (\<lambda>((ksrc, kind, day), c). kind) (filter (\<lambda>((ksrc, kind, day), c). ksrc = src) (stats s))))"

definition zeroDepths :: depths where
  "zeroDepths = \<lparr>dPending = 0, dScheduled = 0, dActive = 0, dDead = 0, dPaused = 0, dSucceeded = 0,
     dOldestPendingAge = 0\<rparr>"

definition addDepth :: "job_state \<Rightarrow> depths \<Rightarrow> depths" where
  "addDepth st d =
     (case st of
        StatePending \<Rightarrow> d\<lparr>dPending := dPending d + 1\<rparr>
      | StateScheduled \<Rightarrow> d\<lparr>dScheduled := dScheduled d + 1\<rparr>
      | StateActive \<Rightarrow> d\<lparr>dActive := dActive d + 1\<rparr>
      | StateDead \<Rightarrow> d\<lparr>dDead := dDead d + 1\<rparr>
      | StatePaused \<Rightarrow> d\<lparr>dPaused := dPaused d + 1\<rparr>
      | StateSucceeded \<Rightarrow> d\<lparr>dSucceeded := dSucceeded d + 1\<rparr>
      | _ \<Rightarrow> d)"

definition kindDepths_step ::
  "source \<Rightarrow> fakeJob \<Rightarrow> (string \<times> depths) list \<times> (string \<times> time) list
     \<Rightarrow> (string \<times> depths) list \<times> (string \<times> time) list" where
  "kindDepths_step src j st =
     (let (out, oldestPending) = st in
      if jSource j \<noteq> src then st
      else
        (AList.update (jKind j) (addDepth (jState j) (the_default zeroDepths (map_of out (jKind j)))) out,
         if jState j = StatePending \<and>
            (case map_of oldestPending (jKind j) of None \<Rightarrow> True | Some t \<Rightarrow> jRunAt j < t)
         then AList.update (jKind j) (jRunAt j) oldestPending else oldestPending))"

definition KindDepths :: "source \<Rightarrow> fake \<Rightarrow> (string \<times> depths) list" where
  "KindDepths src s =
     (let (out, oldestPending) = fold (kindDepths_step src) (map snd (jobs s)) ([], [])
      in fold (\<lambda>(kind, t) out'.
           AList.update kind
             ((the_default zeroDepths (map_of out' kind))\<lparr>dOldestPendingAge := clock s - t\<rparr>) out')
         oldestPending out)"

definition stats_step :: "source \<Rightarrow> string \<Rightarrow> fakeJob \<Rightarrow> depths \<times> time option \<Rightarrow> depths \<times> time option" where
  "stats_step src kind j st =
     (let (d, oldest) = st in
      if jSource j = src \<and> jKind j = kind
      then (addDepth (jState j) d,
            if jState j = StatePending \<and> (case oldest of None \<Rightarrow> True | Some t \<Rightarrow> jRunAt j < t)
            then Some (jRunAt j) else oldest)
      else st)"

definition zeroDaily :: "time \<Rightarrow> dailyCount" where
  "zeroDaily day = \<lparr>dcDate = day, dcEnqueued = 0, dcProcessed = 0, dcFailed = 0, dcReaped = 0\<rparr>"

definition addDaily :: "statCounters \<Rightarrow> dailyCount \<Rightarrow> dailyCount" where
  "addDaily c d = d\<lparr>dcEnqueued := dcEnqueued d + scEnqueued c, dcProcessed := dcProcessed d + scProcessed c,
     dcFailed := dcFailed d + scFailed c, dcReaped := dcReaped d + scReaped c\<rparr>"

definition daily_step ::
  "source \<Rightarrow> string option \<Rightarrow> statKey \<times> statCounters \<Rightarrow> (time \<times> dailyCount) list \<Rightarrow> (time \<times> dailyCount) list" where
  "daily_step src kind e byDay =
     (case e of ((ksrc, kkind, day), c) \<Rightarrow>
        if ksrc \<noteq> src then byDay
        else if (case kind of None \<Rightarrow> False | Some kd \<Rightarrow> kkind \<noteq> kd) then byDay
        else AList.update day (addDaily c (the_default (zeroDaily day) (map_of byDay day))) byDay)"

definition dailyLocked :: "source \<Rightarrow> string option \<Rightarrow> fake \<Rightarrow> dailyCount list" where
  "dailyLocked src kind s = sort_key dcDate (map snd (fold (daily_step src kind) (stats s) []))"

definition Stats :: "source \<Rightarrow> string \<Rightarrow> fake \<Rightarrow> depths \<times> dailyCount list" where
  "Stats src kind s =
     (let (d, oldest) = fold (stats_step src kind) (map snd (jobs s)) (zeroDepths, None);
          d' = (case oldest of None \<Rightarrow> d | Some t \<Rightarrow> d\<lparr>dOldestPendingAge := clock s - t\<rparr>)
      in (d', dailyLocked src (Some kind) s))"

definition AllDaily :: "source \<Rightarrow> fake \<Rightarrow> dailyCount list" where
  "AllDaily src s = dailyLocked src None s"

text \<open>
  \<open>orderJobs\<close>: the sort key depends on the state filter; a descending order is
  an ascending order on the negated instant, with the id always ascending.
\<close>

definition order_key :: "job_state option \<Rightarrow> fakeJob \<Rightarrow> time \<times> uuid" where
  "order_key state j =
     (case state of
        Some StatePending \<Rightarrow> (jEnqueuedAt j, jID j)
      | Some StateDead \<Rightarrow> (jEnqueuedAt j, jID j)
      | Some StateScheduled \<Rightarrow> (jRunAt j, jID j)
      | Some StatePaused \<Rightarrow> (jRunAt j, jID j)
      | Some StateActive \<Rightarrow> (jLeaseUntil j, jID j)
      | Some StateSucceeded \<Rightarrow> (- jCompletedAt j, jID j)
      | _ \<Rightarrow> (- jEnqueuedAt j, jID j))"

definition orderJobs :: "job_state option \<Rightarrow> fakeJob list \<Rightarrow> fakeJob list" where
  "orderJobs state js = sort_key (order_key state) js"

definition job_matches :: "source \<Rightarrow> jobFilter \<Rightarrow> fakeJob \<Rightarrow> bool" where
  "job_matches src flt j =
     (jSource j = src \<and> (jfKind flt = [] \<or> jKind j = jfKind flt) \<and>
      (case jfState flt of None \<Rightarrow> True | Some st \<Rightarrow> jState j = st))"

definition ListJobs :: "source \<Rightarrow> jobFilter \<Rightarrow> int \<Rightarrow> int \<Rightarrow> fake \<Rightarrow> job list \<times> int" where
  "ListJobs src flt offset limit s =
     (let matched = orderJobs (jfState flt) (filter (job_matches src flt) (map snd (jobs s)))
      in (map toJob (paginate offset limit matched), int (length matched)))"

definition GetJob :: "source \<Rightarrow> uuid \<Rightarrow> fake \<Rightarrow> error + job" where
  "GetJob src jid s =
     (case map_of (jobs s) jid of
        None \<Rightarrow> Inl (NotFound ''get job'')
      | Some j \<Rightarrow> if jSource j \<noteq> src then Inl (NotFound ''get job'') else Inr (toJob j))"

definition JobAttempts :: "source \<Rightarrow> uuid \<Rightarrow> fake \<Rightarrow> attemptError list" where
  "JobAttempts src jid s =
     (case map_of (jobs s) jid of
        None \<Rightarrow> []
      | Some j \<Rightarrow> if jSource j \<noteq> src then [] else the_default [] (map_of (attempts s) jid))"

section \<open>Operator verbs\<close>

definition reset_job :: "time \<Rightarrow> fakeJob \<Rightarrow> fakeJob" where
  "reset_job now j =
     j\<lparr>jState := StatePending, jRunAt := now, jAttempt := 0, jReapCount := 0, jLastError := [],
       jFailedAt := zero_time, jStartedAt := zero_time, jDeadlineAt := zero_time\<rparr>"

definition resetToPending :: "fakeJob \<Rightarrow> fake \<Rightarrow> fake" where
  "resetToPending j s =
     (let j' = reset_job (clock s) j
      in wake (jSource j) (jKind j) (changeJob j' (putJob j' s)))"

definition RetryJob :: "source \<Rightarrow> uuid \<Rightarrow> fake \<Rightarrow> (fake, unit) outcome" where
  "RetryJob src jid s =
     (case map_of (jobs s) jid of
        None \<Rightarrow> (Inl (NotFound ''retry''), s)
      | Some j \<Rightarrow> if jSource j \<noteq> src \<or> jState j \<noteq> StateDead then (Inl (NotFound ''retry''), s)
                  else (Inr (), resetToPending j s))"

definition retryable :: "source \<Rightarrow> string \<Rightarrow> fakeJob \<Rightarrow> bool" where
  "retryable src kind j = (jSource j = src \<and> (kind = [] \<or> jKind j = kind) \<and> jState j = StateDead)"

definition retry_body :: "source \<Rightarrow> string \<Rightarrow> uuid \<Rightarrow> fakeJob \<Rightarrow> int \<times> fake \<Rightarrow> int \<times> fake" where
  "retry_body src kind k j st =
     (let (retried, s) = st in if retryable src kind j then (retried + 1, resetToPending j s) else st)"

definition RetryAllDead :: "source \<Rightarrow> string \<Rightarrow> fake \<Rightarrow> (fake, int) outcome" where
  "RetryAllDead src kind s =
     (let (retried, s') = range_fold (jobs \<circ> snd) (retry_body src kind) (0, s) in (Inr retried, s'))"

definition ArchiveJob :: "source \<Rightarrow> uuid \<Rightarrow> fake \<Rightarrow> (fake, unit) outcome" where
  "ArchiveJob src jid s =
     (case map_of (jobs s) jid of
        None \<Rightarrow> (Inl (NotFound ''archive''), s)
      | Some j \<Rightarrow>
          if jSource j \<noteq> src \<or> (jState j \<noteq> StatePending \<and> jState j \<noteq> StateScheduled)
          then (Inl (NotFound ''archive''), s)
          else let j' = j\<lparr>jState := StateDead, jLeaseUntil := zero_time\<rparr>
               in (Inr (), changeJob j' (putJob j' s)))"

definition PauseJob :: "source \<Rightarrow> uuid \<Rightarrow> fake \<Rightarrow> (fake, unit) outcome" where
  "PauseJob src jid s =
     (case map_of (jobs s) jid of
        None \<Rightarrow> (Inl (NotFound ''pause''), s)
      | Some j \<Rightarrow>
          if jSource j \<noteq> src \<or> (jState j \<noteq> StatePending \<and> jState j \<noteq> StateScheduled)
          then (Inl (NotFound ''pause''), s)
          else let j' = j\<lparr>jState := StatePaused\<rparr> in (Inr (), changeJob j' (putJob j' s)))"

definition ResumeJob :: "source \<Rightarrow> uuid \<Rightarrow> fake \<Rightarrow> (fake, unit) outcome" where
  "ResumeJob src jid s =
     (case map_of (jobs s) jid of
        None \<Rightarrow> (Inl (NotFound ''resume''), s)
      | Some j \<Rightarrow>
          if jSource j \<noteq> src \<or> jState j \<noteq> StatePaused then (Inl (NotFound ''resume''), s)
          else if jRunAt j > clock s
          then let j' = j\<lparr>jState := StateScheduled\<rparr> in (Inr (), changeJob j' (putJob j' s))
          else let j' = j\<lparr>jState := StatePending\<rparr>
               in (Inr (), changeJob j' (wake (jSource j) (jKind j) (putJob j' s))))"

definition RunNow :: "source \<Rightarrow> uuid \<Rightarrow> fake \<Rightarrow> (fake, unit) outcome" where
  "RunNow src jid s =
     (case map_of (jobs s) jid of
        None \<Rightarrow> (Inl (NotFound ''run now''), s)
      | Some j \<Rightarrow>
          if jSource j \<noteq> src \<or> jState j \<noteq> StateScheduled then (Inl (NotFound ''run now''), s)
          else let j' = j\<lparr>jState := StatePending, jRunAt := clock s\<rparr>
               in (Inr (), wake (jSource j) (jKind j) (changeJob j' (putJob j' s))))"

definition DeleteJob :: "source \<Rightarrow> uuid \<Rightarrow> job_state \<Rightarrow> fake \<Rightarrow> (fake, unit) outcome" where
  "DeleteJob src jid state s =
     (case map_of (jobs s) jid of
        None \<Rightarrow> (Inl (NotFound ''delete''), s)
      | Some j \<Rightarrow> if jSource j \<noteq> src \<or> jState j \<noteq> state then (Inl (NotFound ''delete''), s)
                  else (Inr (), delJob jid s))"

definition DeleteAll :: "source \<Rightarrow> string \<Rightarrow> job_state \<Rightarrow> fake \<Rightarrow> (fake, int) outcome" where
  "DeleteAll src kind state s =
     (let (removed, s') = range_fold (jobs \<circ> snd)
            (delete_body (\<lambda>j. jSource j = src \<and> (kind = [] \<or> jKind j = kind) \<and> jState j = state)) (0, s)
      in (Inr removed, s'))"

definition NukeAll :: "source \<Rightarrow> fake \<Rightarrow> (fake, nukeReport) outcome" where
  "NukeAll src s =
     (let (n, s1) = range_fold (jobs \<circ> snd) (delete_body (\<lambda>j. jSource j = src)) (0, s);
          ofStat = (\<lambda>(k, c). fst k = src);
          ofKey = (\<lambda>(k, exp). fst k = src)
      in (Inr \<lparr>nrJobs = n, nrStats = int (length (filter ofStat (stats s1))),
               nrKeys = int (length (filter ofKey (idempotency s1)))\<rparr>,
          s1\<lparr>stats := filter (\<lambda>e. \<not> ofStat e) (stats s1),
             idempotency := filter (\<lambda>e. \<not> ofKey e) (idempotency s1)\<rparr>))"

section \<open>Leadership\<close>

text \<open>
  A lease object is allocated on acquisition and named by its number in
  \<open>leases\<close>; \<open>activeLease\<close> maps a leadership to the lease it was granted to.
\<close>

definition AcquireLeadershipLease :: "string \<Rightarrow> fake \<Rightarrow> nat option \<times> fake" where
  "AcquireLeadershipLease name s =
     (if the_default False (map_of (leaders s) name) then (None, s)
      else
        let l = length (leases s)
        in (Some l, s\<lparr>leaders := AList.update name True (leaders s),
                      leases := AList.update l \<lparr>flName = name, flInvalid = False, flReleased = False\<rparr> (leases s),
                      activeLease := AList.update name l (activeLease s)\<rparr>))"

definition InvalidateLeadership :: "string \<Rightarrow> fake \<Rightarrow> fake" where
  "InvalidateLeadership name s =
     (case map_of (activeLease s) name of
        None \<Rightarrow> s
      | Some l \<Rightarrow> (case map_of (leases s) l of
                     None \<Rightarrow> s
                   | Some fl \<Rightarrow> s\<lparr>leases := AList.update l (fl\<lparr>flInvalid := True\<rparr>) (leases s)\<rparr>))"

definition LeaseValid :: "nat \<Rightarrow> fake \<Rightarrow> bool" where
  "LeaseValid l s = (case map_of (leases s) l of None \<Rightarrow> False | Some fl \<Rightarrow> \<not> flInvalid fl)"

definition LeaseRelease :: "nat \<Rightarrow> fake \<Rightarrow> fake" where
  "LeaseRelease l s =
     (case map_of (leases s) l of
        None \<Rightarrow> s
      | Some fl \<Rightarrow>
          if flReleased fl then s
          else s\<lparr>leases := AList.update l (fl\<lparr>flReleased := True\<rparr>) (leases s),
                 leaders := AList.delete (flName fl) (leaders s),
                 activeLease := (if map_of (activeLease s) (flName fl) = Some l
                                 then AList.delete (flName fl) (activeLease s) else activeLease s)\<rparr>)"

definition AcquireLeadership :: "string \<Rightarrow> fake \<Rightarrow> nat option \<times> fake" where
  "AcquireLeadership name s = AcquireLeadershipLease name s"

section \<open>Behaviour of the verbs\<close>

text \<open>
  Every single-job verb has the same shape: it applies a transition to the job
  of the source when the job is in an admitted state, and answers not-found and
  changes nothing otherwise. \<open>admin_verb\<close> states the shape once.
\<close>

definition admin_verb ::
  "string \<Rightarrow> (fakeJob \<Rightarrow> bool) \<Rightarrow> (time \<Rightarrow> fakeJob \<Rightarrow> fakeJob) \<Rightarrow>
   (source \<Rightarrow> uuid \<Rightarrow> fake \<Rightarrow> (fake, unit) outcome) \<Rightarrow> bool" where
  "admin_verb opn adm tr f \<longleftrightarrow>
     (\<forall>src jid s. wf_jobs s \<longrightarrow>
        (case map_of (jobs s) jid of
           Some j \<Rightarrow> if jSource j = src \<and> adm j
                     then \<exists>s'. f src jid s = (Inr (), s') \<and> wf_jobs s' \<and> clock s' = clock s \<and>
                            map_of (jobs s') = (map_of (jobs s))(jid \<mapsto> tr (clock s) j)
                     else f src jid s = (Inl (NotFound opn), s)
         | None \<Rightarrow> f src jid s = (Inl (NotFound opn), s)))"

lemma admin_verbI:
  assumes bad: "\<And>src jid s. (\<And>j. map_of (jobs s) jid = Some j \<Longrightarrow> \<not> (jSource j = src \<and> adm j)) \<Longrightarrow>
      f src jid s = (Inl (NotFound opn), s)"
    and ok: "\<And>src jid s j. map_of (jobs s) jid = Some j \<Longrightarrow> jSource j = src \<Longrightarrow> adm j \<Longrightarrow>
      \<exists>s'. f src jid s = (Inr (), s') \<and> clock s' = clock s \<and>
        jobs s' = AList.update (jID j) (tr (clock s) j) (jobs s)"
    and ID: "\<And>now j. jID (tr now j) = jID j"
    and good: "\<And>now j. adm j \<Longrightarrow> job_ok j \<Longrightarrow> job_ok (tr now j)"
  shows "admin_verb opn adm tr f"
  unfolding admin_verb_def
proof (intro allI impI)
  fix src jid s
  assume wf: "wf_jobs s"
  show "case map_of (jobs s) jid of
      Some j \<Rightarrow> if jSource j = src \<and> adm j
                then \<exists>s'. f src jid s = (Inr (), s') \<and> wf_jobs s' \<and> clock s' = clock s \<and>
                       map_of (jobs s') = (map_of (jobs s))(jid \<mapsto> tr (clock s) j)
                else f src jid s = (Inl (NotFound opn), s)
    | None \<Rightarrow> f src jid s = (Inl (NotFound opn), s)"
  proof (cases "\<exists>j. map_of (jobs s) jid = Some j \<and> jSource j = src \<and> adm j")
    case False
    then have "f src jid s = (Inl (NotFound opn), s)" by (intro bad) blast
    with False show ?thesis by (auto split: option.splits)
  next
    case True
    then obtain j where j: "map_of (jobs s) jid = Some j" "jSource j = src" "adm j" by blast
    from wf j(1) have k: "jID j = jid" "job_ok j" by (auto dest: wf_jobsD)
    from ok [OF j] obtain s' where s': "f src jid s = (Inr (), s')" "clock s' = clock s"
      "jobs s' = AList.update (jID j) (tr (clock s) j) (jobs s)" by blast
    have "wf_jobs (putJob (tr (clock s) j) s)" by (rule wf_jobs_putJob [OF wf good [OF j(3) k(2)]])
    then have "wf_jobs s'" by (rule wf_jobs_cong [rotated]) (simp add: s'(3) ID)
    with s' j k show ?thesis by (auto simp: AList.update_conv')
  qed
qed

lemma RetryJob_verb: "admin_verb ''retry'' (\<lambda>j. jState j = StateDead) reset_job RetryJob"
  by (rule admin_verbI)
    (auto simp: RetryJob_def resetToPending_def Let_def reset_job_def job_ok_def split: option.split)

lemma ArchiveJob_verb:
  "admin_verb ''archive'' (\<lambda>j. jState j = StatePending \<or> jState j = StateScheduled)
     (\<lambda>now j. j\<lparr>jState := StateDead, jLeaseUntil := zero_time\<rparr>) ArchiveJob"
  by (rule admin_verbI) (auto simp: ArchiveJob_def Let_def job_ok_def split: option.split)

lemma PauseJob_verb:
  "admin_verb ''pause'' (\<lambda>j. jState j = StatePending \<or> jState j = StateScheduled)
     (\<lambda>now j. j\<lparr>jState := StatePaused\<rparr>) PauseJob"
  by (rule admin_verbI) (auto simp: PauseJob_def Let_def job_ok_def split: option.split)

lemma ResumeJob_verb:
  "admin_verb ''resume'' (\<lambda>j. jState j = StatePaused)
     (\<lambda>now j. j\<lparr>jState := enqueue_state (jRunAt j) now\<rparr>) ResumeJob"
  by (rule admin_verbI) (auto simp: ResumeJob_def Let_def job_ok_def enqueue_state_def split: option.split)

lemma RunNow_verb:
  "admin_verb ''run now'' (\<lambda>j. jState j = StateScheduled)
     (\<lambda>now j. j\<lparr>jState := StatePending, jRunAt := now\<rparr>) RunNow"
  by (rule admin_verbI) (auto simp: RunNow_def Let_def job_ok_def split: option.split)

lemma admin_verb_wf:
  assumes "admin_verb opn adm tr f" "wf_jobs s"
  shows "wf_jobs (snd (f src jid s))"
proof -
  from assms have "case map_of (jobs s) jid of
      Some j \<Rightarrow> if jSource j = src \<and> adm j
                then \<exists>s'. f src jid s = (Inr (), s') \<and> wf_jobs s' \<and> clock s' = clock s \<and>
                       map_of (jobs s') = (map_of (jobs s))(jid \<mapsto> tr (clock s) j)
                else f src jid s = (Inl (NotFound opn), s)
    | None \<Rightarrow> f src jid s = (Inl (NotFound opn), s)"
    unfolding admin_verb_def by blast
  with assms(2) show ?thesis by (auto split: option.splits if_splits)
qed

lemmas admin_verbs_wf [store_inv] =
  admin_verb_wf [OF RetryJob_verb] admin_verb_wf [OF ArchiveJob_verb] admin_verb_wf [OF PauseJob_verb]
  admin_verb_wf [OF ResumeJob_verb] admin_verb_wf [OF RunNow_verb]

lemma admin_verb_applies:
  assumes "admin_verb opn adm tr f" "wf_jobs s" "map_of (jobs s) jid = Some j" "jSource j = src" "adm j"
  obtains s' where "f src jid s = (Inr (), s')" "wf_jobs s'" "clock s' = clock s"
    "map_of (jobs s') = (map_of (jobs s))(jid \<mapsto> tr (clock s) j)"
proof -
  from assms(1,2) have "case map_of (jobs s) jid of
      Some j \<Rightarrow> if jSource j = src \<and> adm j
                then \<exists>s'. f src jid s = (Inr (), s') \<and> wf_jobs s' \<and> clock s' = clock s \<and>
                       map_of (jobs s') = (map_of (jobs s))(jid \<mapsto> tr (clock s) j)
                else f src jid s = (Inl (NotFound opn), s)
    | None \<Rightarrow> f src jid s = (Inl (NotFound opn), s)"
    unfolding admin_verb_def by blast
  with assms(3-5) show thesis using that by auto
qed

interpretation retry: pointwise_loop "jobs \<circ> snd" "retry_body src kind"
    "\<lambda>st. clock (snd st) = now \<and> wf_jobs (snd st)"
    "\<lambda>j. Some (if retryable src kind j then reset_job now j else j)"
  for src kind now
proof (unfold_locales, goal_cases)
  case (1 st k v)
  then have "job_ok (reset_job now v)" if "retryable src kind v"
    using that wf_jobsD(3) [of "snd st" k v] by (auto simp: job_ok_def reset_job_def retryable_def)
  with 1 show ?case
    by (auto simp: retry_body_def resetToPending_def Let_def case_prod_unfold intro: wf_jobs_putJob)
next
  case (2 st k v)
  then have "jID v = k" by (auto dest: wf_jobsD)
  moreover have "k \<in> fst ` set (jobs (snd st))" using 2(2) by (force dest: map_of_SomeD)
  ultimately show ?case using 2
    by (auto simp: retry_body_def resetToPending_def reset_job_def Let_def case_prod_unfold
        AList.update_conv' update_keys_in fun_eq_iff)
qed

lemma RetryAllDead_result:
  assumes wf: "wf_jobs s"
  obtains s' where
    "RetryAllDead src kind s = (Inr (int (length (filter (retryable src kind) (map snd (jobs s))))), s')"
    "clock s' = clock s" "wf_jobs s'"
    "map_of (jobs s') = (\<lambda>k. map_option (\<lambda>j. if retryable src kind j
        then reset_job (clock s) j else j) (map_of (jobs s) k))"
proof -
  let ?r = "range_fold (jobs \<circ> snd) (retry_body src kind) (0::int, s)"
  have I: "clock (snd (0::int, s)) = clock s \<and> wf_jobs (snd (0::int, s))" using wf by simp
  have d: "distinct_keys ((jobs \<circ> snd) (0::int, s))" using wf by (simp add: wf_jobsD)
  note L = retry.loop_get [OF I d, of src kind]
  have "fst ?r = fst (0::int, s) + sum_list (map (\<lambda>(k, v). if retryable src kind v then 1 else 0) ((jobs \<circ> snd) (0::int, s)))"
    by (rule retry.loop_acc [OF I d]) (auto simp: retry_body_def Let_def case_prod_unfold)
  then have cnt: "fst ?r = int (length (filter (retryable src kind) (map snd (jobs s))))"
    by (simp add: sum_list_count_values)
  show thesis
  proof (rule that [of "snd ?r"])
    show "RetryAllDead src kind s = (Inr (int (length (filter (retryable src kind) (map snd (jobs s))))), snd ?r)"
      using cnt by (simp add: RetryAllDead_def case_prod_unfold Let_def)
    show "clock (snd ?r) = clock s" "wf_jobs (snd ?r)" using L(2) by auto
    show "map_of (jobs (snd ?r)) = (\<lambda>k. map_option (\<lambda>j. if retryable src kind j
        then reset_job (clock s) j else j) (map_of (jobs s) k))"
      using L(1) by (auto simp: fun_eq_iff split: option.splits bind_splits)
  qed
qed

lemma DeleteJob_wf [store_inv]: "wf_jobs s \<Longrightarrow> wf_jobs (snd (DeleteJob src jid state s))"
  by (auto simp: DeleteJob_def wf_jobs_delJob split: option.split)

lemma delete_ops_wf [store_inv]:
  assumes "wf_jobs s"
  shows "wf_jobs (snd (DeleteAll src kind state s))" "wf_jobs (snd (VacuumDead src kind olderThan s))"
    "wf_jobs (snd (VacuumCompleted src retention s))" "wf_jobs (snd (NukeAll src s))"
proof -
  have *: "wf_jobs (snd (range_fold (jobs \<circ> snd) (delete_body P) (0, s)))" for P
    by (rule delete_loop_result [OF assms, of P]) simp
  show "wf_jobs (snd (DeleteAll src kind state s))" "wf_jobs (snd (VacuumDead src kind olderThan s))"
    "wf_jobs (snd (VacuumCompleted src retention s))"
    using * assms by (simp_all add: DeleteAll_def VacuumDead_def VacuumCompleted_def case_prod_unfold Let_def)
  have "jobs (snd (NukeAll src s)) = jobs (snd (range_fold (jobs \<circ> snd) (delete_body (\<lambda>j. jSource j = src)) (0, s)))"
    by (simp add: NukeAll_def case_prod_unfold Let_def)
  then show "wf_jobs (snd (NukeAll src s))" using * by (rule wf_jobs_cong)
qed

section \<open>Lease objects are numbered in order of allocation\<close>

definition wf_leases :: "fake \<Rightarrow> bool" where
  "wf_leases s = (map fst (leases s) = [0..<length (leases s)])"

lemma update_fresh: "k \<notin> fst ` set m \<Longrightarrow> AList.update k v m = m @ [(k, v)]"
  by (induction m) auto

lemma wf_leases_lt: "wf_leases s \<Longrightarrow> map_of (leases s) l = Some fl \<Longrightarrow> l < length (leases s)"
proof -
  assume "wf_leases s" "map_of (leases s) l = Some fl"
  then have "l \<in> set (map fst (leases s))" by (force dest: map_of_SomeD)
  with \<open>wf_leases s\<close> show ?thesis by (simp add: wf_leases_def)
qed

lemma wf_leases_update:
  "wf_leases s \<Longrightarrow> map_of (leases s) l = Some fl \<Longrightarrow> leases s' = AList.update l fl' (leases s) \<Longrightarrow> wf_leases s'"
  by (metis AList.update_conv' image_eqI length_map map_of_SomeD update_keys_in wf_leases_def fst_conv)

lemma AcquireLeadershipLease_wf: "wf_leases s \<Longrightarrow> wf_leases (snd (AcquireLeadershipLease name s))"
proof -
  assume wf: "wf_leases s"
  then have "set (map fst (leases s)) = {0..<length (leases s)}" by (simp add: wf_leases_def)
  then have "length (leases s) \<notin> fst ` set (leases s)" by simp
  from update_fresh [OF this] wf show ?thesis
    by (simp add: AcquireLeadershipLease_def Let_def wf_leases_def)
qed

lemma LeaseRelease_wf: "wf_leases s \<Longrightarrow> wf_leases (LeaseRelease l s)"
proof (cases "map_of (leases s) l")
  case (Some fl)
  assume wf: "wf_leases s"
  show ?thesis
  proof (cases "flReleased fl")
    case False
    with Some have "leases (LeaseRelease l s) = AList.update l (fl\<lparr>flReleased := True\<rparr>) (leases s)"
      by (simp add: LeaseRelease_def)
    with wf Some show ?thesis by (rule wf_leases_update)
  qed (use wf Some in \<open>simp add: LeaseRelease_def\<close>)
qed (simp add: LeaseRelease_def)

end
