(* ===== verification/Fake_Ledger.thy ===== *)
theory Fake_Ledger
  imports Fake_Admin
begin

text \<open>
  The event ledger of the in-memory store (\<open>fake.go\<close>): publishing with atomic
  fan-out, subscriber registrations, the ledger listings, replay and retention.
  A delivery is a job of source \<open>SourceEvent\<close> whose kind is the subscriber; its
  body lives in the ledger.
\<close>

section \<open>Subscribers\<close>

definition subscribersFor :: "string \<Rightarrow> fake \<Rightarrow> subscriber list" where
  "subscribersFor eventType s =
     sort_key subName (map (subscriber.truncate \<circ> snd) (filter (\<lambda>(k, r). subEventType r = eventType) (subscribers s)))"

definition RegisterSubscriber :: "subscriber \<Rightarrow> fake \<Rightarrow> fake" where
  "RegisterSubscriber sub s =
     (let now = clock s; k = (subName sub, subEventType sub) in
      case map_of (subscribers s) k of
        Some existing \<Rightarrow> s\<lparr>subscribers := AList.update k
            (existing\<lparr>subMaxAttempts := subMaxAttempts sub, updatedAt := now\<rparr>) (subscribers s)\<rparr>
      | None \<Rightarrow> s\<lparr>subscribers := AList.update k
            (subscriber.extend sub \<lparr>createdAt = now, updatedAt = now\<rparr>) (subscribers s)\<rparr>)"

definition Subscribers :: "string \<Rightarrow> fake \<Rightarrow> subscriber list" where
  "Subscribers eventType s = subscribersFor eventType s"

definition DeleteSubscriber :: "string \<Rightarrow> string \<Rightarrow> fake \<Rightarrow> (fake, int) outcome" where
  "DeleteSubscriber name eventType s =
     (let hit = (\<lambda>((n, et), r). n = name \<and> (eventType = [] \<or> et = eventType))
      in (Inr (int (length (filter hit (subscribers s)))),
          s\<lparr>subscribers := filter (\<lambda>e. \<not> hit e) (subscribers s)\<rparr>))"

section \<open>Publish\<close>

definition delivery_job :: "uuid \<Rightarrow> uuid \<Rightarrow> string \<Rightarrow> int \<Rightarrow> bool \<Rightarrow> time \<Rightarrow> int \<Rightarrow> fakeJob" where
  "delivery_job jid eventID sub maxAtt replay now sq =
     zeroJob\<lparr>jID := jid, jSource := SourceEvent, jKind := sub, jState := StatePending,
       jMaxAttempts := maxAtt, jRunAt := now, jEventID := eventID, jReplay := replay,
       jEnqueuedAt := now, maxAttemptsExplicit := True, seq := sq\<rparr>"

definition createDelivery ::
  "(nat \<Rightarrow> uuid) \<Rightarrow> uuid \<Rightarrow> string \<Rightarrow> int \<Rightarrow> bool \<Rightarrow> time \<Rightarrow> fake \<Rightarrow> fake" where
  "createDelivery gen eventID sub maxAtt replay now s =
     (let jid = gen (draws s);
          (sq, s1) = nextSeq (s\<lparr>draws := Suc (draws s)\<rparr>);
          j = delivery_job jid eventID sub maxAtt replay now sq
      in wake SourceEvent sub (changeJob j (bumpStat SourceEvent sub statEnqueued 1 now (putJob j s1))))"

definition ledger_record :: "publishParams \<Rightarrow> eventRecord" where
  "ledger_record p =
     \<lparr>evID = ppID p, evType = ppType p, evAggregateType = ppAggregateType p,
      evAggregateID = ppAggregateID p, evVersion = ppVersion p, evOccurredAt = ppOccurredAt p,
      evPayload = clonePayload (ppPayload p), evMeta = cloneMeta (ppMeta p)\<rparr>"

definition publish_step ::
  "(nat \<Rightarrow> uuid) \<Rightarrow> publishParams \<Rightarrow> time \<Rightarrow> subscriber \<Rightarrow> int \<times> fake \<Rightarrow> int \<times> fake" where
  "publish_step gen p now sub st =
     (let (delivered, s) = st
      in (delivered + 1, createDelivery gen (ppID p) (subName sub) (subMaxAttempts sub) False now s))"

definition Publish :: "(nat \<Rightarrow> uuid) \<Rightarrow> publishParams \<Rightarrow> fake \<Rightarrow> (fake, int) outcome" where
  "Publish gen p s =
     (if map_of (events s) (ppID p) \<noteq> None then (Inl AlreadyExists, s)
      else
        let now = clock s;
            s1 = changeEvent (ppID p) (ppType p)
                   (s\<lparr>events := AList.update (ppID p) (ledger_record p) (events s)\<rparr>);
            (delivered, s2) = fold (publish_step gen p now) (subscribersFor (ppType p) s1) (0, s1)
        in (Inr delivered, s2))"

definition SeedOrphanDelivery :: "(nat \<Rightarrow> uuid) \<Rightarrow> uuid \<Rightarrow> string \<Rightarrow> fake \<Rightarrow> fake" where
  "SeedOrphanDelivery gen deliveryID sub s =
     (let now = clock s;
          eid = gen (draws s);
          (sq, s1) = nextSeq (s\<lparr>draws := Suc (draws s)\<rparr>);
          j = delivery_job deliveryID eid sub 1 False now sq
      in wake SourceEvent sub (changeJob j (bumpStat SourceEvent sub statEnqueued 1 now (putJob j s1))))"

section \<open>Ledger listings\<close>

definition is_delivery_of :: "uuid \<Rightarrow> fakeJob \<Rightarrow> bool" where
  "is_delivery_of eid j = (jSource j = SourceEvent \<and> jEventID j = eid)"

definition deliveryCount :: "uuid \<Rightarrow> fake \<Rightarrow> int" where
  "deliveryCount eid s = int (length (filter (is_delivery_of eid) (map snd (jobs s))))"

definition eventMatches :: "eventRecord \<Rightarrow> eventFilter \<Rightarrow> fake \<Rightarrow> bool" where
  "eventMatches e flt s =
     (if efType flt \<noteq> [] \<and> evType e \<noteq> efType flt then False
      else if efSince flt \<noteq> zero_time \<and> evOccurredAt e < efSince flt then False
      else if efUntil flt \<noteq> zero_time \<and> evOccurredAt e > efUntil flt then False
      else if (case efUndispatched flt of None \<Rightarrow> False | Some b \<Rightarrow> b \<noteq> (deliveryCount (evID e) s = 0)) then False
      else True)"

definition eventAdminRow :: "eventRecord \<Rightarrow> fake \<Rightarrow> eventAdminRow" where
  "eventAdminRow e s =
     (let n = deliveryCount (evID e) s
      in \<lparr>earEvent = e\<lparr>evMeta := cloneMeta (evMeta e), evPayload := clonePayload (evPayload e)\<rparr>,
          earDispatchedAt = (if n > 0 then evOccurredAt e else zero_time), earDeliveries = n\<rparr>)"

text \<open>Newest first by occurrence, ties broken by descending id.\<close>

definition newest_first :: "eventRecord \<Rightarrow> int \<times> int" where
  "newest_first e = (- evOccurredAt e, - int (evID e))"

definition ListEvents :: "eventFilter \<Rightarrow> int \<Rightarrow> int \<Rightarrow> fake \<Rightarrow> eventAdminRow list \<times> int" where
  "ListEvents flt offset limit s =
     (let matched = sort_key newest_first (filter (\<lambda>e. eventMatches e flt s) (map snd (events s)))
      in (map (\<lambda>e. eventAdminRow e s) (paginate offset limit matched), int (length matched)))"

definition GetEvent :: "uuid \<Rightarrow> fake \<Rightarrow> error + eventAdminRow" where
  "GetEvent eid s =
     (case map_of (events s) eid of None \<Rightarrow> Inl (NotFound ''get event'') | Some e \<Rightarrow> Inr (eventAdminRow e s))"

definition ListSubscriberViews :: "string \<Rightarrow> fake \<Rightarrow> subscriberView list" where
  "ListSubscriberViews eventType s =
     sort_key (\<lambda>v. (svEventType v, svSubscriber v))
       (map (\<lambda>(k, r). \<lparr>svEventType = subEventType r, svSubscriber = subName r,
                       svMaxAttempts = subMaxAttempts r, svCreatedAt = createdAt r, svUpdatedAt = updatedAt r\<rparr>)
          (filter (\<lambda>(k, r). eventType = [] \<or> subEventType r = eventType) (subscribers s)))"

definition OpsStats :: "fake \<Rightarrow> opsStats" where
  "OpsStats s =
     (let cutoff = clock s - 24 * 3600 * nsPerSecond;
          es = map snd (events s);
          recent = filter (\<lambda>e. \<not> evOccurredAt e < cutoff) es
      in \<lparr>osUndispatched = int (length (filter (\<lambda>e. deliveryCount (evID e) s = 0) es)),
          osTotal24h = int (length recent),
          osTypes24h = int (length (remdups (map evType recent))),
          osSubscribers = int (length (subscribers s))\<rparr>)"

section \<open>Replay and retention\<close>

definition replay_matches :: "replayFilter \<Rightarrow> eventRecord \<Rightarrow> bool" where
  "replay_matches flt e =
     (\<not> (rfEventType flt \<noteq> [] \<and> evType e \<noteq> rfEventType flt) \<and>
      \<not> (rfEventID flt \<noteq> Nil_uuid \<and> evID e \<noteq> rfEventID flt) \<and>
      \<not> (rfSince flt \<noteq> zero_time \<and> evOccurredAt e < rfSince flt) \<and>
      \<not> (rfUntil flt \<noteq> zero_time \<and> evOccurredAt e > rfUntil flt))"

definition replay_events :: "replayFilter \<Rightarrow> fake \<Rightarrow> eventRecord list" where
  "replay_events flt s =
     (let es = sort_key evID (filter (replay_matches flt) (map snd (events s)))
      in if rfLimit flt > 0 \<and> rfLimit flt < int (length es) then take (nat (rfLimit flt)) es else es)"

definition replay_sub ::
  "(nat \<Rightarrow> uuid) \<Rightarrow> replayFilter \<Rightarrow> time \<Rightarrow> eventRecord \<Rightarrow> subscriber \<Rightarrow> int \<times> fake \<Rightarrow> int \<times> fake" where
  "replay_sub gen flt now e sub st =
     (let (created, s) = st in
      if rfSubscriber flt \<noteq> [] \<and> subName sub \<noteq> rfSubscriber flt then st
      else (created + 1, createDelivery gen (evID e) (subName sub) (subMaxAttempts sub) True now s))"

definition replay_event ::
  "(nat \<Rightarrow> uuid) \<Rightarrow> replayFilter \<Rightarrow> time \<Rightarrow> eventRecord \<Rightarrow> int \<times> fake \<Rightarrow> int \<times> fake" where
  "replay_event gen flt now e st = fold (replay_sub gen flt now e) (subscribersFor (evType e) (snd st)) st"

definition Replay :: "(nat \<Rightarrow> uuid) \<Rightarrow> replayFilter \<Rightarrow> fake \<Rightarrow> (fake, int) outcome" where
  "Replay gen flt s =
     (let (created, s') = fold (replay_event gen flt (clock s)) (replay_events flt s) (0, s)
      in (Inr created, s'))"

definition hasInFlightDelivery :: "uuid \<Rightarrow> fake \<Rightarrow> bool" where
  "hasInFlightDelivery eid s =
     list_ex (\<lambda>j. jSource j = SourceEvent \<and> jEventID j = eid \<and>
                   jState j \<noteq> StateSucceeded \<and> jState j \<noteq> StateDead) (map snd (jobs s))"

definition retain_candidates :: "time \<Rightarrow> int \<Rightarrow> fake \<Rightarrow> eventRecord list" where
  "retain_candidates before limit s =
     (let es = sort_key (\<lambda>e. (evOccurredAt e, evID e))
                 (filter (\<lambda>e. evOccurredAt e < before \<and> \<not> hasInFlightDelivery (evID e) s) (map snd (events s)))
      in if limit < int (length es) then take (nat limit) es else es)"

definition retain_event :: "eventRecord \<Rightarrow> int \<times> fake \<Rightarrow> int \<times> fake" where
  "retain_event e st =
     (let (removed, s) = st;
          s1 = snd (range_fold (jobs \<circ> snd) (delete_body (is_delivery_of (evID e))) (0, s))
      in (removed + 1, s1\<lparr>events := AList.delete (evID e) (events s1)\<rparr>))"

definition Retain :: "time \<Rightarrow> int \<Rightarrow> fake \<Rightarrow> (fake, int) outcome" where
  "Retain before limit s =
     (if limit \<le> 0 then (Inr 0, s)
      else let (removed, s') = fold retain_event (retain_candidates before limit s) (0, s)
           in (Inr removed, s'))"

section \<open>Well-formedness of the ledger\<close>

definition wf_ledger :: "fake \<Rightarrow> bool" where
  "wf_ledger s = (wf_jobs s \<and> distinct_keys (events s) \<and> (\<forall>k e. map_of (events s) k = Some e \<longrightarrow> evID e = k) \<and>
     distinct_keys (subscribers s) \<and>
     (\<forall>k r. map_of (subscribers s) k = Some r \<longrightarrow> (subName r, subEventType r) = k))"

text \<open>
  A batch of UUID draws is fresh for the store: the drawn ids are distinct and
  none is the id of a stored job.
\<close>

definition fresh_ids :: "(nat \<Rightarrow> uuid) \<Rightarrow> nat \<Rightarrow> fake \<Rightarrow> bool" where
  "fresh_ids gen n s = (inj_on gen {draws s ..< draws s + n} \<and>
     (\<forall>i\<in>{draws s ..< draws s + n}. map_of (jobs s) (gen i) = None))"

lemma delivery_job_fields [simp]:
  "jID (delivery_job jid e sub m r now sq) = jid" "jSource (delivery_job jid e sub m r now sq) = SourceEvent"
  "jKind (delivery_job jid e sub m r now sq) = sub" "jState (delivery_job jid e sub m r now sq) = StatePending"
  "jEventID (delivery_job jid e sub m r now sq) = e" "jMaxAttempts (delivery_job jid e sub m r now sq) = m"
  "jReplay (delivery_job jid e sub m r now sq) = r" "jRunAt (delivery_job jid e sub m r now sq) = now"
  "job_ok (delivery_job jid e sub m r now sq)"
  by (simp_all add: delivery_job_def zeroJob_def job_ok_def)

lemma createDelivery_frame [simp]:
  "clock (createDelivery gen e sub m r now s) = clock s"
  "events (createDelivery gen e sub m r now s) = events s"
  "subscribers (createDelivery gen e sub m r now s) = subscribers s"
  "draws (createDelivery gen e sub m r now s) = Suc (draws s)"
  "jobs (createDelivery gen e sub m r now s) =
     AList.update (gen (draws s)) (delivery_job (gen (draws s)) e sub m r now (jobSeq s + 1)) (jobs s)"
  by (simp_all add: createDelivery_def nextSeq_def Let_def)

lemma createDelivery_wf: "wf_jobs s \<Longrightarrow> wf_jobs (createDelivery gen e sub m r now s)"
proof -
  assume "wf_jobs s"
  then have "wf_jobs (putJob (delivery_job (gen (draws s)) e sub m r now (jobSeq s + 1)) s)"
    by (rule wf_jobs_putJob) simp
  then show ?thesis by (rule wf_jobs_cong [rotated]) simp
qed

lemma subscribersFor_cong: "subscribers s' = subscribers s \<Longrightarrow> subscribersFor et s' = subscribersFor et s"
  by (simp add: subscribersFor_def)

section \<open>Fan-out\<close>

definition fan_step ::
  "(nat \<Rightarrow> uuid) \<Rightarrow> uuid \<Rightarrow> bool \<Rightarrow> time \<Rightarrow> subscriber \<Rightarrow> int \<times> fake \<Rightarrow> int \<times> fake" where
  "fan_step gen e r now sub st =
     (fst st + 1, createDelivery gen e (subName sub) (subMaxAttempts sub) r now (snd st))"

lemma jobSeq_createDelivery [simp]: "jobSeq (createDelivery gen e sub m r now s) = jobSeq s + 1"
  by (simp add: createDelivery_def nextSeq_def Let_def wake_def changeJob_def notifyChange_def bumpStat_def putJob_def)

lemma fan_out:
  assumes "fresh_ids gen (length subs) s" "wf_jobs s"
  shows "fst (fold (fan_step gen e r now) subs (n, s)) = n + int (length subs)"
    and "clock (snd (fold (fan_step gen e r now) subs (n, s))) = clock s"
    and "events (snd (fold (fan_step gen e r now) subs (n, s))) = events s"
    and "subscribers (snd (fold (fan_step gen e r now) subs (n, s))) = subscribers s"
    and "draws (snd (fold (fan_step gen e r now) subs (n, s))) = draws s + length subs"
    and "wf_jobs (snd (fold (fan_step gen e r now) subs (n, s)))"
    and "i < length subs \<Longrightarrow> map_of (jobs (snd (fold (fan_step gen e r now) subs (n, s)))) (gen (draws s + i)) =
      Some (delivery_job (gen (draws s + i)) e (subName (subs ! i)) (subMaxAttempts (subs ! i)) r now (jobSeq s + 1 + int i))"
    and "i \<notin> gen ` {draws s ..< draws s + length subs} \<Longrightarrow>
      map_of (jobs (snd (fold (fan_step gen e r now) subs (n, s)))) i = map_of (jobs s) i"
  using assms
proof (induction subs arbitrary: n s i)
  case Nil
  { case 1 then show ?case by simp next case 2 then show ?case by simp
  next case 3 then show ?case by simp next case 4 then show ?case by simp
  next case 5 then show ?case by simp next case 6 then show ?case by simp
  next case 7 then show ?case by simp next case 8 then show ?case by simp }
next
  case (Cons sub subs)
  have step: "fold (fan_step gen e r now) (sub # subs) (n, s) = fold (fan_step gen e r now) subs
      (n + 1, createDelivery gen e (subName sub) (subMaxAttempts sub) r now s)"
    for n s by (simp add: fan_step_def)
  have fresh: "fresh_ids gen (length subs) (createDelivery gen e (subName sub) (subMaxAttempts sub) r now s)"
    if f: "fresh_ids gen (length (sub # subs)) s" for s
  proof -
    from f have i: "inj_on gen {draws s ..< draws s + Suc (length subs)}"
      and u: "\<forall>i\<in>{draws s ..< draws s + Suc (length subs)}. map_of (jobs s) (gen i) = None"
      by (auto simp: fresh_ids_def)
    have "gen j \<noteq> gen (draws s)" if "j \<in> {Suc (draws s) ..< Suc (draws s) + length subs}" for j
      using inj_onD [OF i, of j "draws s"] that by auto
    moreover have "inj_on gen {Suc (draws s) ..< Suc (draws s) + length subs}"
      using i by (rule inj_on_subset) auto
    ultimately show ?thesis using u by (auto simp: fresh_ids_def AList.update_conv')
  qed
  { case 1
    then show ?case unfolding step using Cons.IH(1) [OF fresh createDelivery_wf] by simp
  next case 2
    then show ?case unfolding step using Cons.IH(2) [OF fresh createDelivery_wf] by simp
  next case 3
    then show ?case unfolding step using Cons.IH(3) [OF fresh createDelivery_wf] by simp
  next case 4
    then show ?case unfolding step using Cons.IH(4) [OF fresh createDelivery_wf] by simp
  next case 5
    then show ?case unfolding step using Cons.IH(5) [OF fresh createDelivery_wf] by simp
  next case 6
    then show ?case unfolding step using Cons.IH(6) [OF fresh createDelivery_wf] by simp
  next case 7
    let ?s = "createDelivery gen e (subName sub) (subMaxAttempts sub) r now s"
    show ?case
    proof (cases i)
      case 0
      from 7 have inj: "inj_on gen {draws s ..< draws s + Suc (length subs)}" by (simp add: fresh_ids_def)
      have "gen (draws s) \<notin> gen ` {Suc (draws s) ..< Suc (draws s) + length subs}"
      proof
        assume "gen (draws s) \<in> gen ` {Suc (draws s) ..< Suc (draws s) + length subs}"
        then obtain x where "gen (draws s) = gen x" "Suc (draws s) \<le> x" "x < Suc (draws s) + length subs" by auto
        with inj_onD [OF inj this(1)] show False by simp
      qed
      then have "map_of (jobs (snd (fold (fan_step gen e r now) subs (n + 1, ?s)))) (gen (draws s)) = map_of (jobs ?s) (gen (draws s))"
        using Cons.IH(8) [OF _ fresh [OF 7(2)] createDelivery_wf [OF 7(3)], of "gen (draws s)" "n + 1"] by simp
      with 0 show ?thesis unfolding step by (simp add: AList.update_conv')
    next
      case (Suc i')
      with 7 have "i' < length subs" by simp
      from Cons.IH(7) [OF this fresh createDelivery_wf] 7 Suc show ?thesis
        unfolding step by (simp add: add.assoc)
    qed
  next case 8
    have sub: "{Suc (draws s) ..< Suc (draws s) + length subs} \<subseteq> {draws s ..< draws s + length (sub # subs)}" by auto
    from 8(1) have k: "i \<noteq> gen (draws s)" "i \<notin> gen ` {Suc (draws s) ..< Suc (draws s) + length subs}"
      using image_mono [OF sub, of gen] by auto
    from Cons.IH(8) [OF _ fresh [OF 8(2)] createDelivery_wf [OF 8(3)], of i "n + 1"] k show ?case
      unfolding step by (simp add: AList.update_conv')
  }
qed

lemma fresh_ids_cong:
  "jobs s' = jobs s \<Longrightarrow> draws s' = draws s \<Longrightarrow> fresh_ids gen n s' = fresh_ids gen n s"
  by (simp add: fresh_ids_def)

lemma Publish_result:
  assumes wf: "wf_jobs s" and new: "map_of (events s) (ppID p) = None"
    and fresh: "fresh_ids gen (length (subscribersFor (ppType p) s)) s"
  obtains s' where "Publish gen p s = (Inr (int (length (subscribersFor (ppType p) s))), s')"
    "wf_jobs s'" "clock s' = clock s" "subscribers s' = subscribers s"
    "events s' = AList.update (ppID p) (ledger_record p) (events s)"
    "\<forall>i<length (subscribersFor (ppType p) s). map_of (jobs s') (gen (draws s + i)) =
       Some (delivery_job (gen (draws s + i)) (ppID p) (subName (subscribersFor (ppType p) s ! i))
               (subMaxAttempts (subscribersFor (ppType p) s ! i)) False (clock s) (jobSeq s + 1 + int i))"
    "\<forall>k. k \<notin> gen ` {draws s ..< draws s + length (subscribersFor (ppType p) s)} \<longrightarrow>
       map_of (jobs s') k = map_of (jobs s) k"
proof -
  let ?subs = "subscribersFor (ppType p) s"
  let ?s1 = "changeEvent (ppID p) (ppType p) (s\<lparr>events := AList.update (ppID p) (ledger_record p) (events s)\<rparr>)"
  have s1: "jobs ?s1 = jobs s" "draws ?s1 = draws s" "clock ?s1 = clock s" "subscribers ?s1 = subscribers s"
    "events ?s1 = AList.update (ppID p) (ledger_record p) (events s)" "jobSeq ?s1 = jobSeq s"
    by (simp_all add: changeEvent_def notifyChange_def)
  have subs: "subscribersFor (ppType p) ?s1 = ?subs" by (rule subscribersFor_cong) (simp add: s1)
  have f1: "fresh_ids gen (length ?subs) ?s1" using fresh fresh_ids_cong [OF s1(1,2)] by simp
  have w1: "wf_jobs ?s1" using wf by (rule wf_jobs_cong [OF s1(1)])
  have step: "publish_step gen p (clock s) = fan_step gen (ppID p) False (clock s)"
    by (simp add: publish_step_def fan_step_def fun_eq_iff case_prod_unfold Let_def)
  let ?r = "fold (fan_step gen (ppID p) False (clock s)) ?subs (0, ?s1)"
  note F = fan_out [OF f1 w1, where e = "ppID p" and r = False and now = "clock s" and n = 0]
  show thesis
  proof (rule that [of "snd ?r"])
    show "Publish gen p s = (Inr (int (length ?subs)), snd ?r)"
      using new F(1) by (simp add: Publish_def Let_def subs step case_prod_unfold)
  qed (use F s1 in simp_all)
qed

text \<open>Replaying one event is a fan-out to the admitted subscribers.\<close>

definition replay_subs :: "replayFilter \<Rightarrow> eventRecord \<Rightarrow> fake \<Rightarrow> subscriber list" where
  "replay_subs flt e s =
     filter (\<lambda>sub. \<not> (rfSubscriber flt \<noteq> [] \<and> subName sub \<noteq> rfSubscriber flt)) (subscribersFor (evType e) s)"

lemma fold_replay_sub:
  "fold (replay_sub gen flt now e) subs st =
     fold (fan_step gen (evID e) True now)
       (filter (\<lambda>sub. \<not> (rfSubscriber flt \<noteq> [] \<and> subName sub \<noteq> rfSubscriber flt)) subs) st"
  by (induction subs arbitrary: st) (auto simp: replay_sub_def fan_step_def Let_def case_prod_unfold)

lemma replay_event_fan:
  "replay_event gen flt now e st = fold (fan_step gen (evID e) True now) (replay_subs flt e (snd st)) st"
  by (simp add: replay_event_def fold_replay_sub replay_subs_def)

lemma fan_step_frame:
  "events (snd (fold (fan_step gen e r now) subs st)) = events (snd st)"
  "subscribers (snd (fold (fan_step gen e r now) subs st)) = subscribers (snd st)"
  "clock (snd (fold (fan_step gen e r now) subs st)) = clock (snd st)"
  "fst (fold (fan_step gen e r now) subs st) = fst st + int (length subs)"
  "wf_jobs (snd st) \<Longrightarrow> wf_jobs (snd (fold (fan_step gen e r now) subs st))"
  by (induction subs arbitrary: st) (simp_all add: fan_step_def createDelivery_wf)

text \<open>A fan-out and a replay write under freshly drawn ids only.\<close>

lemma fan_step_keeps:
  "k \<notin> gen ` {draws (snd st)..} \<Longrightarrow>
   map_of (jobs (snd (fold (fan_step gen e r now) subs st))) k = map_of (jobs (snd st)) k \<and>
   draws (snd st) \<le> draws (snd (fold (fan_step gen e r now) subs st))"
proof (induction subs arbitrary: st)
  case (Cons sub subs)
  let ?st = "fan_step gen e r now sub st"
  from Cons.prems have "k \<notin> gen ` {draws (snd ?st)..}" "k \<noteq> gen (draws (snd st))"
    by (auto simp: fan_step_def)
  with Cons.IH [of ?st] show ?case by (simp add: fan_step_def AList.update_conv')
qed simp

lemma replay_keeps:
  "k \<notin> gen ` {draws (snd st)..} \<Longrightarrow>
   map_of (jobs (snd (fold (replay_event gen flt now) es st))) k = map_of (jobs (snd st)) k"
proof (induction es arbitrary: st)
  case (Cons e es)
  let ?st = "replay_event gen flt now e st"
  note F = fan_step_keeps [OF Cons.prems, of "evID e" True now "replay_subs flt e (snd st)"]
  then have "draws (snd st) \<le> draws (snd ?st)" by (simp add: replay_event_fan)
  with Cons.prems have "k \<notin> gen ` {draws (snd ?st)..}" by auto
  with Cons.IH [of ?st] F show ?case by (simp add: replay_event_fan)
qed simp

lemma Replay_result:
  assumes wf: "wf_jobs s"
  shows "events (snd (Replay gen flt s)) = events s" "clock (snd (Replay gen flt s)) = clock s"
    "wf_jobs (snd (Replay gen flt s))"
    "fst (Replay gen flt s) = Inr (int (sum_list (map (\<lambda>e. length (replay_subs flt e s)) (replay_events flt s))))"
proof -
  have *: "events (snd r) = events (snd st) \<and> subscribers (snd r) = subscribers (snd st) \<and> clock (snd r) = clock (snd st) \<and>
      wf_jobs (snd r) \<and> fst r = fst st + int (sum_list (map (\<lambda>e. length (replay_subs flt e s)) es))"
    if "wf_jobs (snd st)" "subscribers (snd st) = subscribers s" "r = fold (replay_event gen flt now) es st" for es st r now
    using that
  proof (induction es arbitrary: st r)
    case (Cons e es)
    have rs: "replay_subs flt e (snd st) = replay_subs flt e s"
      using Cons.prems(2) by (simp add: replay_subs_def subscribersFor_def)
    from Cons.IH [of "replay_event gen flt now e st" r] Cons.prems show ?case
      by (simp add: replay_event_fan rs fan_step_frame)
  qed simp
  from * [of "(0, s)" "fold (replay_event gen flt (clock s)) (replay_events flt s) (0, s)"] wf
  show "events (snd (Replay gen flt s)) = events s" "clock (snd (Replay gen flt s)) = clock s"
    "wf_jobs (snd (Replay gen flt s))"
    "fst (Replay gen flt s) = Inr (int (sum_list (map (\<lambda>e. length (replay_subs flt e s)) (replay_events flt s))))"
    by (auto simp: Replay_def case_prod_unfold Let_def)
qed

section \<open>Retention\<close>

lemma delete_body_events: "events (snd (delete_body P k j st)) = events (snd st)"
  by (simp add: delete_body_def case_prod_unfold Let_def)

lemma delete_loop_events: "events (snd (range_fold (jobs \<circ> snd) (delete_body P) (n, s))) = events s"
  by (rule range_fold_inv [where I = "\<lambda>st. events (snd st) = events s"]) (simp_all add: delete_body_events)

lemma retain_event_result:
  assumes wf: "wf_jobs (snd st)"
  shows "wf_jobs (snd (retain_event e st))" "clock (snd (retain_event e st)) = clock (snd st)"
    "fst (retain_event e st) = fst st + 1"
    "events (snd (retain_event e st)) = AList.delete (evID e) (events (snd st))"
    "map_of (jobs (snd (retain_event e st))) =
       (\<lambda>k. case map_of (jobs (snd st)) k of None \<Rightarrow> None
             | Some j \<Rightarrow> if is_delivery_of (evID e) j then None else Some j)"
proof -
  obtain s' where s': "range_fold (jobs \<circ> snd) (delete_body (is_delivery_of (evID e))) (0, snd st) =
      (int (length (filter (is_delivery_of (evID e)) (map snd (jobs (snd st))))), s')"
    "clock s' = clock (snd st)" "wf_jobs s'"
    "map_of (jobs s') = (\<lambda>k. case map_of (jobs (snd st)) k of None \<Rightarrow> None
        | Some j \<Rightarrow> if is_delivery_of (evID e) j then None else Some j)"
    by (rule delete_loop_result [OF wf])
  have ev: "events s' = events (snd st)"
    using delete_loop_events [of "is_delivery_of (evID e)" 0 "snd st"] s'(1) by simp
  have eq: "retain_event e st = (fst st + 1, s'\<lparr>events := AList.delete (evID e) (events s')\<rparr>)"
    by (simp add: retain_event_def case_prod_unfold Let_def s'(1))
  show "wf_jobs (snd (retain_event e st))" unfolding eq using s'(3) by (simp add: wf_jobs_def)
  show "clock (snd (retain_event e st)) = clock (snd st)" "fst (retain_event e st) = fst st + 1"
    "events (snd (retain_event e st)) = AList.delete (evID e) (events (snd st))"
    "map_of (jobs (snd (retain_event e st))) =
       (\<lambda>k. case map_of (jobs (snd st)) k of None \<Rightarrow> None
             | Some j \<Rightarrow> if is_delivery_of (evID e) j then None else Some j)"
    unfolding eq using s'(2,4) ev by simp_all
qed

lemma retain_fold:
  assumes "wf_jobs (snd st)" "r = fold retain_event es st"
  shows "wf_jobs (snd r) \<and> clock (snd r) = clock (snd st) \<and> fst r = fst st + int (length es) \<and>
    map_of (events (snd r)) = (\<lambda>k. if k \<in> evID ` set es then None else map_of (events (snd st)) k) \<and>
    map_of (jobs (snd r)) = (\<lambda>k. case map_of (jobs (snd st)) k of None \<Rightarrow> None
        | Some j \<Rightarrow> if jSource j = SourceEvent \<and> jEventID j \<in> evID ` set es then None else Some j)"
  using assms
proof (induction es arbitrary: st r)
  case Nil
  then show ?case by (auto simp: fun_eq_iff split: option.splits)
next
  case (Cons e es)
  note R = retain_event_result [OF Cons.prems(1), of e]
  from Cons.prems(2) have "r = fold retain_event es (retain_event e st)" by simp
  note IH = Cons.IH [OF R(1) this]
  have "map_of (events (snd r)) = (\<lambda>k. if k \<in> evID ` set (e # es) then None else map_of (events (snd st)) k)"
    using IH by (auto simp: fun_eq_iff R(4) AList.delete_conv')
  moreover have "map_of (jobs (snd r)) = (\<lambda>k. case map_of (jobs (snd st)) k of None \<Rightarrow> None
        | Some j \<Rightarrow> if jSource j = SourceEvent \<and> jEventID j \<in> evID ` set (e # es) then None else Some j)"
    using IH by (auto simp: fun_eq_iff R(5) is_delivery_of_def split: option.splits)
  ultimately show ?case using IH R(2,3) by simp
qed

lemma retain_candidates_in:
  "e \<in> set (retain_candidates before limit s) \<Longrightarrow>
   e \<in> snd ` set (events s) \<and> evOccurredAt e < before \<and> \<not> hasInFlightDelivery (evID e) s"
  by (auto simp: retain_candidates_def Let_def dest!: in_set_takeD split: if_splits)

end
