(* ===== verification/Fake_Store.thy ===== *)
theory Fake_Store
  imports Fake_Ledger
begin

text \<open>
  What the in-memory store promises, operation by operation: the properties of
  enqueueing, leasing, settlement, maintenance, the operator verbs, the event
  ledger and the change feed, each with a concrete run on which its hypotheses
  hold. The runs start from \<^const>\<open>NewFake\<close> and use the operations of the
  model only.
\<close>

section \<open>Concrete runs\<close>

definition run_params :: "uuid \<Rightarrow> string \<Rightarrow> enqueueParams" where
  "run_params jid key =
     \<lparr>epID = jid, epKind = ''mail'', epPayload = Some ''{}'', epMeta = None, epRunAt = zero_time,
      epDelay = 0, epMaxAttempts = 3, epMaxAttemptsExplicit = False, epIdempotencyKey = key,
      epIdempotencyTTL = 0, epCoalesceKey = []\<rparr>"

definition run_dequeue :: "int \<Rightarrow> dequeueParams" where
  "run_dequeue limit =
     \<lparr>dpKind = ''mail'', dpLimit = limit, dpLease = 30, dpDefaultMaxAttempts = 5, dpOverrideDefault = True\<rparr>"

text \<open>Two queued jobs at instant 100, and the same store with the first one leased.\<close>

definition run_queued :: fake where
  "run_queued = snd (Enqueue (run_params 2 ''b'') (snd (Enqueue (run_params 1 ''a'') (NewFake 100))))"

definition run_leased :: fake where
  "run_leased = snd (DequeueBatch (\<lambda>n. 50 + n) SourceQueue (run_dequeue 1) run_queued)"

definition run_out :: "int \<Rightarrow> fake \<Rightarrow> job list" where
  "run_out limit s = projr (fst (DequeueBatch (\<lambda>n. 50 + n) SourceQueue (run_dequeue limit) s))"

lemma run_wf [simp]: "wf_jobs run_queued" "wf_jobs run_leased"
  by (simp_all add: run_queued_def run_leased_def store_inv wf_jobs_NewFake)

lemmas run_defs = run_params_def run_dequeue_def run_queued_def run_leased_def NewFake_def

section \<open>Settlement\<close>

text \<open>
  C1: A lease is settled at most once. When one settlement (ack, reschedule,
  dead, skip, release or snooze) with a lease token succeeds, every later
  settlement and every lease renewal with that token is answered not-found and
  leaves the store as it is.
\<close>

theorem lease_settled_at_most_once:
  assumes "wf_jobs s" and "settle_with (fake_ops gen) c jid tok s = (Inr r, s')"
  shows "settle_with (fake_ops gen) c' jid tok s' = (Inl (NotFound (settle_name c')), s') \<and>
    ExtendLease jid tok lease s' = (Inl (NotFound ''extend lease''), s')"
  using fs.settled_once [OF assms] by (simp add: fake_ops_def)

theorem lease_settled_at_most_once_witness:
  "fst (Ack 1 50 run_leased) = Inr () \<and>
   settle_with (fake_ops (\<lambda>n. n)) (DoDead ''late'') 1 50 (snd (Ack 1 50 run_leased)) =
     (Inl (NotFound ''dead''), snd (Ack 1 50 run_leased))"
proof -
  have ack: "fst (Ack 1 50 run_leased) = Inr ()" by code_simp
  then have "settle_with (fake_ops (\<lambda>n. n)) DoAck 1 50 run_leased = (Inr False, snd (Ack 1 50 run_leased))"
    by (simp add: fake_ops_def no_flag_def)
  from lease_settled_at_most_once [OF run_wf(2) this, of "DoDead ''late''"] ack show ?thesis by simp
qed

text \<open>
  C2: Every settlement is fenced and exact. With the token of the live lease it
  succeeds and changes exactly the settled job, to the state the driver contract
  promises; with any other token, or for a job that is not leased, it is
  answered not-found under the operation's name and nothing changes.
\<close>

theorem settlement_exact:
  assumes "wf_jobs s"
  shows "if owned fake_job_at jid tok s
    then \<exists>j s'. fake_job_at s jid = Some j \<and>
           settle_with (fake_ops gen) c jid tok s = (Inr (settle_result c (clock s) j), s') \<and>
           wf_jobs s' \<and> clock s' = clock s \<and>
           fake_job_at s' = (fake_job_at s)(jid \<mapsto> settle_wire c (clock s) j)
    else settle_with (fake_ops gen) c jid tok s = (Inl (NotFound (settle_name c)), s)"
proof (cases "owned fake_job_at jid tok s")
  case True
  then obtain j where j: "fake_job_at s jid = Some j" "jState j = StateActive" "jLeaseToken j = tok"
    by (auto simp: owned_def split: option.splits)
  obtain s' where "settle_with (fake_ops gen) c jid tok s = (Inr (settle_result c (clock s) j), s')"
    "wf_jobs s'" "clock s' = clock s" "fake_job_at s' = (fake_job_at s)(jid \<mapsto> settle_wire c (clock s) j)"
    by (rule fenced_owned [OF fs.settle_fenced assms j])
  with True j show ?thesis by auto
qed (simp add: fenced_stale [OF fs.settle_fenced assms])

theorem settlement_exact_witness:
  "\<exists>s'. settle_with (fake_ops (\<lambda>n. n)) (DoReschedule 7 ''boom'') 1 50 run_leased = (Inr False, s') \<and>
     map_option (\<lambda>j. (jState j, jRunAt j, jLastError j)) (fake_job_at s' 1) = Some (StateScheduled, 107, ''boom'')"
proof -
  have "owned fake_job_at 1 50 run_leased" by code_simp
  moreover have "clock run_leased = 100" by code_simp
  ultimately show ?thesis
    using settlement_exact [OF run_wf(2), of 1 50 "\<lambda>n. n" "DoReschedule 7 ''boom''"]
    by (auto simp: wire_reschedule_def)
qed

section \<open>Enqueue\<close>

text \<open>
  C7: Enqueueing under an idempotency key happens once. After an enqueue that
  inserted its job under a key, a further enqueue of the same kind and key -
  whatever its id, payload, delay or TTL - is a no-op that reports \<open>false\<close>.
\<close>

theorem Enqueue_once_per_key:
  assumes "Enqueue p s = (Inr True, s')" and "epIdempotencyKey p \<noteq> []"
    and "epKind q = epKind p" and "epIdempotencyKey q = epIdempotencyKey p"
  shows "Enqueue q s' = (Inr False, s')"
proof (cases rule: Enqueue_cases [of p s])
  case (inserted s1)
  let ?j = "enqueue_job p (clock s) (jobSeq s + 1)"
  from inserted(3) assms(1) have s1: "s1 = s'" by simp
  have "(epID p, ?j) \<in> set (jobs s')"
    using inserted(4) s1 by (metis map_of_SomeD AList.update_conv' fun_upd_same)
  moreover have "live_dup q ?j"
    using assms(3,4) by (simp add: live_dup_def enqueue_state_def live_key_def)
  ultimately have "list_ex (live_dup q) (map snd (jobs s'))" by (force simp: list_ex_iff)
  with assms(2,4) show ?thesis by (simp add: Enqueue_def Let_def)
qed (use assms(1) in simp_all)

theorem Enqueue_once_per_key_witness:
  "Enqueue (run_params 9 ''b'') run_queued = (Inr False, run_queued)"
proof -
  let ?s = "snd (Enqueue (run_params 1 ''a'') (NewFake 100))"
  have "fst (Enqueue (run_params 2 ''b'') ?s) = Inr True" by code_simp
  then have "Enqueue (run_params 2 ''b'') ?s = (Inr True, run_queued)"
    by (simp add: run_queued_def prod_eq_iff)
  then show ?thesis by (rule Enqueue_once_per_key) (simp_all add: run_params_def)
qed

text \<open>
  Every enqueue has one of three outcomes. It is refused, without effect,
  exactly when its key is live or still reserved or its coalesce key is waiting;
  it fails with already-exists, without effect, when the id is taken; otherwise
  it inserts one job - scheduled when its run time is ahead of the clock,
  pending when it is due - and leaves every other job alone.
\<close>

theorem Enqueue_outcomes:
  "if enqueue_refused p s then Enqueue p s = (Inr False, s)
   else if map_of (jobs s) (epID p) \<noteq> None then Enqueue p s = (Inl AlreadyExists, s)
   else \<exists>j s'. Enqueue p s = (Inr True, s') \<and> clock s' = clock s \<and>
     map_of (jobs s') = (map_of (jobs s))(epID p \<mapsto> j) \<and>
     jKind j = epKind p \<and> jPayload j = epPayload p \<and> jAttempt j = 0 \<and>
     jRunAt j = (if epRunAt p = zero_time then clock s + epDelay p else epRunAt p) \<and>
     jState j = (if jRunAt j > clock s then StateScheduled else StatePending)"
proof (cases rule: Enqueue_cases [of p s])
  case (inserted s')
  have "jPayload (enqueue_job p now sq) = epPayload p" for now sq
    by (simp add: enqueue_job_def Let_def clonePayload_def)
  with inserted show ?thesis
    by (auto simp: AList.update_conv' enqueue_state_def enqueue_runAt_def)
qed simp_all

section \<open>Leasing\<close>

lemma rehydrate_fields [simp]:
  "jID (rehydrate src s j) = jID j" "jRunAt (rehydrate src s j) = jRunAt j" "jState (rehydrate src s j) = jState j"
  "jAttempt (rehydrate src s j) = jAttempt j" "jLeaseToken (rehydrate src s j) = jLeaseToken j"
  "jLeaseUntil (rehydrate src s j) = jLeaseUntil j" "jPayload (rehydrate src s j) = jPayload j"
  by (simp_all add: rehydrate_def Let_def split: option.split)

lemma in_leased:
  assumes "j \<in> set (leased gen p s js)"
  obtains j0 i where "j0 \<in> set js" "i < length js" "j = lease_job p (clock s) (gen (draws s + i)) j0"
  using assms by (metis in_set_conv_nth leased_nth length_leased nth_mem)

lemma DequeueBatch_map:
  assumes wf: "wf_jobs s" and lim: "0 < dpLimit p"
    and run: "DequeueBatch gen src p s = (Inr out, s')"
  shows "out = map (rehydrate src s) (leased gen p s (due_jobs src p s))" "wf_jobs s'" "clock s' = clock s"
    "map jID out = map jID (due_jobs src p s)"
    "k \<notin> jID ` set out \<Longrightarrow> map_of (jobs s') k = map_of (jobs s) k"
    "j \<in> set (leased gen p s (due_jobs src p s)) \<Longrightarrow> map_of (jobs s') (jID j) = Some j"
proof -
  let ?js = "due_jobs src p s" let ?L = "leased gen p s ?js"
  obtain s1 where s1: "DequeueBatch gen src p s = (Inr (map (rehydrate src s) ?L), s1)"
    "clock s1 = clock s" "wf_jobs s1" "map_of (jobs s1) = map_of (jobs s) ++ map_of (keyed ?L)"
    by (rule DequeueBatch_result [OF wf lim])
  with run have R: "out = map (rehydrate src s) ?L" "wf_jobs s'" "clock s' = clock s"
    "map_of (jobs s') = map_of (jobs s) ++ map_of (keyed ?L)" by simp_all
  show "out = map (rehydrate src s) ?L" "wf_jobs s'" "clock s' = clock s" by (rule R)+
  have ids: "map jID out = map jID ?L" by (simp add: R(1) comp_def)
  then show "map jID out = map jID ?js" by simp
  have keys: "map fst (keyed ?L) = map jID ?L" by (simp add: comp_def)
  have mapadd: "map_of (jobs s') k = (case map_of (keyed ?L) k of None \<Rightarrow> map_of (jobs s) k | Some j \<Rightarrow> Some j)" for k
    by (simp add: R(4) map_add_def)
  show "map_of (jobs s') k = map_of (jobs s) k" if "k \<notin> jID ` set out"
  proof -
    have "k \<notin> set (map jID out)" using that by simp
    then have "k \<notin> set (map fst (keyed ?L))" unfolding ids keys .
    then have "map_of (keyed ?L) k = None" by (auto simp: map_of_eq_None_iff)
    then show ?thesis by (simp add: mapadd)
  qed
  show "map_of (jobs s') (jID j) = Some j" if "j \<in> set ?L"
  proof -
    have "distinct_keys (keyed ?L)" unfolding keys using due_jobs_props(1) [OF wf] by simp
    moreover have "(jID j, j) \<in> set (keyed ?L)" using that by auto
    ultimately have "map_of (keyed ?L) (jID j) = Some j" by (rule map_of_is_SomeI)
    then show ?thesis by (simp add: mapadd)
  qed
qed

text \<open>
  C9: A dequeue hands out exclusive, ordered leases. It returns at most \<open>limit\<close>
  distinct jobs of the requested source and kind, oldest run time first; each was
  pending and due, is now active with its attempt counted and its lease expiring
  after the requested duration, and is owned by the token handed out; every
  other job is untouched, and a second dequeue never returns a job of the first.
\<close>

theorem DequeueBatch_exclusive:
  assumes wf: "wf_jobs s" and lim: "0 < dpLimit p"
    and run: "DequeueBatch gen src p s = (Inr out, s')"
    and again: "DequeueBatch gen src q s' = (Inr out', s'')"
  shows "int (length out) \<le> dpLimit p \<and> distinct (map jID out) \<and>
    sorted (map (\<lambda>j. (jRunAt j, jID j)) out) \<and>
    (\<forall>j\<in>set out. \<exists>j0. map_of (jobs s) (jID j) = Some j0 \<and> is_due src (dpKind p) (clock s) j0 \<and>
       jState j = StateActive \<and> jAttempt j = jAttempt j0 + 1 \<and> jLeaseUntil j = clock s + dpLease p \<and>
       jPayload j = jPayload j0 \<and> owned fake_job_at (jID j) (jLeaseToken j) s') \<and>
    (\<forall>k. k \<notin> jID ` set out \<longrightarrow> map_of (jobs s') k = map_of (jobs s) k) \<and>
    jID ` set out \<inter> jID ` set out' = {}"
proof -
  note M = DequeueBatch_map [OF wf lim run]
  have len: "length out = length (due_jobs src p s)" by (simp add: M(1))
  have order: "map (\<lambda>j. (jRunAt j, jID j)) out = map lease_order (due_jobs src p s)"
    by (rule nth_equalityI) (simp_all add: M(1) leased_nth lease_order_def)
  have each: "\<exists>j0. map_of (jobs s) (jID j) = Some j0 \<and> is_due src (dpKind p) (clock s) j0 \<and>
       jState j = StateActive \<and> jAttempt j = jAttempt j0 + 1 \<and> jLeaseUntil j = clock s + dpLease p \<and>
       jPayload j = jPayload j0 \<and> owned fake_job_at (jID j) (jLeaseToken j) s'" if "j \<in> set out" for j
  proof -
    from that M(1) obtain l where l: "l \<in> set (leased gen p s (due_jobs src p s))" "j = rehydrate src s l" by auto
    from l(1) obtain j0 i where j0: "j0 \<in> set (due_jobs src p s)" "l = lease_job p (clock s) (gen (draws s + i)) j0"
      by (rule in_leased)
    from due_jobs_props(3) [OF wf j0(1)] M(6) [OF l(1)] l(2) j0(2) show ?thesis
      by (auto simp: owned_def fake_job_at_def lease_job_def)
  qed
  have "jID ` set out \<inter> jID ` set out' = {}"
  proof (cases "0 < dpLimit q")
    case True
    note M' = DequeueBatch_map [OF M(2) True again]
    have "map_of (jobs s') k = Some j \<and> jState j \<noteq> StateActive \<longrightarrow> k \<notin> jID ` set out" for k j
      using each by (fastforce simp: owned_def fake_job_at_def split: option.splits)
    moreover have "\<exists>j. map_of (jobs s') k = Some j \<and> jState j \<noteq> StateActive" if "k \<in> jID ` set out'" for k
    proof -
      from that have "k \<in> set (map jID out')" by simp
      then have "k \<in> set (map jID (due_jobs src q s'))" unfolding M'(4) .
      then obtain d where "d \<in> set (due_jobs src q s')" "k = jID d" by auto
      with due_jobs_props(3) [OF M(2) this(1)] show ?thesis by (auto simp: is_due_def)
    qed
    ultimately show ?thesis by blast
  qed (use again in \<open>simp add: DequeueBatch_def\<close>)
  with len order due_jobs_props(2) [OF wf] due_jobs_props(4) [OF wf, of p src] lim each M(5) M(4) due_jobs_props(1) [OF wf]
  show ?thesis by auto
qed

theorem DequeueBatch_exclusive_witness:
  "map jID (run_out 1 run_queued) = [1] \<and> map jID (run_out 5 run_leased) = [2] \<and>
   jID ` set (run_out 1 run_queued) \<inter> jID ` set (run_out 5 run_leased) = {}"
proof -
  let ?d = "\<lambda>n. DequeueBatch (\<lambda>n. 50 + n) SourceQueue (run_dequeue n)"
  have "\<not> isl (fst (?d 1 run_queued))" "\<not> isl (fst (?d 5 run_leased))" by code_simp+
  then have run: "?d 1 run_queued = (Inr (run_out 1 run_queued), run_leased)"
    and again: "?d 5 run_leased = (Inr (run_out 5 run_leased), snd (?d 5 run_leased))"
    by (simp_all add: run_out_def run_leased_def prod_eq_iff)
  have "0 < dpLimit (run_dequeue 1)" by (simp add: run_dequeue_def)
  moreover have "map jID (run_out 1 run_queued) = [1]" "map jID (run_out 5 run_leased) = [2]" by code_simp+
  ultimately show ?thesis
    using DequeueBatch_exclusive [OF run_wf(1) _ run again] by simp
qed

text \<open>
  No due job is overtaken. When a dequeue leaves a due job of its source and
  kind behind, it returned a full batch, and every job it returned comes before
  the job left behind in the order of run time and id.
\<close>

theorem DequeueBatch_no_overtaking:
  assumes wf: "wf_jobs s" and lim: "0 < dpLimit p"
    and run: "DequeueBatch gen src p s = (Inr out, s')"
    and j: "map_of (jobs s) k = Some j" "is_due src (dpKind p) (clock s) j" "k \<notin> jID ` set out"
  shows "int (length out) = dpLimit p \<and> (\<forall>o'\<in>set out. (jRunAt o', jID o') < (jRunAt j, jID j))"
proof -
  note M = DequeueBatch_map [OF wf lim run]
  have k: "jID j = k" by (rule wf_jobsD(2) [OF wf j(1)])
  have "k \<notin> set (map jID out)" using j(3) by simp
  then have "k \<notin> set (map jID (due_jobs src p s))" unfolding M(4) .
  with k have left: "j \<notin> set (due_jobs src p s)" by auto
  note B = due_jobs_left_behind [OF wf lim j(1,2) left]
  have "(jRunAt o', jID o') < (jRunAt j, jID j)" if "o' \<in> set out" for o'
  proof -
    from that M(1) obtain l where l: "l \<in> set (leased gen p s (due_jobs src p s))" "o' = rehydrate src s l" by auto
    from l(1) obtain j0 i where j0: "j0 \<in> set (due_jobs src p s)" "l = lease_job p (clock s) (gen (draws s + i)) j0"
      by (rule in_leased)
    from B(2) [OF j0(1)] have "(jRunAt o', jID o') \<le> (jRunAt j, jID j)"
      by (simp add: l(2) j0(2) lease_order_def)
    moreover have "jID o' \<noteq> jID j" using that j(3) k by (metis imageI)
    ultimately show ?thesis by auto
  qed
  moreover have "length out = length (due_jobs src p s)" by (simp add: M(1))
  ultimately show ?thesis using B(1) by auto
qed

theorem DequeueBatch_no_overtaking_witness:
  "int (length (run_out 1 run_queued)) = 1"
proof -
  let ?d = "DequeueBatch (\<lambda>n. 50 + n) SourceQueue (run_dequeue 1)"
  have "\<not> isl (fst (?d run_queued))" by code_simp
  then have run: "?d run_queued = (Inr (run_out 1 run_queued), run_leased)"
    by (simp add: run_out_def run_leased_def prod_eq_iff)
  have ids: "map jID (run_out 1 run_queued) = [1]" by code_simp
  have two: "map_of (jobs run_queued) 2 = Some (the (map_of (jobs run_queued) 2))"
    "is_due SourceQueue (dpKind (run_dequeue 1)) (clock run_queued) (the (map_of (jobs run_queued) 2))"
    by code_simp+
  have "jID ` set (run_out 1 run_queued) = set (map jID (run_out 1 run_queued))" by simp
  with ids have "2 \<notin> jID ` set (run_out 1 run_queued)" by simp
  from DequeueBatch_no_overtaking [OF run_wf(1) _ run two this] show ?thesis by (simp add: run_dequeue_def)
qed

text \<open>A batch as large as the job map leases every due job of its source and kind.\<close>

lemma full_batch_leases:
  assumes wf: "wf_jobs s" and room: "dpLimit p \<ge> int (length (jobs s))"
    and at: "map_of (jobs s) k = Some j" and due: "is_due src (dpKind p) (clock s) j"
    and deq: "DequeueBatch gen src p s = (Inr out, s')"
  obtains tok where "rehydrate src s (lease_job p (clock s) tok j) \<in> set out"
    "map_of (jobs s') k = Some (lease_job p (clock s) tok j)" "wf_jobs s'" "clock s' = clock s" "distinct (map jID out)"
proof -
  let ?js = "due_jobs src p s" let ?F = "filter (is_due src (dpKind p) (clock s)) (map snd (jobs s))"
  from at have "jobs s \<noteq> []" by auto
  with room have lim: "0 < dpLimit p" by (cases "jobs s") simp_all
  note M = DequeueBatch_map [OF wf lim deq]
  have "length ?F \<le> length (map snd (jobs s))" by (rule length_filter_le)
  with room have "int (length ?F) \<le> dpLimit p" unfolding length_map by linarith
  then have all: "?js = sort_key lease_order ?F" unfolding due_jobs_def Let_def length_sort by simp
  have "j \<in> set (map snd (jobs s))" using map_of_SomeD [OF at] by force
  with due all have "j \<in> set ?js" by simp
  then obtain i where i: "i < length ?js" "?js ! i = j" by (meson in_set_conv_nth)
  let ?l = "lease_job p (clock s) (gen (draws s + i)) j"
  have "leased gen p s ?js ! i = ?l" using i by (simp add: leased_nth)
  then have L: "?l \<in> set (leased gen p s ?js)" using i(1) by (metis length_leased nth_mem)
  have "distinct (map jID out)" unfolding M(4) by (rule due_jobs_props(1) [OF wf])
  moreover have "rehydrate src s ?l \<in> set out" using L M(1) by simp
  moreover have "map_of (jobs s') k = Some ?l" using M(6) [OF L] wf_jobsD(2) [OF wf at] by simp
  ultimately show thesis using M(2,3) by (intro that)
qed

text \<open>
  C35: What is enqueued is delivered. A job enqueued without delay is returned by
  the next dequeue of its kind whose limit admits every stored job, on its first
  attempt and with the payload it was enqueued with.
\<close>

theorem Enqueue_then_Dequeue:
  assumes wf: "wf_jobs s" and enq: "Enqueue p s = (Inr True, s')" and due: "enqueue_runAt p (clock s) \<le> clock s"
    and kind: "dpKind d = epKind p" and room: "dpLimit d \<ge> int (length (jobs s'))"
    and deq: "DequeueBatch gen SourceQueue d s' = (Inr out, s'')"
  shows "\<exists>j\<in>set out. jID j = epID p \<and> jAttempt j = 1 \<and> jPayload j = epPayload p"
proof (cases rule: Enqueue_cases [of p s])
  case (inserted s1)
  let ?j = "enqueue_job p (clock s) (jobSeq s + 1)"
  from inserted(3) enq have s1: "s1 = s'" by simp
  have wf': "wf_jobs s'" using Enqueue_wf [OF wf, of p] enq by simp
  have at: "map_of (jobs s') (epID p) = Some ?j" using inserted(4) s1 by (simp add: AList.update_conv')
  have isdue: "is_due SourceQueue (dpKind d) (clock s') ?j"
    using due kind inserted(5) s1 by (simp add: is_due_def enqueue_state_def)
  obtain tok where "rehydrate SourceQueue s' (lease_job d (clock s') tok ?j) \<in> set out"
    by (rule full_batch_leases [OF wf' room at isdue deq])
  moreover have "jPayload (lease_job d (clock s') tok ?j) = epPayload p"
    by (simp add: lease_job_def enqueue_job_def Let_def clonePayload_def)
  ultimately show ?thesis by (intro bexI) auto
qed (use enq in simp_all)

theorem Enqueue_then_Dequeue_witness:
  "\<exists>j\<in>set (run_out 5 run_queued). jID j = 2 \<and> jAttempt j = 1 \<and> jPayload j = Some ''{}''"
proof -
  let ?p = "run_params 2 ''b''" let ?s = "snd (Enqueue (run_params 1 ''a'') (NewFake 100))"
  let ?d = "DequeueBatch (\<lambda>n. 50 + n) SourceQueue (run_dequeue 5)"
  have "fst (Enqueue ?p ?s) = Inr True" by code_simp
  then have enq: "Enqueue ?p ?s = (Inr True, run_queued)" by (simp add: run_queued_def prod_eq_iff)
  have "\<not> isl (fst (?d run_queued))" by code_simp
  then have deq: "?d run_queued = (Inr (run_out 5 run_queued), snd (?d run_queued))"
    by (simp add: run_out_def prod_eq_iff)
  have wf: "wf_jobs ?s" by (simp add: store_inv wf_jobs_NewFake)
  have due: "enqueue_runAt ?p (clock ?s) \<le> clock ?s" by code_simp
  have room: "dpLimit (run_dequeue 5) \<ge> int (length (jobs run_queued))" by code_simp
  from Enqueue_then_Dequeue [OF wf enq due _ room deq] show ?thesis by (simp add: run_params_def run_dequeue_def)
qed

section \<open>Maintenance\<close>

text \<open>
  Promotion is complete and exact. A promotion pass reports the number of
  scheduled jobs of its source and kinds whose run time has come, moves exactly
  those to pending, changes no other job, and leaves no such job behind.
\<close>

theorem PromoteDue_complete:
  assumes wf: "wf_jobs s" and ne: "kinds \<noteq> []" and run: "PromoteDue src kinds s = (r, s')"
  shows "r = Inr (int (length (filter (promotable src kinds (clock s)) (map snd (jobs s))))) \<and>
    (\<forall>k. map_of (jobs s') k = map_option (\<lambda>j. if promotable src kinds (clock s) j
       then j\<lparr>jState := StatePending\<rparr> else j) (map_of (jobs s) k)) \<and>
    (\<forall>k j. map_of (jobs s') k = Some j \<longrightarrow> \<not> promotable src kinds (clock s') j)"
proof -
  obtain s1 where s1:
    "PromoteDue src kinds s = (Inr (int (length (filter (promotable src kinds (clock s)) (map snd (jobs s))))), s1)"
    "clock s1 = clock s"
    "map_of (jobs s1) = (\<lambda>k. map_option (\<lambda>j. if promotable src kinds (clock s) j
        then j\<lparr>jState := StatePending\<rparr> else j) (map_of (jobs s) k))"
    by (rule PromoteDue_result [OF wf ne])
  from s1(1) run have eq: "s1 = s'" "r = Inr (int (length (filter (promotable src kinds (clock s)) (map snd (jobs s)))))"
    by simp_all
  have "\<not> promotable src kinds (clock s') j" if "map_of (jobs s') k = Some j" for k j
  proof -
    from that s1(3) eq(1) obtain j0 where "j = (if promotable src kinds (clock s) j0 then j0\<lparr>jState := StatePending\<rparr> else j0)"
      by (auto simp only: map_option_eq_Some)
    with s1(2) eq(1) show ?thesis by (auto simp: promotable_def split: if_splits)
  qed
  with eq s1(3) show ?thesis by simp
qed

theorem PromoteDue_complete_witness:
  "fst (PromoteDue SourceQueue [''mail''] run_queued) = Inr 0 \<and>
   fst (PromoteDue SourceQueue [''mail''] (snd (Reschedule 1 50 0 ''e'' run_leased))) = Inr 1"
proof -
  let ?s = "snd (Reschedule 1 50 0 ''e'' run_leased)"
  have wf: "wf_jobs ?s" by (rule fenced_wf [OF Reschedule_fenced run_wf(2)])
  have "length (filter (promotable SourceQueue [''mail''] (clock run_queued)) (map snd (jobs run_queued))) = 0"
    "length (filter (promotable SourceQueue [''mail''] (clock ?s)) (map snd (jobs ?s))) = 1" by code_simp+
  moreover have "fst (PromoteDue SourceQueue [''mail''] st) =
      Inr (int (length (filter (promotable SourceQueue [''mail''] (clock st)) (map snd (jobs st)))))"
    if "wf_jobs st" for st
    using PromoteDue_complete [OF that _ prod.collapse [symmetric], of "[''mail'']" SourceQueue] by simp
  ultimately show ?thesis using wf by simp
qed

text \<open>
  Reaping is complete, exact and bounded. A reap pass takes the lease of
  every job of its source and kinds whose lease has expired and of no other job;
  a reaped job goes back to pending with its reap count raised and its attempt
  kept, or is dead when the count reaches the budget; the two counts it returns
  are the number of reaped and of killed jobs, and no expired lease is left.
\<close>

theorem ReapExpired_complete:
  assumes wf: "wf_jobs s" and ne: "kinds \<noteq> []" and run: "ReapExpired src kinds maxReaps s = (r, s')"
  shows "(\<exists>reaped killed. r = Inr (reaped, killed) \<and>
      reaped = int (length (filter (expired src kinds (clock s)) (map snd (jobs s)))) \<and>
      killed = int (length (filter (\<lambda>j. expired src kinds (clock s) j \<and> jReapCount j + 1 \<ge> maxReaps) (map snd (jobs s))))) \<and>
    (\<forall>k j. map_of (jobs s) k = Some j \<longrightarrow> (\<exists>j'. map_of (jobs s') k = Some j' \<and>
       (if expired src kinds (clock s) j
        then jState j' = (if jReapCount j + 1 \<ge> maxReaps then StateDead else StatePending) \<and>
             jReapCount j' = jReapCount j + 1 \<and> jAttempt j' = jAttempt j \<and> jLeaseToken j' = Nil_uuid
        else j' = j))) \<and>
    (\<forall>k j. map_of (jobs s') k = Some j \<longrightarrow> \<not> expired src kinds (clock s') j)"
proof -
  obtain s1 where s1: "ReapExpired src kinds maxReaps s =
       (Inr (int (length (filter (expired src kinds (clock s)) (map snd (jobs s)))),
             int (length (filter (\<lambda>j. expired src kinds (clock s) j \<and> jReapCount j + 1 \<ge> maxReaps) (map snd (jobs s))))), s1)"
    "clock s1 = clock s"
    "map_of (jobs s1) = (\<lambda>k. map_option (\<lambda>j. if expired src kinds (clock s) j
        then reaped_job maxReaps (clock s) j else j) (map_of (jobs s) k))"
    by (rule ReapExpired_result [OF wf ne])
  from s1(1) run have eq: "s1 = s'" by simp
  have "\<not> expired src kinds (clock s') j" if "map_of (jobs s') k = Some j" for k j
  proof -
    from that s1(3) eq obtain j0 where "j = (if expired src kinds (clock s) j0 then reaped_job maxReaps (clock s) j0 else j0)"
      by (auto simp only: map_option_eq_Some)
    with s1(2) eq show ?thesis by (cases "expired src kinds (clock s) j0") (simp_all add: expired_def)
  qed
  moreover have "\<exists>j'. map_of (jobs s') k = Some j' \<and>
       (if expired src kinds (clock s) j
        then jState j' = (if jReapCount j + 1 \<ge> maxReaps then StateDead else StatePending) \<and>
             jReapCount j' = jReapCount j + 1 \<and> jAttempt j' = jAttempt j \<and> jLeaseToken j' = Nil_uuid
        else j' = j)" if "map_of (jobs s) k = Some j" for k j
    using that s1(3) eq by (cases "expired src kinds (clock s) j") simp_all
  moreover from s1(1) run have "r = Inr (int (length (filter (expired src kinds (clock s)) (map snd (jobs s)))),
      int (length (filter (\<lambda>j. expired src kinds (clock s) j \<and> jReapCount j + 1 \<ge> maxReaps) (map snd (jobs s)))))"
    by simp
  ultimately show ?thesis by blast
qed

definition run_expired :: fake where
  "run_expired = run_leased\<lparr>clock := 131\<rparr>"

theorem ReapExpired_complete_witness:
  "\<exists>s'. ReapExpired SourceQueue [''mail''] 3 run_expired = (Inr (1, 0), s') \<and>
     map_option jState (map_of (jobs s') 1) = Some StatePending"
proof -
  let ?r = "ReapExpired SourceQueue [''mail''] 3 run_expired"
  have wf: "wf_jobs run_expired" using run_wf(2) by (simp add: run_expired_def wf_jobs_def)
  have one: "map_of (jobs run_expired) 1 = Some (the (map_of (jobs run_expired) 1))"
    "expired SourceQueue [''mail''] (clock run_expired) (the (map_of (jobs run_expired) 1))"
    "jReapCount (the (map_of (jobs run_expired) 1)) = 0"
    "length (filter (expired SourceQueue [''mail''] (clock run_expired)) (map snd (jobs run_expired))) = 1"
    "length (filter (\<lambda>j. expired SourceQueue [''mail''] (clock run_expired) j \<and> jReapCount j + 1 \<ge> 3) (map snd (jobs run_expired))) = 0"
    by code_simp+
  have ne: "[''mail''] \<noteq> []" by simp
  note R = ReapExpired_complete [OF wf ne prod.collapse [symmetric], of SourceQueue 3]
  then have "fst ?r = Inr (1, 0)" using one(4,5) by simp
  moreover have "map_option jState (map_of (jobs (snd ?r)) 1) = Some StatePending"
    using R one(1-3) by fastforce
  ultimately show ?thesis by (metis prod.collapse)
qed

text \<open>
  Vacuuming completed jobs removes exactly the succeeded jobs of its source
  that completed before the retention window, and never a job of a DAG or of a
  workflow run.
\<close>

theorem VacuumCompleted_exact:
  assumes wf: "wf_jobs s" and ret: "0 < retention" and run: "VacuumCompleted src retention s = (r, s')"
  shows "(\<forall>k. map_of (jobs s') k = (case map_of (jobs s) k of None \<Rightarrow> None | Some j \<Rightarrow>
       if jSource j = src \<and> jState j = StateSucceeded \<and> jCompletedAt j < clock s - retention \<and>
          jDAGID j = Nil_uuid \<and> jRunID j = Nil_uuid then None else Some j)) \<and>
     r = Inr (int (length (filter (vacuumable src (clock s - retention)) (map snd (jobs s)))))"
proof -
  obtain s1 where s1: "range_fold (jobs \<circ> snd) (delete_body (vacuumable src (clock s - retention))) (0, s) =
      (int (length (filter (vacuumable src (clock s - retention)) (map snd (jobs s)))), s1)"
    "map_of (jobs s1) = (\<lambda>k. case map_of (jobs s) k of None \<Rightarrow> None
        | Some j \<Rightarrow> if vacuumable src (clock s - retention) j then None else Some j)"
    by (rule delete_loop_result [OF wf])
  from run ret s1(1) have "s' = s1"
    "r = Inr (int (length (filter (vacuumable src (clock s - retention)) (map snd (jobs s)))))"
    by (simp_all add: VacuumCompleted_def)
  with s1(2) show ?thesis unfolding vacuumable_def by simp
qed

theorem VacuumCompleted_exact_witness:
  "\<exists>s'. VacuumCompleted SourceQueue 10 ((snd (Ack 1 50 run_leased))\<lparr>clock := 200\<rparr>) = (Inr 1, s') \<and>
     map_of (jobs s') 1 = None"
proof -
  let ?s = "(snd (Ack 1 50 run_leased))\<lparr>clock := 200\<rparr>"
  let ?r = "VacuumCompleted SourceQueue 10 ?s"
  have "wf_jobs (snd (Ack 1 50 run_leased))" by (rule fenced_wf [OF Ack_fenced run_wf(2)])
  then have wf: "wf_jobs ?s" by (simp add: wf_jobs_def)
  have "length (filter (vacuumable SourceQueue (clock ?s - 10)) (map snd (jobs ?s))) = 1"
    "map_option (vacuumable SourceQueue (clock ?s - 10)) (map_of (jobs ?s) 1) = Some True" by code_simp+
  then have "fst ?r = Inr 1 \<and> map_of (jobs (snd ?r)) 1 = None"
    using VacuumCompleted_exact [OF wf, of 10 SourceQueue "fst ?r" "snd ?r"] by (auto simp: vacuumable_def)
  then show ?thesis by (metis prod.collapse)
qed

section \<open>Operator verbs\<close>

text \<open>
  Pausing and resuming a job is a round trip. For a waiting job that stands
  where its run time puts it (scheduled ahead of the clock, pending otherwise),
  pause then resume, with the clock unchanged, succeed and leave every job as it
  was; in between the job is paused and no dequeue returns it.
\<close>

theorem pause_resume_roundtrip:
  assumes wf: "wf_jobs s" and at: "map_of (jobs s) jid = Some j" and src: "jSource j = src"
    and waits: "jState j = enqueue_state (jRunAt j) (clock s)"
  shows "\<exists>s1 s2. PauseJob src jid s = (Inr (), s1) \<and> ResumeJob src jid s1 = (Inr (), s2) \<and>
    map_of (jobs s2) = map_of (jobs s) \<and>
    (\<forall>gen p out s3. 0 < dpLimit p \<longrightarrow> DequeueBatch gen src p s1 = (Inr out, s3) \<longrightarrow> jid \<notin> jID ` set out)"
proof -
  have adm: "jState j = StatePending \<or> jState j = StateScheduled" using waits by (auto simp: enqueue_state_def)
  obtain s1 where s1: "PauseJob src jid s = (Inr (), s1)" "wf_jobs s1" "clock s1 = clock s"
    "map_of (jobs s1) = (map_of (jobs s))(jid \<mapsto> j\<lparr>jState := StatePaused\<rparr>)"
    by (rule admin_verb_applies [OF PauseJob_verb wf at src adm])
  let ?j = "j\<lparr>jState := StatePaused\<rparr>"
  have at1: "map_of (jobs s1) jid = Some ?j" using s1(4) by simp
  have "jSource ?j = src" "jState ?j = StatePaused" using src by simp_all
  then obtain s2 where s2: "ResumeJob src jid s1 = (Inr (), s2)"
    "map_of (jobs s2) = (map_of (jobs s1))(jid \<mapsto> ?j\<lparr>jState := enqueue_state (jRunAt ?j) (clock s1)\<rparr>)"
    by (rule admin_verb_applies [OF ResumeJob_verb s1(2) at1])
  have "?j\<lparr>jState := enqueue_state (jRunAt ?j) (clock s1)\<rparr> = j" using waits s1(3) by simp
  then have same: "map_of (jobs s2) = map_of (jobs s)" using s2(2) s1(4) at by (simp add: fun_eq_iff)
  have "jid \<notin> jID ` set out" if "0 < dpLimit p" "DequeueBatch gen src p s1 = (Inr out, s3)" for gen p out s3
  proof
    assume "jid \<in> jID ` set out"
    then have "jid \<in> set (map jID out)" by simp
    then have "jid \<in> set (map jID (due_jobs src p s1))" unfolding DequeueBatch_map(4) [OF s1(2) that] .
    then obtain d where "d \<in> set (due_jobs src p s1)" "jID d = jid" by auto
    with due_jobs_props(3) [OF s1(2) this(1)] at1 show False by (auto simp: is_due_def)
  qed
  with s1(1) s2(1) same show ?thesis by blast
qed

theorem pause_resume_roundtrip_witness:
  "\<exists>s1 s2. PauseJob SourceQueue 1 run_queued = (Inr (), s1) \<and> ResumeJob SourceQueue 1 s1 = (Inr (), s2) \<and>
     map_of (jobs s2) = map_of (jobs run_queued)"
proof -
  have at: "map_of (jobs run_queued) 1 = Some (the (map_of (jobs run_queued) 1))"
    "jSource (the (map_of (jobs run_queued) 1)) = SourceQueue"
    "jState (the (map_of (jobs run_queued) 1)) = enqueue_state (jRunAt (the (map_of (jobs run_queued) 1))) (clock run_queued)"
    by code_simp+
  from pause_resume_roundtrip [OF run_wf(1) at] show ?thesis by blast
qed

text \<open>
  The operator verbs are exact. Retry, archive, pause, resume and run-now
  each apply their transition to the named job, and to no other, when the job
  belongs to the source and is in a state the verb admits (dead; pending or
  scheduled; pending or scheduled; paused; scheduled); for every other job they
  answer not-found under their own name and change nothing. A retried job starts
  over with a fresh attempt and reap budget; a resumed job is scheduled or
  pending as its run time says.
\<close>

theorem admin_verbs_exact:
  "admin_verb ''retry'' (\<lambda>j. jState j = StateDead)
     (\<lambda>now j. j\<lparr>jState := StatePending, jRunAt := now, jAttempt := 0, jReapCount := 0, jLastError := [],
        jFailedAt := zero_time, jStartedAt := zero_time, jDeadlineAt := zero_time\<rparr>) RetryJob \<and>
   admin_verb ''archive'' (\<lambda>j. jState j = StatePending \<or> jState j = StateScheduled)
     (\<lambda>now j. j\<lparr>jState := StateDead, jLeaseUntil := zero_time\<rparr>) ArchiveJob \<and>
   admin_verb ''pause'' (\<lambda>j. jState j = StatePending \<or> jState j = StateScheduled)
     (\<lambda>now j. j\<lparr>jState := StatePaused\<rparr>) PauseJob \<and>
   admin_verb ''resume'' (\<lambda>j. jState j = StatePaused)
     (\<lambda>now j. j\<lparr>jState := (if jRunAt j > now then StateScheduled else StatePending)\<rparr>) ResumeJob \<and>
   admin_verb ''run now'' (\<lambda>j. jState j = StateScheduled)
     (\<lambda>now j. j\<lparr>jState := StatePending, jRunAt := now\<rparr>) RunNow"
proof -
  have "reset_job = (\<lambda>now j. j\<lparr>jState := StatePending, jRunAt := now, jAttempt := 0, jReapCount := 0,
      jLastError := [], jFailedAt := zero_time, jStartedAt := zero_time, jDeadlineAt := zero_time\<rparr>)"
    by (simp add: fun_eq_iff reset_job_def)
  then show ?thesis
    using RetryJob_verb ArchiveJob_verb PauseJob_verb ResumeJob_verb RunNow_verb
    by (simp add: enqueue_state_def)
qed

lemma concat_pages:
  assumes "0 < n"
  shows "concat (map (\<lambda>i. paginate (int i * int n) (int n) xs) [0..<m]) = take (m * n) xs"
proof (induction m)
  case (Suc m)
  have "paginate (int m * int n) (int n) xs = take n (drop (m * n) xs)"
    using assms by (auto simp: paginate_def Let_def nat_mult_distrib not_less simp flip: of_nat_mult)
  with Suc show ?case using take_add [of "m * n" n xs] by (simp add: add.commute)
qed simp

lemma ids_of_jobs:
  assumes wf: "wf_jobs s"
  shows "jID ` set (filter P (map snd (jobs s))) = {k. \<exists>j. map_of (jobs s) k = Some j \<and> P j}" (is "?L = ?R")
proof (intro equalityI subsetI)
  fix k assume "k \<in> ?L"
  then obtain k' j where j: "(k', j) \<in> set (jobs s)" "P j" "k = jID j" by auto
  from map_of_is_SomeI [OF wf_jobsD(1) [OF wf] j(1)] wf_jobsD(2) [OF wf] j(2,3) show "k \<in> ?R" by auto
next
  fix k assume "k \<in> ?R"
  then obtain j where j: "map_of (jobs s) k = Some j" "P j" by auto
  from map_of_SomeD [OF j(1)] have "j \<in> set (map snd (jobs s))" by force
  with j wf_jobsD(2) [OF wf j(1)] show "k \<in> ?L" by auto
qed

text \<open>
  Paging through a listing shows every matching job exactly once. Successive
  pages of a positive size, concatenated, are the whole listing, which holds the
  matching jobs without repetition, and the reported total is its length.
\<close>

theorem ListJobs_pages:
  assumes wf: "wf_jobs s" and n: "0 < n" and total: "snd (ListJobs src flt 0 0 s) \<le> int (m * n)"
  shows "concat (map (\<lambda>i. fst (ListJobs src flt (int i * int n) (int n) s)) [0..<m]) = fst (ListJobs src flt 0 0 s) \<and>
    distinct (map jID (fst (ListJobs src flt 0 0 s))) \<and>
    jID ` set (fst (ListJobs src flt 0 0 s)) = {k. \<exists>j. map_of (jobs s) k = Some j \<and> job_matches src flt j} \<and>
    snd (ListJobs src flt 0 0 s) = int (length (fst (ListJobs src flt 0 0 s)))"
    (is "?A \<and> ?B \<and> ?C \<and> ?D")
proof -
  let ?F = "filter (job_matches src flt) (map snd (jobs s))"
  let ?M = "orderJobs (jfState flt) ?F"
  have full: "ListJobs src flt 0 0 s = (map toJob ?M, int (length ?M))"
    by (simp add: ListJobs_def Let_def paginate_all)
  from full total have "length ?M \<le> m * n" by (metis of_nat_le_iff snd_conv)
  moreover have "concat (map (\<lambda>i. fst (ListJobs src flt (int i * int n) (int n) s)) [0..<m]) = map toJob (take (m * n) ?M)"
    unfolding concat_pages [OF n, of ?M m, symmetric] by (simp add: ListJobs_def Let_def map_concat comp_def)
  ultimately have A: ?A using full by simp
  have ids: "map jID (map snd (jobs s)) = map fst (jobs s)" using wf by (auto simp: wf_jobs_def)
  have "distinct (map jID (map snd (jobs s)))" unfolding ids using wf by (rule wf_jobsD)
  then have "distinct (map jID ?F)" by (rule distinct_map_filter)
  then have "distinct (map jID ?M)" unfolding orderJobs_def by (metis distinct_map distinct_sort set_sort)
  then have B: ?B using full by (simp add: comp_def)
  have "jID ` set (fst (ListJobs src flt 0 0 s)) = jID ` set ?F"
    using full by (simp add: image_image orderJobs_def)
  also have "\<dots> = {k. \<exists>j. map_of (jobs s) k = Some j \<and> job_matches src flt j}"
    by (rule ids_of_jobs [OF wf])
  finally have C: ?C .
  have ?D using full by simp
  with A B C show ?thesis by blast
qed

theorem ListJobs_pages_witness:
  "map jID (fst (ListJobs SourceQueue \<lparr>jfKind = [], jfState = None\<rparr> 0 1 run_queued)) @
   map jID (fst (ListJobs SourceQueue \<lparr>jfKind = [], jfState = None\<rparr> 1 1 run_queued)) =
   map jID (fst (ListJobs SourceQueue \<lparr>jfKind = [], jfState = None\<rparr> 0 0 run_queued))"
proof -
  have "snd (ListJobs SourceQueue \<lparr>jfKind = [], jfState = None\<rparr> 0 0 run_queued) \<le> int (2 * 1)" by code_simp
  from ListJobs_pages [OF run_wf(1) zero_less_one this]
  have "fst (ListJobs SourceQueue \<lparr>jfKind = [], jfState = None\<rparr> 0 1 run_queued) @
      fst (ListJobs SourceQueue \<lparr>jfKind = [], jfState = None\<rparr> 1 1 run_queued) =
      fst (ListJobs SourceQueue \<lparr>jfKind = [], jfState = None\<rparr> 0 0 run_queued)"
    by (simp add: numeral_2_eq_2)
  then show ?thesis by (metis map_append)
qed

section \<open>The event ledger\<close>

text \<open>
  C36: Publishing fans out atomically. Publishing a new event stores it in the
  ledger and creates exactly one pending, due delivery per subscriber of its type,
  carrying the subscriber's attempt budget, and touches no existing job; the
  number reported is the number of subscribers. Publishing an id the ledger holds
  fails with already-exists and changes nothing.
\<close>

theorem Publish_fans_out:
  assumes wf: "wf_jobs s" and fresh: "fresh_ids gen (length (subscribersFor (ppType p) s)) s"
    and run: "Publish gen p s = (r, s')"
  shows "if map_of (events s) (ppID p) \<noteq> None then r = Inl AlreadyExists \<and> s' = s
    else r = Inr (int (length (subscribersFor (ppType p) s))) \<and>
      map_of (events s') = (map_of (events s))(ppID p \<mapsto> ledger_record p) \<and>
      (\<forall>k j. map_of (jobs s) k = Some j \<longrightarrow> map_of (jobs s') k = Some j) \<and>
      (\<forall>i<length (subscribersFor (ppType p) s). \<exists>j. map_of (jobs s') (gen (draws s + i)) = Some j \<and>
         jSource j = SourceEvent \<and> jKind j = subName (subscribersFor (ppType p) s ! i) \<and>
         jMaxAttempts j = subMaxAttempts (subscribersFor (ppType p) s ! i) \<and> jEventID j = ppID p \<and>
         is_due SourceEvent (jKind j) (clock s') j \<and> \<not> jReplay j) \<and>
      card (dom (map_of (jobs s'))) = card (dom (map_of (jobs s))) + length (subscribersFor (ppType p) s)"
proof (cases "map_of (events s) (ppID p)")
  case None
  let ?subs = "subscribersFor (ppType p) s" let ?I = "{draws s ..< draws s + length ?subs}"
  obtain s1 where s1: "Publish gen p s = (Inr (int (length ?subs)), s1)" "wf_jobs s1" "clock s1 = clock s"
    "subscribers s1 = subscribers s" "events s1 = AList.update (ppID p) (ledger_record p) (events s)"
    and new': "\<forall>i<length ?subs. map_of (jobs s1) (gen (draws s + i)) =
       Some (delivery_job (gen (draws s + i)) (ppID p) (subName (?subs ! i))
               (subMaxAttempts (?subs ! i)) False (clock s) (jobSeq s + 1 + int i))"
    and old: "\<forall>k. k \<notin> gen ` ?I \<longrightarrow> map_of (jobs s1) k = map_of (jobs s) k"
    by (rule Publish_result [OF wf None fresh])
  from s1(1) run have eq: "s1 = s'" "r = Inr (int (length ?subs))" by simp_all
  from fresh have inj: "inj_on gen ?I" and none: "\<And>i. i \<in> ?I \<Longrightarrow> map_of (jobs s) (gen i) = None"
    by (auto simp: fresh_ids_def)
  have keep: "map_of (jobs s') k = Some j" if "map_of (jobs s) k = Some j" for k j
    using that old none eq(1) by (cases "k \<in> gen ` ?I") auto
  have new: "map_of (jobs s') (gen i) \<noteq> None" if "i \<in> ?I" for i
    using new' [rule_format, of "i - draws s"] that eq(1) by auto
  have "dom (map_of (jobs s')) = dom (map_of (jobs s)) \<union> gen ` ?I"
  proof (intro equalityI subsetI)
    fix k assume "k \<in> dom (map_of (jobs s'))"
    then show "k \<in> dom (map_of (jobs s)) \<union> gen ` ?I" using old eq(1) by (cases "k \<in> gen ` ?I") auto
  next
    fix k assume "k \<in> dom (map_of (jobs s)) \<union> gen ` ?I"
    then show "k \<in> dom (map_of (jobs s'))" using keep new by blast
  qed
  moreover have "dom (map_of (jobs s)) \<inter> gen ` ?I = {}" using none by auto
  moreover have "card (gen ` ?I) = length ?subs" using card_image [OF inj] by simp
  ultimately have "card (dom (map_of (jobs s'))) = card (dom (map_of (jobs s))) + length ?subs"
    by (simp add: card_Un_disjoint finite_dom_map_of)
  moreover have "\<exists>j. map_of (jobs s') (gen (draws s + i)) = Some j \<and> jSource j = SourceEvent \<and>
      jKind j = subName (?subs ! i) \<and> jMaxAttempts j = subMaxAttempts (?subs ! i) \<and> jEventID j = ppID p \<and>
      is_due SourceEvent (jKind j) (clock s') j \<and> \<not> jReplay j" if "i < length ?subs" for i
    using new' that eq(1) s1(3) by (simp add: is_due_def)
  ultimately show ?thesis using None eq s1(5) keep by (auto simp: AList.update_conv')
qed (use run in \<open>simp add: Publish_def\<close>)

definition run_event :: "uuid \<Rightarrow> publishParams" where
  "run_event eid =
     \<lparr>ppID = eid, ppType = ''order.paid'', ppAggregateType = ''order'', ppAggregateID = ''7'', ppVersion = 1,
      ppOccurredAt = 90, ppPayload = Some ''{}'', ppMeta = None\<rparr>"

definition run_subscribed :: fake where
  "run_subscribed =
     RegisterSubscriber \<lparr>subName = ''audit'', subEventType = ''order.paid'', subMaxAttempts = 2\<rparr>
       (RegisterSubscriber \<lparr>subName = ''mailer'', subEventType = ''order.paid'', subMaxAttempts = 4\<rparr> (NewFake 100))"

definition run_published :: fake where
  "run_published = snd (Publish (\<lambda>n. 50 + n) (run_event 7) run_subscribed)"

lemma RegisterSubscriber_jobs [simp]: "jobs (RegisterSubscriber sub s) = jobs s"
  by (simp add: RegisterSubscriber_def Let_def split: option.split)

lemma run_subscribed_facts:
  "jobs run_subscribed = []" "events run_subscribed = []" "wf_jobs run_subscribed"
  "length (subscribersFor ''order.paid'' run_subscribed) = 2"
  by (simp add: run_subscribed_def NewFake_def)
    (code_simp, simp add: run_subscribed_def NewFake_def wf_jobs_def, code_simp)

theorem Publish_fans_out_witness:
  "fst (Publish (\<lambda>n. 50 + n) (run_event 7) run_subscribed) = Inr 2 \<and>
   card (dom (map_of (jobs run_published))) = 2"
proof -
  have fresh: "fresh_ids (\<lambda>n. 50 + n) (length (subscribersFor (ppType (run_event 7)) run_subscribed)) run_subscribed"
    by (simp add: fresh_ids_def run_subscribed_facts)
  have "ppType (run_event 7) = ''order.paid''" by (simp add: run_event_def)
  with Publish_fans_out [OF run_subscribed_facts(3) fresh prod.collapse [symmetric]]
  show ?thesis by (simp add: run_subscribed_facts run_published_def)
qed

text \<open>
  C37: Retention removes an event and its deliveries together, and never one that
  is in flight. A retention pass removes at most \<open>limit\<close> events, each older than
  the cutoff and without an unsettled delivery; it removes exactly the deliveries
  of the removed events, and keeps every queue job and every delivery that is
  neither succeeded nor dead.
\<close>

theorem Retain_safe:
  assumes wf: "wf_jobs s" and led: "wf_ledger s" and lim: "0 < limit" and run: "Retain before limit s = (r, s')"
  shows "\<exists>gone. r = Inr (int (length gone)) \<and> int (length gone) \<le> limit \<and>
    (\<forall>e\<in>set gone. map_of (events s) (evID e) = Some e \<and> evOccurredAt e < before \<and> \<not> hasInFlightDelivery (evID e) s) \<and>
    map_of (events s') = (\<lambda>k. if k \<in> evID ` set gone then None else map_of (events s) k) \<and>
    (\<forall>k j. map_of (jobs s) k = Some j \<longrightarrow> map_of (jobs s') k =
       (if jSource j = SourceEvent \<and> jEventID j \<in> evID ` set gone then None else Some j)) \<and>
    (\<forall>k j. map_of (jobs s) k = Some j \<longrightarrow> jState j \<noteq> StateSucceeded \<longrightarrow> jState j \<noteq> StateDead \<longrightarrow>
       map_of (jobs s') k = Some j)"
proof -
  let ?C = "retain_candidates before limit s"
  let ?r = "fold retain_event ?C (0, s)"
  from wf have "wf_jobs (snd (0::int, s))" by simp
  note F = retain_fold [OF this refl, of ?C]
  from run lim have eq: "r = Inr (fst ?r)" "s' = snd ?r" by (auto simp: Retain_def case_prod_unfold Let_def)
  have len: "int (length ?C) \<le> limit" using lim by (auto simp: retain_candidates_def Let_def)
  have each: "map_of (events s) (evID e) = Some e \<and> evOccurredAt e < before \<and> \<not> hasInFlightDelivery (evID e) s"
    if "e \<in> set ?C" for e
  proof -
    from retain_candidates_in [OF that] obtain k where "(k, e) \<in> set (events s)" by auto
    then have "map_of (events s) k = Some e" using led by (simp add: wf_ledger_def)
    with led retain_candidates_in [OF that] show ?thesis by (auto simp: wf_ledger_def)
  qed
  have jobs': "map_of (jobs s') k = (if jSource j = SourceEvent \<and> jEventID j \<in> evID ` set ?C then None else Some j)"
    if "map_of (jobs s) k = Some j" for k j
    using F that eq(2) by simp
  have "map_of (jobs s') k = Some j"
    if j: "map_of (jobs s) k = Some j" "jState j \<noteq> StateSucceeded" "jState j \<noteq> StateDead" for k j
  proof -
    have "\<not> (jSource j = SourceEvent \<and> jEventID j \<in> evID ` set ?C)"
    proof
      assume d: "jSource j = SourceEvent \<and> jEventID j \<in> evID ` set ?C"
      then obtain e where e: "e \<in> set ?C" "jEventID j = evID e" by auto
      have "j \<in> set (map snd (jobs s))" using map_of_SomeD [OF j(1)] by force
      with d e(2) j have "hasInFlightDelivery (evID e) s" by (auto simp: hasInFlightDelivery_def list_ex_iff)
      with each [OF e(1)] show False by blast
    qed
    with jobs' [OF j(1)] show ?thesis by simp
  qed
  with F eq len each jobs' show ?thesis by (intro exI [of _ ?C]) auto
qed

lemma wf_ledger_run_published: "wf_ledger run_published"
proof -
  have "wf_jobs run_published"
    unfolding run_published_def
    by (rule Publish_result [OF run_subscribed_facts(3), of "run_event 7" "\<lambda>n. 50 + n"])
      (simp_all add: run_subscribed_facts fresh_ids_def)
  moreover have "distinct_keys (events run_published) \<and> list_all (\<lambda>(k, e). evID e = k) (events run_published)"
    "distinct_keys (subscribers run_published) \<and>
     list_all (\<lambda>(k, r). (subName r, subEventType r) = k) (subscribers run_published)"
    by code_simp+
  ultimately show ?thesis
    by (auto simp: wf_ledger_def list_all_iff dest!: map_of_SomeD)
qed

theorem Retain_safe_witness:
  "fst (Retain 95 10 run_published) = Inr 0 \<and> map_of (events (snd (Retain 95 10 run_published))) 7 \<noteq> None"
proof -
  have flight: "hasInFlightDelivery 7 run_published" by code_simp
  have at: "map_of (events run_published) 7 \<noteq> None" by code_simp
  have one: "map fst (events run_published) = [7]" by code_simp
  have led: "wf_ledger run_published" by (rule wf_ledger_run_published)
  then have wf: "wf_jobs run_published" by (simp add: wf_ledger_def)
  from Retain_safe [OF wf led _ prod.collapse [symmetric], of 10 95] obtain gone where g:
    "fst (Retain 95 10 run_published) = Inr (int (length gone))"
    "\<forall>e\<in>set gone. map_of (events run_published) (evID e) = Some e \<and> evOccurredAt e < 95 \<and> \<not> hasInFlightDelivery (evID e) run_published"
    "map_of (events (snd (Retain 95 10 run_published))) = (\<lambda>k. if k \<in> evID ` set gone then None else map_of (events run_published) k)"
    by auto
  have "evID e \<in> set (map fst (events run_published))" if "e \<in> set gone" for e
    using g(2) that map_of_SomeD [of "events run_published" "evID e" e] by force
  with one g(2) flight have "gone = []" by (cases gone) auto
  with g at show ?thesis by simp
qed

text \<open>
  Replaying creates new deliveries only. It reports one delivery per selected
  event and admitted subscriber of the event's type, at most \<open>limit\<close> events being
  selected, in id order, and it changes neither the ledger nor any existing job.
\<close>

theorem Replay_only_adds:
  assumes wf: "wf_jobs s" and run: "Replay gen flt s = (r, s')"
    and fresh: "\<And>i. draws s \<le> i \<Longrightarrow> map_of (jobs s) (gen i) = None"
  shows "r = Inr (int (sum_list (map (\<lambda>e. length (replay_subs flt e s)) (replay_events flt s)))) \<and>
    sorted (map evID (replay_events flt s)) \<and> set (replay_events flt s) \<subseteq> snd ` set (events s) \<and>
    (0 < rfLimit flt \<longrightarrow> int (length (replay_events flt s)) \<le> rfLimit flt) \<and>
    events s' = events s \<and> (\<forall>k j. map_of (jobs s) k = Some j \<longrightarrow> map_of (jobs s') k = Some j)"
proof -
  note R = Replay_result [OF wf, of gen flt]
  have "map_of (jobs s') k = Some j" if "map_of (jobs s) k = Some j" for k j
  proof -
    have "k \<notin> gen ` {draws (snd (0::int, s))..}" using fresh that by fastforce
    then have "map_of (jobs (snd (fold (replay_event gen flt (clock s)) (replay_events flt s) (0::int, s)))) k = map_of (jobs s) k"
      by (subst replay_keeps) simp_all
    with run that show ?thesis by (auto simp: Replay_def case_prod_unfold Let_def)
  qed
  moreover have "sorted (map evID (replay_events flt s))"
    by (auto simp: replay_events_def Let_def take_map [symmetric] sorted_wrt_take)
  moreover have "set (replay_events flt s) \<subseteq> snd ` set (events s)"
    by (auto simp: replay_events_def Let_def dest!: in_set_takeD split: if_splits)
  moreover have "0 < rfLimit flt \<longrightarrow> int (length (replay_events flt s)) \<le> rfLimit flt"
    by (auto simp: replay_events_def Let_def)
  ultimately show ?thesis using R run by auto
qed

theorem Replay_only_adds_witness:
  "fst (Replay (\<lambda>n. 50 + n) \<lparr>rfSubscriber = ''audit'', rfEventType = [], rfEventID = Nil_uuid, rfSince = zero_time,
      rfUntil = zero_time, rfLimit = 1\<rparr> run_published) = Inr 1"
proof -
  let ?f = "\<lparr>rfSubscriber = ''audit'', rfEventType = [], rfEventID = Nil_uuid, rfSince = zero_time,
      rfUntil = zero_time, rfLimit = 1\<rparr>"
  have wf: "wf_jobs run_published" using wf_ledger_run_published by (simp add: wf_ledger_def)
  have ids: "map fst (jobs run_published) = [50, 51]" and dr: "draws run_published = 2" by code_simp+
  have "map_of (jobs run_published) (50 + i) = None" if "draws run_published \<le> i" for i
  proof -
    from that dr have "50 + i \<notin> set (map fst (jobs run_published))" unfolding ids by simp
    then show ?thesis by (simp add: map_of_eq_None_iff)
  qed
  from Replay_only_adds [where gen = "\<lambda>n. 50 + n" and flt = ?f, OF wf prod.collapse [symmetric] this]
  have "fst (Replay (\<lambda>n. 50 + n) ?f run_published) =
    Inr (int (sum_list (map (\<lambda>e. length (replay_subs ?f e run_published)) (replay_events ?f run_published))))" by blast
  moreover have "sum_list (map (\<lambda>e. length (replay_subs ?f e run_published)) (replay_events ?f run_published)) = 1"
    by code_simp
  ultimately show ?thesis by simp
qed

section \<open>The change feed\<close>

text \<open>The effect of a sequence of hints on one subscription with no receive in between.\<close>

definition notifyAll :: "change list \<Rightarrow> changeSub \<Rightarrow> changeSub" where
  "notifyAll cs sub = fold notifySub cs sub"

text \<open>
  The change feed is bounded and never loses a hint silently. Whatever
  sequence of hints is sent, a subscription buffers at most its capacity and
  keeps what it already holds in order; and when a sent hint is missing from the
  buffer, then either a reset entry follows the place where the gap begins, or
  the subscription is marked overflowed - and the first entry an overflowed
  subscription accepts is a reset.
\<close>

theorem change_feed_bounded:
  assumes "length (csCh sub) \<le> changeBuffer"
  shows "length (csCh (notifyAll cs sub)) \<le> changeBuffer \<and>
    (\<exists>xs. csCh (notifyAll cs sub) = csCh sub @ xs \<and>
       (xs = cs \<or> csOverflowed (notifyAll cs sub) \<or> (\<exists>t. resetAt t \<in> set xs))) \<and>
    (csOverflowed sub \<and> length (csCh sub) < changeBuffer \<and> cs \<noteq> [] \<longrightarrow>
       (\<exists>t xs. csCh (notifyAll cs sub) = csCh sub @ resetAt t # xs))"
proof -
  have step: "length (csCh (notifyAll cs sub)) \<le> changeBuffer \<and>
    (\<exists>xs. csCh (notifyAll cs sub) = csCh sub @ xs \<and>
       ((xs = cs \<and> \<not> csOverflowed sub) \<or> csOverflowed (notifyAll cs sub) \<or> (\<exists>t. resetAt t \<in> set xs)))"
    if "length (csCh sub) \<le> changeBuffer" for cs sub
    using that
  proof (induction cs arbitrary: sub)
    case (Cons c cs)
    let ?s = "notifySub c sub"
    have le: "length (csCh ?s) \<le> changeBuffer" by (rule notifySub_bounded [OF Cons.prems])
    have eq: "notifyAll (c # cs) sub = notifyAll cs ?s" by (simp add: notifyAll_def)
    from Cons.IH [OF le] obtain xs where IH: "length (csCh (notifyAll cs ?s)) \<le> changeBuffer"
      "csCh (notifyAll cs ?s) = csCh ?s @ xs"
      "(xs = cs \<and> \<not> csOverflowed ?s) \<or> csOverflowed (notifyAll cs ?s) \<or> (\<exists>t. resetAt t \<in> set xs)" by blast
    from notifySub_cases [of sub c] IH show ?case unfolding eq by auto
  qed (auto simp: notifyAll_def)
  have "\<exists>t xs. csCh (notifyAll cs sub) = csCh sub @ resetAt t # xs"
    if o: "csOverflowed sub" "length (csCh sub) < changeBuffer" "cs \<noteq> []"
  proof -
    from o(3) obtain c cs' where cs: "cs = c # cs'" by (cases cs) auto
    have le: "length (csCh (notifySub c sub)) \<le> changeBuffer" by (rule notifySub_bounded [OF assms])
    from o have "\<exists>ys. csCh (notifySub c sub) = csCh sub @ resetAt (cAt c) # ys"
      by (auto simp: notifySub_def Let_def)
    moreover from step [OF le, of cs'] obtain xs where "csCh (notifyAll cs' (notifySub c sub)) = csCh (notifySub c sub) @ xs"
      by blast
    ultimately show ?thesis by (auto simp: cs notifyAll_def)
  qed
  with step [OF assms] show ?thesis by blast
qed

theorem change_feed_bounded_witness:
  "length (csCh (notifyAll (replicate 300 (resetAt 5)) \<lparr>csCh = [], csOverflowed = False\<rparr>)) \<le> changeBuffer"
  using change_feed_bounded [of "\<lparr>csCh = [], csOverflowed = False\<rparr>" "replicate 300 (resetAt 5)"]
  by simp

section \<open>Leadership\<close>

text \<open>
  A leadership has one holder. While a lease on a name is held, every further
  acquisition of the name fails and changes nothing, and acquisitions of other
  names do not disturb it; releasing the lease makes the name available again;
  and releasing a lease a second time has no effect, so a former holder cannot
  evict its successor.
\<close>

theorem leadership_exclusive:
  assumes wf: "wf_leases s" and acq: "AcquireLeadershipLease name s = (Some l, s1)"
  shows "AcquireLeadershipLease name s1 = (None, s1) \<and> LeaseValid l s1 \<and> wf_leases s1 \<and>
    (\<forall>other. AcquireLeadershipLease name (snd (AcquireLeadershipLease other s1)) =
       (None, snd (AcquireLeadershipLease other s1))) \<and>
    (\<exists>l2 s2. AcquireLeadershipLease name (LeaseRelease l s1) = (Some l2, s2) \<and> l2 \<noteq> l \<and> LeaseRelease l s2 = s2)"
proof -
  let ?l = "length (leases s)" let ?o = "\<lparr>flName = name, flInvalid = False, flReleased = False\<rparr>"
  from acq have l: "l = ?l"
    and s1: "s1 = s\<lparr>leaders := AList.update name True (leaders s), leases := AList.update ?l ?o (leases s),
       activeLease := AList.update name ?l (activeLease s)\<rparr>"
    by (auto simp: AcquireLeadershipLease_def Let_def split: if_splits)
  have held: "the_default False (map_of (leaders s1) name)" by (simp add: s1 AList.update_conv')
  have A: "AcquireLeadershipLease name s1 = (None, s1)" using held by (simp add: AcquireLeadershipLease_def)
  have B: "LeaseValid l s1" by (simp add: LeaseValid_def l s1 AList.update_conv')
  have C: "AcquireLeadershipLease name (snd (AcquireLeadershipLease other s1)) =
       (None, snd (AcquireLeadershipLease other s1))" for other
    using held by (auto simp: AcquireLeadershipLease_def Let_def AList.update_conv')
  have D: "wf_leases s1" using AcquireLeadershipLease_wf [OF wf, of name] acq by simp
  let ?r = "LeaseRelease l s1"
  have at: "map_of (leases s1) l = Some ?o" by (simp add: l s1 AList.update_conv')
  then have r: "leases ?r = AList.update l (?o\<lparr>flReleased := True\<rparr>) (leases s1)"
    "leaders ?r = AList.delete name (leaders s1)" by (simp_all add: LeaseRelease_def)
  have "wf_leases ?r" by (rule LeaseRelease_wf [OF D])
  moreover have "map_of (leases ?r) l = Some (?o\<lparr>flReleased := True\<rparr>)" using r(1) by (simp add: AList.update_conv')
  ultimately have lt: "l < length (leases ?r)" by (rule wf_leases_lt)
  define s2 where "s2 = snd (AcquireLeadershipLease name ?r)"
  have "\<not> the_default False (map_of (leaders ?r) name)" by (simp add: r(2) AList.delete_conv')
  then have acq2: "AcquireLeadershipLease name ?r = (Some (length (leases ?r)), s2)"
    by (simp add: s2_def AcquireLeadershipLease_def Let_def)
  moreover have "map_of (leases s2) l = Some (?o\<lparr>flReleased := True\<rparr>)"
    using r \<open>\<not> the_default False (map_of (leaders ?r) name)\<close> lt
    by (simp add: s2_def AcquireLeadershipLease_def Let_def AList.update_conv')
  then have "LeaseRelease l s2 = s2" by (simp add: LeaseRelease_def)
  ultimately show ?thesis using A B C D less_imp_neq [OF lt, THEN not_sym] by blast
qed

theorem leadership_exclusive_witness:
  "AcquireLeadershipLease ''vacuum'' (snd (AcquireLeadershipLease ''vacuum'' (NewFake 100))) =
     (None, snd (AcquireLeadershipLease ''vacuum'' (NewFake 100)))"
proof -
  let ?a = "AcquireLeadershipLease ''vacuum'' (NewFake 100)"
  have wf: "wf_leases (NewFake 100)" by (simp add: wf_leases_def NewFake_def)
  have "fst ?a = Some 0" by code_simp
  then have "?a = (Some 0, snd ?a)" by (simp add: prod_eq_iff)
  from leadership_exclusive [OF wf this] show ?thesis by blast
qed

end
