(* ===== verification/Fake_Dag.thy ===== *)
theory Fake_Dag
  imports Fake_Ledger
begin

text \<open>
  The DAG capability of the in-memory store (\<open>fake_dag.go\<close>): creation, signals,
  the scheduler passes (promotion, timers, failure policy, completion), task
  results and the manager verbs. A task is a job of source \<open>SourceDAG\<close>; the header
  is a \<open>fakeDAG\<close> record with its dependency edges and its signal inbox.

  A Go pointer to a header or a job is its key in the map; a loop over a slice of
  pointers visits each job once and writes the job it visits, so the model folds
  over the values the slice was built from.
\<close>

section \<open>Headers\<close>

definition terminal :: "fakeDAG \<Rightarrow> bool" where
  "terminal w = (case wState w of DAGSucceeded \<Rightarrow> True | DAGFailed \<Rightarrow> True | DAGCancelled \<Rightarrow> True | _ \<Rightarrow> False)"

definition putDAG :: "fakeDAG \<Rightarrow> fake \<Rightarrow> fake" where
  [store_defs]: "putDAG w s = s\<lparr>dags := AList.update (wID w) w (dags s)\<rparr>"

definition dag_of :: "uuid \<Rightarrow> fakeJob \<Rightarrow> bool" where
  "dag_of did j = (jSource j = SourceDAG \<and> jDAGID j = did)"

definition is_comp :: "fakeJob \<Rightarrow> bool" where
  "is_comp j = (take (length TaskKeyCompensationPrefix) (jTaskKey j) = TaskKeyCompensationPrefix)"

definition dagTaskLocked :: "uuid \<Rightarrow> string \<Rightarrow> fake \<Rightarrow> fakeJob option" where
  "dagTaskLocked did key s = find (\<lambda>j. dag_of did j \<and> jTaskKey j = key) (map snd (jobs s))"

definition dagJobsLocked :: "uuid \<Rightarrow> fake \<Rightarrow> fakeJob list" where
  "dagJobsLocked did s = sort_key seq (filter (dag_of did) (map snd (jobs s)))"

section \<open>Creation\<close>

definition task_state :: "dagTask \<Rightarrow> bool \<Rightarrow> job_state" where
  "task_state tk hasDeps =
     (if hasDeps then StateBlocked
      else if dtKind tk = KindSleep then StateScheduled
      else if dtKind tk = KindSignal then StateWaiting
      else StatePending)"

definition task_runAt :: "dagTask \<Rightarrow> bool \<Rightarrow> time \<Rightarrow> time" where
  "task_runAt tk hasDeps now = (if \<not> hasDeps \<and> dtKind tk = KindSleep then now + dtSleepFor tk else now)"

definition task_job :: "fakeDAG \<Rightarrow> dagTask \<Rightarrow> bool \<Rightarrow> time \<Rightarrow> uuid \<Rightarrow> int \<Rightarrow> fakeJob" where
  "task_job w tk hasDeps now jid sq =
     zeroJob\<lparr>jID := jid, jSource := SourceDAG, jKind := dtKind tk, jState := task_state tk hasDeps,
       jMaxAttempts := dtMaxAttempts tk, jPayload := clonePayload (dtPayload tk),
       jMeta := cloneMeta (wMeta w), jRunAt := task_runAt tk hasDeps now, jEnqueuedAt := now,
       jDAGID := wID w, jTaskKey := dtKey tk, jSignalName := dtSignalName tk,
       jCompensationKind := dtCompensationKind tk, jIgnoreDeadDeps := dtIgnoreDeadDeps tk,
       jSnoozeBudget := max (dtDeadline tk) 0, maxAttemptsExplicit := dtMaxAttempts tk > 0,
       compensationPayload := clonePayload (dtCompensationPayload tk), sleepFor := dtSleepFor tk,
       seq := sq\<rparr>"

definition insertDAGTask :: "(nat \<Rightarrow> uuid) \<Rightarrow> fakeDAG \<Rightarrow> dagTask \<Rightarrow> bool \<Rightarrow> time \<Rightarrow> fake \<Rightarrow> fake" where
  "insertDAGTask gen w tk hasDeps now s =
     (let jid = gen (draws s);
          (sq, s1) = nextSeq (s\<lparr>draws := Suc (draws s)\<rparr>);
          j = task_job w tk hasDeps now jid sq;
          s2 = changeJob j (bumpStat SourceDAG (dtKind tk) statEnqueued 1 now (putJob j s1))
      in if jState j = StatePending then wake SourceDAG (dtKind tk) s2 else s2)"

definition live_dag :: "string \<Rightarrow> string \<Rightarrow> fakeDAG \<Rightarrow> bool" where
  "live_dag name key w = (wName w = name \<and> wIdempotencyKey w = key \<and> \<not> terminal w)"

definition new_dag :: "dagParams \<Rightarrow> time \<Rightarrow> fakeDAG" where
  "new_dag p now =
     \<lparr>wID = dgID p, wName = dgName p, wState = DAGRunning,
      wOnFailure = (case dgOnFailure p of None \<Rightarrow> OnFailureCancel | Some pol \<Rightarrow> pol),
      wIdempotencyKey = dgIdempotencyKey p, wFailureReason = [], wMeta = cloneMeta (dgMeta p),
      wCreatedAt = now, wUpdatedAt = now, wCompletedAt = zero_time,
      deps = dgDeps p, cancelRequested = False, signals = []\<rparr>"

definition CreateDAG :: "(nat \<Rightarrow> uuid) \<Rightarrow> dagParams \<Rightarrow> fake \<Rightarrow> (fake, bool \<times> uuid) outcome" where
  "CreateDAG gen p s =
     (let now = clock s;
          dup = (if dgIdempotencyKey p \<noteq> []
                 then find (live_dag (dgName p) (dgIdempotencyKey p)) (map snd (dags s)) else None)
      in case dup of
           Some w \<Rightarrow> (Inr (False, wID w), s)
         | None \<Rightarrow>
             if map_of (dags s) (dgID p) \<noteq> None then (Inl AlreadyExists, s)
             else if \<not> distinct (map dtKey (dgTasks p)) then (Inl (OtherError ''duplicate task key''), s)
             else
               let w = new_dag p now;
                   s1 = changeDAG w (putDAG w s);
                   blocked = map ddTaskKey (dgDeps p);
                   s2 = fold (\<lambda>tk st. insertDAGTask gen w tk (dtKey tk \<in> set blocked) now st) (dgTasks p) s1
               in (Inr (True, Nil_uuid), s2))"

section \<open>Signals\<close>

definition consume :: "uuid \<Rightarrow> fakeDAG \<Rightarrow> fakeDAG" where
  "consume sid w = w\<lparr>signals := map (\<lambda>sg. if sgID sg = sid then sg\<lparr>sgConsumed := True\<rparr> else sg) (signals w)\<rparr>"

definition take_signal :: "raw \<Rightarrow> time \<Rightarrow> fakeJob \<Rightarrow> fakeJob" where
  "take_signal payload now j = j\<lparr>jState := StateSucceeded, jResult := clonePayload payload, jCompletedAt := now\<rparr>"

definition deliver_body ::
  "uuid \<Rightarrow> fakeDAGSignal \<Rightarrow> time \<Rightarrow> uuid \<Rightarrow> fakeJob \<Rightarrow> int \<times> fake \<Rightarrow> int \<times> fake" where
  "deliver_body did sig now k j st =
     (let (delivered, s) = st in
      if \<not> dag_of did j \<or> jSignalName j \<noteq> sgName sig then st
      else if jKind j = KindSignal \<and> jState j = StateWaiting
      then let j' = take_signal (sgPayload sig) now j in (delivered + 1, changeJob j' (putJob j' s))
      else if jKind j = KindSleep \<and> jState j = StateScheduled
      then (delivered + 1, putJob (j\<lparr>jRunAt := now\<rparr>) s)
      else st)"

definition deliverSignalNowLocked :: "uuid \<Rightarrow> fakeDAGSignal \<Rightarrow> time \<Rightarrow> fake \<Rightarrow> int \<times> fake" where
  "deliverSignalNowLocked did sig now s =
     (let (delivered, s') = range_fold (jobs \<circ> snd) (deliver_body did sig now) (0, s)
      in (delivered,
          if delivered > 0
          then (case map_of (dags s') did of None \<Rightarrow> s' | Some w \<Rightarrow> putDAG (consume (sgID sig) w) s')
          else s'))"

definition Signal :: "(nat \<Rightarrow> uuid) \<Rightarrow> dagSignalParams \<Rightarrow> fake \<Rightarrow> (fake, int \<times> bool) outcome" where
  "Signal gen p s =
     (case map_of (dags s) (dspDAGID p) of
        None \<Rightarrow> (Inl (NotFound ''signal dag''), s)
      | Some w \<Rightarrow>
          if terminal w then (Inl (NotFound ''signal dag''), s)
          else if dspMessageID p \<noteq> [] \<and>
                  list_ex (\<lambda>sg. sgName sg = dspName p \<and> sgMessageID sg = dspMessageID p) (signals w)
          then (Inr (0, True), s)
          else
            let now = clock s;
                sid = gen (draws s);
                (sq, s1) = nextSeq (s\<lparr>draws := Suc (draws s)\<rparr>);
                sig = \<lparr>sgID = sid, sgName = dspName p, sgMessageID = dspMessageID p,
                       sgPayload = clonePayload (dspPayload p), sgConsumed = False, sgCreatedAt = now, sgSeq = sq\<rparr>;
                s2 = putDAG (w\<lparr>signals := signals w @ [sig]\<rparr>) s1;
                (delivered, s3) = deliverSignalNowLocked (dspDAGID p) sig now s2
            in (Inr (delivered, False), s3))"

definition older_signal :: "string \<Rightarrow> fakeDAGSignal \<Rightarrow> fakeDAGSignal option \<Rightarrow> fakeDAGSignal option" where
  "older_signal name sg oldest =
     (if sgConsumed sg \<or> sgName sg \<noteq> name then oldest
      else (case oldest of
              None \<Rightarrow> Some sg
            | Some b \<Rightarrow> if sgCreatedAt sg < sgCreatedAt b \<or> (sgCreatedAt sg = sgCreatedAt b \<and> sgSeq sg < sgSeq b)
                        then Some sg else oldest))"

definition oldestUnconsumedSignal :: "fakeDAG \<Rightarrow> string \<Rightarrow> fakeDAGSignal option" where
  "oldestUnconsumedSignal w name = fold (older_signal name) (signals w) None"

definition deliverable :: "fakeJob \<Rightarrow> bool" where
  "deliverable j = (jKind j = KindSignal \<and> jState j = StateWaiting \<or> jKind j = KindSleep \<and> jState j = StateScheduled)"

definition buffered_task :: "uuid \<Rightarrow> time \<Rightarrow> uuid \<Rightarrow> fakeJob \<Rightarrow> int \<times> fake \<Rightarrow> int \<times> fake" where
  "buffered_task did now k j st =
     (let (delivered, s) = st in
      if \<not> dag_of did j \<or> jSignalName j = [] \<or> \<not> deliverable j then st
      else (case map_of (dags s) did of
              None \<Rightarrow> st
            | Some w \<Rightarrow>
                (case oldestUnconsumedSignal w (jSignalName j) of
                   None \<Rightarrow> st
                 | Some sg \<Rightarrow>
                     let s1 = (if jKind j = KindSignal \<and> jState j = StateWaiting
                               then let j' = take_signal (sgPayload sg) now j in changeJob j' (putJob j' s)
                               else putJob (j\<lparr>jRunAt := now\<rparr>) s)
                     in (delivered + 1, putDAG (consume (sgID sg) w) s1))))"

definition buffered_dag :: "time \<Rightarrow> uuid \<Rightarrow> fakeDAG \<Rightarrow> int \<times> fake \<Rightarrow> int \<times> fake" where
  "buffered_dag now did w st =
     (if wState w \<noteq> DAGRunning \<and> wState w \<noteq> DAGCompensating then st
      else range_fold (jobs \<circ> snd) (buffered_task did now) st)"

definition DeliverBufferedSignals :: "fake \<Rightarrow> (fake, int) outcome" where
  "DeliverBufferedSignals s =
     (let (delivered, s') = range_fold (dags \<circ> snd) (buffered_dag (clock s)) (0, s) in (Inr delivered, s'))"

section \<open>Promotion and timers\<close>

definition dep_ok :: "bool \<Rightarrow> job_state \<Rightarrow> bool" where
  "dep_ok ignoreDead st =
     (case st of
        StateSucceeded \<Rightarrow> True
      | StateSkipped \<Rightarrow> True
      | StateDead \<Rightarrow> ignoreDead
      | StateCancelled \<Rightarrow> ignoreDead
      | _ \<Rightarrow> False)"

definition depsSatisfiedLocked :: "fakeDAG \<Rightarrow> fakeJob \<Rightarrow> fake \<Rightarrow> bool" where
  "depsSatisfiedLocked w j s =
     list_all (\<lambda>d. ddTaskKey d \<noteq> jTaskKey j \<or>
        (case dagTaskLocked (wID w) (ddDependsOnKey d) s of
           None \<Rightarrow> False | Some dep \<Rightarrow> dep_ok (jIgnoreDeadDeps j) (jState dep))) (deps w)"

definition unblocked_job :: "time \<Rightarrow> fakeJob \<Rightarrow> fakeJob" where
  "unblocked_job now j =
     (if jKind j = KindSignal then j\<lparr>jState := StateWaiting\<rparr>
      else if jKind j = KindSleep then j\<lparr>jState := StateScheduled, jRunAt := now + sleepFor j\<rparr>
      else j\<lparr>jState := StatePending, jRunAt := now\<rparr>)"

definition unblockable :: "fake \<Rightarrow> fakeJob \<Rightarrow> bool" where
  "unblockable s j =
     (jSource j = SourceDAG \<and> jState j = StateBlocked \<and>
      (case map_of (dags s) (jDAGID j) of
         None \<Rightarrow> False
       | Some w \<Rightarrow> (wState w = DAGRunning \<or> wState w = DAGCompensating) \<and> depsSatisfiedLocked w j s))"

definition unblock_body :: "uuid \<Rightarrow> fakeJob \<Rightarrow> int \<times> fake \<Rightarrow> int \<times> fake" where
  "unblock_body k j st =
     (let (promoted, s) = st in
      if \<not> unblockable s j then st
      else
        let j' = unblocked_job (clock s) j;
            s1 = putJob j' s;
            s2 = (if jState j' = StatePending then wake SourceDAG (jKind j) s1 else s1)
        in (promoted + 1, changeJob j' s2))"

definition PromoteUnblocked :: "fake \<Rightarrow> (fake, int) outcome" where
  "PromoteUnblocked s =
     (let (promoted, s') = range_fold (jobs \<circ> snd) unblock_body (0, s) in (Inr promoted, s'))"

definition sleep_due :: "fake \<Rightarrow> fakeJob \<Rightarrow> bool" where
  "sleep_due s j =
     (jSource j = SourceDAG \<and> jKind j = KindSleep \<and> jState j = StateScheduled \<and> \<not> jRunAt j > clock s \<and>
      (case map_of (dags s) (jDAGID j) of None \<Rightarrow> False | Some w \<Rightarrow> wState w = DAGRunning))"

definition sleep_body :: "uuid \<Rightarrow> fakeJob \<Rightarrow> int \<times> fake \<Rightarrow> int \<times> fake" where
  "sleep_body k j st =
     (let (completed, s) = st in
      if sleep_due s j
      then let j' = j\<lparr>jState := StateSucceeded, jCompletedAt := clock s\<rparr>
           in (completed + 1, changeJob j' (putJob j' s))
      else st)"

definition CompleteDueSleeps :: "fake \<Rightarrow> (fake, int) outcome" where
  "CompleteDueSleeps s =
     (let (completed, s') = range_fold (jobs \<circ> snd) sleep_body (0, s) in (Inr completed, s'))"

section \<open>Failure policy and compensation\<close>

fun join :: "string \<Rightarrow> string list \<Rightarrow> string" where
  "join sep [] = []"
| "join sep [x] = x"
| "join sep (x # y # zs) = x @ sep @ join sep (y # zs)"

definition ignoredByAllDependentsLocked :: "fakeDAG \<Rightarrow> string \<Rightarrow> fake \<Rightarrow> bool" where
  "ignoredByAllDependentsLocked w key s =
     (let ds = filter (\<lambda>d. ddDependsOnKey d = key) (deps w)
      in list_all (\<lambda>d. case dagTaskLocked (wID w) (ddTaskKey d) s of
                         None \<Rightarrow> False | Some dep \<Rightarrow> jIgnoreDeadDeps dep) ds \<and>
         length ds > 0)"

definition triggeringDeadTasksLocked :: "fakeDAG \<Rightarrow> fake \<Rightarrow> string list" where
  "triggeringDeadTasksLocked w s =
     sort (map jTaskKey (filter (\<lambda>j. jState j = StateDead \<and> \<not> ignoredByAllDependentsLocked w (jTaskKey j) s)
       (dagJobsLocked (wID w) s)))"

definition cancellable :: "job_state \<Rightarrow> bool" where
  "cancellable st =
     (case st of StatePending \<Rightarrow> True | StateScheduled \<Rightarrow> True | StateBlocked \<Rightarrow> True
      | StateWaiting \<Rightarrow> True | StatePaused \<Rightarrow> True | _ \<Rightarrow> False)"

definition cancel_task :: "time \<Rightarrow> fakeJob \<Rightarrow> fake \<Rightarrow> fake" where
  "cancel_task now j s =
     (if cancellable (jState j)
      then let j' = j\<lparr>jState := StateCancelled, jCompletedAt := now\<rparr> in changeJob j' (putJob j' s)
      else s)"

definition cancelRemainingTasksLocked :: "uuid \<Rightarrow> time \<Rightarrow> fake \<Rightarrow> fake" where
  "cancelRemainingTasksLocked did now s = fold (cancel_task now) (dagJobsLocked did s) s"

definition comp_candidates :: "uuid \<Rightarrow> fake \<Rightarrow> fakeJob list" where
  "comp_candidates did s =
     sort_key (\<lambda>j. (- jCompletedAt j, - seq j))
       (filter (\<lambda>j. \<not> is_comp j \<and> jState j = StateSucceeded \<and> jCompensationKind j \<noteq> []) (dagJobsLocked did s))"

definition comp_key :: "fakeJob \<Rightarrow> string" where
  "comp_key orig = TaskKeyCompensationPrefix @ jTaskKey orig"

definition comp_job :: "fakeDAG \<Rightarrow> fakeJob \<Rightarrow> bool \<Rightarrow> time \<Rightarrow> uuid \<Rightarrow> int \<Rightarrow> fakeJob" where
  "comp_job w orig first now jid sq =
     zeroJob\<lparr>jID := jid, jSource := SourceDAG, jKind := jCompensationKind orig,
       jState := (if first then StatePending else StateBlocked), jMaxAttempts := jMaxAttempts orig,
       jPayload := clonePayload (compensationPayload orig), jMeta := cloneMeta (wMeta w), jRunAt := now,
       jEnqueuedAt := now, jDAGID := wID w, jTaskKey := comp_key orig,
       maxAttemptsExplicit := maxAttemptsExplicit orig, seq := sq\<rparr>"

text \<open>One turn of the insertion loop; the key of the previous compensation is empty on the first.\<close>

definition comp_step ::
  "(nat \<Rightarrow> uuid) \<Rightarrow> uuid \<Rightarrow> time \<Rightarrow> fakeJob \<Rightarrow> string option \<times> fake \<Rightarrow> string option \<times> fake" where
  "comp_step gen did now orig st =
     (let (prevKey, s) = st in
      case map_of (dags s) did of
        None \<Rightarrow> st
      | Some w \<Rightarrow>
          let key = comp_key orig;
              w' = (case prevKey of
                      None \<Rightarrow> w
                    | Some pk \<Rightarrow> w\<lparr>deps := deps w @ [\<lparr>ddTaskKey = key, ddDependsOnKey = pk\<rparr>]\<rparr>);
              jid = gen (draws s);
              (sq, s1) = nextSeq ((putDAG w' s)\<lparr>draws := Suc (draws s)\<rparr>);
              j = comp_job w orig (prevKey = None) now jid sq;
              s2 = changeJob j (bumpStat SourceDAG (jCompensationKind orig) statEnqueued 1 now (putJob j s1));
              s3 = (if jState j = StatePending then wake SourceDAG (jCompensationKind orig) s2 else s2)
          in (Some key, s3))"

definition insertCompensationsLocked :: "(nat \<Rightarrow> uuid) \<Rightarrow> uuid \<Rightarrow> time \<Rightarrow> fake \<Rightarrow> int \<times> fake" where
  "insertCompensationsLocked gen did now s =
     (let existing = length (filter is_comp (dagJobsLocked did s)) in
      if existing > 0 then (int existing, s)
      else
        let cs = comp_candidates did s
        in (int (length cs), snd (fold (comp_step gen did now) cs (None, s))))"

text \<open>
  The cancel branch of the policy, which \<open>CompensateDAG\<close> shares: cancel what has
  not started, insert the chain, and leave the header compensating, or failed when
  there is nothing to compensate. \<open>set_header\<close> writes the header the pointer \<open>w\<close>
  names.
\<close>

definition set_header :: "uuid \<Rightarrow> (fakeDAG \<Rightarrow> fakeDAG) \<Rightarrow> fake \<Rightarrow> fake" where
  "set_header did f s = (case map_of (dags s) did of None \<Rightarrow> s | Some w \<Rightarrow> putDAG (f w) s)"

definition announce_dag :: "uuid \<Rightarrow> fake \<Rightarrow> fake" where
  "announce_dag did s = (case map_of (dags s) did of None \<Rightarrow> s | Some w \<Rightarrow> changeDAG w s)"

definition start_compensation :: "(nat \<Rightarrow> uuid) \<Rightarrow> uuid \<Rightarrow> time \<Rightarrow> fake \<Rightarrow> fake" where
  "start_compensation gen did now s =
     (let (n, s1) = insertCompensationsLocked gen did now (cancelRemainingTasksLocked did now s)
      in if n = 0 then set_header did (\<lambda>w. w\<lparr>wState := DAGFailed, wCompletedAt := now\<rparr>) s1
         else set_header did (\<lambda>w. w\<lparr>wState := DAGCompensating\<rparr>) s1)"

definition policy_body ::
  "(nat \<Rightarrow> uuid) \<Rightarrow> uuid \<Rightarrow> fakeDAG \<Rightarrow> dagFailure list \<times> fake \<Rightarrow> dagFailure list \<times> fake" where
  "policy_body gen did w st =
     (let (out, s) = st; now = clock s; deadKeys = triggeringDeadTasksLocked w s in
      if wState w \<noteq> DAGRunning \<or> deadKeys = [] then st
      else
        let s1 = set_header did (\<lambda>w. w\<lparr>wFailureReason := ''dead tasks: '' @ join '', '' deadKeys, wUpdatedAt := now\<rparr>) s;
            s2 = (if wOnFailure w = OnFailureSuspend
                  then set_header did (\<lambda>w. w\<lparr>wState := DAGSuspended\<rparr>) s1
                  else start_compensation gen did now s1)
        in (out @ [\<lparr>dflDAGID = did, dflPolicy = wOnFailure w, dflDeadTasks = deadKeys\<rparr>], announce_dag did s2))"

definition ApplyFailurePolicy :: "(nat \<Rightarrow> uuid) \<Rightarrow> fake \<Rightarrow> (fake, dagFailure list) outcome" where
  "ApplyFailurePolicy gen s =
     (let (out, s') = range_fold (dags \<circ> snd) (policy_body gen) ([], s) in (Inr out, s'))"

section \<open>Completion\<close>

definition task_terminal :: "job_state \<Rightarrow> bool" where
  "task_terminal st = (case st of StateSucceeded \<Rightarrow> True | StateSkipped \<Rightarrow> True | StateDead \<Rightarrow> True | _ \<Rightarrow> False)"

definition comp_terminal :: "job_state \<Rightarrow> bool" where
  "comp_terminal st = (case st of StateSucceeded \<Rightarrow> True | StateCancelled \<Rightarrow> True | StateDead \<Rightarrow> True | _ \<Rightarrow> False)"

text \<open>What \<open>CompleteDAGs\<close> makes of one header: \<open>None\<close> when it is left alone.\<close>

definition completed_header :: "fakeDAG \<Rightarrow> fake \<Rightarrow> fakeDAG option" where
  "completed_header w s =
     (let now = clock s; tasks = dagJobsLocked (wID w) s in
      case wState w of
        DAGRunning \<Rightarrow>
          (let dead = filter (\<lambda>j. jState j = StateDead) tasks;
               deadKeys = map jTaskKey dead
           in if tasks = [] then None
              else if \<not> list_all (\<lambda>j. task_terminal (jState j)) tasks then None
              else if \<not> list_all (\<lambda>j. ignoredByAllDependentsLocked w (jTaskKey j) s) dead then None
              else if deadKeys \<noteq> []
              then Some (w\<lparr>wState := DAGFailed, wFailureReason := ''dead tasks: '' @ join '', '' (sort deadKeys),
                           wUpdatedAt := now, wCompletedAt := now\<rparr>)
              else Some (w\<lparr>wState := DAGSucceeded, wUpdatedAt := now, wCompletedAt := now\<rparr>))
      | DAGCompensating \<Rightarrow>
          (let comps = filter is_comp tasks;
               dead = list_ex (\<lambda>j. jState j = StateDead) comps
           in if comps = [] then None
              else if dead \<and> \<not> cancelRequested w
              then Some (w\<lparr>wState := DAGSuspended, wUpdatedAt := now\<rparr>)
              else if list_all (\<lambda>j. comp_terminal (jState j)) comps
              then Some (w\<lparr>wState := (if cancelRequested w then DAGCancelled else DAGFailed),
                           wUpdatedAt := now, wCompletedAt := now\<rparr>)
              else None)
      | _ \<Rightarrow> None)"

definition complete_body :: "uuid \<Rightarrow> fakeDAG \<Rightarrow> int \<times> fake \<Rightarrow> int \<times> fake" where
  "complete_body did w st =
     (let (settled, s) = st in
      case completed_header w s of
        None \<Rightarrow> st
      | Some w' \<Rightarrow> (settled + 1, changeDAG w' (putDAG w' s)))"

definition CompleteDAGs :: "fake \<Rightarrow> (fake, int) outcome" where
  "CompleteDAGs s =
     (let (settled, s') = range_fold (dags \<circ> snd) complete_body (0, s) in (Inr settled, s'))"

section \<open>Results\<close>

definition TaskResults :: "uuid \<Rightarrow> string list \<Rightarrow> fake \<Rightarrow> (string \<times> taskResult) list" where
  "TaskResults did keys s =
     fold (\<lambda>j out.
         if jState j \<noteq> StateSucceeded \<and> jState j \<noteq> StateSkipped then out
         else if keys \<noteq> [] \<and> \<not> sliceSet keys (jTaskKey j) then out
         else if jState j = StateSkipped
         then AList.update (jTaskKey j) \<lparr>trResult = None, trSkipped = True\<rparr> out
         else AList.update (jTaskKey j) \<lparr>trResult = clonePayload (jResult j), trSkipped = False\<rparr> out)
       (dagJobsLocked did s) []"

definition AckTaskResult :: "uuid \<Rightarrow> uuid \<Rightarrow> raw \<Rightarrow> fake \<Rightarrow> (fake, unit) outcome" where
  "AckTaskResult jid leaseToken result s =
     (case settle ''ack task result'' jid leaseToken s of
        Inl e \<Rightarrow> (Inl e, s)
      | Inr j \<Rightarrow>
          let now = clock s;
              j' = j\<lparr>jState := StateSucceeded, jResult := clonePayload result, jLeaseToken := Nil_uuid,
                     jLeaseUntil := zero_time, jCompletedAt := now\<rparr>
          in (Inr (), changeJob j' (bumpStat (jSource j) (jKind j) statProcessed 1 now (putJob j' s))))"

section \<open>Listings\<close>

definition cloneView :: "fakeDAG \<Rightarrow> dagView" where
  "cloneView w = dagView.truncate (w\<lparr>wMeta := cloneMeta (wMeta w)\<rparr>)"

definition GetDAG :: "uuid \<Rightarrow> fake \<Rightarrow> error + dagView" where
  "GetDAG did s = (case map_of (dags s) did of None \<Rightarrow> Inl (NotFound ''get dag'') | Some w \<Rightarrow> Inr (cloneView w))"

definition ListDAGs :: "dagFilter \<Rightarrow> int \<Rightarrow> int \<Rightarrow> fake \<Rightarrow> dagView list \<times> int" where
  "ListDAGs flt offset limit s =
     (let matched = sort_key (\<lambda>w. (- wCreatedAt w, - int (wID w)))
            (filter (\<lambda>w. (dfName flt = [] \<or> wName w = dfName flt) \<and>
                          (case dfState flt of None \<Rightarrow> True | Some st \<Rightarrow> wState w = st)) (map snd (dags s)))
      in (map cloneView (paginate offset limit matched), int (length matched)))"

definition DAGTasks :: "uuid \<Rightarrow> fake \<Rightarrow> error + job list" where
  "DAGTasks did s =
     (case map_of (dags s) did of
        None \<Rightarrow> Inl (NotFound ''dag tasks'') | Some w \<Rightarrow> Inr (map toJob (dagJobsLocked did s)))"

definition DAGDeps :: "uuid \<Rightarrow> fake \<Rightarrow> dagDep list" where
  "DAGDeps did s =
     (case map_of (dags s) did of
        None \<Rightarrow> [] | Some w \<Rightarrow> sort_key (\<lambda>d. (ddTaskKey d, ddDependsOnKey d)) (deps w))"

definition DAGNameStateCounts :: "fake \<Rightarrow> (string \<times> (dag_state \<times> int) list) list" where
  "DAGNameStateCounts s =
     fold (\<lambda>w out.
         let inner = the_default [] (map_of out (wName w))
         in AList.update (wName w)
              (AList.update (wState w) (the_default 0 (map_of inner (wState w)) + 1) inner) out)
       (map snd (dags s)) []"

definition DAGTaskCounts :: "uuid list \<Rightarrow> fake \<Rightarrow> (uuid \<times> (job_state \<times> int) list) list" where
  "DAGTaskCounts ids s =
     (if ids = [] then []
      else fold (\<lambda>j out.
          if jSource j \<noteq> SourceDAG \<or> jDAGID j \<notin> set ids then out
          else let inner = the_default [] (map_of out (jDAGID j))
               in AList.update (jDAGID j)
                    (AList.update (jState j) (the_default 0 (map_of inner (jState j)) + 1) inner) out)
        (map snd (jobs s)) [])"

definition FindDAGByKey :: "string \<Rightarrow> string \<Rightarrow> fake \<Rightarrow> error + uuid" where
  "FindDAGByKey name key s =
     (case find (live_dag name key) (map snd (dags s)) of
        None \<Rightarrow> Inl (NotFound ''find dag by key'') | Some w \<Rightarrow> Inr (wID w))"

section \<open>Manager verbs\<close>

definition unpause_task :: "fakeJob \<Rightarrow> fake \<Rightarrow> fake" where
  "unpause_task j s =
     (if jState j \<noteq> StatePaused then s
      else if jRunAt j > clock s
      then let j' = j\<lparr>jState := StateScheduled, jDeadlineAt := zero_time\<rparr> in changeJob j' (putJob j' s)
      else let j' = j\<lparr>jState := StatePending, jDeadlineAt := zero_time\<rparr>
           in changeJob j' (wake (jSource j) (jKind j) (putJob j' s)))"

definition RetryDAG :: "uuid \<Rightarrow> fake \<Rightarrow> (fake, unit) outcome" where
  "RetryDAG did s =
     (case map_of (dags s) did of
        None \<Rightarrow> (Inl (NotFound ''retry dag''), s)
      | Some w \<Rightarrow>
          if terminal w then (Inl (NotFound ''retry dag''), s)
          else
            let now = clock s;
                hasComps = list_ex is_comp (dagJobsLocked did s);
                s1 = fold (\<lambda>j st. if jState j \<noteq> StateDead \<or> (hasComps \<and> \<not> is_comp j) then st
                                   else resetToPending j st) (dagJobsLocked did s) s;
                s2 = fold unpause_task (dagJobsLocked did s1) s1;
                s3 = (if wState w = DAGSuspended \<or> wState w = DAGPaused
                      then let w' = (if hasComps then w\<lparr>wState := DAGCompensating\<rparr>
                                     else w\<lparr>wState := DAGRunning, wFailureReason := []\<rparr>)
                           in changeDAG w' (putDAG w' s2)
                      else s2)
            in (Inr (), set_header did (\<lambda>w. w\<lparr>wUpdatedAt := now\<rparr>) s3))"

definition pause_task :: "fakeJob \<Rightarrow> fake \<Rightarrow> fake" where
  "pause_task j s =
     (if jState j = StatePending \<or> jState j = StateScheduled
      then let j' = j\<lparr>jState := StatePaused\<rparr> in changeJob j' (putJob j' s)
      else s)"

definition PauseDAG :: "uuid \<Rightarrow> string \<Rightarrow> fake \<Rightarrow> (fake, unit) outcome" where
  "PauseDAG did reason s =
     (case map_of (dags s) did of
        None \<Rightarrow> (Inl (NotFound ''pause dag''), s)
      | Some w \<Rightarrow>
          if wState w \<noteq> DAGRunning then (Inl (NotFound ''pause dag''), s)
          else
            let s1 = fold pause_task (dagJobsLocked did s) s;
                w' = w\<lparr>wState := DAGPaused, wFailureReason := reason, wUpdatedAt := clock s\<rparr>
            in (Inr (), changeDAG w' (putDAG w' s1)))"

definition CompensateDAG :: "(nat \<Rightarrow> uuid) \<Rightarrow> uuid \<Rightarrow> fake \<Rightarrow> (fake, unit) outcome" where
  "CompensateDAG gen did s =
     (case map_of (dags s) did of
        None \<Rightarrow> (Inl (NotFound ''compensate dag''), s)
      | Some w \<Rightarrow>
          if wState w \<noteq> DAGRunning \<and> wState w \<noteq> DAGSuspended \<and> wState w \<noteq> DAGPaused
          then (Inl (NotFound ''compensate dag''), s)
          else
            (Inr (), announce_dag did (set_header did (\<lambda>w. w\<lparr>wUpdatedAt := clock s\<rparr>)
               (start_compensation gen did (clock s) s))))"

definition CancelDAG :: "uuid \<Rightarrow> fake \<Rightarrow> (fake, unit) outcome" where
  "CancelDAG did s =
     (case map_of (dags s) did of
        None \<Rightarrow> (Inl (NotFound ''cancel dag''), s)
      | Some w \<Rightarrow>
          if terminal w then (Inl (NotFound ''cancel dag''), s)
          else
            let now = clock s;
                s1 = cancelRemainingTasksLocked did now (putDAG (w\<lparr>cancelRequested := True\<rparr>) s);
                w' = (if wState w \<noteq> DAGCompensating
                      then w\<lparr>cancelRequested := True, wState := DAGCancelled, wCompletedAt := now, wUpdatedAt := now\<rparr>
                      else w\<lparr>cancelRequested := True, wUpdatedAt := now\<rparr>)
            in (Inr (), changeDAG w' (putDAG w' s1)))"

definition dag_vacuumable :: "time \<Rightarrow> fakeDAG \<Rightarrow> bool" where
  "dag_vacuumable cutoff w = (terminal w \<and> wCompletedAt w \<noteq> zero_time \<and> wCompletedAt w < cutoff)"

definition vacuum_dag_body :: "time \<Rightarrow> uuid \<Rightarrow> fakeDAG \<Rightarrow> int \<times> fake \<Rightarrow> int \<times> fake" where
  "vacuum_dag_body cutoff did w st =
     (let (removed, s) = st in
      if \<not> dag_vacuumable cutoff w then st
      else
        let s1 = snd (range_fold (jobs \<circ> snd) (delete_body (dag_of did)) (0, s))
        in (removed + 1, s1\<lparr>dags := AList.delete did (dags s1)\<rparr>))"

definition VacuumDAGs :: "duration \<Rightarrow> fake \<Rightarrow> (fake, int) outcome" where
  "VacuumDAGs retention s =
     (if retention \<le> 0 then (Inr 0, s)
      else let (removed, s') = range_fold (dags \<circ> snd) (vacuum_dag_body (clock s - retention)) (0, s)
           in (Inr removed, s'))"

section \<open>Frame facts\<close>

lemma putDAG_frame [simp]:
  "dags (putDAG w s) = AList.update (wID w) w (dags s)" "jobs (putDAG w s) = jobs s" "clock (putDAG w s) = clock s"
  "draws (putDAG w s) = draws s" "events (putDAG w s) = events s" "jobSeq (putDAG w s) = jobSeq s"
  "wf_jobs (putDAG w s) = wf_jobs s"
  by (simp_all add: putDAG_def wf_jobs_def)

lemma frame_jobSeq [simp, store_frame]:
  "jobSeq (recordAttempt jid a e t s) = jobSeq s" "jobSeq (bumpStat src kind f n t s) = jobSeq s"
  "jobSeq (wake src kind s) = jobSeq s" "jobSeq (notifyChange c s) = jobSeq s" "jobSeq (changeJob j s) = jobSeq s"
  "jobSeq (changeDAG w s) = jobSeq s" "jobSeq (putJob j s) = jobSeq s" "jobSeq (delJob jid s) = jobSeq s"
  by (simp_all add: recordAttempt_def bumpStat_def Let_def wake_def notifyChange_def changeJob_def
      changeDAG_def putJob_def delJob_def)

lemma set_header_frame [simp]:
  "jobs (set_header did f s) = jobs s" "clock (set_header did f s) = clock s" "draws (set_header did f s) = draws s"
  "wf_jobs (set_header did f s) = wf_jobs s"
  by (simp_all add: set_header_def split: option.split)

lemma announce_dag_frame [simp]:
  "jobs (announce_dag did s) = jobs s" "clock (announce_dag did s) = clock s" "dags (announce_dag did s) = dags s"
  "draws (announce_dag did s) = draws s" "wf_jobs (announce_dag did s) = wf_jobs s"
  by (simp_all add: announce_dag_def split: option.split)

text \<open>The header map is keyed by the header's own id.\<close>

definition wf_dags :: "fake \<Rightarrow> bool" where
  "wf_dags s = (wf_jobs s \<and> distinct_keys (dags s) \<and> (\<forall>k w. map_of (dags s) k = Some w \<longrightarrow> wID w = k))"

lemma wf_dagsD:
  "wf_dags s \<Longrightarrow> wf_jobs s" "wf_dags s \<Longrightarrow> distinct_keys (dags s)"
  "wf_dags s \<Longrightarrow> map_of (dags s) k = Some w \<Longrightarrow> wID w = k"
  by (auto simp: wf_dags_def)

lemma wf_dags_cong: "jobs s' = jobs s \<Longrightarrow> dags s' = dags s \<Longrightarrow> wf_dags s' = wf_dags s"
  by (simp add: wf_dags_def wf_jobs_def)

lemma wf_dags_putDAG: "wf_dags s \<Longrightarrow> wf_dags (putDAG w s)"
  by (auto simp: wf_dags_def distinct_keys_update AList.update_conv' split: if_splits)

lemma wf_dags_putJob: "wf_dags s \<Longrightarrow> job_ok j \<Longrightarrow> wf_dags (putJob j s)"
  by (auto simp: wf_dags_def wf_jobs_putJob)

lemma wf_dags_set_header: "wf_dags s \<Longrightarrow> wf_dags (set_header did f s)"
  by (auto simp: set_header_def wf_dags_putDAG split: option.split)

section \<open>Promotion reads the state the pass started from\<close>

text \<open>
  While a promotion pass runs, a job is either as it was or promoted. Neither
  changes what a dependency counts as, so whether a task is promoted does not
  depend on the order in which the jobs are visited.
\<close>

definition promoted_from :: "time \<Rightarrow> fakeJob \<Rightarrow> fakeJob \<Rightarrow> bool" where
  "promoted_from now a b = (b = a \<or> jState a = StateBlocked \<and> b = unblocked_job now a)"

lemma unblocked_job_fields [simp]:
  "jID (unblocked_job now j) = jID j" "jSource (unblocked_job now j) = jSource j" "jKind (unblocked_job now j) = jKind j"
  "jDAGID (unblocked_job now j) = jDAGID j" "jTaskKey (unblocked_job now j) = jTaskKey j"
  "jIgnoreDeadDeps (unblocked_job now j) = jIgnoreDeadDeps j" "jState (unblocked_job now j) \<noteq> StateBlocked"
  "jState (unblocked_job now j) \<noteq> StateActive" "jLeaseToken (unblocked_job now j) = jLeaseToken j"
  "jLeaseUntil (unblocked_job now j) = jLeaseUntil j"
  by (simp_all add: unblocked_job_def)

lemma promoted_from_same:
  "promoted_from now a b \<Longrightarrow> dag_of did b = dag_of did a \<and> jTaskKey b = jTaskKey a \<and>
     dep_ok ign (jState b) = dep_ok ign (jState a)"
  by (auto simp: promoted_from_def dag_of_def dep_ok_def unblocked_job_def split: if_splits)

definition during_promotion :: "fake \<Rightarrow> fake \<Rightarrow> bool" where
  "during_promotion s0 s = (clock s = clock s0 \<and> dags s = dags s0 \<and> wf_jobs s \<and>
     list_all2 (\<lambda>x y. fst y = fst x \<and> promoted_from (clock s0) (snd x) (snd y)) (jobs s0) (jobs s))"

lemma find_all2:
  assumes "list_all2 R xs ys" "\<And>x y. R x y \<Longrightarrow> P y = P x"
  shows "rel_option R (find P xs) (find P ys)"
  using assms(1) by (induction rule: list_all2_induct) (auto simp: assms(2))

lemma during_promotion_deps:
  assumes "during_promotion s0 s"
  shows "depsSatisfiedLocked w j s = depsSatisfiedLocked w j s0"
proof -
  let ?R = "\<lambda>a b. promoted_from (clock s0) a b"
  have R: "list_all2 ?R (map snd (jobs s0)) (map snd (jobs s))"
    using assms by (auto simp: during_promotion_def list.rel_map elim: list_all2_mono)
  have rel: "rel_option ?R (dagTaskLocked did key s0) (dagTaskLocked did key s)" for did key
    unfolding dagTaskLocked_def by (rule find_all2 [OF R]) (auto dest: promoted_from_same)
  have "(case dagTaskLocked did key s of None \<Rightarrow> False | Some dep \<Rightarrow> dep_ok ign (jState dep)) =
      (case dagTaskLocked did key s0 of None \<Rightarrow> False | Some dep \<Rightarrow> dep_ok ign (jState dep))" for did key ign
    using rel [of did key] promoted_from_same [where ign = ign]
    by (cases "dagTaskLocked did key s0"; cases "dagTaskLocked did key s") auto
  then show ?thesis by (simp add: depsSatisfiedLocked_def)
qed

lemma during_promotion_unblockable:
  assumes "during_promotion s0 s"
  shows "unblockable s j = unblockable s0 j"
proof -
  have "dags s = dags s0" using assms by (simp add: during_promotion_def)
  then show ?thesis unfolding unblockable_def during_promotion_deps [OF assms] by simp
qed

lemma list_all2_update:
  assumes "list_all2 (\<lambda>x y. fst y = fst x \<and> R (snd x) (snd y)) xs ys" "distinct_keys xs" "map_of xs k = Some a" "R a b"
  shows "list_all2 (\<lambda>x y. fst y = fst x \<and> R (snd x) (snd y)) xs (AList.update k b ys)"
  using assms
proof (induction xs ys rule: list_all2_induct)
  case (Cons x xs y ys)
  then show ?case by (cases x; cases y) (auto split: if_splits)
qed simp

lemma list_all2_lookup:
  assumes "list_all2 (\<lambda>x y. fst y = fst x \<and> R (snd x) (snd y)) xs ys" "map_of ys k = Some b"
  obtains a where "map_of xs k = Some a" "R a b"
  using assms
proof (induction xs ys arbitrary: thesis rule: list_all2_induct)
  case (Cons x xs y ys)
  then show ?case by (cases x; cases y) (auto split: if_splits)
qed simp

interpretation unb: pointwise_loop "jobs \<circ> snd" unblock_body "\<lambda>st. wf_jobs s0 \<and> during_promotion s0 (snd st)"
    "\<lambda>j. Some (if unblockable s0 j then unblocked_job (clock s0) j else j)"
  for s0
proof (unfold_locales, goal_cases)
  case (1 st k v)
  show ?case
  proof (cases "unblockable (snd st) v")
    case True
    let ?v = "unblocked_job (clock s0) v"
    from 1 have D: "during_promotion s0 (snd st)" and wf: "wf_jobs (snd st)" and L:
      "list_all2 (\<lambda>x y. fst y = fst x \<and> promoted_from (clock s0) (snd x) (snd y)) (jobs s0) (jobs (snd st))"
      by (auto simp: during_promotion_def)
    have at: "map_of (jobs (snd st)) k = Some v" using 1 by simp
    from wf_jobsD(2,3) [OF wf at] True have ID: "jID v = k" and ok: "job_ok ?v"
      by (auto simp: job_ok_def unblockable_def)
    from list_all2_lookup [OF L at] obtain a where a: "map_of (jobs s0) k = Some a" "promoted_from (clock s0) a v" .
    with True have "v = a" "jState a = StateBlocked" by (auto simp: promoted_from_def unblockable_def)
    then have "promoted_from (clock s0) a ?v" by (simp add: promoted_from_def)
    with 1 have L': "list_all2 (\<lambda>x y. fst y = fst x \<and> promoted_from (clock s0) (snd x) (snd y))
        (jobs s0) (AList.update k ?v (jobs (snd st)))"
      by (intro list_all2_update [OF L _ a(1)]) (simp_all add: wf_jobsD)
    have body: "snd (unblock_body k v st) = changeJob ?v (if jState ?v = StatePending
        then wake SourceDAG (jKind v) (putJob ?v (snd st)) else putJob ?v (snd st))"
      using True D by (simp add: unblock_body_def Let_def case_prod_unfold during_promotion_def)
    have "wf_jobs (putJob ?v (snd st))" by (rule wf_jobs_putJob [OF wf ok])
    then show ?thesis using L' ID D 1 by (simp add: during_promotion_def body)
  qed (use 1 in \<open>simp add: unblock_body_def case_prod_unfold Let_def\<close>)
next
  case (2 st k v)
  then have D: "during_promotion s0 (snd st)" and "jID v = k" by (auto simp: during_promotion_def dest: wf_jobsD)
  moreover have "k \<in> fst ` set (jobs (snd st))" using 2(2) by (force dest: map_of_SomeD)
  moreover have "clock (snd st) = clock s0" using D by (simp add: during_promotion_def)
  ultimately show ?case using 2 during_promotion_unblockable [OF D, of v]
    by (auto simp: unblock_body_def Let_def case_prod_unfold AList.update_conv' update_keys_in fun_eq_iff)
qed

lemma during_promotion_refl: "wf_jobs s \<Longrightarrow> during_promotion s s"
  by (auto simp: during_promotion_def promoted_from_def intro: list.rel_refl)

lemma PromoteUnblocked_result:
  assumes wf: "wf_jobs s"
  obtains s' where
    "PromoteUnblocked s = (Inr (int (length (filter (unblockable s) (map snd (jobs s))))), s')"
    "clock s' = clock s" "dags s' = dags s" "wf_jobs s'" "during_promotion s s'"
    "map_of (jobs s') = (\<lambda>k. map_option (\<lambda>j. if unblockable s j then unblocked_job (clock s) j else j) (map_of (jobs s) k))"
proof -
  let ?r = "range_fold (jobs \<circ> snd) unblock_body (0::int, s)"
  have I: "wf_jobs s \<and> during_promotion s (snd (0::int, s))" using wf by (simp add: during_promotion_refl)
  have d: "distinct_keys ((jobs \<circ> snd) (0::int, s))" using wf by (simp add: wf_jobsD)
  note L = unb.loop_get [OF I d]
  have "fst ?r = fst (0::int, s) + sum_list (map (\<lambda>(k, v). if unblockable s v then 1 else 0) ((jobs \<circ> snd) (0::int, s)))"
    by (rule unb.loop_acc [OF I d])
      (auto simp: unblock_body_def Let_def case_prod_unfold during_promotion_unblockable)
  then have cnt: "fst ?r = int (length (filter (unblockable s) (map snd (jobs s))))"
    by (simp add: sum_list_count_values)
  have D: "during_promotion s (snd ?r)" using L(2) by simp
  show thesis
  proof (rule that [of "snd ?r"])
    show "PromoteUnblocked s = (Inr (int (length (filter (unblockable s) (map snd (jobs s))))), snd ?r)"
      using cnt by (simp add: PromoteUnblocked_def case_prod_unfold Let_def)
    show "clock (snd ?r) = clock s" "dags (snd ?r) = dags s" "wf_jobs (snd ?r)" using D by (simp_all add: during_promotion_def)
    show "map_of (jobs (snd ?r)) = (\<lambda>k. map_option (\<lambda>j. if unblockable s j then unblocked_job (clock s) j else j) (map_of (jobs s) k))"
      using L(1) by (auto simp: fun_eq_iff split: option.splits bind_splits)
  qed (rule D)
qed

section \<open>The compensation chain\<close>

definition links :: "string list \<Rightarrow> dagDep list" where
  "links ks = map (\<lambda>(p, c). \<lparr>ddTaskKey = c, ddDependsOnKey = p\<rparr>) (zip ks (tl ks))"

definition opt_list :: "'a option \<Rightarrow> 'a list" where
  "opt_list x = (case x of None \<Rightarrow> [] | Some a \<Rightarrow> [a])"

lemma opt_list_simps [simp]: "opt_list None = []" "opt_list (Some a) = [a]"
  by (simp_all add: opt_list_def)

lemma links_Cons: "links (opt_list prev @ k # ks) =
    (case prev of None \<Rightarrow> [] | Some p \<Rightarrow> [\<lparr>ddTaskKey = k, ddDependsOnKey = p\<rparr>]) @ links (k # ks)"
  by (simp add: links_def opt_list_def split: option.split)

lemma comp_job_fields [simp]:
  "jID (comp_job w c f now jid sq) = jid" "jTaskKey (comp_job w c f now jid sq) = comp_key c"
  "jState (comp_job w c f now jid sq) = (if f then StatePending else StateBlocked)"
  "jKind (comp_job w c f now jid sq) = jCompensationKind c" "jDAGID (comp_job w c f now jid sq) = wID w"
  "jSource (comp_job w c f now jid sq) = SourceDAG" "jPayload (comp_job w c f now jid sq) = compensationPayload c"
  "job_ok (comp_job w c f now jid sq)"
  by (simp_all add: comp_job_def zeroJob_def clonePayload_def job_ok_def)

lemma comp_job_deps [simp]: "comp_job (w\<lparr>deps := ds\<rparr>) c f now jid sq = comp_job w c f now jid sq"
  by (simp add: comp_job_def)

lemma comp_step_result:
  assumes "map_of (dags s) did = Some w" "wID w = did"
  shows "fst (comp_step gen did now c (prev, s)) = Some (comp_key c)"
    "clock (snd (comp_step gen did now c (prev, s))) = clock s"
    "draws (snd (comp_step gen did now c (prev, s))) = Suc (draws s)"
    "jobSeq (snd (comp_step gen did now c (prev, s))) = jobSeq s + 1"
    "map_of (dags (snd (comp_step gen did now c (prev, s)))) = (map_of (dags s))(did \<mapsto>
       w\<lparr>deps := deps w @ (case prev of None \<Rightarrow> [] | Some p \<Rightarrow> [\<lparr>ddTaskKey = comp_key c, ddDependsOnKey = p\<rparr>])\<rparr>)"
    "jobs (snd (comp_step gen did now c (prev, s))) =
       AList.update (gen (draws s)) (comp_job w c (prev = None) now (gen (draws s)) (jobSeq s + 1)) (jobs s)"
  using assms by (simp_all add: comp_step_def Let_def nextSeq_def AList.update_conv' split: option.split)

lemma comp_step_wf: "wf_jobs s \<Longrightarrow> wf_jobs (snd (comp_step gen did now c (prev, s)))"
proof (cases "map_of (dags s) did")
  case (Some w)
  assume wf: "wf_jobs s"
  let ?j = "comp_job w c (prev = None) now (gen (draws s)) (jobSeq s + 1)"
  have "jobs (snd (comp_step gen did now c (prev, s))) = AList.update (gen (draws s)) ?j (jobs s)"
    using Some by (simp add: comp_step_def Let_def nextSeq_def)
  moreover have "wf_jobs (putJob ?j s)" by (rule wf_jobs_putJob [OF wf]) simp
  ultimately show ?thesis by (simp add: wf_jobs_def)
qed (simp add: comp_step_def)

lemma comp_fold:
  assumes "map_of (dags s) did = Some w" "wID w = did" "fresh_ids gen (length cs) s" "wf_jobs s"
    "r = fold (comp_step gen did now) cs (prev, s)"
  shows "clock (snd r) = clock s \<and> wf_jobs (snd r) \<and>
    map_of (dags (snd r)) = (map_of (dags s))(did \<mapsto> w\<lparr>deps := deps w @ links (opt_list prev @ map comp_key cs)\<rparr>) \<and>
    (\<forall>i<length cs. map_of (jobs (snd r)) (gen (draws s + i)) =
       Some (comp_job w (cs ! i) (prev = None \<and> i = 0) now (gen (draws s + i)) (jobSeq s + 1 + int i))) \<and>
    (\<forall>k. k \<notin> gen ` {draws s ..< draws s + length cs} \<longrightarrow> map_of (jobs (snd r)) k = map_of (jobs s) k)"
  using assms
proof (induction cs arbitrary: prev s w r)
  case Nil
  then show ?case by (auto simp: links_def opt_list_def split: option.split)
next
  case (Cons c cs)
  let ?t = "comp_step gen did now c (prev, s)" let ?s = "snd ?t"
  let ?w = "w\<lparr>deps := deps w @ (case prev of None \<Rightarrow> [] | Some p \<Rightarrow> [\<lparr>ddTaskKey = comp_key c, ddDependsOnKey = p\<rparr>])\<rparr>"
  note S = comp_step_result [OF Cons.prems(1,2), of gen now c prev]
  have t: "?t = (Some (comp_key c), ?s)" using S(1) by (simp add: prod_eq_iff)
  have inj: "inj_on gen {draws s ..< draws s + Suc (length cs)}"
    and none: "\<And>i. i \<in> {draws s ..< draws s + Suc (length cs)} \<Longrightarrow> map_of (jobs s) (gen i) = None"
    using Cons.prems(3) by (auto simp: fresh_ids_def)
  have ne: "gen (draws s) \<noteq> gen i" if "i \<in> {Suc (draws s) ..< Suc (draws s) + length cs}" for i
    using inj_onD [OF inj, of "draws s" i] that by auto
  have fresh: "fresh_ids gen (length cs) ?s"
    unfolding fresh_ids_def S(3,6) using none ne [THEN not_sym] inj_on_subset [OF inj]
    by (auto simp: AList.update_conv')
  have "map_of (dags ?s) did = Some ?w" "wID ?w = did" using S(5) Cons.prems(2) by simp_all
  note I = Cons.IH [OF this fresh comp_step_wf [OF Cons.prems(4)], of r "Some (comp_key c)"]
  have "r = fold (comp_step gen did now) cs (Some (comp_key c), ?s)" using Cons.prems(5) t by simp
  note I = I [OF this]
  have IH: "clock (snd r) = clock ?s" "wf_jobs (snd r)"
    "map_of (dags (snd r)) = (map_of (dags ?s))(did \<mapsto> ?w\<lparr>deps := deps ?w @ links (opt_list (Some (comp_key c)) @ map comp_key cs)\<rparr>)"
    "\<forall>i<length cs. map_of (jobs (snd r)) (gen (draws ?s + i)) =
       Some (comp_job ?w (cs ! i) (Some (comp_key c) = None \<and> i = 0) now (gen (draws ?s + i)) (jobSeq ?s + 1 + int i))"
    "\<forall>k. k \<notin> gen ` {draws ?s ..< draws ?s + length cs} \<longrightarrow> map_of (jobs (snd r)) k = map_of (jobs ?s) k"
    using I by blast+
  have IH4: "\<forall>i<length cs. map_of (jobs (snd r)) (gen (Suc (draws s) + i)) =
       Some (comp_job w (cs ! i) False now (gen (Suc (draws s) + i)) (jobSeq s + 2 + int i))"
    using IH(4) unfolding S(3,4) by (simp add: algebra_simps)
  have IH5: "\<forall>k. k \<notin> gen ` {Suc (draws s) ..< Suc (draws s) + length cs} \<longrightarrow> map_of (jobs (snd r)) k = map_of (jobs ?s) k"
    using IH(5) unfolding S(3) .
  have "map_of (jobs (snd r)) (gen (draws s + i)) =
      Some (comp_job w ((c # cs) ! i) (prev = None \<and> i = 0) now (gen (draws s + i)) (jobSeq s + 1 + int i))"
    if "i < length (c # cs)" for i
  proof (cases i)
    case 0
    have "gen (draws s) \<notin> gen ` {Suc (draws s) ..< Suc (draws s) + length cs}" using ne by (metis imageE)
    with IH5 0 show ?thesis by (simp add: S(6) AList.update_conv')
  next
    case (Suc i')
    with that IH4 show ?thesis by (simp add: algebra_simps)
  qed
  moreover have "map_of (jobs (snd r)) k = map_of (jobs s) k"
    if "k \<notin> gen ` {draws s ..< draws s + length (c # cs)}" for k
  proof -
    have "k \<noteq> gen (draws s)" "k \<notin> gen ` {Suc (draws s) ..< Suc (draws s) + length cs}" using that by auto
    with IH5 show ?thesis by (simp add: S(6) AList.update_conv')
  qed
  moreover have "map_of (dags (snd r)) = (map_of (dags s))(did \<mapsto> w\<lparr>deps := deps w @ links (opt_list prev @ map comp_key (c # cs))\<rparr>)"
    unfolding IH(3) S(5) by (simp add: links_Cons)
  ultimately show ?case using IH(1,2) S(2) by simp
qed

end
