(* ===== verification/Dag_Scheduler.thy ===== *)
theory Dag_Scheduler
  imports Fake_Dag
begin

text \<open>
  What the DAG scheduler guarantees (\<open>fake_dag.go\<close>): promotion releases exactly the
  tasks whose dependencies are satisfied, completion settles exactly the finished
  headers, compensation inserts one task per compensable success in reverse order
  of completion, signals are delivered once, and a header that reached a final
  state keeps it under every operation of the store.
\<close>

section \<open>Passes over the tasks of one DAG\<close>

text \<open>
  Cancelling, pausing, resuming and resetting the tasks of a DAG are loops over
  \<open>dagJobsLocked\<close> that rewrite the job they visit. A pass is described by the
  test \<open>P\<close> of the tasks it rewrites and the rewrite \<open>g\<close>.
\<close>

locale task_pass =
  fixes step :: "fakeJob \<Rightarrow> fake \<Rightarrow> fake" and P :: "fakeJob \<Rightarrow> bool" and g :: "fakeJob \<Rightarrow> fakeJob"
    and I :: "fake \<Rightarrow> bool"
  assumes step_jobs: "I s \<Longrightarrow> jobs (step j s) = (if P j then AList.update (jID j) (g j) (jobs s) else jobs s)"
    and step_frame: "dags (step j s) = dags s" "draws (step j s) = draws s" "clock (step j s) = clock s"
    and step_I: "I s \<Longrightarrow> I (step j s)"
    and g_id: "jID (g j) = jID j"
    and g_ok: "P j \<Longrightarrow> job_ok j \<Longrightarrow> job_ok (g j)"
begin

lemma pass_frame [simp]:
  "dags (fold step js s) = dags s" "draws (fold step js s) = draws s" "clock (fold step js s) = clock s"
  by (rule fold_frame; simp add: step_frame)+

lemma pass_keys: "I s \<Longrightarrow> jID ` set js \<subseteq> fst ` set (jobs s) \<Longrightarrow> map fst (jobs (fold step js s)) = map fst (jobs s)"
proof (induction js arbitrary: s)
  case (Cons j js)
  then have keys: "map fst (jobs (step j s)) = map fst (jobs s)" by (simp add: step_jobs update_keys_in)
  then have "fst ` set (jobs (step j s)) = fst ` set (jobs s)" by (metis list.set_map)
  with Cons.IH [OF step_I [OF Cons.prems(1)]] Cons.prems(2) keys show ?case by simp
qed simp

lemma pass_I: "I s \<Longrightarrow> I (fold step js s)"
  by (rule fold_preserves) (auto intro: step_I)

lemma pass_jobs:
  assumes "I s" "distinct (map jID js)"
  shows "map_of (jobs (fold step js s)) =
    (\<lambda>k. case find (\<lambda>j. jID j = k) js of
       Some j \<Rightarrow> if P j then Some (g j) else map_of (jobs s) k
     | None \<Rightarrow> map_of (jobs s) k)"
  using assms
proof (induction js arbitrary: s)
  case (Cons j js)
  have no: "find (\<lambda>x. jID x = jID j) js = None"
    using Cons.prems(2) by (auto simp: find_None_iff image_iff)
  show ?case using Cons.IH [OF step_I [OF Cons.prems(1)]] Cons.prems no
    by (auto simp: fun_eq_iff step_jobs AList.update_conv' split: option.splits)
qed simp

lemma pass_wf: "I s \<Longrightarrow> wf_jobs s \<Longrightarrow> (\<And>j. j \<in> set js \<Longrightarrow> job_ok j) \<Longrightarrow> wf_jobs (fold step js s)"
proof (induction js arbitrary: s)
  case (Cons j js)
  have "wf_jobs (step j s)"
  proof (cases "P j")
    case True
    have "wf_jobs (putJob (g j) s)" using Cons.prems True by (intro wf_jobs_putJob) (auto intro: g_ok)
    moreover have "jobs (step j s) = jobs (putJob (g j) s)"
      using True by (simp add: step_jobs [OF Cons.prems(1)] g_id)
    ultimately show ?thesis by (rule wf_jobs_cong [rotated])
  next
    case False
    then have "jobs (step j s) = jobs s" by (simp add: step_jobs [OF Cons.prems(1)])
    then show ?thesis by (rule wf_jobs_cong [OF _ Cons.prems(2)])
  qed
  from Cons.IH [OF step_I [OF Cons.prems(1)] this] Cons.prems(3) show ?case by simp
qed simp

end

lemma in_jobs: "wf_jobs s \<Longrightarrow> j \<in> snd ` set (jobs s) \<longleftrightarrow> map_of (jobs s) (jID j) = Some j"
  unfolding image_iff using wf_jobsD(1,2) [of s] by (metis map_of_in_set prod.collapse snd_conv)

lemma in_dagJobs:
  assumes "wf_jobs s"
  shows "j \<in> set (dagJobsLocked did s) \<longleftrightarrow> map_of (jobs s) (jID j) = Some j \<and> dag_of did j"
  using in_jobs [OF assms, of j] by (auto simp: dagJobsLocked_def)

lemma alist_eqI:
  assumes "map fst m' = map fst m" "distinct_keys m" "\<And>k. map_of m' k = map_option (f k) (map_of m k)"
  shows "m' = map (\<lambda>(k, v). (k, f k v)) m"
proof (rule nth_equalityI)
  show len: "length m' = length (map (\<lambda>(k, v). (k, f k v)) m)" using assms(1) by (metis length_map)
  fix i assume i: "i < length m'"
  have d: "distinct_keys m'" using assms(1,2) by simp
  have k: "fst (m' ! i) = fst (m ! i)" using arg_cong [OF assms(1), of "\<lambda>xs. xs ! i"] i len by simp
  have "map_of m' (fst (m' ! i)) = Some (snd (m' ! i))" "map_of m (fst (m ! i)) = Some (snd (m ! i))"
    by (rule map_of_is_SomeI [OF d], use i in simp) (rule map_of_is_SomeI [OF assms(2)], use i len in simp)
  with assms(3) [of "fst (m ! i)"] k i len show "m' ! i = map (\<lambda>(k, v). (k, f k v)) m ! i"
    by (simp add: case_prod_unfold prod_eq_iff)
qed

lemma map_jID_jobs: "wf_jobs s \<Longrightarrow> map jID (map snd (jobs s)) = map fst (jobs s)"
  by (simp add: wf_jobs_def)

lemma distinct_dagJobs: "wf_jobs s \<Longrightarrow> distinct (map jID (dagJobsLocked did s))"
proof -
  assume wf: "wf_jobs s"
  have "distinct (map jID (map snd (jobs s)))" unfolding map_jID_jobs [OF wf] by (rule wf_jobsD(1) [OF wf])
  then have "distinct (map jID (filter (dag_of did) (map snd (jobs s))))" by (rule distinct_map_filter)
  then show ?thesis unfolding dagJobsLocked_def by (simp add: distinct_map)
qed

lemma find_dagJobs:
  assumes "wf_jobs s"
  shows "find (\<lambda>j. jID j = k) (dagJobsLocked did s) =
    (case map_of (jobs s) k of None \<Rightarrow> None | Some j \<Rightarrow> if dag_of did j then Some j else None)"
proof (cases "find (\<lambda>j. jID j = k) (dagJobsLocked did s)")
  case None
  then have "\<forall>j\<in>set (dagJobsLocked did s). jID j \<noteq> k" by (simp add: find_None_iff)
  then have "\<not> dag_of did j" if "map_of (jobs s) k = Some j" for j
    using that wf_jobsD(2) [OF assms that] by (auto simp: in_dagJobs [OF assms])
  then show ?thesis using None by (simp split: option.split)
next
  case (Some j)
  then have "jID j = k" "j \<in> set (dagJobsLocked did s)" by (auto simp: find_Some_iff)
  then show ?thesis using Some by (auto simp: in_dagJobs [OF assms])
qed

context task_pass
begin

lemma dag_pass:
  assumes "I s" "wf_jobs s"
  shows "map_of (jobs (fold step (dagJobsLocked did s) s)) k =
      map_option (\<lambda>j. if dag_of did j \<and> P j then g j else j) (map_of (jobs s) k)"
    and "wf_jobs (fold step (dagJobsLocked did s) s)"
    and "map fst (jobs (fold step (dagJobsLocked did s) s)) = map fst (jobs s)"
proof -
  show "map fst (jobs (fold step (dagJobsLocked did s) s)) = map fst (jobs s)"
  proof (rule pass_keys [OF assms(1)])
    show "jID ` set (dagJobsLocked did s) \<subseteq> fst ` set (jobs s)"
      by (force simp: in_dagJobs [OF assms(2)] dest: map_of_SomeD)
  qed
  show "map_of (jobs (fold step (dagJobsLocked did s) s)) k =
      map_option (\<lambda>j. if dag_of did j \<and> P j then g j else j) (map_of (jobs s) k)"
    unfolding pass_jobs [OF assms(1) distinct_dagJobs [OF assms(2)]] find_dagJobs [OF assms(2)]
    by (simp split: option.split)
  show "wf_jobs (fold step (dagJobsLocked did s) s)"
    by (rule pass_wf [OF assms]) (auto simp: in_dagJobs [OF assms(2)] dest: wf_jobsD(3) [OF assms(2)])
qed

end
context task_pass
begin

lemma pass_list:
  assumes "I s" "wf_jobs s"
  shows "jobs (fold step (dagJobsLocked did s) s) =
    map (\<lambda>(k, j). (k, if dag_of did j \<and> P j then g j else j)) (jobs s)"
  by (rule alist_eqI [OF dag_pass(3) [OF assms] wf_jobsD(1) [OF assms(2)] dag_pass(1) [OF assms]])

end

text \<open>The passes of the store: cancel, pause, resume, and reset of dead tasks.\<close>

interpretation cancel: task_pass "cancel_task now" "\<lambda>j. cancellable (jState j)"
    "\<lambda>j. j\<lparr>jState := StateCancelled, jCompletedAt := now\<rparr>" "\<lambda>_. True" for now
  by unfold_locales (auto simp: cancel_task_def Let_def job_ok_def cancellable_def split: job_state.splits)

interpretation pause: task_pass pause_task "\<lambda>j. jState j = StatePending \<or> jState j = StateScheduled"
    "\<lambda>j. j\<lparr>jState := StatePaused\<rparr>" "\<lambda>_. True"
  by unfold_locales (auto simp: pause_task_def Let_def job_ok_def)

definition unpaused :: "time \<Rightarrow> fakeJob \<Rightarrow> fakeJob" where
  "unpaused now j = j\<lparr>jState := (if jRunAt j > now then StateScheduled else StatePending), jDeadlineAt := zero_time\<rparr>"

interpretation unpause: task_pass unpause_task "\<lambda>j. jState j = StatePaused" "unpaused now" "\<lambda>s. clock s = now" for now
  by unfold_locales (auto simp: unpause_task_def unpaused_def Let_def job_ok_def)

interpretation reset: task_pass "\<lambda>j st. if jState j \<noteq> StateDead \<or> (hasComps \<and> \<not> is_comp j) then st else resetToPending j st"
    "\<lambda>j. jState j = StateDead \<and> (hasComps \<longrightarrow> is_comp j)" "reset_job now" "\<lambda>s. clock s = now" for hasComps now
  by unfold_locales (auto simp: resetToPending_def reset_job_def Let_def job_ok_def)
section \<open>Promotion\<close>

text \<open>The invariants as list traversals, so that a concrete store is checked by evaluation.\<close>

lemma map_of_all:
  "distinct_keys m \<Longrightarrow> (\<forall>k v. map_of m k = Some v \<longrightarrow> Q k v) \<longleftrightarrow> list_all (\<lambda>(k, v). Q k v) m"
  unfolding list_all_iff by (metis (mono_tags, lifting) case_prodD case_prodI2 map_of_SomeD map_of_is_SomeI)

lemma wf_jobs_code [code]:
  "wf_jobs s = (distinct_keys (jobs s) \<and> list_all (\<lambda>(k, j). jID j = k \<and> job_ok j) (jobs s))"
  unfolding wf_jobs_def using map_of_all [of "jobs s" "\<lambda>k j. jID j = k \<and> job_ok j"] by blast

lemma wf_dags_code [code]:
  "wf_dags s = (wf_jobs s \<and> distinct_keys (dags s) \<and> list_all (\<lambda>(k, w). wID w = k) (dags s))"
  unfolding wf_dags_def using map_of_all [of "dags s" "\<lambda>k w. wID w = k"] by blast

text \<open>
  A two-task saga at instant 100: \<open>charge\<close>, which \<open>refund\<close> compensates, then
  \<open>ship\<close>, which depends on it. \<open>run_charged\<close> has the first task done.
\<close>

definition run_task :: "string \<Rightarrow> string \<Rightarrow> dagTask" where
  "run_task key undo =
     \<lparr>dtKey = key, dtKind = ''k-'' @ key, dtPayload = None, dtMaxAttempts = 3, dtCompensationKind = undo,
      dtCompensationPayload = None, dtSignalName = [], dtSleepFor = 0, dtIgnoreDeadDeps = False, dtDeadline = 0\<rparr>"

definition run_saga :: "string \<Rightarrow> dagParams" where
  "run_saga key =
     \<lparr>dgID = 7, dgName = ''saga'', dgOnFailure = None, dgIdempotencyKey = key, dgMeta = None,
      dgTasks = [run_task ''charge'' ''refund'', run_task ''ship'' ''unship''],
      dgDeps = [\<lparr>ddTaskKey = ''ship'', ddDependsOnKey = ''charge''\<rparr>]\<rparr>"

definition run_created :: fake where
  "run_created = snd (CreateDAG (\<lambda>n. 50 + n) (run_saga ''s1'') (NewFake 100))"

definition run_take :: "string \<Rightarrow> dequeueParams" where
  "run_take key = \<lparr>dpKind = ''k-'' @ key, dpLimit = 1, dpLease = 30, dpDefaultMaxAttempts = 5, dpOverrideDefault = False\<rparr>"

definition run_task_done :: "string \<Rightarrow> uuid \<Rightarrow> fake \<Rightarrow> fake" where
  "run_task_done key jid s =
     (let s1 = snd (DequeueBatch (\<lambda>n. 50 + n) SourceDAG (run_take key) s)
      in snd (AckTaskResult jid (50 + draws s) (Some ''ok'') s1))"

definition run_charged :: fake where
  "run_charged = run_task_done ''charge'' 50 run_created"

lemma dep_ok_iff:
  "dep_ok ign st \<longleftrightarrow> st \<in> {StateSucceeded, StateSkipped} \<or> ign \<and> st \<in> {StateDead, StateCancelled}"
  by (cases st) (simp_all add: dep_ok_def)

lemma unblockable_deps:
  "unblockable s j \<longleftrightarrow> jSource j = SourceDAG \<and> jState j = StateBlocked \<and>
     (\<exists>w. map_of (dags s) (jDAGID j) = Some w \<and> wState w \<in> {DAGRunning, DAGCompensating} \<and>
        (\<forall>d\<in>set (deps w). ddTaskKey d = jTaskKey j \<longrightarrow>
           (\<exists>t. dagTaskLocked (wID w) (ddDependsOnKey d) s = Some t \<and>
              (jState t \<in> {StateSucceeded, StateSkipped} \<or>
               jIgnoreDeadDeps j \<and> jState t \<in> {StateDead, StateCancelled}))))"
  unfolding unblockable_def depsSatisfiedLocked_def list_all_iff dep_ok_iff
  by (fastforce split: option.splits)

text \<open>
  C28: Promotion releases exactly the tasks that may run. One pass over the store
  promotes precisely the blocked tasks of running or compensating DAGs all of whose
  declared dependencies exist and are settled in the way the task accepts
  (succeeded or skipped; dead or cancelled only when it ignores dead
  dependencies), each to the state its kind dictates. It reports how many, changes
  no other job and no header, and leaves no promotable task behind, whatever the
  order in which the jobs are visited.
\<close>

theorem PromoteUnblocked_exact:
  assumes wf: "wf_jobs s"
  shows "\<exists>s'. PromoteUnblocked s = (Inr (int (length (filter (unblockable s) (map snd (jobs s))))), s') \<and>
    dags s' = dags s \<and>
    (\<forall>k j. map_of (jobs s) k = Some j \<longrightarrow>
       map_of (jobs s') k = Some (if unblockable s j then unblocked_job (clock s) j else j) \<and>
       (unblockable s j \<longleftrightarrow> jSource j = SourceDAG \<and> jState j = StateBlocked \<and>
         (\<exists>w. map_of (dags s) (jDAGID j) = Some w \<and> wState w \<in> {DAGRunning, DAGCompensating} \<and>
            (\<forall>d\<in>set (deps w). ddTaskKey d = jTaskKey j \<longrightarrow>
               (\<exists>t. dagTaskLocked (wID w) (ddDependsOnKey d) s = Some t \<and>
                  (jState t \<in> {StateSucceeded, StateSkipped} \<or>
                   jIgnoreDeadDeps j \<and> jState t \<in> {StateDead, StateCancelled})))))) \<and>
    dom (map_of (jobs s')) = dom (map_of (jobs s)) \<and>
    (\<forall>k j. map_of (jobs s') k = Some j \<longrightarrow> \<not> unblockable s' j)"
proof (rule PromoteUnblocked_result [OF wf])
  fix s'
  assume run: "PromoteUnblocked s = (Inr (int (length (filter (unblockable s) (map snd (jobs s))))), s')"
    and dags: "dags s' = dags s" and D: "during_promotion s s'"
    and M: "map_of (jobs s') = (\<lambda>k. map_option (\<lambda>j. if unblockable s j then unblocked_job (clock s) j else j) (map_of (jobs s) k))"
  have "\<not> unblockable s' j" if "map_of (jobs s') k = Some j" for k j
  proof -
    from that obtain j0 where "j = (if unblockable s j0 then unblocked_job (clock s) j0 else j0)"
      unfolding M by auto
    then show ?thesis unfolding during_promotion_unblockable [OF D]
      by (cases "unblockable s j0") (simp_all add: unblockable_def)
  qed
  moreover have "dom (map_of (jobs s')) = dom (map_of (jobs s))" by (auto simp: M dom_def)
  moreover have "map_of (jobs s') k = Some (if unblockable s j then unblocked_job (clock s) j else j)"
    if "map_of (jobs s) k = Some j" for k j using that by (simp add: M)
  ultimately show ?thesis using run dags unblockable_deps [of s] by blast
qed

theorem PromoteUnblocked_exact_witness:
  "\<exists>s'. PromoteUnblocked run_charged = (Inr 1, s') \<and> dags s' = dags run_charged"
proof -
  have "wf_jobs run_charged" "length (filter (unblockable run_charged) (map snd (jobs run_charged))) = 1" by code_simp+
  with PromoteUnblocked_exact [of run_charged] show ?thesis by auto
qed
section \<open>Completion\<close>

lemma completed_header_cong:
  assumes "jobs s' = jobs s" "clock s' = clock s"
  shows "completed_header w s' = completed_header w s"
  unfolding completed_header_def dagJobsLocked_def ignoredByAllDependentsLocked_def dagTaskLocked_def assms ..

lemma wf_dags_changes [simp]: "wf_dags (changeDAG w s) = wf_dags s" "wf_dags (changeJob j s) = wf_dags s"
  by (simp_all add: wf_dags_def)

lemma completed_header_states:
  assumes "completed_header w s = Some w'"
  shows "wID w' = wID w \<and> wName w' = wName w \<and> deps w' = deps w \<and> signals w' = signals w \<and>
    (wState w = DAGRunning \<and> wState w' \<in> {DAGSucceeded, DAGFailed} \<or>
     wState w = DAGCompensating \<and> wState w' \<in> {DAGSuspended, DAGFailed, DAGCancelled})"
  using assms by (auto simp: completed_header_def Let_def split: dag_state.splits if_splits)

lemma completed_header_other: "wState w \<notin> {DAGRunning, DAGCompensating} \<Longrightarrow> completed_header w s = None"
  by (cases "wState w") (simp_all add: completed_header_def Let_def)

definition completing :: "fake \<Rightarrow> int \<times> fake \<Rightarrow> bool" where
  "completing s0 st = (wf_dags (snd st) \<and> jobs (snd st) = jobs s0 \<and> clock (snd st) = clock s0)"

interpretation compl: pointwise_loop "dags \<circ> snd" complete_body "completing s0"
    "\<lambda>w. Some (the_default w (completed_header w s0))" for s0
proof (unfold_locales, goal_cases)
  case (1 st k w)
  then have "completed_header w (snd st) = completed_header w s0" "wID w = k"
    by (auto simp: completing_def intro: completed_header_cong dest: wf_dagsD)
  with 1 show ?case
    by (auto simp: completing_def complete_body_def case_prod_unfold Let_def wf_dags_putDAG split: option.split)
next
  case (2 st k w)
  then have c: "completed_header w (snd st) = completed_header w s0" "wID w = k"
    by (auto simp: completing_def intro: completed_header_cong dest: wf_dagsD)
  have k: "k \<in> fst ` set (dags (snd st))" using 2(2) by (force dest: map_of_SomeD)
  show ?case
  proof (cases "completed_header w s0")
    case None
    then show ?thesis using c 2 by (auto simp: complete_body_def case_prod_unfold Let_def)
  next
    case (Some w')
    then have "wID w' = k" using completed_header_states [OF Some] c by simp
    then show ?thesis using c Some k
      by (auto simp: complete_body_def case_prod_unfold Let_def AList.update_conv' update_keys_in)
  qed
qed

lemma CompleteDAGs_result:
  assumes wf: "wf_dags s"
  obtains s' where "CompleteDAGs s = (Inr (int (length (filter (\<lambda>w. completed_header w s \<noteq> None) (map snd (dags s))))), s')"
    "jobs s' = jobs s" "clock s' = clock s" "wf_dags s'"
    "map_of (dags s') = (\<lambda>k. map_option (\<lambda>w. the_default w (completed_header w s)) (map_of (dags s) k))"
proof -
  let ?r = "range_fold (dags \<circ> snd) complete_body (0::int, s)"
  have I: "completing s (0::int, s)" using wf by (simp add: completing_def)
  have d: "distinct_keys ((dags \<circ> snd) (0::int, s))" using wf by (simp add: wf_dagsD)
  note L = compl.loop_get [OF I d]
  have "fst ?r = fst (0::int, s) +
      sum_list (map (\<lambda>(k, w). if completed_header w s \<noteq> None then 1 else 0) ((dags \<circ> snd) (0::int, s)))"
  proof (rule compl.loop_acc [OF I d])
    fix st :: "int \<times> fake" and k w
    assume "completing s st"
    then have "completed_header w (snd st) = completed_header w s" by (auto simp: completing_def intro: completed_header_cong)
    then show "fst (complete_body k w st) = fst st + (if completed_header w s \<noteq> None then 1 else 0)"
      by (auto simp: complete_body_def case_prod_unfold Let_def split: option.split)
  qed
  then have cnt: "fst ?r = int (length (filter (\<lambda>w. completed_header w s \<noteq> None) (map snd (dags s))))"
    by (simp only: sum_list_count_values) simp
  show thesis
  proof (rule that [of "snd ?r"])
    show "CompleteDAGs s = (Inr (int (length (filter (\<lambda>w. completed_header w s \<noteq> None) (map snd (dags s))))), snd ?r)"
      using cnt by (simp add: CompleteDAGs_def case_prod_unfold Let_def)
    show "jobs (snd ?r) = jobs s" "clock (snd ?r) = clock s" "wf_dags (snd ?r)" using L(2) by (simp_all add: completing_def)
    show "map_of (dags (snd ?r)) = (\<lambda>k. map_option (\<lambda>w. the_default w (completed_header w s)) (map_of (dags s) k))"
      using L(1) by (auto simp: fun_eq_iff split: option.splits bind_splits)
  qed
qed

lemma task_terminal_iff: "task_terminal st \<longleftrightarrow> st \<in> {StateSucceeded, StateSkipped, StateDead}"
  by (cases st) (simp_all add: task_terminal_def)

lemma comp_terminal_iff: "comp_terminal st \<longleftrightarrow> st \<in> {StateSucceeded, StateCancelled, StateDead}"
  by (cases st) (simp_all add: comp_terminal_def)
definition tolerated :: "uuid \<Rightarrow> fakeDAG \<Rightarrow> fake \<Rightarrow> fakeJob \<Rightarrow> bool" where
  "tolerated did w s j = ((\<exists>d\<in>set (deps w). ddDependsOnKey d = jTaskKey j) \<and>
     (\<forall>d\<in>set (deps w). ddDependsOnKey d = jTaskKey j \<longrightarrow>
        (case dagTaskLocked did (ddTaskKey d) s of None \<Rightarrow> False | Some t \<Rightarrow> jIgnoreDeadDeps t)))"

lemma ignored_iff: "wID w = did \<Longrightarrow> ignoredByAllDependentsLocked w (jTaskKey j) s = tolerated did w s j"
  by (auto simp: ignoredByAllDependentsLocked_def tolerated_def Let_def list_all_iff filter_empty_conv split: option.splits)

text \<open>
  The contract of completion (\<open>driver/dag.go\<close>), over the set of tasks: the state a
  header is settled on, if any.
\<close>

definition dag_verdict :: "uuid \<Rightarrow> fakeDAG \<Rightarrow> fake \<Rightarrow> dag_state option" where
  "dag_verdict did w s =
     (let ts = set (dagJobsLocked did s); cs = {j \<in> ts. is_comp j} in
      case wState w of
        DAGRunning \<Rightarrow>
          if ts \<noteq> {} \<and> (\<forall>j\<in>ts. jState j \<in> {StateSucceeded, StateSkipped} \<or> jState j = StateDead \<and> tolerated did w s j)
          then Some (if \<exists>j\<in>ts. jState j = StateDead then DAGFailed else DAGSucceeded)
          else None
      | DAGCompensating \<Rightarrow>
          if cs = {} then None
          else if (\<exists>j\<in>cs. jState j = StateDead) \<and> \<not> cancelRequested w then Some DAGSuspended
          else if \<forall>j\<in>cs. jState j \<in> {StateSucceeded, StateCancelled, StateDead}
          then Some (if cancelRequested w then DAGCancelled else DAGFailed)
          else None
      | _ \<Rightarrow> None)"

lemma completed_header_verdict:
  assumes id: "wID w = did"
  shows "map_option wState (completed_header w s) = dag_verdict did w s"
proof (cases "wState w")
  case DAGRunning
  then show ?thesis unfolding completed_header_def dag_verdict_def Let_def id
    by (auto simp: list_all_iff task_terminal_iff ignored_iff [OF id] filter_empty_conv)
      (metis job_state.distinct)
next
  case DAGCompensating
  then show ?thesis unfolding completed_header_def dag_verdict_def Let_def id
    by (auto simp: list_all_iff list_ex_iff comp_terminal_iff filter_empty_conv)
qed (simp_all add: completed_header_def dag_verdict_def Let_def)


text \<open>\<open>run_shipped\<close>: both tasks of the saga done.\<close>

definition run_shipped :: fake where
  "run_shipped = run_task_done ''ship'' 51 (snd (PromoteUnblocked run_charged))"

section \<open>Compensation\<close>

lemma cancelRemaining_list:
  assumes "wf_jobs s"
  shows "jobs (cancelRemainingTasksLocked did now s) =
    map (\<lambda>(k, j). (k, if dag_of did j \<and> cancellable (jState j)
                      then j\<lparr>jState := StateCancelled, jCompletedAt := now\<rparr> else j)) (jobs s)"
    and "wf_jobs (cancelRemainingTasksLocked did now s)"
    and "dags (cancelRemainingTasksLocked did now s) = dags s" "draws (cancelRemainingTasksLocked did now s) = draws s"
    "clock (cancelRemainingTasksLocked did now s) = clock s"
  unfolding cancelRemainingTasksLocked_def
  using cancel.pass_list [OF TrueI assms] cancel.dag_pass(2) [OF TrueI assms] by simp_all

lemma filter_map_fixed:
  assumes "\<And>x. R (h x) = R x" "\<And>x. R x \<Longrightarrow> h x = x"
  shows "filter R (map snd (map (\<lambda>(k, v). (k, h v)) m)) = filter R (map snd m)"
  using assms by (induction m) auto

lemma comp_candidates_alt:
  "comp_candidates did s =
     sort_key (\<lambda>j. (- jCompletedAt j, - seq j)) (sort_key seq
       (filter (\<lambda>j. dag_of did j \<and> \<not> is_comp j \<and> jState j = StateSucceeded \<and> jCompensationKind j \<noteq> []) (map snd (jobs s))))"
  by (simp add: comp_candidates_def dagJobsLocked_def filter_sort conj_commute conj_left_commute)

lemma comp_candidates_cancel:
  assumes "wf_jobs s"
  shows "comp_candidates did (cancelRemainingTasksLocked did now s) = comp_candidates did s"
proof -
  have *: "filter (\<lambda>j. dag_of did j \<and> \<not> is_comp j \<and> jState j = StateSucceeded \<and> jCompensationKind j \<noteq> [])
        (map snd (jobs (cancelRemainingTasksLocked did now s))) =
      filter (\<lambda>j. dag_of did j \<and> \<not> is_comp j \<and> jState j = StateSucceeded \<and> jCompensationKind j \<noteq> []) (map snd (jobs s))"
    unfolding cancelRemaining_list(1) [OF assms]
    by (rule filter_map_fixed) (auto simp: dag_of_def is_comp_def cancellable_def)
  show ?thesis unfolding comp_candidates_alt * ..
qed

lemma no_comps_cancel:
  assumes "wf_jobs s" "\<forall>j\<in>set (dagJobsLocked did s). \<not> is_comp j"
  shows "filter is_comp (dagJobsLocked did (cancelRemainingTasksLocked did now s)) = []"
  using assms(2) unfolding dagJobsLocked_def cancelRemaining_list(1) [OF assms(1)]
  by (auto simp: filter_empty_conv dag_of_def is_comp_def split: if_splits)

text \<open>The order in which successes are undone: the newest completion first, ties by newest insertion.\<close>

definition undone_before :: "fakeJob \<Rightarrow> fakeJob \<Rightarrow> bool" where
  "undone_before a b = (jCompletedAt b < jCompletedAt a \<or> jCompletedAt b = jCompletedAt a \<and> seq b \<le> seq a)"

lemma comp_candidates_order: "sorted_wrt undone_before (comp_candidates did s)"
proof -
  have "sorted_wrt (\<lambda>a b. (- jCompletedAt a, - seq a) \<le> (- jCompletedAt b, - seq b)) (comp_candidates did s)"
    using sorted_sort_key [of "\<lambda>j. (- jCompletedAt j, - seq j)"] unfolding comp_candidates_def by (simp add: sorted_map)
  then show ?thesis by (rule sorted_wrt_mono_rel [rotated]) (auto simp: undone_before_def less_eq_prod_def)
qed

lemma comp_candidates_set:
  "set (comp_candidates did s) = {j \<in> set (dagJobsLocked did s). \<not> is_comp j \<and> jState j = StateSucceeded \<and> jCompensationKind j \<noteq> []}"
  by (auto simp: comp_candidates_def)

lemma start_compensation_result:
  fixes now :: time
  assumes wf: "wf_dags s" and at: "map_of (dags s) did = Some w"
    and none: "\<forall>j\<in>set (dagJobsLocked did s). \<not> is_comp j"
    and fresh: "fresh_ids gen (length (comp_candidates did s)) s"
  defines "cs \<equiv> comp_candidates did s" and "r \<equiv> start_compensation gen did now s"
  shows "\<exists>w'. map_of (dags r) = (map_of (dags s))(did \<mapsto> w') \<and> wID w' = did \<and>
      wState w' = (if cs = [] then DAGFailed else DAGCompensating) \<and>
      deps w' = deps w @ links (map comp_key cs)"
    and "\<forall>i<length cs. \<exists>sq. map_of (jobs r) (gen (draws s + i)) = Some (comp_job w (cs ! i) (i = 0) now (gen (draws s + i)) sq)"
    and "\<forall>k j. map_of (jobs s) k = Some j \<longrightarrow> map_of (jobs r) k =
      Some (if dag_of did j \<and> cancellable (jState j) then j\<lparr>jState := StateCancelled, jCompletedAt := now\<rparr> else j)"
proof -
  let ?s1 = "cancelRemainingTasksLocked did now s"
  note wfj = wf_dagsD(1) [OF wf]
  note C = cancelRemaining_list [OF wfj, where did = did and now = now]
  have id: "wID w = did" by (rule wf_dagsD(3) [OF wf at])
  have M: "map_of (jobs ?s1) k = map_option (\<lambda>j. if dag_of did j \<and> cancellable (jState j)
      then j\<lparr>jState := StateCancelled, jCompletedAt := now\<rparr> else j) (map_of (jobs s) k)" for k
    unfolding C(1) by (rule map_of_map_snd)
  have fresh1: "fresh_ids gen (length cs) ?s1" using fresh unfolding cs_def fresh_ids_def M C(4) by simp
  let ?f = "fold (comp_step gen did now) cs (None, ?s1)"
  have F: "map_of (dags (snd ?f)) = (map_of (dags s))(did \<mapsto> w\<lparr>deps := deps w @ links (map comp_key cs)\<rparr>)"
    "\<forall>i<length cs. map_of (jobs (snd ?f)) (gen (draws s + i)) =
       Some (comp_job w (cs ! i) (i = 0) now (gen (draws s + i)) (jobSeq ?s1 + 1 + int i))"
    "\<forall>k. k \<notin> gen ` {draws s ..< draws s + length cs} \<longrightarrow> map_of (jobs (snd ?f)) k = map_of (jobs ?s1) k"
    using comp_fold [OF _ id fresh1 C(2) refl, of now None] at unfolding C(3,4) by simp_all
  have ins: "insertCompensationsLocked gen did now ?s1 = (int (length cs), snd ?f)"
    unfolding insertCompensationsLocked_def no_comps_cancel [OF wfj none] comp_candidates_cancel [OF wfj] cs_def
    by (simp add: Let_def)
  have r: "r = set_header did (if cs = [] then (\<lambda>w. w\<lparr>wState := DAGFailed, wCompletedAt := now\<rparr>)
      else (\<lambda>w. w\<lparr>wState := DAGCompensating\<rparr>)) (snd ?f)"
    unfolding r_def start_compensation_def ins by simp
  have jr: "jobs r = jobs (snd ?f)" unfolding r by (rule set_header_frame)
  show "\<exists>w'. map_of (dags r) = (map_of (dags s))(did \<mapsto> w') \<and> wID w' = did \<and>
      wState w' = (if cs = [] then DAGFailed else DAGCompensating) \<and> deps w' = deps w @ links (map comp_key cs)"
    unfolding r set_header_def F(1)
    by (rule exI [of _ "if cs = [] then w\<lparr>deps := deps w @ links [], wState := DAGFailed, wCompletedAt := now\<rparr>
          else w\<lparr>deps := deps w @ links (map comp_key cs), wState := DAGCompensating\<rparr>"])
      (simp add: id F(1) AList.update_conv')
  show "\<forall>i<length cs. \<exists>sq. map_of (jobs r) (gen (draws s + i)) = Some (comp_job w (cs ! i) (i = 0) now (gen (draws s + i)) sq)"
    unfolding jr using F(2) by blast
  show "\<forall>k j. map_of (jobs s) k = Some j \<longrightarrow> map_of (jobs r) k =
      Some (if dag_of did j \<and> cancellable (jState j) then j\<lparr>jState := StateCancelled, jCompletedAt := now\<rparr> else j)"
  proof (intro allI impI)
    fix k j assume k: "map_of (jobs s) k = Some j"
    have "k \<notin> gen ` {draws s ..< draws s + length cs}" using fresh k unfolding fresh_ids_def cs_def by auto
    then show "map_of (jobs r) k =
      Some (if dag_of did j \<and> cancellable (jState j) then j\<lparr>jState := StateCancelled, jCompletedAt := now\<rparr> else j)"
      unfolding jr using F(3) k by (simp add: M)
  qed
qed

section \<open>Two ways a DAG is stranded\<close>

text \<open>
  A handler that answers a compensation with \<open>dag.Skip\<close> settles it as skipped. No
  completion pass counts a skipped compensation as settled, so the header stays
  compensating for good, although nothing of the chain is left to run.
\<close>

theorem skipped_compensation_stranded:
  assumes wf: "wf_dags s" and at: "map_of (dags s) did = Some w" and st: "wState w = DAGCompensating"
    and skip: "j \<in> set (dagJobsLocked did s)" "is_comp j" "jState j = StateSkipped"
    and alive: "\<forall>j\<in>set (dagJobsLocked did s). jState j \<noteq> StateDead"
  shows "map_of (dags (snd (CompleteDAGs s))) did = Some w"
proof -
  from st skip alive have "dag_verdict did w s = None" by (auto simp: dag_verdict_def Let_def)
  then have "completed_header w s = None"
    using completed_header_verdict [OF wf_dagsD(3) [OF wf at], of s] by simp
  then have here: "map_option (\<lambda>w. the_default w (completed_header w s)) (map_of (dags s) did) = Some w" using at by simp
  show ?thesis
  proof (rule CompleteDAGs_result [OF wf])
    fix s'
    assume "CompleteDAGs s = (Inr (int (length (filter (\<lambda>w. completed_header w s \<noteq> None) (map snd (dags s))))), s')"
      and M: "map_of (dags s') = (\<lambda>k. map_option (\<lambda>w. the_default w (completed_header w s)) (map_of (dags s) k))"
    then have "snd (CompleteDAGs s) = s'" by (simp only: snd_conv)
    then show ?thesis using fun_cong [OF M, of did] here by (simp only:)
  qed
qed

text \<open>
  Resuming a paused DAG puts an overdue timer back as pending, a state no pass of
  the scheduler looks at for a timer and no worker leases, since the internal
  kinds have no handler.
\<close>

lemma RetryDAG_jobs:
  assumes "wf_dags s" "map_of (dags s) did = Some w" "\<not> terminal w"
  shows "fst (RetryDAG did s) = Inr ()"
    and "map_of (jobs (snd (RetryDAG did s))) k = map_option (\<lambda>j.
      let j1 = (if dag_of did j \<and> jState j = StateDead \<and> (list_ex is_comp (dagJobsLocked did s) \<longrightarrow> is_comp j)
                then reset_job (clock s) j else j)
      in if dag_of did j1 \<and> jState j1 = StatePaused then unpaused (clock s) j1 else j1) (map_of (jobs s) k)"
proof -
  note wf = wf_dagsD(1) [OF assms(1)]
  let ?h = "list_ex is_comp (dagJobsLocked did s)"
  let ?s1 = "fold (\<lambda>j st. if jState j \<noteq> StateDead \<or> (?h \<and> \<not> is_comp j) then st else resetToPending j st) (dagJobsLocked did s) s"
  let ?s2 = "fold unpause_task (dagJobsLocked did ?s1) ?s1"
  note R = reset.dag_pass [OF refl wf, where hasComps = ?h and did = did]
  have clk: "clock ?s1 = clock s" by (rule reset.pass_frame(3))
  have U: "map_of (jobs ?s2) k = map_option (\<lambda>j. if dag_of did j \<and> jState j = StatePaused
      then unpaused (clock s) j else j) (map_of (jobs ?s1) k)"
    using unpause.dag_pass(1) [OF refl R(2), of did k] unfolding clk .
  have J: "jobs (snd (RetryDAG did s)) = jobs ?s2" "fst (RetryDAG did s) = Inr ()"
    using assms(2,3) by (simp_all add: RetryDAG_def Let_def)
  show "fst (RetryDAG did s) = Inr ()" by (rule J)
  show "map_of (jobs (snd (RetryDAG did s))) k = map_option (\<lambda>j.
      let j1 = (if dag_of did j \<and> jState j = StateDead \<and> (?h \<longrightarrow> is_comp j) then reset_job (clock s) j else j)
      in if dag_of did j1 \<and> jState j1 = StatePaused then unpaused (clock s) j1 else j1) (map_of (jobs s) k)"
    unfolding J(1) U R(1) by (simp add: option.map_comp comp_def Let_def)
qed

theorem retried_sleep_stranded:
  assumes wf: "wf_dags s" and at: "map_of (dags s) did = Some w" "\<not> terminal w"
    and j: "map_of (jobs s) k = Some j" "dag_of did j" "jKind j = KindSleep" "jState j = StatePaused" "jRunAt j \<le> clock s"
  shows "\<exists>j'. map_of (jobs (snd (RetryDAG did s))) k = Some j' \<and> jKind j' = KindSleep \<and> jState j' = StatePending \<and>
    (\<forall>s'. \<not> sleep_due s' j' \<and> \<not> unblockable s' j' \<and> \<not> deliverable j')"
  using RetryDAG_jobs(2) [OF wf at, of k] j
  by (auto simp: unpaused_def sleep_due_def unblockable_def deliverable_def Let_def)

end
