(* ===== verification/Dag_Lifecycle.thy ===== *)
theory Dag_Lifecycle
  imports Dag_Scheduler
begin

text \<open>
  The lifecycle of a DAG header under every operation that can touch it: creation,
  signals, the scheduler passes, the manager verbs, and the worker operations on
  its tasks, interleaved in any order (\<open>dag_step\<close>). What an operation may do to a
  header is \<open>header_kept\<close>: its identity never changes, and once its state is final
  neither its state, outcome nor edges do.
\<close>

section \<open>What may change in a header\<close>

definition header_kept :: "fakeDAG \<Rightarrow> fakeDAG \<Rightarrow> bool" where
  "header_kept w w' =
     (wID w' = wID w \<and> wName w' = wName w \<and> wOnFailure w' = wOnFailure w \<and>
      wIdempotencyKey w' = wIdempotencyKey w \<and> wMeta w' = wMeta w \<and> wCreatedAt w' = wCreatedAt w \<and>
      (terminal w \<longrightarrow> wState w' = wState w \<and> wFailureReason w' = wFailureReason w \<and>
         wCompletedAt w' = wCompletedAt w \<and> deps w' = deps w \<and> cancelRequested w' = cancelRequested w))"

lemma terminal_iff: "terminal w \<longleftrightarrow> wState w \<in> {DAGSucceeded, DAGFailed, DAGCancelled}"
  by (cases "wState w") (simp_all add: terminal_def)

lemma header_kept_refl [simp]: "header_kept w w"
  by (simp add: header_kept_def)

lemma header_kept_trans: "header_kept a b \<Longrightarrow> header_kept b c \<Longrightarrow> header_kept a c"
  by (auto simp: header_kept_def terminal_iff)

definition dag_evolves :: "fake \<Rightarrow> fake \<Rightarrow> bool" where
  "dag_evolves s s' = (\<forall>k. (case map_of (dags s) k of
       None \<Rightarrow> map_of (dags s') k = None
     | Some w \<Rightarrow> (\<exists>w'. map_of (dags s') k = Some w' \<and> header_kept w w')))"

lemma dag_evolves_same: "dags s' = dags s \<Longrightarrow> dag_evolves s s'"
  by (simp add: dag_evolves_def split: option.split)

lemma dag_evolves_None: "dag_evolves s s' \<Longrightarrow> map_of (dags s) k = None \<Longrightarrow> map_of (dags s') k = None"
  unfolding dag_evolves_def by (drule spec [of _ k]) simp

lemma dag_evolves_Some:
  "dag_evolves s s' \<Longrightarrow> map_of (dags s) k = Some w \<Longrightarrow> \<exists>w'. map_of (dags s') k = Some w' \<and> header_kept w w'"
  unfolding dag_evolves_def by (drule spec [of _ k]) simp

lemma dag_evolves_trans:
  assumes "dag_evolves a b" "dag_evolves b c"
  shows "dag_evolves a c"
  unfolding dag_evolves_def
proof (rule allI, goal_cases)
  case (1 k)
  show ?case
  proof (cases "map_of (dags a) k")
    case None
    then show ?thesis using dag_evolves_None [OF assms(2) dag_evolves_None [OF assms(1) None]] by simp
  next
    case (Some w)
    from dag_evolves_Some [OF assms(1) Some] obtain w1 where w1: "map_of (dags b) k = Some w1" "header_kept w w1" by blast
    from dag_evolves_Some [OF assms(2) w1(1)] obtain w2 where "map_of (dags c) k = Some w2" "header_kept w1 w2" by blast
    then show ?thesis using Some header_kept_trans [OF w1(2)] by auto
  qed
qed

text \<open>The header map is keyed by the id of the header, and stays so.\<close>

definition dag_ids :: "fake \<Rightarrow> bool" where
  "dag_ids s = (\<forall>k w. map_of (dags s) k = Some w \<longrightarrow> wID w = k)"

lemma dag_idsD: "dag_ids s \<Longrightarrow> map_of (dags s) k = Some w \<Longrightarrow> wID w = k"
  by (simp add: dag_ids_def)

lemma evolves_ids: "dag_ids s \<Longrightarrow> dag_evolves s s' \<Longrightarrow> dag_ids s'"
  unfolding dag_ids_def
proof (intro allI impI)
  fix k w' assume ids: "\<forall>k w. map_of (dags s) k = Some w \<longrightarrow> wID w = k" and ev: "dag_evolves s s'"
    and at: "map_of (dags s') k = Some w'"
  then obtain w where w: "map_of (dags s) k = Some w" using dag_evolves_None [OF ev, of k] by fastforce
  with dag_evolves_Some [OF ev w] at ids show "wID w' = k" by (auto simp: header_kept_def)
qed

lemma evolves_put:
  assumes "map_of (dags s) (wID w') = Some w" "header_kept w w'"
  shows "dag_evolves s (putDAG w' s)"
  using assms by (auto simp: dag_evolves_def AList.update_conv' split: option.split)

lemma evolves_set_header:
  assumes "dag_ids s" "\<And>w. map_of (dags s) did = Some w \<Longrightarrow> header_kept w (f w)"
  shows "dag_evolves s (set_header did f s)"
proof (cases "map_of (dags s) did")
  case (Some w)
  have "wID (f w) = did" using assms(2) [OF Some] dag_idsD [OF assms(1) Some] by (simp add: header_kept_def)
  with Some assms(2) [OF Some] show ?thesis by (simp add: set_header_def evolves_put)
qed (simp add: set_header_def dag_evolves_same)

section \<open>The passes\<close>

text \<open>A loop over headers or tasks evolves the store when each turn does.\<close>

lemma range_fold_evolves:
  assumes "dag_ids s" "\<And>k v st. dag_ids (snd st) \<Longrightarrow> map_of (get st) k = Some v \<Longrightarrow> dag_evolves (snd st) (snd (body k v st))"
  shows "dag_evolves s (snd (range_fold get body (n, s)))"
proof -
  have "dag_evolves s (snd (range_fold get body (n, s))) \<and> dag_ids (snd (range_fold get body (n, s)))"
    by (rule range_fold_inv [where I = "\<lambda>st. dag_evolves s (snd st) \<and> dag_ids (snd st)"])
      (use assms in \<open>auto intro: dag_evolves_same dag_evolves_trans evolves_ids\<close>)
  then show ?thesis by simp
qed

lemma evolves_cancel: "dag_evolves s (cancelRemainingTasksLocked did now s)"
  unfolding cancelRemainingTasksLocked_def by (rule dag_evolves_same) simp

text \<open>A header that is not final, at the id it is stored under.\<close>

definition open_at :: "uuid \<Rightarrow> fake \<Rightarrow> bool" where
  "open_at did s = (dag_ids s \<and> (\<exists>w. map_of (dags s) did = Some w \<and> \<not> terminal w))"

lemma comp_step_evolves:
  assumes "open_at did (snd st)"
  shows "dag_evolves (snd st) (snd (comp_step gen did now c st)) \<and> open_at did (snd (comp_step gen did now c st))"
proof -
  obtain prev s where st: "st = (prev, s)" by force
  from assms st obtain w where w: "map_of (dags s) did = Some w" "\<not> terminal w" "dag_ids s" by (auto simp: open_at_def)
  have id: "wID w = did" by (rule dag_idsD [OF w(3,1)])
  have D: "map_of (dags (snd (comp_step gen did now c st))) = (map_of (dags s))(did \<mapsto>
       w\<lparr>deps := deps w @ (case prev of None \<Rightarrow> [] | Some p \<Rightarrow> [\<lparr>ddTaskKey = comp_key c, ddDependsOnKey = p\<rparr>])\<rparr>)"
    unfolding st by (rule comp_step_result(5) [OF w(1) id])
  then have ev: "dag_evolves s (snd (comp_step gen did now c st))"
    using w(1,2) by (auto simp: dag_evolves_def header_kept_def split: option.split)
  moreover have "open_at did (snd (comp_step gen did now c st))"
    using D w(2) evolves_ids [OF w(3) ev] by (auto simp: open_at_def terminal_iff)
  ultimately show ?thesis using st by simp
qed

lemma comp_fold_evolves:
  "open_at did (snd st) \<Longrightarrow>
   dag_evolves (snd st) (snd (fold (comp_step gen did now) cs st)) \<and> open_at did (snd (fold (comp_step gen did now) cs st))"
proof (induction cs arbitrary: st)
  case (Cons c cs)
  from comp_step_evolves [OF Cons.prems, of gen now c] Cons.IH [of "comp_step gen did now c st"]
  show ?case by (auto intro: dag_evolves_trans)
qed (simp add: dag_evolves_same)

lemma insertCompensations_evolves:
  assumes "open_at did s"
  shows "dag_evolves s (snd (insertCompensationsLocked gen did now s)) \<and> open_at did (snd (insertCompensationsLocked gen did now s))"
  using comp_fold_evolves [of did "(None, s)" gen now "comp_candidates did s"] assms
  by (auto simp: insertCompensationsLocked_def Let_def dag_evolves_same)

lemma start_compensation_evolves:
  assumes "open_at did s"
  shows "dag_evolves s (start_compensation gen did now s)"
proof -
  let ?s1 = "cancelRemainingTasksLocked did now s"
  have d: "dags ?s1 = dags s" by (simp add: cancelRemainingTasksLocked_def)
  with assms have open1: "open_at did ?s1" by (simp add: open_at_def dag_ids_def)
  let ?s2 = "snd (insertCompensationsLocked gen did now ?s1)"
  note I = insertCompensations_evolves [OF open1, of gen now]
  have "dag_evolves ?s2 (set_header did f ?s2)" if "\<And>w. \<not> terminal w \<Longrightarrow> header_kept w (f w)" for f
    using I that by (intro evolves_set_header) (auto simp: open_at_def)
  then have "dag_evolves ?s2 (start_compensation gen did now s)"
    by (auto simp: start_compensation_def case_prod_unfold Let_def header_kept_def)
  with I show ?thesis by (blast intro: dag_evolves_trans evolves_cancel)
qed
section \<open>The operations\<close>

lemma PromoteUnblocked_dags: "dags (snd (PromoteUnblocked s)) = dags s"
proof -
  have "dags (snd (range_fold (jobs \<circ> snd) unblock_body (0, s))) = dags s"
    by (rule range_fold_inv [where I = "\<lambda>st. dags (snd st) = dags s"])
      (auto simp: unblock_body_def Let_def case_prod_unfold)
  then show ?thesis by (simp add: PromoteUnblocked_def case_prod_unfold Let_def)
qed

lemma CompleteDueSleeps_dags: "dags (snd (CompleteDueSleeps s)) = dags s"
proof -
  have "dags (snd (range_fold (jobs \<circ> snd) sleep_body (0, s))) = dags s"
    by (rule range_fold_inv [where I = "\<lambda>st. dags (snd st) = dags s"])
      (auto simp: sleep_body_def Let_def case_prod_unfold)
  then show ?thesis by (simp add: CompleteDueSleeps_def case_prod_unfold Let_def)
qed

lemma consume_kept [simp]: "header_kept w (consume sid w)" "header_kept w (w\<lparr>signals := sgs\<rparr>)"
  by (simp_all add: consume_def header_kept_def)

lemma wID_consume [simp]: "wID (consume sid w) = wID w"
  by (simp add: consume_def)

lemma deliverSignal_evolves:
  assumes ids: "dag_ids s"
  shows "dag_evolves s (snd (deliverSignalNowLocked did sig now s))"
proof -
  let ?r = "range_fold (jobs \<circ> snd) (deliver_body did sig now) (0, s)"
  have d: "dags (snd ?r) = dags s"
    by (rule range_fold_inv [where I = "\<lambda>st. dags (snd st) = dags s"])
      (auto simp: deliver_body_def Let_def case_prod_unfold)
  have put: "dag_evolves s (putDAG (consume (sgID sig) w) (snd ?r))" if w: "map_of (dags s) did = Some w" for w
  proof (rule dag_evolves_trans [OF dag_evolves_same [OF d] evolves_put])
    show "map_of (dags (snd ?r)) (wID (consume (sgID sig) w)) = Some w"
      using w dag_idsD [OF ids w] by (simp add: d)
  qed simp
  show ?thesis using put d
    by (auto simp: deliverSignalNowLocked_def case_prod_unfold Let_def dag_evolves_same split: option.split)
qed

lemma Signal_evolves:
  assumes ids: "dag_ids s"
  shows "dag_evolves s (snd (Signal gen p s))"
proof (cases "map_of (dags s) (dspDAGID p)")
  case (Some w)
  let ?sig = "\<lparr>sgID = gen (draws s), sgName = dspName p, sgMessageID = dspMessageID p,
      sgPayload = clonePayload (dspPayload p), sgConsumed = False, sgCreatedAt = clock s, sgSeq = jobSeq s + 1\<rparr>"
  let ?s1 = "s\<lparr>draws := Suc (draws s), jobSeq := jobSeq s + 1\<rparr>"
  let ?s2 = "putDAG (w\<lparr>signals := signals w @ [?sig]\<rparr>) ?s1"
  have "dag_evolves ?s1 ?s2" using Some dag_idsD [OF ids Some] by (intro evolves_put [of _ _ w]) simp_all
  from dag_evolves_trans [OF dag_evolves_same this, of s] have ev: "dag_evolves s ?s2" by simp
  have "dag_evolves s (snd (deliverSignalNowLocked (dspDAGID p) ?sig (clock s) ?s2))"
    by (rule dag_evolves_trans [OF ev deliverSignal_evolves [OF evolves_ids [OF ids ev]]])
  then show ?thesis using Some
    by (simp add: Signal_def nextSeq_def Let_def case_prod_unfold dag_evolves_same)
qed (simp add: Signal_def dag_evolves_same)

lemma buffered_task_evolves:
  assumes "dag_ids (snd st)"
  shows "dag_evolves (snd st) (snd (buffered_task did now k j st))"
proof -
  obtain n s where st: "st = (n, s)" by force
  have put: "dag_evolves s (putDAG (consume sid w) s1)" if "map_of (dags s) did = Some w" "dags s1 = dags s" for w sid s1
    using that assms st by (intro dag_evolves_trans [OF dag_evolves_same evolves_put]) (auto dest: dag_idsD)
  show ?thesis unfolding st buffered_task_def
    by (auto simp: Let_def dag_evolves_same put split: option.split)
qed

lemma DeliverBufferedSignals_evolves: "dag_ids s \<Longrightarrow> dag_evolves s (snd (DeliverBufferedSignals s))"
proof -
  have "dag_evolves (snd st) (snd (buffered_dag now did w st))" if "dag_ids (snd st)" for st :: "int \<times> fake" and now did w
    using range_fold_evolves [OF that, of "jobs \<circ> snd" "buffered_task did now" "fst st"] that buffered_task_evolves
    by (simp add: buffered_dag_def dag_evolves_same)
  then show "dag_ids s \<Longrightarrow> dag_evolves s (snd (DeliverBufferedSignals s))"
    unfolding DeliverBufferedSignals_def case_prod_unfold Let_def snd_conv by (intro range_fold_evolves) auto
qed

lemma complete_body_evolves:
  assumes "dag_ids (snd st)" "map_of (dags (snd st)) did = Some w"
  shows "dag_evolves (snd st) (snd (complete_body did w st))"
proof (cases "completed_header w (snd st)")
  case None
  then show ?thesis by (simp add: complete_body_def case_prod_unfold Let_def dag_evolves_same)
next
  case (Some w')
  then have "header_kept w w'"
    by (auto simp: header_kept_def completed_header_def Let_def terminal_iff split: dag_state.splits if_splits)
  then have "dag_evolves (snd st) (putDAG w' (snd st))"
    using assms dag_idsD [OF assms] by (intro evolves_put) (auto simp: header_kept_def)
  then show ?thesis using Some dag_evolves_trans [OF _ dag_evolves_same]
    by (simp add: complete_body_def case_prod_unfold Let_def)
qed

lemma CompleteDAGs_evolves: "dag_ids s \<Longrightarrow> dag_evolves s (snd (CompleteDAGs s))"
  unfolding CompleteDAGs_def case_prod_unfold Let_def snd_conv
  by (rule range_fold_evolves) (auto intro: complete_body_evolves)
lemma policy_body_evolves:
  assumes ids: "dag_ids (snd st)" and at: "map_of (dags (snd st)) did = Some w"
  shows "dag_evolves (snd st) (snd (policy_body gen did w st))"
proof (cases "wState w \<noteq> DAGRunning \<or> triggeringDeadTasksLocked w (snd st) = []")
  case True
  then show ?thesis by (simp add: policy_body_def case_prod_unfold Let_def dag_evolves_same)
next
  case False
  let ?s = "snd st"
  let ?f = "\<lambda>w. w\<lparr>wFailureReason := ''dead tasks: '' @ join '', '' (triggeringDeadTasksLocked w ?s), wUpdatedAt := clock ?s\<rparr>"
  let ?g = "\<lambda>v. v\<lparr>wFailureReason := ''dead tasks: '' @ join '', '' (triggeringDeadTasksLocked w ?s), wUpdatedAt := clock ?s\<rparr>"
  let ?s1 = "set_header did ?g ?s"
  have live: "\<not> terminal w" using False by (simp add: terminal_iff)
  have id: "wID w = did" by (rule dag_idsD [OF ids at])
  have e1: "dag_evolves ?s ?s1" using at live by (intro evolves_set_header [OF ids]) (simp add: header_kept_def)
  have at1: "map_of (dags ?s1) did = Some (?g w)" using at id by (simp add: set_header_def AList.update_conv')
  have ids1: "dag_ids ?s1" by (rule evolves_ids [OF ids e1])
  have open1: "open_at did ?s1" using at1 ids1 live by (simp add: open_at_def terminal_iff)
  have e2: "dag_evolves ?s1 (set_header did (\<lambda>w. w\<lparr>wState := DAGSuspended\<rparr>) ?s1)"
    using at1 live by (intro evolves_set_header [OF ids1]) (auto simp: header_kept_def terminal_iff)
  have e3: "dag_evolves ?s1 (start_compensation gen did (clock ?s) ?s1)" by (rule start_compensation_evolves [OF open1])
  have e4: "dag_evolves t (announce_dag did t)" for t by (rule dag_evolves_same) simp
  from e1 e2 e3 e4 False show ?thesis
    by (auto simp: policy_body_def case_prod_unfold Let_def intro: dag_evolves_trans)
qed

lemma ApplyFailurePolicy_evolves: "dag_ids s \<Longrightarrow> dag_evolves s (snd (ApplyFailurePolicy gen s))"
  unfolding ApplyFailurePolicy_def case_prod_unfold Let_def snd_conv
  by (rule range_fold_evolves) (auto intro: policy_body_evolves)

text \<open>The manager verbs act on the header they name, which is open when they act at all.\<close>

lemma evolves_verb:
  assumes ids: "dag_ids s" and at: "map_of (dags s) did = Some w" and same: "dags s1 = dags s"
    and kept: "header_kept w w'"
  shows "dag_evolves s (changeDAG w' (putDAG w' s1))"
proof -
  have "dag_evolves s1 (putDAG w' s1)"
    using at dag_idsD [OF ids at] kept same by (intro evolves_put [of _ _ w]) (auto simp: header_kept_def)
  from dag_evolves_trans [OF dag_evolves_trans [OF dag_evolves_same [OF same] this] dag_evolves_same]
  show ?thesis by simp
qed

lemma PauseDAG_evolves: "dag_ids s \<Longrightarrow> dag_evolves s (snd (PauseDAG did reason s))"
  by (auto simp: PauseDAG_def Let_def dag_evolves_same header_kept_def terminal_iff intro!: evolves_verb split: option.split)

lemma CancelDAG_evolves:
  assumes "dag_ids s"
  shows "dag_evolves s (snd (CancelDAG did s))"
proof (cases "map_of (dags s) did")
  case (Some w)
  let ?w1 = "w\<lparr>cancelRequested := True\<rparr>"
  let ?w' = "if wState w \<noteq> DAGCompensating
     then w\<lparr>cancelRequested := True, wState := DAGCancelled, wCompletedAt := clock s, wUpdatedAt := clock s\<rparr>
     else w\<lparr>cancelRequested := True, wUpdatedAt := clock s\<rparr>"
  have id: "wID w = did" by (rule dag_idsD [OF assms Some])
  have "dag_evolves s (changeDAG ?w' (putDAG ?w' (cancelRemainingTasksLocked did (clock s) (putDAG ?w1 s))))" if "\<not> terminal w"
  proof (rule dag_evolves_trans)
    show e: "dag_evolves s (putDAG ?w1 s)" using Some id that by (intro evolves_put [of _ _ w]) (auto simp: header_kept_def)
    show "dag_evolves (putDAG ?w1 s) (changeDAG ?w' (putDAG ?w' (cancelRemainingTasksLocked did (clock s) (putDAG ?w1 s))))"
      using Some id that
      by (intro evolves_verb [OF evolves_ids [OF assms e], of did ?w1])
        (auto simp: header_kept_def terminal_iff AList.update_conv' cancelRemainingTasksLocked_def)
  qed
  then show ?thesis using Some by (simp add: CancelDAG_def Let_def dag_evolves_same)
qed (simp add: CancelDAG_def dag_evolves_same)

lemma CompensateDAG_evolves:
  assumes "dag_ids s"
  shows "dag_evolves s (snd (CompensateDAG gen did s))"
proof (cases "\<exists>w. map_of (dags s) did = Some w \<and> wState w \<in> {DAGRunning, DAGSuspended, DAGPaused}")
  case True
  then obtain w where w: "map_of (dags s) did = Some w" "wState w \<in> {DAGRunning, DAGSuspended, DAGPaused}" by blast
  then have "open_at did s" using assms by (auto simp: open_at_def terminal_iff)
  note e1 = start_compensation_evolves [OF this, of gen "clock s"]
  let ?s1 = "start_compensation gen did (clock s) s"
  have e2: "dag_evolves ?s1 (set_header did (\<lambda>w. w\<lparr>wUpdatedAt := clock s\<rparr>) ?s1)"
    by (intro evolves_set_header evolves_ids [OF assms e1]) (simp add: header_kept_def)
  have "dag_evolves s (announce_dag did (set_header did (\<lambda>w. w\<lparr>wUpdatedAt := clock s\<rparr>) ?s1))"
    by (rule dag_evolves_trans [OF dag_evolves_trans [OF e1 e2] dag_evolves_same]) simp
  then show ?thesis using w by (auto simp: CompensateDAG_def)
next
  case False
  then show ?thesis by (auto simp: CompensateDAG_def dag_evolves_same split: option.split)
qed

lemma RetryDAG_header_evolves:
  assumes ids: "dag_ids s" and at: "map_of (dags s) did = Some w" and same: "dags t = dags s"
    and w': "w' = (if h then w\<lparr>wState := DAGCompensating\<rparr> else w\<lparr>wState := DAGRunning, wFailureReason := []\<rparr>)"
  shows "dag_evolves s (set_header did (\<lambda>w. w\<lparr>wUpdatedAt := now\<rparr>)
    (if wState w = DAGSuspended \<or> wState w = DAGPaused then changeDAG w' (putDAG w' t) else t))"
proof -
  let ?s3 = "if wState w = DAGSuspended \<or> wState w = DAGPaused then changeDAG w' (putDAG w' t) else t"
  have e: "dag_evolves s ?s3"
  proof (cases "wState w = DAGSuspended \<or> wState w = DAGPaused")
    case True
    then have "header_kept w w'" unfolding w' by (auto simp: header_kept_def terminal_iff)
    from evolves_verb [OF ids at same this] True show ?thesis by simp
  qed (use same in \<open>simp add: dag_evolves_same\<close>)
  have "dag_evolves ?s3 (set_header did (\<lambda>w. w\<lparr>wUpdatedAt := now\<rparr>) ?s3)"
    by (intro evolves_set_header evolves_ids [OF ids e]) (simp add: header_kept_def)
  with e show ?thesis by (rule dag_evolves_trans)
qed

lemma RetryDAG_evolves:
  assumes "dag_ids s"
  shows "dag_evolves s (snd (RetryDAG did s))"
proof (cases "map_of (dags s) did")
  case (Some w)
  show ?thesis
  proof (cases "terminal w")
    case False
    let ?h = "list_ex is_comp (dagJobsLocked did s)"
    let ?s1 = "fold (\<lambda>j st. if jState j \<noteq> StateDead \<or> (?h \<and> \<not> is_comp j) then st else resetToPending j st) (dagJobsLocked did s) s"
    have "dags (fold unpause_task (dagJobsLocked did ?s1) ?s1) = dags s"
      unfolding unpause.pass_frame(1) by (rule reset.pass_frame(1))
    from RetryDAG_header_evolves [OF assms Some this refl, where h = ?h and now = "clock s"] show ?thesis
      unfolding RetryDAG_def Some option.case Let_def using False by (simp only: if_False snd_conv)
  qed (use Some in \<open>simp add: RetryDAG_def dag_evolves_same\<close>)
qed (simp add: RetryDAG_def dag_evolves_same)
lemma VacuumDAGs_dags: "map_of (dags (snd (VacuumDAGs retention s))) k \<in> {None, map_of (dags s) k}"
proof -
  let ?I = "\<lambda>st :: int \<times> fake. \<forall>k. map_of (dags (snd st)) k \<in> {None, map_of (dags s) k}"
  have del: "dags (snd (range_fold (jobs \<circ> snd) (delete_body P) (n, t))) = dags t" for P t and n :: int
    by (rule range_fold_inv [where I = "\<lambda>st. dags (snd st) = dags t"])
      (auto simp: delete_body_def case_prod_unfold Let_def)
  have "?I (range_fold (dags \<circ> snd) (vacuum_dag_body (clock s - retention)) (0, s))"
  proof (rule range_fold_inv)
    fix k w and st :: "int \<times> fake"
    assume I: "?I st"
    show "?I (vacuum_dag_body (clock s - retention) k w st)"
      using I by (auto simp: vacuum_dag_body_def case_prod_unfold Let_def del AList.delete_conv')
  qed simp
  then show ?thesis by (simp add: VacuumDAGs_def case_prod_unfold Let_def)
qed

lemma insertDAGTask_dags [simp]: "dags (insertDAGTask gen w tk b now s) = dags s"
  by (simp add: insertDAGTask_def nextSeq_def Let_def)

lemma CreateDAG_dags:
  "k \<noteq> dgID p \<Longrightarrow> map_of (dags (snd (CreateDAG gen p s))) k = map_of (dags s) k"
  "dag_ids s \<Longrightarrow> dag_ids (snd (CreateDAG gen p s))"
proof -
  have "dags (fold (\<lambda>tk st. insertDAGTask gen w tk (B tk) now st) tks st) = dags st" for w B now tks st
    by (rule fold_frame) simp
  then have *: "dags (snd (CreateDAG gen p s)) \<in> {dags s, AList.update (dgID p) (new_dag p (clock s)) (dags s)}"
    by (auto simp: CreateDAG_def Let_def new_dag_def split: option.split)
  then show "k \<noteq> dgID p \<Longrightarrow> map_of (dags (snd (CreateDAG gen p s))) k = map_of (dags s) k"
    by (auto simp: AList.update_conv')
  have "wID (new_dag p (clock s)) = dgID p" by (simp add: new_dag_def)
  with * show "dag_ids s \<Longrightarrow> dag_ids (snd (CreateDAG gen p s))"
    by (auto simp: dag_ids_def AList.update_conv' split: if_splits)
qed

section \<open>Runs\<close>

text \<open>
  One step of a system built on the store: a DAG operation, or a worker operation
  on a task. Ids of \<open>avoid\<close> are not given to new DAGs (\<open>uuid.New\<close> does not repeat
  an id); the clock only moves forward.
\<close>

inductive dag_step :: "(nat \<Rightarrow> uuid) \<Rightarrow> uuid set \<Rightarrow> fake \<Rightarrow> fake \<Rightarrow> bool" for gen avoid where
  time: "clock s \<le> t \<Longrightarrow> dag_step gen avoid s (s\<lparr>clock := t\<rparr>)"
| create: "dgID p \<notin> avoid \<Longrightarrow> dag_step gen avoid s (snd (CreateDAG gen p s))"
| signal: "dag_step gen avoid s (snd (Signal gen sp s))"
| deliver: "dag_step gen avoid s (snd (DeliverBufferedSignals s))"
| promote: "dag_step gen avoid s (snd (PromoteUnblocked s))"
| sleeps: "dag_step gen avoid s (snd (CompleteDueSleeps s))"
| policy: "dag_step gen avoid s (snd (ApplyFailurePolicy gen s))"
| complete: "dag_step gen avoid s (snd (CompleteDAGs s))"
| ack: "dag_step gen avoid s (snd (AckTaskResult jid tok result s))"
| retry: "dag_step gen avoid s (snd (RetryDAG did s))"
| pause: "dag_step gen avoid s (snd (PauseDAG did reason s))"
| compensate: "dag_step gen avoid s (snd (CompensateDAG gen did s))"
| cancel: "dag_step gen avoid s (snd (CancelDAG did s))"
| vacuum: "dag_step gen avoid s (snd (VacuumDAGs retention s))"
| dequeue: "dag_step gen avoid s (snd (DequeueBatch gen src dp s))"
| settle: "dag_step gen avoid s (snd (settle_with (fake_ops gen) c jid tok s))"
| extend: "dag_step gen avoid s (snd (ExtendLease jid tok lease s))"
| due: "dag_step gen avoid s (snd (PromoteDue src kinds s))"
| reap: "dag_step gen avoid s (snd (ReapExpired src kinds n s))"

lemma worker_dags:
  "dags (snd (AckTaskResult jid tok result s)) = dags s"
  "dags (snd (ExtendLease jid tok lease s)) = dags s"
  "dags (snd (settle_with (fake_ops gen) c jid tok s)) = dags s"
  by (simp_all add: AckTaskResult_def ExtendLease_def Let_def split: sum.split)
    (cases c; auto simp: fake_ops_def no_flag_def Ack_def Reschedule_def Dead_def Skip_def Release_def Snooze_def Let_def
      split: sum.splits option.splits)
lemma maintenance_dags:
  "dags (snd (DequeueBatch gen src dp s)) = dags s"
  "dags (snd (PromoteDue src kinds s)) = dags s"
  "dags (snd (ReapExpired src kinds n s)) = dags s"
proof -
  have "dags (snd (fold (dequeue_step gen src dp) js (out, s))) = dags s" for js out
    by (rule fold_preserves [where P = "\<lambda>st. dags (snd st) = dags s"])
      (auto simp: dequeue_step_def Let_def case_prod_unfold)
  then show "dags (snd (DequeueBatch gen src dp s)) = dags s"
    by (simp add: DequeueBatch_def case_prod_unfold Let_def)
  have "dags (snd (range_fold (jobs \<circ> snd) (promote_body src kinds) (0, s))) = dags s"
    by (rule range_fold_inv [where I = "\<lambda>st. dags (snd st) = dags s"])
      (auto simp: promote_body_def Let_def case_prod_unfold)
  then show "dags (snd (PromoteDue src kinds s)) = dags s"
    by (simp add: PromoteDue_def case_prod_unfold Let_def)
  have R: "dags (snd (range_fold (jobs \<circ> snd) (reap_body src kinds n) ((0, 0, []), s))) = dags s"
    by (rule range_fold_inv [where I = "\<lambda>st. dags (snd st) = dags s"])
      (auto simp: reap_body_def Let_def case_prod_unfold)
  have "dags (fold (\<lambda>(kind, n) st. bumpStat src kind statReaped n t st) ks st) = dags st" for t ks st
    by (rule fold_frame) (simp add: case_prod_unfold)
  with R show "dags (snd (ReapExpired src kinds n s)) = dags s"
    by (simp add: ReapExpired_def case_prod_unfold Let_def)
qed

text \<open>Every step keeps the headers of \<open>avoid\<close> or removes them.\<close>

definition headers_kept :: "uuid set \<Rightarrow> fake \<Rightarrow> fake \<Rightarrow> bool" where
  "headers_kept avoid s s' = (dag_ids s' \<and> (\<forall>k\<in>avoid. \<forall>w'. map_of (dags s') k = Some w' \<longrightarrow>
     (\<exists>w. map_of (dags s) k = Some w \<and> header_kept w w')))"

lemma headers_kept_evolves: "dag_ids s \<Longrightarrow> dag_evolves s s' \<Longrightarrow> headers_kept avoid s s'"
proof -
  assume ids: "dag_ids s" and ev: "dag_evolves s s'"
  have "\<exists>w. map_of (dags s) k = Some w \<and> header_kept w w'" if "map_of (dags s') k = Some w'" for k w'
    using dag_evolves_None [OF ev, of k] dag_evolves_Some [OF ev, of k] that by (cases "map_of (dags s) k") auto
  with evolves_ids [OF ids ev] show ?thesis by (simp add: headers_kept_def)
qed

lemma headers_kept_trans: "headers_kept avoid a b \<Longrightarrow> headers_kept avoid b c \<Longrightarrow> headers_kept avoid a c"
  unfolding headers_kept_def by (meson header_kept_trans)

lemma dag_step_keeps:
  assumes step: "dag_step gen avoid s s'" and ids: "dag_ids s"
  shows "headers_kept avoid s s'"
  using step
proof cases
  case (create p)
  have "map_of (dags s') k = map_of (dags s) k" if "k \<in> avoid" for k
    unfolding create(1) by (rule CreateDAG_dags(1)) (use create(2) that in auto)
  then show ?thesis using CreateDAG_dags(2) [OF ids, of gen p] create(1) by (simp add: headers_kept_def)
next
  case (vacuum retention)
  have V: "map_of (dags s') k = None \<or> map_of (dags s') k = map_of (dags s) k" for k
    unfolding vacuum using VacuumDAGs_dags [of retention s k] by simp
  have "dag_ids s'" unfolding dag_ids_def using V ids by (metis dag_idsD option.distinct(1))
  then show ?thesis unfolding headers_kept_def using V by (metis header_kept_refl option.distinct(1))
qed (auto intro!: headers_kept_evolves [OF ids] dag_evolves_same worker_dags maintenance_dags PromoteUnblocked_dags
    CompleteDueSleeps_dags Signal_evolves [OF ids] DeliverBufferedSignals_evolves [OF ids]
    ApplyFailurePolicy_evolves [OF ids] CompleteDAGs_evolves [OF ids] RetryDAG_evolves [OF ids]
    PauseDAG_evolves [OF ids] CompensateDAG_evolves [OF ids] CancelDAG_evolves [OF ids])

lemma dag_steps_keep:
  assumes "(dag_step gen avoid)\<^sup>*\<^sup>* s s'" "dag_ids s"
  shows "headers_kept avoid s s'"
  using assms(1)
proof (induction rule: rtranclp_induct)
  case base
  show ?case using assms(2) by (simp add: headers_kept_def)
next
  case (step a b)
  from step.IH have "dag_ids a" by (simp add: headers_kept_def)
  from dag_step_keeps [OF step.hyps(2) this] step.IH show ?case by (blast intro: headers_kept_trans)
qed

text \<open>
  C24: A finished DAG stays finished. Take any store the program can reach from an
  empty one, and a DAG in it that succeeded, failed or was cancelled. Whatever
  operations follow, in any order - signals, scheduler passes, every manager verb,
  leases and settlements of its tasks, vacuums - the header keeps its final state,
  its recorded reason, its completion time and its edges for as long as it exists
  (its id not being given to a new DAG).
\<close>

theorem final_state_kept:
  assumes reach: "(dag_step gen {})\<^sup>*\<^sup>* (NewFake t) s"
    and at: "map_of (dags s) did = Some w" and final: "wState w \<in> {DAGSucceeded, DAGFailed, DAGCancelled}"
    and later: "(dag_step gen {did})\<^sup>*\<^sup>* s s'" and at': "map_of (dags s') did = Some w'"
  shows "wState w' = wState w \<and> wFailureReason w' = wFailureReason w \<and> wCompletedAt w' = wCompletedAt w \<and>
    deps w' = deps w \<and> wName w' = wName w \<and> wIdempotencyKey w' = wIdempotencyKey w"
proof -
  have "dag_ids (NewFake t)" by (simp add: dag_ids_def NewFake_def)
  from dag_steps_keep [OF reach this] have "dag_ids s" by (simp add: headers_kept_def)
  from dag_steps_keep [OF later this] at at' have "header_kept w w'" by (auto simp: headers_kept_def)
  with final show ?thesis by (auto simp: header_kept_def terminal_iff)
qed

theorem final_state_kept_witness:
  "\<exists>w'. map_of (dags (snd (RetryDAG 7 (snd (CancelDAG 7 run_created))))) 7 = Some w' \<and> wState w' = DAGCancelled"
proof -
  let ?g = "\<lambda>n. 50 + n :: nat" let ?s = "snd (CancelDAG 7 run_created)" let ?s' = "snd (RetryDAG 7 ?s)"
  have "(dag_step ?g {})\<^sup>*\<^sup>* (NewFake 100) run_created"
    unfolding run_created_def by (intro r_into_rtranclp dag_step.create) simp
  then have reach: "(dag_step ?g {})\<^sup>*\<^sup>* (NewFake 100) ?s" by (rule rtranclp.rtrancl_into_rtrancl) (rule dag_step.cancel)
  have at: "map_of (dags ?s) 7 = Some (the (map_of (dags ?s) 7))"
    and st: "wState (the (map_of (dags ?s) 7)) = DAGCancelled"
    and at': "map_of (dags ?s') 7 = Some (the (map_of (dags ?s') 7))" by code_simp+
  have "(dag_step ?g {7})\<^sup>*\<^sup>* ?s ?s'" by (rule r_into_rtranclp) (rule dag_step.retry)
  from final_state_kept [OF reach at _ this at'] st have "wState (the (map_of (dags ?s') 7)) = DAGCancelled" by simp
  with at' show ?thesis by blast
qed

end
