(* ===== verification/Dag_Define.thy ===== *)
theory Dag_Define
  imports Dag_Lifecycle
begin

text \<open>
  The DAG runtime's front: definitions and their validation (\<open>dag/define.go\<close>), the
  client that turns a valid definition into driver parameters and creates it
  (\<open>dag/client.go\<close>), and the worker's scheduler pass (\<open>dag/worker.go\<close>).

  Task arguments are values of the program's users: \<open>taskArgs\<close> has what the code
  asks of one, its kind and its JSON encoding (\<open>None\<close> when it does not marshal).
  Each validation error is one constructor, which names what its message names.
\<close>

section \<open>Definitions\<close>

record taskArgs =
  argKind :: string
  argJSON :: "string option"

record taskDecl =
  tdKey :: string
  tdKind :: string
  tdArgs :: "taskArgs option"
  tdSleepFor :: duration
  tdAfter :: "string list"
  tdCompensate :: "taskArgs option"
  tdMaxRetries :: int
  tdIgnoreDeadDeps :: bool
  tdDeadline :: duration

record definition_rec =
  dName :: string
  dOnFailure :: on_failure
  dMeta :: meta
  dTasks :: "taskDecl list"

definition OnFailure :: "on_failure \<Rightarrow> definition_rec \<Rightarrow> definition_rec" where
  "OnFailure policy d = d\<lparr>dOnFailure := policy\<rparr>"

definition WithMeta :: "string \<Rightarrow> string \<Rightarrow> definition_rec \<Rightarrow> definition_rec" where
  "WithMeta key v d = d\<lparr>dMeta := Some (AList.update key v (the_default [] (dMeta d)))\<rparr>"

definition After :: "string list \<Rightarrow> taskDecl \<Rightarrow> taskDecl" where
  "After keys t = t\<lparr>tdAfter := tdAfter t @ keys\<rparr>"

definition Compensate :: "taskArgs option \<Rightarrow> taskDecl \<Rightarrow> taskDecl" where
  "Compensate args t = t\<lparr>tdCompensate := args\<rparr>"

definition MaxRetries :: "int \<Rightarrow> taskDecl \<Rightarrow> taskDecl" where
  "MaxRetries n t = (if n > 0 then t\<lparr>tdMaxRetries := n\<rparr> else t)"

definition IgnoreDeadDeps :: "taskDecl \<Rightarrow> taskDecl" where
  "IgnoreDeadDeps t = t\<lparr>tdIgnoreDeadDeps := True\<rparr>"

definition Deadline :: "duration \<Rightarrow> taskDecl \<Rightarrow> taskDecl" where
  "Deadline d t = (if d > 0 then t\<lparr>tdDeadline := d\<rparr> else t)"

definition zeroDecl :: taskDecl where
  "zeroDecl = \<lparr>tdKey = [], tdKind = [], tdArgs = None, tdSleepFor = 0, tdAfter = [], tdCompensate = None,
     tdMaxRetries = 0, tdIgnoreDeadDeps = False, tdDeadline = 0\<rparr>"

definition Define :: "string \<Rightarrow> (definition_rec \<Rightarrow> definition_rec) list \<Rightarrow> definition_rec" where
  "Define name opts = fold (\<lambda>opt d. opt d) opts
     \<lparr>dName = name, dOnFailure = OnFailureCancel, dMeta = None, dTasks = []\<rparr>"

definition add :: "taskDecl \<Rightarrow> (taskDecl \<Rightarrow> taskDecl) list \<Rightarrow> definition_rec \<Rightarrow> definition_rec" where
  "add t opts d = d\<lparr>dTasks := dTasks d @ [fold (\<lambda>opt t. opt t) opts t]\<rparr>"

definition Task :: "string \<Rightarrow> taskArgs option \<Rightarrow> (taskDecl \<Rightarrow> taskDecl) list \<Rightarrow> definition_rec \<Rightarrow> definition_rec" where
  "Task key args opts d = add (zeroDecl\<lparr>tdKey := key, tdArgs := args\<rparr>) opts d"

definition Sleep :: "string \<Rightarrow> duration \<Rightarrow> (taskDecl \<Rightarrow> taskDecl) list \<Rightarrow> definition_rec \<Rightarrow> definition_rec" where
  "Sleep key dur opts d = add (zeroDecl\<lparr>tdKey := key, tdKind := KindSleep, tdSleepFor := dur\<rparr>) opts d"

definition WaitSignal :: "string \<Rightarrow> (taskDecl \<Rightarrow> taskDecl) list \<Rightarrow> definition_rec \<Rightarrow> definition_rec" where
  "WaitSignal key opts d = add (zeroDecl\<lparr>tdKey := key, tdKind := KindSignal\<rparr>) opts d"

section \<open>Validation\<close>

datatype defError =
    NoName
  | NoTasks string
  | EmptyKey
  | DuplicateKey string
  | DollarKey string
  | CompKey string
  | SleepDuration string duration
  | NilArgs string
  | DollarKind string string
  | DollarCompKind string string
  | UnknownDep string string
  | CycleOf "string list"

definition HasPrefix :: "string \<Rightarrow> string \<Rightarrow> bool" where
  "HasPrefix s p = (take (length p) s = p)"

definition validateTask :: "taskDecl \<Rightarrow> string list \<Rightarrow> defError option" where
  "validateTask t seen =
     (if tdKey t = [] then Some EmptyKey
      else if tdKey t \<in> set seen then Some (DuplicateKey (tdKey t))
      else if HasPrefix (tdKey t) ''$'' then Some (DollarKey (tdKey t))
      else if HasPrefix (tdKey t) TaskKeyCompensationPrefix then Some (CompKey (tdKey t))
      else
        let kindErr =
          (if tdKind t = KindSleep
           then (if tdSleepFor t \<le> 0 then Some (SleepDuration (tdKey t) (tdSleepFor t)) else None)
           else if tdKind t = KindSignal then None
           else (case tdArgs t of
                   None \<Rightarrow> Some (NilArgs (tdKey t))
                 | Some a \<Rightarrow> if HasPrefix (argKind a) ''$'' then Some (DollarKind (tdKey t) (argKind a)) else None))
        in case kindErr of
             Some e \<Rightarrow> Some e
           | None \<Rightarrow>
               (case tdCompensate t of
                  None \<Rightarrow> None
                | Some c \<Rightarrow> if HasPrefix (argKind c) ''$'' then Some (DollarCompKind (tdKey t) (argKind c)) else None))"

text \<open>The first loop of \<open>validate\<close> stops at the first bad task; \<open>seen\<close> is its \<open>keys\<close> map.\<close>

fun validateTasks :: "taskDecl list \<Rightarrow> string list \<Rightarrow> defError option" where
  "validateTasks [] seen = None"
| "validateTasks (t # ts) seen =
     (case validateTask t seen of Some e \<Rightarrow> Some e | None \<Rightarrow> validateTasks ts (tdKey t # seen))"

definition unknownDep :: "taskDecl list \<Rightarrow> defError option" where
  "unknownDep ts =
     map_option (\<lambda>(k, dep). UnknownDep k dep)
       (find (\<lambda>(k, dep). dep \<notin> set (map tdKey ts)) (concat (map (\<lambda>t. map (\<lambda>dep. (tdKey t, dep)) (tdAfter t)) ts)))"

text \<open>Go maps with a zero value: reading an absent key gives 0, or no dependents.\<close>

definition deg :: "(string \<times> int) list \<Rightarrow> string \<Rightarrow> int" where
  "deg m k = the_default 0 (map_of m k)"

definition dependents_of :: "(string \<times> string list) list \<Rightarrow> string \<Rightarrow> string list" where
  "dependents_of m k = the_default [] (map_of m k)"

definition count_edge ::
  "string \<Rightarrow> string \<Rightarrow> (string \<times> int) list \<times> (string \<times> string list) list \<Rightarrow> (string \<times> int) list \<times> (string \<times> string list) list" where
  "count_edge key dep st =
     (let (indegree, dependents) = st
      in (AList.update key (deg indegree key + 1) indegree,
          AList.update dep (dependents_of dependents dep @ [key]) dependents))"

definition count_task ::
  "taskDecl \<Rightarrow> (string \<times> int) list \<times> (string \<times> string list) list \<Rightarrow> (string \<times> int) list \<times> (string \<times> string list) list" where
  "count_task t st =
     (let (indegree, dependents) = st
      in fold (count_edge (tdKey t)) (tdAfter t) (AList.update (tdKey t) (deg indegree (tdKey t)) indegree, dependents))"

text \<open>One turn of the loop resolves the head of the queue and releases its dependents.\<close>

definition relax :: "string \<Rightarrow> string list \<times> (string \<times> int) list \<Rightarrow> string list \<times> (string \<times> int) list" where
  "relax dep st =
     (let (queue, indegree) = st; n = deg indegree dep - 1
      in (if n = 0 then queue @ [dep] else queue, AList.update dep n indegree))"

definition positive :: "(string \<times> int) list \<Rightarrow> nat" where
  "positive m = length (filter (\<lambda>p. snd p > 0) m)"

lemma positive_update:
  "positive (AList.update k (deg m k - 1) m) + (if deg m k = 1 then 1 else 0) = positive m"
  by (induction m) (auto simp: positive_def deg_def)

lemma relax_measure: "length (fst (relax d st)) + positive (snd (relax d st)) = length (fst st) + positive (snd st)"
  using positive_update [of d "snd st"] by (auto simp: relax_def case_prod_unfold Let_def)

lemma relax_fold_measure:
  "length (fst (fold relax ds st)) + positive (snd (fold relax ds st)) = length (fst st) + positive (snd st)"
  by (induction ds arbitrary: st) (simp_all add: relax_measure)

function kahn :: "(string \<Rightarrow> string list) \<Rightarrow> string list \<Rightarrow> (string \<times> int) list \<Rightarrow> nat \<Rightarrow> nat \<times> (string \<times> int) list" where
  "kahn dependents [] indegree resolved = (resolved, indegree)"
| "kahn dependents (key # queue) indegree resolved =
     (let st = fold relax (dependents key) (queue, indegree)
      in kahn dependents (fst st) (snd st) (Suc resolved))"
  by pat_completeness auto
termination
proof (relation "measure (\<lambda>(dependents, queue, indegree, resolved). length queue + positive indegree)", goal_cases)
  case (2 dependents key queue indegree resolved st)
  then show ?case using relax_fold_measure [of "dependents key" "(queue, indegree)"] by simp
qed simp

definition validateAcyclic :: "taskDecl list \<Rightarrow> defError option" where
  "validateAcyclic ts =
     (let (indegree, dependents) = fold count_task ts ([], []);
          queue = map tdKey (filter (\<lambda>t. deg indegree (tdKey t) = 0) ts);
          (resolved, indegree') = kahn (dependents_of dependents) queue indegree 0
      in if resolved = length ts then None
         else Some (CycleOf (map tdKey (filter (\<lambda>t. deg indegree' (tdKey t) > 0) ts))))"

definition validate :: "definition_rec \<Rightarrow> defError option" where
  "validate d =
     (if dName d = [] then Some NoName
      else if dTasks d = [] then Some (NoTasks (dName d))
      else (case validateTasks (dTasks d) [] of
              Some e \<Rightarrow> Some e
            | None \<Rightarrow> (case unknownDep (dTasks d) of Some e \<Rightarrow> Some e | None \<Rightarrow> validateAcyclic (dTasks d))))"
section \<open>Kahn's algorithm is right\<close>

text \<open>
  The declared edges as a list of pairs (task, dependency): a repeated dependency
  counts as often as it is declared, in the in-degree and in the dependents.
\<close>

definition edges :: "taskDecl list \<Rightarrow> (string \<times> string) list" where
  "edges ts = concat (map (\<lambda>t. map (\<lambda>dep. (tdKey t, dep)) (tdAfter t)) ts)"

definition open_edges :: "(string \<times> string) list \<Rightarrow> string set \<Rightarrow> string \<Rightarrow> int" where
  "open_edges E P k = int (length (filter (\<lambda>(a, d). a = k \<and> d \<notin> P) E))"

lemma deg_update: "deg (AList.update k v m) k' = (if k' = k then v else deg m k')"
  by (simp add: deg_def AList.update_conv')

lemma dependents_update: "dependents_of (AList.update k v m) k' = (if k' = k then v else dependents_of m k')"
  by (simp add: dependents_of_def AList.update_conv')

lemma count_edges:
  "deg (fst (fold (count_edge key) ds st)) k = deg (fst st) k + (if k = key then int (length ds) else 0)"
  "dependents_of (snd (fold (count_edge key) ds st)) d = dependents_of (snd st) d @ map (\<lambda>_. key) (filter ((=) d) ds)"
  by (induction ds arbitrary: st)
    (auto simp: count_edge_def case_prod_unfold Let_def deg_update dependents_update)

lemma count_task_one:
  "deg (fst (count_task t st)) k = deg (fst st) k + (if k = tdKey t then int (length (tdAfter t)) else 0)"
  "dependents_of (snd (count_task t st)) d = dependents_of (snd st) d @ map (\<lambda>_. tdKey t) (filter ((=) d) (tdAfter t))"
  by (simp_all add: count_task_def case_prod_unfold Let_def count_edges deg_update)

lemma edges_of_task:
  "map fst (filter (\<lambda>e. snd e = d) (map (Pair key) ds)) = map (\<lambda>_. key) (filter ((=) d) ds)"
  "length (filter (\<lambda>e. fst e = k) (map (Pair key) ds)) = (if k = key then length ds else 0)"
  by (induction ds) auto

lemma count_tasks:
  "deg (fst (fold count_task ts st)) k = deg (fst st) k + int (length (filter (\<lambda>e. fst e = k) (edges ts)))"
  "dependents_of (snd (fold count_task ts st)) d = dependents_of (snd st) d @ map fst (filter (\<lambda>e. snd e = d) (edges ts))"
  by (induction ts arbitrary: st) (simp_all add: edges_def count_task_one edges_of_task)

text \<open>
  The dependents released by resolving \<open>key\<close>: in-degrees fall by the number of edges
  to \<open>key\<close>, and the tasks appended to the queue are those whose in-degree reaches 0.
\<close>

lemma relax_fold:
  assumes "\<forall>k. deg indegree k \<ge> int (length (filter ((=) k) ks))"
  shows "(\<forall>k. deg (snd (fold relax ks (queue, indegree))) k = deg indegree k - int (length (filter ((=) k) ks))) \<and>
    (\<exists>new. fst (fold relax ks (queue, indegree)) = queue @ new \<and> distinct new \<and>
      set new = {k \<in> set ks. deg indegree k = int (length (filter ((=) k) ks))})"
  using assms
proof (induction ks arbitrary: queue indegree)
  case (Cons d ks)
  let ?i = "AList.update d (deg indegree d - 1) indegree"
  have pre: "\<forall>k. deg ?i k \<ge> int (length (filter ((=) k) ks))"
  proof
    fix k show "deg ?i k \<ge> int (length (filter ((=) k) ks))" using Cons.prems [rule_format, of k] by (auto simp: deg_update)
  qed
  have step: "relax d (queue, indegree) = (if deg indegree d - 1 = 0 then queue @ [d] else queue, ?i)"
    by (simp add: relax_def Let_def)
  note IH = Cons.IH [OF pre, of "if deg indegree d - 1 = 0 then queue @ [d] else queue"]
  from IH obtain new where
    new: "fst (fold relax ks (if deg indegree d - 1 = 0 then queue @ [d] else queue, ?i)) =
        (if deg indegree d - 1 = 0 then queue @ [d] else queue) @ new" "distinct new"
      "set new = {k \<in> set ks. deg ?i k = int (length (filter ((=) k) ks))}" by blast
  let ?new = "(if deg indegree d - 1 = 0 then [d] else []) @ new"
  have zero: "deg indegree d = 1 \<Longrightarrow> filter ((=) d) ks = []" using pre [rule_format, of d] by (simp add: deg_update)
  have nd: "deg indegree d = 1 \<Longrightarrow> d \<notin> set ks" using zero by (auto simp: filter_empty_conv)
  have "set ?new = {k \<in> set (d # ks). deg indegree k = int (length (filter ((=) k) (d # ks)))}"
    using zero nd by (auto simp: new(3) deg_update filter_empty_conv)
  moreover have "distinct ?new" using new(2,3) nd by auto
  moreover have "fst (fold relax (d # ks) (queue, indegree)) = queue @ ?new" using new(1) by (simp add: step)
  moreover have "deg (snd (fold relax (d # ks) (queue, indegree))) k = deg indegree k - int (length (filter ((=) k) (d # ks)))" for k
    using IH by (simp add: step deg_update)
  ultimately show ?case by blast
qed simp
definition resolving :: "(string \<times> string) list \<Rightarrow> string set \<Rightarrow> string list \<Rightarrow> string list \<Rightarrow> (string \<times> int) list \<Rightarrow> bool" where
  "resolving E keys P queue indegree =
     (distinct (P @ queue) \<and>
      (\<forall>k. deg indegree k = open_edges E (set P) k) \<and>
      set (P @ queue) = {k \<in> keys. open_edges E (set P) k = 0} \<and>
      (\<forall>i<length P. \<forall>d. (P ! i, d) \<in> set E \<longrightarrow> d \<in> set (take i P)))"

lemma open_edges_step:
  assumes "key \<notin> P"
  shows "int (length (filter ((=) k) (map fst (filter (\<lambda>e. snd e = key) E)))) + open_edges E (insert key P) k = open_edges E P k"
  using assms unfolding open_edges_def by (induction E) auto

lemma open_edges_0: "open_edges E P k = 0 \<longleftrightarrow> (\<forall>d. (k, d) \<in> set E \<longrightarrow> d \<in> P)"
  by (auto simp: open_edges_def filter_empty_conv)

lemma resolving_step:
  assumes R: "resolving E keys P (key # queue) indegree" and ends: "fst ` set E \<subseteq> keys"
  defines "st \<equiv> fold relax (map fst (filter (\<lambda>e. snd e = key) E)) (queue, indegree)"
  shows "resolving E keys (P @ [key]) (fst st) (snd st)"
proof -
  let ?ks = "map fst (filter (\<lambda>e. snd e = key) E)"
  have key: "key \<notin> set P" and deg: "\<And>k. deg indegree k = open_edges E (set P) k"
    and dist: "distinct (P @ key # queue)" and sets: "set (P @ key # queue) = {k \<in> keys. open_edges E (set P) k = 0}"
    and topo: "\<And>i d. i < length P \<Longrightarrow> (P ! i, d) \<in> set E \<Longrightarrow> d \<in> set (take i P)"
    using R unfolding resolving_def by auto
  note step = open_edges_step [OF key, where E = E]
  have nn: "open_edges E Q k \<ge> 0" for Q k by (simp add: open_edges_def)
  have "\<forall>k. deg indegree k \<ge> int (length (filter ((=) k) ?ks))"
  proof
    fix k show "deg indegree k \<ge> int (length (filter ((=) k) ?ks))" using step [of k] nn [of "insert key (set P)" k] deg [of k] by linarith
  qed
  note F = relax_fold [OF this, of queue, folded st_def]
  then obtain new where new: "fst st = queue @ new" "distinct new"
    "set new = {k \<in> set ?ks. deg indegree k = int (length (filter ((=) k) ?ks))}" by blast
  have D: "deg (snd st) k = open_edges E (insert key (set P)) k" for k using F step [of k] deg [of k] by simp
  have new_iff: "k \<in> set new \<longleftrightarrow> (k, key) \<in> set E \<and> open_edges E (insert key (set P)) k = 0" for k
    using step [of k] by (force simp: new(3) deg)
  have fresh: "k \<notin> set (P @ key # queue)" if "k \<in> set new" for k
    using that key unfolding sets new_iff by (auto simp: open_edges_0)
  have endk: "x \<in> keys" if "(x, d) \<in> set E" for x d using ends that by force
  have "set (P @ key # queue) \<union> set new = {k \<in> keys. open_edges E (insert key (set P)) k = 0}"
    unfolding sets using endk by (auto simp: new_iff open_edges_0)
  then have S: "set ((P @ [key]) @ fst st) = {k \<in> keys. open_edges E (set (P @ [key])) k = 0}" by (auto simp: new(1))
  have "open_edges E (set P) key = 0" using sets by auto
  then have "d \<in> set (take i (P @ [key]))" if "i < length (P @ [key])" "((P @ [key]) ! i, d) \<in> set E" for i d
    using that topo [of i d] by (cases "i < length P") (auto simp: nth_append open_edges_0 less_Suc_eq)
  with S D dist fresh new(1,2) show ?thesis unfolding resolving_def by auto
qed

lemma kahn_resolves:
  assumes "resolving E keys P queue indegree" "fst ` set E \<subseteq> keys" "\<And>k. dependents k = map fst (filter (\<lambda>e. snd e = k) E)"
  shows "\<exists>Q indegree'. kahn dependents queue indegree (length P) = (length Q, indegree') \<and> resolving E keys Q [] indegree'"
  using assms
proof (induction dependents queue indegree "length P" arbitrary: P rule: kahn.induct)
  case (1 dependents indegree)
  then show ?case by auto
next
  case (2 dependents key queue indegree)
  from 2(1) [OF refl, of "P @ [key]"] resolving_step [OF 2(2,3)] 2(3,4) show ?case
    by (simp add: Let_def)
qed

lemma resolving_complete:
  assumes R: "resolving E keys Q [] indegree" and fin: "finite keys" and ends: "fst ` set E \<subseteq> keys" "snd ` set E \<subseteq> keys"
  shows "length Q = card keys \<longleftrightarrow> acyclic (set E)"
proof
  have Q: "set Q = {k \<in> keys. \<forall>d. (k, d) \<in> set E \<longrightarrow> d \<in> set Q}" and dist: "distinct Q"
    and topo: "\<And>i d. i < length Q \<Longrightarrow> (Q ! i, d) \<in> set E \<Longrightarrow> d \<in> set (take i Q)"
    using R by (auto simp: resolving_def open_edges_0)
  {
    assume "length Q = card keys"
    then have all: "set Q = keys" using Q dist fin by (metis (no_types, lifting) card_subset_eq distinct_card mem_Collect_eq subsetI)
    define pos where "pos k = (LEAST i. i < length Q \<and> Q ! i = k)" for k
    have pos: "pos k < length Q \<and> Q ! pos k = k" if "k \<in> keys" for k
      unfolding pos_def by (rule LeastI_ex) (use that all in \<open>auto simp: in_set_conv_nth\<close>)
    have "pos d < pos k" if e: "(k, d) \<in> set E" for k d
    proof -
      from ends e have k: "k \<in> keys" "d \<in> keys" by force+
      from topo [of "pos k" d] pos [OF k(1)] e have "d \<in> set (take (pos k) Q)" by simp
      then obtain i where "i < pos k" "i < length Q" "Q ! i = d" by (auto simp: in_set_conv_nth)
      with Least_le [of "\<lambda>i. i < length Q \<and> Q ! i = d" i] show ?thesis by (simp add: pos_def)
    qed
    then have "set E \<subseteq> (inv_image less_than pos)\<inverse>" by (auto simp: inv_image_def)
    moreover have "acyclic ((inv_image less_than pos)\<inverse>)"
      unfolding acyclic_converse by (intro wf_acyclic wf_inv_image wf_less_than)
    ultimately show "acyclic (set E)" by (rule acyclic_subset [rotated])
  next
    assume ac: "acyclic (set E)"
    have "wf ((set E)\<inverse>)" using ac by (intro finite_acyclic_wf) (simp_all add: acyclic_converse)
    then have "k \<in> keys \<longrightarrow> k \<in> set Q" for k
    proof (induction k rule: wf_induct_rule)
      case (less k)
      then show ?case using ends unfolding Q [THEN eqset_imp_iff, of k] by force
    qed
    then have "set Q = keys" using Q by blast
    with dist show "length Q = card keys" by (metis distinct_card)
  }
qed
lemma validateAcyclic_iff:
  assumes dist: "distinct (map tdKey ts)" and known: "snd ` set (edges ts) \<subseteq> set (map tdKey ts)"
  shows "validateAcyclic ts = None \<longleftrightarrow> acyclic (set (edges ts))"
proof -
  let ?E = "edges ts" let ?keys = "set (map tdKey ts)"
  let ?m = "fold count_task ts ([], [])"
  have ends: "fst ` set ?E \<subseteq> ?keys" by (auto simp: edges_def)
  have deg0: "deg (fst ?m) k = open_edges ?E {} k" for k
    using count_tasks(1) [of ts "([], [])" k] by (simp add: deg_def open_edges_def case_prod_unfold)
  have deps: "dependents_of (snd ?m) k = map fst (filter (\<lambda>e. snd e = k) ?E)" for k
    using count_tasks(2) [of ts "([], [])" k] by (simp add: dependents_of_def)
  let ?q = "map tdKey (filter (\<lambda>t. deg (fst ?m) (tdKey t) = 0) ts)"
  have "resolving ?E ?keys [] ?q (fst ?m)"
    using distinct_map_filter [OF dist, of "\<lambda>t. deg (fst ?m) (tdKey t) = 0"] by (auto simp: resolving_def deg0)
  from kahn_resolves [OF this ends deps] obtain Q i where
    Q: "kahn (dependents_of (snd ?m)) ?q (fst ?m) 0 = (length Q, i)" "resolving ?E ?keys Q [] i" by auto
  have "length ts = card ?keys" using distinct_card [OF dist] by simp
  with resolving_complete [OF Q(2) _ ends known] show ?thesis
    by (simp add: validateAcyclic_def case_prod_unfold Let_def Q(1))
qed

text \<open>What a valid definition is, said without the algorithm.\<close>

definition task_ok :: "taskDecl \<Rightarrow> bool" where
  "task_ok t =
     (tdKey t \<noteq> [] \<and> \<not> HasPrefix (tdKey t) ''$'' \<and> \<not> HasPrefix (tdKey t) TaskKeyCompensationPrefix \<and>
      (tdKind t = KindSleep \<longrightarrow> tdSleepFor t > 0) \<and>
      (tdKind t \<noteq> KindSleep \<and> tdKind t \<noteq> KindSignal \<longrightarrow>
         (case tdArgs t of None \<Rightarrow> False | Some a \<Rightarrow> \<not> HasPrefix (argKind a) ''$'')) \<and>
      (case tdCompensate t of None \<Rightarrow> True | Some c \<Rightarrow> \<not> HasPrefix (argKind c) ''$''))"

definition def_ok :: "definition_rec \<Rightarrow> bool" where
  "def_ok d =
     (dName d \<noteq> [] \<and> dTasks d \<noteq> [] \<and> distinct (map tdKey (dTasks d)) \<and> (\<forall>t\<in>set (dTasks d). task_ok t) \<and>
      (\<forall>t\<in>set (dTasks d). set (tdAfter t) \<subseteq> set (map tdKey (dTasks d))) \<and>
      acyclic {(tdKey t, dep) | t dep. t \<in> set (dTasks d) \<and> dep \<in> set (tdAfter t)})"

lemma KindSignal_not_sleep: "KindSignal \<noteq> KindSleep"
  by (simp add: KindSignal_def KindSleep_def)

lemma validateTask_iff: "validateTask t seen = None \<longleftrightarrow> task_ok t \<and> tdKey t \<notin> set seen"
  using KindSignal_not_sleep by (auto simp: validateTask_def task_ok_def Let_def split: option.splits)

lemma validateTasks_iff:
  "validateTasks ts seen = None \<longleftrightarrow> (\<forall>t\<in>set ts. task_ok t) \<and> distinct (map tdKey ts) \<and> set (map tdKey ts) \<inter> set seen = {}"
proof (induction ts arbitrary: seen)
  case (Cons t ts)
  then show ?case using validateTask_iff [of t seen] by (cases "validateTask t seen") auto
qed simp

lemma set_edges: "set (edges ts) = {(tdKey t, dep) | t dep. t \<in> set ts \<and> dep \<in> set (tdAfter t)}"
  by (auto simp: edges_def)

lemma unknownDep_iff: "unknownDep ts = None \<longleftrightarrow> (\<forall>t\<in>set ts. set (tdAfter t) \<subseteq> set (map tdKey ts))"
  unfolding unknownDep_def edges_def [symmetric] by (auto simp: find_None_iff set_edges)

lemma validate_def_ok: "validate d = None \<longleftrightarrow> def_ok d"
proof (cases "dName d = [] \<or> dTasks d = [] \<or> validateTasks (dTasks d) [] \<noteq> None \<or> unknownDep (dTasks d) \<noteq> None")
  case True
  then show ?thesis using validateTasks_iff [of "dTasks d" "[]"] unknownDep_iff [of "dTasks d"]
    by (auto simp: validate_def def_ok_def split: option.splits)
next
  case False
  then have ok: "\<forall>t\<in>set (dTasks d). task_ok t" "distinct (map tdKey (dTasks d))"
    "\<forall>t\<in>set (dTasks d). set (tdAfter t) \<subseteq> set (map tdKey (dTasks d))"
    using validateTasks_iff [of "dTasks d" "[]"] unknownDep_iff [of "dTasks d"] by auto
  then have "snd ` set (edges (dTasks d)) \<subseteq> set (map tdKey (dTasks d))" unfolding set_edges by fastforce
  from validateAcyclic_iff [OF ok(2) this] ok False show ?thesis
    by (simp add: validate_def def_ok_def set_edges)
qed
text \<open>
  C25: Validation accepts exactly the well-formed definitions. A definition passes
  iff it has a name and at least one task, its task keys are distinct, non-empty
  and free of the reserved prefixes, every task has what its kind needs (a timer a
  positive duration, a handler task arguments of a kind that is not reserved),
  every dependency names a declared task, and the dependency graph has no cycle -
  the toposort, which terminates on every input, finds one exactly when there is
  one, also when a dependency is declared several times.
\<close>

theorem validate_exact: "validate d = None \<longleftrightarrow> def_ok d"
  by (rule validate_def_ok)

section \<open>Running a definition\<close>

datatype runError =
    Invalid defError
  | MarshalPayload string
  | MarshalCompensation string
  | StoreError error

record runOptions =
  roIdemKey :: string
  roMeta :: meta

definition WithIdempotencyKey :: "string \<Rightarrow> runOptions \<Rightarrow> runOptions" where
  "WithIdempotencyKey key ro = ro\<lparr>roIdemKey := key\<rparr>"

definition WithRunMeta :: "string \<Rightarrow> string \<Rightarrow> runOptions \<Rightarrow> runOptions" where
  "WithRunMeta key v ro = ro\<lparr>roMeta := Some (AList.update key v (the_default [] (roMeta ro)))\<rparr>"

definition makeTask :: "taskDecl \<Rightarrow> runError + dagTask" where
  "makeTask t =
     (case (case tdArgs t of None \<Rightarrow> Inr None | Some a \<Rightarrow>
              (case argJSON a of None \<Rightarrow> Inl (MarshalPayload (tdKey t)) | Some b \<Rightarrow> Inr (Some b))) of
        Inl e \<Rightarrow> Inl e
      | Inr payload \<Rightarrow>
          (case (case tdCompensate t of None \<Rightarrow> Inr None | Some c \<Rightarrow>
                   (case argJSON c of None \<Rightarrow> Inl (MarshalCompensation (tdKey t)) | Some b \<Rightarrow> Inr (Some b))) of
             Inl e \<Rightarrow> Inl e
           | Inr undo \<Rightarrow>
               Inr \<lparr>dtKey = tdKey t,
                    dtKind = (case tdArgs t of None \<Rightarrow> tdKind t | Some a \<Rightarrow> argKind a),
                    dtPayload = payload, dtMaxAttempts = tdMaxRetries t,
                    dtCompensationKind = (case tdCompensate t of None \<Rightarrow> [] | Some c \<Rightarrow> argKind c),
                    dtCompensationPayload = undo,
                    dtSignalName = (if tdKind t = KindSleep \<or> tdKind t = KindSignal then tdKey t else []),
                    dtSleepFor = tdSleepFor t, dtIgnoreDeadDeps = tdIgnoreDeadDeps t, dtDeadline = tdDeadline t\<rparr>))"

fun makeTasks :: "taskDecl list \<Rightarrow> runError + dagTask list" where
  "makeTasks [] = Inr []"
| "makeTasks (t # ts) =
     (case makeTask t of
        Inl e \<Rightarrow> Inl e
      | Inr task \<Rightarrow> (case makeTasks ts of Inl e \<Rightarrow> Inl e | Inr tasks \<Rightarrow> Inr (task # tasks)))"

definition run_meta :: "definition_rec \<Rightarrow> runOptions \<Rightarrow> meta" where
  "run_meta d ro =
     (case roMeta ro of
        Some (kv # kvs) \<Rightarrow> Some (AList.updates (map fst (kv # kvs)) (map snd (kv # kvs))
          (AList.updates (map fst (the_default [] (dMeta d))) (map snd (the_default [] (dMeta d))) []))
      | _ \<Rightarrow> dMeta d)"

definition makeParams :: "uuid \<Rightarrow> definition_rec \<Rightarrow> (runOptions \<Rightarrow> runOptions) list \<Rightarrow> runError + dagParams" where
  "makeParams newID d opts =
     (case validate d of
        Some e \<Rightarrow> Inl (Invalid e)
      | None \<Rightarrow>
          let ro = fold (\<lambda>opt r. opt r) opts \<lparr>roIdemKey = [], roMeta = None\<rparr>
          in case makeTasks (dTasks d) of
               Inl e \<Rightarrow> Inl e
             | Inr tasks \<Rightarrow>
                 Inr \<lparr>dgID = newID, dgName = dName d, dgOnFailure = Some (dOnFailure d),
                      dgIdempotencyKey = roIdemKey ro, dgMeta = run_meta d ro, dgTasks = tasks,
                      dgDeps = map (\<lambda>(k, dep). \<lparr>ddTaskKey = k, ddDependsOnKey = dep\<rparr>) (edges (dTasks d))\<rparr>)"

text \<open>\<open>Client.Run\<close>: the id of the run, and whether it was deduplicated.\<close>

definition Run ::
  "(nat \<Rightarrow> uuid) \<Rightarrow> definition_rec \<Rightarrow> (runOptions \<Rightarrow> runOptions) list \<Rightarrow> fake \<Rightarrow> (runError + uuid \<times> bool) \<times> fake" where
  "Run gen d opts s =
     (if validate d \<noteq> None then (Inl (Invalid (the (validate d))), s)
      else
        let s1 = s\<lparr>draws := Suc (draws s)\<rparr>
        in case makeParams (gen (draws s)) d opts of
             Inl e \<Rightarrow> (Inl e, s1)
           | Inr p \<Rightarrow>
               (case CreateDAG gen p s1 of
                  (Inl e, s2) \<Rightarrow> (Inl (StoreError e), s2)
                | (Inr (inserted, existing), s2) \<Rightarrow>
                    (Inr (if inserted then (dgID p, False) else (existing, True)), s2)))"

text \<open>\<open>Client.Signal\<close> and \<open>Client.SignalByKey\<close>; \<open>body\<close> is the encoded payload.\<close>

definition ClientSignal :: "(nat \<Rightarrow> uuid) \<Rightarrow> uuid \<Rightarrow> string \<Rightarrow> raw \<Rightarrow> string \<Rightarrow> fake \<Rightarrow> (fake, unit) outcome" where
  "ClientSignal gen did name body messageID s =
     (case Signal gen \<lparr>dspDAGID = did, dspName = name, dspMessageID = messageID, dspPayload = body\<rparr> s of
        (Inl e, s') \<Rightarrow> (Inl e, s') | (Inr r, s') \<Rightarrow> (Inr (), s'))"

definition SignalByKey ::
  "(nat \<Rightarrow> uuid) \<Rightarrow> string \<Rightarrow> string \<Rightarrow> string \<Rightarrow> raw \<Rightarrow> string \<Rightarrow> fake \<Rightarrow> (fake, unit) outcome" where
  "SignalByKey gen name key signalName body messageID s =
     (case FindDAGByKey name key s of
        Inl e \<Rightarrow> (Inl e, s) | Inr did \<Rightarrow> ClientSignal gen did signalName body messageID s)"

text \<open>One pass of the worker's scheduler; a failed step is logged and the next one still runs.\<close>

definition schedulerPass :: "(nat \<Rightarrow> uuid) \<Rightarrow> fake \<Rightarrow> fake" where
  "schedulerPass gen s =
     (let s1 = snd (PromoteUnblocked s);
          s2 = snd (DeliverBufferedSignals s1);
          s3 = snd (CompleteDueSleeps s2);
          s4 = snd (ApplyFailurePolicy gen s3)
      in snd (CompleteDAGs s4))"

section \<open>What a run inserts\<close>

lemma makeTasks_nth:
  "makeTasks ts = Inr tasks \<Longrightarrow> length tasks = length ts \<and> (\<forall>i<length ts. makeTask (ts ! i) = Inr (tasks ! i))"
proof (induction ts arbitrary: tasks)
  case (Cons t ts)
  then obtain task rest where r: "makeTask t = Inr task" "makeTasks ts = Inr rest" "tasks = task # rest"
    by (auto split: sum.splits)
  with Cons.IH [OF r(2)] show ?case by (auto simp: nth_Cons split: nat.split)
qed simp

lemma makeTask_key: "makeTask t = Inr task \<Longrightarrow> dtKey task = tdKey t"
  by (auto simp: makeTask_def split: option.splits)

lemma map_eqI_nth: "length xs = length ys \<Longrightarrow> (\<And>i. i < length ys \<Longrightarrow> f (xs ! i) = g (ys ! i)) \<Longrightarrow> map f xs = map g ys"
  by (rule nth_equalityI) simp_all

lemma makeTasks_keys: "makeTasks ts = Inr tasks \<Longrightarrow> map dtKey tasks = map tdKey ts"
  using makeTasks_nth [of ts tasks] by (auto intro!: map_eqI_nth makeTask_key)

lemma task_job_fields [simp]:
  "jID (task_job w tk b now jid sq) = jid" "jTaskKey (task_job w tk b now jid sq) = dtKey tk"
  "jState (task_job w tk b now jid sq) = task_state tk b" "jKind (task_job w tk b now jid sq) = dtKind tk"
  "jDAGID (task_job w tk b now jid sq) = wID w" "jSource (task_job w tk b now jid sq) = SourceDAG"
  "jPayload (task_job w tk b now jid sq) = dtPayload tk" "job_ok (task_job w tk b now jid sq)"
  by (simp_all add: task_job_def zeroJob_def clonePayload_def job_ok_def)

lemma insert_step:
  "clock (insertDAGTask gen w tk b now s) = clock s" "draws (insertDAGTask gen w tk b now s) = Suc (draws s)"
  "jobSeq (insertDAGTask gen w tk b now s) = jobSeq s + 1"
  "jobs (insertDAGTask gen w tk b now s) =
     AList.update (gen (draws s)) (task_job w tk b now (gen (draws s)) (jobSeq s + 1)) (jobs s)"
  by (simp_all add: insertDAGTask_def nextSeq_def Let_def)

lemma insert_fold:
  assumes "fresh_ids gen (length tks) s"
  shows "(\<forall>i<length tks. map_of (jobs (fold (\<lambda>tk st. insertDAGTask gen w tk (B tk) now st) tks s)) (gen (draws s + i)) =
      Some (task_job w (tks ! i) (B (tks ! i)) now (gen (draws s + i)) (jobSeq s + 1 + int i))) \<and>
    (\<forall>k. k \<notin> gen ` {draws s ..< draws s + length tks} \<longrightarrow>
      map_of (jobs (fold (\<lambda>tk st. insertDAGTask gen w tk (B tk) now st) tks s)) k = map_of (jobs s) k)"
  using assms
proof (induction tks arbitrary: s)
  case (Cons tk tks)
  let ?s = "insertDAGTask gen w tk (B tk) now s"
  have inj: "inj_on gen {draws s ..< draws s + Suc (length tks)}"
    and none: "\<And>i. i \<in> {draws s ..< draws s + Suc (length tks)} \<Longrightarrow> map_of (jobs s) (gen i) = None"
    using Cons.prems by (auto simp: fresh_ids_def)
  have ne: "gen (draws s) \<noteq> gen i" if "i \<in> {Suc (draws s) ..< Suc (draws s) + length tks}" for i
    using inj_onD [OF inj, of "draws s" i] that by auto
  have "fresh_ids gen (length tks) ?s"
    unfolding fresh_ids_def insert_step using none ne [THEN not_sym] inj_on_subset [OF inj]
    by (auto simp: AList.update_conv')
  note IH = Cons.IH [OF this, unfolded insert_step]
  show ?case
  proof (intro conjI allI impI)
    fix i assume i: "i < length (tk # tks)"
    show "map_of (jobs (fold (\<lambda>tk st. insertDAGTask gen w tk (B tk) now st) (tk # tks) s)) (gen (draws s + i)) =
      Some (task_job w ((tk # tks) ! i) (B ((tk # tks) ! i)) now (gen (draws s + i)) (jobSeq s + 1 + int i))"
    proof (cases i)
      case 0
      have "gen (draws s) \<notin> gen ` {Suc (draws s) ..< Suc (draws s) + length tks}" using ne by (metis imageE)
      with IH 0 show ?thesis by (simp add: AList.update_conv')
    next
      case (Suc i')
      with i IH show ?thesis by (simp add: algebra_simps)
    qed
  next
    fix k assume "k \<notin> gen ` {draws s ..< draws s + length (tk # tks)}"
    then have "k \<noteq> gen (draws s)" "k \<notin> gen ` {Suc (draws s) ..< Suc (draws s) + length tks}" by auto
    with IH show "map_of (jobs (fold (\<lambda>tk st. insertDAGTask gen w tk (B tk) now st) (tk # tks) s)) k = map_of (jobs s) k"
      by (simp add: AList.update_conv')
  qed
qed simp
definition dag_deps :: "definition_rec \<Rightarrow> dagDep list" where
  "dag_deps d = map (\<lambda>(k, dep). \<lparr>ddTaskKey = k, ddDependsOnKey = dep\<rparr>) (edges (dTasks d))"

lemma dag_deps_keys: "k \<in> ddTaskKey ` set (dag_deps d) \<longleftrightarrow> (\<exists>t\<in>set (dTasks d). tdKey t = k \<and> tdAfter t \<noteq> [])"
proof -
  have "ddTaskKey ` set (dag_deps d) = fst ` set (edges (dTasks d))"
    by (simp add: dag_deps_def image_image case_prod_unfold)
  also have "\<dots> = {k. \<exists>t\<in>set (dTasks d). tdKey t = k \<and> tdAfter t \<noteq> []}"
    unfolding set_edges by (auto simp: image_iff) (metis list.set_sel(1))
  finally show ?thesis by simp
qed

lemma CreateDAG_inserts:
  assumes nodup: "dgIdempotencyKey p = [] \<or> find (live_dag (dgName p) (dgIdempotencyKey p)) (map snd (dags s)) = None"
    and new: "map_of (dags s) (dgID p) = None" and keys: "distinct (map dtKey (dgTasks p))"
    and fresh: "fresh_ids gen (length (dgTasks p)) s"
  obtains s' where "CreateDAG gen p s = (Inr (True, Nil_uuid), s')"
    "map_of (dags s') = (map_of (dags s))(dgID p \<mapsto> new_dag p (clock s))"
    "\<forall>i<length (dgTasks p). \<exists>sq. map_of (jobs s') (gen (draws s + i)) = Some (task_job (new_dag p (clock s)) (dgTasks p ! i)
       (dtKey (dgTasks p ! i) \<in> ddTaskKey ` set (dgDeps p)) (clock s) (gen (draws s + i)) sq)"
    "\<forall>k. k \<notin> gen ` {draws s ..< draws s + length (dgTasks p)} \<longrightarrow> map_of (jobs s') k = map_of (jobs s) k"
proof -
  let ?w = "new_dag p (clock s)" let ?s1 = "changeDAG ?w (putDAG ?w s)"
  let ?s2 = "fold (\<lambda>tk st. insertDAGTask gen ?w tk (dtKey tk \<in> ddTaskKey ` set (dgDeps p)) (clock s) st) (dgTasks p) ?s1"
  have "(if dgIdempotencyKey p \<noteq> [] then find (live_dag (dgName p) (dgIdempotencyKey p)) (map snd (dags s)) else None) = None"
    using nodup by auto
  then have run: "CreateDAG gen p s = (Inr (True, Nil_uuid), ?s2)"
    using new keys by (simp add: CreateDAG_def Let_def)
  have d: "dags ?s2 = dags ?s1" by (rule fold_frame) simp
  have "fresh_ids gen (length (dgTasks p)) ?s1" using fresh by (simp add: fresh_ids_def)
  note F = insert_fold [OF this, of ?w "\<lambda>tk. dtKey tk \<in> ddTaskKey ` set (dgDeps p)" "clock s"]
  show thesis
  proof (rule that [OF run])
    show "map_of (dags ?s2) = (map_of (dags s))(dgID p \<mapsto> ?w)"
      unfolding d by (simp add: AList.update_conv' new_dag_def)
  qed (use F in auto)
qed

text \<open>A diamond-free saga of three tasks: a charge, a pause, then a shipment.\<close>

definition run_def :: definition_rec where
  "run_def = Task ''ship'' (Some \<lparr>argKind = ''ship.order'', argJSON = Some ''{}''\<rparr>) [After [''nap'', ''charge'']]
     (Sleep ''nap'' 60 [After [''charge'']]
       (Task ''charge'' (Some \<lparr>argKind = ''charge.card'', argJSON = Some ''{}''\<rparr>) [] (Define ''saga'' [])))"

lemma run_def_valid: "validate run_def = None"
  by code_simp


section \<open>The scheduler makes progress\<close>

lemma dagTask_of_key:
  assumes wf: "wf_jobs s" and dist: "distinct (map jTaskKey (dagJobsLocked did s))" and j: "j \<in> set (dagJobsLocked did s)"
  shows "dagTaskLocked did (jTaskKey j) s = Some j"
proof -
  from j have "\<exists>x\<in>set (map snd (jobs s)). dag_of did x \<and> jTaskKey x = jTaskKey j" by (auto simp: dagJobsLocked_def)
  then obtain x where x: "dagTaskLocked did (jTaskKey j) s = Some x"
    unfolding dagTaskLocked_def using find_None_iff [of "\<lambda>x. dag_of did x \<and> jTaskKey x = jTaskKey j" "map snd (jobs s)"]
    by (cases "find (\<lambda>x. dag_of did x \<and> jTaskKey x = jTaskKey j) (map snd (jobs s))") auto
  then have "x \<in> set (map snd (jobs s))" "dag_of did x" "jTaskKey x = jTaskKey j"
    unfolding dagTaskLocked_def by (auto simp: find_Some_iff)
  then have "x \<in> set (dagJobsLocked did s)" by (auto simp: dagJobsLocked_def)
  with dist j \<open>jTaskKey x = jTaskKey j\<close> x show ?thesis by (auto simp: distinct_map dest: inj_onD)
qed

text \<open>
  The tasks of a run are those of its definition, the header is running, and
  nothing of it is runnable, leased, timed, waiting or paused.
\<close>

definition idle_run :: "definition_rec \<Rightarrow> uuid \<Rightarrow> fakeDAG \<Rightarrow> fake \<Rightarrow> bool" where
  "idle_run d did w s =
     (map_of (dags s) did = Some w \<and> wState w = DAGRunning \<and> deps w = dag_deps d \<and>
      distinct (map jTaskKey (dagJobsLocked did s)) \<and>
      set (map jTaskKey (dagJobsLocked did s)) = set (map tdKey (dTasks d)) \<and>
      (\<forall>j\<in>set (dagJobsLocked did s). jState j \<in> {StateBlocked, StateSucceeded, StateSkipped, StateDead}))"

lemma idle_run_progress:
  assumes wf: "wf_dags s" and ok: "def_ok d" and idle: "idle_run d did w s"
  shows "(\<exists>j\<in>set (dagJobsLocked did s). unblockable s j) \<or> triggeringDeadTasksLocked w s \<noteq> [] \<or> completed_header w s \<noteq> None"
proof (rule ccontr)
  assume "\<not> ?thesis"
  then have nop: "\<forall>j\<in>set (dagJobsLocked did s). \<not> unblockable s j" and not: "triggeringDeadTasksLocked w s = []"
    and noc: "completed_header w s = None" by auto
  note wfj = wf_dagsD(1) [OF wf]
  from idle have at: "map_of (dags s) did = Some w" and run: "wState w = DAGRunning" and deps: "deps w = dag_deps d"
    and dist: "distinct (map jTaskKey (dagJobsLocked did s))"
    and keys: "jTaskKey ` set (dagJobsLocked did s) = set (map tdKey (dTasks d))"
    and states: "\<And>j. j \<in> set (dagJobsLocked did s) \<Longrightarrow> jState j \<in> {StateBlocked, StateSucceeded, StateSkipped, StateDead}"
    by (auto simp: idle_run_def)
  have id: "wID w = did" by (rule wf_dagsD(3) [OF wf at])
  note task = dagTask_of_key [OF wfj dist]
  let ?E = "{(tdKey t, dep) | t dep. t \<in> set (dTasks d) \<and> dep \<in> set (tdAfter t)}"
  have edge: "(ddTaskKey e, ddDependsOnKey e) \<in> ?E" if "e \<in> set (deps w)" for e
    using that unfolding deps dag_deps_def set_edges [symmetric] by auto
  have tol: "tolerated did w s j" if "j \<in> set (dagJobsLocked did s)" "jState j = StateDead" for j
  proof -
    have "set (triggeringDeadTasksLocked w s) = {}" using not by simp
    then show ?thesis using that ignored_iff [OF id, of j s] by (auto simp: triggeringDeadTasksLocked_def id)
  qed
  have wfE: "wf (?E\<inverse>)" using ok by (intro finite_acyclic_wf) (auto simp: def_ok_def acyclic_converse set_edges [symmetric])
  have "jState j \<noteq> StateBlocked" if "j \<in> set (dagJobsLocked did s)" "jTaskKey j = key" for key j
    using wfE that
  proof (induction key arbitrary: j rule: wf_induct_rule)
    case (less key)
    have "\<exists>t. dagTaskLocked (wID w) (ddDependsOnKey e) s = Some t \<and>
        (jState t \<in> {StateSucceeded, StateSkipped} \<or> jIgnoreDeadDeps j \<and> jState t \<in> {StateDead, StateCancelled})"
      if e: "e \<in> set (deps w)" "ddTaskKey e = jTaskKey j" for e
    proof -
      from edge [OF e(1)] e(2) less.prems(2) have E: "(key, ddDependsOnKey e) \<in> ?E" by simp
      then have "ddDependsOnKey e \<in> set (map tdKey (dTasks d))" using ok by (auto simp: def_ok_def)
      then obtain t where t: "t \<in> set (dagJobsLocked did s)" "jTaskKey t = ddDependsOnKey e" using keys by force
      from less.IH [OF _ t] E states [OF t(1)] have st: "jState t \<in> {StateSucceeded, StateSkipped, StateDead}" by auto
      have "jIgnoreDeadDeps j" if "jState t = StateDead"
        using tol [OF t(1) that] e t(2) task [OF less.prems(1)] by (force simp: tolerated_def)
      with st task [OF t(1)] t(2) id show ?thesis by auto
    qed
    then have "unblockable s j" if "jState j = StateBlocked"
      unfolding unblockable_deps using that at run less.prems(1) by (auto simp: in_dagJobs [OF wfj] dag_of_def)
    with nop less.prems(1) show ?case by blast
  qed
  then have "\<forall>j\<in>set (dagJobsLocked did s). jState j \<in> {StateSucceeded, StateSkipped} \<or> jState j = StateDead \<and> tolerated did w s j"
    using states tol by blast
  moreover have "set (dagJobsLocked did s) \<noteq> {}" using keys ok by (auto simp: def_ok_def)
  ultimately have "dag_verdict did w s \<noteq> None" by (simp add: dag_verdict_def Let_def run)
  with noc completed_header_verdict [OF id, of s] show False by simp
qed

text \<open>
  C29: A run never gets stuck by itself. In a run of a valid definition that is
  still running while none of its tasks is runnable, leased, timed, waiting or
  paused, the next scheduler pass has work to do on it: promotion releases a
  blocked task, or a dead task triggers the failure policy, or completion settles
  the run as succeeded or failed.
\<close>

theorem scheduler_progress:
  assumes wf: "wf_dags s" and valid: "validate d = None" and idle: "idle_run d did w s"
  shows "(\<exists>n>0. fst (PromoteUnblocked s) = Inr n) \<or>
    triggeringDeadTasksLocked w s \<noteq> [] \<or>
    (\<exists>w'. map_of (dags (snd (CompleteDAGs s))) did = Some w' \<and> wState w' \<in> {DAGSucceeded, DAGFailed})"
proof -
  from valid have ok: "def_ok d" by (simp add: validate_def_ok)
  have at: "map_of (dags s) did = Some w" and run: "wState w = DAGRunning" using idle by (auto simp: idle_run_def)
  consider j where "j \<in> set (dagJobsLocked did s)" "unblockable s j" | "triggeringDeadTasksLocked w s \<noteq> []"
    | w' where "completed_header w s = Some w'"
    using idle_run_progress [OF wf ok idle] by blast
  then show ?thesis
  proof cases
    case (1 j)
    then have "filter (unblockable s) (map snd (jobs s)) \<noteq> []" by (auto simp: filter_empty_conv dagJobsLocked_def)
    moreover have "fst (PromoteUnblocked s) = Inr (int (length (filter (unblockable s) (map snd (jobs s)))))"
      by (rule PromoteUnblocked_result [OF wf_dagsD(1) [OF wf]]) (simp only: fst_conv)
    ultimately show ?thesis by (metis length_greater_0_conv of_nat_0_less_iff)
  next
    case (3 w')
    have "map_of (dags (snd (CompleteDAGs s))) did = Some w'"
    proof (rule CompleteDAGs_result [OF wf])
      fix s'
      assume "CompleteDAGs s = (Inr (int (length (filter (\<lambda>w. completed_header w s \<noteq> None) (map snd (dags s))))), s')"
        and M: "map_of (dags s') = (\<lambda>k. map_option (\<lambda>w. the_default w (completed_header w s)) (map_of (dags s) k))"
      then have "snd (CompleteDAGs s) = s'" by (simp only: snd_conv)
      then show ?thesis using fun_cong [OF M, of did] at 3 by simp
    qed
    with completed_header_states [OF 3] run show ?thesis by auto
  qed simp
qed
text \<open>\<open>run_napping\<close>: the charge of the saga is done and its timer is still blocked.\<close>

definition run_napping :: fake where
  "run_napping =
     (let s = snd (Run (\<lambda>n. 50 + n) run_def [] (NewFake 100));
          s1 = snd (DequeueBatch (\<lambda>n. 50 + n) SourceDAG
                 \<lparr>dpKind = ''charge.card'', dpLimit = 1, dpLease = 30, dpDefaultMaxAttempts = 5, dpOverrideDefault = True\<rparr> s)
      in snd (AckTaskResult 51 (50 + draws s) (Some ''ok'') s1))"

theorem scheduler_progress_witness:
  "idle_run run_def 50 (the (map_of (dags run_napping) 50)) run_napping \<and>
   ((\<exists>n>0. fst (PromoteUnblocked run_napping) = Inr n) \<or>
    triggeringDeadTasksLocked (the (map_of (dags run_napping) 50)) run_napping \<noteq> [] \<or>
    (\<exists>w'. map_of (dags (snd (CompleteDAGs run_napping))) 50 = Some w' \<and> wState w' \<in> {DAGSucceeded, DAGFailed}))"
proof -
  have "wf_dags run_napping" "idle_run run_def 50 (the (map_of (dags run_napping) 50)) run_napping" by code_simp+
  with scheduler_progress [OF _ run_def_valid] show ?thesis by blast
qed

end
