(* ===== verification/Dag_Signals.thy ===== *)
theory Dag_Signals
  imports Dag_Scheduler
begin

text \<open>
  Signals of the DAG runtime (\<open>fake_dag.go\<close>: \<open>Signal\<close>, \<open>deliverSignalNowLocked\<close>):
  delivery to the tasks that wait for a name, buffering in the inbox, and
  deduplication by message id.
\<close>

section \<open>Signals\<close>

definition sig_target :: "uuid \<Rightarrow> string \<Rightarrow> fakeJob \<Rightarrow> bool" where
  "sig_target did name j = (dag_of did j \<and> jSignalName j = name \<and> deliverable j)"

definition signalled :: "raw \<Rightarrow> time \<Rightarrow> fakeJob \<Rightarrow> fakeJob" where
  "signalled payload now j = (if jKind j = KindSignal then take_signal payload now j else j\<lparr>jRunAt := now\<rparr>)"

lemma sig_kinds: "KindSignal \<noteq> KindSleep"
  by (simp add: KindSignal_def KindSleep_def)

lemma signalled_fields [simp]:
  "jID (signalled p now j) = jID j" "deliverable j \<Longrightarrow> job_ok j \<Longrightarrow> job_ok (signalled p now j)"
  by (auto simp: signalled_def take_signal_def job_ok_def deliverable_def)

lemma deliver_body_eq:
  "deliver_body did sig now k j st =
     (if sig_target did (sgName sig) j
      then (fst st + 1, if jKind j = KindSignal then changeJob (signalled (sgPayload sig) now j) (putJob (signalled (sgPayload sig) now j) (snd st))
                        else putJob (signalled (sgPayload sig) now j) (snd st))
      else st)"
  using sig_kinds
  by (auto simp: deliver_body_def sig_target_def deliverable_def signalled_def Let_def case_prod_unfold)

interpretation sigloop: pointwise_loop "jobs \<circ> snd" "deliver_body did sig now" "\<lambda>st. wf_jobs (snd st) \<and> dags (snd st) = ds"
    "\<lambda>j. Some (if sig_target did (sgName sig) j then signalled (sgPayload sig) now j else j)" for did sig now ds
proof (unfold_locales, goal_cases)
  case (1 st k v)
  then have "wf_jobs (putJob (signalled (sgPayload sig) now v) (snd st))" if "sig_target did (sgName sig) v"
    using that by (intro wf_jobs_putJob) (auto simp: sig_target_def dest: wf_jobsD)
  with 1 show ?case by (auto simp: deliver_body_eq)
next
  case (2 st k v)
  then have "jID v = k" by (auto dest: wf_jobsD)
  moreover have "k \<in> fst ` set (jobs (snd st))" using 2(2) by (force dest: map_of_SomeD)
  ultimately show ?case using 2 by (auto simp: deliver_body_eq AList.update_conv' update_keys_in fun_eq_iff)
qed

lemma deliverSignal_result:
  fixes sig :: fakeDAGSignal
  assumes wf: "wf_jobs s" and at: "map_of (dags s) did = Some w" "wID w = did"
  defines "n \<equiv> length (filter (sig_target did (sgName sig)) (map snd (jobs s)))"
  shows "\<exists>s'. deliverSignalNowLocked did sig now s = (int n, s') \<and> wf_jobs s' \<and>
    map_of (jobs s') = (\<lambda>k. map_option (\<lambda>j. if sig_target did (sgName sig) j then signalled (sgPayload sig) now j else j) (map_of (jobs s) k)) \<and>
    map_of (dags s') = (map_of (dags s))(did \<mapsto> (if n > 0 then consume (sgID sig) w else w))"
proof -
  let ?r = "range_fold (jobs \<circ> snd) (deliver_body did sig now) (0::int, s)"
  have I: "wf_jobs (snd (0::int, s)) \<and> dags (snd (0::int, s)) = dags s" using wf by simp
  have d: "distinct_keys ((jobs \<circ> snd) (0::int, s))" using wf by (simp add: wf_jobsD)
  note L = sigloop.loop_get [OF I d, of did sig now]
  have "fst ?r = fst (0::int, s) + sum_list (map (\<lambda>(k, v). if sig_target did (sgName sig) v then 1 else 0) ((jobs \<circ> snd) (0::int, s)))"
    by (rule sigloop.loop_acc [OF I d]) (auto simp: deliver_body_eq)
  then have cnt: "fst ?r = int n" by (simp add: sum_list_count_values n_def)
  have D: "dags (snd ?r) = dags s" "wf_jobs (snd ?r)" using L(2) by simp_all
  have M: "map_of (jobs (snd ?r)) = (\<lambda>k. map_option (\<lambda>j. if sig_target did (sgName sig) j then signalled (sgPayload sig) now j else j) (map_of (jobs s) k))"
    using L(1) by (auto simp: fun_eq_iff split: option.splits bind_splits)
  let ?s' = "if n > 0 then putDAG (consume (sgID sig) w) (snd ?r) else snd ?r"
  have run: "deliverSignalNowLocked did sig now s = (int n, ?s')"
    using cnt at D(1) by (simp add: deliverSignalNowLocked_def case_prod_unfold Let_def)
  have "jobs ?s' = jobs (snd ?r)" "wf_jobs ?s'" using D(2) by simp_all
  moreover have "map_of (dags ?s') = (map_of (dags s))(did \<mapsto> (if n > 0 then consume (sgID sig) w else w))"
    using at D(1) by (auto simp: AList.update_conv' consume_def fun_eq_iff)
  ultimately show ?thesis using run M by (intro exI [of _ ?s'] conjI) simp_all
qed

text \<open>The newest entry of the inbox records the signal, consumed or not.\<close>

definition recorded :: "dagSignalParams \<Rightarrow> bool \<Rightarrow> fakeDAG \<Rightarrow> bool" where
  "recorded p c w =
     (signals w \<noteq> [] \<and> sgName (last (signals w)) = dspName p \<and> sgMessageID (last (signals w)) = dspMessageID p \<and>
      sgPayload (last (signals w)) = dspPayload p \<and> sgConsumed (last (signals w)) = c)"

definition seen_before :: "dagSignalParams \<Rightarrow> fakeDAG \<Rightarrow> bool" where
  "seen_before p w = (dspMessageID p \<noteq> [] \<and>
     (\<exists>sg\<in>set (signals w). sgName sg = dspName p \<and> sgMessageID sg = dspMessageID p))"

lemma Signal_dropped:
  "map_of (dags s) (dspDAGID p) = Some w \<Longrightarrow> \<not> terminal w \<Longrightarrow> seen_before p w \<Longrightarrow> Signal gen p s = (Inr (0, True), s)"
  by (auto simp: Signal_def seen_before_def list_ex_iff)

lemma Signal_new:
  assumes wf: "wf_dags s" and at: "map_of (dags s) (dspDAGID p) = Some w" and live: "\<not> terminal w" and new: "\<not> seen_before p w"
  defines "n \<equiv> length (filter (sig_target (dspDAGID p) (dspName p)) (map snd (jobs s)))"
  shows "\<exists>s' w'. Signal gen p s = (Inr (int n, False), s') \<and>
    (\<forall>k. map_of (jobs s') k = map_option (\<lambda>j. if sig_target (dspDAGID p) (dspName p) j
       then signalled (dspPayload p) (clock s) j else j) (map_of (jobs s) k)) \<and>
    map_of (dags s') (dspDAGID p) = Some w' \<and> wState w' = wState w \<and> recorded p (n > 0) w'"
proof -
  let ?did = "dspDAGID p"
  define sig where "sig = \<lparr>sgID = gen (draws s), sgName = dspName p, sgMessageID = dspMessageID p,
      sgPayload = clonePayload (dspPayload p), sgConsumed = False, sgCreatedAt = clock s, sgSeq = jobSeq s + 1\<rparr>"
  define w2 where "w2 = w\<lparr>signals := signals w @ [sig]\<rparr>"
  define s2 where "s2 = putDAG w2 (s\<lparr>draws := Suc (draws s), jobSeq := jobSeq s + 1\<rparr>)"
  have id: "wID w2 = ?did" using wf_dagsD(3) [OF wf at] by (simp add: w2_def)
  have f: "jobs s2 = jobs s" "sgName sig = dspName p" "sgPayload sig = dspPayload p"
    by (simp_all add: s2_def sig_def clonePayload_def)
  have wf2: "wf_jobs s2" using wf_dagsD(1) [OF wf] by (simp add: wf_jobs_def f)
  have at2: "map_of (dags s2) ?did = Some w2" using id by (simp add: s2_def AList.update_conv')
  from deliverSignal_result [OF wf2 at2 id, of sig "clock s", unfolded f, folded n_def] obtain s' where
    R: "deliverSignalNowLocked ?did sig (clock s) s2 = (int n, s')"
    "map_of (jobs s') = (\<lambda>k. map_option (\<lambda>j. if sig_target ?did (dspName p) j then signalled (dspPayload p) (clock s) j else j) (map_of (jobs s) k))"
    "map_of (dags s') = (map_of (dags s2))(?did \<mapsto> (if n > 0 then consume (sgID sig) w2 else w2))" by blast
  have run: "Signal gen p s = (Inr (int n, False), s')"
    using at live new R(1) unfolding Signal_def s2_def w2_def sig_def seen_before_def
    by (simp add: list_ex_iff nextSeq_def Let_def)
  have w': "map_of (dags s') ?did = Some (if n > 0 then consume (sgID sig) w2 else w2)" using R(3) by simp
  have "wState (if n > 0 then consume (sgID sig) w2 else w2) = wState w"
    "recorded p (n > 0) (if n > 0 then consume (sgID sig) w2 else w2)"
    by (simp_all add: consume_def recorded_def clonePayload_def w2_def sig_def)
  with run R(2) w' show ?thesis by (intro exI [of _ s'] exI [of _ "if n > 0 then consume (sgID sig) w2 else w2"]) simp
qed

lemma recorded_seen: "recorded p c w \<Longrightarrow> dspMessageID p \<noteq> [] \<Longrightarrow> seen_before p w"
  unfolding recorded_def seen_before_def by (meson last_in_set)


text \<open>A DAG with one signal task, and the signal it waits for.\<close>

definition run_wait :: fake where
  "run_wait = snd (CreateDAG (\<lambda>n. 50 + n)
     ((run_saga [])\<lparr>dgTasks := [(run_task ''ok'' [])\<lparr>dtKind := KindSignal, dtSignalName := ''ok''\<rparr>], dgDeps := []\<rparr>) (NewFake 100))"

definition run_ok :: dagSignalParams where
  "run_ok = \<lparr>dspDAGID = 7, dspName = ''ok'', dspMessageID = ''m1'', dspPayload = Some ''yes''\<rparr>"


end
