(* ===== verification/Fake_Workflow.thy ===== *)
theory Fake_Workflow
  imports Fake_Ledger
begin

text \<open>
  The workflow-as-code capability of the in-memory store (\<open>fake_wac.go\<close>): execution
  headers, the append-only history, signals, operation jobs with the uncertain
  state, and the stall listing.

  Two operations go through \<open>encoding/json\<close>: the execution key of a history payload
  is read out of its JSON text, and a signal is recorded as the JSON of its name
  and payload. The codec is a parameter (\<open>execKey\<close>, \<open>sigJSON\<close>), so what is proved
  holds for every way of encoding.
\<close>

section \<open>Executions\<close>

definition exec_terminal :: "fakeExecution \<Rightarrow> bool" where
  "exec_terminal e =
     (case exState e of WorkflowSucceeded \<Rightarrow> True | WorkflowFailed \<Rightarrow> True | WorkflowCancelled \<Rightarrow> True | _ \<Rightarrow> False)"

definition exec_live :: "fakeExecution \<Rightarrow> bool" where
  "exec_live e = (exState e = WorkflowRunning \<or> exState e = WorkflowSuspended)"

definition exec_cloneView :: "fakeExecution \<Rightarrow> workflowExecutionView" where
  "exec_cloneView e = workflowExecutionView.truncate
     (e\<lparr>exInput := clonePayload (exInput e), exResult := clonePayload (exResult e), exMeta := cloneMeta (exMeta e)\<rparr>)"

definition workflowTaskKindFmt :: "string \<Rightarrow> string" where
  "workflowTaskKindFmt name = ''$wf:'' @ name"

definition putExec :: "fakeExecution \<Rightarrow> fake \<Rightarrow> fake" where
  [store_defs]: "putExec e s = s\<lparr>executions := AList.update (exID e) e (executions s)\<rparr>"

section \<open>Tasks\<close>

definition wf_runAt :: "time \<Rightarrow> time \<Rightarrow> time" where
  "wf_runAt runAt now = (if runAt = zero_time then now else runAt)"

definition wf_state :: "time \<Rightarrow> time \<Rightarrow> job_state" where
  "wf_state runAt now = (if runAt > now then StateScheduled else StatePending)"

definition wtask_job :: "uuid \<Rightarrow> string \<Rightarrow> time \<Rightarrow> time \<Rightarrow> uuid \<Rightarrow> int \<Rightarrow> fakeJob" where
  "wtask_job wid kind runAt now jid sq =
     zeroJob\<lparr>jID := jid, jSource := SourceWorkflow, jKind := kind, jState := wf_state runAt now, jRunAt := runAt,
       jRunID := wid, jEnqueuedAt := now, seq := sq\<rparr>"

text \<open>The insertion that tasks and operations share: counters, hint and wakeup.\<close>

definition insert_wf_job :: "(uuid \<Rightarrow> int \<Rightarrow> fakeJob) \<Rightarrow> (nat \<Rightarrow> uuid) \<Rightarrow> fake \<Rightarrow> uuid \<times> fake" where
  "insert_wf_job mk gen s =
     (let now = clock s; jid = gen (draws s);
          (sq, s1) = nextSeq (s\<lparr>draws := Suc (draws s)\<rparr>);
          j = mk jid sq;
          s2 = changeJob j (bumpStat SourceWorkflow (jKind j) statEnqueued 1 now (putJob j s1))
      in (jid, if jState j = StatePending then wake SourceWorkflow (jKind j) s2 else s2))"

definition scheduleTaskLocked :: "(nat \<Rightarrow> uuid) \<Rightarrow> uuid \<Rightarrow> string \<Rightarrow> time \<Rightarrow> fake \<Rightarrow> fake" where
  "scheduleTaskLocked gen wid kind runAt s =
     snd (insert_wf_job (wtask_job wid kind (wf_runAt runAt (clock s)) (clock s)) gen s)"

definition ScheduleTask :: "(nat \<Rightarrow> uuid) \<Rightarrow> uuid \<Rightarrow> string \<Rightarrow> time \<Rightarrow> fake \<Rightarrow> (fake, unit) outcome" where
  "ScheduleTask gen wid kind runAt s =
     (if map_of (executions s) wid = None then (Inl (NotFound ''schedule workflow task''), s)
      else (Inr (), scheduleTaskLocked gen wid kind runAt s))"

section \<open>Starting, history and signals\<close>

definition holds_key :: "workflowStartParams \<Rightarrow> fakeExecution \<Rightarrow> bool" where
  "holds_key p e = (exName e = wspName p \<and> exBusinessIdempotencyKey e = wspBusinessIdempotencyKey p \<and> exec_live e)"

definition new_exec :: "workflowStartParams \<Rightarrow> time \<Rightarrow> fakeExecution" where
  "new_exec p now =
     \<lparr>exID = wspID p, exName = wspName p, exVersion = wspVersion p, exState = WorkflowRunning,
      exBusinessIdempotencyKey = wspBusinessIdempotencyKey p,
      exTaskQueue = (if wspTaskQueue p = [] then ''default'' else wspTaskQueue p),
      exInput = clonePayload (wspInput p), exResult = None, exFailureReason = [], exMeta = cloneMeta (wspMeta p),
      exCreatedAt = now, exUpdatedAt = now, exCompletedAt = zero_time,
      history = [\<lparr>heWorkflowID = wspID p, heSeq = 1, heType = ''WorkflowStarted'',
                  hePayload = clonePayload (wspInput p), heCreatedAt = now\<rparr>]\<rparr>"

definition StartWorkflow :: "(nat \<Rightarrow> uuid) \<Rightarrow> workflowStartParams \<Rightarrow> fake \<Rightarrow> (fake, bool \<times> uuid) outcome" where
  "StartWorkflow gen p s =
     (case (if wspBusinessIdempotencyKey p \<noteq> [] then find (holds_key p) (map snd (executions s)) else None) of
        Some e \<Rightarrow> (Inr (False, exID e), s)
      | None \<Rightarrow>
          if map_of (executions s) (wspID p) \<noteq> None then (Inl AlreadyExists, s)
          else (Inr (True, Nil_uuid),
                scheduleTaskLocked gen (wspID p) (workflowTaskKindFmt (wspName p)) zero_time
                  (putExec (new_exec p (clock s)) s)))"

definition GetWorkflowExecution :: "uuid \<Rightarrow> fake \<Rightarrow> error + workflowExecutionView" where
  "GetWorkflowExecution wid s =
     (case map_of (executions s) wid of
        None \<Rightarrow> Inl (NotFound ''get workflow execution'') | Some e \<Rightarrow> Inr (exec_cloneView e))"

definition operationResultTypes :: "string list" where
  "operationResultTypes = [''OperationCompleted'', ''OperationFailed'']"

text \<open>\<open>executionKeyFromPayload\<close>: absent for an empty payload, an undecodable one or an empty key.\<close>

definition executionKeyFromPayload :: "(string \<Rightarrow> string option) \<Rightarrow> raw \<Rightarrow> string option" where
  "executionKeyFromPayload execKey payload =
     (case payload of
        None \<Rightarrow> None
      | Some b \<Rightarrow> if b = [] then None else (case execKey b of None \<Rightarrow> None | Some k \<Rightarrow> if k = [] then None else Some k))"

definition same_result :: "(string \<Rightarrow> string option) \<Rightarrow> string \<Rightarrow> string \<Rightarrow> historyEvent \<Rightarrow> bool" where
  "same_result execKey typ key ev = (heType ev = typ \<and> executionKeyFromPayload execKey (hePayload ev) = Some key)"

definition next_seq :: "historyEvent list \<Rightarrow> int" where
  "next_seq h = (if h = [] then 1 else heSeq (last h) + 1)"

definition append_event :: "uuid \<Rightarrow> string \<Rightarrow> raw \<Rightarrow> time \<Rightarrow> fakeExecution \<Rightarrow> fakeExecution" where
  "append_event wid typ payload now e =
     e\<lparr>history := history e @ [\<lparr>heWorkflowID = wid, heSeq = next_seq (history e), heType = typ,
                               hePayload = payload, heCreatedAt = now\<rparr>]\<rparr>"

definition recorded_result :: "(string \<Rightarrow> string option) \<Rightarrow> string \<Rightarrow> raw \<Rightarrow> historyEvent list \<Rightarrow> historyEvent option" where
  "recorded_result execKey typ payload h =
     (if typ \<in> set operationResultTypes
      then (case executionKeyFromPayload execKey payload of
              None \<Rightarrow> None | Some key \<Rightarrow> find (same_result execKey typ key) h)
      else None)"

definition AppendHistory ::
  "(string \<Rightarrow> string option) \<Rightarrow> uuid \<Rightarrow> string \<Rightarrow> raw \<Rightarrow> fake \<Rightarrow> (fake, int) outcome" where
  "AppendHistory execKey wid typ payload s =
     (case map_of (executions s) wid of
        None \<Rightarrow> (Inl (NotFound ''append history''), s)
      | Some e \<Rightarrow>
          (case recorded_result execKey typ payload (history e) of
             Some ev \<Rightarrow> (Inr (heSeq ev), s)
           | None \<Rightarrow> (Inr (next_seq (history e)), putExec (append_event wid typ (clonePayload payload) (clock s) e) s)))"

definition ListHistory :: "uuid \<Rightarrow> fake \<Rightarrow> error + historyEvent list" where
  "ListHistory wid s =
     (case map_of (executions s) wid of
        None \<Rightarrow> Inl (NotFound ''list history'')
      | Some e \<Rightarrow> Inr (map (\<lambda>ev. ev\<lparr>hePayload := clonePayload (hePayload ev)\<rparr>) (history e)))"

definition SignalWorkflow ::
  "(string \<Rightarrow> raw \<Rightarrow> error + string) \<Rightarrow> (nat \<Rightarrow> uuid) \<Rightarrow> signalParams \<Rightarrow> fake \<Rightarrow> (fake, bool) outcome" where
  "SignalWorkflow sigJSON gen p s =
     (case map_of (executions s) (spWorkflowID p) of
        None \<Rightarrow> (Inl (NotFound ''signal workflow''), s)
      | Some e \<Rightarrow>
          let key = (spWorkflowID p, spName p, spMessageID p) in
          if spMessageID p \<noteq> [] \<and> map_of (signalKeys s) key = Some True then (Inr False, s)
          else
            let s1 = (if spMessageID p \<noteq> [] then s\<lparr>signalKeys := AList.update key True (signalKeys s)\<rparr> else s)
            in case sigJSON (spName p) (spPayload p) of
                 Inl err \<Rightarrow> (Inl err, s1)
               | Inr body \<Rightarrow>
                   let s2 = putExec (append_event (spWorkflowID p) ''SignalReceived'' (Some body) (clock s) e) s1
                   in (Inr True,
                       if exec_terminal e then s2
                       else scheduleTaskLocked gen (spWorkflowID p) (workflowTaskKindFmt (exName e)) zero_time s2))"

section \<open>Settling an execution\<close>

definition CompleteWorkflow :: "uuid \<Rightarrow> raw \<Rightarrow> fake \<Rightarrow> (fake, unit) outcome" where
  "CompleteWorkflow wid result s =
     (case map_of (executions s) wid of
        None \<Rightarrow> (Inl (NotFound ''complete workflow''), s)
      | Some e \<Rightarrow> (Inr (), putExec (e\<lparr>exState := WorkflowSucceeded, exResult := clonePayload result,
                                      exUpdatedAt := clock s, exCompletedAt := clock s\<rparr>) s))"

definition FailWorkflow :: "uuid \<Rightarrow> string \<Rightarrow> fake \<Rightarrow> (fake, unit) outcome" where
  "FailWorkflow wid reason s =
     (case map_of (executions s) wid of
        None \<Rightarrow> (Inl (NotFound ''fail workflow''), s)
      | Some e \<Rightarrow> (Inr (), putExec (e\<lparr>exState := WorkflowFailed, exFailureReason := reason,
                                      exUpdatedAt := clock s, exCompletedAt := clock s\<rparr>) s))"

definition CancelWorkflowExecution :: "uuid \<Rightarrow> fake \<Rightarrow> (fake, unit) outcome" where
  "CancelWorkflowExecution wid s =
     (case map_of (executions s) wid of
        None \<Rightarrow> (Inl (NotFound ''cancel workflow execution''), s)
      | Some e \<Rightarrow>
          if exec_terminal e then (Inl (NotFound ''cancel workflow execution''), s)
          else (Inr (), putExec (e\<lparr>exState := WorkflowCancelled, exUpdatedAt := clock s, exCompletedAt := clock s\<rparr>) s))"

definition SuspendWorkflow :: "uuid \<Rightarrow> string \<Rightarrow> fake \<Rightarrow> (fake, unit) outcome" where
  "SuspendWorkflow wid reason s =
     (case map_of (executions s) wid of
        None \<Rightarrow> (Inl (NotFound ''suspend workflow''), s)
      | Some e \<Rightarrow>
          if exec_terminal e then (Inl (NotFound ''suspend workflow''), s)
          else (Inr (), putExec (e\<lparr>exState := WorkflowSuspended, exFailureReason := reason, exUpdatedAt := clock s\<rparr>) s))"

definition ResumeWorkflow :: "uuid \<Rightarrow> fake \<Rightarrow> (fake, unit) outcome" where
  "ResumeWorkflow wid s =
     (case map_of (executions s) wid of
        None \<Rightarrow> (Inl (NotFound ''resume workflow''), s)
      | Some e \<Rightarrow>
          if exState e \<noteq> WorkflowSuspended then (Inl (NotFound ''resume workflow''), s)
          else (Inr (), putExec (e\<lparr>exState := WorkflowRunning, exFailureReason := [], exUpdatedAt := clock s\<rparr>) s))"

section \<open>Operations\<close>

definition meta_at :: "meta \<Rightarrow> string \<Rightarrow> string" where
  "meta_at m k = (case m of None \<Rightarrow> [] | Some kv \<Rightarrow> the_default [] (map_of kv k))"

text \<open>The states that hold an execution key, and keep an execution from being stalled.\<close>

definition live_wf_state :: "job_state \<Rightarrow> bool" where
  "live_wf_state st =
     (case st of StatePending \<Rightarrow> True | StateScheduled \<Rightarrow> True | StateActive \<Rightarrow> True | StateUncertain \<Rightarrow> True | _ \<Rightarrow> False)"

definition wf_job_of :: "uuid \<Rightarrow> fakeJob \<Rightarrow> bool" where
  "wf_job_of wid j = (jSource j = SourceWorkflow \<and> jRunID j = wid)"

definition op_holds :: "scheduleOperationParams \<Rightarrow> fakeJob \<Rightarrow> bool" where
  "op_holds p j = (wf_job_of (sopWorkflowID p) j \<and> meta_at (jMeta j) ''execution_key'' = sopExecutionKey p \<and> live_wf_state (jState j))"

definition op_job :: "scheduleOperationParams \<Rightarrow> time \<Rightarrow> uuid \<Rightarrow> int \<Rightarrow> fakeJob" where
  "op_job p now jid sq =
     (let runAt = wf_runAt (sopRunAt p) now;
          kv = the_default [] (cloneMeta (sopMeta p))
      in zeroJob\<lparr>jID := jid, jSource := SourceWorkflow, jKind := sopKind p, jState := wf_state runAt now,
           jMaxAttempts := (if sopMaxAttempts p \<le> 0 then 25 else sopMaxAttempts p),
           jPayload := clonePayload (sopPayload p),
           jMeta := Some (if sopExecutionKey p \<noteq> [] then AList.update ''execution_key'' (sopExecutionKey p) kv else kv),
           jRunAt := runAt, jRunID := sopWorkflowID p, jEnqueuedAt := now, maxAttemptsExplicit := True, seq := sq\<rparr>)"

definition ScheduleOperation :: "(nat \<Rightarrow> uuid) \<Rightarrow> scheduleOperationParams \<Rightarrow> fake \<Rightarrow> (fake, uuid) outcome" where
  "ScheduleOperation gen p s =
     (if map_of (executions s) (sopWorkflowID p) = None then (Inl (NotFound ''schedule operation''), s)
      else (case (if sopExecutionKey p \<noteq> [] then find (op_holds p) (map snd (jobs s)) else None) of
              Some j \<Rightarrow> (Inr (jID j), s)
            | None \<Rightarrow> let (jid, s') = insert_wf_job (op_job p (clock s)) gen s in (Inr jid, s')))"

definition MarkUncertain :: "uuid \<Rightarrow> uuid \<Rightarrow> string \<Rightarrow> fake \<Rightarrow> (fake, unit) outcome" where
  "MarkUncertain jid tok reason s =
     (case settle ''mark uncertain'' jid tok s of
        Inl e \<Rightarrow> (Inl e, s)
      | Inr j \<Rightarrow>
          if jSource j \<noteq> SourceWorkflow then (Inl (NotFound ''mark uncertain''), s)
          else
            let now = clock s;
                j' = j\<lparr>jState := StateUncertain, jLeaseUntil := zero_time, jLeaseToken := Nil_uuid,
                       jLastError := reason, jFailedAt := now\<rparr>;
                s1 = changeJob j' (putJob j' s)
            in (Inr (),
                case map_of (executions s1) (jRunID j) of
                  None \<Rightarrow> s1
                | Some e \<Rightarrow>
                    if exec_terminal e then s1
                    else putExec (e\<lparr>exState := WorkflowSuspended, exFailureReason := reason, exUpdatedAt := now\<rparr>) s1))"

definition resolved_job :: "string \<Rightarrow> raw \<Rightarrow> time \<Rightarrow> fakeJob \<Rightarrow> fakeJob option" where
  "resolved_job decision result now j =
     (if decision = ''complete''
      then Some (j\<lparr>jState := StateSucceeded, jResult := clonePayload result, jCompletedAt := now\<rparr>)
      else if decision = ''fail''
      then Some (j\<lparr>jState := StateDead, jLastError := ''uncertain: fail'', jFailedAt := now\<rparr>)
      else if decision = ''retry''
      then Some (j\<lparr>jState := StatePending, jRunAt := now, jLastError := []\<rparr>)
      else None)"

definition ResolveUncertain :: "uuid \<Rightarrow> string \<Rightarrow> raw \<Rightarrow> fake \<Rightarrow> (fake, uuid \<times> string) outcome" where
  "ResolveUncertain jid decision result s =
     (case map_of (jobs s) jid of
        None \<Rightarrow> (Inl (NotFound ''resolve uncertain''), s)
      | Some j \<Rightarrow>
          if jSource j \<noteq> SourceWorkflow \<or> jState j \<noteq> StateUncertain then (Inl (NotFound ''resolve uncertain''), s)
          else (case map_of (executions s) (jRunID j) of
                  None \<Rightarrow> (Inl (NotFound ''resolve uncertain''), s)
                | Some e \<Rightarrow>
                    (case resolved_job decision result (clock s) j of
                       None \<Rightarrow> (Inl (OtherError ''unknown uncertain decision''), s)
                     | Some j' \<Rightarrow>
                         let s1 = putJob j' s;
                             s2 = (if decision = ''retry'' then wake SourceWorkflow (jKind j) s1 else s1);
                             s3 = changeJob j' s2
                         in (Inr (jRunID j, meta_at (jMeta j) ''workflow_name''),
                             putExec (e\<lparr>exState := WorkflowRunning, exFailureReason := [], exUpdatedAt := clock s\<rparr>) s3))))"

section \<open>Upkeep\<close>

definition exec_vacuumable :: "time \<Rightarrow> fakeExecution \<Rightarrow> bool" where
  "exec_vacuumable cutoff e = (exec_terminal e \<and> exCompletedAt e \<noteq> zero_time \<and> exCompletedAt e < cutoff)"

definition vacuum_exec_body :: "time \<Rightarrow> uuid \<Rightarrow> fakeExecution \<Rightarrow> int \<times> fake \<Rightarrow> int \<times> fake" where
  "vacuum_exec_body cutoff wid e st =
     (let (removed, s) = st in
      if \<not> exec_vacuumable cutoff e then st
      else
        let s1 = snd (range_fold (jobs \<circ> snd) (delete_body (wf_job_of wid)) (0, s))
        in (removed + 1, s1\<lparr>executions := AList.delete wid (executions s1)\<rparr>))"

definition VacuumWorkflows :: "duration \<Rightarrow> fake \<Rightarrow> (fake, int) outcome" where
  "VacuumWorkflows retention s =
     (if retention \<le> 0 then (Inr 0, s)
      else let (removed, s') = range_fold (executions \<circ> snd) (vacuum_exec_body (clock s - retention)) (0, s)
           in (Inr removed, s'))"

definition WorkflowExecutionCount :: "fake \<Rightarrow> int" where
  "WorkflowExecutionCount s = int (length (executions s))"

definition hasLiveWorkflowJobLocked :: "uuid \<Rightarrow> fake \<Rightarrow> bool" where
  "hasLiveWorkflowJobLocked wid s = list_ex (\<lambda>j. wf_job_of wid j \<and> live_wf_state (jState j)) (map snd (jobs s))"

definition stalled :: "time \<Rightarrow> fake \<Rightarrow> fakeExecution \<Rightarrow> bool" where
  "stalled cutoff s e = (exState e = WorkflowRunning \<and> \<not> exUpdatedAt e > cutoff \<and> \<not> hasLiveWorkflowJobLocked (exID e) s)"

definition ListStalledWorkflows :: "duration \<Rightarrow> int \<Rightarrow> fake \<Rightarrow> (uuid \<times> string) list" where
  "ListStalledWorkflows olderThan limit0 s =
     (let limit = (if limit0 \<le> 0 then 100 else limit0);
          out = sort_key (\<lambda>e. (exUpdatedAt e, exID e)) (filter (stalled (clock s - olderThan) s) (map snd (executions s)))
      in map (\<lambda>e. (exID e, exName e)) (if int (length out) > limit then take (nat limit) out else out))"

end
