(* ===== verification/Workflow_History.thy ===== *)
theory Workflow_History
  imports Fake_Workflow Dag_Lifecycle "HOL-Library.Sublist"
begin

text \<open>
  What the durable history of an execution promises to a replaying worker: it starts
  with \<open>WorkflowStarted\<close>, is numbered 1, 2, 3 without gaps, holds at most one result
  per execution key and type, and only ever grows. The step relation \<open>wf_step\<close>
  interleaves every operation of the workflow capability with the leases and
  settlements of its jobs.
\<close>

section \<open>Updating one execution\<close>

lemma putExec_frame [simp]:
  "jobs (putExec e s) = jobs s" "clock (putExec e s) = clock s" "draws (putExec e s) = draws s"
  "executions (putExec e s) = AList.update (exID e) e (executions s)"
  by (simp_all add: putExec_def)

lemma scheduleTaskLocked_executions [simp]: "executions (scheduleTaskLocked gen wid kind runAt s) = executions s"
  by (simp add: scheduleTaskLocked_def insert_wf_job_def Let_def case_prod_unfold nextSeq_def)

lemma insert_wf_job_executions [simp]: "executions (snd (insert_wf_job mk gen s)) = executions s"
  by (simp add: insert_wf_job_def Let_def case_prod_unfold nextSeq_def)

section \<open>Histories\<close>

definition result_key :: "(string \<Rightarrow> string option) \<Rightarrow> historyEvent \<Rightarrow> (string \<times> string) option" where
  "result_key execKey ev =
     (if heType ev \<in> set operationResultTypes
      then map_option (Pair (heType ev)) (executionKeyFromPayload execKey (hePayload ev)) else None)"

definition history_ok :: "(string \<Rightarrow> string option) \<Rightarrow> uuid \<Rightarrow> historyEvent list \<Rightarrow> bool" where
  "history_ok execKey wid h =
     (map heSeq h = [1..int (length h)] \<and> list_all (\<lambda>ev. heWorkflowID ev = wid) h \<and>
      h \<noteq> [] \<and> heType (hd h) = ''WorkflowStarted'' \<and> distinct (List.map_filter (result_key execKey) h))"

lemma next_seq_length:
  assumes "map heSeq h = [1..int (length h)]"
  shows "next_seq h = int (length h) + 1"
proof (cases h rule: rev_cases)
  case (snoc xs x)
  have "last (map heSeq h) = last [1..int (length h)]" using assms by simp
  with snoc show ?thesis by (simp add: next_seq_def upto_rec2)
qed (simp add: next_seq_def)

lemma map_filter_snoc: "List.map_filter f (xs @ [x]) = List.map_filter f xs @ (case f x of None \<Rightarrow> [] | Some y \<Rightarrow> [y])"
  by (simp add: List.map_filter_def split: option.split)

lemma mem_map_filter: "y \<in> set (List.map_filter f xs) \<longleftrightarrow> (\<exists>x\<in>set xs. f x = Some y)"
  by (auto simp: List.map_filter_def image_iff split: option.split)

lemma history_ok_append:
  assumes ok: "history_ok execKey wid h" and ev: "heWorkflowID ev = wid" "heSeq ev = next_seq h"
    and new: "\<And>k. result_key execKey ev = Some k \<Longrightarrow> \<forall>x\<in>set h. result_key execKey x \<noteq> Some k"
  shows "history_ok execKey wid (h @ [ev])"
  using assms by (auto simp: history_ok_def next_seq_length upto_rec2 map_filter_snoc mem_map_filter hd_append split: option.split)

lemma same_result_key:
  "typ \<in> set operationResultTypes \<Longrightarrow> same_result execKey typ key ev \<longleftrightarrow> result_key execKey ev = Some (typ, key)"
  by (auto simp: same_result_def result_key_def)

section \<open>What may change in an execution\<close>

definition exec_kept :: "fakeExecution \<Rightarrow> fakeExecution \<Rightarrow> bool" where
  "exec_kept e e' =
     (exID e' = exID e \<and> exName e' = exName e \<and> exVersion e' = exVersion e \<and> exInput e' = exInput e \<and>
      exBusinessIdempotencyKey e' = exBusinessIdempotencyKey e \<and> exTaskQueue e' = exTaskQueue e \<and>
      exMeta e' = exMeta e \<and> exCreatedAt e' = exCreatedAt e \<and> prefix (history e) (history e'))"

lemma exec_kept_refl [simp]: "exec_kept e e"
  by (simp add: exec_kept_def)

lemma exec_kept_trans: "exec_kept a b \<Longrightarrow> exec_kept b c \<Longrightarrow> exec_kept a c"
  by (auto simp: exec_kept_def)

definition execs_ok :: "(string \<Rightarrow> string option) \<Rightarrow> fake \<Rightarrow> bool" where
  "execs_ok execKey s =
     (\<forall>wid e. map_of (executions s) wid = Some e \<longrightarrow> exID e = wid \<and> history_ok execKey wid (history e))"

lemma execs_okD:
  assumes "execs_ok execKey s" "map_of (executions s) wid = Some e"
  shows "exID e = wid" "history_ok execKey wid (history e)"
  using assms by (auto simp: execs_ok_def)

text \<open>One step: the executions of \<open>avoid\<close> are kept or removed, and every history stays well formed.\<close>

definition execs_kept :: "(string \<Rightarrow> string option) \<Rightarrow> uuid set \<Rightarrow> fake \<Rightarrow> fake \<Rightarrow> bool" where
  "execs_kept execKey avoid s s' = (execs_ok execKey s' \<and> (\<forall>wid\<in>avoid. \<forall>e'. map_of (executions s') wid = Some e' \<longrightarrow>
     (\<exists>e. map_of (executions s) wid = Some e \<and> exec_kept e e')))"

lemma execs_kept_trans: "execs_kept execKey avoid a b \<Longrightarrow> execs_kept execKey avoid b c \<Longrightarrow> execs_kept execKey avoid a c"
  unfolding execs_kept_def by (meson exec_kept_trans)

lemma execs_kept_same: "execs_ok execKey s \<Longrightarrow> executions s' = executions s \<Longrightarrow> execs_kept execKey avoid s s'"
  by (simp add: execs_kept_def execs_ok_def)

lemma execs_kept_upd:
  assumes ok: "execs_ok execKey s" and at: "map_of (executions s) wid = Some e"
    and e': "exec_kept e e'" "history_ok execKey wid (history e')"
    and s': "executions s' = AList.update (exID e') e' (executions s)"
  shows "execs_kept execKey avoid s s'"
proof -
  have "exID e' = wid" using e'(1) execs_okD(1) [OF ok at] by (simp add: exec_kept_def)
  with ok at e' show ?thesis by (auto simp: execs_kept_def execs_ok_def s' AList.update_conv')
qed

lemma execs_kept_hdr:
  assumes "execs_ok execKey s" "map_of (executions s) wid = Some e" "exec_kept e e'" "history e' = history e"
    "executions s' = AList.update (exID e') e' (executions s)"
  shows "execs_kept execKey avoid s s'"
  by (rule execs_kept_upd [OF assms(1,2,3) _ assms(5)]) (simp add: assms(4) execs_okD(2) [OF assms(1,2)])

lemma execs_kept_put:
  assumes "execs_ok execKey s" "map_of (executions s) wid = Some e" "executions s1 = executions s"
    "exec_kept e e'" "history e' = history e"
  shows "execs_kept execKey avoid s (putExec e' s1)"
  by (rule execs_kept_hdr [OF assms(1,2,4,5)]) (simp add: assms(3))

section \<open>The operations\<close>

lemma StartWorkflow_kept:
  assumes ok: "execs_ok execKey s" and new: "wspID p \<notin> avoid"
  shows "execs_kept execKey avoid s (snd (StartWorkflow gen p s))"
proof -
  have h: "history_ok execKey (wspID p) (history (new_exec p (clock s)))"
    by (simp add: history_ok_def new_exec_def List.map_filter_def result_key_def operationResultTypes_def)
  have id: "exID (new_exec p (clock s)) = wspID p" by (simp add: new_exec_def)
  have "execs_kept execKey avoid s s'" if "executions s' = AList.update (wspID p) (new_exec p (clock s)) (executions s)" for s'
    using ok h id new by (auto simp: execs_kept_def execs_ok_def that AList.update_conv')
  then show ?thesis
    using execs_kept_same [OF ok] id by (auto simp: StartWorkflow_def split: option.split)
qed

lemma append_event_kept:
  assumes ok: "execs_ok execKey s" and at: "map_of (executions s) wid = Some e"
    and new: "recorded_result execKey typ payload (history e) = None"
    and s': "executions s' = AList.update (exID e) (append_event wid typ (clonePayload payload) now e) (executions s)"
  shows "execs_kept execKey avoid s s'"
proof (rule execs_kept_upd [OF ok at])
  let ?e = "append_event wid typ (clonePayload payload) now e"
  show "exec_kept e ?e" by (simp add: exec_kept_def append_event_def)
  show "executions s' = AList.update (exID ?e) ?e (executions s)" using s' by (simp add: append_event_def)
  let ?ev = "\<lparr>heWorkflowID = wid, heSeq = next_seq (history e), heType = typ, hePayload = clonePayload payload, heCreatedAt = now\<rparr>"
  have "\<forall>x\<in>set (history e). result_key execKey x \<noteq> Some k" if "result_key execKey ?ev = Some k" for k
  proof -
    from that obtain key where k: "k = (typ, key)" "typ \<in> set operationResultTypes" "executionKeyFromPayload execKey payload = Some key"
      by (auto simp: result_key_def clonePayload_def split: if_splits)
    with new have "find (same_result execKey typ key) (history e) = None" by (simp add: recorded_result_def)
    then show ?thesis using k by (simp add: find_None_iff same_result_key)
  qed
  from history_ok_append [OF execs_okD(2) [OF ok at] _ _ this] show "history_ok execKey wid (history ?e)"
    by (simp add: append_event_def)
qed

lemma AppendHistory_kept:
  assumes ok: "execs_ok execKey s"
  shows "execs_kept execKey avoid s (snd (AppendHistory execKey wid typ payload s))"
proof (cases "map_of (executions s) wid")
  case (Some e)
  then show ?thesis using execs_kept_same [OF ok] append_event_kept [OF ok Some]
    by (auto simp: AppendHistory_def append_event_def split: option.split)
qed (use execs_kept_same [OF ok] in \<open>simp add: AppendHistory_def\<close>)

lemma SignalWorkflow_kept:
  assumes ok: "execs_ok execKey s"
  shows "execs_kept execKey avoid s (snd (SignalWorkflow sigJSON gen p s))"
proof (cases "map_of (executions s) (spWorkflowID p)")
  case (Some e)
  have nores: "recorded_result execKey ''SignalReceived'' (Some body) (history e) = None" for body
    by (simp add: recorded_result_def operationResultTypes_def)
  have cl: "clonePayload (Some body) = Some body" for body by (simp add: clonePayload_def)
  show ?thesis
    using execs_kept_same [OF ok] append_event_kept [OF ok Some nores, unfolded cl] Some
    by (auto simp: SignalWorkflow_def Let_def append_event_def split: sum.split)
qed (use execs_kept_same [OF ok] in \<open>simp add: SignalWorkflow_def\<close>)

lemma settling_kept:
  assumes ok: "execs_ok execKey s"
  shows "execs_kept execKey avoid s (snd (CompleteWorkflow wid result s))"
    and "execs_kept execKey avoid s (snd (FailWorkflow wid reason s))"
    and "execs_kept execKey avoid s (snd (CancelWorkflowExecution wid s))"
    and "execs_kept execKey avoid s (snd (SuspendWorkflow wid reason s))"
    and "execs_kept execKey avoid s (snd (ResumeWorkflow wid s))"
  unfolding CompleteWorkflow_def FailWorkflow_def CancelWorkflowExecution_def SuspendWorkflow_def ResumeWorkflow_def
  by (auto simp: exec_kept_def intro: execs_kept_same [OF ok] execs_kept_put [OF ok] split: option.split)

lemma ScheduleOperation_executions [simp]: "executions (snd (ScheduleOperation gen p s)) = executions s"
  by (auto simp: ScheduleOperation_def case_prod_unfold Let_def split: option.split)

lemma ScheduleTask_executions [simp]: "executions (snd (ScheduleTask gen wid kind runAt s)) = executions s"
  by (simp add: ScheduleTask_def)

lemma uncertain_kept:
  assumes ok: "execs_ok execKey s"
  shows "execs_kept execKey avoid s (snd (MarkUncertain jid tok reason s))"
    and "execs_kept execKey avoid s (snd (ResolveUncertain jid decision result s))"
  unfolding MarkUncertain_def ResolveUncertain_def Let_def
  by (auto simp: exec_kept_def intro: execs_kept_same [OF ok] execs_kept_put [OF ok] split: option.split sum.split)

lemma VacuumWorkflows_executions:
  "map_of (executions (snd (VacuumWorkflows retention s))) k \<in> {None, map_of (executions s) k}"
proof -
  have del: "executions (snd (range_fold (jobs \<circ> snd) (delete_body P) st)) = executions (snd st)" for P and st :: "int \<times> fake"
    by (rule range_fold_inv [where I = "\<lambda>x. executions (snd x) = executions (snd st)"])
      (auto simp: delete_body_def case_prod_unfold Let_def)
  let ?I = "\<lambda>st :: int \<times> fake. map_of (executions (snd st)) k \<in> {None, map_of (executions s) k}"
  have "?I (range_fold (executions \<circ> snd) (vacuum_exec_body (clock s - retention)) (0, s))"
  proof (rule range_fold_inv)
    fix k w and st :: "int \<times> fake"
    assume I: "?I st"
    show "?I (vacuum_exec_body (clock s - retention) k w st)"
      using I by (auto simp: vacuum_exec_body_def case_prod_unfold Let_def del AList.delete_conv')
  qed simp
  then show ?thesis by (simp add: VacuumWorkflows_def case_prod_unfold Let_def)
qed

lemma VacuumWorkflows_kept:
  assumes "execs_ok execKey s"
  shows "execs_kept execKey avoid s (snd (VacuumWorkflows retention s))"
proof -
  have V: "map_of (executions (snd (VacuumWorkflows retention s))) k = None \<or>
    map_of (executions (snd (VacuumWorkflows retention s))) k = map_of (executions s) k" for k
    using VacuumWorkflows_executions [of retention s k] by simp
  have "execs_ok execKey (snd (VacuumWorkflows retention s))"
    using assms V unfolding execs_ok_def by (metis option.distinct(1))
  then show ?thesis unfolding execs_kept_def using V by (metis exec_kept_refl option.distinct(1))
qed

section \<open>Interleavings\<close>

inductive wf_step ::
  "(string \<Rightarrow> string option) \<Rightarrow> (string \<Rightarrow> raw \<Rightarrow> error + string) \<Rightarrow> (nat \<Rightarrow> uuid) \<Rightarrow> uuid set \<Rightarrow> fake \<Rightarrow> fake \<Rightarrow> bool"
  for execKey sigJSON gen avoid where
  time: "clock s \<le> t \<Longrightarrow> wf_step execKey sigJSON gen avoid s (s\<lparr>clock := t\<rparr>)"
| start: "wspID p \<notin> avoid \<Longrightarrow> wf_step execKey sigJSON gen avoid s (snd (StartWorkflow gen p s))"
| append: "wf_step execKey sigJSON gen avoid s (snd (AppendHistory execKey wid typ payload s))"
| signal: "wf_step execKey sigJSON gen avoid s (snd (SignalWorkflow sigJSON gen sp s))"
| complete: "wf_step execKey sigJSON gen avoid s (snd (CompleteWorkflow wid result s))"
| fail: "wf_step execKey sigJSON gen avoid s (snd (FailWorkflow wid reason s))"
| cancel: "wf_step execKey sigJSON gen avoid s (snd (CancelWorkflowExecution wid s))"
| suspend: "wf_step execKey sigJSON gen avoid s (snd (SuspendWorkflow wid reason s))"
| resume: "wf_step execKey sigJSON gen avoid s (snd (ResumeWorkflow wid s))"
| task: "wf_step execKey sigJSON gen avoid s (snd (ScheduleTask gen wid kind runAt s))"
| operation: "wf_step execKey sigJSON gen avoid s (snd (ScheduleOperation gen op s))"
| mark: "wf_step execKey sigJSON gen avoid s (snd (MarkUncertain jid tok reason s))"
| resolve: "wf_step execKey sigJSON gen avoid s (snd (ResolveUncertain jid decision result s))"
| vacuum: "wf_step execKey sigJSON gen avoid s (snd (VacuumWorkflows retention s))"
| dequeue: "wf_step execKey sigJSON gen avoid s (snd (DequeueBatch gen src dp s))"
| settle: "wf_step execKey sigJSON gen avoid s (snd (settle_with (fake_ops gen) c jid tok s))"
| extend: "wf_step execKey sigJSON gen avoid s (snd (ExtendLease jid tok lease s))"
| due: "wf_step execKey sigJSON gen avoid s (snd (PromoteDue src kinds s))"
| reap: "wf_step execKey sigJSON gen avoid s (snd (ReapExpired src kinds n s))"

text \<open>The executions and signal keys, which no job operation touches.\<close>

definition wf_part :: "fake \<Rightarrow> (uuid \<times> fakeExecution) list \<times> (signalDedupeKey \<times> bool) list" where
  "wf_part s = (executions s, signalKeys s)"

lemma wf_part_effects [simp]:
  "wf_part (recordAttempt jid a e t s) = wf_part s" "wf_part (bumpStat src kind fld n t s) = wf_part s"
  "wf_part (wake src kind s) = wf_part s" "wf_part (changeJob j s) = wf_part s" "wf_part (putJob j s) = wf_part s"
  "wf_part (s\<lparr>draws := d\<rparr>) = wf_part s"
  by (simp_all add: wf_part_def) (simp_all add: recordAttempt_def bumpStat_def Let_def wake_def notifyChange_def
      changeJob_def putJob_def)

lemma worker_part:
  "wf_part (snd (ExtendLease jid tok lease s)) = wf_part s"
  "wf_part (snd (settle_with (fake_ops gen) c jid tok s)) = wf_part s"
  by (simp_all add: ExtendLease_def Let_def split: sum.split)
    (cases c; auto simp: fake_ops_def no_flag_def Ack_def Reschedule_def Dead_def Skip_def Release_def Snooze_def Let_def
      split: sum.splits option.splits)

lemma maintenance_part:
  "wf_part (snd (DequeueBatch gen src dp s)) = wf_part s"
  "wf_part (snd (PromoteDue src kinds s)) = wf_part s"
  "wf_part (snd (ReapExpired src kinds n s)) = wf_part s"
proof -
  have "wf_part (snd (fold (dequeue_step gen src dp) js (out, s))) = wf_part s" for js out
    by (rule fold_preserves [where P = "\<lambda>st. wf_part (snd st) = wf_part s"])
      (auto simp: dequeue_step_def Let_def case_prod_unfold)
  then show "wf_part (snd (DequeueBatch gen src dp s)) = wf_part s"
    by (simp add: DequeueBatch_def case_prod_unfold Let_def)
  have "wf_part (snd (range_fold (jobs \<circ> snd) (promote_body src kinds) (0, s))) = wf_part s"
    by (rule range_fold_inv [where I = "\<lambda>st. wf_part (snd st) = wf_part s"])
      (auto simp: promote_body_def Let_def case_prod_unfold)
  then show "wf_part (snd (PromoteDue src kinds s)) = wf_part s"
    by (simp add: PromoteDue_def case_prod_unfold Let_def)
  have R: "wf_part (snd (range_fold (jobs \<circ> snd) (reap_body src kinds n) ((0, 0, []), s))) = wf_part s"
    by (rule range_fold_inv [where I = "\<lambda>st. wf_part (snd st) = wf_part s"])
      (auto simp: reap_body_def Let_def case_prod_unfold)
  have "wf_part (fold (\<lambda>(kind, n) st. bumpStat src kind statReaped n t st) ks st) = wf_part st" for t ks st
    by (rule fold_frame) (simp add: case_prod_unfold)
  with R show "wf_part (snd (ReapExpired src kinds n s)) = wf_part s"
    by (simp add: ReapExpired_def case_prod_unfold Let_def)
qed

lemma wf_part_executions: "wf_part s' = wf_part s \<Longrightarrow> executions s' = executions s"
  by (simp add: wf_part_def)

lemmas worker_executions = worker_part [THEN wf_part_executions]
lemmas maintenance_executions = maintenance_part [THEN wf_part_executions]

lemma wf_step_keeps:
  assumes step: "wf_step execKey sigJSON gen avoid s s'" and ok: "execs_ok execKey s"
  shows "execs_kept execKey avoid s s'"
  using step
  by cases (auto intro: execs_kept_same [OF ok] worker_executions maintenance_executions StartWorkflow_kept [OF ok]
    AppendHistory_kept [OF ok] SignalWorkflow_kept [OF ok] settling_kept [OF ok] uncertain_kept [OF ok]
    VacuumWorkflows_kept [OF ok])

lemma wf_steps_keep:
  assumes "(wf_step execKey sigJSON gen avoid)\<^sup>*\<^sup>* s s'" "execs_ok execKey s"
  shows "execs_kept execKey avoid s s'"
  using assms(1)
proof (induction rule: rtranclp_induct)
  case base
  show ?case using execs_kept_same [OF assms(2)] by simp
next
  case (step a b)
  from step.IH have "execs_ok execKey a" by (simp add: execs_kept_def)
  from wf_step_keeps [OF step.hyps(2) this] step.IH show ?case by (blast intro: execs_kept_trans)
qed

lemma reach_execs_ok:
  assumes "(wf_step execKey sigJSON gen {})\<^sup>*\<^sup>* (NewFake t) s"
  shows "execs_ok execKey s"
proof -
  have "execs_ok execKey (NewFake t)" by (simp add: execs_ok_def NewFake_def)
  from wf_steps_keep [OF assms this] show ?thesis by (simp add: execs_kept_def)
qed


section \<open>A concrete execution\<close>

text \<open>
  An order workflow: started at 100, signalled once. The codec of the example reads a
  payload as its execution key and writes a signal as its name.
\<close>

abbreviation (input) order_execKey :: "string \<Rightarrow> string option" where
  "order_execKey \<equiv> Some"

abbreviation (input) order_sig :: "string \<Rightarrow> raw \<Rightarrow> error + string" where
  "order_sig \<equiv> (\<lambda>n p. Inr n)"

abbreviation (input) order_ids :: "nat \<Rightarrow> uuid" where
  "order_ids \<equiv> (\<lambda>n. 50 + n)"

definition order_start :: workflowStartParams where
  "order_start = \<lparr>wspID = 9, wspName = ''order'', wspVersion = ''1'', wspInput = Some ''x'',
     wspBusinessIdempotencyKey = ''o-1'', wspTaskQueue = [], wspMeta = None\<rparr>"

definition order_paid :: signalParams where
  "order_paid = \<lparr>spWorkflowID = 9, spName = ''paid'', spMessageID = ''m1'', spPayload = None\<rparr>"

definition order_started :: fake where
  "order_started = snd (StartWorkflow order_ids order_start (NewFake 100))"

lemma order_reach: "(wf_step order_execKey order_sig order_ids {})\<^sup>*\<^sup>* (NewFake 100) order_started"
  unfolding order_started_def by (intro r_into_rtranclp wf_step.start) simp


section \<open>Results are recorded once\<close>

lemma find_append: "find P (xs @ ys) = (case find P xs of None \<Rightarrow> find P ys | Some x \<Rightarrow> Some x)"
  by (induction xs) auto

lemma recorded_in_prefix:
  assumes "recorded_result execKey typ payload h = Some ev" "prefix h h'"
  shows "recorded_result execKey typ payload h' = Some ev"
  using assms by (auto simp: recorded_result_def prefix_def find_append split: option.splits if_splits)

lemma recorded_after_append:
  assumes "typ \<in> set operationResultTypes" "executionKeyFromPayload execKey payload = Some key"
    and "AppendHistory execKey wid typ payload s = (Inr n, s1)" and ok: "execs_ok execKey s"
  shows "\<exists>e1 ev. map_of (executions s1) wid = Some e1 \<and> recorded_result execKey typ payload (history e1) = Some ev \<and> heSeq ev = n"
proof -
  from assms(3) obtain e where at: "map_of (executions s) wid = Some e"
    by (cases "map_of (executions s) wid") (simp_all add: AppendHistory_def)
  note id = execs_okD(1) [OF ok at]
  show ?thesis
  proof (cases "recorded_result execKey typ payload (history e)")
    case (Some ev)
    with assms(3) at show ?thesis by (auto simp: AppendHistory_def)
  next
    case None
    let ?ev = "\<lparr>heWorkflowID = wid, heSeq = next_seq (history e), heType = typ, hePayload = clonePayload payload, heCreatedAt = clock s\<rparr>"
    have "find (same_result execKey typ key) (history e) = None" using None assms(1,2) by (simp add: recorded_result_def)
    then have "find (same_result execKey typ key) (history e @ [?ev]) = Some ?ev"
      using assms(2) by (simp add: find_append same_result_def clonePayload_def)
    then have "recorded_result execKey typ payload (history e @ [?ev]) = Some ?ev" using assms(1,2) by (simp add: recorded_result_def)
    moreover have "s1 = putExec (append_event wid typ (clonePayload payload) (clock s) e) s" "n = next_seq (history e)"
      using assms(3) at None by (simp_all add: AppendHistory_def)
    ultimately show ?thesis using id by (simp add: append_event_def AList.update_conv')
  qed
qed

lemma distinct_map_filter_once:
  "distinct (List.map_filter f xs) \<Longrightarrow> x \<in> set xs \<Longrightarrow> f x = Some y \<Longrightarrow> length (filter (\<lambda>x. f x = Some y) xs) = 1"
proof (induction xs)
  case (Cons a xs)
  have none: "filter (\<lambda>x. f x = Some y) xs = []" if "f a = Some y"
    using Cons.prems(1) that by (auto simp: filter_empty_conv List.map_filter_def image_iff)
  show ?case
  proof (cases "f a = Some y")
    case False
    with Cons.prems have "x \<in> set xs" "distinct (List.map_filter f xs)"
      by (auto simp: List.map_filter_def split: if_splits)
    with Cons.IH Cons.prems(3) False show ?thesis by simp
  qed (simp add: none)
qed simp

text \<open>
  C31: A result is recorded once, whatever crashes in between. When \<open>AppendHistory\<close>
  recorded the result of an operation under an execution key, then after any further
  operations a retry with the same type and key (even with another payload) returns
  the sequence number of the first record and leaves the store unchanged, and the
  history holds exactly one record of that type and key.
\<close>

theorem operation_result_once:
  assumes reach: "(wf_step execKey sigJSON gen {})\<^sup>*\<^sup>* (NewFake t) s"
    and ty: "typ \<in> {''OperationCompleted'', ''OperationFailed''}" and key: "executionKeyFromPayload execKey payload = Some key"
    and first: "AppendHistory execKey wid typ payload s = (Inr n, s1)"
    and later: "(wf_step execKey sigJSON gen {wid})\<^sup>*\<^sup>* s1 s2" and at: "map_of (executions s2) wid = Some e2"
    and again: "executionKeyFromPayload execKey payload' = Some key"
  shows "AppendHistory execKey wid typ payload' s2 = (Inr n, s2) \<and>
    length (filter (same_result execKey typ key) (history e2)) = 1"
proof -
  have rty: "typ \<in> set operationResultTypes" using ty by (simp add: operationResultTypes_def)
  note ok = reach_execs_ok [OF reach]
  obtain e1 ev where e1: "map_of (executions s1) wid = Some e1"
    "recorded_result execKey typ payload (history e1) = Some ev" "heSeq ev = n"
    using recorded_after_append [OF rty key first ok] by blast
  have "execs_ok execKey s1" using AppendHistory_kept [OF ok, of "{}" wid "typ" payload] first by (simp add: execs_kept_def)
  from wf_steps_keep [OF later this] e1(1) at have "exec_kept e1 e2" and ok2: "execs_ok execKey s2"
    by (auto simp: execs_kept_def)
  then have R: "recorded_result execKey typ payload (history e2) = Some ev"
    using recorded_in_prefix [OF e1(2)] by (simp add: exec_kept_def)
  then have "ev \<in> set (history e2)" "same_result execKey typ key ev"
    using rty key by (auto simp: recorded_result_def find_Some_iff)
  then have "length (filter (\<lambda>x. result_key execKey x = Some (typ, key)) (history e2)) = 1"
    using execs_okD(2) [OF ok2 at] rty by (intro distinct_map_filter_once) (simp_all add: history_ok_def same_result_key)
  moreover have "recorded_result execKey typ payload' (history e2) = Some ev"
    using R key again rty by (simp add: recorded_result_def)
  moreover have "same_result execKey typ key = (\<lambda>x. result_key execKey x = Some (typ, key))"
    using rty by (simp add: fun_eq_iff same_result_key)
  ultimately show ?thesis using at e1(3) by (simp add: AppendHistory_def)
qed

theorem operation_result_once_witness:
  "AppendHistory order_execKey 9 ''OperationCompleted'' (Some ''k1'')
     (snd (CancelWorkflowExecution 9 (snd (AppendHistory order_execKey 9 ''OperationCompleted'' (Some ''k1'') order_started))))
   = (Inr 2, snd (CancelWorkflowExecution 9 (snd (AppendHistory order_execKey 9 ''OperationCompleted'' (Some ''k1'') order_started))))"
proof -
  let ?s1 = "snd (AppendHistory order_execKey 9 ''OperationCompleted'' (Some ''k1'') order_started)"
  let ?s2 = "snd (CancelWorkflowExecution 9 ?s1)"
  have k: "executionKeyFromPayload order_execKey (Some ''k1'') = Some ''k1''"
    and n: "fst (AppendHistory order_execKey 9 ''OperationCompleted'' (Some ''k1'') order_started) = Inr 2"
    and at: "map_of (executions ?s2) 9 = Some (the (map_of (executions ?s2) 9))" by code_simp+
  from n have first: "AppendHistory order_execKey 9 ''OperationCompleted'' (Some ''k1'') order_started = (Inr 2, ?s1)"
    by (simp add: prod_eq_iff)
  have "(wf_step order_execKey order_sig order_ids {9})\<^sup>*\<^sup>* ?s1 ?s2" by (intro r_into_rtranclp wf_step.cancel)
  from operation_result_once [OF order_reach _ k first this at k] show ?thesis by simp
qed

section \<open>Wakeups\<close>

text \<open>The task that \<open>scheduleTaskLocked\<close> leaves for an immediate wakeup.\<close>

lemma scheduleTask_now:
  "map_of (jobs (scheduleTaskLocked gen wid kind zero_time s)) (gen (draws s)) =
    Some (wtask_job wid kind (clock s) (clock s) (gen (draws s)) (jobSeq s + 1))"
  by (simp add: scheduleTaskLocked_def insert_wf_job_def Let_def nextSeq_def wtask_job_def wf_runAt_def wf_state_def
      AList.update_conv')

lemma wtask_job_fields [simp]:
  "wf_job_of wid (wtask_job wid kind t t jid sq)" "jState (wtask_job wid kind t t jid sq) = StatePending"
  "jKind (wtask_job wid kind t t jid sq) = kind" "jRunAt (wtask_job wid kind t t jid sq) = t"
  by (simp_all add: wtask_job_def wf_job_of_def wf_state_def)

lemma live_job_not_stalled:
  assumes "map_of (jobs s) jid = Some j" "wf_job_of wid j" "live_wf_state (jState j)"
  shows "wid \<notin> fst ` set (ListStalledWorkflows olderThan limit s)"
proof -
  have "j \<in> set (map snd (jobs s))" using assms(1) map_of_SomeD by force
  then have "hasLiveWorkflowJobLocked wid s" using assms(2,3) unfolding hasLiveWorkflowJobLocked_def list_ex_iff by blast
  then have "exID e \<noteq> wid" if "stalled (clock s - olderThan) s e" for e using that by (auto simp: stalled_def)
  moreover have "\<exists>e. stalled (clock s - olderThan) s e \<and> exID e = k" if "k \<in> fst ` set (ListStalledWorkflows olderThan limit s)" for k
    using that by (auto simp: ListStalledWorkflows_def Let_def split: if_splits dest!: in_set_takeD)
  ultimately show ?thesis by blast
qed

definition signal_event :: "signalParams \<Rightarrow> string \<Rightarrow> historyEvent list \<Rightarrow> time \<Rightarrow> historyEvent" where
  "signal_event p body h now = \<lparr>heWorkflowID = spWorkflowID p, heSeq = next_seq h, heType = ''SignalReceived'',
     hePayload = Some body, heCreatedAt = now\<rparr>"

text \<open>
  C32: A signal is never recorded without a wakeup. A signal that is not a duplicate,
  sent to an execution that is not finished, is accepted; in the same step the
  history gets exactly one more record, the signal, and a pending task of the
  execution's kind that is due now stands in the job table, so that no stall listing
  reports the execution. Sending the same message again changes nothing.
\<close>

theorem signal_wakes:
  assumes at: "map_of (executions s) (spWorkflowID p) = Some e" and id: "exID e = spWorkflowID p"
    and unfin: "exState e \<in> {WorkflowRunning, WorkflowSuspended}"
    and new: "spMessageID p = [] \<or> map_of (signalKeys s) (spWorkflowID p, spName p, spMessageID p) \<noteq> Some True"
    and enc: "sigJSON (spName p) (spPayload p) = Inr body"
  shows "\<exists>s' e' j. SignalWorkflow sigJSON gen p s = (Inr True, s') \<and>
    map_of (executions s') (spWorkflowID p) = Some e' \<and>
    history e' = history e @ [signal_event p body (history e) (clock s)] \<and> exState e' = exState e \<and>
    map_of (jobs s') (gen (draws s)) = Some j \<and> wf_job_of (spWorkflowID p) j \<and> jState j = StatePending \<and>
    jKind j = ''$wf:'' @ exName e \<and> jRunAt j = clock s \<and>
    (\<forall>olderThan limit. spWorkflowID p \<notin> fst ` set (ListStalledWorkflows olderThan limit s')) \<and>
    (spMessageID p \<noteq> [] \<longrightarrow> SignalWorkflow sigJSON gen p s' = (Inr False, s'))"
proof -
  let ?w = "spWorkflowID p" let ?k = "(?w, spName p, spMessageID p)"
  define s1 where "s1 = (if spMessageID p \<noteq> [] then s\<lparr>signalKeys := AList.update ?k True (signalKeys s)\<rparr> else s)"
  define e' where "e' = append_event ?w ''SignalReceived'' (Some body) (clock s) e"
  define s2 where "s2 = putExec e' s1"
  define s' where "s' = scheduleTaskLocked gen ?w (workflowTaskKindFmt (exName e)) zero_time s2"
  have live: "\<not> exec_terminal e" using unfin by (auto simp: exec_terminal_def)
  have run: "SignalWorkflow sigJSON gen p s = (Inr True, s')"
    using at new enc live by (auto simp: SignalWorkflow_def Let_def s'_def s2_def s1_def e'_def)
  have f: "clock s2 = clock s" "draws s2 = draws s" by (simp_all add: s2_def s1_def)
  have e': "exID e' = ?w" "exState e' = exState e" "history e' = history e @ [signal_event p body (history e) (clock s)]"
    by (simp_all add: e'_def append_event_def id signal_event_def)
  have at': "map_of (executions s') ?w = Some e'" by (simp add: s'_def s2_def e' AList.update_conv')
  let ?j = "wtask_job ?w (workflowTaskKindFmt (exName e)) (clock s) (clock s) (gen (draws s)) (jobSeq s2 + 1)"
  have j: "map_of (jobs s') (gen (draws s)) = Some ?j"
    using scheduleTask_now [of gen ?w "workflowTaskKindFmt (exName e)" s2] by (simp add: s'_def f)
  have quiet: "?w \<notin> fst ` set (ListStalledWorkflows olderThan limit s')" for olderThan limit
    by (rule live_job_not_stalled [OF j]) (simp_all add: live_wf_state_def)
  have keys: "signalKeys s' = signalKeys s1"
    by (simp add: s'_def s2_def scheduleTaskLocked_def insert_wf_job_def Let_def nextSeq_def putExec_def changeJob_def
        notifyChange_def bumpStat_def putJob_def wake_def)
  have "SignalWorkflow sigJSON gen p s' = (Inr False, s')" if "spMessageID p \<noteq> []"
    using at' that by (simp add: SignalWorkflow_def Let_def keys s1_def AList.update_conv')
  with run at' e' j quiet show ?thesis by (auto simp: workflowTaskKindFmt_def)
qed

theorem signal_wakes_witness:
  "\<exists>s'. SignalWorkflow order_sig order_ids order_paid order_started = (Inr True, s') \<and>
     SignalWorkflow order_sig order_ids order_paid s' = (Inr False, s')"
proof -
  let ?e = "the (map_of (executions order_started) 9)"
  have "map_of (executions order_started) (spWorkflowID order_paid) = Some ?e" "exID ?e = spWorkflowID order_paid"
    "exState ?e \<in> {WorkflowRunning, WorkflowSuspended}"
    "spMessageID order_paid = [] \<or> map_of (signalKeys order_started) (spWorkflowID order_paid, spName order_paid, spMessageID order_paid) \<noteq> Some True"
    "order_sig (spName order_paid) (spPayload order_paid) = (Inr ''paid'' :: error + string)" "spMessageID order_paid \<noteq> []"
    by code_simp+
  from signal_wakes [where sigJSON = order_sig and gen = order_ids, OF this(1-5)] this(6) show ?thesis by blast
qed

section \<open>Two departures from the contract\<close>

text \<open>
  A signal whose payload cannot be encoded is answered with an error after its message
  id was taken: the corrected signal with the same id is dropped as a duplicate.
\<close>

lemma signal_key_burned:
  assumes at: "map_of (executions s) (spWorkflowID p) = Some e" and msg: "spMessageID p \<noteq> []"
    and new: "map_of (signalKeys s) (spWorkflowID p, spName p, spMessageID p) \<noteq> Some True"
    and bad: "sigJSON (spName p) (spPayload p) = Inl err"
  shows "\<exists>s'. SignalWorkflow sigJSON gen p s = (Inl err, s') \<and>
    SignalWorkflow sigJSON gen (p\<lparr>spPayload := payload\<rparr>) s' = (Inr False, s') \<and> executions s' = executions s"
  using assms by (auto simp: SignalWorkflow_def Let_def AList.update_conv')

text \<open>
  An uncertain operation of a cancelled execution puts the execution back to running
  when it is resolved.
\<close>

lemma resolve_revives_cancelled:
  assumes "map_of (jobs s) jid = Some j" "jSource j = SourceWorkflow" "jState j = StateUncertain"
    "map_of (executions s) (jRunID j) = Some e" "exID e = jRunID j" "exState e = WorkflowCancelled"
  shows "\<exists>e'. map_of (executions (snd (ResolveUncertain jid ''retry'' None s))) (jRunID j) = Some e' \<and> exState e' = WorkflowRunning"
  using assms by (simp add: ResolveUncertain_def resolved_job_def Let_def AList.update_conv')

end
