(* ===== verification/Workflow_Replay.thy ===== *)
theory Workflow_Replay
  imports Workflow_History
begin

text \<open>
  The replay machinery of the workflow runtime: the history cursor
  (\<open>workflow/kernel\<close>), the primitives a workflow function calls (\<open>operation.go\<close>,
  \<open>timer.go\<close>, \<open>signal.go\<close>, \<open>selector.go\<close>, \<open>future.go\<close>, \<open>context.go\<close>) and the pass that
  runs a function against its history (\<open>runWorkflow\<close> in \<open>worker.go\<close>).

  A workflow function is code of the application. It is modelled as the tree of
  the primitive calls it makes, each node holding what the function does with the
  answer; a function that returns makes finitely many calls on every path. A Go
  panic is a value (\<open>panic\<close>): the park signal or an error. JSON encodings and the
  rendering of UUIDs, quoted names and error texts are the parameter \<open>codec\<close>.
\<close>

section \<open>Kernel\<close>

abbreviation (input) EventWorkflowStarted :: string where "EventWorkflowStarted \<equiv> ''WorkflowStarted''"
abbreviation (input) EventWorkflowCompleted :: string where "EventWorkflowCompleted \<equiv> ''WorkflowCompleted''"
abbreviation (input) EventWorkflowFailed :: string where "EventWorkflowFailed \<equiv> ''WorkflowFailed''"
abbreviation (input) EventWorkflowCancelled :: string where "EventWorkflowCancelled \<equiv> ''WorkflowCancelled''"
abbreviation (input) EventWorkflowSuspended :: string where "EventWorkflowSuspended \<equiv> ''WorkflowSuspended''"
abbreviation (input) EventOperationScheduled :: string where "EventOperationScheduled \<equiv> ''OperationScheduled''"
abbreviation (input) EventOperationCompleted :: string where "EventOperationCompleted \<equiv> ''OperationCompleted''"
abbreviation (input) EventOperationFailed :: string where "EventOperationFailed \<equiv> ''OperationFailed''"
abbreviation (input) EventTimerStarted :: string where "EventTimerStarted \<equiv> ''TimerStarted''"
abbreviation (input) EventTimerFired :: string where "EventTimerFired \<equiv> ''TimerFired''"
abbreviation (input) EventSignalReceived :: string where "EventSignalReceived \<equiv> ''SignalReceived''"

record kEvent =
  evSeq :: int
  evType :: string
  evPayload :: raw

definition NextSeq :: "kEvent list \<Rightarrow> int" where
  "NextSeq h = (if h = [] then 1 else evSeq (last h) + 1)"

definition Append :: "string \<Rightarrow> raw \<Rightarrow> kEvent list \<Rightarrow> kEvent \<times> kEvent list" where
  "Append typ payload h = (let ev = \<lparr>evSeq = NextSeq h, evType = typ, evPayload = payload\<rparr> in (ev, h @ [ev]))"

text \<open>The cursor is an index into the events: the next event, with or without advancing.\<close>

definition Peek :: "kEvent list \<Rightarrow> nat \<Rightarrow> kEvent option" where
  "Peek h idx = (if idx \<ge> length h then None else Some (h ! idx))"

definition Next :: "kEvent list \<Rightarrow> nat \<Rightarrow> kEvent option \<times> nat" where
  "Next h idx = (if idx \<ge> length h then (None, idx) else (Some (h ! idx), Suc idx))"

datatype replayError =
    Exhausted string
  | Mismatch string string int
  | NotOperationEvent string int
  | AppendFailed string error
  | CursorStuck string
  | DecodeOperation string
  | DecodeTimer
  | DecodeSignal int
  | ScheduleFailed string error
  | UserPanic string

definition Expect :: "string \<Rightarrow> kEvent list \<Rightarrow> nat \<Rightarrow> (replayError + kEvent) \<times> nat" where
  "Expect typ h idx =
     (case Next h idx of
        (None, i) \<Rightarrow> (Inl (Exhausted typ), i)
      | (Some ev, i) \<Rightarrow> if evType ev \<noteq> typ then (Inl (Mismatch typ (evType ev) (evSeq ev)), i) else (Inr ev, i))"

definition TakeOrCommand :: "string \<Rightarrow> kEvent list \<Rightarrow> nat \<Rightarrow> (replayError + kEvent option) \<times> nat" where
  "TakeOrCommand typ h idx =
     (case Peek h idx of
        None \<Rightarrow> (Inr None, idx)
      | Some ev \<Rightarrow> if evType ev \<noteq> typ then (Inl (Mismatch typ (evType ev) (evSeq ev)), idx) else (Inr (Some ev), Suc idx))"

section \<open>Payloads and codec\<close>

record operationJobPayload =
  ojName :: string
  ojVersion :: string
  ojInput :: raw
  ojExecutionKey :: string
  ojWorkflowName :: string
  ojScheduledSeq :: int

record operationScheduledPayload =
  oscName :: string
  oscVersion :: string
  oscJobID :: string
  oscExecutionKey :: string
  oscInput :: raw

record operationResultPayload =
  orName :: string
  orVersion :: string
  orExecutionKey :: string
  orResult :: raw
  orError :: string

record codec =
  encTimer :: "time \<Rightarrow> string"
  decTimer :: "raw \<Rightarrow> time option"
  decSignal :: "raw \<Rightarrow> (string \<times> raw) option"
  encResult :: "operationResultPayload \<Rightarrow> string"
  decResult :: "raw \<Rightarrow> operationResultPayload option"
  encScheduled :: "operationScheduledPayload \<Rightarrow> string"
  encJob :: "operationJobPayload \<Rightarrow> string"
  decJob :: "raw \<Rightarrow> operationJobPayload option"
  encReason :: "string \<Rightarrow> string"
  decError :: "raw \<Rightarrow> string option"
  execKeyOf :: "string \<Rightarrow> string option"
  uuidString :: "uuid \<Rightarrow> string"
  goQuote :: "string \<Rightarrow> string"
  replayText :: "replayError \<Rightarrow> string"

section \<open>Futures and the replay context\<close>

text \<open>
  The error of a future: a plain error, or one of the two errors \<open>ExecuteOperation\<close>
  creates itself, of which the first can be recognized with \<open>errors.Is\<close>.
\<close>

datatype opError = NewError string | UnknownOperation string string | MarshalFailed string string

definition registrationKey :: "string \<Rightarrow> string \<Rightarrow> string" where
  "registrationKey name version = name @ ''@'' @ version"

definition operationTaskKind :: "string \<Rightarrow> string \<Rightarrow> string" where
  "operationTaskKind name version = ''$op:'' @ registrationKey name version"

fun opErrorText :: "codec \<Rightarrow> opError \<Rightarrow> string" where
  "opErrorText cc (NewError m) = m"
| "opErrorText cc (UnknownOperation n v) =
     ''workflow: '' @ goQuote cc n @ '' version '' @ goQuote cc v @ '': workflow: unknown operation (name, version)''"
| "opErrorText cc (MarshalFailed n m) = ''workflow: marshal operation '' @ goQuote cc n @ '' input: '' @ m"

record future =
  futReady :: bool
  futResult :: raw
  futErr :: "opError option"
  futWakeAt :: time

definition readyFuture :: "raw \<Rightarrow> future" where
  "readyFuture result = \<lparr>futReady = True, futResult = result, futErr = None, futWakeAt = zero_time\<rparr>"

definition failedFuture :: "opError \<Rightarrow> future" where
  "failedFuture e = \<lparr>futReady = True, futResult = None, futErr = Some e, futWakeAt = zero_time\<rparr>"

definition pendingFuture :: "time \<Rightarrow> future" where
  "pendingFuture wakeAt = \<lparr>futReady = False, futResult = None, futErr = None, futWakeAt = wakeAt\<rparr>"

record wfContext =
  wcWorkflowID :: uuid
  wcWorkflowName :: string
  wcStore :: fake
  wcOperations :: "string list"
  wcOpMaxAttempts :: int
  wcHistory :: "kEvent list"
  wcIdx :: nat
  wcNow :: time
  wcSignals :: "kEvent list"
  wcConsumed :: "nat list"

datatype panic = ParkSignal time | PanicError replayError

type_synonym 'a pass = "(panic + 'a) \<times> wfContext"

definition recordEvent :: "codec \<Rightarrow> string \<Rightarrow> raw \<Rightarrow> wfContext \<Rightarrow> kEvent pass" where
  "recordEvent cc typ payload c =
     (case AppendHistory (execKeyOf cc) (wcWorkflowID c) typ payload (wcStore c) of
        (Inl e, s) \<Rightarrow> (Inl (PanicError (AppendFailed typ e)), c\<lparr>wcStore := s\<rparr>)
      | (Inr sq, s) \<Rightarrow>
          let ev = \<lparr>evSeq = sq, evType = typ, evPayload = payload\<rparr>;
              c1 = c\<lparr>wcStore := s, wcHistory := wcHistory c @ [ev]\<rparr>
          in case Next (wcHistory c1) (wcIdx c1) of
               (None, i) \<Rightarrow> (Inl (PanicError (CursorStuck typ)), c1\<lparr>wcIdx := i\<rparr>)
             | (Some x, i) \<Rightarrow> (Inr ev, c1\<lparr>wcIdx := i\<rparr>))"

section \<open>Primitives\<close>

definition decodeOperationResult :: "codec \<Rightarrow> string \<Rightarrow> kEvent \<Rightarrow> panic + future" where
  "decodeOperationResult cc name ev =
     (case decResult cc (evPayload ev) of
        None \<Rightarrow> Inl (PanicError (DecodeOperation name))
      | Some rp \<Rightarrow>
          if orError rp \<noteq> [] \<or> evType ev = EventOperationFailed
          then Inr (failedFuture (NewError (if orError rp = [] then ''operation failed'' else orError rp)))
          else Inr (readyFuture (orResult rp)))"

definition is_result :: "kEvent \<Rightarrow> bool" where
  "is_result ev = (evType ev = EventOperationCompleted \<or> evType ev = EventOperationFailed)"

text \<open>The branch of \<open>ExecuteOperation\<close> that finds a recorded event.\<close>

definition replay_operation :: "codec \<Rightarrow> string \<Rightarrow> kEvent \<Rightarrow> wfContext \<Rightarrow> future pass" where
  "replay_operation cc name ev c =
     (let c1 = c\<lparr>wcIdx := Suc (wcIdx c)\<rparr> in
      if is_result ev then (decodeOperationResult cc name ev, c1)
      else if evType ev = EventOperationScheduled
      then (case Peek (wcHistory c1) (wcIdx c1) of
              Some ev2 \<Rightarrow>
                if is_result ev2 then (decodeOperationResult cc name ev2, c1\<lparr>wcIdx := Suc (wcIdx c1)\<rparr>)
                else (Inl (ParkSignal zero_time), c1)
            | None \<Rightarrow> (Inl (ParkSignal zero_time), c1))
      else (Inl (PanicError (NotOperationEvent (evType ev) (evSeq ev))), c))"

definition record_failure :: "codec \<Rightarrow> string \<Rightarrow> string \<Rightarrow> opError \<Rightarrow> wfContext \<Rightarrow> future pass" where
  "record_failure cc name version e c =
     (case recordEvent cc EventOperationFailed
             (Some (encResult cc \<lparr>orName = name, orVersion = version, orExecutionKey = [], orResult = None,
                                orError = opErrorText cc e\<rparr>)) c of
        (Inl p, c1) \<Rightarrow> (Inl p, c1)
      | (Inr ev, c1) \<Rightarrow> (Inr (failedFuture e), c1))"

definition execution_key :: "codec \<Rightarrow> wfContext \<Rightarrow> string" where
  "execution_key cc c = uuidString cc (wcWorkflowID c) @ '':'' @ itoa (NextSeq (wcHistory c))"

definition schedule_operation ::
  "codec \<Rightarrow> (nat \<Rightarrow> uuid) \<Rightarrow> string \<Rightarrow> string \<Rightarrow> string \<Rightarrow> wfContext \<Rightarrow> future pass" where
  "schedule_operation cc gen name version payload c =
     (let key = execution_key cc c;
          body = encJob cc \<lparr>ojName = name, ojVersion = version, ojInput = Some payload, ojExecutionKey = key,
                          ojWorkflowName = wcWorkflowName c, ojScheduledSeq = 0\<rparr>
      in case ScheduleOperation gen
                \<lparr>sopWorkflowID = wcWorkflowID c, sopKind = operationTaskKind name version, sopPayload = Some body,
                 sopMeta = Some [(''execution_key'', key), (''workflow_name'', wcWorkflowName c),
                                 (''op_name'', name), (''op_version'', version)],
                 sopExecutionKey = key, sopRunAt = zero_time, sopMaxAttempts = wcOpMaxAttempts c\<rparr> (wcStore c) of
           (Inl e, s) \<Rightarrow> (Inl (PanicError (ScheduleFailed name e)), c\<lparr>wcStore := s\<rparr>)
         | (Inr jid, s) \<Rightarrow>
             (case recordEvent cc EventOperationScheduled
                     (Some (encScheduled cc \<lparr>oscName = name, oscVersion = version, oscJobID = uuidString cc jid,
                                           oscExecutionKey = key, oscInput = Some payload\<rparr>)) (c\<lparr>wcStore := s\<rparr>) of
                (Inl p, c1) \<Rightarrow> (Inl p, c1)
              | (Inr ev, c1) \<Rightarrow> (Inl (ParkSignal zero_time), c1)))"

text \<open>\<open>ExecuteOperation\<close>; the input is what \<open>json.Marshal\<close> makes of it, an error text or the bytes.\<close>

definition ExecuteOperation ::
  "codec \<Rightarrow> (nat \<Rightarrow> uuid) \<Rightarrow> string \<Rightarrow> string \<Rightarrow> string + string \<Rightarrow> wfContext \<Rightarrow> future pass" where
  "ExecuteOperation cc gen name version input c =
     (case Peek (wcHistory c) (wcIdx c) of
        Some ev \<Rightarrow> replay_operation cc name ev c
      | None \<Rightarrow>
          (case input of
             Inl m \<Rightarrow> record_failure cc name version (MarshalFailed name m) c
           | Inr payload \<Rightarrow>
               if registrationKey name version \<notin> set (wcOperations c)
               then record_failure cc name version (UnknownOperation name version) c
               else schedule_operation cc gen name version payload c))"

text \<open>The deadline of the timer, read from its \<open>TimerStarted\<close> event or recorded now.\<close>

definition timer_deadline :: "codec \<Rightarrow> duration \<Rightarrow> wfContext \<Rightarrow> time pass" where
  "timer_deadline cc d c =
     (case TakeOrCommand EventTimerStarted (wcHistory c) (wcIdx c) of
        (Inl e, i) \<Rightarrow> (Inl (PanicError e), c\<lparr>wcIdx := i\<rparr>)
      | (Inr None, i) \<Rightarrow>
          (case recordEvent cc EventTimerStarted (Some (encTimer cc (wcNow c + d))) (c\<lparr>wcIdx := i\<rparr>) of
             (Inl p, c1) \<Rightarrow> (Inl p, c1)
           | (Inr ev, c1) \<Rightarrow> (Inr (wcNow c + d), c1))
      | (Inr (Some ev), i) \<Rightarrow>
          (case decTimer cc (evPayload ev) of
             None \<Rightarrow> (Inl (PanicError DecodeTimer), c\<lparr>wcIdx := i\<rparr>)
           | Some t \<Rightarrow> (Inr t, c\<lparr>wcIdx := i\<rparr>)))"

definition timer_fired :: "codec \<Rightarrow> time \<Rightarrow> wfContext \<Rightarrow> future pass" where
  "timer_fired cc fireAt c =
     (case TakeOrCommand EventTimerFired (wcHistory c) (wcIdx c) of
        (Inl e, i) \<Rightarrow> (Inl (PanicError e), c\<lparr>wcIdx := i\<rparr>)
      | (Inr (Some ev), i) \<Rightarrow> (Inr (readyFuture None), c\<lparr>wcIdx := i\<rparr>)
      | (Inr None, i) \<Rightarrow>
          if \<not> wcNow c < fireAt
          then (case recordEvent cc EventTimerFired None (c\<lparr>wcIdx := i\<rparr>) of
                  (Inl p, c1) \<Rightarrow> (Inl p, c1)
                | (Inr ev, c1) \<Rightarrow> (Inr (readyFuture None), c1))
          else (Inr (pendingFuture fireAt), c\<lparr>wcIdx := i\<rparr>))"

definition probeSleep :: "codec \<Rightarrow> duration \<Rightarrow> wfContext \<Rightarrow> future pass" where
  "probeSleep cc d c =
     (case timer_deadline cc d c of (Inl p, c1) \<Rightarrow> (Inl p, c1) | (Inr fireAt, c1) \<Rightarrow> timer_fired cc fireAt c1)"

fun scan_signals :: "codec \<Rightarrow> string \<Rightarrow> nat list \<Rightarrow> nat \<Rightarrow> kEvent list \<Rightarrow> replayError + (nat \<times> raw) option" where
  "scan_signals cc name used i [] = Inr None"
| "scan_signals cc name used i (ev # evs) =
     (if i \<in> set used then scan_signals cc name used (Suc i) evs
      else (case decSignal cc (evPayload ev) of
              None \<Rightarrow> Inl (DecodeSignal (evSeq ev))
            | Some (n, payload) \<Rightarrow>
                if n \<noteq> name then scan_signals cc name used (Suc i) evs else Inr (Some (i, payload))))"

definition probeSignal :: "codec \<Rightarrow> string \<Rightarrow> wfContext \<Rightarrow> future pass" where
  "probeSignal cc name c =
     (case scan_signals cc name (wcConsumed c) 0 (wcSignals c) of
        Inl e \<Rightarrow> (Inl (PanicError e), c)
      | Inr None \<Rightarrow> (Inr (pendingFuture zero_time), c)
      | Inr (Some (i, payload)) \<Rightarrow> (Inr (readyFuture payload), c\<lparr>wcConsumed := i # wcConsumed c\<rparr>))"

definition earliest :: "time \<Rightarrow> future \<Rightarrow> time" where
  "earliest t f = (if futWakeAt f = zero_time then t else if t = zero_time \<or> futWakeAt f < t then futWakeAt f else t)"

fun first_ready :: "nat \<Rightarrow> future list \<Rightarrow> nat option" where
  "first_ready i [] = None"
| "first_ready i (f # fs) = (if futReady f then Some i else first_ready (Suc i) fs)"

text \<open>\<open>Select\<close>: \<open>None\<close> stands for \<open>ErrSelectNoFutures\<close>.\<close>

definition SelectFutures :: "future list \<Rightarrow> panic + nat option" where
  "SelectFutures fs =
     (if fs = [] then Inr None
      else (case first_ready 0 fs of
              Some i \<Rightarrow> Inr (Some i)
            | None \<Rightarrow> Inl (ParkSignal (foldl earliest zero_time fs))))"

section \<open>A pass\<close>

datatype wprog =
    Return raw
  | Fail string
  | Crash string
  | Operation string string "string + string" "future \<Rightarrow> wprog"
  | Sleep duration "future \<Rightarrow> wprog"
  | WaitSignal string "future \<Rightarrow> wprog"
  | Select "future list" "nat option \<Rightarrow> wprog"
  | Now "time \<Rightarrow> wprog"

datatype runOutcome =
    OutcomeCompleted raw
  | OutcomeFailed string
  | OutcomeParked time
  | OutcomeError replayError

definition recovered :: "panic \<Rightarrow> runOutcome" where
  "recovered p = (case p of ParkSignal t \<Rightarrow> OutcomeParked t | PanicError e \<Rightarrow> OutcomeError e)"

primrec run_prog :: "codec \<Rightarrow> (nat \<Rightarrow> uuid) \<Rightarrow> wprog \<Rightarrow> wfContext \<Rightarrow> runOutcome \<times> wfContext" where
  "run_prog cc gen (Return r) = (\<lambda>c. (OutcomeCompleted r, c))"
| "run_prog cc gen (Fail e) = (\<lambda>c. (OutcomeFailed e, c))"
| "run_prog cc gen (Crash m) = (\<lambda>c. (OutcomeError (UserPanic m), c))"
| "run_prog cc gen (Operation name version input k) = (\<lambda>c. case ExecuteOperation cc gen name version input c of
     (Inl p, c1) \<Rightarrow> (recovered p, c1) | (Inr f, c1) \<Rightarrow> run_prog cc gen (k f) c1)"
| "run_prog cc gen (Sleep d k) = (\<lambda>c. case probeSleep cc d c of
     (Inl p, c1) \<Rightarrow> (recovered p, c1) | (Inr f, c1) \<Rightarrow> run_prog cc gen (k f) c1)"
| "run_prog cc gen (WaitSignal name k) = (\<lambda>c. case probeSignal cc name c of
     (Inl p, c1) \<Rightarrow> (recovered p, c1) | (Inr f, c1) \<Rightarrow> run_prog cc gen (k f) c1)"
| "run_prog cc gen (Select fs k) = (\<lambda>c. case SelectFutures fs of
     Inl p \<Rightarrow> (recovered p, c) | Inr i \<Rightarrow> run_prog cc gen (k i) c)"
| "run_prog cc gen (Now k) = (\<lambda>c. run_prog cc gen (k (wcNow c)) c)"

type_synonym workflowFunc = "raw \<Rightarrow> wprog"

definition runWorkflow :: "codec \<Rightarrow> (nat \<Rightarrow> uuid) \<Rightarrow> wfContext \<Rightarrow> workflowFunc \<Rightarrow> raw \<Rightarrow> runOutcome \<times> wfContext" where
  "runWorkflow cc gen wc fn input = run_prog cc gen (fn input) wc"

definition isMarkerEvent :: "string \<Rightarrow> bool" where
  "isMarkerEvent typ = (typ \<in> {EventWorkflowStarted, EventWorkflowCompleted, EventWorkflowFailed,
     EventWorkflowCancelled, EventWorkflowSuspended})"

definition kernel_event :: "historyEvent \<Rightarrow> kEvent" where
  "kernel_event e = \<lparr>evSeq = heSeq e, evType = heType e, evPayload = hePayload e\<rparr>"

definition splitHistory :: "historyEvent list \<Rightarrow> kEvent list \<times> kEvent list" where
  "splitHistory evs =
     (map kernel_event (filter (\<lambda>e. heType e \<noteq> EventSignalReceived \<and> \<not> isMarkerEvent (heType e)) evs),
      map kernel_event (filter (\<lambda>e. heType e = EventSignalReceived) evs))"

section \<open>Answered calls\<close>

text \<open>
  One call that the pass could answer: the rest of the function and the context it
  continues in. A call that parks, panics or yields an unready future is not answered.
\<close>

fun answered :: "codec \<Rightarrow> (nat \<Rightarrow> uuid) \<Rightarrow> wprog \<Rightarrow> wfContext \<Rightarrow> (wprog \<times> wfContext) option" where
  "answered cc gen (Operation name version input k) c =
     (case ExecuteOperation cc gen name version input c of (Inr f, c1) \<Rightarrow> Some (k f, c1) | _ \<Rightarrow> None)"
| "answered cc gen (Sleep d k) c =
     (case probeSleep cc d c of (Inr f, c1) \<Rightarrow> if futReady f then Some (k f, c1) else None | _ \<Rightarrow> None)"
| "answered cc gen (WaitSignal name k) c =
     (case probeSignal cc name c of (Inr f, c1) \<Rightarrow> if futReady f then Some (k f, c1) else None | _ \<Rightarrow> None)"
| "answered cc gen (Select fs k) c = (case SelectFutures fs of Inr i \<Rightarrow> Some (k i, c) | _ \<Rightarrow> None)"
| "answered cc gen (Now k) c = Some (k (wcNow c), c)"
| "answered cc gen _ c = None"

inductive replays :: "codec \<Rightarrow> (nat \<Rightarrow> uuid) \<Rightarrow> wprog \<Rightarrow> wfContext \<Rightarrow> wprog \<Rightarrow> wfContext \<Rightarrow> bool" for cc gen where
  here: "replays cc gen p c p c"
| call: "answered cc gen p c = Some (p1, c1) \<Longrightarrow> replays cc gen p1 c1 q c' \<Longrightarrow> replays cc gen p c q c'"

lemma answered_run: "answered cc gen p c = Some (q, c') \<Longrightarrow> run_prog cc gen p c = run_prog cc gen q c'"
  by (cases "(cc, gen, p, c)" rule: answered.cases) (auto split: prod.splits sum.splits if_splits)

lemma replays_run: "replays cc gen p c q c' \<Longrightarrow> run_prog cc gen p c = run_prog cc gen q c'"
  by (induction rule: replays.induct) (auto dest: answered_run)

text \<open>
  The functions whose replay is stable: an unready timer or signal is awaited at
  once, alone, errors are read as texts, and the clock reading is not used.
\<close>

primrec sequential :: "codec \<Rightarrow> wprog \<Rightarrow> bool" where
  "sequential cc (Return r) = True"
| "sequential cc (Fail e) = True"
| "sequential cc (Crash m) = True"
| "sequential cc (Operation name version input k) =
     ((\<forall>f. sequential cc (k f)) \<and> (\<forall>e. k (failedFuture e) = k (failedFuture (NewError (opErrorText cc e)))))"
| "sequential cc (Sleep d k) =
     ((\<forall>f. futReady f \<longrightarrow> sequential cc (k f)) \<and> (\<forall>t. \<exists>g. k (pendingFuture t) = Select [pendingFuture t] g))"
| "sequential cc (WaitSignal name k) =
     ((\<forall>f. futReady f \<longrightarrow> sequential cc (k f)) \<and> (\<exists>g. k (pendingFuture zero_time) = Select [pendingFuture zero_time] g))"
| "sequential cc (Select fs k) = (\<forall>i. sequential cc (k i))"
| "sequential cc (Now k) = (\<forall>t. k t = k 0 \<and> sequential cc (k t))"

definition codec_ok :: "codec \<Rightarrow> bool" where
  "codec_ok cc =
     ((\<forall>t. decTimer cc (Some (encTimer cc t)) \<noteq> None) \<and>
      (\<forall>rp. \<exists>rp'. decResult cc (Some (encResult cc rp)) = Some rp' \<and> orError rp' = orError rp) \<and>
      (\<forall>rp. orExecutionKey rp = [] \<longrightarrow> executionKeyFromPayload (execKeyOf cc) (Some (encResult cc rp)) = None))"

lemma answered_sequential: "answered cc gen p c = Some (q, c') \<Longrightarrow> sequential cc p \<Longrightarrow> sequential cc q"
  by (cases "(cc, gen, p, c)" rule: answered.cases) (auto split: prod.splits sum.splits if_splits)

section \<open>What a call changes\<close>

lemma recordEvent_result:
  assumes "recordEvent cc typ payload c = (Inr ev, c1)" "wcIdx c = length (wcHistory c)"
  shows "evType ev = typ \<and> evPayload ev = payload \<and>
    c1 = c\<lparr>wcStore := wcStore c1, wcHistory := wcHistory c @ [ev], wcIdx := Suc (wcIdx c)\<rparr> \<and>
    AppendHistory (execKeyOf cc) (wcWorkflowID c) typ payload (wcStore c) = (Inr (evSeq ev), wcStore c1)"
  using assms by (auto simp: recordEvent_def Next_def Let_def split: prod.splits sum.splits)

lemma prefix_peek: "prefix h h' \<Longrightarrow> Peek h i = Some ev \<Longrightarrow> Peek h' i = Some ev"
  by (auto simp: Peek_def prefix_def nth_append split: if_splits)

lemma Peek_None: "Peek h i = None \<longleftrightarrow> length h \<le> i"
  by (simp add: Peek_def)

lemma Peek_snoc [simp]: "Peek (h @ [ev]) (length h) = Some ev"
  by (simp add: Peek_def)

text \<open>A call only appends to the history of the pass, and the cursor stays within it.\<close>

definition advances :: "wfContext \<Rightarrow> wfContext \<Rightarrow> bool" where
  "advances c c1 =
     (prefix (wcHistory c) (wcHistory c1) \<and> wcIdx c1 \<le> length (wcHistory c1) \<and>
      wcSignals c1 = wcSignals c \<and> wcNow c1 = wcNow c \<and> wcWorkflowID c1 = wcWorkflowID c)"

lemma advances_record:
  assumes "recordEvent cc typ payload c = (Inr ev, c1)" "wcIdx c = length (wcHistory c)"
  shows "advances c c1"
proof -
  note R = recordEvent_result [OF assms]
  define s where "s = wcStore c1"
  from R have c1: "c1 = c\<lparr>wcStore := s, wcHistory := wcHistory c @ [ev], wcIdx := Suc (wcIdx c)\<rparr>" by (simp add: s_def)
  show ?thesis unfolding c1 using assms(2) by (simp add: advances_def)
qed

lemma replay_operation_result:
  assumes "replay_operation cc name ev c = (Inr f, c1)" "Peek (wcHistory c) (wcIdx c) = Some ev"
  shows "c1 = c\<lparr>wcIdx := wcIdx c1\<rparr> \<and> wcIdx c1 \<le> length (wcHistory c) \<and>
    (\<forall>c2. wcIdx c2 = wcIdx c \<longrightarrow> prefix (wcHistory c) (wcHistory c2) \<longrightarrow>
       replay_operation cc name ev c2 = (Inr f, c2\<lparr>wcIdx := wcIdx c1\<rparr>))"
proof (cases "is_result ev")
  case True
  with assms show ?thesis by (auto simp: replay_operation_def Let_def Peek_def split: if_splits)
next
  case False
  from assms(1) False obtain ev2 where P: "Peek (wcHistory c) (Suc (wcIdx c)) = Some ev2" and ev: "evType ev = EventOperationScheduled"
    and r: "is_result ev2" "decodeOperationResult cc name ev2 = Inr f" "c1 = c\<lparr>wcIdx := Suc (Suc (wcIdx c))\<rparr>"
    by (auto simp: replay_operation_def Let_def split: if_splits option.splits)
  from P have "Suc (wcIdx c) < length (wcHistory c)" by (simp add: Peek_def split: if_splits)
  then show ?thesis using False ev r prefix_peek [OF _ P] by (auto simp: replay_operation_def Let_def)
qed

lemma record_failure_result:
  assumes "record_failure cc name version e c = (Inr f, c1)" "wcIdx c = length (wcHistory c)"
  shows "f = failedFuture e \<and> (\<exists>ev. recordEvent cc EventOperationFailed
      (Some (encResult cc \<lparr>orName = name, orVersion = version, orExecutionKey = [], orResult = None, orError = opErrorText cc e\<rparr>)) c
        = (Inr ev, c1))"
  using assms by (auto simp: record_failure_def split: prod.splits sum.splits)

lemma ExecuteOperation_cases:
  assumes "ExecuteOperation cc gen name version input c = (Inr f, c1)" "wcIdx c \<le> length (wcHistory c)"
  obtains (replayed) ev where "Peek (wcHistory c) (wcIdx c) = Some ev" "replay_operation cc name ev c = (Inr f, c1)"
  | (refused) e where "wcIdx c = length (wcHistory c)" "record_failure cc name version e c = (Inr f, c1)" "opErrorText cc e \<noteq> []"
proof (cases "Peek (wcHistory c) (wcIdx c)")
  case (Some ev)
  with assms(1) replayed show ?thesis by (simp add: ExecuteOperation_def)
next
  case None
  with assms(2) have idx: "wcIdx c = length (wcHistory c)" by (simp add: Peek_None)
  from assms(1) None have "\<exists>e. record_failure cc name version e c = (Inr f, c1) \<and> opErrorText cc e \<noteq> []"
    by (auto simp: ExecuteOperation_def schedule_operation_def Let_def split: sum.splits if_splits prod.splits)
  with idx refused show ?thesis by blast
qed

lemma ExecuteOperation_replay:
  assumes ok: "codec_ok cc" and run: "ExecuteOperation cc gen name version input c = (Inr f, c1)"
    and idx: "wcIdx c \<le> length (wcHistory c)"
  shows "advances c c1 \<and> wcConsumed c1 = wcConsumed c \<and>
    (\<forall>c2. wcIdx c2 = wcIdx c \<longrightarrow> prefix (wcHistory c1) (wcHistory c2) \<longrightarrow>
      (\<exists>f2. ExecuteOperation cc gen name version input c2 = (Inr f2, c2\<lparr>wcIdx := wcIdx c1\<rparr>) \<and>
        (f2 = f \<or> (\<exists>e. f = failedFuture e \<and> f2 = failedFuture (NewError (opErrorText cc e))))))"
  using run idx
proof (cases rule: ExecuteOperation_cases)
  case (replayed ev)
  note R = replay_operation_result [OF replayed(2,1)]
  define i where "i = wcIdx c1"
  from R have c1: "c1 = c\<lparr>wcIdx := i\<rparr>" "i \<le> length (wcHistory c)" by (simp_all add: i_def)
  have "ExecuteOperation cc gen name version input c2 = (Inr f, c2\<lparr>wcIdx := i\<rparr>)"
    if "wcIdx c2 = wcIdx c" "prefix (wcHistory c) (wcHistory c2)" for c2
    using R that prefix_peek [OF that(2) replayed(1)] by (simp add: ExecuteOperation_def i_def)
  then show ?thesis using c1 by (auto simp: advances_def)
next
  case (refused e)
  obtain ev where f: "f = failedFuture e" and rec: "recordEvent cc EventOperationFailed
      (Some (encResult cc \<lparr>orName = name, orVersion = version, orExecutionKey = [], orResult = None, orError = opErrorText cc e\<rparr>)) c
        = (Inr ev, c1)"
    using record_failure_result [OF refused(2,1)] by blast
  note R = recordEvent_result [OF rec refused(1)]
  define s where "s = wcStore c1"
  from R have c1: "c1 = c\<lparr>wcStore := s, wcHistory := wcHistory c @ [ev], wcIdx := Suc (wcIdx c)\<rparr>" by (simp add: s_def)
  obtain rp where "decResult cc (evPayload ev) = Some rp" "orError rp = opErrorText cc e"
    using ok R unfolding codec_ok_def by force
  then have dec: "decodeOperationResult cc name ev = Inr (failedFuture (NewError (opErrorText cc e)))"
    using refused(3) by (simp add: decodeOperationResult_def)
  have "ExecuteOperation cc gen name version input c2 = (Inr (failedFuture (NewError (opErrorText cc e))), c2\<lparr>wcIdx := Suc (wcIdx c)\<rparr>)"
    if i: "wcIdx c2 = wcIdx c" and p: "prefix (wcHistory c1) (wcHistory c2)" for c2
  proof -
    have "Peek (wcHistory c1) (wcIdx c) = Some ev" using refused(1) by (simp add: c1)
    from prefix_peek [OF p this] show ?thesis using i R dec by (simp add: ExecuteOperation_def replay_operation_def is_result_def)
  qed
  then show ?thesis using advances_record [OF rec refused(1)] f by (auto simp: c1)
qed

lemma TakeOrCommand_eq:
  "TakeOrCommand typ h i = (Inr (Some ev), j) \<longleftrightarrow> Peek h i = Some ev \<and> evType ev = typ \<and> j = Suc i"
  "TakeOrCommand typ h i = (Inr None, j) \<longleftrightarrow> Peek h i = None \<and> j = i"
  by (auto simp: TakeOrCommand_def split: option.split)

lemma take_replay:
  assumes "prefix h h'" "Peek h i = Some ev" "evType ev = typ"
  shows "TakeOrCommand typ h' i = (Inr (Some ev), Suc i)"
  using prefix_peek [OF assms(1,2)] assms(3) by (simp add: TakeOrCommand_eq)

text \<open>An event that a pass took or recorded at its cursor is taken by every later pass.\<close>

definition took :: "string \<Rightarrow> wfContext \<Rightarrow> wfContext \<Rightarrow> kEvent \<Rightarrow> bool" where
  "took typ c c1 ev = (Peek (wcHistory c1) (wcIdx c) = Some ev \<and> evType ev = typ \<and> wcIdx c1 = Suc (wcIdx c) \<and>
     advances c c1 \<and> wcConsumed c1 = wcConsumed c)"

lemma took_recorded:
  assumes "recordEvent cc typ payload c = (Inr ev, c1)" "wcIdx c = length (wcHistory c)"
  shows "took typ c c1 ev \<and> evPayload ev = payload"
proof -
  note R = recordEvent_result [OF assms]
  define s where "s = wcStore c1"
  from R have c1: "c1 = c\<lparr>wcStore := s, wcHistory := wcHistory c @ [ev], wcIdx := Suc (wcIdx c)\<rparr>" by (simp add: s_def)
  show ?thesis using advances_record [OF assms] R assms(2) by (simp add: took_def c1)
qed

lemma took_taken:
  assumes "Peek (wcHistory c) (wcIdx c) = Some ev" "evType ev = typ"
  shows "took typ c (c\<lparr>wcIdx := Suc (wcIdx c)\<rparr>) ev"
  using assms by (auto simp: took_def advances_def Peek_def split: if_splits)

lemma timer_deadline_took:
  assumes ok: "codec_ok cc" and run: "timer_deadline cc d c = (Inr t, c1)" and idx: "wcIdx c \<le> length (wcHistory c)"
  shows "\<exists>ev. took EventTimerStarted c c1 ev \<and> decTimer cc (evPayload ev) \<noteq> None"
proof (cases "Peek (wcHistory c) (wcIdx c)")
  case None
  then have T: "TakeOrCommand EventTimerStarted (wcHistory c) (wcIdx c) = (Inr None, wcIdx c)" by (simp add: TakeOrCommand_eq)
  from None idx have i: "wcIdx c = length (wcHistory c)" by (simp add: Peek_None)
  from run T obtain ev where "recordEvent cc EventTimerStarted (Some (encTimer cc (wcNow c + d))) c = (Inr ev, c1)"
    by (auto simp: timer_deadline_def split: prod.splits sum.splits)
  from took_recorded [OF this i] ok show ?thesis by (auto simp: codec_ok_def)
next
  case (Some ev)
  with run have "evType ev = EventTimerStarted" "c1 = c\<lparr>wcIdx := Suc (wcIdx c)\<rparr>" "decTimer cc (evPayload ev) = Some t"
    by (auto simp: timer_deadline_def TakeOrCommand_def split: if_splits option.splits)
  with took_taken [OF Some] show ?thesis by auto
qed

lemma timer_fired_took:
  assumes run: "timer_fired cc t c = (Inr f, c1)" and ready: "futReady f" and idx: "wcIdx c \<le> length (wcHistory c)"
  shows "f = readyFuture None \<and> (\<exists>ev. took EventTimerFired c c1 ev)"
proof (cases "Peek (wcHistory c) (wcIdx c)")
  case None
  then have T: "TakeOrCommand EventTimerFired (wcHistory c) (wcIdx c) = (Inr None, wcIdx c)" by (simp add: TakeOrCommand_eq)
  from None idx have i: "wcIdx c = length (wcHistory c)" by (simp add: Peek_None)
  from run ready T obtain ev where "recordEvent cc EventTimerFired None c = (Inr ev, c1)" "f = readyFuture None"
    by (auto simp: timer_fired_def pendingFuture_def split: prod.splits sum.splits if_splits)
  with took_recorded [OF _ i] show ?thesis by blast
next
  case (Some ev)
  with run have "evType ev = EventTimerFired" "c1 = c\<lparr>wcIdx := Suc (wcIdx c)\<rparr>" "f = readyFuture None"
    by (auto simp: timer_fired_def TakeOrCommand_def split: if_splits)
  with took_taken [OF Some] show ?thesis by auto
qed

lemma advances_trans: "advances a b \<Longrightarrow> advances b c \<Longrightarrow> advances a c"
  by (auto simp: advances_def)

lemma probeSleep_replay:
  assumes ok: "codec_ok cc" and run: "probeSleep cc d c = (Inr f, c1)" and ready: "futReady f"
    and idx: "wcIdx c \<le> length (wcHistory c)"
  shows "advances c c1 \<and> wcConsumed c1 = wcConsumed c \<and>
    (\<forall>c2. wcIdx c2 = wcIdx c \<longrightarrow> prefix (wcHistory c1) (wcHistory c2) \<longrightarrow>
       probeSleep cc d c2 = (Inr f, c2\<lparr>wcIdx := wcIdx c1\<rparr>))"
proof -
  from run obtain t b where b: "timer_deadline cc d c = (Inr t, b)" and run2: "timer_fired cc t b = (Inr f, c1)"
    by (auto simp: probeSleep_def split: prod.splits sum.splits)
  obtain ev where ev: "took EventTimerStarted c b ev" "decTimer cc (evPayload ev) \<noteq> None"
    using timer_deadline_took [OF ok b idx] by blast
  then have "wcIdx b \<le> length (wcHistory b)" by (simp add: took_def advances_def)
  from timer_fired_took [OF run2 ready this] obtain ev2 where ev2: "took EventTimerFired b c1 ev2" and f: "f = readyFuture None" by blast
  have "probeSleep cc d c2 = (Inr f, c2\<lparr>wcIdx := wcIdx c1\<rparr>)"
    if i: "wcIdx c2 = wcIdx c" and p: "prefix (wcHistory c1) (wcHistory c2)" for c2
  proof -
    have "prefix (wcHistory b) (wcHistory c2)" using ev2 p by (auto simp: took_def advances_def)
    then have "TakeOrCommand EventTimerStarted (wcHistory c2) (wcIdx c2) = (Inr (Some ev), Suc (wcIdx c))"
      unfolding i using ev(1) by (intro take_replay) (auto simp: took_def)
    moreover have "TakeOrCommand EventTimerFired (wcHistory c2) (Suc (wcIdx c)) = (Inr (Some ev2), wcIdx c1)"
      using take_replay [OF p, of "wcIdx b" ev2 EventTimerFired] ev ev2 by (simp add: took_def)
    ultimately show ?thesis using ev(2) f by (auto simp: probeSleep_def timer_deadline_def timer_fired_def)
  qed
  then show ?thesis using ev(1) ev2 by (auto simp: took_def intro: advances_trans)
qed

lemma scan_signals_append:
  "scan_signals cc name used i evs = Inr (Some r) \<Longrightarrow> scan_signals cc name used i (evs @ tl0) = Inr (Some r)"
  by (induction evs arbitrary: i) (auto split: if_splits option.splits prod.splits)

lemma probeSignal_replay:
  assumes run: "probeSignal cc name c = (Inr f, c1)" and ready: "futReady f" and idx: "wcIdx c \<le> length (wcHistory c)"
  shows "advances c c1 \<and> wcIdx c1 = wcIdx c \<and>
    (\<forall>c2. wcConsumed c2 = wcConsumed c \<longrightarrow> prefix (wcSignals c) (wcSignals c2) \<longrightarrow>
       probeSignal cc name c2 = (Inr f, c2\<lparr>wcConsumed := wcConsumed c1\<rparr>))"
proof -
  from run ready obtain i r where S: "scan_signals cc name (wcConsumed c) 0 (wcSignals c) = Inr (Some (i, r))"
    and f: "f = readyFuture r" and c1: "c1 = c\<lparr>wcConsumed := i # wcConsumed c\<rparr>"
    by (auto simp: probeSignal_def pendingFuture_def split: sum.splits option.splits)
  have "probeSignal cc name c2 = (Inr f, c2\<lparr>wcConsumed := wcConsumed c1\<rparr>)"
    if "wcConsumed c2 = wcConsumed c" "prefix (wcSignals c) (wcSignals c2)" for c2
    using that scan_signals_append [OF S] by (auto simp: probeSignal_def f c1 prefix_def)
  then show ?thesis using idx by (auto simp: c1 advances_def)
qed

section \<open>Replaying a prefix\<close>

text \<open>The later pass stands at the same cursor with the same signals consumed.\<close>

definition aligned :: "wfContext \<Rightarrow> wfContext \<Rightarrow> bool" where
  "aligned c c2 = (wcIdx c2 = wcIdx c \<and> wcConsumed c2 = wcConsumed c \<and> prefix (wcSignals c) (wcSignals c2))"

lemma answered_replay:
  assumes ok: "codec_ok cc" and "sequential cc p" "answered cc gen p c = Some (q, c1)" "wcIdx c \<le> length (wcHistory c)"
  shows "advances c c1 \<and> (\<forall>c2. aligned c c2 \<longrightarrow> prefix (wcHistory c1) (wcHistory c2) \<longrightarrow>
    (\<exists>c3. answered cc gen p c2 = Some (q, c3) \<and> aligned c1 c3 \<and> wcHistory c3 = wcHistory c2 \<and> wcStore c3 = wcStore c2))"
proof (cases p)
  case (Operation name version input k)
  from assms(3) obtain f where f: "ExecuteOperation cc gen name version input c = (Inr f, c1)" "q = k f"
    by (auto simp: Operation split: prod.splits sum.splits)
  note R = ExecuteOperation_replay [OF ok f(1) assms(4)]
  have same: "k f2 = k f" if "f2 = f \<or> (\<exists>e. f = failedFuture e \<and> f2 = failedFuture (NewError (opErrorText cc e)))" for f2
    using that assms(2) by (auto simp: Operation)
  have "\<exists>c3. answered cc gen p c2 = Some (q, c3) \<and> aligned c1 c3 \<and> wcHistory c3 = wcHistory c2 \<and> wcStore c3 = wcStore c2"
    if al: "aligned c c2" and pre: "prefix (wcHistory c1) (wcHistory c2)" for c2
  proof -
    from R al pre obtain f2 where "ExecuteOperation cc gen name version input c2 = (Inr f2, c2\<lparr>wcIdx := wcIdx c1\<rparr>)" "k f2 = k f"
      using same unfolding aligned_def by blast
    with al R f(2) show ?thesis by (simp add: Operation aligned_def advances_def)
  qed
  with R show ?thesis by blast
next
  case (Sleep d k)
  from assms(3) obtain f where f: "probeSleep cc d c = (Inr f, c1)" "futReady f" "q = k f"
    by (auto simp: Sleep split: prod.splits sum.splits if_splits)
  show ?thesis using probeSleep_replay [OF ok f(1,2) assms(4)] f(2,3) by (auto simp: Sleep aligned_def advances_def)
next
  case (WaitSignal name k)
  from assms(3) obtain f where f: "probeSignal cc name c = (Inr f, c1)" "futReady f" "q = k f"
    by (auto simp: WaitSignal split: prod.splits sum.splits if_splits)
  show ?thesis using probeSignal_replay [OF f(1,2) assms(4)] f(2,3) by (auto simp: WaitSignal aligned_def advances_def)
next
  case (Select fs k)
  with assms(3,4) show ?thesis by (auto simp: aligned_def advances_def split: sum.splits)
next
  case (Now k)
  then have "k t = k u" for t u using assms(2) by (metis sequential.simps(8))
  with Now assms(3,4) show ?thesis by (auto simp: aligned_def advances_def)
qed (use assms(3) in simp_all)

lemma replays_advance:
  assumes ok: "codec_ok cc"
  shows "replays cc gen p c q c' \<Longrightarrow> sequential cc p \<Longrightarrow> wcIdx c \<le> length (wcHistory c) \<Longrightarrow> advances c c'"
proof (induction rule: replays.induct)
  case (here p c)
  then show ?case by (simp add: advances_def)
next
  case (call p c p1 c1 q c')
  have "advances c c1" using answered_replay [OF ok call.prems(1) call.hyps(1) call.prems(2)] by blast
  with call.IH [OF answered_sequential [OF call.hyps(1) call.prems(1)]] show ?case by (auto simp: advances_def)
qed

lemma replays_again:
  assumes ok: "codec_ok cc"
  shows "replays cc gen p c q c' \<Longrightarrow> sequential cc p \<Longrightarrow> wcIdx c \<le> length (wcHistory c) \<Longrightarrow>
    aligned c c2 \<Longrightarrow> prefix (wcHistory c') (wcHistory c2) \<Longrightarrow>
    \<exists>c3. replays cc gen p c2 q c3 \<and> aligned c' c3 \<and> wcHistory c3 = wcHistory c2 \<and> wcStore c3 = wcStore c2"
proof (induction arbitrary: c2 rule: replays.induct)
  case (here p c)
  then show ?case by (blast intro: replays.here)
next
  case (call p c p1 c1 q c')
  note A = answered_replay [OF ok call.prems(1) call.hyps(1) call.prems(2)]
  note seq1 = answered_sequential [OF call.hyps(1) call.prems(1)]
  from A have adv: "advances c c1" and idx1: "wcIdx c1 \<le> length (wcHistory c1)" by (simp_all add: advances_def)
  from replays_advance [OF ok call.hyps(2) seq1 idx1] call.prems(4) have "prefix (wcHistory c1) (wcHistory c2)"
    by (auto simp: advances_def)
  with A call.prems(3) obtain c3 where c3: "answered cc gen p c2 = Some (p1, c3)" "aligned c1 c3"
    "wcHistory c3 = wcHistory c2" "wcStore c3 = wcStore c2" by blast
  from call.IH [OF seq1 idx1 c3(2)] call.prems(4) c3 show ?case by (auto intro: replays.call)
qed

section \<open>The pass and the store\<close>

text \<open>The context \<open>processJob\<close> builds for a pass over the recorded history.\<close>

definition newContext ::
  "uuid \<Rightarrow> string \<Rightarrow> string list \<Rightarrow> int \<Rightarrow> time \<Rightarrow> historyEvent list \<Rightarrow> fake \<Rightarrow> wfContext" where
  "newContext wid name ops maxAttempts now evs s =
     \<lparr>wcWorkflowID = wid, wcWorkflowName = name, wcStore = s, wcOperations = ops, wcOpMaxAttempts = maxAttempts,
      wcHistory = fst (splitHistory evs), wcIdx = 0, wcNow = now, wcSignals = snd (splitHistory evs), wcConsumed = []\<rparr>"

lemma splitHistory_append:
  "splitHistory (xs @ ys) = (fst (splitHistory xs) @ fst (splitHistory ys), snd (splitHistory xs) @ snd (splitHistory ys))"
  by (simp add: splitHistory_def)

lemma splitHistory_prefix:
  "prefix h h' \<Longrightarrow> prefix (fst (splitHistory h)) (fst (splitHistory h')) \<and> prefix (snd (splitHistory h)) (snd (splitHistory h'))"
  by (auto simp: prefix_def splitHistory_append)

text \<open>The pass and the store agree on the recorded decisions and signals.\<close>

definition synced :: "wfContext \<Rightarrow> bool" where
  "synced c = (\<exists>e. map_of (executions (wcStore c)) (wcWorkflowID c) = Some e \<and> exID e = wcWorkflowID c \<and>
     splitHistory (history e) = (wcHistory c, wcSignals c))"

definition store_follows :: "codec \<Rightarrow> (string \<Rightarrow> raw \<Rightarrow> error + string) \<Rightarrow> (nat \<Rightarrow> uuid) \<Rightarrow> wfContext \<Rightarrow> wfContext \<Rightarrow> bool" where
  "store_follows cc sigJSON gen c c1 =
     ((wf_step (execKeyOf cc) sigJSON gen {wcWorkflowID c})\<^sup>*\<^sup>* (wcStore c) (wcStore c1) \<and>
      wcWorkflowID c1 = wcWorkflowID c \<and> (synced c \<longrightarrow> synced c1))"

lemma store_follows_refl [simp]: "store_follows cc sigJSON gen c (c\<lparr>wcIdx := i\<rparr>)" "store_follows cc sigJSON gen c c"
  "store_follows cc sigJSON gen c (c\<lparr>wcConsumed := used\<rparr>)"
  by (simp_all add: store_follows_def synced_def)

lemma store_follows_trans:
  "store_follows cc sigJSON gen a b \<Longrightarrow> store_follows cc sigJSON gen b c \<Longrightarrow> store_follows cc sigJSON gen a c"
  by (auto simp: store_follows_def)

lemma record_follows:
  assumes rec: "recordEvent cc typ payload c = (Inr ev, c1)" and idx: "wcIdx c = length (wcHistory c)"
    and ty: "typ \<noteq> EventSignalReceived" "\<not> isMarkerEvent typ" and fresh: "\<And>h. recorded_result (execKeyOf cc) typ payload h = None"
  shows "store_follows cc sigJSON gen c c1"
proof -
  note R = recordEvent_result [OF rec idx]
  define s where "s = wcStore c1"
  from R have c1: "c1 = c\<lparr>wcStore := s, wcHistory := wcHistory c @ [ev], wcIdx := Suc (wcIdx c)\<rparr>" by (simp add: s_def)
  have app: "AppendHistory (execKeyOf cc) (wcWorkflowID c) typ payload (wcStore c) = (Inr (evSeq ev), s)" using R by (simp add: s_def)
  have "wf_step (execKeyOf cc) sigJSON gen {wcWorkflowID c} (wcStore c) s"
    using wf_step.append [of "execKeyOf cc" sigJSON gen "{wcWorkflowID c}" "wcStore c" "wcWorkflowID c" "typ" payload] app by simp
  moreover have "synced c1" if "synced c"
  proof -
    from that obtain e where e: "map_of (executions (wcStore c)) (wcWorkflowID c) = Some e" "exID e = wcWorkflowID c"
      "splitHistory (history e) = (wcHistory c, wcSignals c)" by (auto simp: synced_def)
    from app e(1) fresh have n: "evSeq ev = next_seq (history e)"
      and s: "s = putExec (append_event (wcWorkflowID c) typ payload (clock (wcStore c)) e) (wcStore c)"
      by (simp_all add: AppendHistory_def clonePayload_def)
    have "ev = \<lparr>evSeq = next_seq (history e), evType = typ, evPayload = payload\<rparr>" using R n by simp
    then show ?thesis using e(2,3) ty
      by (simp add: synced_def c1 s append_event_def AList.update_conv' splitHistory_append) (simp add: splitHistory_def kernel_event_def)
  qed
  ultimately show ?thesis by (auto simp: store_follows_def c1)
qed

lemma no_result_key: "typ \<notin> set operationResultTypes \<Longrightarrow> recorded_result execKey typ payload h = None"
  by (simp add: recorded_result_def)

lemma ExecuteOperation_follows:
  assumes ok: "codec_ok cc" and run: "ExecuteOperation cc gen name version input c = (Inr f, c1)"
    and idx: "wcIdx c \<le> length (wcHistory c)"
  shows "store_follows cc sigJSON gen c c1"
  using run idx
proof (cases rule: ExecuteOperation_cases)
  case (replayed ev)
  then have "c1 = c\<lparr>wcIdx := wcIdx c1\<rparr>" using replay_operation_result [OF replayed(2,1)] by blast
  then show ?thesis by (metis store_follows_refl(1))
next
  case (refused e)
  let ?rp = "\<lparr>orName = name, orVersion = version, orExecutionKey = [], orResult = None, orError = opErrorText cc e\<rparr>"
  from record_failure_result [OF refused(2,1)] obtain ev where
    rec: "recordEvent cc EventOperationFailed (Some (encResult cc ?rp)) c = (Inr ev, c1)" by blast
  have "executionKeyFromPayload (execKeyOf cc) (Some (encResult cc ?rp)) = None" using ok by (simp add: codec_ok_def)
  then have "recorded_result (execKeyOf cc) EventOperationFailed (Some (encResult cc ?rp)) h = None" for h
    by (simp add: recorded_result_def)
  from record_follows [OF rec refused(1) _ _ this] show ?thesis by (simp add: isMarkerEvent_def)
qed

lemma timer_follows:
  assumes "wcIdx c \<le> length (wcHistory c)"
  shows "timer_deadline cc d c = (Inr t, c1) \<Longrightarrow> store_follows cc sigJSON gen c c1"
    and "timer_fired cc t c = (Inr f, c1) \<Longrightarrow> store_follows cc sigJSON gen c c1"
proof -
  have rec: "store_follows cc sigJSON gen c c1"
    if "recordEvent cc ty payload c = (Inr ev, c1)" "Peek (wcHistory c) (wcIdx c) = None" "ty \<in> {EventTimerStarted, EventTimerFired}"
    for ty payload ev c1
    using that assms by (intro record_follows [OF that(1)])
      (auto simp: Peek_None isMarkerEvent_def operationResultTypes_def intro!: no_result_key)
  show "timer_deadline cc d c = (Inr t, c1) \<Longrightarrow> store_follows cc sigJSON gen c c1"
    by (auto simp: timer_deadline_def TakeOrCommand_def split: option.splits if_splits prod.splits sum.splits intro: rec)
  show "timer_fired cc t c = (Inr f, c1) \<Longrightarrow> store_follows cc sigJSON gen c c1"
    by (auto simp: timer_fired_def TakeOrCommand_def split: option.splits if_splits prod.splits sum.splits intro: rec)
qed

lemma probeSleep_follows:
  assumes ok: "codec_ok cc" and run: "probeSleep cc d c = (Inr f, c1)" and idx: "wcIdx c \<le> length (wcHistory c)"
  shows "store_follows cc sigJSON gen c c1"
proof -
  from run obtain t b where b: "timer_deadline cc d c = (Inr t, b)" and run2: "timer_fired cc t b = (Inr f, c1)"
    by (auto simp: probeSleep_def split: prod.splits sum.splits)
  from timer_deadline_took [OF ok b idx] have "wcIdx b \<le> length (wcHistory b)" by (auto simp: took_def advances_def)
  from store_follows_trans [OF timer_follows(1) [OF idx b] timer_follows(2) [OF this run2]] show ?thesis .
qed

lemma answered_follows:
  assumes ok: "codec_ok cc" and run: "answered cc gen p c = Some (q, c1)" and idx: "wcIdx c \<le> length (wcHistory c)"
  shows "store_follows cc sigJSON gen c c1"
  using run
  by (cases p) (auto split: prod.splits sum.splits if_splits option.splits
      intro: ExecuteOperation_follows [OF ok _ idx] probeSleep_follows [OF ok _ idx] simp: probeSignal_def)

lemma replays_follow:
  assumes ok: "codec_ok cc"
  shows "replays cc gen p c q c' \<Longrightarrow> sequential cc p \<Longrightarrow> wcIdx c \<le> length (wcHistory c) \<Longrightarrow> store_follows cc sigJSON gen c c'"
proof (induction rule: replays.induct)
  case (call p c p1 c1 q c')
  note A = answered_replay [OF ok call.prems(1) call.hyps(1) call.prems(2)]
  have "store_follows cc sigJSON gen c1 c'"
    using call.IH [OF answered_sequential [OF call.hyps(1) call.prems(1)]] A by (auto simp: advances_def)
  with answered_follows [OF ok call.hyps(1) call.prems(2)] show ?case by (rule store_follows_trans)
qed simp

lemma newContext_synced: "map_of (executions s) wid = Some e \<Longrightarrow> exID e = wid \<Longrightarrow> synced (newContext wid name ops n now (history e) s)"
  by (simp add: synced_def newContext_def)

text \<open>
  C5: A replay resumes where the recorded history ends. Take a workflow function that
  awaits each timer and signal as it asks for it (\<open>sequential\<close>) and a pass over a
  reachable store that answers its calls up to a point, after which the pass parks,
  finishes or crashes. Whatever happens to the store in the meantime, a later pass of
  the same function over the history found then gives the same answer to every call
  up to that point, without writing to the store, and goes on from the same point of
  the function, at any later time.
\<close>

theorem replay_resumes:
  assumes ok: "codec_ok cc" and seq: "sequential cc (fn (exInput e1))"
    and reach: "(wf_step (execKeyOf cc) sigJSON gen {})\<^sup>*\<^sup>* (NewFake t) s1" and at: "map_of (executions s1) wid = Some e1"
    and first: "replays cc gen (fn (exInput e1)) (newContext wid (exName e1) ops1 max1 now1 (history e1) s1) q c'"
    and later: "(wf_step (execKeyOf cc) sigJSON gen {wid})\<^sup>*\<^sup>* (wcStore c') s2" and at2: "map_of (executions s2) wid = Some e2"
  shows "\<exists>c3. let c2 = newContext wid (exName e2) ops2 max2 now2 (history e2) s2 in
    replays cc gen (fn (exInput e2)) c2 q c3 \<and> wcStore c3 = s2 \<and> wcHistory c3 = wcHistory c2 \<and>
    runWorkflow cc gen c2 fn (exInput e2) = run_prog cc gen q c3"
proof -
  let ?c1 = "newContext wid (exName e1) ops1 max1 now1 (history e1) s1"
  let ?c2 = "newContext wid (exName e2) ops2 max2 now2 (history e2) s2"
  note ok1 = reach_execs_ok [OF reach]
  have idx: "wcIdx ?c1 \<le> length (wcHistory ?c1)" and w: "wcWorkflowID ?c1 = wid" by (simp_all add: newContext_def)
  have F: "store_follows cc sigJSON gen ?c1 c'" by (rule replays_follow [OF ok first seq idx])
  then have steps: "(wf_step (execKeyOf cc) sigJSON gen {wid})\<^sup>*\<^sup>* s1 (wcStore c')" and wid: "wcWorkflowID c' = wid"
    by (simp_all add: store_follows_def w newContext_def)
  have "synced ?c1" by (rule newContext_synced [OF at execs_okD(1) [OF ok1 at]])
  with F have "synced c'" by (simp add: store_follows_def)
  then obtain e' where e': "map_of (executions (wcStore c')) wid = Some e'" "splitHistory (history e') = (wcHistory c', wcSignals c')"
    using wid by (auto simp: synced_def)
  have K: "execs_kept (execKeyOf cc) {wid} s1 (wcStore c')" by (rule wf_steps_keep [OF steps ok1])
  then have "execs_ok (execKeyOf cc) (wcStore c')" by (simp add: execs_kept_def)
  from wf_steps_keep [OF later this] e'(1) at2 have "exec_kept e' e2" by (auto simp: execs_kept_def)
  moreover from K at e'(1) have "exec_kept e1 e'" by (auto simp: execs_kept_def)
  ultimately have input: "exInput e2 = exInput e1" and pre: "prefix (history e') (history e2)" by (simp_all add: exec_kept_def)
  have "wcSignals c' = wcSignals ?c1" using replays_advance [OF ok first seq idx] by (simp add: advances_def)
  then have "aligned ?c1 ?c2" "prefix (wcHistory c') (wcHistory ?c2)"
    using splitHistory_prefix [OF pre] e'(2) by (simp_all add: aligned_def newContext_def)
  from replays_again [OF ok first seq idx this] obtain c3 where
    "replays cc gen (fn (exInput e1)) ?c2 q c3" "wcHistory c3 = wcHistory ?c2" "wcStore c3 = wcStore ?c2" by blast
  then show ?thesis using replays_run by (force simp: input runWorkflow_def newContext_def)
qed

section \<open>A concrete workflow\<close>

definition plain_codec :: codec where
  "plain_codec = \<lparr>encTimer = (\<lambda>t. replicate (nat t) CHR ''x''), decTimer = (\<lambda>p. Some (the_default 0 (map_option (int \<circ> length) p))),
     decSignal = (\<lambda>p. Some (the_default [] p, None)), encResult = orError,
     decResult = map_option (\<lambda>x. \<lparr>orName = [], orVersion = [], orExecutionKey = [], orResult = None, orError = x\<rparr>),
     encScheduled = oscExecutionKey, encJob = ojName,
     decJob = map_option (\<lambda>x. \<lparr>ojName = x, ojVersion = ''1'', ojInput = None, ojExecutionKey = [], ojWorkflowName = ''order'', ojScheduledSeq = 0\<rparr>),
     encReason = id, decError = (\<lambda>_. None), execKeyOf = (\<lambda>_. None), uuidString = itoa \<circ> int, goQuote = id,
     replayText = (\<lambda>_. ''replay'')\<rparr>"

lemma plain_codec_ok: "codec_ok plain_codec"
  by (simp add: codec_ok_def plain_codec_def executionKeyFromPayload_def)

text \<open>Sleep, then charge the order.\<close>

definition nap_and_charge :: workflowFunc where
  "nap_and_charge input = Sleep 0 (\<lambda>t. Select [t] (\<lambda>_. Operation ''charge'' ''1'' (Inr ''in'') (\<lambda>f. Return (futResult f))))"

lemma nap_sequential: "sequential plain_codec (nap_and_charge input)"
  by (auto simp: nap_and_charge_def failedFuture_def)

abbreviation (input) nap_pass :: "fakeExecution \<Rightarrow> time \<Rightarrow> fake \<Rightarrow> wfContext" where
  "nap_pass e now s \<equiv> newContext 9 (exName e) [''charge@1''] 25 now (history e) s"

theorem replay_resumes_witness:
  "\<exists>q c1 c3. replays plain_codec order_ids (nap_and_charge (Some ''x''))
       (nap_pass (the (map_of (executions order_started) 9)) 100 order_started) q c1 \<and>
     (let s2 = snd (SignalWorkflow order_sig order_ids order_paid (wcStore c1)); e2 = the (map_of (executions s2) 9)
      in replays plain_codec order_ids (nap_and_charge (Some ''x'')) (nap_pass e2 500 s2) q c3 \<and> wcStore c3 = s2)"
proof -
  let ?e = "the (map_of (executions order_started) 9)" let ?c = "nap_pass ?e 100 order_started"
  let ?q = "Select [readyFuture None] (\<lambda>_. Operation ''charge'' ''1'' (Inr ''in'') (\<lambda>f. Return (futResult f)))"
  define c1 where "c1 = snd (probeSleep plain_codec 0 ?c)"
  let ?s2 = "snd (SignalWorkflow order_sig order_ids order_paid (wcStore c1))" let ?e2 = "the (map_of (executions ?s2) 9)"
  have "fst (probeSleep plain_codec 0 ?c) = Inr (readyFuture None)" by code_simp
  then have "probeSleep plain_codec 0 ?c = (Inr (readyFuture None), c1)" by (simp add: c1_def prod_eq_iff)
  then have "answered plain_codec order_ids (nap_and_charge (Some ''x'')) ?c = Some (?q, c1)"
    by (simp add: nap_and_charge_def readyFuture_def)
  then have R: "replays plain_codec order_ids (nap_and_charge (Some ''x'')) ?c ?q c1" by (blast intro: replays.intros)
  have at: "map_of (executions order_started) 9 = Some ?e" and i1: "exInput ?e = Some ''x''" by code_simp+
  have at2: "map_of (executions ?s2) 9 = Some ?e2" and i2: "exInput ?e2 = Some ''x''" unfolding c1_def by code_simp+
  have reach: "(wf_step (execKeyOf plain_codec) order_sig order_ids {})\<^sup>*\<^sup>* (NewFake 100) order_started"
    unfolding order_started_def by (intro r_into_rtranclp wf_step.start) simp
  have "(wf_step (execKeyOf plain_codec) order_sig order_ids {9})\<^sup>*\<^sup>* (wcStore c1) ?s2" by (intro r_into_rtranclp wf_step.signal)
  from replay_resumes [where fn = nap_and_charge and sigJSON = order_sig and ?ops2.0 = "[''charge@1'']" and ?max2.0 = 25 and ?now2.0 = 500,
      OF plain_codec_ok nap_sequential reach at R [folded i1] this at2] R i2 show ?thesis
    unfolding Let_def by auto
qed

section \<open>Where replay is not stable\<close>

text \<open>
  The documented race of a signal against a timer, followed by an operation in each
  branch.
\<close>

definition signal_or_timeout :: "duration \<Rightarrow> workflowFunc" where
  "signal_or_timeout d input = WaitSignal ''paid'' (\<lambda>sg. Sleep d (\<lambda>t. Select [sg, t] (\<lambda>i.
     if i = Some 0 then Operation ''ship'' ''1'' (Inr ''in'') (\<lambda>f. Return (Some ''shipped''))
     else Operation ''cancel'' ''1'' (Inr ''in'') (\<lambda>f. Return (Some ''cancelled'')))))"

definition race_pass :: "duration \<Rightarrow> time \<Rightarrow> fake \<Rightarrow> runOutcome \<times> fake" where
  "race_pass d now s =
     (let e = the (map_of (executions s) 9);
          (out, c) = runWorkflow plain_codec order_ids (newContext 9 ''order'' [''ship@1'', ''cancel@1''] 25 now (history e) s)
                       (signal_or_timeout d) None
      in (out, wcStore c))"

text \<open>
  The signal wins, the operation of its branch is scheduled, and no later pass gets past
  the timer: the event after \<open>TimerStarted\<close> is not \<open>TimerFired\<close>, which the cursor
  reports as a determinism violation.
\<close>

lemma lost_timer_unreplayable:
  "let s1 = snd (SignalWorkflow order_sig order_ids order_paid (snd (race_pass 50 100 order_started)));
       (out, s2) = race_pass 50 110 s1
   in out = OutcomeParked zero_time \<and> fst (race_pass 50 120 s2) = OutcomeError (Mismatch ''TimerFired'' ''OperationScheduled'' 4)"
  by code_simp

text \<open>
  The timer wins and \<open>cancel\<close> is scheduled; then the signal arrives. The next pass takes
  the other branch, and the result of \<open>cancel\<close> is given to the call of \<open>ship\<close>, an
  operation that was never scheduled.
\<close>

lemma late_signal_changes_branch:
  "let s1 = snd (race_pass 0 100 order_started);
       s2 = snd (AppendHistory (\<lambda>_. None) 9 ''OperationCompleted'' (Some []) s1);
       s3 = snd (SignalWorkflow order_sig order_ids order_paid s2)
   in fst (race_pass 0 200 s2) = OutcomeCompleted (Some ''cancelled'') \<and>
      fst (race_pass 0 200 s3) = OutcomeCompleted (Some ''shipped'') \<and>
      \<not> list_ex (\<lambda>j. jKind j = ''$op:ship@1'') (map snd (jobs s3))"
  by code_simp

text \<open>
  An operation that finishes before its own \<open>OperationScheduled\<close> event is appended leaves
  that event to the next operation of the function, which then waits for a job that
  does not exist.
\<close>

lemma early_result_strands:
  assumes "wcHistory c = [done, sched]" "wcIdx c = 0" "is_result done" "evType sched = ''OperationScheduled''"
    "decodeOperationResult cc a done = Inr f"
  shows "\<exists>c'. run_prog cc gen (Operation a v i (\<lambda>_. Operation b w j k)) c = (OutcomeParked zero_time, c') \<and> wcStore c' = wcStore c"
  using assms by (auto simp: ExecuteOperation_def Peek_def replay_operation_def Let_def recovered_def is_result_def)

end
