(* ===== verification/Engine.thy ===== *)
theory Engine
  imports Store_Contract "HOL-Library.Word" "HOL-Library.Signed_Division"
begin

text \<open>
  The execution core shared by the runtimes (\<open>internal/engine\<close>): the retry
  backoff, the error classification, the settlement of one execution against an
  arbitrary store, lease renewal, and the maintenance passes. Everything here is
  stated over \<^typ>\<open>'s storeOps\<close>; the facts about settled executions are proved in
  the locale \<open>fenced_store\<close> and reach a concrete store by its interpretation.
  The fetch loops and their slot accounting are in \<open>Engine_Slots\<close>.

  Handlers are code of the program's users: a handler is a function from the job
  to what one run of it does (return a result and an error, or panic); whatever a
  timeout or a lost lease makes the handler do is part of that answer. Tracing,
  logging and metrics are left out, except the outcome label of the settled
  counter, which is the value an execution returns.
\<close>

section \<open>Backoff\<close>

text \<open>
  The attempt is a 64-bit \<open>int\<close>; the product with the jitter multiplier is the one
  operation that can leave the range, and it is computed on 64-bit words. Go's
  \<open>%\<close> truncates towards zero.
\<close>

definition jitter_product :: "int \<Rightarrow> int" where
  "jitter_product attempt = sint ((word_of_int attempt :: 64 word) * 2654435761)"

definition Backoff :: "int \<Rightarrow> duration" where
  "Backoff attempt0 =
     (let attempt = (if attempt0 < 0 then 0 else attempt0);
          exp = min attempt 8;
          base = (1 :: int) * 2 ^ nat exp;
          jitter = jitter_product attempt smod (base div 4 + 1);
          secs = min (base + jitter) 300
      in secs * nsPerSecond)"

section \<open>Errors and outcomes\<close>

datatype outcomeKind = OutcomeRetry | OutcomeAbort | OutcomeSnooze | OutcomeSkip

record outcome_rec =
  oKind :: outcomeKind
  oDelay :: duration
  oReportable :: bool

text \<open>
  A Go error: a plain one, one that wraps others (\<open>fmt.Errorf\<close> with \<open>%w\<close>, whose
  text is fixed when it is made), several joined (\<open>errors.Join\<close>, which asks each
  for its text), or a sentinel of one of the runtimes, which carries its outcome
  and the error it was given - possibly nil, in which case asking for its text is
  a nil dereference (\<open>None\<close>). \<open>AsOutcome\<close> is \<open>errors.AsType[OutcomeError]\<close>: the
  first sentinel of the chain in depth-first order.
\<close>

datatype goError =
    Plain string
  | Wrapped string "goError list"
  | Joined "goError list"
  | Sentinel outcome_rec "goError option"

fun join_lines :: "string option list \<Rightarrow> string option" where
  "join_lines [] = Some []"
| "join_lines [x] = x"
| "join_lines (x # xs) = (case (x, join_lines xs) of (Some a, Some b) \<Rightarrow> Some (a @ CHR 0x0A # b) | _ \<Rightarrow> None)"

fun errorText :: "goError \<Rightarrow> string option" where
  "errorText (Plain m) = Some m"
| "errorText (Wrapped m es) = Some m"
| "errorText (Joined es) = join_lines (map errorText es)"
| "errorText (Sentinel out None) = None"
| "errorText (Sentinel out (Some e)) = errorText e"

fun first_some :: "'a option list \<Rightarrow> 'a option" where
  "first_some [] = None"
| "first_some (None # xs) = first_some xs"
| "first_some (Some x # xs) = Some x"

fun AsOutcome :: "goError \<Rightarrow> outcome_rec option" where
  "AsOutcome (Plain m) = None"
| "AsOutcome (Wrapped m es) = first_some (map AsOutcome es)"
| "AsOutcome (Joined es) = first_some (map AsOutcome es)"
| "AsOutcome (Sentinel out e) = Some out"

definition retryOutcome :: outcome_rec where
  "retryOutcome = \<lparr>oKind = OutcomeRetry, oDelay = 0, oReportable = False\<rparr>"

definition ClassifyOutcome :: "goError \<Rightarrow> outcome_rec" where
  "ClassifyOutcome err = (case AsOutcome err of Some out \<Rightarrow> out | None \<Rightarrow> retryOutcome)"

definition IsPermanent :: "goError option \<Rightarrow> bool" where
  "IsPermanent err = (case err of None \<Rightarrow> False | Some e \<Rightarrow> oKind (ClassifyOutcome e) = OutcomeAbort)"

definition WillRetry :: "goError option \<Rightarrow> int \<Rightarrow> int \<Rightarrow> bool" where
  "WillRetry err attempt maxAttempts =
     (case err of
        None \<Rightarrow> False
      | Some e \<Rightarrow>
          if maxAttempts \<le> 0 then False
          else (case oKind (ClassifyOutcome e) of
                  OutcomeAbort \<Rightarrow> False
                | OutcomeSkip \<Rightarrow> False
                | OutcomeSnooze \<Rightarrow> True
                | OutcomeRetry \<Rightarrow> attempt < maxAttempts))"

definition LastAttempt :: "int \<Rightarrow> int \<Rightarrow> bool" where
  "LastAttempt attempt maxAttempts = (maxAttempts > 0 \<and> attempt \<ge> maxAttempts)"

section \<open>The engine's configuration\<close>

datatype handlerRun = Returns raw "goError option" | Panics string string

record settings =
  LeaseTTL :: duration
  ShutdownDrain :: duration
  MaxConcurrency :: nat
  FetchBatchSize :: nat
  FetchPollInterval :: duration
  FetchCooldown :: duration
  IdleBackoffMax :: duration
  MaxReaps :: int
  StatsRetention :: duration
  CompletedRetention :: duration
  DeadRetention :: duration
  PromoteInterval :: duration
  VacuumInterval :: duration

record kindReg =
  kName :: string
  kConcurrency :: nat
  kTimeout :: duration
  kMaxAttempts :: int
  kMaxAttemptsSet :: bool
  kHandler :: "job \<Rightarrow> handlerRun"
  kClassify :: "(goError \<Rightarrow> outcome_rec) option"

text \<open>The settled success of a runtime: \<open>None\<close> for the default acker, which acks and drops the result.\<close>

type_synonym 's ackFn = "uuid \<Rightarrow> uuid \<Rightarrow> raw \<Rightarrow> 's \<Rightarrow> ('s, unit) outcome"

record 's engine =
  eStore :: "'s storeOps"
  eSource :: source
  eSettings :: settings
  eAcker :: "'s ackFn"
  eKinds :: "(string \<times> kindReg) list"
  eStarted :: bool

definition New :: "'s storeOps \<Rightarrow> source \<Rightarrow> settings \<Rightarrow> 's ackFn option \<Rightarrow> 's engine" where
  "New ops src stg acker =
     \<lparr>eStore = ops, eSource = src, eSettings = stg,
      eAcker = (case acker of Some f \<Rightarrow> f | None \<Rightarrow> (\<lambda>jid tok result. opAck ops jid tok)),
      eKinds = [], eStarted = False\<rparr>"

definition Register :: "kindReg \<Rightarrow> 's engine \<Rightarrow> ('s engine, unit) outcome" where
  "Register k e =
     (if eStarted e then (Inl (OtherError ''cannot register after start''), e)
      else
        let k' = (if kClassify k = None then k\<lparr>kClassify := Some (\<lambda>_. retryOutcome)\<rparr> else k)
        in if map_of (eKinds e) (kName k) \<noteq> None
           then (Inl (OtherError (''kind '' @ [CHR 0x22] @ kName k @ [CHR 0x22] @ '' already registered'')), e)
           else (Inr (), e\<lparr>eKinds := AList.update (kName k) k' (eKinds e)\<rparr>))"

section \<open>One execution\<close>

definition runHandler :: "kindReg \<Rightarrow> job \<Rightarrow> raw \<times> goError option" where
  "runHandler k job =
     (case kHandler k job of
        Returns result err \<Rightarrow> (result, err)
      | Panics v stack \<Rightarrow> (None, Some (Plain (''handler panic: '' @ v @ [CHR 0x0A] @ stack))))"

text \<open>
  The value of an execution: the outcome label it records, or \<open>Crashed\<close> when
  asking a sentinel for its text panics outside the handler's guard. A settlement
  error is logged and dropped, so it does not appear.
\<close>

datatype settled = Settled string | Crashed

definition classify_of :: "kindReg \<Rightarrow> goError \<Rightarrow> outcome_rec" where
  "classify_of k err = (case kClassify k of None \<Rightarrow> retryOutcome | Some f \<Rightarrow> f err)"

definition settleFailure :: "'s storeOps \<Rightarrow> kindReg \<Rightarrow> job \<Rightarrow> goError \<Rightarrow> string \<Rightarrow> 's \<Rightarrow> settled \<times> 's" where
  "settleFailure ops k job err msg s =
     (let out = classify_of k err;
          exhausted = jAttempt job \<ge> jMaxAttempts job
      in if oKind out = OutcomeSnooze
         then (case opSnooze ops (jID job) (jLeaseToken job) (oDelay out) (''snooze deadline exceeded: '' @ msg) s of
                 (Inl sErr, s') \<Rightarrow> (Settled ''snoozed'', s')
               | (Inr dead, s') \<Rightarrow> (Settled (if dead then ''dead'' else ''snoozed''), s'))
         else if oKind out = OutcomeSkip
         then (Settled ''skipped'', snd (opSkip ops (jID job) (jLeaseToken job) msg s))
         else if oKind out = OutcomeAbort
         then (Settled ''dead'', snd (opDead ops (jID job) (jLeaseToken job) msg s))
         else if exhausted
         then (Settled ''dead'', snd (opDead ops (jID job) (jLeaseToken job) msg s))
         else
           let delay = (if oDelay out \<le> 0 then Backoff (jAttempt job) else oDelay out)
           in (Settled ''retried'', snd (opReschedule ops (jID job) (jLeaseToken job) delay msg s)))"

definition execute :: "'s engine \<Rightarrow> kindReg \<Rightarrow> job \<Rightarrow> 's \<Rightarrow> settled \<times> 's" where
  "execute e k job s =
     (case runHandler k job of
        (result, None) \<Rightarrow> (Settled ''succeeded'', snd (eAcker e (jID job) (jLeaseToken job) result s))
      | (result, Some err) \<Rightarrow>
          (case errorText err of
             None \<Rightarrow> (Crashed, s)
           | Some msg \<Rightarrow> settleFailure (eStore e) k job err msg s))"

text \<open>One tick of \<open>renewLease\<close>: extend the lease, or report that the handler's context is cancelled.\<close>

definition renewLease_tick :: "'s engine \<Rightarrow> uuid \<Rightarrow> uuid \<Rightarrow> 's \<Rightarrow> bool \<times> 's" where
  "renewLease_tick e jid tok s =
     (case opExtendLease (eStore e) jid tok (LeaseTTL (eSettings e)) s of
        (Inl err, s') \<Rightarrow> (True, s')
      | (Inr u, s') \<Rightarrow> (False, s'))"

section \<open>Maintenance\<close>

definition defaultPromoteInterval :: duration where
  "defaultPromoteInterval = nsPerSecond"

definition defaultVacuumInterval :: duration where
  "defaultVacuumInterval = 3600 * nsPerSecond"

definition promote_interval :: "settings \<Rightarrow> duration" where
  "promote_interval stg = (if PromoteInterval stg \<le> 0 then defaultPromoteInterval else PromoteInterval stg)"

definition vacuum_interval :: "settings \<Rightarrow> duration" where
  "vacuum_interval stg = (if VacuumInterval stg \<le> 0 then defaultVacuumInterval else VacuumInterval stg)"

datatype tick = PromoteTick | ReapTick | VacuumTick

text \<open>One turn of \<open>maintenanceLoop\<close>; errors are logged and the next call still runs.\<close>

definition maintenance_tick :: "'s engine \<Rightarrow> string list \<Rightarrow> tick \<Rightarrow> 's \<Rightarrow> 's" where
  "maintenance_tick e kinds t s =
     (let ops = eStore e; src = eSource e; stg = eSettings e in
      case t of
        PromoteTick \<Rightarrow> snd (opPromoteDue ops src kinds s)
      | ReapTick \<Rightarrow> snd (opReapExpired ops src kinds (MaxReaps stg) s)
      | VacuumTick \<Rightarrow>
          let s1 = snd (opVacuumStats ops src (StatsRetention stg) s);
              s2 = snd (opVacuumIdempotency ops src s1);
              s3 = snd (opVacuumCompleted ops src (CompletedRetention stg) s2)
          in if DeadRetention stg > 0 then snd (opVacuumDead ops src [] (DeadRetention stg) s3) else s3)"

section \<open>Bounds of the backoff\<close>

lemma smod_bounds: "0 < m \<Longrightarrow> - m < x smod m \<and> x smod m < m" for x m :: int
proof -
  assume m: "0 < m"
  then have "0 \<le> \<bar>x\<bar> mod m" "\<bar>x\<bar> mod m < m" by simp_all
  with m show ?thesis by (cases "sgn x = 1 \<or> sgn x = 0") (auto simp: signed_modulo_int_def sgn_if)
qed

lemma backoff_base: "0 \<le> a \<Longrightarrow> 1 \<le> (2 :: int) ^ nat (min a 8) \<and> (2 :: int) ^ nat (min a 8) \<le> 256"
proof -
  have "nat (min a 8) \<le> 8" by simp
  then have "(2 :: int) ^ nat (min a 8) \<le> 2 ^ 8" by (rule power_increasing) simp
  then show ?thesis by simp
qed

lemma backoff_secs:
  obtains secs where "Backoff a = secs * nsPerSecond" "1 \<le> secs" "secs \<le> 300" "8 \<le> a \<longrightarrow> 192 \<le> secs"
proof -
  let ?a = "if a < 0 then 0 else a" let ?b = "(2 :: int) ^ nat (min ?a 8)"
  let ?j = "jitter_product ?a smod (?b div 4 + 1)"
  have b: "1 \<le> ?b" "?b \<le> 256" using backoff_base [of ?a] by auto
  have "0 < ?b div 4 + 1" using b(1) by linarith
  then have j: "- (?b div 4 + 1) < ?j" using smod_bounds by blast
  have lo: "1 \<le> ?b + ?j" using b j by linarith
  have "?b = 256" if "8 \<le> a" using that by (simp add: min_def)
  then have hi: "192 \<le> ?b + ?j" if "8 \<le> a" using j that by simp
  define secs where "secs = min (?b + ?j) 300"
  have eq: "Backoff a = secs * nsPerSecond" by (simp add: Backoff_def Let_def secs_def)
  have "1 \<le> secs" unfolding secs_def using lo by (rule min.boundedI) simp
  moreover have "secs \<le> 300" unfolding secs_def by (rule min.cobounded2)
  moreover have "192 \<le> secs" if "8 \<le> a" unfolding secs_def using hi [OF that] by (rule min.boundedI) simp
  ultimately show thesis using that [OF eq] by blast
qed

lemma backoff_pos: "0 < Backoff a"
  by (rule backoff_secs [of a]) (simp add: nsPerSecond_def)

lemma backoff_le: "Backoff a \<le> 300 * nsPerSecond"
  by (rule backoff_secs [of a]) (simp add: nsPerSecond_def)

text \<open>
  C39: The retry delay is always sane. For every attempt number, including
  negative ones and ones whose jitter product overflows 64 bits, the backoff is at
  least one second and at most 300 seconds; from the eighth attempt on it is at
  least 192 seconds.
\<close>

theorem Backoff_bounds:
  "nsPerSecond \<le> Backoff a \<and> Backoff a \<le> 300 * nsPerSecond \<and> (8 \<le> a \<longrightarrow> 192 * nsPerSecond \<le> Backoff a)"
proof -
  obtain secs where secs: "Backoff a = secs * nsPerSecond" "1 \<le> secs" "secs \<le> 300" "8 \<le> a \<longrightarrow> 192 \<le> secs"
    by (rule backoff_secs)
  then show ?thesis by (simp add: nsPerSecond_def)
qed

theorem Backoff_bounds_witness:
  "192 * nsPerSecond \<le> Backoff 4000000000 \<and> jitter_product 4000000000 < 0"
proof -
  have "jitter_product 4000000000 < 0" by (simp add: jitter_product_def)
  then show ?thesis using Backoff_bounds [of 4000000000] by simp
qed

text \<open>
  The delay grows with every early failure: each of the first eight attempts
  waits strictly longer than the one before it.
\<close>

theorem Backoff_grows:
  assumes "0 \<le> a" "a < 8"
  shows "Backoff a < Backoff (a + 1)"
proof -
  have "a = 0 \<or> a = 1 \<or> a = 2 \<or> a = 3 \<or> a = 4 \<or> a = 5 \<or> a = 6 \<or> a = 7" using assms by auto
  then show ?thesis
    by (elim disjE) (simp_all, code_simp+)
qed

theorem Backoff_grows_witness: "Backoff 3 < Backoff 4"
  using Backoff_grows [of 3] by simp

section \<open>Settlement of a failed execution\<close>

definition decide :: "kindReg \<Rightarrow> job \<Rightarrow> goError \<Rightarrow> string \<Rightarrow> settlement" where
  "decide k job err msg =
     (let out = classify_of k err in
      case oKind out of
        OutcomeSnooze \<Rightarrow> DoSnooze (oDelay out) (''snooze deadline exceeded: '' @ msg)
      | OutcomeSkip \<Rightarrow> DoSkip msg
      | OutcomeAbort \<Rightarrow> DoDead msg
      | OutcomeRetry \<Rightarrow>
          if jAttempt job \<ge> jMaxAttempts job then DoDead msg
          else DoReschedule (if oDelay out \<le> 0 then Backoff (jAttempt job) else oDelay out) msg)"

lemma snd_no_flag [simp]: "snd (no_flag r) = snd r"
  by (simp add: no_flag_def)

lemma settleFailure_decide:
  "snd (settleFailure ops k job err msg s) =
     snd (settle_with ops (decide k job err msg) (jID job) (jLeaseToken job) s)"
  by (cases "oKind (classify_of k err)")
    (simp_all add: settleFailure_def decide_def Let_def split: prod.split sum.split)

lemma settleFailure_settled: "\<exists>l. fst (settleFailure ops k job err msg s) = Settled l"
  by (simp add: settleFailure_def Let_def split: prod.split sum.split)

text \<open>
  The engine as a client of the store contract: every settlement a failed
  execution can choose, and its success, are settlements of the store.
\<close>

locale engine_store = fenced_store ops now job_at invar
  for ops :: "'s storeOps" and now :: "'s \<Rightarrow> time" and job_at :: "'s \<Rightarrow> uuid \<Rightarrow> job option" and invar :: "'s \<Rightarrow> bool"
begin

lemma settleFailure_owned:
  assumes "invar s" "job_at s (jID job) = Some j" "jState j = StateActive" "jLeaseToken j = jLeaseToken job"
  obtains s' where "snd (settleFailure ops k job err msg s) = s'" "invar s'" "now s' = now s"
    "job_at s' = (job_at s)(jID job \<mapsto> settle_wire (decide k job err msg) (now s) j)"
proof -
  obtain s' where "settle_with ops (decide k job err msg) (jID job) (jLeaseToken job) s =
      (Inr (settle_result (decide k job err msg) (now s) j), s')" "invar s'" "now s' = now s"
    "job_at s' = (job_at s)(jID job \<mapsto> settle_wire (decide k job err msg) (now s) j)"
    by (rule fenced_owned [OF settle_fenced assms])
  then show thesis by (intro that [of s']) (simp_all add: settleFailure_decide)
qed

lemma settleFailure_stale:
  "invar s \<Longrightarrow> \<not> owned job_at (jID job) (jLeaseToken job) s \<Longrightarrow> snd (settleFailure ops k job err msg s) = s"
  by (simp add: settleFailure_decide fenced_stale [OF settle_fenced])

lemma execute_stale:
  assumes "invar s" "\<not> owned job_at (jID job) (jLeaseToken job) s" "e = New ops src stg None"
  shows "snd (execute e k job s) = s"
  using assms fenced_stale [OF ack_law assms(1,2)]
  by (auto simp: execute_def New_def settleFailure_stale split: prod.split option.split)

lemma execute_success:
  assumes "invar s" "job_at s (jID job) = Some j" "jState j = StateActive" "jLeaseToken j = jLeaseToken job"
    and e: "e = New ops src stg None" and run: "snd (runHandler k job) = None"
  obtains s' where "execute e k job s = (Settled ''succeeded'', s')" "invar s'" "now s' = now s"
    "job_at s' = (job_at s)(jID job \<mapsto> wire_ack (now s) j)"
proof -
  obtain s' where s': "opAck ops (jID job) (jLeaseToken job) s = (Inr (), s')" "invar s'" "now s' = now s"
    "job_at s' = (job_at s)(jID job \<mapsto> wire_ack (now s) j)"
    by (rule fenced_owned [OF ack_law assms(1-4)])
  obtain result where "runHandler k job = (result, None)" using run by (cases "runHandler k job") auto
  with s' show thesis by (intro that [of s']) (simp_all add: execute_def e New_def)
qed

lemma execute_failure:
  assumes "invar s" "job_at s (jID job) = Some j" "jState j = StateActive" "jLeaseToken j = jLeaseToken job"
    and e: "e = New ops src stg ack" and run: "snd (runHandler k job) = Some err" "errorText err = Some msg"
  obtains l s' where "execute e k job s = (Settled l, s')" "invar s'" "now s' = now s"
    "job_at s' = (job_at s)(jID job \<mapsto> settle_wire (decide k job err msg) (now s) j)"
proof -
  obtain s' where s': "snd (settleFailure ops k job err msg s) = s'" "invar s'" "now s' = now s"
    "job_at s' = (job_at s)(jID job \<mapsto> settle_wire (decide k job err msg) (now s) j)"
    by (rule settleFailure_owned [OF assms(1-4)])
  obtain l where l: "fst (settleFailure ops k job err msg s) = Settled l"
    using settleFailure_settled [of ops k job err msg s] by blast
  obtain result where "runHandler k job = (result, Some err)" using run by (cases "runHandler k job") auto
  then have "execute e k job s = settleFailure ops k job err msg s"
    using run(2) by (simp add: execute_def e New_def)
  with s' l show thesis by (intro that [of l s']) (simp_all add: prod_eq_iff)
qed

end

text \<open>The states a failed execution can leave a job in, by what the classifier said.\<close>

lemma decide_state:
  "jState (settle_wire (decide k job err msg) t j) =
     (case oKind (classify_of k err) of
        OutcomeSnooze \<Rightarrow> if deadlined t j then StateDead else StateScheduled
      | OutcomeSkip \<Rightarrow> StateSkipped
      | OutcomeAbort \<Rightarrow> StateDead
      | OutcomeRetry \<Rightarrow> if jAttempt job \<ge> jMaxAttempts job then StateDead else StateScheduled)"
  by (simp add: decide_def Let_def wire_defs split: outcomeKind.split)

end
