(* ===== verification/Workflow_Worker.thy ===== *)
theory Workflow_Worker
  imports Workflow_Replay Engine Fake_Store
begin

text \<open>
  The workflow worker (\<open>workflow/worker.go\<close>, \<open>operation.go\<close>), client and manager on the
  in-memory store: which job a worker takes next, how a leased workflow task is
  replayed and settled, and how a leased operation is run and settled.

  What the environment decides is an argument: the worker's clock, how an operation
  handler ends, and in which state its context is when it returns (deadline passed,
  lease lost, worker stopping).
\<close>

section \<open>Worker\<close>

datatype workerMode = WorkerModeCombined | WorkerModeOperationOnly | WorkerModeWorkflowOnly

record worker =
  wkWorkflows :: "(string \<times> workflowFunc) list"
  wkOperations :: "(string \<times> (raw \<Rightarrow> handlerRun)) list"
  wkLeaseTTL :: duration
  wkDefaultMaxAttempts :: int
  wkOperationTimeout :: duration
  wkOperationRetryDelay :: duration
  wkRetention :: duration
  wkMode :: workerMode

text \<open>\<open>registerWorkflow\<close> and \<open>registerOperation\<close> panic (\<open>None\<close>) on a second registration.\<close>

definition registerWorkflow :: "string \<Rightarrow> string \<Rightarrow> workflowFunc \<Rightarrow> worker \<Rightarrow> worker option" where
  "registerWorkflow name version fn w =
     (if map_of (wkWorkflows w) (registrationKey name version) \<noteq> None then None
      else Some (w\<lparr>wkWorkflows := AList.update (registrationKey name version) fn (wkWorkflows w)\<rparr>))"

definition registerOperation :: "string \<Rightarrow> string \<Rightarrow> (raw \<Rightarrow> handlerRun) \<Rightarrow> worker \<Rightarrow> worker option" where
  "registerOperation name version fn w =
     (if map_of (wkOperations w) (registrationKey name version) \<noteq> None then None
      else Some (w\<lparr>wkOperations := AList.update (registrationKey name version) fn (wkOperations w)\<rparr>))"

definition lookupWorkflow :: "worker \<Rightarrow> string \<Rightarrow> string \<Rightarrow> workflowFunc option" where
  "lookupWorkflow w name version = map_of (wkWorkflows w) (registrationKey name version)"

definition lookupOperation :: "worker \<Rightarrow> string \<Rightarrow> string \<Rightarrow> (raw \<Rightarrow> handlerRun) option" where
  "lookupOperation w name version = map_of (wkOperations w) (registrationKey name version)"

text \<open>\<open>key[:strings.LastIndex(key, "@")]\<close>\<close>

definition beforeLastAt :: "string \<Rightarrow> string" where
  "beforeLastAt key = rev (tl (dropWhile (\<lambda>ch. ch \<noteq> CHR ''@'') (rev key)))"

definition registeredNames :: "worker \<Rightarrow> string list" where
  "registeredNames w = remdups (map (beforeLastAt \<circ> fst) (wkWorkflows w))"

definition registeredOperationKinds :: "worker \<Rightarrow> string list" where
  "registeredOperationKinds w = map (\<lambda>kf. ''$op:'' @ fst kf) (wkOperations w)"

definition enqueueWorkflowTask :: "(nat \<Rightarrow> uuid) \<Rightarrow> string \<Rightarrow> uuid \<Rightarrow> time \<Rightarrow> fake \<Rightarrow> (fake, unit) outcome" where
  "enqueueWorkflowTask gen name wid runAt s = ScheduleTask gen wid (workflowTaskKindFmt name) runAt s"

text \<open>A settlement that found the lease gone is not an error of the worker.\<close>

definition ignore_not_found :: "(fake, unit) outcome \<Rightarrow> (fake, unit) outcome" where
  "ignore_not_found r = (case r of (Inl e, s) \<Rightarrow> ((if IsNotFound e then Inr () else Inl e), s) | (Inr u, s) \<Rightarrow> (Inr (), s))"

section \<open>Workflow tasks\<close>

definition orNullJSON :: "raw \<Rightarrow> string" where
  "orNullJSON r = (case r of None \<Rightarrow> ''null'' | Some b \<Rightarrow> if b = [] then ''null'' else b)"

definition recordTerminal :: "codec \<Rightarrow> uuid \<Rightarrow> string \<Rightarrow> string \<Rightarrow> fake \<Rightarrow> fake" where
  "recordTerminal cc wid typ body s = snd (AppendHistory (execKeyOf cc) wid typ (Some body) s)"

definition settleReplayError :: "codec \<Rightarrow> job \<Rightarrow> uuid \<Rightarrow> replayError \<Rightarrow> fake \<Rightarrow> (fake, unit) outcome" where
  "settleReplayError cc job wid err s =
     (if jAttempt job < jMaxAttempts job
      then ignore_not_found (Reschedule (jID job) (jLeaseToken job) (Backoff (jAttempt job)) (replayText cc err) s)
      else
        let reason = ''workflow: replay failed after '' @ itoa (jAttempt job) @ '' attempts: '' @ replayText cc err
        in case Dead (jID job) (jLeaseToken job) reason s of
             (Inl e, s1) \<Rightarrow> ((if IsNotFound e then Inr () else Inl e), s1)
           | (Inr u, s1) \<Rightarrow> (Inr (), snd (SuspendWorkflow wid reason s1)))"

definition unknownWorkflowText :: "codec \<Rightarrow> string \<Rightarrow> string \<Rightarrow> string" where
  "unknownWorkflowText cc name version =
     ''workflow: '' @ goQuote cc name @ '' version '' @ goQuote cc version @ '': workflow: unknown workflow (name, version)''"

definition isTerminalWorkflowState :: "workflow_state \<Rightarrow> bool" where
  "isTerminalWorkflowState st =
     (case st of WorkflowSucceeded \<Rightarrow> True | WorkflowFailed \<Rightarrow> True | WorkflowCancelled \<Rightarrow> True | _ \<Rightarrow> False)"

text \<open>The part of \<open>processJob\<close> after the replay, by its outcome.\<close>

definition settle_pass :: "codec \<Rightarrow> (nat \<Rightarrow> uuid) \<Rightarrow> workflowExecutionView \<Rightarrow> job \<Rightarrow> runOutcome \<Rightarrow> fake \<Rightarrow> (fake, unit) outcome" where
  "settle_pass cc gen view job out s =
     (let wid = jRunID job; jid = jID job; tok = jLeaseToken job in
      case out of
        OutcomeCompleted result \<Rightarrow>
          (case CompleteWorkflow wid result s of
             (Inl e, s1) \<Rightarrow> Release jid tok s1
           | (Inr u, s1) \<Rightarrow> Ack jid tok (recordTerminal cc wid EventWorkflowCompleted (orNullJSON result) s1))
      | OutcomeFailed reason \<Rightarrow>
          (case FailWorkflow wid reason s of
             (Inl e, s1) \<Rightarrow> Release jid tok s1
           | (Inr u, s1) \<Rightarrow> Ack jid tok (recordTerminal cc wid EventWorkflowFailed (encReason cc reason) s1))
      | OutcomeParked wakeAt \<Rightarrow>
          if wakeAt \<noteq> zero_time
          then (case enqueueWorkflowTask gen (exName view) wid wakeAt s of
                  (Inl e, s1) \<Rightarrow> Release jid tok s1
                | (Inr u, s1) \<Rightarrow> Ack jid tok s1)
          else Ack jid tok s
      | OutcomeError err \<Rightarrow> settleReplayError cc job wid err s)"

definition processJob :: "codec \<Rightarrow> (nat \<Rightarrow> uuid) \<Rightarrow> worker \<Rightarrow> time \<Rightarrow> job \<Rightarrow> fake \<Rightarrow> (fake, unit) outcome" where
  "processJob cc gen w now job s =
     (let wid = jRunID job; jid = jID job; tok = jLeaseToken job in
      case GetWorkflowExecution wid s of
        Inl e \<Rightarrow>
          if IsNotFound e then Dead jid tok ''workflow: execution not found'' s else Release jid tok s
      | Inr view \<Rightarrow>
          if isTerminalWorkflowState (exState view) then Ack jid tok s
          else if exState view = WorkflowSuspended then Ack jid tok s
          else (case lookupWorkflow w (exName view) (exVersion view) of
                  None \<Rightarrow>
                    let reason = unknownWorkflowText cc (exName view) (exVersion view)
                    in (case FailWorkflow wid reason s of
                          (Inl e, s1) \<Rightarrow> Release jid tok s1
                        | (Inr u, s1) \<Rightarrow> Dead jid tok reason (recordTerminal cc wid EventWorkflowFailed (encReason cc reason) s1))
                | Some fn \<Rightarrow>
                    (case ListHistory wid s of
                       Inl e \<Rightarrow> Release jid tok s
                     | Inr evs \<Rightarrow>
                         let (out, c) = runWorkflow cc gen
                               (newContext wid (exName view) (map fst (wkOperations w)) (wkDefaultMaxAttempts w) now evs s)
                               fn (exInput view)
                         in settle_pass cc gen view job out (wcStore c))))"

section \<open>Operation tasks\<close>

text \<open>\<open>errors.Is(err, ErrUncertain)\<close>: the sentinel is the one plain error of its text.\<close>

fun IsUncertain :: "goError \<Rightarrow> bool" where
  "IsUncertain (Plain m) = (m = ''workflow: operation uncertain'')"
| "IsUncertain (Wrapped m es) = list_ex IsUncertain es"
| "IsUncertain (Joined es) = list_ex IsUncertain es"
| "IsUncertain (Sentinel out None) = False"
| "IsUncertain (Sentinel out (Some e)) = IsUncertain e"

datatype ctxErr = NoErr | DeadlineExceeded | Canceled

record opEnv =
  oeCtxErr :: ctxErr
  oeWorkerStopping :: bool
  oeElapsed :: duration

datatype opEnd = Settles "error + unit" | WorkerCrash

definition runOperation :: "(raw \<Rightarrow> handlerRun) \<Rightarrow> operationJobPayload \<Rightarrow> raw \<times> goError option" where
  "runOperation fn body =
     (case fn (ojInput body) of
        Returns r e \<Rightarrow> (r, e)
      | Panics v stack \<Rightarrow> (None, Some (Plain (''operation panic: '' @ v @ CHR 0x0A # stack))))"

definition safeRelease :: "job \<Rightarrow> fake \<Rightarrow> (fake, unit) outcome" where
  "safeRelease job s = ignore_not_found (Release (jID job) (jLeaseToken job) s)"

definition op_result :: "operationJobPayload \<Rightarrow> raw \<Rightarrow> string \<Rightarrow> operationResultPayload" where
  "op_result body result err = \<lparr>orName = ojName body, orVersion = ojVersion body, orExecutionKey = ojExecutionKey body,
     orResult = result, orError = err\<rparr>"

definition appendOpFailed :: "codec \<Rightarrow> uuid \<Rightarrow> operationJobPayload \<Rightarrow> string \<Rightarrow> fake \<Rightarrow> fake" where
  "appendOpFailed cc wid body reason s =
     snd (AppendHistory (execKeyOf cc) wid EventOperationFailed (Some (encResult cc (op_result body None reason))) s)"

definition wakeWorkflow :: "(nat \<Rightarrow> uuid) \<Rightarrow> string \<Rightarrow> uuid \<Rightarrow> fake \<Rightarrow> (fake, unit) outcome" where
  "wakeWorkflow gen name wid s =
     (if name = []
      then (case GetWorkflowExecution wid s of
              Inl e \<Rightarrow> (Inl e, s)
            | Inr view \<Rightarrow> enqueueWorkflowTask gen (exName view) wid zero_time s)
      else enqueueWorkflowTask gen name wid zero_time s)"

text \<open>Settle with \<open>f\<close>, and wake the workflow unless the lease is gone.\<close>

definition settle_and_wake ::
  "(nat \<Rightarrow> uuid) \<Rightarrow> operationJobPayload \<Rightarrow> job \<Rightarrow> (fake, unit) outcome \<Rightarrow> (fake, unit) outcome" where
  "settle_and_wake gen body job r =
     (case r of
        (Inl e, s) \<Rightarrow> ((if IsNotFound e then Inr () else Inl e), s)
      | (Inr u, s) \<Rightarrow> wakeWorkflow gen (ojWorkflowName body) (jRunID job) s)"

definition mark_uncertain :: "job \<Rightarrow> string \<Rightarrow> fake \<Rightarrow> (fake, unit) outcome" where
  "mark_uncertain job reason s =
     (case MarkUncertain (jID job) (jLeaseToken job) reason s of
        (Inl e, s1) \<Rightarrow> if IsNotFound e then (Inr (), s1) else safeRelease job s1
      | (Inr u, s1) \<Rightarrow> (Inr (), s1))"

definition fail_operation :: "codec \<Rightarrow> (nat \<Rightarrow> uuid) \<Rightarrow> operationJobPayload \<Rightarrow> job \<Rightarrow> string \<Rightarrow> fake \<Rightarrow> (fake, unit) outcome" where
  "fail_operation cc gen body job msg s =
     settle_and_wake gen body job (Dead (jID job) (jLeaseToken job) msg (appendOpFailed cc (jRunID job) body msg s))"

text \<open>Record the outcome, then settle with \<open>f\<close>; a failed append releases the job.\<close>

definition complete_operation ::
  "codec \<Rightarrow> (nat \<Rightarrow> uuid) \<Rightarrow> operationJobPayload \<Rightarrow> job \<Rightarrow> raw \<Rightarrow> (fake \<Rightarrow> (fake, unit) outcome) \<Rightarrow> fake \<Rightarrow> (fake, unit) outcome" where
  "complete_operation cc gen body job result f s =
     (case AppendHistory (execKeyOf cc) (jRunID job) EventOperationCompleted (Some (encResult cc (op_result body result []))) s of
        (Inl e, s1) \<Rightarrow> safeRelease job s1
      | (Inr n, s1) \<Rightarrow> settle_and_wake gen body job (f s1))"

definition snooze_operation :: "codec \<Rightarrow> (nat \<Rightarrow> uuid) \<Rightarrow> operationJobPayload \<Rightarrow> job \<Rightarrow> duration \<Rightarrow> string \<Rightarrow> fake \<Rightarrow> (fake, unit) outcome" where
  "snooze_operation cc gen body job delay msg s =
     (let text' = ''snooze deadline exceeded: '' @ msg in
      case Snooze (jID job) (jLeaseToken job) delay text' s of
        (Inl e, s1) \<Rightarrow> ((if IsNotFound e then Inr () else Inl e), s1)
      | (Inr past, s1) \<Rightarrow>
          if past then wakeWorkflow gen (ojWorkflowName body) (jRunID job) (appendOpFailed cc (jRunID job) body text' s1)
          else (Inr (), s1))"

definition settle_operation_error ::
  "codec \<Rightarrow> (nat \<Rightarrow> uuid) \<Rightarrow> worker \<Rightarrow> operationJobPayload \<Rightarrow> job \<Rightarrow> goError \<Rightarrow> string \<Rightarrow> fake \<Rightarrow> (fake, unit) outcome" where
  "settle_operation_error cc gen w body job err msg s =
     (let out = ClassifyOutcome err in
      case oKind out of
        OutcomeSnooze \<Rightarrow> snooze_operation cc gen body job (oDelay out) msg s
      | OutcomeAbort \<Rightarrow> fail_operation cc gen body job msg s
      | OutcomeSkip \<Rightarrow> complete_operation cc gen body job None (Skip (jID job) (jLeaseToken job) msg) s
      | OutcomeRetry \<Rightarrow>
          if jAttempt job < jMaxAttempts job
          then ignore_not_found (Reschedule (jID job) (jLeaseToken job)
                 (if oDelay out > 0 then oDelay out else wkOperationRetryDelay w) msg s)
          else fail_operation cc gen body job msg s)"

definition leaseLost :: "opEnv \<Rightarrow> bool" where
  "leaseLost env = (oeCtxErr env \<noteq> NoErr \<and> oeCtxErr env \<noteq> DeadlineExceeded \<and> \<not> oeWorkerStopping env)"

definition timed_out :: "worker \<Rightarrow> opEnv \<Rightarrow> bool" where
  "timed_out w env = (oeCtxErr env = DeadlineExceeded \<and> wkOperationTimeout w > 0 \<and> oeElapsed env \<ge> wkOperationTimeout w)"

definition processOperationJob ::
  "codec \<Rightarrow> (nat \<Rightarrow> uuid) \<Rightarrow> worker \<Rightarrow> opEnv \<Rightarrow> job \<Rightarrow> fake \<Rightarrow> opEnd \<times> fake" where
  "processOperationJob cc gen w env job s =
     (case decJob cc (jPayload job) of
        None \<Rightarrow> apfst Settles (Dead (jID job) (jLeaseToken job) ''workflow: corrupt operation payload'' s)
      | Some body \<Rightarrow>
          (case lookupOperation w (ojName body) (ojVersion body) of
             None \<Rightarrow>
               let reason = opErrorText cc (UnknownOperation (ojName body) (ojVersion body));
                   s1 = appendOpFailed cc (jRunID job) body reason s;
                   s2 = snd (Dead (jID job) (jLeaseToken job) reason s1)
               in apfst Settles (wakeWorkflow gen (ojWorkflowName body) (jRunID job) s2)
           | Some fn \<Rightarrow>
               let (result, runErr) = runOperation fn body in
               if leaseLost env then (Settles (Inr ()), s)
               else if timed_out w env
               then apfst Settles (mark_uncertain job ''operation: start-to-close timeout (uncertain)'' s)
               else (case runErr of
                       None \<Rightarrow> apfst Settles (complete_operation cc gen body job result (Ack (jID job) (jLeaseToken job)) s)
                     | Some err \<Rightarrow>
                         (case errorText err of
                            None \<Rightarrow> (WorkerCrash,
                              if \<not> IsUncertain err \<and> oKind (ClassifyOutcome err) = OutcomeSkip
                              then snd (AppendHistory (execKeyOf cc) (jRunID job) EventOperationCompleted
                                          (Some (encResult cc (op_result body None []))) s)
                              else s)
                          | Some msg \<Rightarrow>
                              if IsUncertain err then apfst Settles (mark_uncertain job msg s)
                              else apfst Settles (settle_operation_error cc gen w body job err msg s)))))"

section \<open>Taking the next job\<close>

definition task_params :: "worker \<Rightarrow> string \<Rightarrow> dequeueParams" where
  "task_params w kind = \<lparr>dpKind = kind, dpLimit = 1, dpLease = wkLeaseTTL w, dpDefaultMaxAttempts = wkDefaultMaxAttempts w,
     dpOverrideDefault = True\<rparr>"

text \<open>The first kind with a due job, tried in order: the leased job, if there is one.\<close>

fun dequeue_first :: "(nat \<Rightarrow> uuid) \<Rightarrow> worker \<Rightarrow> string list \<Rightarrow> fake \<Rightarrow> (error + job option) \<times> fake" where
  "dequeue_first gen w [] s = (Inr None, s)"
| "dequeue_first gen w (kind # kinds) s =
     (case DequeueBatch gen SourceWorkflow (task_params w kind) s of
        (Inl e, s1) \<Rightarrow> (Inl e, s1)
      | (Inr [], s1) \<Rightarrow> dequeue_first gen w kinds s1
      | (Inr (job # _), s1) \<Rightarrow> (Inr (Some job), s1))"

definition dequeueOperations ::
  "codec \<Rightarrow> (nat \<Rightarrow> uuid) \<Rightarrow> worker \<Rightarrow> (job \<Rightarrow> opEnv) \<Rightarrow> string list \<Rightarrow> fake \<Rightarrow> (bool \<times> opEnd) \<times> fake" where
  "dequeueOperations cc gen w env kinds s =
     (case dequeue_first gen w kinds s of
        (Inl e, s1) \<Rightarrow> ((False, Settles (Inl e)), s1)
      | (Inr None, s1) \<Rightarrow> ((False, Settles (Inr ())), s1)
      | (Inr (Some job), s1) \<Rightarrow> (let (r, s2) = processOperationJob cc gen w (env job) job s1 in ((True, r), s2)))"

definition dequeueWorkflows ::
  "codec \<Rightarrow> (nat \<Rightarrow> uuid) \<Rightarrow> worker \<Rightarrow> time \<Rightarrow> string list \<Rightarrow> fake \<Rightarrow> (bool \<times> opEnd) \<times> fake" where
  "dequeueWorkflows cc gen w now names s =
     (case dequeue_first gen w (map workflowTaskKindFmt names) s of
        (Inl e, s1) \<Rightarrow> ((False, Settles (Inl e)), s1)
      | (Inr None, s1) \<Rightarrow> ((False, Settles (Inr ())), s1)
      | (Inr (Some job), s1) \<Rightarrow> (let (r, s2) = processJob cc gen w now job s1 in ((True, Settles r), s2)))"

definition processNext ::
  "codec \<Rightarrow> (nat \<Rightarrow> uuid) \<Rightarrow> worker \<Rightarrow> time \<Rightarrow> (job \<Rightarrow> opEnv) \<Rightarrow> fake \<Rightarrow> (bool \<times> opEnd) \<times> fake" where
  "processNext cc gen w now env s =
     (let names = registeredNames w; opKinds = registeredOperationKinds w;
          kinds = map workflowTaskKindFmt names @ opKinds
      in case (if kinds \<noteq> [] then PromoteDue SourceWorkflow kinds s else (Inr 0, s)) of
           (Inl e, s1) \<Rightarrow> ((False, Settles (Inl e)), s1)
         | (Inr n, s1) \<Rightarrow>
             (case wkMode w of
                WorkerModeOperationOnly \<Rightarrow> dequeueOperations cc gen w env opKinds s1
              | WorkerModeWorkflowOnly \<Rightarrow> dequeueWorkflows cc gen w now names s1
              | WorkerModeCombined \<Rightarrow>
                  (let ((ok, r), s2) = dequeueOperations cc gen w env opKinds s1 in
                   if ok \<or> r \<noteq> Settles (Inr ()) then ((ok, r), s2) else dequeueWorkflows cc gen w now names s2)))"

definition reconcileBatch :: int where
  "reconcileBatch = 100"

definition stalledAfterLeaseMultiple :: int where
  "stalledAfterLeaseMultiple = 5"

definition reconcileOnce :: "(nat \<Rightarrow> uuid) \<Rightarrow> worker \<Rightarrow> fake \<Rightarrow> fake" where
  "reconcileOnce gen w s =
     fold (\<lambda>(wid, name) st. snd (enqueueWorkflowTask gen name wid zero_time st))
       (ListStalledWorkflows (wkLeaseTTL w * stalledAfterLeaseMultiple) reconcileBatch s) s"

definition vacuum_workflows_tick :: "worker \<Rightarrow> fake \<Rightarrow> fake" where
  "vacuum_workflows_tick w s = (if wkRetention w \<le> 0 then s else snd (VacuumWorkflows (wkRetention w) s))"

section \<open>Client and manager\<close>

record startResult =
  srWorkflowID :: uuid
  srDeduplicated :: bool

record startOptions =
  soWorkflowID :: uuid
  soBusinessKey :: string
  soTaskQueue :: string
  soMeta :: meta

text \<open>\<open>Client.Start\<close>; the input is what \<open>json.Marshal\<close> makes of it.\<close>

definition ClientStart ::
  "(nat \<Rightarrow> uuid) \<Rightarrow> string \<Rightarrow> string \<Rightarrow> string + string \<Rightarrow> startOptions \<Rightarrow> fake \<Rightarrow> (fake, startResult) outcome" where
  "ClientStart gen name version input opts s =
     (let drawn = (soWorkflowID opts = Nil_uuid);
          wid = (if drawn then gen (draws s) else soWorkflowID opts);
          s0 = (if drawn then s\<lparr>draws := Suc (draws s)\<rparr> else s)
      in case input of
           Inl m \<Rightarrow> (Inl (OtherError m), s0)
         | Inr payload \<Rightarrow>
             (case StartWorkflow gen \<lparr>wspID = wid, wspName = name, wspVersion = version, wspInput = Some payload,
                     wspBusinessIdempotencyKey = soBusinessKey opts, wspTaskQueue = soTaskQueue opts, wspMeta = soMeta opts\<rparr> s0 of
                (Inl e, s1) \<Rightarrow> (Inl e, s1)
              | (Inr (inserted, existing), s1) \<Rightarrow>
                  (Inr (if \<not> inserted then \<lparr>srWorkflowID = existing, srDeduplicated = True\<rparr>
                        else \<lparr>srWorkflowID = wid, srDeduplicated = False\<rparr>), s1)))"

definition ClientSignalWorkflow ::
  "(string \<Rightarrow> raw \<Rightarrow> error + string) \<Rightarrow> (nat \<Rightarrow> uuid) \<Rightarrow> uuid \<Rightarrow> string \<Rightarrow> string + string \<Rightarrow> string \<Rightarrow> fake \<Rightarrow> (fake, bool) outcome" where
  "ClientSignalWorkflow sigJSON gen wid name payload messageID s =
     (case payload of
        Inl m \<Rightarrow> (Inl (OtherError m), s)
      | Inr body \<Rightarrow> SignalWorkflow sigJSON gen \<lparr>spWorkflowID = wid, spName = name, spMessageID = messageID, spPayload = Some body\<rparr> s)"

definition ManagerGet :: "uuid \<Rightarrow> fake \<Rightarrow> error + workflowExecutionView" where
  "ManagerGet wid s = GetWorkflowExecution wid s"

definition ManagerCancel :: "uuid \<Rightarrow> fake \<Rightarrow> (fake, unit) outcome" where
  "ManagerCancel wid s = CancelWorkflowExecution wid s"

definition ManagerSuspend :: "uuid \<Rightarrow> string \<Rightarrow> fake \<Rightarrow> (fake, unit) outcome" where
  "ManagerSuspend wid reason s = SuspendWorkflow wid reason s"

definition ManagerResume :: "(nat \<Rightarrow> uuid) \<Rightarrow> uuid \<Rightarrow> fake \<Rightarrow> (fake, unit) outcome" where
  "ManagerResume gen wid s =
     (case GetWorkflowExecution wid s of
        Inl e \<Rightarrow> (Inl e, s)
      | Inr view \<Rightarrow>
          (case ResumeWorkflow wid s of
             (Inl e, s1) \<Rightarrow> (Inl e, s1)
           | (Inr u, s1) \<Rightarrow> enqueueWorkflowTask gen (exName view) wid zero_time s1))"

definition uncertain_message :: "codec \<Rightarrow> raw \<Rightarrow> string" where
  "uncertain_message cc result =
     (case result of
        None \<Rightarrow> ''uncertain: fail''
      | Some b \<Rightarrow> if b = [] then ''uncertain: fail''
                   else (case decError cc result of None \<Rightarrow> ''uncertain: fail'' | Some m \<Rightarrow> if m = [] then ''uncertain: fail'' else m))"

definition resolved_event :: "codec \<Rightarrow> job \<Rightarrow> string \<Rightarrow> raw \<Rightarrow> string \<times> operationResultPayload" where
  "resolved_event cc job decision result =
     (let rp = \<lparr>orName = meta_at (jMeta job) ''op_name'', orVersion = meta_at (jMeta job) ''op_version'',
                orExecutionKey = meta_at (jMeta job) ''execution_key'', orResult = None, orError = []\<rparr>
      in if decision = ''complete'' then (EventOperationCompleted, rp\<lparr>orResult := result\<rparr>)
         else (EventOperationFailed, rp\<lparr>orError := uncertain_message cc result\<rparr>))"

definition ManagerResolveUncertain ::
  "codec \<Rightarrow> (nat \<Rightarrow> uuid) \<Rightarrow> uuid \<Rightarrow> string \<Rightarrow> raw \<Rightarrow> fake \<Rightarrow> (fake, unit) outcome" where
  "ManagerResolveUncertain cc gen jid decision result s =
     (case GetJob SourceWorkflow jid s of
        Inl e \<Rightarrow> (Inl e, s)
      | Inr job \<Rightarrow>
          if jState job \<noteq> StateUncertain then (Inl (NotFound ''resolve uncertain''), s)
          else (case ResolveUncertain jid decision result s of
                  (Inl e, s1) \<Rightarrow> (Inl e, s1)
                | (Inr (wid, name0), s1) \<Rightarrow>
                    let name = (if name0 = [] then meta_at (jMeta job) ''workflow_name'' else name0) in
                    if decision = ''complete'' \<or> decision = ''fail''
                    then (let (typ, rp) = resolved_event cc job decision result in
                          case AppendHistory (execKeyOf cc) wid typ (Some (encResult cc rp)) s1 of
                            (Inl e, s2) \<Rightarrow> (Inl e, s2)
                          | (Inr n, s2) \<Rightarrow> enqueueWorkflowTask gen name wid zero_time s2)
                    else if decision = ''retry'' then (Inr (), s1)
                    else (Inl (OtherError ''workflow: unknown uncertain decision''), s1)))"

section \<open>What a pass leaves alone\<close>

text \<open>
  While a job is held, appending history and scheduling other jobs change neither
  the job nor the state of its execution.
\<close>

definition quiet :: "uuid \<Rightarrow> uuid \<Rightarrow> fake \<Rightarrow> fake \<Rightarrow> bool" where
  "quiet jid wid s s' =
     (draws s \<le> draws s' \<and> clock s' = clock s \<and> map_of (jobs s') jid = map_of (jobs s) jid \<and>
      (\<forall>e. map_of (executions s) wid = Some e \<longrightarrow> exID e = wid \<longrightarrow>
         (\<exists>e'. map_of (executions s') wid = Some e' \<and> exID e' = wid \<and> exState e' = exState e \<and> exName e' = exName e)))"

lemma quiet_refl [simp]: "quiet jid wid s s"
  by (simp add: quiet_def)

lemma quiet_trans: "quiet jid wid a b \<Longrightarrow> quiet jid wid b c \<Longrightarrow> quiet jid wid a c"
  unfolding quiet_def by fastforce

lemma quiet_AppendHistory [simp]: "quiet jid wid s (snd (AppendHistory execKey wid typ payload s))"
  by (auto simp: AppendHistory_def quiet_def append_event_def AList.update_conv' split: option.split)

lemma quiet_AppendHistoryD: "AppendHistory execKey wid typ payload s = (r, s') \<Longrightarrow> quiet jid wid s s'"
  using quiet_AppendHistory [of jid wid s execKey "typ" payload] by (simp del: quiet_AppendHistory)

lemma insert_wf_job_frame [simp]:
  "fst (insert_wf_job mk gen s) = gen (draws s)" "draws (snd (insert_wf_job mk gen s)) = Suc (draws s)"
  "clock (snd (insert_wf_job mk gen s)) = clock s"
  by (simp_all add: insert_wf_job_def Let_def nextSeq_def case_prod_unfold)

lemma insert_wf_job_jobs:
  "jobs (snd (insert_wf_job mk gen s)) =
     AList.update (jID (mk (gen (draws s)) (jobSeq s + 1))) (mk (gen (draws s)) (jobSeq s + 1)) (jobs s)"
  by (simp add: insert_wf_job_def Let_def nextSeq_def case_prod_unfold)

lemma quiet_insert:
  assumes "gen (draws s) \<noteq> jid" "\<And>i sq. jID (mk i sq) = i"
  shows "quiet jid wid s (snd (insert_wf_job mk gen s))"
  using assms by (simp add: quiet_def insert_wf_job_jobs AList.update_conv')

lemma job_ids [simp]: "jID (op_job p now i sq) = i" "jID (wtask_job wid kind runAt now i sq) = i"
  by (simp_all add: op_job_def wtask_job_def Let_def)

lemma quiet_ScheduleOperation:
  assumes "\<forall>n\<ge>draws s. gen n \<noteq> jid"
  shows "quiet jid wid s (snd (ScheduleOperation gen p s))"
proof -
  have "quiet jid wid s (snd (insert_wf_job (op_job p (clock s)) gen s))" by (rule quiet_insert) (use assms in simp_all)
  then show ?thesis by (auto simp: ScheduleOperation_def case_prod_unfold Let_def split: option.split)
qed

lemma quiet_scheduleTask:
  assumes "\<forall>n\<ge>draws s. gen n \<noteq> jid"
  shows "quiet jid wid s (scheduleTaskLocked gen wid' kind runAt s)"
  unfolding scheduleTaskLocked_def by (rule quiet_insert) (use assms in simp_all)

text \<open>The same for a step of the pass, which also stays with its execution.\<close>

definition quiet_pass :: "uuid \<Rightarrow> wfContext \<Rightarrow> wfContext \<Rightarrow> bool" where
  "quiet_pass jid c c1 = (wcWorkflowID c1 = wcWorkflowID c \<and> quiet jid (wcWorkflowID c) (wcStore c) (wcStore c1))"

lemma quiet_pass_trans: "quiet_pass jid a b \<Longrightarrow> quiet_pass jid b c \<Longrightarrow> quiet_pass jid a c"
  unfolding quiet_pass_def by (metis quiet_trans)

lemma quiet_pass_idx [simp]: "quiet_pass jid c (c\<lparr>wcIdx := i\<rparr>)" "quiet_pass jid c c" "quiet_pass jid c (c\<lparr>wcConsumed := u\<rparr>)"
  "quiet_pass jid (c\<lparr>wcIdx := i\<rparr>) c1 = quiet_pass jid c c1"
  by (simp_all add: quiet_pass_def)

lemma quiet_recordD: "recordEvent cc typ payload c = (r, c1) \<Longrightarrow> quiet_pass jid c c1"
  by (auto simp: recordEvent_def Let_def quiet_pass_def split: prod.splits sum.splits option.splits dest: quiet_AppendHistoryD)

lemma quiet_schedule_operation:
  assumes fresh: "\<forall>n\<ge>draws (wcStore c). gen n \<noteq> jid" and run: "schedule_operation cc gen name version payload c = (r, c1)"
  shows "quiet_pass jid c c1"
proof -
  have step: "quiet_pass jid c (c\<lparr>wcStore := s\<rparr>)" if "ScheduleOperation gen p (wcStore c) = (x, s)" for p x s
    using quiet_ScheduleOperation [OF fresh, of "wcWorkflowID c" p] that by (simp add: quiet_pass_def)
  show ?thesis using run unfolding schedule_operation_def Let_def
    by (auto split: prod.splits sum.splits dest: step quiet_recordD intro: quiet_pass_trans)
qed

lemma quiet_ExecuteOperation:
  assumes fresh: "\<forall>n\<ge>draws (wcStore c). gen n \<noteq> jid" and run: "ExecuteOperation cc gen name version input c = (r, c1)"
  shows "quiet_pass jid c c1"
proof -
  have rp: "replay_operation cc name ev c = (r, c1) \<Longrightarrow> quiet_pass jid c c1" for ev
    by (auto simp: replay_operation_def Let_def quiet_pass_def split: option.splits if_splits)
  have rf: "record_failure cc name version e c = (r, c1) \<Longrightarrow> quiet_pass jid c c1" for e
    by (auto simp: record_failure_def split: prod.splits sum.splits dest: quiet_recordD)
  show ?thesis using run rp rf quiet_schedule_operation [OF fresh]
    by (auto simp: ExecuteOperation_def split: option.splits sum.splits if_splits)
qed

lemma quiet_probeSleep:
  assumes run: "probeSleep cc d c = (r, c1)"
  shows "quiet_pass jid c c1"
proof -
  have td: "timer_deadline cc d c = (x, b) \<Longrightarrow> quiet_pass jid c b" for x b
    by (auto simp: timer_deadline_def split: prod.splits sum.splits option.splits dest!: quiet_recordD [where jid = jid])
  have tf: "timer_fired cc t b = (x, b') \<Longrightarrow> quiet_pass jid b b'" for t b x b'
    by (auto simp: timer_fired_def split: prod.splits sum.splits option.splits if_splits dest!: quiet_recordD [where jid = jid])
  show ?thesis using run
    by (auto simp: probeSleep_def split: prod.splits sum.splits dest: td tf intro: quiet_pass_trans)
qed

lemma fresh_pass: "quiet_pass jid c c1 \<Longrightarrow> \<forall>n\<ge>draws (wcStore c). gen n \<noteq> jid \<Longrightarrow> \<forall>n\<ge>draws (wcStore c1). gen n \<noteq> jid"
  by (auto simp: quiet_pass_def quiet_def)

lemma quiet_call:
  assumes fresh: "\<forall>n\<ge>draws (wcStore c). gen n \<noteq> jid"
    and run: "(case r of (Inl p, c1) \<Rightarrow> (recovered p, c1) | (Inr f, c1) \<Rightarrow> run_prog cc gen (k f) c1) = (out, c')"
    and first: "\<And>x b. r = (x, b) \<Longrightarrow> quiet_pass jid c b"
    and rest: "\<And>f b. \<forall>n\<ge>draws (wcStore b). gen n \<noteq> jid \<Longrightarrow> run_prog cc gen (k f) b = (out, c') \<Longrightarrow> quiet_pass jid b c'"
  shows "quiet_pass jid c c'"
proof -
  obtain x b where r: "r = (x, b)" by force
  note q = first [OF r]
  show ?thesis
  proof (cases x)
    case (Inl p)
    with run r q show ?thesis by simp
  next
    case (Inr f)
    with run r have "run_prog cc gen (k f) b = (out, c')" by simp
    from quiet_pass_trans [OF q rest [OF fresh_pass [OF q fresh] this]] show ?thesis .
  qed
qed

lemma quiet_run_prog:
  "\<forall>n\<ge>draws (wcStore c). gen n \<noteq> jid \<Longrightarrow> run_prog cc gen p c = (out, c1) \<Longrightarrow> quiet_pass jid c c1"
proof (induction p arbitrary: c)
  case (Operation name version input k)
  show ?case
    by (rule quiet_call [OF Operation.prems(1) Operation.prems(2) [unfolded run_prog.simps]])
      (auto dest: quiet_ExecuteOperation [OF Operation.prems(1)] intro: Operation.IH)
next
  case (Sleep d k)
  show ?case
    by (rule quiet_call [OF Sleep.prems(1) Sleep.prems(2) [unfolded run_prog.simps]])
      (auto dest: quiet_probeSleep intro: Sleep.IH)
next
  case (WaitSignal name k)
  have "probeSignal cc name c = (x, b) \<Longrightarrow> quiet_pass jid c b" for x b
    by (auto simp: probeSignal_def split: sum.splits option.splits)
  then show ?case
    by (intro quiet_call [OF WaitSignal.prems(1) WaitSignal.prems(2) [unfolded run_prog.simps]])
      (auto intro: WaitSignal.IH)
next
  case (Select fs k)
  then show ?case by (auto split: sum.splits)
next
  case (Now k)
  then show ?case by auto
qed auto

section \<open>Settling a held job\<close>

definition held :: "job \<Rightarrow> fake \<Rightarrow> bool" where
  "held job s = (case map_of (jobs s) (jID job) of None \<Rightarrow> False
     | Some j \<Rightarrow> jState j = StateActive \<and> jLeaseToken j = jLeaseToken job \<and> jID j = jID job \<and> jSource j = SourceWorkflow \<and> jRunID j = jRunID job)"

definition settled_to :: "uuid \<Rightarrow> job_state \<Rightarrow> fake \<Rightarrow> fake \<Rightarrow> bool" where
  "settled_to jid st s s' =
     ((\<exists>j'. map_of (jobs s') = (map_of (jobs s))(jid \<mapsto> j') \<and> jState j' = st) \<and> executions s' = executions s \<and> draws s' = draws s \<and> clock s' = clock s)"

lemma held_quiet: "quiet (jID job) wid s s' \<Longrightarrow> held job s \<Longrightarrow> held job s'"
  by (simp add: held_def quiet_def)

lemma settled_toI:
  assumes "jobs s' = AList.update jid j' (jobs s)" "jState j' = st" "executions s' = executions s" "draws s' = draws s" "clock s' = clock s"
  shows "settled_to jid st s s'"
  unfolding settled_to_def assms(1,3-5) AList.update_conv' using assms(2) by blast

definition past_deadline :: "job \<Rightarrow> fake \<Rightarrow> bool" where
  "past_deadline job s = (case map_of (jobs s) (jID job) of None \<Rightarrow> False | Some j \<Rightarrow> deadlined (clock s) j)"

lemma settle_held:
  assumes "held job s"
  shows "\<exists>s'. Ack (jID job) (jLeaseToken job) s = (Inr (), s') \<and> settled_to (jID job) StateSucceeded s s'"
    and "\<exists>s'. Dead (jID job) (jLeaseToken job) reason s = (Inr (), s') \<and> settled_to (jID job) StateDead s s'"
    and "\<exists>s'. Skip (jID job) (jLeaseToken job) reason s = (Inr (), s') \<and> settled_to (jID job) StateSkipped s s'"
    and "\<exists>s'. Reschedule (jID job) (jLeaseToken job) delay reason s = (Inr (), s') \<and> settled_to (jID job) StateScheduled s s'"
    and "\<exists>s'. Snooze (jID job) (jLeaseToken job) delay reason s = (Inr (past_deadline job s), s') \<and>
      settled_to (jID job) (if past_deadline job s then StateDead else StateScheduled) s s'"
proof -
  obtain j where j: "map_of (jobs s) (jID job) = Some j" "jState j = StateActive" "jLeaseToken j = jLeaseToken job" "jID j = jID job"
    using assms by (auto simp: held_def split: option.splits)
  note d = settle_def Let_def j
  show "\<exists>s'. Ack (jID job) (jLeaseToken job) s = (Inr (), s') \<and> settled_to (jID job) StateSucceeded s s'"
    unfolding Ack_def by (auto simp: d intro!: settled_toI)
  show "\<exists>s'. Dead (jID job) (jLeaseToken job) reason s = (Inr (), s') \<and> settled_to (jID job) StateDead s s'"
    unfolding Dead_def by (auto simp: d intro!: settled_toI)
  show "\<exists>s'. Skip (jID job) (jLeaseToken job) reason s = (Inr (), s') \<and> settled_to (jID job) StateSkipped s s'"
    unfolding Skip_def by (auto simp: d intro!: settled_toI)
  show "\<exists>s'. Reschedule (jID job) (jLeaseToken job) delay reason s = (Inr (), s') \<and> settled_to (jID job) StateScheduled s s'"
    unfolding Reschedule_def by (auto simp: d intro!: settled_toI)
  show "\<exists>s'. Snooze (jID job) (jLeaseToken job) delay reason s = (Inr (past_deadline job s), s') \<and>
      settled_to (jID job) (if past_deadline job s then StateDead else StateScheduled) s s'"
  proof (cases "deadlined (clock s) j")
    case True
    then have "past_deadline job s" by (simp add: past_deadline_def j)
    with True show ?thesis unfolding Snooze_def by (auto simp: d deadlined_def intro!: settled_toI)
  next
    case False
    then have "\<not> past_deadline job s" by (simp add: past_deadline_def j)
    with False show ?thesis unfolding Snooze_def by (auto simp: d deadlined_def intro!: settled_toI)
  qed
qed

text \<open>The state of the execution, where it exists under its own id.\<close>

definition exec_in :: "uuid \<Rightarrow> workflow_state \<Rightarrow> fake \<Rightarrow> bool" where
  "exec_in wid st s = (case map_of (executions s) wid of None \<Rightarrow> False | Some e \<Rightarrow> exID e = wid \<and> exState e = st)"

lemma exec_in_quiet: "quiet jid wid s s' \<Longrightarrow> exec_in wid st s \<Longrightarrow> exec_in wid st s'"
  by (fastforce simp: exec_in_def quiet_def split: option.splits)

lemma exec_in_settled: "settled_to jid st' s s' \<Longrightarrow> exec_in wid st s \<Longrightarrow> exec_in wid st s'"
  by (simp add: exec_in_def settled_to_def)

lemma exec_settles:
  assumes "exec_in wid st s"
  shows "\<exists>s'. CompleteWorkflow wid r s = (Inr (), s') \<and> exec_in wid WorkflowSucceeded s' \<and> jobs s' = jobs s"
    and "\<exists>s'. FailWorkflow wid reason s = (Inr (), s') \<and> exec_in wid WorkflowFailed s' \<and> jobs s' = jobs s"
    and "st \<in> {WorkflowRunning, WorkflowSuspended} \<Longrightarrow>
      \<exists>s'. SuspendWorkflow wid reason s = (Inr (), s') \<and> exec_in wid WorkflowSuspended s' \<and> jobs s' = jobs s"
proof -
  obtain e where e: "map_of (executions s) wid = Some e" "exID e = wid" "exState e = st"
    using assms by (auto simp: exec_in_def split: option.splits)
  have put: "exec_in wid (exState e') (putExec e' s)" if "exID e' = wid" for e'
    using that by (simp add: exec_in_def AList.update_conv')
  show "\<exists>s'. CompleteWorkflow wid r s = (Inr (), s') \<and> exec_in wid WorkflowSucceeded s' \<and> jobs s' = jobs s"
    using put [of "e\<lparr>exState := WorkflowSucceeded, exResult := clonePayload r, exUpdatedAt := clock s, exCompletedAt := clock s\<rparr>"]
    by (simp add: CompleteWorkflow_def e)
  show "\<exists>s'. FailWorkflow wid reason s = (Inr (), s') \<and> exec_in wid WorkflowFailed s' \<and> jobs s' = jobs s"
    using put [of "e\<lparr>exState := WorkflowFailed, exFailureReason := reason, exUpdatedAt := clock s, exCompletedAt := clock s\<rparr>"]
    by (simp add: FailWorkflow_def e)
  show "\<exists>s'. SuspendWorkflow wid reason s = (Inr (), s') \<and> exec_in wid WorkflowSuspended s' \<and> jobs s' = jobs s"
    if "st \<in> {WorkflowRunning, WorkflowSuspended}"
    using put [of "e\<lparr>exState := WorkflowSuspended, exFailureReason := reason, exUpdatedAt := clock s\<rparr>"] that
    by (auto simp: SuspendWorkflow_def e exec_terminal_def)
qed

text \<open>Where a task and its execution land, by the outcome of the pass.\<close>

definition task_landing :: "job \<Rightarrow> runOutcome \<Rightarrow> job_state \<times> workflow_state" where
  "task_landing job out =
     (case out of
        OutcomeCompleted r \<Rightarrow> (StateSucceeded, WorkflowSucceeded)
      | OutcomeFailed m \<Rightarrow> (StateSucceeded, WorkflowFailed)
      | OutcomeParked t \<Rightarrow> (StateSucceeded, WorkflowRunning)
      | OutcomeError e \<Rightarrow> if jAttempt job < jMaxAttempts job then (StateScheduled, WorkflowRunning) else (StateDead, WorkflowSuspended))"

definition timer_task :: "uuid \<Rightarrow> string \<Rightarrow> time \<Rightarrow> fake \<Rightarrow> bool" where
  "timer_task wid name t s = (\<exists>k j. map_of (jobs s) k = Some j \<and> wf_job_of wid j \<and> jKind j = ''$wf:'' @ name \<and> jRunAt j = t \<and>
     jState j \<in> {StatePending, StateScheduled})"

definition landed :: "job \<Rightarrow> job_state \<times> workflow_state \<Rightarrow> fake \<Rightarrow> bool" where
  "landed job l s = ((\<exists>j. map_of (jobs s) (jID job) = Some j \<and> jState j = fst l) \<and> exec_in (jRunID job) (snd l) s)"

lemma landedI: "settled_to (jID job) st s s' \<Longrightarrow> exec_in (jRunID job) x s \<Longrightarrow> landed job (st, x) s'"
  by (auto simp: landed_def settled_to_def exec_in_def)

lemma settle_pass_lands:
  assumes h: "held job s" and ex: "exec_in (jRunID job) WorkflowRunning s" and fresh: "\<forall>n\<ge>draws s. gen n \<noteq> jID job"
  shows "\<exists>s'. settle_pass cc gen view job out s = (Inr (), s') \<and> landed job (task_landing job out) s' \<and>
    (\<forall>t. out = OutcomeParked t \<longrightarrow> t \<noteq> zero_time \<longrightarrow> timer_task (jRunID job) (exName view) t s')"
proof (cases out)
  case (OutcomeCompleted r)
  obtain s1 where s1: "CompleteWorkflow (jRunID job) r s = (Inr (), s1)" "exec_in (jRunID job) WorkflowSucceeded s1" "jobs s1 = jobs s"
    using exec_settles(1) [OF ex] by blast
  let ?s2 = "recordTerminal cc (jRunID job) EventWorkflowCompleted (orNullJSON r) s1"
  have q: "quiet (jID job) (jRunID job) s1 ?s2" by (simp add: recordTerminal_def)
  have "held job ?s2" by (rule held_quiet [OF q]) (use h s1(3) in \<open>simp add: held_def\<close>)
  from settle_held(1) [OF this] exec_in_quiet [OF q s1(2)] s1(1) OutcomeCompleted show ?thesis
    by (auto simp: settle_pass_def Let_def task_landing_def intro: landedI)
next
  case (OutcomeFailed m)
  obtain s1 where s1: "FailWorkflow (jRunID job) m s = (Inr (), s1)" "exec_in (jRunID job) WorkflowFailed s1" "jobs s1 = jobs s"
    using exec_settles(2) [OF ex] by blast
  let ?s2 = "recordTerminal cc (jRunID job) EventWorkflowFailed (encReason cc m) s1"
  have q: "quiet (jID job) (jRunID job) s1 ?s2" by (simp add: recordTerminal_def)
  have "held job ?s2" by (rule held_quiet [OF q]) (use h s1(3) in \<open>simp add: held_def\<close>)
  from settle_held(1) [OF this] exec_in_quiet [OF q s1(2)] s1(1) OutcomeFailed show ?thesis
    by (auto simp: settle_pass_def Let_def task_landing_def intro: landedI)
next
  case (OutcomeParked t)
  show ?thesis
  proof (cases "t = zero_time")
    case True
    from settle_held(1) [OF h] ex OutcomeParked True show ?thesis
      by (auto simp: settle_pass_def Let_def task_landing_def intro: landedI)
  next
    case False
    define s1 where "s1 = scheduleTaskLocked gen (jRunID job) (workflowTaskKindFmt (exName view)) t s"
    have run: "enqueueWorkflowTask gen (exName view) (jRunID job) t s = (Inr (), s1)"
      using ex by (auto simp: enqueueWorkflowTask_def ScheduleTask_def exec_in_def s1_def split: option.splits)
    have q: "quiet (jID job) (jRunID job) s s1" unfolding s1_def by (rule quiet_scheduleTask [OF fresh])
    from settle_held(1) [OF held_quiet [OF q h]] obtain s2 where
      s2: "Ack (jID job) (jLeaseToken job) s1 = (Inr (), s2)" "settled_to (jID job) StateSucceeded s1 s2" by blast
    have "map_of (jobs s1) (gen (draws s)) = Some (wtask_job (jRunID job) (workflowTaskKindFmt (exName view)) t (clock s) (gen (draws s)) (jobSeq s + 1))"
      using False by (simp add: s1_def scheduleTaskLocked_def insert_wf_job_jobs AList.update_conv' wf_runAt_def)
    moreover have "gen (draws s) \<noteq> jID job" using fresh by simp
    ultimately have "timer_task (jRunID job) (exName view) t s2" unfolding timer_task_def
      using s2(2) by (intro exI [of _ "gen (draws s)"]) (auto simp: settled_to_def wtask_job_def wf_job_of_def wf_state_def workflowTaskKindFmt_def)
    with s2 exec_in_quiet [OF q ex] run False OutcomeParked show ?thesis
      by (auto simp: settle_pass_def Let_def task_landing_def intro: landedI)
  qed
next
  case (OutcomeError e)
  let ?r = "''workflow: replay failed after '' @ itoa (jAttempt job) @ '' attempts: '' @ replayText cc e"
  obtain s1 where s1: "Dead (jID job) (jLeaseToken job) ?r s = (Inr (), s1)" "settled_to (jID job) StateDead s s1"
    using settle_held(2) [OF h] by blast
  obtain s2 where s2: "SuspendWorkflow (jRunID job) ?r s1 = (Inr (), s2)" "exec_in (jRunID job) WorkflowSuspended s2" "jobs s2 = jobs s1"
    using exec_settles(3) [OF exec_in_settled [OF s1(2) ex]] by blast
  have "landed job (StateDead, WorkflowSuspended) s2" using s1(2) s2(2,3) by (auto simp: landed_def settled_to_def)
  moreover obtain s3 where "Reschedule (jID job) (jLeaseToken job) (Backoff (jAttempt job)) (replayText cc e) s = (Inr (), s3)"
    "landed job (StateScheduled, WorkflowRunning) s3"
    using settle_held(4) [OF h] landedI ex by blast
  ultimately show ?thesis using s1(1) s2(1) OutcomeError
    by (simp add: settle_pass_def Let_def settleReplayError_def task_landing_def ignore_not_found_def)
qed

lemma cloneView_fields [simp]:
  "exState (exec_cloneView e) = exState e" "exName (exec_cloneView e) = exName e"
  "exVersion (exec_cloneView e) = exVersion e" "exInput (exec_cloneView e) = exInput e"
  by (simp_all add: exec_cloneView_def workflowExecutionView.truncate_def clonePayload_def)

lemma ListHistory_events: "map_of (executions s) wid = Some e \<Longrightarrow> ListHistory wid s = Inr (history e)"
  by (simp add: ListHistory_def clonePayload_def)

text \<open>The outcome of replaying an execution at worker time \<open>now\<close>.\<close>

definition pass_outcome :: "codec \<Rightarrow> (nat \<Rightarrow> uuid) \<Rightarrow> worker \<Rightarrow> time \<Rightarrow> fakeExecution \<Rightarrow> workflowFunc \<Rightarrow> fake \<Rightarrow> runOutcome" where
  "pass_outcome cc gen w now e fn s =
     fst (runWorkflow cc gen (newContext (exID e) (exName e) (map fst (wkOperations w)) (wkDefaultMaxAttempts w) now (history e) s)
            fn (exInput e))"


section \<open>Operations\<close>

text \<open>A result of the type is in the history: the given payload, or one under the same execution key.\<close>

definition op_recorded :: "codec \<Rightarrow> uuid \<Rightarrow> string \<Rightarrow> operationResultPayload \<Rightarrow> fake \<Rightarrow> bool" where
  "op_recorded cc wid typ rp s = (\<exists>e. map_of (executions s) wid = Some e \<and> (\<exists>ev\<in>set (history e). heType ev = typ \<and>
     (hePayload ev = Some (encResult cc rp) \<or>
      (executionKeyFromPayload (execKeyOf cc) (hePayload ev) \<noteq> None \<and>
       executionKeyFromPayload (execKeyOf cc) (hePayload ev) = executionKeyFromPayload (execKeyOf cc) (Some (encResult cc rp))))))"

lemma op_recorded_cong: "executions s' = executions s \<Longrightarrow> op_recorded cc wid typ rp s' = op_recorded cc wid typ rp s"
  by (simp add: op_recorded_def)

lemma AppendHistory_records:
  assumes "exec_in wid st s"
  shows "\<exists>n s'. AppendHistory (execKeyOf cc) wid typ (Some (encResult cc rp)) s = (Inr n, s') \<and> op_recorded cc wid typ rp s' \<and>
    quiet jid wid s s'"
proof -
  obtain e where e: "map_of (executions s) wid = Some e" "exID e = wid" using assms by (auto simp: exec_in_def split: option.splits)
  let ?A = "AppendHistory (execKeyOf cc) wid typ (Some (encResult cc rp)) s"
  have q: "quiet jid wid s (snd ?A)" by simp
  show ?thesis
  proof (cases "recorded_result (execKeyOf cc) typ (Some (encResult cc rp)) (history e)")
    case None
    then have "?A = (Inr (next_seq (history e)), putExec (append_event wid typ (Some (encResult cc rp)) (clock s) e) s)"
      by (simp add: AppendHistory_def e clonePayload_def)
    moreover have "op_recorded cc wid typ rp (putExec (append_event wid typ (Some (encResult cc rp)) (clock s) e) s)"
      by (simp add: op_recorded_def append_event_def e AList.update_conv')
    ultimately show ?thesis using q by auto
  next
    case (Some ev)
    then have "ev \<in> set (history e)" "heType ev = typ" "executionKeyFromPayload (execKeyOf cc) (hePayload ev) \<noteq> None"
      "executionKeyFromPayload (execKeyOf cc) (hePayload ev) = executionKeyFromPayload (execKeyOf cc) (Some (encResult cc rp))"
      by (auto simp: recorded_result_def same_result_def find_Some_iff split: if_splits option.splits)
    then have "op_recorded cc wid typ rp s" using e by (auto simp: op_recorded_def)
    moreover have "?A = (Inr (heSeq ev), s)" by (simp add: AppendHistory_def e Some)
    ultimately show ?thesis by simp
  qed
qed

definition wake_name :: "operationJobPayload \<Rightarrow> fakeExecution \<Rightarrow> string" where
  "wake_name body e = (if ojWorkflowName body = [] then exName e else ojWorkflowName body)"

lemma wakeWorkflow_result:
  assumes at: "map_of (executions s) wid = Some e" and fresh: "\<forall>n\<ge>draws s. gen n \<noteq> jid"
  shows "\<exists>s'. wakeWorkflow gen (ojWorkflowName body) wid s = (Inr (), s') \<and> executions s' = executions s \<and>
    map_of (jobs s') jid = map_of (jobs s) jid \<and> timer_task wid (wake_name body e) (clock s) s'"
proof -
  let ?s = "scheduleTaskLocked gen wid (workflowTaskKindFmt (wake_name body e)) zero_time s"
  have "wakeWorkflow gen (ojWorkflowName body) wid s = (Inr (), ?s)"
    by (simp add: wakeWorkflow_def enqueueWorkflowTask_def ScheduleTask_def at GetWorkflowExecution_def wake_name_def)
  moreover have "map_of (jobs ?s) jid = map_of (jobs s) jid"
    using quiet_scheduleTask [OF fresh] by (simp add: quiet_def)
  moreover have "timer_task wid (wake_name body e) (clock s) ?s" unfolding timer_task_def
    by (intro exI [of _ "gen (draws s)"] exI) (auto simp: scheduleTask_now workflowTaskKindFmt_def)
  ultimately show ?thesis by simp
qed

text \<open>The job is in state \<open>st\<close>, its result of type \<open>typ\<close> is in the history, and a task is due.\<close>

definition finished_operation :: "codec \<Rightarrow> operationJobPayload \<Rightarrow> job \<Rightarrow> job_state \<Rightarrow> string \<Rightarrow> operationResultPayload \<Rightarrow> string \<Rightarrow> time \<Rightarrow> fake \<Rightarrow> bool" where
  "finished_operation cc body job st typ rp name now s =
     ((\<exists>j. map_of (jobs s) (jID job) = Some j \<and> jState j = st) \<and> op_recorded cc (jRunID job) typ rp s \<and>
      timer_task (jRunID job) name now s)"

lemma settle_and_wake_finishes:
  assumes st: "settled_to (jID job) st s1 s2" and rec: "op_recorded cc (jRunID job) ty rp s1"
    and at: "map_of (executions s1) (jRunID job) = Some e" and fresh: "\<forall>n\<ge>draws s1. gen n \<noteq> jID job"
  shows "\<exists>s'. settle_and_wake gen body job (Inr (), s2) = (Inr (), s') \<and>
    finished_operation cc body job st ty rp (wake_name body e) (clock s1) s'"
proof -
  from st obtain j' where j': "map_of (jobs s2) (jID job) = Some j'" "jState j' = st" and f: "executions s2 = executions s1"
    "draws s2 = draws s1" "clock s2 = clock s1" by (auto simp: settled_to_def)
  from at fresh have "map_of (executions s2) (jRunID job) = Some e" "\<forall>n\<ge>draws s2. gen n \<noteq> jID job" by (simp_all add: f)
  from wakeWorkflow_result [OF this, of body] obtain s' where
    s': "wakeWorkflow gen (ojWorkflowName body) (jRunID job) s2 = (Inr (), s')" "executions s' = executions s2"
      "map_of (jobs s') (jID job) = map_of (jobs s2) (jID job)" "timer_task (jRunID job) (wake_name body e) (clock s2) s'" by blast
  have "op_recorded cc (jRunID job) ty rp s'" using rec op_recorded_cong [of s' s1] s'(2) f by simp
  with s' j' f(3) show ?thesis by (simp add: settle_and_wake_def finished_operation_def)
qed

lemma record_settle_wake:
  assumes h: "held job s" and ex: "map_of (executions s) (jRunID job) = Some e" "exID e = jRunID job"
    and fresh: "\<forall>n\<ge>draws s. gen n \<noteq> jID job"
    and f: "\<And>s. held job s \<Longrightarrow> \<exists>s'. f s = (Inr (), s') \<and> settled_to (jID job) st s s'"
  shows "\<exists>n s1 s'. AppendHistory (execKeyOf cc) (jRunID job) ty (Some (encResult cc rp)) s = (Inr n, s1) \<and>
    settle_and_wake gen body job (f s1) = (Inr (), s') \<and> finished_operation cc body job st ty rp (wake_name body e) (clock s) s'"
proof -
  have "exec_in (jRunID job) (exState e) s" using ex by (simp add: exec_in_def)
  from AppendHistory_records [OF this] obtain n s1 where
    A: "AppendHistory (execKeyOf cc) (jRunID job) ty (Some (encResult cc rp)) s = (Inr n, s1)"
    and rec: "op_recorded cc (jRunID job) ty rp s1" and q: "quiet (jID job) (jRunID job) s s1" by blast
  from q ex obtain e1 where e1: "map_of (executions s1) (jRunID job) = Some e1" "exName e1 = exName e" by (auto simp: quiet_def)
  obtain s2 where s2: "f s1 = (Inr (), s2)" "settled_to (jID job) st s1 s2" using f [OF held_quiet [OF q h]] by blast
  have fr: "\<forall>n\<ge>draws s1. gen n \<noteq> jID job" and clk: "clock s1 = clock s" using q fresh by (auto simp: quiet_def)
  have "wake_name body e1 = wake_name body e" by (simp add: wake_name_def e1(2))
  with settle_and_wake_finishes [OF s2(2) rec e1(1) fr, of body] A s2(1) clk show ?thesis by auto
qed

lemma fail_operation_finishes:
  assumes "held job s" "map_of (executions s) (jRunID job) = Some e" "exID e = jRunID job" "\<forall>n\<ge>draws s. gen n \<noteq> jID job"
  shows "\<exists>s'. fail_operation cc gen body job msg s = (Inr (), s') \<and>
    finished_operation cc body job StateDead EventOperationFailed (op_result body None msg) (wake_name body e) (clock s) s'"
  using record_settle_wake [OF assms settle_held(2) [of job _ msg], where cc = cc and ty = EventOperationFailed
      and rp = "op_result body None msg" and body = body]
  by (auto simp: fail_operation_def appendOpFailed_def)

lemma complete_operation_finishes:
  assumes "held job s" "map_of (executions s) (jRunID job) = Some e" "exID e = jRunID job" "\<forall>n\<ge>draws s. gen n \<noteq> jID job"
    and f: "\<And>s. held job s \<Longrightarrow> \<exists>s'. f s = (Inr (), s') \<and> settled_to (jID job) st s s'"
  shows "\<exists>s'. complete_operation cc gen body job result f s = (Inr (), s') \<and>
    finished_operation cc body job st EventOperationCompleted (op_result body result []) (wake_name body e) (clock s) s'"
  using record_settle_wake [OF assms, where cc = cc and ty = EventOperationCompleted and rp = "op_result body result []" and body = body]
  by (auto simp: complete_operation_def)

lemma snooze_operation_result:
  assumes h: "held job s" and ex: "map_of (executions s) (jRunID job) = Some e" "exID e = jRunID job"
    and fresh: "\<forall>n\<ge>draws s. gen n \<noteq> jID job"
  shows "\<exists>s'. snooze_operation cc gen body job delay msg s = (Inr (), s') \<and>
    (if past_deadline job s
     then finished_operation cc body job StateDead EventOperationFailed
            (op_result body None (''snooze deadline exceeded: '' @ msg)) (wake_name body e) (clock s) s'
     else \<exists>j. map_of (jobs s') (jID job) = Some j \<and> jState j = StateScheduled)"
proof -
  let ?m = "''snooze deadline exceeded: '' @ msg" let ?rp = "op_result body None ?m"
  obtain s1 where s1: "Snooze (jID job) (jLeaseToken job) delay ?m s = (Inr (past_deadline job s), s1)"
    "settled_to (jID job) (if past_deadline job s then StateDead else StateScheduled) s s1"
    using settle_held(5) [OF h] by blast
  show ?thesis
  proof (cases "past_deadline job s")
    case False
    with s1 show ?thesis by (auto simp: snooze_operation_def Let_def settled_to_def)
  next
    case True
    from s1(2) have f1: "executions s1 = executions s" "draws s1 = draws s" "clock s1 = clock s"
      and "\<exists>j. map_of (jobs s1) (jID job) = Some j \<and> jState j = StateDead" using True by (auto simp: settled_to_def)
    then obtain j where j: "map_of (jobs s1) (jID job) = Some j" "jState j = StateDead" by blast
    have "exec_in (jRunID job) (exState e) s1" using ex by (simp add: exec_in_def f1)
    from AppendHistory_records [OF this] obtain n s2 where
      A: "AppendHistory (execKeyOf cc) (jRunID job) EventOperationFailed (Some (encResult cc ?rp)) s1 = (Inr n, s2)"
      and rec: "op_recorded cc (jRunID job) EventOperationFailed ?rp s2" and q: "quiet (jID job) (jRunID job) s1 s2" by blast
    from q ex f1 obtain e2 where e2: "map_of (executions s2) (jRunID job) = Some e2" "exName e2 = exName e" by (auto simp: quiet_def)
    have "\<forall>n\<ge>draws s2. gen n \<noteq> jID job" using q fresh f1 by (auto simp: quiet_def)
    from wakeWorkflow_result [OF e2(1) this, of body] obtain s3 where
      s3: "wakeWorkflow gen (ojWorkflowName body) (jRunID job) s2 = (Inr (), s3)" "executions s3 = executions s2"
        "map_of (jobs s3) (jID job) = map_of (jobs s2) (jID job)" "timer_task (jRunID job) (wake_name body e2) (clock s2) s3" by blast
    have w: "wake_name body e2 = wake_name body e" by (simp add: wake_name_def e2(2))
    have "finished_operation cc body job StateDead EventOperationFailed ?rp (wake_name body e) (clock s) s3"
      using rec q j s3(3,4) f1 op_recorded_cong [OF s3(2)] w by (simp add: finished_operation_def quiet_def)
    then show ?thesis using True s1(1) A s3(1) by (simp add: snooze_operation_def Let_def appendOpFailed_def)
  qed
qed

definition job_in :: "uuid \<Rightarrow> job_state \<Rightarrow> fake \<Rightarrow> bool" where
  "job_in jid st s = (\<exists>j. map_of (jobs s) jid = Some j \<and> jState j = st)"

lemma mark_uncertain_result:
  assumes h: "held job s" and at: "map_of (executions s) (jRunID job) = Some e" "exID e = jRunID job"
  shows "\<exists>s'. mark_uncertain job reason s = (Inr (), s') \<and> job_in (jID job) StateUncertain s' \<and>
    exec_in (jRunID job) (if exec_terminal e then exState e else WorkflowSuspended) s'"
proof -
  obtain j where j: "map_of (jobs s) (jID job) = Some j" "jState j = StateActive" "jLeaseToken j = jLeaseToken job" "jID j = jID job"
    "jSource j = SourceWorkflow" "jRunID j = jRunID job"
    using h by (auto simp: held_def split: option.splits)
  show ?thesis
    by (auto simp: mark_uncertain_def MarkUncertain_def settle_def Let_def j at job_in_def exec_in_def AList.update_conv')
qed

text \<open>How an operation that ran under a kept lease ends.\<close>

definition operation_ends ::
  "codec \<Rightarrow> worker \<Rightarrow> opEnv \<Rightarrow> operationJobPayload \<Rightarrow> job \<Rightarrow> fakeExecution \<Rightarrow> raw \<times> goError option \<Rightarrow> fake \<Rightarrow> fake \<Rightarrow> bool" where
  "operation_ends cc w env body job e r s s' =
     (let fin = (\<lambda>st typ rp. finished_operation cc body job st typ rp (wake_name body e) (clock s) s');
          uncertain = (job_in (jID job) StateUncertain s' \<and>
            exec_in (jRunID job) (if exec_terminal e then exState e else WorkflowSuspended) s')
      in if timed_out w env then uncertain
         else case snd r of
                None \<Rightarrow> fin StateSucceeded EventOperationCompleted (op_result body (fst r) [])
              | Some err \<Rightarrow>
                  if IsUncertain err then uncertain
                  else (let msg = the (errorText err) in
                        case oKind (ClassifyOutcome err) of
                          OutcomeSnooze \<Rightarrow>
                            if past_deadline job s
                            then fin StateDead EventOperationFailed (op_result body None (''snooze deadline exceeded: '' @ msg))
                            else job_in (jID job) StateScheduled s'
                        | OutcomeAbort \<Rightarrow> fin StateDead EventOperationFailed (op_result body None msg)
                        | OutcomeSkip \<Rightarrow> fin StateSkipped EventOperationCompleted (op_result body None [])
                        | OutcomeRetry \<Rightarrow>
                            if jAttempt job < jMaxAttempts job then job_in (jID job) StateScheduled s'
                            else fin StateDead EventOperationFailed (op_result body None msg)))"

lemma settle_operation_error_ends:
  assumes h: "held job s" and at: "map_of (executions s) (jRunID job) = Some e" "exID e = jRunID job"
    and fresh: "\<forall>n\<ge>draws s. gen n \<noteq> jID job"
    and hyps: "\<not> timed_out w env" "\<not> IsUncertain err" and msg: "errorText err = Some msg"
  shows "\<exists>s'. settle_operation_error cc gen w body job err msg s = (Inr (), s') \<and>
    operation_ends cc w env body job e (result, Some err) s s'"
proof -
  note F = fail_operation_finishes [OF h at fresh, of cc body msg]
  show ?thesis
  proof (cases "oKind (ClassifyOutcome err)")
    case OutcomeSnooze
    with snooze_operation_result [OF h at fresh, of cc body "oDelay (ClassifyOutcome err)" msg] hyps msg show ?thesis
      by (auto simp: settle_operation_error_def operation_ends_def Let_def job_in_def split: if_splits)
  next
    case OutcomeAbort
    with F hyps msg show ?thesis by (auto simp: settle_operation_error_def operation_ends_def Let_def)
  next
    case OutcomeSkip
    with complete_operation_finishes [OF h at fresh settle_held(3) [of job _ msg], of cc body None] hyps msg show ?thesis
      by (auto simp: settle_operation_error_def operation_ends_def Let_def)
  next
    case OutcomeRetry
    let ?d = "if oDelay (ClassifyOutcome err) > 0 then oDelay (ClassifyOutcome err) else wkOperationRetryDelay w"
    obtain s1 where "Reschedule (jID job) (jLeaseToken job) ?d msg s = (Inr (), s1)" "job_in (jID job) StateScheduled s1"
      using settle_held(4) [OF h, of ?d msg] by (auto simp: settled_to_def job_in_def)
    with OutcomeRetry F hyps msg show ?thesis
      by (auto simp: settle_operation_error_def operation_ends_def Let_def ignore_not_found_def)
  qed
qed


section \<open>A concrete run\<close>

definition order_worker :: worker where
  "order_worker = \<lparr>wkWorkflows = [(''order@1'', nap_and_charge)], wkOperations = [(''charge@1'', \<lambda>_. Returns (Some ''ok'') None)],
     wkLeaseTTL = 30, wkDefaultMaxAttempts = 5, wkOperationTimeout = 300, wkOperationRetryDelay = 1, wkRetention = 1000,
     wkMode = WorkerModeCombined\<rparr>"

definition order_taken :: "job \<times> fake" where
  "order_taken = (let (r, s) = dequeue_first order_ids order_worker [''$wf:order''] order_started in (the (projr r), s))"

definition order_charging :: "job \<times> fake" where
  "order_charging =
     (let s = snd (processJob plain_codec order_ids order_worker 100 (fst order_taken) (snd order_taken));
          (r, s') = dequeue_first order_ids order_worker [''$op:charge@1''] s
      in (the (projr r), s'))"

lemma order_fresh: "jid = 50 + k \<Longrightarrow> k < d \<Longrightarrow> \<forall>n\<ge>d. order_ids n \<noteq> (jid :: nat)"
  by auto



section \<open>A lease nobody reaps\<close>

text \<open>
  No loop of the workflow worker reaps expired leases. A task or operation whose worker
  died stays active whatever the clock says: promotion, the dequeues of every worker
  and the reconciler leave it as it is, and because it counts as live its execution
  is never listed as stalled.
\<close>

lemma abandoned_lease_kept:
  assumes wf: "wf_jobs s" and at: "map_of (jobs s) jid = Some j" "jState j = StateActive" "wf_job_of wid j"
  shows "map_of (jobs (snd (PromoteDue SourceWorkflow kinds s))) jid = Some j"
    and "map_of (jobs (snd (DequeueBatch gen SourceWorkflow dp s))) jid = Some j"
    and "wid \<notin> fst ` set (ListStalledWorkflows olderThan limit s)"
proof -
  show "wid \<notin> fst ` set (ListStalledWorkflows olderThan limit s)"
    by (rule live_job_not_stalled [OF at(1,3)]) (simp add: at(2) live_wf_state_def)
  show "map_of (jobs (snd (PromoteDue SourceWorkflow kinds s))) jid = Some j"
  proof (cases "kinds = []")
    case True
    with at show ?thesis by (simp add: PromoteDue_def)
  next
    case False
    show ?thesis
    proof (rule PromoteDue_result [OF wf False, of SourceWorkflow])
      fix s' assume "PromoteDue SourceWorkflow kinds s =
          (Inr (int (length (filter (promotable SourceWorkflow kinds (clock s)) (map snd (jobs s))))), s')"
        "map_of (jobs s') = (\<lambda>k. map_option (\<lambda>j. if promotable SourceWorkflow kinds (clock s) j
          then j\<lparr>jState := StatePending\<rparr> else j) (map_of (jobs s) k))"
      with at show ?thesis by (simp add: promotable_def)
    qed
  qed
  show "map_of (jobs (snd (DequeueBatch gen SourceWorkflow dp s))) jid = Some j"
  proof (cases "0 < dpLimit dp")
    case True
    obtain out s' where run: "DequeueBatch gen SourceWorkflow dp s = (Inr out, s')"
      by (rule DequeueBatch_result [OF wf True, of gen SourceWorkflow])
    have "jid \<notin> jID ` set (due_jobs SourceWorkflow dp s)"
      using due_jobs_props(3) [OF wf, of _ SourceWorkflow dp] at(1,2) by (fastforce simp: is_due_def)
    then have "jid \<notin> jID ` set out" using DequeueBatch_map(4) [OF wf True run] by (metis set_map)
    from DequeueBatch_map(5) [OF wf True run this] at(1) run show ?thesis by simp
  qed (use at in \<open>simp add: DequeueBatch_def\<close>)
qed

end
