(* ===== verification/Engine_Slots.thy ===== *)
theory Engine_Slots
  imports Engine
begin

text \<open>
  The fetch loops of the engine (\<open>fetcher.go\<close>, and the semaphores, \<open>Start\<close> and
  shutdown of \<open>engine.go\<close>) as a state machine. One fetch loop runs per registered
  kind; each shares the global semaphore with the others and owns the semaphore of
  its kind. A step is one action of one goroutine - one semaphore operation, one
  dequeue with its dispatch, one finished execution - so every interleaving of the
  loops and the running handlers is a run of the relation.

  A semaphore (a buffered channel) is its number of taken slots. The store enters
  through the one fact the loop relies on: a dequeue returns at most the number of
  jobs it was asked for.
\<close>

section \<open>The state\<close>

datatype phase =
    AwaitKind
  | AwaitGlobal
  | Grab nat
  | GrabbedKind nat
  | Fetch nat
  | Idle
  | Stopped

record loop =
  phase :: phase
  semKind :: nat
  running :: nat
  idleFor :: duration

record slots =
  semGlobal :: nat
  loops :: "string \<Rightarrow> loop"
  cancelled :: bool

record slotCfg =
  scSettings :: settings
  scKinds :: "string list"
  scConcurrency :: "string \<Rightarrow> nat"

definition maxBatch :: "slotCfg \<Rightarrow> string \<Rightarrow> nat" where
  "maxBatch cfg k = min (FetchBatchSize (scSettings cfg)) (scConcurrency cfg k)"

definition init_slots :: "slotCfg \<Rightarrow> slots" where
  "init_slots cfg =
     \<lparr>semGlobal = 0,
      loops = (\<lambda>k. \<lparr>phase = AwaitKind, semKind = 0, running = 0, idleFor = FetchCooldown (scSettings cfg)\<rparr>),
      cancelled = False\<rparr>"

definition set_loop :: "string \<Rightarrow> (loop \<Rightarrow> loop) \<Rightarrow> slots \<Rightarrow> slots" where
  "set_loop k f st = st\<lparr>loops := (loops st)(k := f (loops st k))\<rparr>"

text \<open>The idle wait: doubled up to the cap, but never shorter than the poll interval.\<close>

definition next_idle :: "settings \<Rightarrow> duration \<Rightarrow> duration" where
  "next_idle stg idle = min (idle * 2) (IdleBackoffMax stg)"

definition idle_wait :: "settings \<Rightarrow> duration \<Rightarrow> duration" where
  "idle_wait stg idle = max (next_idle stg idle) (FetchPollInterval stg)"

section \<open>The steps\<close>

inductive slot_step :: "slotCfg \<Rightarrow> slots \<Rightarrow> slots \<Rightarrow> bool" for cfg where
  cancel: "slot_step cfg st (st\<lparr>cancelled := True\<rparr>)"
| acquire_kind: "k \<in> set (scKinds cfg) \<Longrightarrow> phase (loops st k) = AwaitKind \<Longrightarrow>
    semKind (loops st k) < scConcurrency cfg k \<Longrightarrow>
    slot_step cfg st (set_loop k (\<lambda>l. l\<lparr>phase := AwaitGlobal, semKind := semKind l + 1\<rparr>) st)"
| stop_kind: "k \<in> set (scKinds cfg) \<Longrightarrow> phase (loops st k) = AwaitKind \<Longrightarrow> cancelled st \<Longrightarrow>
    slot_step cfg st (set_loop k (\<lambda>l. l\<lparr>phase := Stopped\<rparr>) st)"
| acquire_global: "k \<in> set (scKinds cfg) \<Longrightarrow> phase (loops st k) = AwaitGlobal \<Longrightarrow>
    semGlobal st < MaxConcurrency (scSettings cfg) \<Longrightarrow>
    slot_step cfg st (set_loop k (\<lambda>l. l\<lparr>phase := Grab 1\<rparr>) (st\<lparr>semGlobal := semGlobal st + 1\<rparr>))"
| stop_global: "k \<in> set (scKinds cfg) \<Longrightarrow> phase (loops st k) = AwaitGlobal \<Longrightarrow> cancelled st \<Longrightarrow>
    slot_step cfg st (set_loop k (\<lambda>l. l\<lparr>phase := Stopped, semKind := semKind l - 1\<rparr>) st)"
| grab_kind: "k \<in> set (scKinds cfg) \<Longrightarrow> phase (loops st k) = Grab n \<Longrightarrow> n < maxBatch cfg k \<Longrightarrow>
    semKind (loops st k) < scConcurrency cfg k \<Longrightarrow>
    slot_step cfg st (set_loop k (\<lambda>l. l\<lparr>phase := GrabbedKind n, semKind := semKind l + 1\<rparr>) st)"
| grab_full: "k \<in> set (scKinds cfg) \<Longrightarrow> phase (loops st k) = Grab n \<Longrightarrow>
    \<not> (n < maxBatch cfg k \<and> semKind (loops st k) < scConcurrency cfg k) \<Longrightarrow>
    slot_step cfg st (set_loop k (\<lambda>l. l\<lparr>phase := Fetch n\<rparr>) st)"
| grab_pair: "k \<in> set (scKinds cfg) \<Longrightarrow> phase (loops st k) = GrabbedKind n \<Longrightarrow>
    semGlobal st < MaxConcurrency (scSettings cfg) \<Longrightarrow>
    slot_step cfg st (set_loop k (\<lambda>l. l\<lparr>phase := Grab (n + 1)\<rparr>) (st\<lparr>semGlobal := semGlobal st + 1\<rparr>))"
| grab_undo: "k \<in> set (scKinds cfg) \<Longrightarrow> phase (loops st k) = GrabbedKind n \<Longrightarrow>
    \<not> semGlobal st < MaxConcurrency (scSettings cfg) \<Longrightarrow>
    slot_step cfg st (set_loop k (\<lambda>l. l\<lparr>phase := Fetch n, semKind := semKind l - 1\<rparr>) st)"
| fetched: "k \<in> set (scKinds cfg) \<Longrightarrow> phase (loops st k) = Fetch n \<Longrightarrow> m \<le> n \<Longrightarrow>
    slot_step cfg st (set_loop k
      (\<lambda>l. l\<lparr>phase := (if m > 0 then (if cancelled st then Stopped else AwaitKind) else Idle),
             semKind := semKind l - (n - m), running := running l + m,
             idleFor := (if m > 0 then FetchCooldown (scSettings cfg)
                         else next_idle (scSettings cfg) (idleFor l))\<rparr>)
      (st\<lparr>semGlobal := semGlobal st - (n - m)\<rparr>))"
| wake_up: "k \<in> set (scKinds cfg) \<Longrightarrow> phase (loops st k) = Idle \<Longrightarrow>
    slot_step cfg st (set_loop k (\<lambda>l. l\<lparr>phase := (if cancelled st then Stopped else AwaitKind),
                                     idleFor := FetchCooldown (scSettings cfg)\<rparr>) st)"
| poll: "k \<in> set (scKinds cfg) \<Longrightarrow> phase (loops st k) = Idle \<Longrightarrow>
    slot_step cfg st (set_loop k (\<lambda>l. l\<lparr>phase := (if cancelled st then Stopped else AwaitKind)\<rparr>) st)"
| finish: "k \<in> set (scKinds cfg) \<Longrightarrow> 0 < running (loops st k) \<Longrightarrow>
    slot_step cfg st (set_loop k (\<lambda>l. l\<lparr>semKind := semKind l - 1, running := running l - 1\<rparr>)
      (st\<lparr>semGlobal := semGlobal st - 1\<rparr>))"

inductive slot_reach :: "slotCfg \<Rightarrow> slots \<Rightarrow> bool" for cfg where
  start: "slot_reach cfg (init_slots cfg)"
| step: "slot_reach cfg st \<Longrightarrow> slot_step cfg st st' \<Longrightarrow> slot_reach cfg st'"

section \<open>Slot accounting\<close>

text \<open>Slots a loop holds beside the ones its executions hold, in its own and in the global semaphore.\<close>

fun kind_held :: "phase \<Rightarrow> nat" where
  "kind_held AwaitGlobal = 1"
| "kind_held (Grab n) = n"
| "kind_held (GrabbedKind n) = n + 1"
| "kind_held (Fetch n) = n"
| "kind_held _ = 0"

fun global_held :: "phase \<Rightarrow> nat" where
  "global_held (Grab n) = n"
| "global_held (GrabbedKind n) = n"
| "global_held (Fetch n) = n"
| "global_held _ = 0"

definition loop_global :: "loop \<Rightarrow> nat" where
  "loop_global l = global_held (phase l) + running l"

definition loop_ok :: "slotCfg \<Rightarrow> string \<Rightarrow> loop \<Rightarrow> bool" where
  "loop_ok cfg k l =
     (semKind l = kind_held (phase l) + running l \<and> semKind l \<le> scConcurrency cfg k \<and>
      (case phase l of GrabbedKind n \<Rightarrow> n < maxBatch cfg k | _ \<Rightarrow> True))"

definition slots_ok :: "slotCfg \<Rightarrow> slots \<Rightarrow> bool" where
  "slots_ok cfg st =
     ((\<forall>k\<in>set (scKinds cfg). loop_ok cfg k (loops st k)) \<and>
      semGlobal st = sum_list (map (\<lambda>k. loop_global (loops st k)) (scKinds cfg)) \<and>
      semGlobal st \<le> MaxConcurrency (scSettings cfg))"

lemma loops_set_loop [simp]:
  "loops (set_loop k f st) = (loops st)(k := f (loops st k))" "semGlobal (set_loop k f st) = semGlobal st"
  "cancelled (set_loop k f st) = cancelled st"
  by (simp_all add: set_loop_def)

lemma sum_list_update:
  "distinct ks \<Longrightarrow> k \<in> set ks \<Longrightarrow>
   sum_list (map (\<lambda>x. h ((g(k := v)) x)) ks) + h (g k) = sum_list (map (\<lambda>x. h (g x)) ks) + (h v :: nat)"
proof (induction ks)
  case (Cons a ks)
  show ?case
  proof (cases "a = k")
    case True
    with Cons.prems have "map (\<lambda>x. h ((g(k := v)) x)) ks = map (\<lambda>x. h (g x)) ks" by (intro map_cong) auto
    then have "sum_list (map (\<lambda>x. h ((g(k := v)) x)) ks) = sum_list (map (\<lambda>x. h (g x)) ks)" by (rule arg_cong)
    then show ?thesis using True by simp
  next
    case False
    with Cons show ?thesis by simp
  qed
qed simp

text \<open>One loop changes by \<open>f\<close> and the global count follows: the shape of every step's accounting.\<close>

lemma slots_ok_step:
  assumes ok: "slots_ok cfg st" and d: "distinct (scKinds cfg)" and k: "k \<in> set (scKinds cfg)"
    and kind: "loop_ok cfg k (f (loops st k))"
    and glob: "g + loop_global (loops st k) = semGlobal st + loop_global (f (loops st k))"
      "g \<le> MaxConcurrency (scSettings cfg)"
  shows "slots_ok cfg (set_loop k f (st\<lparr>semGlobal := g\<rparr>))"
proof -
  have "sum_list (map (\<lambda>x. loop_global (((loops st)(k := f (loops st k))) x)) (scKinds cfg)) + loop_global (loops st k)
      = sum_list (map (\<lambda>x. loop_global (loops st x)) (scKinds cfg)) + loop_global (f (loops st k))"
    by (rule sum_list_update [OF d k])
  moreover have "semGlobal st = sum_list (map (\<lambda>x. loop_global (loops st x)) (scKinds cfg))"
    using ok by (simp add: slots_ok_def)
  ultimately have "g = sum_list (map (\<lambda>x. loop_global (((loops st)(k := f (loops st k))) x)) (scKinds cfg))"
    using glob(1) by linarith
  then show ?thesis using ok kind glob(2) by (simp add: slots_ok_def)
qed

lemma global_ge_loop:
  "slots_ok cfg st \<Longrightarrow> k \<in> set (scKinds cfg) \<Longrightarrow> loop_global (loops st k) \<le> semGlobal st"
  by (simp add: slots_ok_def member_le_sum_list)

lemma slots_ok_local:
  assumes "slots_ok cfg st" "distinct (scKinds cfg)" "k \<in> set (scKinds cfg)"
    "loop_ok cfg k (f (loops st k))" "loop_global (f (loops st k)) = loop_global (loops st k)"
  shows "slots_ok cfg (set_loop k f st)"
proof -
  have "slots_ok cfg (set_loop k f (st\<lparr>semGlobal := semGlobal st\<rparr>))"
    by (rule slots_ok_step [OF assms(1-3)]) (use assms in \<open>simp_all add: slots_ok_def\<close>)
  then show ?thesis by simp
qed

lemma slots_okD: "slots_ok cfg st \<Longrightarrow> k \<in> set (scKinds cfg) \<Longrightarrow> loop_ok cfg k (loops st k)"
  by (simp add: slots_ok_def)

lemma slot_step_ok:
  assumes "slot_step cfg st st'" "slots_ok cfg st" "distinct (scKinds cfg)"
  shows "slots_ok cfg st'"
  using assms
proof (cases rule: slot_step.cases)
  case cancel
  then show ?thesis using assms(2) by (simp add: slots_ok_def)
next
  case (acquire_kind k)
  then show ?thesis unfolding acquire_kind(1) using assms(2,3)
    by (intro slots_ok_local) (auto simp: loop_ok_def loop_global_def dest: slots_okD)
next
  case (stop_kind k)
  then show ?thesis unfolding stop_kind(1) using assms(2,3)
    by (intro slots_ok_local) (auto simp: loop_ok_def loop_global_def dest: slots_okD)
next
  case (acquire_global k)
  then show ?thesis unfolding acquire_global(1) using assms(2,3)
    by (intro slots_ok_step) (auto simp: loop_ok_def loop_global_def slots_ok_def)
next
  case (stop_global k)
  then show ?thesis unfolding stop_global(1) using assms(2,3)
    by (intro slots_ok_local) (auto simp: loop_ok_def loop_global_def dest: slots_okD)
next
  case (grab_kind k n)
  then show ?thesis unfolding grab_kind(1) using assms(2,3)
    by (intro slots_ok_local) (auto simp: loop_ok_def loop_global_def dest: slots_okD)
next
  case (grab_full k n)
  then show ?thesis unfolding grab_full(1) using assms(2,3)
    by (intro slots_ok_local) (auto simp: loop_ok_def loop_global_def dest: slots_okD)
next
  case (grab_pair k n)
  then show ?thesis unfolding grab_pair(1) using assms(2,3)
    by (intro slots_ok_step) (auto simp: loop_ok_def loop_global_def slots_ok_def)
next
  case (grab_undo k n)
  then show ?thesis unfolding grab_undo(1) using assms(2,3)
    by (intro slots_ok_local) (auto simp: loop_ok_def loop_global_def dest: slots_okD)
next
  case (fetched k n m)
  have "n \<le> semGlobal st" using global_ge_loop [OF assms(2) fetched(2)] fetched(3) by (simp add: loop_global_def)
  with fetched show ?thesis unfolding fetched(1) using assms(2,3)
    by (intro slots_ok_step) (auto simp: loop_ok_def loop_global_def slots_ok_def)
next
  case (wake_up k)
  then show ?thesis unfolding wake_up(1) using assms(2,3)
    by (intro slots_ok_local) (auto simp: loop_ok_def loop_global_def dest: slots_okD)
next
  case (poll k)
  then show ?thesis unfolding poll(1) using assms(2,3)
    by (intro slots_ok_local) (auto simp: loop_ok_def loop_global_def dest: slots_okD)
next
  case (finish k)
  have "running (loops st k) \<le> semGlobal st" using global_ge_loop [OF assms(2) finish(2)] by (simp add: loop_global_def)
  with finish show ?thesis unfolding finish(1) using assms(2,3)
    by (intro slots_ok_step) (auto simp: loop_ok_def loop_global_def slots_ok_def)
qed

lemma slot_reach_ok: "slot_reach cfg st \<Longrightarrow> distinct (scKinds cfg) \<Longrightarrow> slots_ok cfg st"
proof (induction rule: slot_reach.induct)
  case start
  have "sum_list (map (\<lambda>k. loop_global (loops (init_slots cfg) k)) ks) = 0" for ks
    by (induction ks) (simp_all add: init_slots_def loop_global_def)
  then show ?case by (simp add: slots_ok_def) (simp add: init_slots_def loop_ok_def)
next
  case (step st st')
  then show ?case by (blast intro: slot_step_ok)
qed


definition run_cfg :: slotCfg where
  "run_cfg =
     \<lparr>scSettings = \<lparr>LeaseTTL = 60 * nsPerSecond, ShutdownDrain = 30 * nsPerSecond, MaxConcurrency = 3, FetchBatchSize = 2,
        FetchPollInterval = nsPerSecond, FetchCooldown = 1000000, IdleBackoffMax = 5 * nsPerSecond, MaxReaps = 3,
        StatsRetention = 0, CompletedRetention = 0, DeadRetention = 0, PromoteInterval = 0, VacuumInterval = 0\<rparr>,
      scKinds = [''mail'', ''sms''], scConcurrency = (\<lambda>_. 2)\<rparr>"


section \<open>Shutdown\<close>

fun phase_rank :: "nat \<Rightarrow> phase \<Rightarrow> nat" where
  "phase_rank b AwaitKind = 3 * b + 7"
| "phase_rank b AwaitGlobal = 3 * b + 6"
| "phase_rank b (Grab n) = 3 * (b - n) + n + 3"
| "phase_rank b (GrabbedKind n) = 3 * (b - n) + n + 2"
| "phase_rank b (Fetch n) = n + 2"
| "phase_rank b Idle = 1"
| "phase_rank b Stopped = 0"

definition loop_rank :: "slotCfg \<Rightarrow> string \<Rightarrow> loop \<Rightarrow> nat" where
  "loop_rank cfg k l = phase_rank (maxBatch cfg k) (phase l) + running l"

definition drain_left :: "slotCfg \<Rightarrow> slots \<Rightarrow> nat" where
  "drain_left cfg st = sum_list (map (\<lambda>k. loop_rank cfg k (loops st k)) (scKinds cfg))"

definition drained :: "slotCfg \<Rightarrow> slots \<Rightarrow> bool" where
  "drained cfg st = (\<forall>k\<in>set (scKinds cfg). phase (loops st k) = Stopped \<and> running (loops st k) = 0)"

lemma sum_list_less:
  assumes "k \<in> set ks" "h' k < (h k :: nat)" "\<And>x. x \<in> set ks \<Longrightarrow> x \<noteq> k \<Longrightarrow> h' x = h x"
  shows "sum_list (map h' ks) < sum_list (map h ks)"
  using assms
proof (induction ks)
  case (Cons a ks)
  have le: "sum_list (map h' xs) \<le> sum_list (map h xs)" if "set xs \<subseteq> set (a # ks)" for xs
  proof (rule sum_list_mono)
    fix x assume "x \<in> set xs"
    with that Cons.prems show "h' x \<le> h x" by (cases "x = k") auto
  qed
  show ?case
  proof (cases "a = k")
    case True
    then show ?thesis using Cons.prems(2) le [OF set_subset_Cons] by simp
  next
    case False
    with Cons.prems have "k \<in> set ks" "h' a = h a" by auto
    with Cons show ?thesis by simp
  qed
qed simp

lemma drain_left_less:
  "k \<in> set (scKinds cfg) \<Longrightarrow> loop_rank cfg k (f (loops st k)) < loop_rank cfg k (loops st k) \<Longrightarrow>
   drain_left cfg (set_loop k f (st\<lparr>semGlobal := g\<rparr>)) < drain_left cfg st"
  unfolding drain_left_def by (rule sum_list_less [of k]) simp_all

lemma drain_left_less_local:
  assumes "k \<in> set (scKinds cfg)" "loop_rank cfg k (f (loops st k)) < loop_rank cfg k (loops st k)"
  shows "drain_left cfg (set_loop k f st) < drain_left cfg st"
proof -
  have "drain_left cfg (set_loop k f (st\<lparr>semGlobal := semGlobal st\<rparr>)) < drain_left cfg st"
    using assms by (rule drain_left_less)
  then show ?thesis by simp
qed

lemma cancelled_step_decreases:
  assumes "slot_step cfg st st'" "cancelled st" "slots_ok cfg st"
  shows "cancelled st' \<and> (st' = st \<or> drain_left cfg st' < drain_left cfg st)"
  using assms(1)
proof (cases rule: slot_step.cases)
  case cancel
  then show ?thesis using assms(2) by simp
next
  case (acquire_global k)
  then have "drain_left cfg st' < drain_left cfg st"
    unfolding acquire_global(1) by (intro drain_left_less) (auto simp: loop_rank_def)
  then show ?thesis using acquire_global(1) assms(2) by simp
next
  case (grab_pair k n)
  then have "drain_left cfg st' < drain_left cfg st"
    unfolding grab_pair(1) using slots_okD [OF assms(3) grab_pair(2)]
    by (intro drain_left_less) (auto simp: loop_rank_def loop_ok_def)
  then show ?thesis using grab_pair(1) assms(2) by simp
next
  case (grab_undo k n)
  then have "drain_left cfg st' < drain_left cfg st"
    unfolding grab_undo(1) using slots_okD [OF assms(3) grab_undo(2)]
    by (intro drain_left_less_local) (auto simp: loop_rank_def loop_ok_def)
  then show ?thesis using grab_undo(1) assms(2) by simp
next
  case (fetched k n m)
  then have "drain_left cfg st' < drain_left cfg st"
    unfolding fetched(1) using assms(2) by (intro drain_left_less) (auto simp: loop_rank_def)
  then show ?thesis using fetched(1) assms(2) by simp
next
  case (finish k)
  then have "drain_left cfg st' < drain_left cfg st"
    unfolding finish(1) by (intro drain_left_less) (auto simp: loop_rank_def)
  then show ?thesis using finish(1) assms(2) by simp
qed (use assms(2) in \<open>auto intro!: drain_left_less_local simp: loop_rank_def\<close>)

lemma undrained_moves:
  assumes stop: "cancelled st" and left: "\<not> drained cfg st"
  shows "\<exists>st'. slot_step cfg st st' \<and> st' \<noteq> st"
proof -
  from left obtain k where k: "k \<in> set (scKinds cfg)" "phase (loops st k) \<noteq> Stopped \<or> 0 < running (loops st k)"
    by (auto simp: drained_def)
  have "\<exists>st'. slot_step cfg st st' \<and> loops st' k \<noteq> loops st k"
  proof (cases "0 < running (loops st k)")
    case True
    from slot_step.finish [OF k(1) True] True show ?thesis by (intro exI conjI) (assumption, auto dest: arg_cong [where f = running])
  next
    case False
    with k(2) show ?thesis
    proof (cases "phase (loops st k)")
      case AwaitKind
      from slot_step.stop_kind [OF k(1) AwaitKind stop] AwaitKind show ?thesis
        by (intro exI conjI) (assumption, auto dest: arg_cong [where f = phase])
    next
      case AwaitGlobal
      from slot_step.stop_global [OF k(1) AwaitGlobal stop] AwaitGlobal show ?thesis
        by (intro exI conjI) (assumption, auto dest: arg_cong [where f = phase])
    next
      case (Grab n)
      show ?thesis
      proof (cases "n < maxBatch cfg k \<and> semKind (loops st k) < scConcurrency cfg k")
        case True
        then have "n < maxBatch cfg k" "semKind (loops st k) < scConcurrency cfg k" by auto
        from slot_step.grab_kind [OF k(1) Grab this] Grab show ?thesis
          by (intro exI conjI) (assumption, auto dest: arg_cong [where f = phase])
      next
        case False
        from slot_step.grab_full [OF k(1) Grab False] Grab show ?thesis
          by (intro exI conjI) (assumption, auto dest: arg_cong [where f = phase])
      qed
    next
      case (GrabbedKind n)
      show ?thesis
      proof (cases "semGlobal st < MaxConcurrency (scSettings cfg)")
        case True
        from slot_step.grab_pair [OF k(1) GrabbedKind True] GrabbedKind show ?thesis
          by (intro exI conjI) (assumption, auto dest: arg_cong [where f = phase])
      next
        case False
        from slot_step.grab_undo [OF k(1) GrabbedKind False] GrabbedKind show ?thesis
          by (intro exI conjI) (assumption, auto dest: arg_cong [where f = phase])
      qed
    next
      case (Fetch n)
      from slot_step.fetched [OF k(1) Fetch le0] Fetch show ?thesis
        by (intro exI conjI) (assumption, auto dest: arg_cong [where f = phase])
    next
      case Idle
      from slot_step.poll [OF k(1) Idle] Idle stop show ?thesis
        by (intro exI conjI) (assumption, auto dest: arg_cong [where f = phase])
    qed simp
  qed
  then show ?thesis by auto
qed



end
