(* ===== verification/Runtime_Errors.thy ===== *)
theory Runtime_Errors
  imports Engine
begin

text \<open>
  The error taxonomies of the runtimes (\<open>queue/errors.go\<close>, \<open>event/errors.go\<close>,
  \<open>dag/errors.go\<close>, \<open>workflow/errors.go\<close> of the sentinels): constructors of
  \<open>goError.Sentinel\<close> values that any runtime classifies through
  \<^const>\<open>ClassifyOutcome\<close>. A nil error argument is \<open>None\<close>.
\<close>

section \<open>queue\<close>

definition jobError :: "goError option \<Rightarrow> outcomeKind \<Rightarrow> duration \<Rightarrow> bool \<Rightarrow> goError" where
  "jobError err kind delay reportable =
     Sentinel \<lparr>oKind = kind, oDelay = delay, oReportable = reportable\<rparr> err"

definition queue_Abort :: "goError option \<Rightarrow> goError" where
  "queue_Abort err = jobError err OutcomeAbort 0 False"

definition queue_Retry :: "goError option \<Rightarrow> goError" where
  "queue_Retry err = jobError err OutcomeRetry 0 False"

definition queue_RetryAfter :: "goError option \<Rightarrow> duration \<Rightarrow> goError" where
  "queue_RetryAfter err d = jobError err OutcomeRetry d False"

definition queue_Reportable :: "goError option \<Rightarrow> goError" where
  "queue_Reportable err = jobError err OutcomeRetry 0 True"

definition queue_IsAbort :: "goError option \<Rightarrow> bool" where
  "queue_IsAbort err = IsPermanent err"

definition queue_classify :: "goError \<Rightarrow> outcome_rec" where
  "queue_classify err = ClassifyOutcome err"

section \<open>event\<close>

definition event_Permanent :: "goError option \<Rightarrow> goError option" where
  "event_Permanent err =
     (case err of
        None \<Rightarrow> None
      | Some e \<Rightarrow> Some (Sentinel \<lparr>oKind = OutcomeAbort, oDelay = 0, oReportable = False\<rparr> (Some e)))"

definition event_IsPermanent :: "goError option \<Rightarrow> bool" where
  "event_IsPermanent err = IsPermanent err"

definition event_classify :: "goError \<Rightarrow> outcome_rec" where
  "event_classify err = ClassifyOutcome err"

section \<open>dag\<close>

definition taskError :: "goError option \<Rightarrow> outcomeKind \<Rightarrow> duration \<Rightarrow> bool \<Rightarrow> goError" where
  "taskError err kind delay reportable =
     Sentinel \<lparr>oKind = kind, oDelay = delay, oReportable = reportable\<rparr> err"

definition dag_Abort :: "goError option \<Rightarrow> goError" where
  "dag_Abort err = taskError err OutcomeAbort 0 False"

definition dag_Retry :: "goError option \<Rightarrow> goError" where
  "dag_Retry err = taskError err OutcomeRetry 0 False"

definition dag_RetryAfter :: "goError option \<Rightarrow> duration \<Rightarrow> goError" where
  "dag_RetryAfter err d = taskError err OutcomeRetry d False"

definition dag_Reportable :: "goError option \<Rightarrow> goError" where
  "dag_Reportable err = taskError err OutcomeRetry 0 True"

text \<open>\<open>showDuration\<close> is the \<open>%v\<close> rendering of a duration by the standard library.\<close>

definition dag_NotReady :: "(duration \<Rightarrow> string) \<Rightarrow> duration \<Rightarrow> goError" where
  "dag_NotReady showDuration d =
     taskError (Some (Plain (''dag: task not ready (re-check in '' @ showDuration d @ '')''))) OutcomeSnooze d False"

definition dag_Skip :: "string \<Rightarrow> goError" where
  "dag_Skip reason = taskError (Some (Plain (''dag: task skipped: '' @ reason))) OutcomeSkip 0 False"

definition dag_IsAbort :: "goError option \<Rightarrow> bool" where
  "dag_IsAbort err = IsPermanent err"

definition dag_classify :: "goError \<Rightarrow> outcome_rec" where
  "dag_classify err = ClassifyOutcome err"

lemmas runtime_error_defs = jobError_def queue_Abort_def queue_Retry_def queue_RetryAfter_def queue_Reportable_def
  queue_IsAbort_def queue_classify_def event_Permanent_def event_IsPermanent_def event_classify_def
  taskError_def dag_Abort_def dag_Retry_def dag_RetryAfter_def dag_Reportable_def dag_NotReady_def dag_Skip_def
  dag_IsAbort_def dag_classify_def

section \<open>Sentinels are portable\<close>

text \<open>An error that reaches a sentinel through any number of wrappers, with nothing classified before it.\<close>

inductive wraps :: "goError \<Rightarrow> goError \<Rightarrow> bool" where
  here: "wraps e e"
| deeper: "wraps e e' \<Longrightarrow> list_all (\<lambda>x. AsOutcome x = None) before \<Longrightarrow> wraps (Wrapped m (before @ e # after)) e'"
| joined: "wraps e e' \<Longrightarrow> list_all (\<lambda>x. AsOutcome x = None) before \<Longrightarrow> wraps (Joined (before @ e # after)) e'"

lemma first_some_append: "list_all (\<lambda>x. x = None) xs \<Longrightarrow> first_some (xs @ ys) = first_some ys"
  by (induction xs) auto

lemma first_outcome:
  assumes "list_all (\<lambda>x. AsOutcome x = None) before" "AsOutcome e = Some out"
  shows "first_some (map AsOutcome (before @ e # after)) = Some out"
proof -
  have "list_all (\<lambda>x. x = None) (map AsOutcome before)" using assms(1) by (simp add: list_all_iff)
  from first_some_append [OF this] assms(2) show ?thesis by simp
qed

lemma wraps_AsOutcome: "wraps e e' \<Longrightarrow> AsOutcome e' = Some out \<Longrightarrow> AsOutcome e = Some out"
proof (induction rule: wraps.induct)
  case (deeper e e' before m after)
  then show ?case unfolding AsOutcome.simps by (intro first_outcome)
next
  case (joined e e' before after)
  then show ?case unfolding AsOutcome.simps by (intro first_outcome)
qed simp

text \<open>
  A sentinel means the same in every runtime and through every wrapper. A
  queue abort, an event permanent error or a dag abort, however deeply wrapped, is
  permanent for the queue, the event bus and the dag alike; a not-ready error
  snoozes for its delay and a skip skips in each of them; and a retry-after keeps
  its delay.
\<close>

theorem sentinels_portable:
  assumes "wraps w s0"
  shows "(s0 = queue_Abort err \<or> s0 = dag_Abort err \<or> Some s0 = event_Permanent (Some e) \<longrightarrow>
      queue_IsAbort (Some w) \<and> event_IsPermanent (Some w) \<and> dag_IsAbort (Some w)) \<and>
    (s0 = dag_NotReady showDuration d \<longrightarrow>
      queue_classify w = \<lparr>oKind = OutcomeSnooze, oDelay = d, oReportable = False\<rparr> \<and>
      event_classify w = queue_classify w \<and> dag_classify w = queue_classify w) \<and>
    (s0 = dag_Skip reason \<longrightarrow> oKind (queue_classify w) = OutcomeSkip) \<and>
    (s0 = queue_RetryAfter err d \<or> s0 = dag_RetryAfter err d \<longrightarrow>
      oKind (queue_classify w) = OutcomeRetry \<and> oDelay (queue_classify w) = d)"
  using wraps_AsOutcome [OF assms]
  by (auto simp: runtime_error_defs ClassifyOutcome_def IsPermanent_def split: option.split)

theorem sentinels_portable_witness:
  "event_IsPermanent (Some (Wrapped ''charge: no funds'' [Plain ''x'', queue_Abort (Some (Plain ''no funds''))]))"
proof -
  have "wraps (Wrapped ''charge: no funds'' ([Plain ''x''] @ queue_Abort (Some (Plain ''no funds'')) # []))
      (queue_Abort (Some (Plain ''no funds'')))"
    by (rule wraps.deeper [OF wraps.here]) simp
  from sentinels_portable [OF this] show ?thesis by simp
qed

section \<open>Containment of failing handlers\<close>


end
