(* ===== verification/Pg_Ident.thy ===== *)
theory Pg_Ident
  imports Driver_Rows "HOL-Library.Word"
begin

text \<open>
  The names the PostgreSQL driver builds from configuration (\<open>driver/azyncpgx\<close>:
  \<open>ident.go\<close>, \<open>defaultChannel\<close> of \<open>azyncpgx.go\<close>, \<open>advisoryLockKey\<close> of \<open>leader.go\<close>) and
  the wakeup payload (\<open>notifyPayload\<close> of \<open>store_jobs.go\<close>, \<open>parseWake\<close> of \<open>listener.go\<close>).
  A Go string is a list of bytes, which are the characters of HOL.
\<close>

unbundle bit_operations_syntax

section \<open>Identifiers\<close>

definition maxPostgresIdentifierBytes :: nat where
  "maxPostgresIdentifierBytes = 63"

definition byte_between :: "char \<Rightarrow> char \<Rightarrow> char \<Rightarrow> bool" where
  "byte_between lo hi c = ((of_char lo :: nat) \<le> of_char c \<and> (of_char c :: nat) \<le> of_char hi)"

definition isPostgresIdentifierStart :: "char \<Rightarrow> bool" where
  "isPostgresIdentifierStart c =
     (c = CHR ''_'' \<or> byte_between (CHR ''a'') (CHR ''z'') c \<or> byte_between (CHR ''A'') (CHR ''Z'') c)"

definition isPostgresIdentifierPart :: "char \<Rightarrow> bool" where
  "isPostgresIdentifierPart c =
     (isPostgresIdentifierStart c \<or> byte_between (CHR ''0'') (CHR ''9'') c \<or> c = CHR ''$'')"

definition isPostgresIdentifier :: "string \<Rightarrow> bool" where
  "isPostgresIdentifier name =
     (case name of
        [] \<Rightarrow> False
      | c # cs \<Rightarrow> length name \<le> maxPostgresIdentifierBytes \<and> isPostgresIdentifierStart c \<and>
                   list_all isPostgresIdentifierPart cs)"

definition errInvalidIdentifier :: error where
  "errInvalidIdentifier = OtherError ''azyncpgx: invalid PostgreSQL identifier''"

definition errInvalidChannel :: error where
  "errInvalidChannel = OtherError ''azyncpgx: invalid PostgreSQL channel name''"

definition validatePostgresIdentifier :: "string \<Rightarrow> error option" where
  "validatePostgresIdentifier name = (if isPostgresIdentifier name then None else Some errInvalidIdentifier)"

definition validatePostgresChannel :: "string \<Rightarrow> error option" where
  "validatePostgresChannel name = (if isPostgresIdentifier name then None else Some errInvalidChannel)"

definition defaultChannel :: "string \<Rightarrow> string" where
  "defaultChannel schema =
     (if schema = [] then ''azync''
      else let candidate = ''azync_'' @ schema
           in if validatePostgresChannel candidate \<noteq> None then ''azync'' else candidate)"

section \<open>Wakeups\<close>

definition sourceString :: "source \<Rightarrow> string" where
  "sourceString src =
     (case src of SourceQueue \<Rightarrow> ''queue'' | SourceEvent \<Rightarrow> ''event'' | SourceDAG \<Rightarrow> ''dag''
        | SourceWorkflow \<Rightarrow> ''workflow'')"

definition notifyPayload :: "source \<Rightarrow> string \<Rightarrow> string" where
  "notifyPayload src kind = sourceString src @ '':'' @ kind"

text \<open>The source of a wakeup is the text before the first colon, whatever it is.\<close>

definition parseWake :: "string \<Rightarrow> (string \<times> string) option" where
  "parseWake payload =
     (let i = length (takeWhile (\<lambda>c. c \<noteq> CHR '':'') payload)
      in if i = length payload \<or> i = 0 \<or> i = length payload - 1 then None
         else Some (take i payload, drop (i + 1) payload))"

section \<open>Advisory locks\<close>

text \<open>\<open>hash/fnv\<close>, \<open>New64a\<close>: FNV-1a on 64-bit words.\<close>

definition fnv1a :: "string \<Rightarrow> 64 word" where
  "fnv1a bytes = fold (\<lambda>c h. (h XOR of_char c) * 1099511628211) bytes 14695981039346656037"

definition lockInput :: "string \<Rightarrow> string \<Rightarrow> string" where
  "lockInput name schema = ''azync:'' @ name @ '':'' @ schema"

definition advisoryLockKey :: "string \<Rightarrow> string \<Rightarrow> int" where
  "advisoryLockKey name schema = sint (fnv1a (lockInput name schema))"

section \<open>Properties\<close>

text \<open>
  C22: The wakeup channel is always a legal identifier of at most 63 bytes, whatever
  the schema is; with a valid schema of at most 57 bytes it is the schema's own, so
  two such schemas never share a channel.
\<close>

theorem defaultChannel_valid:
  "isPostgresIdentifier (defaultChannel schema) \<and> length (defaultChannel schema) \<le> 63 \<and>
   (isPostgresIdentifier schema \<and> length schema \<le> 57 \<longrightarrow> defaultChannel schema = ''azync_'' @ schema)"
proof -
  have base: "isPostgresIdentifier ''azync''" by code_simp
  have pre: "list_all isPostgresIdentifierPart ''zync_'' \<and> isPostgresIdentifierStart (CHR ''a'')" by code_simp
  have "isPostgresIdentifier (''azync_'' @ schema)" if "isPostgresIdentifier schema" "length schema \<le> 57"
    using that pre by (auto simp: isPostgresIdentifier_def maxPostgresIdentifierBytes_def isPostgresIdentifierPart_def
        split: list.splits)
  moreover have "schema \<noteq> []" if "isPostgresIdentifier schema" using that by (auto simp: isPostgresIdentifier_def)
  moreover have "length name \<le> 63" if "isPostgresIdentifier name" for name
    using that by (auto simp: isPostgresIdentifier_def maxPostgresIdentifierBytes_def split: list.splits)
  ultimately show ?thesis
    using base unfolding defaultChannel_def validatePostgresChannel_def by (auto simp: Let_def)
qed

theorem defaultChannel_valid_witness:
  "isPostgresIdentifier ''tenant_1'' \<and> defaultChannel ''tenant_1'' = ''azync_tenant_1'' \<and>
   defaultChannel ''no-such'' = ''azync''"
  using defaultChannel_valid [of "''tenant_1''"] by code_simp

text \<open>
  C21: A worker that listens learns exactly which source and kind has work: what an
  enqueue sends is read back by the listener, colons in the kind included; only a
  payload without a kind is dropped.
\<close>

theorem wake_roundtrip:
  "parseWake (notifyPayload src kind) = (if kind = [] then None else Some (sourceString src, kind)) \<and>
   inj sourceString"
proof
  have "takeWhile (\<lambda>c. c \<noteq> CHR '':'') (notifyPayload src kind) = sourceString src"
    by (cases src) (simp_all add: notifyPayload_def sourceString_def)
  moreover have "sourceString src \<noteq> []" by (cases src) (simp_all add: sourceString_def)
  ultimately show "parseWake (notifyPayload src kind) = (if kind = [] then None else Some (sourceString src, kind))"
    by (auto simp: parseWake_def Let_def notifyPayload_def)
  show "inj sourceString" by (rule injI) (auto simp: sourceString_def split: source.splits)
qed

text \<open>
  What is hashed for an advisory lock tells two leaderships apart when the schemas are
  identifiers, which hold no colon. With a colon in the schema two of them share a lock.
\<close>

lemma identifier_no_colon: "isPostgresIdentifier schema \<Longrightarrow> CHR '':'' \<notin> set schema"
proof -
  assume "isPostgresIdentifier schema"
  then have "list_all isPostgresIdentifierPart schema"
    by (auto simp: isPostgresIdentifier_def isPostgresIdentifierPart_def split: list.splits)
  moreover have "\<not> isPostgresIdentifierPart (CHR '':'')" by code_simp
  ultimately show ?thesis by (auto simp: list_all_iff)
qed

lemma split_last_colon:
  assumes "xs @ '':'' @ ys = xs' @ '':'' @ ys'" "CHR '':'' \<notin> set ys" "CHR '':'' \<notin> set ys'"
  shows "xs = xs' \<and> ys = ys'"
proof -
  have "takeWhile (\<lambda>c. c \<noteq> CHR '':'') (rev (zs @ '':'' @ ws)) = rev ws" if "CHR '':'' \<notin> set ws" for zs ws
    using that by (subst rev_append, subst rev_append) (auto simp: takeWhile_tail)
  with assms have "rev ys = rev ys'" by metis
  with assms(1) show ?thesis by simp
qed

lemma lock_input_unambiguous:
  assumes "isPostgresIdentifier schema" "isPostgresIdentifier schema'"
  shows "lockInput name schema = lockInput name' schema' \<longleftrightarrow> name = name' \<and> schema = schema'"
  using split_last_colon [of "''azync:'' @ name" schema "''azync:'' @ name'" schema']
    identifier_no_colon [OF assms(1)] identifier_no_colon [OF assms(2)] by (auto simp: lockInput_def)

lemma advisory_keys_collide:
  "advisoryLockKey (name @ '':'' @ part) schema = advisoryLockKey name (part @ '':'' @ schema)"
  by (simp add: advisoryLockKey_def lockInput_def)

end
