(* ===== verification/Pg_Store.thy ===== *)
theory Pg_Store
  imports Fake_Admin Pg_Ident
begin

text \<open>
  The PostgreSQL store, jobs part (\<open>driver/azyncpgx\<close>: \<open>store_jobs.go\<close>,
  \<open>store_maintenance.go\<close>, the job verbs of \<open>store_admin.go\<close>, the batch and slot
  options of \<open>azyncpgx.go\<close>). The database is its tables; a nullable column is an
  option. Each SQL statement of the source is one function on the tables, built
  from \<open>sql_update\<close> and \<open>sql_delete\<close>, and a transaction is the composition of its
  statements, undone when it returns an error.

  \<^item> \<open>now()\<close> is \<open>pgNow\<close>; it does not advance inside a call. \<open>CURRENT_DATE\<close> is its day
    in UTC.
  \<^item> What the statements take from the server and from Go's runtime is the
    parameter \<open>pgEnv\<close>: \<open>make_interval(secs => d.Seconds())\<close>, what a \<open>timestamptz\<close> column
    keeps of a \<open>time.Time\<close>, the way back from stored seconds to a \<open>time.Duration\<close>, the cast of a text to \<open>jsonb\<close> (\<open>None\<close> when it is not
    JSON) and its canonical text, \<open>gen_random_uuid()\<close>, \<open>rand.IntN\<close>.
  \<^item> \<open>FOR UPDATE SKIP LOCKED\<close> skips the rows another transaction holds: the
    predicate \<open>locked\<close>, one per batch. \<open>LIMIT\<close> without \<open>ORDER BY\<close> takes the rows in
    table order.
  \<^item> Connection failures, which any statement may return, are outside the model.
\<close>

section \<open>Tables\<close>

record pgJob =
  rId :: uuid
  rSource :: source
  rKind :: string
  rState :: job_state
  rRunAt :: time
  rLeaseUntil :: "time option"
  rLeaseToken :: "uuid option"
  rAttempt :: int
  rMaxAttempts :: int
  rMaxAttemptsExplicit :: bool
  rReapCount :: int
  rPayload :: raw
  rMeta :: meta
  rIdempotencyKey :: "string option"
  rCoalesceKey :: "string option"
  rEventId :: "uuid option"
  rReplay :: bool
  rLastError :: "string option"
  rEnqueuedAt :: time
  rFailedAt :: "time option"
  rCompletedAt :: "time option"
  rStartedAt :: "time option"
  rUpdatedAt :: time
  rDagId :: "uuid option"
  rRunId :: "uuid option"
  rTaskKey :: "string option"
  rResult :: raw
  rSignalName :: "string option"
  rCompensationKind :: "string option"
  rIgnoreDeadDeps :: bool
  rSnoozeBudget :: "duration option"
  rDeadlineAt :: "time option"

text \<open>
  \<open>azync_stats_daily\<close> is keyed by source, kind, day and slot. \<open>pgNotified\<close> are the
  payloads sent with \<open>pg_notify\<close> on the store's channel, oldest first. \<open>pgTokens\<close> counts the UUIDs the server
  drew and \<open>pgSlots\<close> the slots a statement used.
\<close>

type_synonym slotKey = "source \<times> string \<times> time \<times> int"

record pgdb =
  pgNow :: time
  pgJobs :: "(uuid \<times> pgJob) list"
  pgAttempts :: "(uuid \<times> attemptError) list"
  pgKeys :: "(idemKey \<times> time) list"
  pgStats :: "(slotKey \<times> statCounters) list"
  pgEvents :: "(uuid \<times> eventRecord) list"
  pgSubscribers :: "(subKey \<times> subRecord) list"
  pgNotified :: "string list"
  pgTokens :: nat
  pgSlots :: nat

record pgEnv =
  make_interval :: "duration \<Rightarrow> duration"
  timestamptz :: "time \<Rightarrow> time"
  stored_seconds :: "duration \<Rightarrow> duration"
  jsonb :: "string \<Rightarrow> string option"
  gen_random_uuid :: "nat \<Rightarrow> uuid"
  rand_IntN :: "nat \<Rightarrow> int \<Rightarrow> int"

section \<open>Options\<close>

text \<open>
  \<open>Store\<close>, without the pool, the logger and the listeners. \<open>cfgSchema\<close> and the other
  arguments of \<open>pgOpen\<close> are the fields of \<open>driver.Config\<close>; reaching the server is
  outside the model.
\<close>

record pgStore =
  ownsPool :: bool
  schema :: string
  notifyChannel :: string
  migrationsTable :: string
  pollOnly :: bool
  statsSlots :: int
  maintenanceBatch :: int

definition defaultStatsSlots :: int where
  "defaultStatsSlots = 8"

definition defaultMaintenanceBatch :: int where
  "defaultMaintenanceBatch = 1000"

definition WithNotifyChannel :: "string \<Rightarrow> pgStore \<Rightarrow> pgStore" where
  "WithNotifyChannel channel st = st\<lparr>notifyChannel := channel\<rparr>"

definition WithMigrationsTable :: "string \<Rightarrow> pgStore \<Rightarrow> pgStore" where
  "WithMigrationsTable table st = st\<lparr>migrationsTable := table\<rparr>"

definition WithSchema :: "string \<Rightarrow> pgStore \<Rightarrow> pgStore" where
  "WithSchema sch st = st\<lparr>schema := sch\<rparr>"

definition PollOnly :: "pgStore \<Rightarrow> pgStore" where
  "PollOnly st = st\<lparr>pollOnly := True\<rparr>"

definition WithStatsSlots :: "int \<Rightarrow> pgStore \<Rightarrow> pgStore" where
  "WithStatsSlots n st = (if n > 0 then st\<lparr>statsSlots := n\<rparr> else st)"

definition WithMaintenanceBatch :: "int \<Rightarrow> pgStore \<Rightarrow> pgStore" where
  "WithMaintenanceBatch n st = (if n > 0 then st\<lparr>maintenanceBatch := n\<rparr> else st)"

definition finishInit :: "pgStore \<Rightarrow> pgStore" where
  "finishInit st =
     (let st1 = (if migrationsTable st = [] then st\<lparr>migrationsTable := ''azync_migrations''\<rparr> else st);
          st2 = (if notifyChannel st1 = [] then st1\<lparr>notifyChannel := defaultChannel (schema st1)\<rparr> else st1);
          st3 = (if statsSlots st2 \<le> 0 then st2\<lparr>statsSlots := defaultStatsSlots\<rparr> else st2)
      in if maintenanceBatch st3 \<le> 0 then st3\<lparr>maintenanceBatch := defaultMaintenanceBatch\<rparr> else st3)"

definition zeroStore :: pgStore where
  "zeroStore = \<lparr>ownsPool = False, schema = [], notifyChannel = [], migrationsTable = [], pollOnly = False,
     statsSlots = 0, maintenanceBatch = 0\<rparr>"

definition pgNew :: "(pgStore \<Rightarrow> pgStore) list \<Rightarrow> pgStore" where
  "pgNew opts = finishInit (fold (\<lambda>opt. opt) opts zeroStore)"

definition pgOpen :: "string \<Rightarrow> string \<Rightarrow> string \<Rightarrow> bool \<Rightarrow> error + pgStore" where
  "pgOpen cfgSchema cfgNotifyChannel cfgMigrationsTable cfgPollOnly =
     (case (if cfgSchema \<noteq> [] then validatePostgresIdentifier cfgSchema else None) of
        Some e \<Rightarrow> Inl e
      | None \<Rightarrow>
          (case (if cfgNotifyChannel \<noteq> [] then validatePostgresChannel cfgNotifyChannel else None) of
             Some e \<Rightarrow> Inl e
           | None \<Rightarrow> Inr (finishInit (zeroStore\<lparr>ownsPool := True, schema := cfgSchema, notifyChannel := cfgNotifyChannel,
                migrationsTable := cfgMigrationsTable, pollOnly := cfgPollOnly\<rparr>))))"

section \<open>Statements\<close>

text \<open>\<open>UPDATE azync_jobs SET f WHERE w RETURNING ...\<close>: the rows as the update leaves them.\<close>

definition sql_update :: "(pgJob \<Rightarrow> bool) \<Rightarrow> (pgJob \<Rightarrow> pgJob) \<Rightarrow> pgdb \<Rightarrow> pgJob list \<times> pgdb" where
  "sql_update w f db =
     (map f (filter w (map snd (pgJobs db))),
      db\<lparr>pgJobs := map (\<lambda>(k, r). (k, if w r then f r else r)) (pgJobs db)\<rparr>)"

text \<open>\<open>DELETE FROM azync_jobs WHERE w\<close>: the attempt rows cascade (migration 00001).\<close>

definition sql_delete :: "(pgJob \<Rightarrow> bool) \<Rightarrow> pgdb \<Rightarrow> int \<times> pgdb" where
  "sql_delete w db =
     (let gone = map rId (filter w (map snd (pgJobs db)))
      in (int (length gone),
          db\<lparr>pgJobs := filter (\<lambda>(k, r). \<not> w r) (pgJobs db),
             pgAttempts := filter (\<lambda>(k, a). k \<notin> set gone) (pgAttempts db)\<rparr>))"

text \<open>The rows of a subquery with an order, a limit and \<open>SKIP LOCKED\<close>.\<close>

definition sql_pick ::
  "(pgJob \<Rightarrow> bool) \<Rightarrow> (pgJob \<Rightarrow> 'o::linorder) \<Rightarrow> (uuid \<Rightarrow> bool) \<Rightarrow> int \<Rightarrow> pgdb \<Rightarrow> pgJob list" where
  "sql_pick w ord locked n db =
     take (nat n) (sort_key ord (filter (\<lambda>r. w r \<and> \<not> locked (rId r)) (map snd (pgJobs db))))"

text \<open>\<open>LIMIT\<close> and \<open>OFFSET\<close>; a null limit is none.\<close>

definition limitArg :: "int \<Rightarrow> int option" where
  "limitArg limit = (if limit \<le> 0 then None else Some limit)"

definition sql_page :: "int \<Rightarrow> int option \<Rightarrow> 'a list \<Rightarrow> 'a list" where
  "sql_page offset lim rows =
     (let rest = drop (nat offset) rows in case lim of None \<Rightarrow> rest | Some n \<Rightarrow> take (nat n) rest)"

definition insert_attempt :: "uuid \<Rightarrow> int \<Rightarrow> string \<Rightarrow> pgdb \<Rightarrow> pgdb" where
  "insert_attempt jid attempt err db =
     db\<lparr>pgAttempts := pgAttempts db @ [(jid, \<lparr>aeAttempt = attempt, aeError = err, aeAt = pgNow db\<rparr>)]\<rparr>"

section \<open>Statistics\<close>

definition randSlot :: "pgEnv \<Rightarrow> pgStore \<Rightarrow> pgdb \<Rightarrow> int" where
  "randSlot env st db = rand_IntN env (pgSlots db) (statsSlots st)"

text \<open>
  \<open>INSERT ... ON CONFLICT DO UPDATE\<close> on one slot. \<open>pgBumpStat\<close> is \<open>Store.bumpStat\<close>, and
  the \<open>bump\<close> clause of the settlement statements.
\<close>

definition pgBumpStat ::
  "pgEnv \<Rightarrow> pgStore \<Rightarrow> source \<Rightarrow> string \<Rightarrow> statField \<Rightarrow> int \<Rightarrow> pgdb \<Rightarrow> pgdb" where
  "pgBumpStat env st src kind field n db =
     (let k = (src, kind, dayOf (pgNow db), randSlot env st db)
      in db\<lparr>pgStats := AList.update k
               (bumpCounter field n (the_default zeroCounters (map_of (pgStats db) k))) (pgStats db),
            pgSlots := Suc (pgSlots db)\<rparr>)"

section \<open>Rows as jobs\<close>

definition toUUID :: "uuid option \<Rightarrow> uuid" where
  "toUUID p = the_default Nil_uuid p"

definition timeOf :: "time option \<Rightarrow> time" where
  "timeOf t = the_default zero_time t"

definition nullableTime :: "time \<Rightarrow> time option" where
  "nullableTime t = (if t = zero_time then None else Some t)"

definition decodeMeta :: "meta \<Rightarrow> meta" where
  "decodeMeta m = (case m of None \<Rightarrow> Some [] | Some kv \<Rightarrow> Some kv)"

definition orEmptyMeta :: "meta \<Rightarrow> meta" where
  "orEmptyMeta m = (case m of None \<Rightarrow> Some [] | Some kv \<Rightarrow> Some kv)"

text \<open>\<open>scannedJob.toJob\<close> over the projection \<open>jobColumns\<close>.\<close>

definition pgToJob :: "pgEnv \<Rightarrow> pgJob \<Rightarrow> job" where
  "pgToJob env r =
     \<lparr>jID = rId r, jSource = rSource r, jKind = rKind r, jState = rState r, jAttempt = rAttempt r,
      jMaxAttempts = rMaxAttempts r, jReapCount = rReapCount r, jPayload = rPayload r,
      jMeta = decodeMeta (rMeta r), jRunAt = rRunAt r, jLeaseUntil = timeOf (rLeaseUntil r),
      jLeaseToken = toUUID (rLeaseToken r), jLastError = the_default [] (rLastError r),
      jEventID = toUUID (rEventId r), jReplay = rReplay r, jEvent = None,
      jDAGID = toUUID (rDagId r), jRunID = toUUID (rRunId r), jTaskKey = the_default [] (rTaskKey r),
      jResult = rResult r, jSignalName = the_default [] (rSignalName r),
      jCompensationKind = the_default [] (rCompensationKind r), jIgnoreDeadDeps = rIgnoreDeadDeps r,
      jSnoozeBudget = stored_seconds env (the_default 0 (rSnoozeBudget r)),
      jDeadlineAt = timeOf (rDeadlineAt r), jEnqueuedAt = rEnqueuedAt r,
      jFailedAt = timeOf (rFailedAt r), jCompletedAt = timeOf (rCompletedAt r),
      jStartedAt = timeOf (rStartedAt r)\<rparr>"

definition toRecord :: "uuid \<Rightarrow> eventRecord \<Rightarrow> eventRecord" where
  "toRecord eid ev = ev\<lparr>evID := eid, evMeta := decodeMeta (evMeta ev)\<rparr>"

section \<open>Enqueue\<close>

text \<open>\<open>enqueueClaimSQL\<close>: whether the key was claimed, and the table with the claim.\<close>

definition enqueueClaim :: "pgEnv \<Rightarrow> enqueueParams \<Rightarrow> pgdb \<Rightarrow> bool \<times> pgdb" where
  "enqueueClaim env p db =
     (let k = (SourceQueue, epKind p, epIdempotencyKey p);
          claimed = (case map_of (pgKeys db) k of None \<Rightarrow> True | Some exp \<Rightarrow> exp < pgNow db)
      in if claimed
         then (True, db\<lparr>pgKeys := AList.update k (pgNow db + make_interval env (epIdempotencyTTL p)) (pgKeys db)\<rparr>)
         else (False, db))"

text \<open>The row \<open>enqueueInsertSQL\<close> inserts; the columns it leaves out take their defaults.\<close>

definition nullableKey :: "string \<Rightarrow> string option" where
  "nullableKey k = (if k \<noteq> [] then Some k else None)"

definition enqueueRow :: "pgEnv \<Rightarrow> enqueueParams \<Rightarrow> string \<Rightarrow> time \<Rightarrow> pgJob" where
  "enqueueRow env p payload now =
     (let runAt = the_default (now + make_interval env (epDelay p)) (map_option (timestamptz env) (nullableTime (epRunAt p)))
      in \<lparr>rId = epID p, rSource = SourceQueue, rKind = epKind p,
          rState = (if runAt > now then StateScheduled else StatePending), rRunAt = runAt,
          rLeaseUntil = None, rLeaseToken = None, rAttempt = 0, rMaxAttempts = epMaxAttempts p,
          rMaxAttemptsExplicit = epMaxAttemptsExplicit p, rReapCount = 0, rPayload = Some payload,
          rMeta = orEmptyMeta (epMeta p), rIdempotencyKey = nullableKey (epIdempotencyKey p),
          rCoalesceKey = nullableKey (epCoalesceKey p), rEventId = None, rReplay = False,
          rLastError = None, rEnqueuedAt = now, rFailedAt = None, rCompletedAt = None,
          rStartedAt = None, rUpdatedAt = now, rDagId = None, rRunId = None, rTaskKey = None,
          rResult = None, rSignalName = None, rCompensationKind = None, rIgnoreDeadDeps = False,
          rSnoozeBudget = None, rDeadlineAt = None\<rparr>)"

text \<open>\<open>azync_jobs_idempotency_idx\<close>: two live rows of one source and kind never share a key.\<close>

definition index_clash :: "pgJob \<Rightarrow> pgJob \<Rightarrow> bool" where
  "index_clash a b =
     (rIdempotencyKey a \<noteq> None \<and> rIdempotencyKey a = rIdempotencyKey b \<and> rSource a = rSource b \<and>
      rKind a = rKind b \<and> live_key (rState a) \<and> live_key (rState b))"

definition coalesce_match :: "enqueueParams \<Rightarrow> pgJob \<Rightarrow> bool" where
  "coalesce_match p r =
     (rSource r = SourceQueue \<and> rKind r = epKind p \<and> rCoalesceKey r = Some (epCoalesceKey p) \<and>
      (rState r = StatePending \<or> rState r = StateScheduled))"

text \<open>
  \<open>Store.enqueue\<close>. The arbiter index is tested before the primary key, whose
  violation is the only one mapped to \<open>ErrAlreadyExists\<close>. A payload that is not JSON
  fails the insert.
\<close>

definition enqueue :: "pgEnv \<Rightarrow> pgStore \<Rightarrow> enqueueParams \<Rightarrow> bool \<Rightarrow> pgdb \<Rightarrow> (pgdb, bool) outcome" where
  "enqueue env st p notifyInTx db =
     (let (claimed, db1) = (if epIdempotencyKey p \<noteq> [] \<and> epIdempotencyTTL p > 0
                            then enqueueClaim env p db else (True, db))
      in if \<not> claimed then (Inr False, db1)
         else case jsonb env (the_default [] (epPayload p)) of
           None \<Rightarrow> (Inl (OtherError ''azyncpgx: enqueue insert''), db1)
         | Some payload \<Rightarrow>
             let r = enqueueRow env p payload (pgNow db1); rows = map snd (pgJobs db1)
             in if nullableKey (epCoalesceKey p) \<noteq> None \<and> list_ex (coalesce_match p) rows then (Inr False, db1)
                else if list_ex (index_clash r) rows then (Inr False, db1)
                else if map_of (pgJobs db1) (epID p) \<noteq> None then (Inl AlreadyExists, db1)
                else
                  let db2 = pgBumpStat env st SourceQueue (epKind p) statEnqueued 1
                              (db1\<lparr>pgJobs := pgJobs db1 @ [(epID p, r)]\<rparr>);
                      db3 = (if notifyInTx
                             then db2\<lparr>pgNotified := pgNotified db2 @ [notifyPayload SourceQueue (epKind p)]\<rparr>
                             else db2)
                  in (Inr True, db3))"

definition notifyAfterCommit :: "source \<Rightarrow> string \<Rightarrow> pgdb \<Rightarrow> pgdb" where
  "notifyAfterCommit src kind db = db\<lparr>pgNotified := pgNotified db @ [notifyPayload src kind]\<rparr>"

text \<open>\<open>Store.Enqueue\<close>: its own transaction, rolled back on an error only.\<close>

definition pgEnqueue :: "pgEnv \<Rightarrow> pgStore \<Rightarrow> enqueueParams \<Rightarrow> pgdb \<Rightarrow> (pgdb, bool) outcome" where
  "pgEnqueue env st p db =
     (case enqueue env st p False db of
        (Inl e, _) \<Rightarrow> (Inl e, db)
      | (Inr inserted, db') \<Rightarrow>
          (Inr inserted, if inserted then notifyAfterCommit SourceQueue (epKind p) db' else db'))"

definition EnqueueTx :: "pgEnv \<Rightarrow> pgStore \<Rightarrow> enqueueParams \<Rightarrow> pgdb \<Rightarrow> (pgdb, bool) outcome" where
  "EnqueueTx env st p db = enqueue env st p True db"

section \<open>DequeueBatch\<close>

definition pg_due :: "source \<Rightarrow> string \<Rightarrow> time \<Rightarrow> pgJob \<Rightarrow> bool" where
  "pg_due src kind now r = (rSource r = src \<and> rKind r = kind \<and> rState r = StatePending \<and> rRunAt r \<le> now)"

definition pg_lease :: "pgEnv \<Rightarrow> dequeueParams \<Rightarrow> time \<Rightarrow> uuid \<Rightarrow> pgJob \<Rightarrow> pgJob" where
  "pg_lease env p now tok r =
     r\<lparr>rState := StateActive, rLeaseUntil := Some (now + make_interval env (dpLease p)),
       rLeaseToken := Some tok,
       rMaxAttempts := (if rMaxAttemptsExplicit r \<or> \<not> dpOverrideDefault p then rMaxAttempts r
                        else dpDefaultMaxAttempts p),
       rMaxAttemptsExplicit := True, rAttempt := rAttempt r + 1, rStartedAt := Some now,
       rUpdatedAt := now\<rparr>"

text \<open>
  \<open>dequeueClaimBody\<close>: the picked rows that pass the statement's own \<open>WHERE\<close> are leased,
  each with a token of its own, and returned in the order they were picked.
\<close>

definition dequeueClaim ::
  "pgEnv \<Rightarrow> source \<Rightarrow> dequeueParams \<Rightarrow> (uuid \<Rightarrow> bool) \<Rightarrow> (pgJob \<Rightarrow> bool) \<Rightarrow> pgdb \<Rightarrow> pgJob list \<times> pgdb" where
  "dequeueClaim env src p locked joined db =
     (let picked = filter joined (sql_pick (pg_due src (dpKind p) (pgNow db)) (\<lambda>r. (rRunAt r, rId r)) locked
                                    (dpLimit p) db);
          leased = map (\<lambda>(i, r). pg_lease env p (pgNow db) (gen_random_uuid env (pgTokens db + i)) r)
                     (List.enumerate 0 picked)
      in (leased, db\<lparr>pgJobs := fold (\<lambda>r. AList.update (rId r) r) leased (pgJobs db),
                     pgTokens := pgTokens db + length leased\<rparr>))"

definition dequeueEvents ::
  "pgEnv \<Rightarrow> dequeueParams \<Rightarrow> (uuid \<Rightarrow> bool) \<Rightarrow> pgdb \<Rightarrow> (pgdb, job list) outcome" where
  "dequeueEvents env p locked db =
     (let ledger = (\<lambda>r. Option.bind (rEventId r) (map_of (pgEvents db)));
          (rows, db') = dequeueClaim env SourceEvent p locked (\<lambda>r. ledger r \<noteq> None) db
      in (Inr (map (\<lambda>r. (pgToJob env r)\<lparr>jEvent := map_option (toRecord (toUUID (rEventId r))) (ledger r)\<rparr>) rows),
          db'))"

definition pgDequeueBatch ::
  "pgEnv \<Rightarrow> (uuid \<Rightarrow> bool) \<Rightarrow> source \<Rightarrow> dequeueParams \<Rightarrow> pgdb \<Rightarrow> (pgdb, job list) outcome" where
  "pgDequeueBatch env locked src p db =
     (if dpLimit p \<le> 0 then (Inr [], db)
      else if src = SourceEvent then dequeueEvents env p locked db
      else let (rows, db') = dequeueClaim env src p locked (\<lambda>_. True) db
           in (Inr (map (pgToJob env) rows), db'))"

section \<open>Settlement\<close>

text \<open>\<open>WHERE id = $1 AND state = 'active' AND lease_token = $2\<close>.\<close>

definition fence :: "uuid \<Rightarrow> uuid \<Rightarrow> pgJob \<Rightarrow> bool" where
  "fence jid tok r = (rId r = jid \<and> rState r = StateActive \<and> rLeaseToken r = Some tok)"

text \<open>
  The chained statement of a settlement: the fenced update, then the attempt
  row and the counter of each row it produced that \<open>counts\<close> (the CTEs \<open>ins\<close> and
  \<open>bump\<close>; \<open>err\<close> is \<open>None\<close> where the statement has no \<open>ins\<close>).
\<close>

definition chained_sql ::
  "pgEnv \<Rightarrow> pgStore \<Rightarrow> uuid \<Rightarrow> uuid \<Rightarrow> (pgJob \<Rightarrow> pgJob) \<Rightarrow> (pgJob \<Rightarrow> bool) \<Rightarrow> string option \<Rightarrow> statField
     \<Rightarrow> pgdb \<Rightarrow> pgJob list \<times> pgdb" where
  "chained_sql env st jid tok f counts err field db =
     (let (upd, db1) = sql_update (fence jid tok) f db;
          ins = (\<lambda>r d. case err of None \<Rightarrow> d | Some e \<Rightarrow> insert_attempt (rId r) (rAttempt r) e d);
          bump = (\<lambda>r. pgBumpStat env st (rSource r) (rKind r) field 1)
      in (upd, fold (\<lambda>r d. bump r (ins r d)) (filter counts upd) db1))"

text \<open>\<open>failTransition\<close>, and the same shape in \<open>Ack\<close>: no row is a not-found error.\<close>

definition failTransition :: "string \<Rightarrow> (pgdb \<Rightarrow> pgJob list \<times> pgdb) \<Rightarrow> pgdb \<Rightarrow> (pgdb, unit) outcome" where
  "failTransition opn sql db = (let (rows, db') = sql db in (if rows = [] then Inl (NotFound opn) else Inr (), db'))"

definition unleased :: "pgJob \<Rightarrow> pgJob" where
  "unleased r = r\<lparr>rLeaseUntil := None, rLeaseToken := None\<rparr>"

definition ackSQL :: "time \<Rightarrow> pgJob \<Rightarrow> pgJob" where
  "ackSQL now r = (unleased r)\<lparr>rState := StateSucceeded, rCompletedAt := Some now, rUpdatedAt := now\<rparr>"

definition pgAck :: "pgEnv \<Rightarrow> pgStore \<Rightarrow> uuid \<Rightarrow> uuid \<Rightarrow> pgdb \<Rightarrow> (pgdb, unit) outcome" where
  "pgAck env st jid tok db =
     failTransition ''ack'' (chained_sql env st jid tok (ackSQL (pgNow db)) (\<lambda>_. True) None statProcessed) db"

definition rescheduleSQL :: "pgEnv \<Rightarrow> duration \<Rightarrow> string \<Rightarrow> time \<Rightarrow> pgJob \<Rightarrow> pgJob" where
  "rescheduleSQL env delay lastError now r =
     (unleased r)\<lparr>rState := StateScheduled, rRunAt := now + make_interval env delay,
       rLastError := Some lastError, rFailedAt := Some now, rUpdatedAt := now\<rparr>"

definition pgReschedule ::
  "pgEnv \<Rightarrow> pgStore \<Rightarrow> uuid \<Rightarrow> uuid \<Rightarrow> duration \<Rightarrow> string \<Rightarrow> pgdb \<Rightarrow> (pgdb, unit) outcome" where
  "pgReschedule env st jid tok delay lastError db =
     failTransition ''reschedule''
       (chained_sql env st jid tok (rescheduleSQL env delay lastError (pgNow db)) (\<lambda>_. True)
          (Some lastError) statFailed) db"

definition deadSQL :: "string \<Rightarrow> time \<Rightarrow> pgJob \<Rightarrow> pgJob" where
  "deadSQL lastError now r =
     (unleased r)\<lparr>rState := StateDead, rLastError := Some lastError, rFailedAt := Some now, rUpdatedAt := now\<rparr>"

definition pgDead :: "pgEnv \<Rightarrow> pgStore \<Rightarrow> uuid \<Rightarrow> uuid \<Rightarrow> string \<Rightarrow> pgdb \<Rightarrow> (pgdb, unit) outcome" where
  "pgDead env st jid tok lastError db =
     failTransition ''dead''
       (chained_sql env st jid tok (deadSQL lastError (pgNow db)) (\<lambda>_. True) (Some lastError) statFailed) db"

definition skipSQL :: "string \<Rightarrow> time \<Rightarrow> pgJob \<Rightarrow> pgJob" where
  "skipSQL reason now r =
     (unleased r)\<lparr>rState := StateSkipped, rLastError := Some reason, rCompletedAt := Some now, rUpdatedAt := now\<rparr>"

definition pgSkip :: "pgEnv \<Rightarrow> pgStore \<Rightarrow> uuid \<Rightarrow> uuid \<Rightarrow> string \<Rightarrow> pgdb \<Rightarrow> (pgdb, unit) outcome" where
  "pgSkip env st jid tok reason db =
     failTransition ''skip''
       (chained_sql env st jid tok (skipSQL reason (pgNow db)) (\<lambda>_. True) None statProcessed) db"

definition requireRow :: "string \<Rightarrow> (pgdb \<Rightarrow> int \<times> pgdb) \<Rightarrow> pgdb \<Rightarrow> (pgdb, unit) outcome" where
  "requireRow opn sql db = (let (n, db') = sql db in (if n = 0 then Inl (NotFound opn) else Inr (), db'))"

definition exec_update :: "(pgJob \<Rightarrow> bool) \<Rightarrow> (pgJob \<Rightarrow> pgJob) \<Rightarrow> pgdb \<Rightarrow> int \<times> pgdb" where
  "exec_update w f db = (let (rows, db') = sql_update w f db in (int (length rows), db'))"

definition releaseSQL :: "time \<Rightarrow> pgJob \<Rightarrow> pgJob" where
  "releaseSQL now r =
     (unleased r)\<lparr>rState := StatePending, rAttempt := max (rAttempt r - 1) 0, rRunAt := now, rUpdatedAt := now\<rparr>"

definition pgRelease :: "uuid \<Rightarrow> uuid \<Rightarrow> pgdb \<Rightarrow> (pgdb, unit) outcome" where
  "pgRelease jid tok db = requireRow ''release'' (exec_update (fence jid tok) (releaseSQL (pgNow db))) db"

definition past_deadline :: "time \<Rightarrow> pgJob \<Rightarrow> bool" where
  "past_deadline now r = (case rDeadlineAt r of None \<Rightarrow> False | Some t \<Rightarrow> t \<le> now)"

definition snoozeSQL :: "pgEnv \<Rightarrow> duration \<Rightarrow> string \<Rightarrow> time \<Rightarrow> pgJob \<Rightarrow> pgJob" where
  "snoozeSQL env delay deadlineError now r =
     (let over = past_deadline now r
      in (unleased r)\<lparr>rState := (if over then StateDead else StateScheduled),
           rRunAt := (if over then rRunAt r else now + make_interval env delay),
           rAttempt := (if over then rAttempt r else max (rAttempt r - 1) 0),
           rLastError := (if over then Some deadlineError else rLastError r),
           rFailedAt := (if over then Some now else rFailedAt r),
           rDeadlineAt := (case rDeadlineAt r of Some t \<Rightarrow> Some t
                           | None \<Rightarrow> map_option (\<lambda>b. now + make_interval env b) (rSnoozeBudget r)),
           rUpdatedAt := now\<rparr>)"

definition pgSnooze ::
  "pgEnv \<Rightarrow> pgStore \<Rightarrow> uuid \<Rightarrow> uuid \<Rightarrow> duration \<Rightarrow> string \<Rightarrow> pgdb \<Rightarrow> (pgdb, bool) outcome" where
  "pgSnooze env st jid tok delay deadlineError db =
     (let (rows, db') = chained_sql env st jid tok (snoozeSQL env delay deadlineError (pgNow db))
            (\<lambda>r. rState r = StateDead) (Some deadlineError) statFailed db
      in (case rows of [] \<Rightarrow> Inl (NotFound ''snooze'') | r # _ \<Rightarrow> Inr (rState r = StateDead), db'))"

definition extendLeaseSQL :: "pgEnv \<Rightarrow> duration \<Rightarrow> time \<Rightarrow> pgJob \<Rightarrow> pgJob" where
  "extendLeaseSQL env lease now r = r\<lparr>rLeaseUntil := Some (now + make_interval env lease), rUpdatedAt := now\<rparr>"

definition pgExtendLease :: "pgEnv \<Rightarrow> uuid \<Rightarrow> uuid \<Rightarrow> duration \<Rightarrow> pgdb \<Rightarrow> (pgdb, unit) outcome" where
  "pgExtendLease env jid tok lease db =
     requireRow ''extend lease'' (exec_update (fence jid tok) (extendLeaseSQL env lease (pgNow db))) db"

section \<open>Maintenance\<close>

text \<open>
  The batch loops. \<open>batch_loop\<close> repeats a statement, numbered by \<open>i\<close>, until it affects
  fewer rows than the batch; \<open>cnt\<close> reads the number of affected rows from the
  statement's answer and \<open>add_up\<close> adds the answer to the totals. It is the loop of
  \<open>execBatchLoop\<close>, of \<open>PromoteDue\<close> and of \<open>ReapExpired\<close>. A statement that returns an
  error ends it with the totals so far.
\<close>

partial_function (option) batch_loop ::
  "('r \<Rightarrow> int) \<Rightarrow> ('r \<Rightarrow> 'r \<Rightarrow> 'r) \<Rightarrow> int \<Rightarrow> (nat \<Rightarrow> pgdb \<Rightarrow> (error + 'r) \<times> pgdb) \<Rightarrow> nat \<Rightarrow> 'r \<Rightarrow> pgdb
     \<Rightarrow> ((error option \<times> 'r) \<times> pgdb) option" where
  "batch_loop cnt add_up batch sql i tot db =
     (case sql i db of
        (Inl e, db') \<Rightarrow> Some ((Some e, tot), db')
      | (Inr n, db') \<Rightarrow>
          if cnt n < batch then Some ((None, add_up tot n), db')
          else batch_loop cnt add_up batch sql (Suc i) (add_up tot n) db')"

definition never_fails :: "(nat \<Rightarrow> pgdb \<Rightarrow> 'r \<times> pgdb) \<Rightarrow> nat \<Rightarrow> pgdb \<Rightarrow> (error + 'r) \<times> pgdb" where
  "never_fails sql i db = (let (n, db') = sql i db in (Inr n, db'))"

definition execBatchLoop ::
  "pgStore \<Rightarrow> (nat \<Rightarrow> pgdb \<Rightarrow> (error + int) \<times> pgdb) \<Rightarrow> pgdb \<Rightarrow> ((error option \<times> int) \<times> pgdb) option" where
  "execBatchLoop st sql db = batch_loop (\<lambda>n. n) (+) (maintenanceBatch st) sql 0 0 db"

definition pg_promotable :: "source \<Rightarrow> string list \<Rightarrow> time \<Rightarrow> pgJob \<Rightarrow> bool" where
  "pg_promotable src kinds now r =
     (rSource r = src \<and> rKind r \<in> set kinds \<and> rState r = StateScheduled \<and> rRunAt r \<le> now)"

definition promoteDueSQL :: "source \<Rightarrow> string list \<Rightarrow> int \<Rightarrow> (uuid \<Rightarrow> bool) \<Rightarrow> pgdb \<Rightarrow> int \<times> pgdb" where
  "promoteDueSQL src kinds batch locked db =
     (let picked = map rId (sql_pick (pg_promotable src kinds (pgNow db)) (\<lambda>r. (rRunAt r, rId r)) locked batch db)
      in exec_update (\<lambda>r. rId r \<in> set picked)
           (\<lambda>r. r\<lparr>rState := StatePending, rUpdatedAt := pgNow db\<rparr>) db)"

definition pgPromoteDue ::
  "pgStore \<Rightarrow> (nat \<Rightarrow> uuid \<Rightarrow> bool) \<Rightarrow> source \<Rightarrow> string list \<Rightarrow> pgdb \<Rightarrow> ((error option \<times> int) \<times> pgdb) option" where
  "pgPromoteDue st locked src kinds db =
     (if kinds = [] then Some ((None, 0), db)
      else batch_loop (\<lambda>n. n) (+) (maintenanceBatch st)
             (never_fails (\<lambda>i. promoteDueSQL src kinds (maintenanceBatch st) (locked i))) 0 0 db)"

definition pg_expired :: "source \<Rightarrow> string list \<Rightarrow> time \<Rightarrow> pgJob \<Rightarrow> bool" where
  "pg_expired src kinds now r =
     (rSource r = src \<and> rKind r \<in> set kinds \<and> rState r = StateActive \<and>
      (case rLeaseUntil r of None \<Rightarrow> False | Some t \<Rightarrow> t < now))"

definition reapSet :: "int \<Rightarrow> time \<Rightarrow> pgJob \<Rightarrow> pgJob" where
  "reapSet maxReaps now r =
     (let died = (rReapCount r + 1 \<ge> maxReaps)
      in (unleased r)\<lparr>rState := (if died then StateDead else StatePending),
           rReapCount := rReapCount r + 1,
           rLastError := (if died then Some (''lease expired '' @ itoa (rReapCount r + 1) @ '' times'')
                          else rLastError r),
           rFailedAt := (if died then Some now else rFailedAt r),
           rUpdatedAt := now\<rparr>)"

text \<open>
  \<open>reapExpiredSQL\<close>: the rows the CTE \<open>e\<close> locked are reclaimed if they are still active
  under the token it read; each row that died gets an attempt row.
\<close>

definition reapExpiredSQL ::
  "source \<Rightarrow> string list \<Rightarrow> int \<Rightarrow> int \<Rightarrow> (uuid \<Rightarrow> bool) \<Rightarrow> pgdb \<Rightarrow> (string \<times> bool) list \<times> pgdb" where
  "reapExpiredSQL src kinds maxReaps batch locked db =
     (let e = map (\<lambda>r. (rId r, rLeaseToken r))
                (sql_pick (pg_expired src kinds (pgNow db)) (\<lambda>r. timeOf (rLeaseUntil r)) locked batch db);
          (upd, db1) = sql_update (\<lambda>r. (rId r, rLeaseToken r) \<in> set e \<and> rState r = StateActive)
                         (reapSet maxReaps (pgNow db)) db;
          died = (\<lambda>r. rState r = StateDead)
      in (map (\<lambda>r. (rKind r, died r)) upd,
          fold (\<lambda>r. insert_attempt (rId r) (rAttempt r) (the_default [] (rLastError r))) (filter died upd) db1))"

definition collectReap :: "(string \<times> bool) list \<Rightarrow> (string \<times> int) list \<times> int \<times> int" where
  "collectReap rows =
     fold (\<lambda>(kind, died) (perKind, reaped, killed).
             (AList.update kind (the_default 0 (map_of perKind kind) + 1) perKind, reaped + 1,
              if died then killed + 1 else killed)) rows ([], 0, 0)"

definition reapExpiredBatch ::
  "pgEnv \<Rightarrow> pgStore \<Rightarrow> source \<Rightarrow> string list \<Rightarrow> int \<Rightarrow> (uuid \<Rightarrow> bool) \<Rightarrow> pgdb \<Rightarrow> (int \<times> int) \<times> pgdb" where
  "reapExpiredBatch env st src kinds maxReaps locked db =
     (let (rows, db1) = reapExpiredSQL src kinds maxReaps (maintenanceBatch st) locked db;
          (perKind, reaped, killed) = collectReap rows
      in ((reaped, killed),
          fold (\<lambda>kind. pgBumpStat env st src kind statReaped (the_default 0 (map_of perKind kind)))
            (sort (map fst perKind)) db1))"

definition pgReapExpired ::
  "pgEnv \<Rightarrow> pgStore \<Rightarrow> (nat \<Rightarrow> uuid \<Rightarrow> bool) \<Rightarrow> source \<Rightarrow> string list \<Rightarrow> int \<Rightarrow> pgdb
     \<Rightarrow> ((error option \<times> int \<times> int) \<times> pgdb) option" where
  "pgReapExpired env st locked src kinds maxReaps db =
     (if kinds = [] then Some ((None, 0, 0), db)
      else batch_loop fst (\<lambda>(a, b) (c, d). (a + c, b + d)) (maintenanceBatch st)
             (never_fails (\<lambda>i. reapExpiredBatch env st src kinds maxReaps (locked i))) 0 (0, 0) db)"

text \<open>\<open>int((retention + day - 1) / day)\<close>: Go's division is exact on the positive operands it gets.\<close>

definition statsRetentionDays :: "duration \<Rightarrow> int" where
  "statsRetentionDays retention = (retention + nsPerDay - 1) div nsPerDay"

definition pgVacuumStats :: "source \<Rightarrow> duration \<Rightarrow> pgdb \<Rightarrow> (pgdb, int) outcome" where
  "pgVacuumStats src retention db =
     (if retention \<le> 0 then (Inr 0, db)
      else
        let cutoff = dayOf (pgNow db) - statsRetentionDays retention * nsPerDay;
            old = (\<lambda>(k, c). (case k of (ksrc, kind, day, slot) \<Rightarrow> ksrc = src \<and> day < cutoff))
        in (Inr (int (length (filter old (pgStats db)))), db\<lparr>pgStats := filter (\<lambda>e. \<not> old e) (pgStats db)\<rparr>))"

definition pgVacuumIdempotency :: "source \<Rightarrow> pgdb \<Rightarrow> (pgdb, int) outcome" where
  "pgVacuumIdempotency src db =
     (let gone = (\<lambda>(k, exp). fst k = src \<and> exp < pgNow db)
      in (Inr (int (length (filter gone (pgKeys db)))), db\<lparr>pgKeys := filter (\<lambda>e. \<not> gone e) (pgKeys db)\<rparr>))"

text \<open>A batched delete: \<open>DELETE ... WHERE id IN (SELECT id ... WHERE w LIMIT n)\<close>.\<close>

definition delete_batch :: "(pgJob \<Rightarrow> bool) \<Rightarrow> int \<Rightarrow> pgdb \<Rightarrow> int \<times> pgdb" where
  "delete_batch w batch db =
     (let ids = map rId (take (nat batch) (filter w (map snd (pgJobs db)))) in sql_delete (\<lambda>r. rId r \<in> set ids) db)"

definition pg_vacuumable :: "source \<Rightarrow> time \<Rightarrow> pgJob \<Rightarrow> bool" where
  "pg_vacuumable src cutoff r =
     (rSource r = src \<and> rState r = StateSucceeded \<and> rDagId r = None \<and> rRunId r = None \<and>
      (case rCompletedAt r of None \<Rightarrow> False | Some t \<Rightarrow> t < cutoff))"

definition pgVacuumCompleted ::
  "pgEnv \<Rightarrow> pgStore \<Rightarrow> source \<Rightarrow> duration \<Rightarrow> pgdb \<Rightarrow> ((error option \<times> int) \<times> pgdb) option" where
  "pgVacuumCompleted env st src retention db =
     (if retention \<le> 0 then Some ((None, 0), db)
      else execBatchLoop st (never_fails (\<lambda>_ d. delete_batch
             (pg_vacuumable src (pgNow d - make_interval env retention)) (maintenanceBatch st) d)) db)"

section \<open>Operator verbs\<close>

text \<open>\<open>kindClause\<close>: an empty kind adds no condition.\<close>

definition kindClause :: "string \<Rightarrow> pgJob \<Rightarrow> bool" where
  "kindClause kind r = (kind = [] \<or> rKind r = kind)"

definition retrySet :: "time \<Rightarrow> pgJob \<Rightarrow> pgJob" where
  "retrySet now r =
     r\<lparr>rState := StatePending, rRunAt := now, rAttempt := 0, rReapCount := 0, rLastError := None,
       rFailedAt := None, rDeadlineAt := None, rStartedAt := None, rUpdatedAt := now\<rparr>"

text \<open>
  A retry is the one job verb that brings a row back under the live-key index:
  where the rows it leaves would clash, the statement fails and changes nothing.
\<close>

definition index_ok :: "pgdb \<Rightarrow> bool" where
  "index_ok db = (\<forall>(k, a) \<in> set (pgJobs db). \<forall>(k', b) \<in> set (pgJobs db). k \<noteq> k' \<longrightarrow> \<not> index_clash a b)"

definition retry_update :: "(pgJob \<Rightarrow> bool) \<Rightarrow> pgdb \<Rightarrow> (error + int) \<times> pgdb" where
  "retry_update w db =
     (let (n, db') = exec_update w (retrySet (pgNow db)) db
      in if index_ok db' then (Inr n, db') else (Inl (OtherError ''azync_jobs_idempotency_idx''), db))"

definition pgRetryJob :: "source \<Rightarrow> uuid \<Rightarrow> pgdb \<Rightarrow> (pgdb, unit) outcome" where
  "pgRetryJob src jid db =
     (case retry_update (\<lambda>r. rId r = jid \<and> rSource r = src \<and> rState r = StateDead) db of
        (Inl e, db') \<Rightarrow> (Inl e, db')
      | (Inr n, db') \<Rightarrow> (if n = 0 then Inl (NotFound ''retry'') else Inr (), db'))"

definition pg_retryable :: "source \<Rightarrow> string \<Rightarrow> pgJob \<Rightarrow> bool" where
  "pg_retryable src kind r = (rSource r = src \<and> kindClause kind r \<and> rState r = StateDead)"

definition pgRetryAllDead :: "pgStore \<Rightarrow> source \<Rightarrow> string \<Rightarrow> pgdb \<Rightarrow> ((error option \<times> int) \<times> pgdb) option" where
  "pgRetryAllDead st src kind db =
     execBatchLoop st (\<lambda>_ d.
       let ids = map rId (take (nat (maintenanceBatch st)) (filter (pg_retryable src kind) (map snd (pgJobs d))))
       in retry_update (\<lambda>r. rId r \<in> set ids) d) db"

definition pgRunNow :: "source \<Rightarrow> uuid \<Rightarrow> pgdb \<Rightarrow> (pgdb, unit) outcome" where
  "pgRunNow src jid db =
     (let (rows, db') = sql_update (\<lambda>r. rId r = jid \<and> rSource r = src \<and> rState r = StateScheduled)
            (\<lambda>r. r\<lparr>rState := StatePending, rRunAt := pgNow db, rUpdatedAt := pgNow db\<rparr>) db
      in case rows of
           [] \<Rightarrow> (Inl (NotFound ''run now''), db')
         | r # _ \<Rightarrow> (Inr (), notifyAfterCommit src (rKind r) db'))"

definition pending_or_scheduled :: "source \<Rightarrow> uuid \<Rightarrow> pgJob \<Rightarrow> bool" where
  "pending_or_scheduled src jid r =
     (rId r = jid \<and> rSource r = src \<and> (rState r = StatePending \<or> rState r = StateScheduled))"

definition pgArchiveJob :: "source \<Rightarrow> uuid \<Rightarrow> pgdb \<Rightarrow> (pgdb, unit) outcome" where
  "pgArchiveJob src jid db =
     requireRow ''archive'' (exec_update (pending_or_scheduled src jid)
       (\<lambda>r. r\<lparr>rState := StateDead, rLeaseUntil := None, rUpdatedAt := pgNow db\<rparr>)) db"

definition pgPauseJob :: "source \<Rightarrow> uuid \<Rightarrow> pgdb \<Rightarrow> (pgdb, unit) outcome" where
  "pgPauseJob src jid db =
     requireRow ''pause'' (exec_update (pending_or_scheduled src jid)
       (\<lambda>r. r\<lparr>rState := StatePaused, rUpdatedAt := pgNow db\<rparr>)) db"

definition pgResumeJob :: "source \<Rightarrow> uuid \<Rightarrow> pgdb \<Rightarrow> (pgdb, unit) outcome" where
  "pgResumeJob src jid db =
     requireRow ''resume'' (exec_update (\<lambda>r. rId r = jid \<and> rSource r = src \<and> rState r = StatePaused)
       (\<lambda>r. r\<lparr>rState := (if rRunAt r \<le> pgNow db then StatePending else StateScheduled),
               rUpdatedAt := pgNow db\<rparr>)) db"

definition pgDeleteJob :: "source \<Rightarrow> uuid \<Rightarrow> job_state \<Rightarrow> pgdb \<Rightarrow> (pgdb, unit) outcome" where
  "pgDeleteJob src jid state db =
     requireRow ''delete'' (sql_delete (\<lambda>r. rId r = jid \<and> rSource r = src \<and> rState r = state)) db"

definition pgDeleteAll ::
  "pgStore \<Rightarrow> source \<Rightarrow> string \<Rightarrow> job_state \<Rightarrow> pgdb \<Rightarrow> ((error option \<times> int) \<times> pgdb) option" where
  "pgDeleteAll st src kind state db =
     execBatchLoop st (never_fails (\<lambda>_. delete_batch
       (\<lambda>r. rSource r = src \<and> kindClause kind r \<and> rState r = state) (maintenanceBatch st))) db"

definition pgVacuumDead ::
  "pgEnv \<Rightarrow> pgStore \<Rightarrow> source \<Rightarrow> string \<Rightarrow> duration \<Rightarrow> pgdb \<Rightarrow> ((error option \<times> int) \<times> pgdb) option" where
  "pgVacuumDead env st src kind olderThan db =
     execBatchLoop st (never_fails (\<lambda>_ d. delete_batch
       (\<lambda>r. rSource r = src \<and> kindClause kind r \<and> rState r = StateDead \<and>
            rEnqueuedAt r < pgNow d - make_interval env olderThan) (maintenanceBatch st) d)) db"

definition pgNukeAll :: "source \<Rightarrow> pgdb \<Rightarrow> (pgdb, nukeReport) outcome" where
  "pgNukeAll src db =
     (let (n, db1) = sql_delete (\<lambda>r. rSource r = src) db;
          ofStat = (\<lambda>(k, c). fst k = src);
          ofKey = (\<lambda>(k, exp). fst k = src)
      in (Inr \<lparr>nrJobs = n, nrStats = int (length (filter ofStat (pgStats db1))),
               nrKeys = int (length (filter ofKey (pgKeys db1)))\<rparr>,
          db1\<lparr>pgStats := filter (\<lambda>e. \<not> ofStat e) (pgStats db1),
              pgKeys := filter (\<lambda>e. \<not> ofKey e) (pgKeys db1)\<rparr>))"

end
