(* ===== verification/Pg_Loops.thy ===== *)
theory Pg_Loops
  imports Pg_Store
begin

text \<open>
  What the statements of the PostgreSQL store do to the job table, as a map from
  ids to rows (\<open>tab\<close>), and the batch loops of its maintenance: the locale
  \<open>batched\<close> says what one bounded statement must do, and shows that the loop around
  it returns, handles each matching row once and misses only rows that another
  transaction held during the last batch. Every batched operation of the store
  is an interpretation.
\<close>

section \<open>Statements on the table\<close>

definition tab :: "pgdb \<Rightarrow> uuid \<Rightarrow> pgJob option" where
  "tab db = map_of (pgJobs db)"

definition pg_keyed :: "pgdb \<Rightarrow> bool" where
  "pg_keyed db = (distinct_keys (pgJobs db) \<and> (\<forall>k r. tab db k = Some r \<longrightarrow> rId r = k))"

lemma pg_keyedD:
  "pg_keyed db \<Longrightarrow> distinct_keys (pgJobs db)"
  "pg_keyed db \<Longrightarrow> tab db k = Some r \<Longrightarrow> rId r = k"
  by (auto simp: pg_keyed_def)

lemma in_rows: "pg_keyed db \<Longrightarrow> r \<in> snd ` set (pgJobs db) \<longleftrightarrow> tab db (rId r) = Some r"
proof -
  assume db: "pg_keyed db"
  have set: "tab db k = Some r \<longleftrightarrow> (k, r) \<in> set (pgJobs db)" for k
    unfolding tab_def by (rule map_of_in_set [OF pg_keyedD(1) [OF db], symmetric])
  show ?thesis
  proof
    assume "r \<in> snd ` set (pgJobs db)"
    then obtain k where "tab db k = Some r" unfolding set by auto
    with pg_keyedD(2) [OF db] show "tab db (rId r) = Some r" by auto
  next
    assume "tab db (rId r) = Some r"
    then show "r \<in> snd ` set (pgJobs db)" unfolding set by (rule image_eqI [rotated]) simp
  qed
qed

lemma map_rId: "pg_keyed db \<Longrightarrow> map rId (map snd (pgJobs db)) = map fst (pgJobs db)"
  by (auto simp: pg_keyed_def tab_def)

lemma finite_tab [simp]: "finite {k. \<exists>r. tab db k = Some r \<and> P k r}"
  by (rule finite_subset [of _ "dom (tab db)"]) (auto simp: tab_def finite_dom_map_of)

lemma tab_update:
  "tab (snd (sql_update w f db)) k = map_option (\<lambda>r. if w r then f r else r) (tab db k)"
  by (simp add: sql_update_def tab_def map_of_map_snd)

lemma tab_delete:
  "pg_keyed db \<Longrightarrow> tab (snd (sql_delete w db)) k =
     (case tab db k of None \<Rightarrow> None | Some r \<Rightarrow> if w r then None else Some r)"
  by (simp add: sql_delete_def tab_def pg_keyed_def map_of_filter_keyed Let_def split: option.split)

lemma keyed_update:
  "pg_keyed db \<Longrightarrow> (\<And>r. w r \<Longrightarrow> rId (f r) = rId r) \<Longrightarrow> pg_keyed (snd (sql_update w f db))"
  by (auto simp: pg_keyed_def tab_update) (simp add: sql_update_def comp_def case_prod_unfold)

lemma keyed_delete: "pg_keyed db \<Longrightarrow> pg_keyed (snd (sql_delete w db))"
  by (auto simp: pg_keyed_def tab_delete split: option.splits if_splits)
    (simp add: sql_delete_def Let_def distinct_keys_filter)

lemma pick_props:
  assumes db: "pg_keyed db"
  shows "distinct (map rId (sql_pick w ord locked n db))"
    and "r \<in> set (sql_pick w ord locked n db) \<Longrightarrow> tab db (rId r) = Some r \<and> w r \<and> \<not> locked (rId r)"
    and "length (sql_pick w ord locked n db) \<le> nat n"
    and "length (sql_pick w ord locked n db) < nat n \<Longrightarrow> tab db k = Some r \<Longrightarrow> w r \<Longrightarrow> \<not> locked k \<Longrightarrow>
      r \<in> set (sql_pick w ord locked n db)"
proof -
  let ?W = "filter (\<lambda>r. w r \<and> \<not> locked (rId r)) (map snd (pgJobs db))"
  have "distinct (map rId (map snd (pgJobs db)))" unfolding map_rId [OF db] by (rule pg_keyedD [OF db])
  then have "distinct (map rId ?W)" by (rule distinct_map_filter)
  then have "distinct (map rId (sort_key ord ?W))" by (simp add: distinct_map)
  then show "distinct (map rId (sql_pick w ord locked n db))"
    by (simp add: sql_pick_def take_map [symmetric])
  show "tab db (rId r) = Some r \<and> w r \<and> \<not> locked (rId r)" if "r \<in> set (sql_pick w ord locked n db)"
  proof -
    from that have "r \<in> set ?W" by (auto simp: sql_pick_def dest: in_set_takeD)
    with in_rows [OF db] show ?thesis by auto
  qed
  show "length (sql_pick w ord locked n db) \<le> nat n" by (simp add: sql_pick_def)
  show "r \<in> set (sql_pick w ord locked n db)"
    if "length (sql_pick w ord locked n db) < nat n" "tab db k = Some r" "w r" "\<not> locked k"
  proof -
    from that(1) have "sql_pick w ord locked n db = sort_key ord ?W" by (auto simp: sql_pick_def)
    moreover have "rId r = k" using db that(2) by (rule pg_keyedD)
    then have "r \<in> snd ` set (pgJobs db)" using that(2) in_rows [OF db] by simp
    ultimately show ?thesis using that(3,4) \<open>rId r = k\<close> by auto
  qed
qed

lemma pick_unordered:
  "sql_pick w (\<lambda>_. 0::nat) (\<lambda>_. False) n db = take (nat n) (filter w (map snd (pgJobs db)))"
  by (simp add: sql_pick_def sort_key_const)

text \<open>The ids a statement picks, as a set of keys, are as many as its rows.\<close>

lemma card_picked: "pg_keyed db \<Longrightarrow>
    card (rId ` set (sql_pick w ord locked n db)) = length (sql_pick w ord locked n db)"
  using distinct_card [OF pick_props(1) [of db w ord locked n]] by simp

section \<open>The batch loop\<close>

definition wkeys :: "(pgJob \<Rightarrow> bool) \<Rightarrow> pgdb \<Rightarrow> uuid set" where
  "wkeys w db = {k. \<exists>r. tab db k = Some r \<and> w r}"

lemma finite_wkeys [simp]: "finite (wkeys w db)"
  by (simp add: wkeys_def)

lemma length_matching: "pg_keyed db \<Longrightarrow> length (filter w (map snd (pgJobs db))) = card (wkeys w db)"
proof -
  assume db: "pg_keyed db"
  have "distinct (map rId (filter w (map snd (pgJobs db))))"
    by (rule distinct_map_filter, unfold map_rId [OF db]) (rule pg_keyedD [OF db])
  then have "length (filter w (map snd (pgJobs db))) = card (rId ` set (filter w (map snd (pgJobs db))))"
    using distinct_card by fastforce
  also have "rId ` set (filter w (map snd (pgJobs db))) = wkeys w db"
  proof (rule set_eqI)
    fix k
    have "k \<in> rId ` set (filter w (map snd (pgJobs db))) \<longleftrightarrow> (\<exists>r. tab db (rId r) = Some r \<and> w r \<and> k = rId r)"
      using in_rows [OF db] by auto
    also have "\<dots> \<longleftrightarrow> k \<in> wkeys w db" using pg_keyedD(2) [OF db] by (auto simp: wkeys_def)
    finally show "k \<in> rId ` set (filter w (map snd (pgJobs db))) \<longleftrightarrow> k \<in> wkeys w db" .
  qed
  finally show ?thesis .
qed

text \<open>
  One statement of a batched operation handles a set \<open>ids\<close> of matching rows, at most a
  batch of them, replaces each by \<open>g\<close> (\<open>None\<close> deletes it) and answers their \<open>tally\<close>; a
  short batch is short because the remaining matching rows were locked.
\<close>

locale batched =
  fixes I :: "pgdb \<Rightarrow> bool"
    and w :: "pgJob \<Rightarrow> bool"
    and g :: "pgJob \<Rightarrow> pgJob option"
    and batch :: int
    and locked :: "nat \<Rightarrow> uuid \<Rightarrow> bool"
    and tally :: "(uuid \<Rightarrow> pgJob option) \<Rightarrow> uuid set \<Rightarrow> 'r"
    and cnt :: "'r \<Rightarrow> int"
    and add_up :: "'r \<Rightarrow> 'r \<Rightarrow> 'r"
    and sql :: "nat \<Rightarrow> pgdb \<Rightarrow> (error + 'r) \<times> pgdb"
  assumes batch_pos: "0 < batch"
    and step: "I db \<Longrightarrow> \<exists>ids db'. sql i db = (Inr (tally (tab db) ids), db') \<and> I db' \<and>
      ids \<subseteq> wkeys w db \<and> int (card ids) \<le> batch \<and>
      (int (card ids) < batch \<longrightarrow> {k \<in> wkeys w db. \<not> locked i k} \<subseteq> ids) \<and>
      tab db' = (\<lambda>k. if k \<in> ids then Option.bind (tab db k) g else tab db k)"
    and clears: "w r \<Longrightarrow> g r = Some r' \<Longrightarrow> \<not> w r'"
    and cnt_tally: "cnt (tally m A) = int (card A)"
    and tally_Un: "finite A \<Longrightarrow> finite B \<Longrightarrow> A \<inter> B = {} \<Longrightarrow> add_up (tally m A) (tally m B) = tally m (A \<union> B)"
    and tally_cong: "(\<And>k. k \<in> A \<Longrightarrow> m k = m' k) \<Longrightarrow> tally m A = tally m' A"
begin

lemma loop_from:
  assumes "I db" "finite A" "A \<inter> wkeys w db = {}" "\<And>k. k \<notin> A \<Longrightarrow> tab db k = m k"
  shows "\<exists>S j db'. batch_loop cnt add_up batch sql i (tally m A) db = Some ((None, tally m (A \<union> S)), db') \<and> I db' \<and>
     S \<subseteq> wkeys w db \<and> {k \<in> wkeys w db. \<not> locked j k} \<subseteq> S \<and>
     tab db' = (\<lambda>k. if k \<in> S then Option.bind (tab db k) g else tab db k)"
  using assms
proof (induction "card (wkeys w db)" arbitrary: db A i rule: less_induct)
  case less
  from step [OF less.prems(1), of i] obtain ids db' where st:
    "sql i db = (Inr (tally (tab db) ids), db')" "I db'" "ids \<subseteq> wkeys w db" "int (card ids) \<le> batch"
    "int (card ids) < batch \<longrightarrow> {k \<in> wkeys w db. \<not> locked i k} \<subseteq> ids"
    "tab db' = (\<lambda>k. if k \<in> ids then Option.bind (tab db k) g else tab db k)" by blast
  have fin: "finite ids" using st(3) by (rule finite_subset) simp
  have disj: "A \<inter> ids = {}" using st(3) less.prems(3) by blast
  have "tally (tab db) ids = tally m ids" by (rule tally_cong) (use disj less.prems(4) in blast)
  then have sum: "add_up (tally m A) (tally (tab db) ids) = tally m (A \<union> ids)"
    by (simp add: tally_Un less.prems(2) fin disj)
  show ?case
  proof (cases "int (card ids) < batch")
    case True
    then have "batch_loop cnt add_up batch sql i (tally m A) db = Some ((None, tally m (A \<union> ids)), db')"
      by (subst batch_loop.simps) (simp add: st(1) cnt_tally sum)
    with st True show ?thesis by blast
  next
    case False
    have left: "wkeys w db' = wkeys w db - ids"
      using st(3) clears by (auto simp: wkeys_def st(6) bind_eq_Some_conv split: if_splits)
    have "ids \<noteq> {}" using False batch_pos by auto
    then have "wkeys w db' \<subset> wkeys w db" using left st(3) by blast
    then have smaller: "card (wkeys w db') < card (wkeys w db)" by (simp add: psubset_card_mono)
    have "(A \<union> ids) \<inter> wkeys w db' = {}" using left less.prems(3) by blast
    moreover have "tab db' k = m k" if "k \<notin> A \<union> ids" for k using that less.prems(4) by (simp add: st(6))
    ultimately obtain S j db'' where rec:
      "batch_loop cnt add_up batch sql (Suc i) (tally m (A \<union> ids)) db' = Some ((None, tally m (A \<union> ids \<union> S)), db'')"
      "I db''" "S \<subseteq> wkeys w db'" "{k \<in> wkeys w db'. \<not> locked j k} \<subseteq> S"
      "tab db'' = (\<lambda>k. if k \<in> S then Option.bind (tab db' k) g else tab db' k)"
      using less.hyps [OF smaller st(2), of "A \<union> ids" "Suc i"] less.prems(2) fin by blast
    have "batch_loop cnt add_up batch sql i (tally m A) db = Some ((None, tally m (A \<union> (ids \<union> S))), db'')"
      using rec(1) False by (subst batch_loop.simps) (simp add: st(1) cnt_tally sum Un_assoc)
    moreover have "tab db'' = (\<lambda>k. if k \<in> ids \<union> S then Option.bind (tab db k) g else tab db k)"
      using rec(3) left by (auto simp: rec(5) st(6) fun_eq_iff)
    ultimately show ?thesis using rec(2-4) left st(3) by blast
  qed
qed

lemma loop_returns:
  assumes "I db"
  obtains S j db' where "batch_loop cnt add_up batch sql 0 (tally (tab db) {}) db = Some ((None, tally (tab db) S), db')"
    "I db'" "S \<subseteq> wkeys w db" "{k \<in> wkeys w db. \<not> locked j k} \<subseteq> S"
    "tab db' = (\<lambda>k. if k \<in> S then Option.bind (tab db k) g else tab db k)"
  using loop_from [OF assms, of "{}" "tab db" 0] by auto

end

section \<open>The batched operations\<close>

text \<open>Every store comes out of \<open>finishInit\<close>, so its batch size is positive.\<close>

lemma finishInit_pos: "0 < maintenanceBatch (finishInit st)" "0 < statsSlots (finishInit st)"
  by (simp_all add: finishInit_def Let_def defaultMaintenanceBatch_def defaultStatsSlots_def)

text \<open>What a maintenance statement leaves alone, beside the table's keys.\<close>

definition pg_frame :: "pgdb \<Rightarrow> time \<times> nat \<times> ((uuid \<times> eventRecord) list \<times> (subKey \<times> subRecord) list) \<times> (idemKey \<times> time) list" where
  "pg_frame db = (pgNow db, pgTokens db, (pgEvents db, pgSubscribers db), pgKeys db)"

lemma frame_sql [simp]:
  "pg_frame (snd (sql_update w f db)) = pg_frame db"
  "pg_frame (snd (sql_delete w db)) = pg_frame db"
  "pg_frame (insert_attempt jid a e db) = pg_frame db"
  "pg_frame (pgBumpStat env st src kind field n db) = pg_frame db"
  "pg_frame (notifyAfterCommit src kind db) = pg_frame db"
  by (simp_all add: pg_frame_def sql_update_def sql_delete_def insert_attempt_def pgBumpStat_def
      notifyAfterCommit_def Let_def)

lemma jobs_effects [simp]:
  "pgJobs (insert_attempt jid a e db) = pgJobs db"
  "pgJobs (pgBumpStat env st src kind field n db) = pgJobs db"
  "pgJobs (notifyAfterCommit src kind db) = pgJobs db"
  by (simp_all add: insert_attempt_def pgBumpStat_def notifyAfterCommit_def Let_def)

lemma tab_effects [simp]:
  "tab (insert_attempt jid a e db) = tab db"
  "tab (pgBumpStat env st src kind field n db) = tab db"
  "tab (notifyAfterCommit src kind db) = tab db"
  by (simp_all add: tab_def)

lemma keyed_cong: "pgJobs db' = pgJobs db \<Longrightarrow> pg_keyed db' = pg_keyed db"
  by (simp add: pg_keyed_def tab_def)

definition kept_frame :: "time \<times> nat \<times> ((uuid \<times> eventRecord) list \<times> (subKey \<times> subRecord) list) \<times> (idemKey \<times> time) list \<Rightarrow> pgdb \<Rightarrow> bool" where
  "kept_frame fr db = (pg_keyed db \<and> pg_frame db = fr)"

lemma pgNow_frame: "pg_frame db = (now, rest) \<Longrightarrow> pgNow db = now"
  by (auto simp: pg_frame_def)

text \<open>A statement over the picked ids touches the picked rows and no other.\<close>

lemma picked_step:
  assumes db: "pg_keyed db" and ids_def: "ids = rId ` set (sql_pick w ord L n db)"
  shows "ids \<subseteq> wkeys w db" and "0 < n \<Longrightarrow> int (card ids) \<le> n"
    and "int (card ids) < n \<Longrightarrow> {k \<in> wkeys w db. \<not> L k} \<subseteq> ids"
    and "tab db k = Some r \<Longrightarrow> rId r \<in> ids \<longleftrightarrow> k \<in> ids"
proof -
  note P = pick_props [OF db, where w = w and ord = ord and locked = L and n = n]
  show "ids \<subseteq> wkeys w db" using P(2) by (auto simp: ids_def wkeys_def)
  show "int (card ids) \<le> n" if "0 < n" using P(3) that by (simp add: ids_def card_picked [OF db])
  show "{k \<in> wkeys w db. \<not> L k} \<subseteq> ids" if "int (card ids) < n"
  proof
    fix k assume "k \<in> {k \<in> wkeys w db. \<not> L k}"
    then obtain r where r: "tab db k = Some r" "w r" "\<not> L k" by (auto simp: wkeys_def)
    from that have "length (sql_pick w ord L n db) < nat n" by (simp add: ids_def card_picked [OF db])
    from P(4) [OF this r] pg_keyedD(2) [OF db r(1)] show "k \<in> ids" by (auto simp: ids_def)
  qed
  show "rId r \<in> ids \<longleftrightarrow> k \<in> ids" if "tab db k = Some r" using pg_keyedD(2) [OF db that] by simp
qed

lemma exec_update_eq: "exec_update w f db = (int (length (filter w (map snd (pgJobs db)))), snd (sql_update w f db))"
  by (simp add: exec_update_def sql_update_def)

lemma update_step:
  assumes db: "pg_keyed db" and rid: "\<And>r. rId (f r) = rId r" and ids: "ids \<subseteq> wkeys w db"
  shows "exec_update (\<lambda>r. rId r \<in> ids) f db = (int (card ids), snd (sql_update (\<lambda>r. rId r \<in> ids) f db))"
    and "pg_keyed (snd (sql_update (\<lambda>r. rId r \<in> ids) f db))"
    and "tab (snd (sql_update (\<lambda>r. rId r \<in> ids) f db)) =
      (\<lambda>k. if k \<in> ids then Option.bind (tab db k) (Some \<circ> f) else tab db k)"
proof -
  have "wkeys (\<lambda>r. rId r \<in> ids) db = ids"
    using ids pg_keyedD(2) [OF db] by (auto simp: wkeys_def)
  then show "exec_update (\<lambda>r. rId r \<in> ids) f db = (int (card ids), snd (sql_update (\<lambda>r. rId r \<in> ids) f db))"
    using length_matching [OF db, of "\<lambda>r. rId r \<in> ids"] by (simp add: exec_update_eq)
  show "pg_keyed (snd (sql_update (\<lambda>r. rId r \<in> ids) f db))" by (rule keyed_update [OF db]) (rule rid)
  show "tab (snd (sql_update (\<lambda>r. rId r \<in> ids) f db)) =
      (\<lambda>k. if k \<in> ids then Option.bind (tab db k) (Some \<circ> f) else tab db k)"
    using pg_keyedD(2) [OF db] by (auto simp: tab_update fun_eq_iff split: option.split bind_splits)
qed

lemma delete_step:
  assumes db: "pg_keyed db" and ids: "ids \<subseteq> wkeys w db"
  shows "fst (sql_delete (\<lambda>r. rId r \<in> ids) db) = int (card ids)"
    and "tab (snd (sql_delete (\<lambda>r. rId r \<in> ids) db)) =
      (\<lambda>k. if k \<in> ids then Option.bind (tab db k) (\<lambda>_. None) else tab db k)"
proof -
  have "wkeys (\<lambda>r. rId r \<in> ids) db = ids"
    using ids pg_keyedD(2) [OF db] by (auto simp: wkeys_def)
  then show "fst (sql_delete (\<lambda>r. rId r \<in> ids) db) = int (card ids)"
    using length_matching [OF db, of "\<lambda>r. rId r \<in> ids"] by (simp add: sql_delete_def Let_def)
  show "tab (snd (sql_delete (\<lambda>r. rId r \<in> ids) db)) =
      (\<lambda>k. if k \<in> ids then Option.bind (tab db k) (\<lambda>_. None) else tab db k)"
    using pg_keyedD(2) [OF db] by (auto simp: tab_delete [OF db] fun_eq_iff split: option.split)
qed

abbreviation card_tally :: "(uuid \<Rightarrow> pgJob option) \<Rightarrow> uuid set \<Rightarrow> int" where
  "card_tally m A \<equiv> int (card A)"

interpretation pgprom: batched "kept_frame (now, fr)" "pg_promotable src kinds now"
    "Some \<circ> (\<lambda>r. r\<lparr>rState := StatePending, rUpdatedAt := now\<rparr>)" "maintenanceBatch (finishInit st)" L
    card_tally "\<lambda>n. n" "(+)"
    "never_fails (\<lambda>i. promoteDueSQL src kinds (maintenanceBatch (finishInit st)) (L i))"
  for now fr src kinds st L
proof (unfold_locales, goal_cases)
  case (2 db i)
  let ?b = "maintenanceBatch (finishInit st)"
  let ?f = "\<lambda>r. r\<lparr>rState := StatePending, rUpdatedAt := now\<rparr>"
  let ?w = "pg_promotable src kinds now"
  let ?ids = "rId ` set (sql_pick ?w (\<lambda>r. (rRunAt r, rId r)) (L i) ?b db)"
  from 2 have db: "pg_keyed db" and fr: "pg_frame db = (now, fr)" by (auto simp: kept_frame_def)
  have rid: "rId (?f r) = rId r" for r by simp
  note P = picked_step [OF db refl [of ?ids]]
  note U = update_step [OF db rid P(1)]
  have "never_fails (\<lambda>i. promoteDueSQL src kinds ?b (L i)) i db =
      (Inr (int (card ?ids)), snd (sql_update (\<lambda>r. rId r \<in> ?ids) ?f db))"
    using U(1) by (simp add: never_fails_def promoteDueSQL_def Let_def pgNow_frame [OF fr])
  with U(2,3) P(1-3) finishInit_pos(1) [of st] fr show ?case by (auto simp: kept_frame_def)
qed (auto simp: finishInit_pos pg_promotable_def card_Un_disjoint)

lemma collectReap_counts: "snd (collectReap rows) = (int (length rows), int (length (filter snd rows)))"
proof -
  have "snd (fold (\<lambda>(kind, died) (perKind, reaped, killed).
             (AList.update kind (the_default 0 (map_of perKind kind) + 1) perKind, reaped + 1,
              if died then killed + 1 else killed)) rows st) =
      (fst (snd st) + int (length rows), snd (snd st) + int (length (filter snd rows)))" for st :: "(string \<times> int) list \<times> int \<times> int"
    by (induction rows arbitrary: st) (auto simp: case_prod_unfold)
  then show ?thesis by (simp add: collectReap_def)
qed

lemma fold_keeps_jobs:
  assumes "\<And>x db. pgJobs (f x db) = pgJobs db" "\<And>x db. pg_frame (f x db) = pg_frame db"
  shows "pgJobs (fold f xs db) = pgJobs db" and "pg_frame (fold f xs db) = pg_frame db"
  by (rule fold_frame, rule assms)+

definition reap_tally :: "int \<Rightarrow> (uuid \<Rightarrow> pgJob option) \<Rightarrow> uuid set \<Rightarrow> int \<times> int" where
  "reap_tally maxReaps m A =
     (int (card A), int (card {k \<in> A. \<exists>r. m k = Some r \<and> rReapCount r + 1 \<ge> maxReaps}))"

lemma reap_tally_Un:
  assumes "finite A" "finite B" "A \<inter> B = {}"
  shows "(\<lambda>(a, b) (c, d). (a + c, b + d)) (reap_tally mr m A) (reap_tally mr m B) = reap_tally mr m (A \<union> B)"
proof -
  let ?d = "\<lambda>S. {k \<in> S. \<exists>r. m k = Some r \<and> rReapCount r + 1 \<ge> mr}"
  have "?d (A \<union> B) = ?d A \<union> ?d B" "?d A \<inter> ?d B = {}" using assms(3) by auto
  then have "card (?d (A \<union> B)) = card (?d A) + card (?d B)" by (simp add: card_Un_disjoint assms(1,2))
  then show ?thesis by (simp add: reap_tally_def card_Un_disjoint assms)
qed

lemma reapSet_fields [simp]:
  "rId (reapSet mr now r) = rId r" "rKind (reapSet mr now r) = rKind r"
  "rState (reapSet mr now r) = (if rReapCount r + 1 \<ge> mr then StateDead else StatePending)"
  by (simp_all add: reapSet_def unleased_def Let_def)

text \<open>One batch of the reaper, on the rows the CTE locked.\<close>

lemma reap_batch:
  assumes db: "pg_keyed db" and fr: "pg_frame db = (now, fr)"
    and ids: "ids = rId ` set (sql_pick (pg_expired src kinds now) (\<lambda>r. timeOf (rLeaseUntil r)) L
                (maintenanceBatch st) db)"
  obtains db' where "reapExpiredBatch env st src kinds mr L db = (reap_tally mr (tab db) ids, db')"
    "pg_keyed db'" "pg_frame db' = (now, fr)"
    "tab db' = (\<lambda>k. if k \<in> ids then Option.bind (tab db k) (Some \<circ> reapSet mr now) else tab db k)"
proof -
  let ?P = "sql_pick (pg_expired src kinds now) (\<lambda>r. timeOf (rLeaseUntil r)) L (maintenanceBatch st) db"
  let ?e = "(\<lambda>r. (rId r, rLeaseToken r)) ` set ?P"
  let ?w = "\<lambda>r. (rId r, rLeaseToken r) \<in> ?e \<and> rState r = StateActive"
  let ?f = "reapSet mr now"
  note P = picked_step [OF db ids]
  have now: "pgNow db = now" using fr by (rule pgNow_frame)
  have sel: "?w r \<longleftrightarrow> k \<in> ids" if r: "tab db k = Some r" for k r
  proof
    assume "k \<in> ids"
    then obtain r' where r': "r' \<in> set ?P" "k = rId r'" by (auto simp: ids)
    with pick_props(2) [OF db r'(1)] r have "r' = r" "rState r = StateActive" by (auto simp: pg_expired_def)
    with r' show "?w r" by auto
  next
    assume "?w r"
    then have "rId r \<in> ids" by (auto simp: ids)
    with P(4) [OF r] show "k \<in> ids" by simp
  qed
  have wk: "wkeys (\<lambda>r. ?w r \<and> Q r) db = {k \<in> ids. \<exists>r. tab db k = Some r \<and> Q r}" for Q
    using sel by (auto simp: wkeys_def)
  have "ids \<subseteq> dom (tab db)" using P(1) by (auto simp: wkeys_def)
  then have "{k \<in> ids. \<exists>r. tab db k = Some r} = ids" by auto
  with wk [of "\<lambda>_. True"] have n1: "length (filter ?w (map snd (pgJobs db))) = card ids"
    using length_matching [OF db, of ?w] by simp
  have n2: "length (filter (\<lambda>r. ?w r \<and> rReapCount r + 1 \<ge> mr) (map snd (pgJobs db))) =
      card {k \<in> ids. \<exists>r. tab db k = Some r \<and> rReapCount r + 1 \<ge> mr}"
    unfolding wk [symmetric] by (rule length_matching [OF db])
  let ?upd = "map ?f (filter ?w (map snd (pgJobs db)))"
  let ?rows = "map (\<lambda>r. (rKind r, rState r = StateDead)) ?upd"
  let ?db1 = "snd (sql_update ?w ?f db)"
  let ?db2 = "fold (\<lambda>r. insert_attempt (rId r) (rAttempt r) (the_default [] (rLastError r)))
                (filter (\<lambda>r. rState r = StateDead) ?upd) ?db1"
  let ?db3 = "fold (\<lambda>kind. pgBumpStat env st src kind statReaped
                (the_default 0 (map_of (fst (collectReap ?rows)) kind))) (sort (map fst (fst (collectReap ?rows)))) ?db2"
  have "reapExpiredSQL src kinds mr (maintenanceBatch st) L db = (?rows, ?db2)"
    by (simp add: reapExpiredSQL_def Let_def now sql_update_def)
  then have run: "reapExpiredBatch env st src kinds mr L db = (snd (collectReap ?rows), ?db3)"
    by (simp add: reapExpiredBatch_def Let_def case_prod_unfold del: map_map)
  have "snd (collectReap ?rows) = reap_tally mr (tab db) ids"
    unfolding collectReap_counts reap_tally_def n1 [symmetric] n2 [symmetric]
    by (auto simp: filter_map comp_def intro!: arg_cong [where f = length] filter_cong)
  moreover have j3: "pgJobs ?db3 = pgJobs ?db1" "pg_frame ?db3 = pg_frame ?db1"
    by (simp_all add: fold_keeps_jobs)
  have k3: "pg_keyed ?db3" unfolding keyed_cong [OF j3(1)] by (rule keyed_update [OF db]) simp
  have f3: "pg_frame ?db3 = (now, fr)" unfolding j3(2) by (simp add: fr)
  have "tab ?db3 = tab ?db1" using j3(1) by (simp add: tab_def)
  then have "tab ?db3 = (\<lambda>k. if k \<in> ids then Option.bind (tab db k) (Some \<circ> ?f) else tab db k)"
    using sel by (auto simp: tab_update fun_eq_iff split: option.split bind_splits)
  with run calculation k3 f3 show thesis by (intro that [of ?db3]) auto
qed

interpretation pgreap: batched "kept_frame (now, fr)" "pg_expired src kinds now" "Some \<circ> reapSet mr now"
    "maintenanceBatch (finishInit st)" L "reap_tally mr" fst "\<lambda>(a, b) (c, d). (a + c, b + d)"
    "never_fails (\<lambda>i. reapExpiredBatch env (finishInit st) src kinds mr (L i))"
  for now fr src kinds mr env st L
proof (unfold_locales, goal_cases)
  case (2 db i)
  let ?ids = "rId ` set (sql_pick (pg_expired src kinds now) (\<lambda>r. timeOf (rLeaseUntil r)) (L i)
                (maintenanceBatch (finishInit st)) db)"
  from 2 have db: "pg_keyed db" and fr: "pg_frame db = (now, fr)" by (auto simp: kept_frame_def)
  note P = picked_step [OF db refl [of ?ids]]
  obtain db' where "reapExpiredBatch env (finishInit st) src kinds mr (L i) db = (reap_tally mr (tab db) ?ids, db')"
    "pg_keyed db'" "pg_frame db' = (now, fr)"
    "tab db' = (\<lambda>k. if k \<in> ?ids then Option.bind (tab db k) (Some \<circ> reapSet mr now) else tab db k)"
    by (rule reap_batch [OF db fr refl])
  with P(1-3) finishInit_pos(1) [of st] show ?case
    by (intro exI [of _ ?ids] exI [of _ db']) (auto simp: never_fails_def kept_frame_def)
next
  case (6 A m m')
  then have "{k \<in> A. \<exists>r. m k = Some r \<and> rReapCount r + 1 \<ge> mr} = {k \<in> A. \<exists>r. m' k = Some r \<and> rReapCount r + 1 \<ge> mr}"
    by auto
  then show ?case by (simp add: reap_tally_def)
qed (simp_all add: finishInit_pos pg_expired_def reap_tally_Un, auto simp: reap_tally_def split: if_splits)

interpretation pgdel: batched "kept_frame (now, fr)" "w now" "\<lambda>_. None" "maintenanceBatch (finishInit st)"
    "\<lambda>_ _. False" card_tally "\<lambda>n. n" "(+)"
    "never_fails (\<lambda>_ d. delete_batch (w (pgNow d)) (maintenanceBatch (finishInit st)) d)"
  for now fr w st
proof (unfold_locales, goal_cases)
  case (2 db i)
  let ?b = "maintenanceBatch (finishInit st)"
  let ?ids = "rId ` set (sql_pick (w now) (\<lambda>_. 0::nat) (\<lambda>_. False) ?b db)"
  from 2 have db: "pg_keyed db" and fr: "pg_frame db = (now, fr)" by (auto simp: kept_frame_def)
  note P = picked_step [OF db refl [of ?ids]]
  note D = delete_step [OF db P(1)]
  have "delete_batch (w (pgNow db)) ?b db = sql_delete (\<lambda>r. rId r \<in> ?ids) db"
    by (simp add: delete_batch_def Let_def pgNow_frame [OF fr] pick_unordered)
  with D(1) have "never_fails (\<lambda>_ d. delete_batch (w (pgNow d)) ?b d) i db =
      (Inr (int (card ?ids)), snd (sql_delete (\<lambda>r. rId r \<in> ?ids) db))"
    by (simp add: never_fails_def case_prod_unfold)
  with D(2) P(1-3) finishInit_pos(1) [of st] fr keyed_delete [OF db] show ?case
    by (intro exI [of _ ?ids]) (auto simp: kept_frame_def)
qed (auto simp: finishInit_pos card_Un_disjoint)

text \<open>The three loops, with nothing held by another transaction: exactly the matching rows.\<close>

lemma pgPromoteDue_result:
  assumes db: "pg_keyed db" and ne: "kinds \<noteq> []"
  obtains S j db' where "pgPromoteDue (finishInit st) L src kinds db = Some ((None, int (card S)), db')"
    "pg_keyed db'" "pg_frame db' = pg_frame db" "S \<subseteq> wkeys (pg_promotable src kinds (pgNow db)) db"
    "{k \<in> wkeys (pg_promotable src kinds (pgNow db)) db. \<not> L j k} \<subseteq> S"
    "tab db' = (\<lambda>k. map_option (\<lambda>r. if k \<in> S then r\<lparr>rState := StatePending, rUpdatedAt := pgNow db\<rparr> else r) (tab db k))"
proof -
  let ?fr = "(pgTokens db, (pgEvents db, pgSubscribers db), pgKeys db)"
  have "kept_frame (pgNow db, ?fr) db" using db by (simp add: kept_frame_def pg_frame_def)
  then obtain S j db' where R:
    "batch_loop (\<lambda>n. n) (+) (maintenanceBatch (finishInit st))
       (never_fails (\<lambda>i. promoteDueSQL src kinds (maintenanceBatch (finishInit st)) (L i))) 0 (int (card ({} :: uuid set))) db
       = Some ((None, int (card S)), db')" "kept_frame (pgNow db, ?fr) db'"
    "S \<subseteq> wkeys (pg_promotable src kinds (pgNow db)) db"
    "{k \<in> wkeys (pg_promotable src kinds (pgNow db)) db. \<not> L j k} \<subseteq> S"
    "tab db' = (\<lambda>k. if k \<in> S then Option.bind (tab db k) (Some \<circ> (\<lambda>r. r\<lparr>rState := StatePending, rUpdatedAt := pgNow db\<rparr>))
       else tab db k)"
    by (rule pgprom.loop_returns [where st = st and src = src and kinds = kinds and L = L])
  from R(1) ne have ret: "pgPromoteDue (finishInit st) L src kinds db = Some ((None, int (card S)), db')"
    by (simp add: pgPromoteDue_def)
  show thesis
    by (rule that [OF ret _ _ R(3,4)]) (use R(2) in \<open>auto simp: kept_frame_def pg_frame_def R(5) fun_eq_iff
        split: option.split bind_splits\<close>)
qed

lemma pgReapExpired_result:
  assumes db: "pg_keyed db" and ne: "kinds \<noteq> []"
  obtains S j db' where "pgReapExpired env (finishInit st) L src kinds mr db = Some ((None, reap_tally mr (tab db) S), db')"
    "pg_keyed db'" "pg_frame db' = pg_frame db" "S \<subseteq> wkeys (pg_expired src kinds (pgNow db)) db"
    "{k \<in> wkeys (pg_expired src kinds (pgNow db)) db. \<not> L j k} \<subseteq> S"
    "tab db' = (\<lambda>k. map_option (\<lambda>r. if k \<in> S then reapSet mr (pgNow db) r else r) (tab db k))"
proof -
  let ?fr = "(pgTokens db, (pgEvents db, pgSubscribers db), pgKeys db)"
  have "kept_frame (pgNow db, ?fr) db" using db by (simp add: kept_frame_def pg_frame_def)
  then obtain S j db' where R:
    "batch_loop fst (\<lambda>(a, b) (c, d). (a + c, b + d)) (maintenanceBatch (finishInit st))
       (never_fails (\<lambda>i. reapExpiredBatch env (finishInit st) src kinds mr (L i))) 0 (reap_tally mr (tab db) {}) db
       = Some ((None, reap_tally mr (tab db) S), db')"
    "kept_frame (pgNow db, ?fr) db'"
    "S \<subseteq> wkeys (pg_expired src kinds (pgNow db)) db"
    "{k \<in> wkeys (pg_expired src kinds (pgNow db)) db. \<not> L j k} \<subseteq> S"
    "tab db' = (\<lambda>k. if k \<in> S then Option.bind (tab db k) (Some \<circ> reapSet mr (pgNow db)) else tab db k)"
    by (rule pgreap.loop_returns [where st = st and src = src and kinds = kinds and L = L and mr = mr and env = env])
  from R(1) ne have ret: "pgReapExpired env (finishInit st) L src kinds mr db = Some ((None, reap_tally mr (tab db) S), db')"
    by (simp add: pgReapExpired_def reap_tally_def)
  show thesis
    by (rule that [OF ret _ _ R(3,4)]) (use R(2) in \<open>auto simp: kept_frame_def pg_frame_def R(5) fun_eq_iff
        split: option.split bind_splits\<close>)
qed

lemma pg_delete_loop_result:
  assumes db: "pg_keyed db"
  obtains db' where "execBatchLoop (finishInit st)
      (never_fails (\<lambda>_ d. delete_batch (w (pgNow d)) (maintenanceBatch (finishInit st)) d)) db =
      Some ((None, int (card (wkeys (w (pgNow db)) db))), db')"
    "pg_keyed db'" "pg_frame db' = pg_frame db"
    "tab db' = (\<lambda>k. case tab db k of None \<Rightarrow> None | Some r \<Rightarrow> if w (pgNow db) r then None else Some r)"
proof -
  let ?fr = "(pgTokens db, (pgEvents db, pgSubscribers db), pgKeys db)"
  have "kept_frame (pgNow db, ?fr) db" using db by (simp add: kept_frame_def pg_frame_def)
  then obtain S j db' where R:
    "batch_loop (\<lambda>n. n) (+) (maintenanceBatch (finishInit st))
      (never_fails (\<lambda>_ d. delete_batch (w (pgNow d)) (maintenanceBatch (finishInit st)) d)) 0 (int (card ({} :: uuid set))) db =
      Some ((None, int (card S)), db')"
    "kept_frame (pgNow db, ?fr) db'" "S \<subseteq> wkeys (w (pgNow db)) db"
    "{k \<in> wkeys (w (pgNow db)) db. \<not> False} \<subseteq> S"
    "tab db' = (\<lambda>k. if k \<in> S then Option.bind (tab db k) (\<lambda>_. None) else tab db k)"
    by (rule pgdel.loop_returns [where st = st and w = w])
  from R(3,4) have S: "S = wkeys (w (pgNow db)) db" by auto
  from R(1) S have ret: "execBatchLoop (finishInit st)
      (never_fails (\<lambda>_ d. delete_batch (w (pgNow d)) (maintenanceBatch (finishInit st)) d)) db =
      Some ((None, int (card (wkeys (w (pgNow db)) db))), db')"
    by (simp add: execBatchLoop_def)
  show thesis
    by (rule that [OF ret]) (use R(2) in \<open>auto simp: kept_frame_def pg_frame_def R(5) S wkeys_def fun_eq_iff
        split: option.split\<close>)
qed

end
