(* ===== verification/Pg_Contract.thy ===== *)
theory Pg_Contract
  imports Pg_Loops
begin

text \<open>
  The PostgreSQL store keeps the settlement contract. Its rows are read as jobs
  through \<open>scannedJob.toJob\<close>; the contract holds for the durations the server keeps
  exactly, which include the whole seconds (\<open>exact_env\<close>).
\<close>

section \<open>What the rows keep\<close>

definition whole :: "duration \<Rightarrow> bool" where
  "whole d = (nsPerSecond dvd d)"

definition exact_env :: "pgEnv \<Rightarrow> bool" where
  "exact_env env = (\<forall>d. whole d \<longrightarrow> make_interval env d = d \<and> stored_seconds env d = d)"

lemma exact_envD:
  "exact_env env \<Longrightarrow> whole d \<Longrightarrow> make_interval env d = d"
  "exact_env env \<Longrightarrow> whole d \<Longrightarrow> stored_seconds env d = d"
  "exact_env env \<Longrightarrow> stored_seconds env 0 = 0" "exact_env env \<Longrightarrow> make_interval env 0 = 0"
  by (simp_all add: exact_env_def whole_def)

text \<open>
  A row has a lease token and a lease end exactly while it is active; a stamped
  deadline is an instant, a budget a positive number of whole seconds, a succeeded row
  has its completion time, only a delivery has an event, a nullable id or key is never
  the nil id or the empty key.
\<close>

definition row_ok :: "pgJob \<Rightarrow> bool" where
  "row_ok r =
     ((rLeaseToken r \<noteq> None \<longleftrightarrow> rState r = StateActive) \<and> (rLeaseUntil r \<noteq> None \<longleftrightarrow> rState r = StateActive) \<and>
      rDeadlineAt r \<noteq> Some zero_time \<and>
      (case rSnoozeBudget r of None \<Rightarrow> True | Some b \<Rightarrow> 0 < b \<and> whole b) \<and>
      (rState r = StateSucceeded \<longrightarrow> rCompletedAt r \<noteq> None) \<and> (rEventId r \<noteq> None \<longrightarrow> rSource r = SourceEvent) \<and>
      rDagId r \<noteq> Some Nil_uuid \<and> rRunId r \<noteq> Some Nil_uuid \<and> rIdempotencyKey r \<noteq> Some [] \<and> rCoalesceKey r \<noteq> Some [])"

definition pg_wf :: "pgEnv \<Rightarrow> pgdb \<Rightarrow> bool" where
  "pg_wf env db = (exact_env env \<and> pg_keyed db \<and> 0 < pgNow db \<and> (\<forall>k r. tab db k = Some r \<longrightarrow> row_ok r))"

lemma pg_wfD:
  "pg_wf env db \<Longrightarrow> exact_env env" "pg_wf env db \<Longrightarrow> pg_keyed db" "pg_wf env db \<Longrightarrow> 0 < pgNow db"
  "pg_wf env db \<Longrightarrow> tab db k = Some r \<Longrightarrow> row_ok r" "pg_wf env db \<Longrightarrow> tab db k = Some r \<Longrightarrow> rId r = k"
  by (auto simp: pg_wf_def dest: pg_keyedD)

lemma rows_unleased [simp]:
  "rId (unleased r) = rId r" "rState (unleased r) = rState r" "rLeaseUntil (unleased r) = None"
  "rLeaseToken (unleased r) = None" "rDeadlineAt (unleased r) = rDeadlineAt r" "rSource (unleased r) = rSource r"
  "rSnoozeBudget (unleased r) = rSnoozeBudget r" "rCompletedAt (unleased r) = rCompletedAt r"
  "rDagId (unleased r) = rDagId r" "rRunId (unleased r) = rRunId r" "rEventId (unleased r) = rEventId r"
  "rIdempotencyKey (unleased r) = rIdempotencyKey r" "rCoalesceKey (unleased r) = rCoalesceKey r"
  "rMaxAttemptsExplicit (unleased r) = rMaxAttemptsExplicit r"
  by (simp_all add: unleased_def)

section \<open>The transitions on rows are the contract's transitions on jobs\<close>

lemma pgToJob_wire:
  "pgToJob env (ackSQL now r) = wire_ack now (pgToJob env r)"
  "pgToJob env (deadSQL err now r) = wire_dead err now (pgToJob env r)"
  "pgToJob env (skipSQL err now r) = wire_skip err now (pgToJob env r)"
  "pgToJob env (releaseSQL now r) = wire_release now (pgToJob env r)"
  "exact_env env \<Longrightarrow> whole delay \<Longrightarrow>
     pgToJob env (rescheduleSQL env delay err now r) = wire_reschedule delay err now (pgToJob env r)"
  "exact_env env \<Longrightarrow> whole lease \<Longrightarrow>
     pgToJob env (extendLeaseSQL env lease now r) = wire_extend lease now (pgToJob env r)"
  by (simp_all add: pgToJob_def wire_defs ackSQL_def deadSQL_def skipSQL_def releaseSQL_def rescheduleSQL_def
      extendLeaseSQL_def unleased_def timeOf_def toUUID_def exact_envD)

lemma deadlined_row: "row_ok r \<Longrightarrow> deadlined now (pgToJob env r) \<longleftrightarrow> past_deadline now r"
  by (auto simp: row_ok_def deadlined_def past_deadline_def pgToJob_def timeOf_def split: option.splits)

lemma pgToJob_snooze:
  assumes "exact_env env" "whole delay" "row_ok r"
  shows "pgToJob env (snoozeSQL env delay err now r) = wire_snooze delay err now (pgToJob env r)"
proof -
  have b: "rSnoozeBudget r = Some b \<Longrightarrow> 0 < b \<and> stored_seconds env b = b \<and> make_interval env b = b" for b
    using assms by (auto simp: row_ok_def exact_envD)
  have d: "rDeadlineAt r = Some t \<Longrightarrow> t \<noteq> zero_time" for t using assms(3) by (auto simp: row_ok_def)
  show ?thesis
  proof (cases "past_deadline now r")
    case True
    then show ?thesis unfolding wire_snooze_def deadlined_row [OF assms(3)]
      by (auto simp: pgToJob_def wire_dead_def snoozeSQL_def unleased_def timeOf_def toUUID_def past_deadline_def
          split: option.splits)
  next
    case False
    then show ?thesis unfolding wire_snooze_def deadlined_row [OF assms(3)]
      using b d by (cases "rDeadlineAt r"; cases "rSnoozeBudget r")
        (auto simp: pgToJob_def snoozeSQL_def unleased_def timeOf_def toUUID_def exact_envD assms(1,2))
  qed
qed

lemma row_ok_settled:
  assumes "row_ok r"
  shows "row_ok (ackSQL now r)" "row_ok (deadSQL err now r)" "row_ok (skipSQL err now r)" "row_ok (releaseSQL now r)"
    "row_ok (rescheduleSQL env delay err now r)"
    "exact_env env \<Longrightarrow> 0 < now \<Longrightarrow> row_ok (snoozeSQL env delay err now r)"
    "rState r = StateActive \<Longrightarrow> row_ok (extendLeaseSQL env lease now r)"
  using assms by (auto simp: row_ok_def ackSQL_def deadSQL_def skipSQL_def releaseSQL_def rescheduleSQL_def
      snoozeSQL_def extendLeaseSQL_def Let_def exact_envD split: option.splits)

section \<open>The fenced statements\<close>

text \<open>A statement on one id finds the row of that id, or no row and changes nothing.\<close>

lemma one_row:
  assumes db: "pg_keyed db" and key: "\<And>r. w r \<Longrightarrow> rId r = jid"
  shows "filter w (map snd (pgJobs db)) = (case tab db jid of None \<Rightarrow> [] | Some r \<Rightarrow> if w r then [r] else [])"
proof -
  let ?F = "filter w (map snd (pgJobs db))"
  have "distinct (map rId (map snd (pgJobs db)))" unfolding map_rId [OF db] by (rule pg_keyedD [OF db])
  then have "distinct (map snd (pgJobs db))" by (simp only: distinct_map)
  then have d: "distinct ?F" by (rule distinct_filter)
  have mem: "r \<in> set ?F \<longleftrightarrow> tab db jid = Some r \<and> w r" for r
  proof -
    have "r \<in> set ?F \<longleftrightarrow> tab db (rId r) = Some r \<and> w r" by (simp add: in_rows [OF db, symmetric])
    also have "\<dots> \<longleftrightarrow> tab db jid = Some r \<and> w r" using pg_keyedD(2) [OF db, of jid r] by (metis key)
    finally show ?thesis .
  qed
  then have one: "x = y" if "x \<in> set ?F" "y \<in> set ?F" for x y using that by (metis option.inject)
  show ?thesis
  proof (cases ?F)
    case Nil
    then show ?thesis using mem by (auto split: option.splits)
  next
    case (Cons r rs)
    then have "rs = []" using one d by (cases rs) (metis distinct.simps(2) list.set_intros(1,2))+
    moreover from Cons mem have "tab db jid = Some r" "w r" by (auto simp del: set_filter)
    ultimately show ?thesis using Cons by simp
  qed
qed

lemma row_miss:
  assumes "pg_keyed db" "\<And>r. w r \<Longrightarrow> rId r = jid" "\<And>r. tab db jid = Some r \<Longrightarrow> \<not> w r"
  shows "sql_update w f db = ([], db)" and "exec_update w f db = (0, db)" and "fst (sql_delete w db) = 0"
    and "snd (sql_delete w db) = db"
proof -
  have none: "filter w (map snd (pgJobs db)) = []"
    using assms(3) by (auto simp: one_row [of db w jid, OF assms(1,2)] split: option.splits)
  then have w: "\<not> w r" if "(k, r) \<in> set (pgJobs db)" for k r using that by (force simp: filter_empty_conv)
  then have "map (\<lambda>(k, r). (k, if w r then f r else r)) (pgJobs db) = pgJobs db" by (intro map_idI) force
  then show u: "sql_update w f db = ([], db)" using none by (simp add: sql_update_def)
  then show "exec_update w f db = (0, db)" by (simp add: exec_update_def)
  from w have "filter (\<lambda>(k, r). \<not> w r) (pgJobs db) = pgJobs db" by (intro filter_True) force
  with none show "fst (sql_delete w db) = 0" "snd (sql_delete w db) = db"
    by (simp_all add: sql_delete_def Let_def)
qed

lemma row_hit:
  assumes db: "pg_keyed db" and key: "\<And>r. w r \<Longrightarrow> rId r = jid" and r: "tab db jid = Some r" "w r"
  shows "fst (sql_update w f db) = [f r]"
    and "tab (snd (sql_update w f db)) = (tab db)(jid \<mapsto> f r)"
    and "exec_update w f db = (1, snd (sql_update w f db))"
    and "fst (sql_delete w db) = 1" and "tab (snd (sql_delete w db)) = (tab db)(jid := None)"
proof -
  have row: "filter w (map snd (pgJobs db)) = [r]" using one_row [of db w jid, OF db key] r by simp
  then show 1: "fst (sql_update w f db) = [f r]" by (simp add: sql_update_def)
  have other: "\<not> w r'" if "tab db k = Some r'" "k \<noteq> jid" for k r'
    using pg_keyedD(2) [OF db that(1)] key that(2) by auto
  show "tab (snd (sql_update w f db)) = (tab db)(jid \<mapsto> f r)"
  proof (rule ext)
    fix k
    show "tab (snd (sql_update w f db)) k = ((tab db)(jid \<mapsto> f r)) k"
      using other [of k] r by (cases "k = jid"; cases "tab db k") (simp_all add: tab_update)
  qed
  show "exec_update w f db = (1, snd (sql_update w f db))" using 1 by (simp add: exec_update_def case_prod_unfold)
  show "fst (sql_delete w db) = 1" using row by (simp add: sql_delete_def Let_def)
  show "tab (snd (sql_delete w db)) = (tab db)(jid := None)"
  proof (rule ext)
    fix k
    show "tab (snd (sql_delete w db)) k = ((tab db)(jid := None)) k"
      using other [of k] r by (cases "k = jid"; cases "tab db k") (simp_all add: tab_delete [OF db])
  qed
qed

text \<open>A fenced statement is one on the row its token owns.\<close>

lemma fence_key: "fence jid tok r \<Longrightarrow> rId r = jid"
  by (simp add: fence_def)

lemma fence_miss:
  assumes "pg_keyed db" "\<And>r. tab db jid = Some r \<Longrightarrow> \<not> fence jid tok r"
  shows "exec_update (fence jid tok) f db = (0, db)"
    and "chained_sql env st jid tok f counts err field db = ([], db)"
  using row_miss [of db "fence jid tok" jid, OF assms(1) fence_key assms(2)] by (simp_all add: chained_sql_def)

lemma fence_hit:
  assumes "pg_keyed db" "tab db jid = Some r" "fence jid tok r"
  shows "fst (sql_update (fence jid tok) f db) = [f r]"
    and "tab (snd (sql_update (fence jid tok) f db)) = (tab db)(jid \<mapsto> f r)"
    and "exec_update (fence jid tok) f db = (1, snd (sql_update (fence jid tok) f db))"
  by (rule row_hit [where w = "fence jid tok" and jid = jid and db = db]; use assms in \<open>simp add: fence_def\<close>)+

lemma chained_hit:
  assumes db: "pg_keyed db" and r: "tab db jid = Some r" "fence jid tok r"
  obtains db' where "chained_sql env st jid tok f counts err field db = ([f r], db')"
    "tab db' = (tab db)(jid \<mapsto> f r)" "pg_frame db' = pg_frame db" "pg_keyed (snd (sql_update (fence jid tok) f db)) \<Longrightarrow> pg_keyed db'"
proof -
  obtain db1 where u: "sql_update (fence jid tok) f db = ([f r], db1)"
    using fence_hit(1) [OF assms, of f] by (metis prod.collapse)
  let ?ins = "\<lambda>r d. case err of None \<Rightarrow> d | Some e \<Rightarrow> insert_attempt (rId r) (rAttempt r) e d"
  let ?db = "fold (\<lambda>r d. pgBumpStat env st (rSource r) (rKind r) field 1 (?ins r d)) (filter counts [f r]) db1"
  have jobs: "pgJobs ?db = pgJobs db1" and "pg_frame ?db = pg_frame db1" by (auto split: option.split)
  moreover note keyed_cong [OF jobs]
  moreover have "pg_frame db1 = pg_frame db" using frame_sql(1) [of "fence jid tok" f db] u by simp
  moreover have "tab db1 = (tab db)(jid \<mapsto> f r)" using fence_hit(2) [OF assms, of f] u by simp
  ultimately show thesis using u
    by (intro that [of ?db]) (simp_all add: chained_sql_def Let_def tab_def)
qed

section \<open>The contract\<close>

definition pg_job_at :: "pgEnv \<Rightarrow> pgdb \<Rightarrow> uuid \<Rightarrow> job option" where
  "pg_job_at env db jid = map_option (pgToJob env) (tab db jid)"

text \<open>
  The store as a value of the \<open>driver.Store\<close> interface. A loop that did not return
  would be reported as an error here; \<open>loop_returns\<close> shows that each one returns.
\<close>

definition loop_outcome :: "pgdb \<Rightarrow> ((error option \<times> 'r) \<times> pgdb) option \<Rightarrow> (pgdb, 'r) outcome" where
  "loop_outcome db res =
     (case res of
        None \<Rightarrow> (Inl (OtherError ''does not return''), db)
      | Some ((None, n), db') \<Rightarrow> (Inr n, db')
      | Some ((Some e, n), db') \<Rightarrow> (Inl e, db'))"

definition pg_ops :: "pgEnv \<Rightarrow> pgStore \<Rightarrow> (nat \<Rightarrow> uuid \<Rightarrow> bool) \<Rightarrow> pgdb storeOps" where
  "pg_ops env st L =
     \<lparr>opDequeueBatch = pgDequeueBatch env (L 0), opAck = pgAck env st, opReschedule = pgReschedule env st,
      opDead = pgDead env st, opSkip = pgSkip env st, opRelease = pgRelease, opSnooze = pgSnooze env st,
      opExtendLease = pgExtendLease env,
      opPromoteDue = (\<lambda>src kinds db. loop_outcome db (pgPromoteDue st L src kinds db)),
      opReapExpired = (\<lambda>src kinds mr db. loop_outcome db (pgReapExpired env st L src kinds mr db)),
      opVacuumStats = pgVacuumStats, opVacuumIdempotency = pgVacuumIdempotency,
      opVacuumCompleted = (\<lambda>src d db. loop_outcome db (pgVacuumCompleted env st src d db)),
      opVacuumDead = (\<lambda>src kind d db. loop_outcome db (pgVacuumDead env st src kind d db))\<rparr>"

lemma owned_fence:
  assumes "pg_wf env db"
  shows "owned (pg_job_at env) jid tok db \<longleftrightarrow> (\<exists>r. tab db jid = Some r \<and> fence jid tok r)"
proof (cases "tab db jid")
  case (Some r)
  with assms have "row_ok r" "rId r = jid" by (auto dest: pg_wfD)
  then have "fence jid tok r \<longleftrightarrow> rState r = StateActive \<and> toUUID (rLeaseToken r) = tok"
    by (auto simp: fence_def row_ok_def toUUID_def)
  with Some show ?thesis by (simp add: owned_def pg_job_at_def pgToJob_def)
qed (simp add: owned_def pg_job_at_def)

text \<open>What a fenced operation does to the tables: \<open>F\<close> on the row the token owns.\<close>

definition pg_fenced_op ::
  "string \<Rightarrow> (time \<Rightarrow> pgJob \<Rightarrow> pgJob) \<Rightarrow> (time \<Rightarrow> pgJob \<Rightarrow> 'r) \<Rightarrow> (uuid \<Rightarrow> uuid \<Rightarrow> pgdb \<Rightarrow> (pgdb, 'r) outcome) \<Rightarrow> bool" where
  "pg_fenced_op opn F q f \<longleftrightarrow>
     (\<forall>db jid tok. pg_keyed db \<longrightarrow>
        (case tab db jid of
           Some r \<Rightarrow> if fence jid tok r
                     then \<exists>db'. f jid tok db = (Inr (q (pgNow db) r), db') \<and> tab db' = (tab db)(jid \<mapsto> F (pgNow db) r) \<and>
                            pg_frame db' = pg_frame db \<and> pg_keyed db'
                     else f jid tok db = (Inl (NotFound opn), db)
         | None \<Rightarrow> f jid tok db = (Inl (NotFound opn), db)))"

lemma pg_fenced_opI:
  assumes rid: "\<And>now r. rId (F now r) = rId r"
    and miss: "\<And>db jid tok. pg_keyed db \<Longrightarrow> (\<And>r. tab db jid = Some r \<Longrightarrow> \<not> fence jid tok r) \<Longrightarrow>
      f jid tok db = (Inl (NotFound opn), db)"
    and hit: "\<And>db jid tok r. pg_keyed db \<Longrightarrow> tab db jid = Some r \<Longrightarrow> fence jid tok r \<Longrightarrow>
      pg_keyed (snd (sql_update (fence jid tok) (F (pgNow db)) db)) \<Longrightarrow>
      \<exists>db'. f jid tok db = (Inr (q (pgNow db) r), db') \<and> tab db' = (tab db)(jid \<mapsto> F (pgNow db) r) \<and>
        pg_frame db' = pg_frame db \<and> pg_keyed db'"
  shows "pg_fenced_op opn F q f"
  unfolding pg_fenced_op_def
proof (intro allI impI)
  fix db jid tok
  assume db: "pg_keyed db"
  have "pg_keyed (snd (sql_update (fence jid tok) (F (pgNow db)) db))" by (rule keyed_update [OF db]) (rule rid)
  with hit [OF db] miss [OF db, of jid tok]
  show "case tab db jid of
           Some r \<Rightarrow> if fence jid tok r
                     then \<exists>db'. f jid tok db = (Inr (q (pgNow db) r), db') \<and> tab db' = (tab db)(jid \<mapsto> F (pgNow db) r) \<and>
                            pg_frame db' = pg_frame db \<and> pg_keyed db'
                     else f jid tok db = (Inl (NotFound opn), db)
         | None \<Rightarrow> f jid tok db = (Inl (NotFound opn), db)"
    by (auto split: option.split)
qed

lemma chained_op:
  assumes "\<And>now r. rId (F now r) = rId r"
    and f: "\<And>jid tok db. f jid tok db = failTransition opn (chained_sql env st jid tok (F (pgNow db)) counts err field) db"
  shows "pg_fenced_op opn F (\<lambda>_ _. ()) f"
proof (rule pg_fenced_opI [OF assms(1)])
  fix db jid tok r
  assume a: "pg_keyed db" "tab db jid = Some r" "fence jid tok r"
    and k: "pg_keyed (snd (sql_update (fence jid tok) (F (pgNow db)) db))"
  obtain db' where "chained_sql env st jid tok (F (pgNow db)) counts err field db = ([F (pgNow db) r], db')"
    "tab db' = (tab db)(jid \<mapsto> F (pgNow db) r)" "pg_frame db' = pg_frame db" "pg_keyed db'"
    using chained_hit [OF a] k by metis
  then show "\<exists>db'. f jid tok db = (Inr (), db') \<and> tab db' = (tab db)(jid \<mapsto> F (pgNow db) r) \<and>
      pg_frame db' = pg_frame db \<and> pg_keyed db'"
    by (simp add: f failTransition_def)
qed (simp add: f failTransition_def fence_miss)

lemma exec_op:
  assumes "\<And>now r. rId (F now r) = rId r"
    and f: "\<And>jid tok db. f jid tok db = requireRow opn (exec_update (fence jid tok) (F (pgNow db))) db"
  shows "pg_fenced_op opn F (\<lambda>_ _. ()) f"
proof (rule pg_fenced_opI [OF assms(1)])
  fix db jid tok r
  assume a: "pg_keyed db" "tab db jid = Some r" "fence jid tok r"
    and k: "pg_keyed (snd (sql_update (fence jid tok) (F (pgNow db)) db))"
  show "\<exists>db'. f jid tok db = (Inr (), db') \<and> tab db' = (tab db)(jid \<mapsto> F (pgNow db) r) \<and>
      pg_frame db' = pg_frame db \<and> pg_keyed db'"
    using k fence_hit(2,3) [OF a] by (simp add: f requireRow_def)
qed (simp add: f requireRow_def fence_miss)

lemma settlement_ops:
  "pg_fenced_op ''ack'' ackSQL (\<lambda>_ _. ()) (pgAck env st)"
  "pg_fenced_op ''reschedule'' (rescheduleSQL env delay err) (\<lambda>_ _. ()) (\<lambda>jid tok. pgReschedule env st jid tok delay err)"
  "pg_fenced_op ''dead'' (deadSQL err) (\<lambda>_ _. ()) (\<lambda>jid tok. pgDead env st jid tok err)"
  "pg_fenced_op ''skip'' (skipSQL err) (\<lambda>_ _. ()) (\<lambda>jid tok. pgSkip env st jid tok err)"
  "pg_fenced_op ''release'' releaseSQL (\<lambda>_ _. ()) pgRelease"
  "pg_fenced_op ''extend lease'' (extendLeaseSQL env lease) (\<lambda>_ _. ()) (\<lambda>jid tok. pgExtendLease env jid tok lease)"
  by (rule chained_op [OF _ pgAck_def] chained_op [OF _ pgReschedule_def] chained_op [OF _ pgDead_def]
      chained_op [OF _ pgSkip_def] exec_op [OF _ pgRelease_def] exec_op [OF _ pgExtendLease_def],
      simp add: ackSQL_def rescheduleSQL_def deadSQL_def skipSQL_def releaseSQL_def extendLeaseSQL_def)+

lemma snooze_op:
  "pg_fenced_op ''snooze'' (snoozeSQL env delay err) past_deadline (\<lambda>jid tok. pgSnooze env st jid tok delay err)"
proof (rule pg_fenced_opI)
  fix db jid tok r
  let ?F = "snoozeSQL env delay err"
  assume a: "pg_keyed db" "tab db jid = Some r" "fence jid tok r"
    and k: "pg_keyed (snd (sql_update (fence jid tok) (?F (pgNow db)) db))"
  obtain db' where "chained_sql env st jid tok (?F (pgNow db)) (\<lambda>r. rState r = StateDead) (Some err) statFailed db =
      ([?F (pgNow db) r], db')"
    "tab db' = (tab db)(jid \<mapsto> ?F (pgNow db) r)" "pg_frame db' = pg_frame db" "pg_keyed db'"
    using chained_hit [OF a] k by metis
  moreover have "(rState (?F (pgNow db) r) = StateDead) = past_deadline (pgNow db) r"
    by (simp add: snoozeSQL_def Let_def)
  ultimately show "\<exists>db'. pgSnooze env st jid tok delay err db = (Inr (past_deadline (pgNow db) r), db') \<and>
      tab db' = (tab db)(jid \<mapsto> ?F (pgNow db) r) \<and> pg_frame db' = pg_frame db \<and> pg_keyed db'"
    by (simp add: pgSnooze_def Let_def)
qed (simp_all add: pgSnooze_def fence_miss snoozeSQL_def Let_def)

lemma pg_fenced_opD:
  assumes "pg_fenced_op opn F q f" "pg_keyed db"
  shows "(\<And>r. tab db jid = Some r \<Longrightarrow> \<not> fence jid tok r) \<Longrightarrow> f jid tok db = (Inl (NotFound opn), db)"
    and "tab db jid = Some r \<Longrightarrow> fence jid tok r \<Longrightarrow>
      \<exists>db'. f jid tok db = (Inr (q (pgNow db) r), db') \<and> tab db' = (tab db)(jid \<mapsto> F (pgNow db) r) \<and>
        pg_frame db' = pg_frame db \<and> pg_keyed db'"
proof -
  from assms have C: "case tab db jid of
      Some r \<Rightarrow> if fence jid tok r
        then \<exists>db'. f jid tok db = (Inr (q (pgNow db) r), db') \<and> tab db' = (tab db)(jid \<mapsto> F (pgNow db) r) \<and>
               pg_frame db' = pg_frame db \<and> pg_keyed db'
        else f jid tok db = (Inl (NotFound opn), db)
    | None \<Rightarrow> f jid tok db = (Inl (NotFound opn), db)"
    unfolding pg_fenced_op_def by blast
  show "f jid tok db = (Inl (NotFound opn), db)" if "\<And>r. tab db jid = Some r \<Longrightarrow> \<not> fence jid tok r"
    using C that by (cases "tab db jid") auto
  show "\<exists>db'. f jid tok db = (Inr (q (pgNow db) r), db') \<and> tab db' = (tab db)(jid \<mapsto> F (pgNow db) r) \<and>
      pg_frame db' = pg_frame db \<and> pg_keyed db'" if "tab db jid = Some r" "fence jid tok r"
    using C that by simp
qed

lemma pg_fenced:
  assumes op: "pg_fenced_op opn F q f"
    and ok: "\<And>now r. exact_env env \<Longrightarrow> 0 < now \<Longrightarrow> row_ok r \<Longrightarrow> rState r = StateActive \<Longrightarrow> row_ok (F now r)"
    and wire: "\<And>now r. exact_env env \<Longrightarrow> row_ok r \<Longrightarrow> pgToJob env (F now r) = tr now (pgToJob env r)"
    and res: "\<And>now r. row_ok r \<Longrightarrow> q now r = res now (pgToJob env r)"
  shows "fenced (pg_job_at env) pgNow (pg_wf env) opn tr res f"
proof (rule fencedI)
  fix db jid tok
  assume wf: "pg_wf env db" and "\<not> owned (pg_job_at env) jid tok db"
  then show "f jid tok db = (Inl (NotFound opn), db)"
    by (intro pg_fenced_opD(1) [OF op pg_wfD(2)]) (auto simp: owned_fence)
next
  fix db jid tok and j :: job
  assume wf: "pg_wf env db" and at: "pg_job_at env db jid = Some j"
    and act: "jState j = StateActive" "jLeaseToken j = tok"
  from at act have "owned (pg_job_at env) jid tok db" by (simp add: owned_def)
  with owned_fence [OF wf] obtain r where r: "tab db jid = Some r" "fence jid tok r" by blast
  with at have j: "j = pgToJob env r" by (simp add: pg_job_at_def)
  have rok: "row_ok r" using wf r(1) by (rule pg_wfD)
  obtain db' where db': "f jid tok db = (Inr (q (pgNow db) r), db')" "tab db' = (tab db)(jid \<mapsto> F (pgNow db) r)"
    "pg_frame db' = pg_frame db" "pg_keyed db'"
    using pg_fenced_opD(2) [OF op pg_wfD(2) [OF wf] r] by blast
  from db'(3) have now: "pgNow db' = pgNow db" by (simp add: pg_frame_def)
  have "row_ok (F (pgNow db) r)"
    using r(2) by (intro ok [OF pg_wfD(1,3) [OF wf] rok]) (simp add: fence_def)
  then have "pg_wf env db'" using wf db'(4) by (auto simp: pg_wf_def now db'(2))
  moreover have "pg_job_at env db' = (pg_job_at env db)(jid \<mapsto> tr (pgNow db) j)"
    by (simp add: pg_job_at_def db'(2) fun_eq_iff j wire [OF pg_wfD(1) [OF wf] rok])
  ultimately show "\<exists>s'. f jid tok db = (Inr (res (pgNow db) j), s') \<and> pg_wf env s' \<and> pgNow s' = pgNow db \<and>
      pg_job_at env s' = (pg_job_at env db)(jid \<mapsto> tr (pgNow db) j)"
    using db'(1) now res [OF rok] j by (intro exI [of _ db']) simp
qed

interpretation pg: fenced_store_on "pg_ops env st L" pgNow "pg_job_at env" "pg_wf env" whole for env st L
  by unfold_locales
    (simp_all add: pg_ops_def, (rule pg_fenced [OF settlement_ops(1)] pg_fenced [OF settlement_ops(2)]
      pg_fenced [OF settlement_ops(3)] pg_fenced [OF settlement_ops(4)] pg_fenced [OF settlement_ops(5)]
      pg_fenced [OF settlement_ops(6)] pg_fenced [OF snooze_op],
      simp_all add: pgToJob_wire pgToJob_snooze row_ok_settled deadlined_row)+)

end
