(* ===== verification/Pg_Refines.thy ===== *)
theory Pg_Refines
  imports Pg_Contract Fake_Store
begin

text \<open>
  The PostgreSQL store refines the in-memory store on jobs. \<open>sim\<close> relates a
  database to a fake store that shows the same jobs; each operation, run on related
  states, gives the same answer and related states, and so does every sequence of
  them. Where the two stores really differ (time-window claims, retries under a
  reused key, the order of attempts) the differences are stated in \<open>Pg_Admin\<close>.
\<close>

section \<open>The relation\<close>

definition row_rel :: "pgEnv \<Rightarrow> (uuid \<times> eventRecord) list \<Rightarrow> pgJob \<Rightarrow> fakeJob \<Rightarrow> bool" where
  "row_rel env evs r j =
     (row_ok r \<and> pgToJob env r = toJob j \<and> rMaxAttemptsExplicit r = maxAttemptsExplicit j \<and>
      rIdempotencyKey r = nullableKey (idempotencyKey j) \<and> rCoalesceKey r = nullableKey (coalesceKey j) \<and>
      (rSource r = SourceEvent \<longrightarrow> (\<exists>e ev. rEventId r = Some e \<and> map_of evs e = Some ev)))"

definition fake_frame :: "fake \<Rightarrow> time \<times> nat \<times> (uuid \<times> eventRecord) list \<times> (subKey \<times> subRecord) list" where
  "fake_frame f = (clock f, draws f, events f, subscribers f)"

definition sim :: "pgEnv \<Rightarrow> fake \<Rightarrow> pgdb \<Rightarrow> bool" where
  "sim env f db =
     (pg_wf env db \<and> wf_ledger f \<and> fake_frame f = (pgNow db, pgTokens db, pgEvents db, pgSubscribers db) \<and>
      (\<forall>k. rel_option (row_rel env (events f)) (tab db k) (map_of (jobs f) k)))"

lemma simD:
  assumes "sim env f db"
  shows "pg_wf env db" "wf_jobs f" "clock f = pgNow db" "draws f = pgTokens db" "events f = pgEvents db"
    "map_of (events f) k = Some e \<Longrightarrow> evID e = k"
    "rel_option (row_rel env (events f)) (tab db k) (map_of (jobs f) k)"
    "exact_env env" "pg_keyed db" "0 < pgNow db" "subscribers f = pgSubscribers db" "wf_ledger f"
  using assms by (auto simp: sim_def fake_frame_def wf_ledger_def dest: pg_wfD)

lemma simI:
  assumes "sim env f db" "wf_jobs f'" "pg_keyed db'" "fake_frame f' = (pgNow db', pgTokens db', pgEvents db', pgSubscribers db')"
    and "pgNow db' = pgNow db" "pgEvents db' = pgEvents db" "pgSubscribers db' = pgSubscribers db"
    and rel: "\<And>k. rel_option (row_rel env (events f)) (tab db' k) (map_of (jobs f') k)"
  shows "sim env f' db'"
proof -
  from assms have e: "events f' = events f" "subscribers f' = subscribers f"
    using simD(5,11) [OF assms(1)] by (simp_all add: fake_frame_def)
  with simD(12) [OF assms(1)] assms(2) have "wf_ledger f'" by (simp add: wf_ledger_def)
  moreover
  have "row_ok r" if "tab db' k = Some r" for k r
    using rel [of k] that by (cases "map_of (jobs f') k") (auto simp: row_rel_def)
  with simD [OF assms(1)] assms(3,5) have "pg_wf env db'" by (auto simp: pg_wf_def)
  ultimately show ?thesis using assms e by (simp add: sim_def)
qed

lemma sim_step:
  assumes "sim env f db" "wf_jobs f'" "fake_frame f' = fake_frame f" "pg_keyed db'" "pg_frame db' = pg_frame db"
    and "\<And>k. rel_option (row_rel env (events f)) (tab db' k) (map_of (jobs f') k)"
  shows "sim env f' db'"
  by (rule simI [OF assms(1,2,4) _ _ _ _ assms(6)]) (use assms(3,5) simD(3-5,11) [OF assms(1)] in \<open>auto simp: pg_frame_def fake_frame_def\<close>)

text \<open>The fields both sides read.\<close>

lemma row_relD:
  assumes "row_rel env evs r j"
  shows "jID j = rId r" "jSource j = rSource r" "jKind j = rKind r" "jState j = rState r" "jRunAt j = rRunAt r"
    "jAttempt j = rAttempt r" "jReapCount j = rReapCount r" "jEnqueuedAt j = rEnqueuedAt r"
    "jLeaseToken j = toUUID (rLeaseToken r)" "jLeaseUntil j = timeOf (rLeaseUntil r)"
    "jCompletedAt j = timeOf (rCompletedAt r)" "jDAGID j = toUUID (rDagId r)" "jRunID j = toUUID (rRunId r)"
    "jEventID j = toUUID (rEventId r)" "row_ok r"
proof -
  from assms have "pgToJob env r = toJob j" "row_ok r" by (simp_all add: row_rel_def)
  note eq = this(1) [symmetric, unfolded pgToJob_def toJob_def job.truncate_def]
  from eq show "jID j = rId r" "jSource j = rSource r" "jKind j = rKind r" "jState j = rState r" "jRunAt j = rRunAt r"
    "jAttempt j = rAttempt r" "jReapCount j = rReapCount r" "jEnqueuedAt j = rEnqueuedAt r"
    "jLeaseToken j = toUUID (rLeaseToken r)" "jLeaseUntil j = timeOf (rLeaseUntil r)"
    "jCompletedAt j = timeOf (rCompletedAt r)" "jDAGID j = toUUID (rDagId r)" "jRunID j = toUUID (rRunId r)"
    "jEventID j = toUUID (rEventId r)" by simp_all
  show "row_ok r" by fact
qed

lemma sim_rows [consumes 1]:
  assumes "sim env f db"
  obtains (none) "tab db k = None" "map_of (jobs f) k = None"
  | (row) r j where "tab db k = Some r" "map_of (jobs f) k = Some j" "row_rel env (events f) r j" "rId r = k" "jID j = k"
proof -
  from simD(7) [OF assms, of k] simD(1,2) [OF assms] show thesis
    by (cases rule: option.rel_cases) (auto dest: pg_wfD wf_jobsD intro: none row)
qed

lemma sim_get:
  "sim env f db \<Longrightarrow> map_of (jobs f) k = Some j \<Longrightarrow> \<exists>r. tab db k = Some r \<and> row_rel env (events f) r j"
  "sim env f db \<Longrightarrow> tab db k = Some r \<Longrightarrow> \<exists>j. map_of (jobs f) k = Some j \<and> row_rel env (events f) r j"
  by (erule sim_rows [of env f db k]; auto)+

text \<open>Both sides count the same rows.\<close>

lemma fake_count:
  assumes "wf_jobs f"
  shows "length (filter P (map snd (jobs f))) = card {k. \<exists>j. map_of (jobs f) k = Some j \<and> P j}"
proof -
  have d: "distinct_keys (filter (\<lambda>(k, j). P j) (jobs f))" by (rule distinct_keys_filter) (rule wf_jobsD(1) [OF assms])
  have "length (filter P (map snd (jobs f))) = length (map fst (filter (\<lambda>(k, j). P j) (jobs f)))"
    by (induction "jobs f") (simp_all add: filter_map comp_def case_prod_unfold)
  also have "\<dots> = card (fst ` set (filter (\<lambda>(k, j). P j) (jobs f)))" using distinct_card [OF d] by simp
  also have "fst ` set (filter (\<lambda>(k, j). P j) (jobs f)) = {k. \<exists>j. map_of (jobs f) k = Some j \<and> P j}"
    using map_of_in_set [OF wf_jobsD(1) [OF assms]] by force
  finally show ?thesis .
qed

lemma sim_keys:
  assumes "sim env f db" and "\<And>r j. row_rel env (events f) r j \<Longrightarrow> w r \<longleftrightarrow> P j"
  shows "wkeys w db = {k. \<exists>j. map_of (jobs f) k = Some j \<and> P j}"
  using assms(2) sim_get [OF assms(1)] by (force simp: wkeys_def)

lemma sim_count:
  assumes "sim env f db" and "\<And>r j. row_rel env (events f) r j \<Longrightarrow> w r \<longleftrightarrow> P j"
  shows "card (wkeys w db) = length (filter P (map snd (jobs f)))"
  unfolding sim_keys [of env f db w P, OF assms, simplified] fake_count [OF simD(2) [OF assms(1)]] by (rule refl)

section \<open>Settlement\<close>

fun settle_row :: "pgEnv \<Rightarrow> settlement \<Rightarrow> time \<Rightarrow> pgJob \<Rightarrow> pgJob" where
  "settle_row env DoAck = ackSQL"
| "settle_row env (DoReschedule delay err) = rescheduleSQL env delay err"
| "settle_row env (DoDead err) = deadSQL err"
| "settle_row env (DoSkip err) = skipSQL err"
| "settle_row env DoRelease = releaseSQL"
| "settle_row env (DoSnooze delay err) = snoozeSQL env delay err"

fun settle_flag :: "settlement \<Rightarrow> time \<Rightarrow> pgJob \<Rightarrow> bool" where
  "settle_flag (DoSnooze delay err) now r = past_deadline now r"
| "settle_flag c now r = False"

lemma no_flag_op:
  assumes "pg_fenced_op opn F (\<lambda>_ _. ()) f"
  shows "pg_fenced_op opn F (\<lambda>_ _. False) (\<lambda>jid tok db. no_flag (f jid tok db))"
  unfolding pg_fenced_op_def
proof (intro allI impI)
  fix db jid tok
  assume db: "pg_keyed db"
  note D = pg_fenced_opD [OF assms db, where jid = jid and tok = tok]
  show "case tab db jid of
      Some r \<Rightarrow> if fence jid tok r
        then \<exists>db'. no_flag (f jid tok db) = (Inr False, db') \<and> tab db' = (tab db)(jid \<mapsto> F (pgNow db) r) \<and>
               pg_frame db' = pg_frame db \<and> pg_keyed db'
        else no_flag (f jid tok db) = (Inl (NotFound opn), db)
    | None \<Rightarrow> no_flag (f jid tok db) = (Inl (NotFound opn), db)"
  proof (cases "tab db jid")
    case (Some r)
    show ?thesis
    proof (cases "fence jid tok r")
      case True
      from D(2) [OF Some this] Some True show ?thesis by auto
    qed (use D(1) Some in simp)
  qed (use D(1) in simp)
qed

lemma settle_flag_eta:
  "settle_flag DoAck = (\<lambda>_ _. False)" "settle_flag (DoReschedule delay err) = (\<lambda>_ _. False)"
  "settle_flag (DoDead err) = (\<lambda>_ _. False)" "settle_flag (DoSkip err) = (\<lambda>_ _. False)"
  "settle_flag DoRelease = (\<lambda>_ _. False)" "settle_flag (DoSnooze delay err) = past_deadline"
  by (simp_all add: fun_eq_iff)

lemma settle_ops:
  "pg_fenced_op (settle_name c) (settle_row env c) (settle_flag c) (settle_with (pg_ops env st L) c)"
proof (cases c)
  case DoAck
  then show ?thesis using no_flag_op [OF settlement_ops(1)] by (simp add: pg_ops_def settlement_eta settle_flag_eta)
next
  case (DoReschedule delay err)
  then show ?thesis using no_flag_op [OF settlement_ops(2)] by (simp add: pg_ops_def settlement_eta settle_flag_eta)
next
  case (DoDead err)
  then show ?thesis using no_flag_op [OF settlement_ops(3)] by (simp add: pg_ops_def settlement_eta settle_flag_eta)
next
  case (DoSkip err)
  then show ?thesis using no_flag_op [OF settlement_ops(4)] by (simp add: pg_ops_def settlement_eta settle_flag_eta)
next
  case DoRelease
  then show ?thesis using no_flag_op [OF settlement_ops(5)] by (simp add: pg_ops_def settlement_eta settle_flag_eta)
next
  case (DoSnooze delay err)
  then show ?thesis using snooze_op by (simp add: pg_ops_def settlement_eta settle_flag_eta)
qed

lemma toJob_settle_wire: "toJob (settle_wire c now j) = settle_wire c now (toJob j)"
  by (cases c) (simp_all add: toJob_defs deadlined_def)

lemma pgToJob_settle_row:
  "exact_env env \<Longrightarrow> row_ok r \<Longrightarrow> settle_dur whole c \<Longrightarrow>
   pgToJob env (settle_row env c now r) = settle_wire c now (pgToJob env r)"
  by (cases c) (simp_all add: pgToJob_wire pgToJob_snooze)

lemma row_ok_settle_row:
  "exact_env env \<Longrightarrow> 0 < now \<Longrightarrow> row_ok r \<Longrightarrow> row_ok (settle_row env c now r)"
  by (cases c) (simp_all add: row_ok_settled)

lemma settle_keeps_keys [simp]:
  "rMaxAttemptsExplicit (settle_row env c now r) = rMaxAttemptsExplicit r"
  "rIdempotencyKey (settle_row env c now r) = rIdempotencyKey r" "rCoalesceKey (settle_row env c now r) = rCoalesceKey r"
  "rSource (settle_row env c now r) = rSource r" "rEventId (settle_row env c now r) = rEventId r"
  "maxAttemptsExplicit (settle_wire c now j) = maxAttemptsExplicit j"
  "idempotencyKey (settle_wire c now j) = idempotencyKey j" "coalesceKey (settle_wire c now j) = coalesceKey j"
  by (cases c; simp add: ackSQL_def rescheduleSQL_def deadSQL_def skipSQL_def releaseSQL_def snoozeSQL_def Let_def wire_defs)+

lemma settle_rel:
  assumes "row_rel env evs r j" "exact_env env" "0 < now" "settle_dur whole c"
  shows "row_rel env evs (settle_row env c now r) (settle_wire c now j)"
  using assms by (simp add: row_rel_def row_ok_settle_row pgToJob_settle_row toJob_settle_wire)

lemma settle_flag_rel: "row_rel env evs r j \<Longrightarrow> settle_flag c now r = settle_result c now j"
proof -
  assume rel: "row_rel env evs r j"
  then have "past_deadline now r = deadlined now (toJob j)"
    using deadlined_row [of r now env] by (simp add: row_rel_def)
  then show ?thesis by (cases c) (simp_all add: deadlined_def)
qed

lemma fake_settle_miss:
  assumes "wf_jobs f" "\<not> owned fake_job_at jid tok f"
  shows "settle_with (fake_ops gen) c jid tok f = (Inl (NotFound (settle_name c)), f)"
  by (rule fenced_stale [OF fs.settle_fenced assms])

lemma fake_settle_hit:
  assumes wf: "wf_jobs f" and j: "map_of (jobs f) jid = Some j" "jState j = StateActive" "jLeaseToken j = tok"
  obtains f' where "settle_with (fake_ops gen) c jid tok f = (Inr (settle_result c (clock f) j), f')" "wf_jobs f'"
    "fake_frame f' = fake_frame f" "map_of (jobs f') = (map_of (jobs f))(jid \<mapsto> settle_wire c (clock f) j)"
proof -
  let ?r = "settle_with (fake_ops gen) c jid tok f"
  have ID: "jID j = jid" using wf j(1) by (rule wf_jobsD)
  have s: "settle opn jid tok f = Inr j" for opn using j by (simp add: settle_def)
  have "fst ?r = Inr (settle_result c (clock f) j) \<and> fake_frame (snd ?r) = fake_frame f \<and>
      jobs (snd ?r) = AList.update jid (settle_wire c (clock f) j) (jobs f)"
    using s ID by (cases c) (simp_all add: fake_ops_def Ack_def Reschedule_def Dead_def Skip_def Release_def Snooze_eq
        Let_def fake_frame_def wire_defs)
  moreover have "wf_jobs (snd ?r)" by (rule fenced_wf [OF fs.settle_fenced wf])
  ultimately show thesis by (intro that [of "snd ?r"]) (auto simp: prod_eq_iff AList.update_conv')
qed

lemma sim_owned:
  assumes "sim env f db" "row_rel env (events f) r j" "tab db jid = Some r" "map_of (jobs f) jid = Some j"
  shows "owned fake_job_at jid tok f \<longleftrightarrow> fence jid tok r" "fence jid tok r \<longleftrightarrow> jState j = StateActive \<and> jLeaseToken j = tok"
proof -
  from assms have "row_ok r" "rId r = jid" by (auto dest: row_relD simD pg_wfD)
  then show "fence jid tok r \<longleftrightarrow> jState j = StateActive \<and> jLeaseToken j = tok"
    using row_relD [OF assms(2)] by (auto simp: fence_def row_ok_def toUUID_def)
  then show "owned fake_job_at jid tok f \<longleftrightarrow> fence jid tok r" by (simp add: owned_def fake_job_at_def assms(4))
qed

text \<open>Two operations that put related rows at one id keep the relation.\<close>

lemma sim_put:
  assumes "sim env f db" "wf_jobs f'" "fake_frame f' = fake_frame f" "pg_keyed db'" "pg_frame db' = pg_frame db"
    "tab db' = (tab db)(jid \<mapsto> r')" "map_of (jobs f') = (map_of (jobs f))(jid \<mapsto> j')" "row_rel env (events f) r' j'"
  shows "sim env f' db'"
  by (rule sim_step [OF assms(1-5)]) (use assms(6-8) simD(7) [OF assms(1)] in simp)

text \<open>Two fenced operations that agree on related rows agree.\<close>

lemma sim_fenced:
  assumes sim: "sim env f db" and op: "pg_fenced_op opn F q pgf"
    and miss: "\<not> owned fake_job_at jid tok f \<Longrightarrow> fkf jid tok f = (Inl (NotFound opn), f)"
    and hit: "\<And>j. map_of (jobs f) jid = Some j \<Longrightarrow> jState j = StateActive \<Longrightarrow> jLeaseToken j = tok \<Longrightarrow>
      \<exists>f'. fkf jid tok f = (Inr (res (clock f) j), f') \<and> wf_jobs f' \<and> fake_frame f' = fake_frame f \<and>
        map_of (jobs f') = (map_of (jobs f))(jid \<mapsto> G (clock f) j)"
    and rel: "\<And>r j. row_rel env (events f) r j \<Longrightarrow> rState r = StateActive \<Longrightarrow>
      row_rel env (events f) (F (pgNow db) r) (G (pgNow db) j) \<and> q (pgNow db) r = res (pgNow db) j"
  shows "\<exists>f' db' a. fkf jid tok f = (a, f') \<and> pgf jid tok db = (a, db') \<and> sim env f' db'"
  using sim
proof (cases rule: sim_rows [where k = jid])
  case none
  then have "\<not> owned fake_job_at jid tok f" by (simp add: owned_def fake_job_at_def)
  with none show ?thesis using miss pg_fenced_opD(1) [OF op simD(9) [OF sim]] sim by fastforce
next
  case (row r j)
  note own = sim_owned [OF sim row(3,1,2), of tok]
  show ?thesis
  proof (cases "fence jid tok r")
    case False
    with own row have "\<not> owned fake_job_at jid tok f" by simp
    with False row show ?thesis using miss pg_fenced_opD(1) [OF op simD(9) [OF sim]] sim by fastforce
  next
    case True
    with own have act: "jState j = StateActive" "jLeaseToken j = tok" by auto
    obtain f' where f': "fkf jid tok f = (Inr (res (clock f) j), f')" "wf_jobs f'" "fake_frame f' = fake_frame f"
      "map_of (jobs f') = (map_of (jobs f))(jid \<mapsto> G (clock f) j)"
      using hit [OF row(2) act] by blast
    obtain db' where db': "pgf jid tok db = (Inr (q (pgNow db) r), db')" "tab db' = (tab db)(jid \<mapsto> F (pgNow db) r)"
      "pg_frame db' = pg_frame db" "pg_keyed db'"
      using pg_fenced_opD(2) [OF op simD(9) [OF sim] row(1) True] by blast
    from rel [OF row(3)] True have R: "row_rel env (events f) (F (pgNow db) r) (G (clock f) j)"
      "q (pgNow db) r = res (clock f) j" by (simp_all add: simD(3) [OF sim] fence_def)
    from sim_put [OF sim f'(2,3) db'(4,3,2) f'(4) R(1)] f'(1) db'(1) R(2) show ?thesis by simp
  qed
qed

lemma sim_settle:
  assumes sim: "sim env f db" and c: "settle_dur whole c"
  shows "\<exists>f' db' a. settle_with (fake_ops gen) c jid tok f = (a, f') \<and>
    settle_with (pg_ops env st L) c jid tok db = (a, db') \<and> sim env f' db'"
proof (rule sim_fenced [OF sim settle_ops])
  show "settle_with (fake_ops gen) c jid tok f = (Inl (NotFound (settle_name c)), f)"
    if "\<not> owned fake_job_at jid tok f" using simD(2) [OF sim] that by (rule fake_settle_miss)
  show "\<exists>f'. settle_with (fake_ops gen) c jid tok f = (Inr (settle_result c (clock f) j), f') \<and> wf_jobs f' \<and>
      fake_frame f' = fake_frame f \<and> map_of (jobs f') = (map_of (jobs f))(jid \<mapsto> settle_wire c (clock f) j)"
    if "map_of (jobs f) jid = Some j" "jState j = StateActive" "jLeaseToken j = tok" for j
    by (rule fake_settle_hit [OF simD(2) [OF sim] that]) blast
qed (simp add: settle_rel [OF _ simD(8,10) [OF sim] c] settle_flag_rel)

lemma sim_extend:
  assumes sim: "sim env f db" and d: "whole lease"
  shows "\<exists>f' db' a. ExtendLease jid tok lease f = (a, f') \<and> pgExtendLease env jid tok lease db = (a, db') \<and> sim env f' db'"
proof (rule sim_fenced [OF sim settlement_ops(6)])
  show "ExtendLease jid tok lease f = (Inl (NotFound ''extend lease''), f)" if "\<not> owned fake_job_at jid tok f"
    using fenced_stale [OF ExtendLease_fenced simD(2) [OF sim] that] .
  show "\<exists>f'. ExtendLease jid tok lease f = (Inr (), f') \<and> wf_jobs f' \<and> fake_frame f' = fake_frame f \<and>
      map_of (jobs f') = (map_of (jobs f))(jid \<mapsto> wire_extend lease (clock f) j)"
    if j: "map_of (jobs f) jid = Some j" "jState j = StateActive" "jLeaseToken j = tok" for j
  proof -
    have ID: "jID j = jid" using simD(2) [OF sim] j(1) by (rule wf_jobsD)
    from j have "ExtendLease jid tok lease f = (Inr (), putJob (wire_extend lease (clock f) j) f)"
      by (simp add: ExtendLease_def settle_def wire_extend_def)
    moreover have "wf_jobs (putJob (wire_extend lease (clock f) j) f)"
      using j(2) by (intro wf_jobs_putJob simD(2) [OF sim]) (simp add: job_ok_def wire_extend_def)
    ultimately show ?thesis using ID by (simp add: fake_frame_def AList.update_conv' wire_extend_def)
  qed
  show "row_rel env (events f) (extendLeaseSQL env lease (pgNow db) r) (wire_extend lease (pgNow db) j) \<and> () = ()"
    if "row_rel env (events f) r j" "rState r = StateActive" for r j
  proof -
    have "toJob (wire_extend lease (pgNow db) j) = wire_extend lease (pgNow db) (toJob j)"
      by (simp add: toJob_defs)
    with that show ?thesis
      by (simp add: row_rel_def row_ok_settled pgToJob_wire simD(8) [OF sim] d) (simp add: extendLeaseSQL_def wire_extend_def)
  qed
qed

section \<open>Operator verbs\<close>

text \<open>\<open>pg_verb\<close>: a verb of the store on one row of a source, as \<^const>\<open>admin_verb\<close> for the fake.\<close>

definition pg_verb ::
  "string \<Rightarrow> (pgJob \<Rightarrow> bool) \<Rightarrow> (time \<Rightarrow> pgJob \<Rightarrow> pgJob) \<Rightarrow> (source \<Rightarrow> uuid \<Rightarrow> pgdb \<Rightarrow> (pgdb, unit) outcome) \<Rightarrow> bool" where
  "pg_verb opn adm F f \<longleftrightarrow>
     (\<forall>src jid db. pg_keyed db \<longrightarrow>
        ((\<forall>r. tab db jid = Some r \<longrightarrow> \<not> (rSource r = src \<and> adm r)) \<longrightarrow> f src jid db = (Inl (NotFound opn), db)) \<and>
        (\<forall>r. tab db jid = Some r \<and> rSource r = src \<and> adm r \<longrightarrow>
           (\<exists>db'. f src jid db = (Inr (), db') \<and> tab db' = (tab db)(jid \<mapsto> F (pgNow db) r) \<and>
              pg_frame db' = pg_frame db \<and> pg_keyed db')))"

lemma pg_verbI:
  assumes rid: "\<And>now r. rId (F now r) = rId r"
    and w: "\<And>src jid r. w src jid r \<longleftrightarrow> rId r = jid \<and> rSource r = src \<and> adm r"
    and f: "\<And>src jid db. f src jid db = requireRow opn (exec_update (w src jid) (F (pgNow db))) db"
  shows "pg_verb opn adm F f"
  unfolding pg_verb_def
proof (intro allI impI conjI)
  fix src jid db
  assume db: "pg_keyed db" and none: "\<forall>r. tab db jid = Some r \<longrightarrow> \<not> (rSource r = src \<and> adm r)"
  have "exec_update (w src jid) (F (pgNow db)) db = (0, db)"
    by (rule row_miss(2) [where jid = jid]) (use db none w in auto)
  then show "f src jid db = (Inl (NotFound opn), db)" by (simp add: f requireRow_def)
next
  fix src jid db r
  assume db: "pg_keyed db" and r: "tab db jid = Some r \<and> rSource r = src \<and> adm r"
  have wr: "w src jid r" using r pg_keyedD(2) [OF db] by (simp add: w)
  have key: "rId r' = jid" if "w src jid r'" for r' using that by (simp add: w)
  note H = row_hit(1-3) [where w = "w src jid" and jid = jid and f = "F (pgNow db)", OF db key conjunct1 [OF r] wr]
  have "pg_keyed (snd (sql_update (w src jid) (F (pgNow db)) db))" by (rule keyed_update [OF db]) (rule rid)
  with H(2,3) show "\<exists>db'. f src jid db = (Inr (), db') \<and> tab db' = (tab db)(jid \<mapsto> F (pgNow db) r) \<and>
      pg_frame db' = pg_frame db \<and> pg_keyed db'"
    by (simp add: f requireRow_def)
qed

abbreviation archiveSet :: "time \<Rightarrow> pgJob \<Rightarrow> pgJob" where
  "archiveSet now r \<equiv> r\<lparr>rState := StateDead, rLeaseUntil := None, rUpdatedAt := now\<rparr>"

abbreviation pauseSet :: "time \<Rightarrow> pgJob \<Rightarrow> pgJob" where
  "pauseSet now r \<equiv> r\<lparr>rState := StatePaused, rUpdatedAt := now\<rparr>"

abbreviation resumeSet :: "time \<Rightarrow> pgJob \<Rightarrow> pgJob" where
  "resumeSet now r \<equiv> r\<lparr>rState := (if rRunAt r \<le> now then StatePending else StateScheduled), rUpdatedAt := now\<rparr>"

abbreviation runNowSet :: "time \<Rightarrow> pgJob \<Rightarrow> pgJob" where
  "runNowSet now r \<equiv> r\<lparr>rState := StatePending, rRunAt := now, rUpdatedAt := now\<rparr>"

abbreviation waiting_row :: "pgJob \<Rightarrow> bool" where
  "waiting_row r \<equiv> rState r = StatePending \<or> rState r = StateScheduled"

lemma pg_verbs:
  "pg_verb ''archive'' waiting_row archiveSet pgArchiveJob"
  "pg_verb ''pause'' waiting_row pauseSet pgPauseJob"
  "pg_verb ''resume'' (\<lambda>r. rState r = StatePaused) resumeSet pgResumeJob"
  by (rule pg_verbI [OF _ pending_or_scheduled_def pgArchiveJob_def]
      pg_verbI [OF _ pending_or_scheduled_def pgPauseJob_def] pg_verbI [OF _ _ pgResumeJob_def], simp_all)+

lemma pg_run_now: "pg_verb ''run now'' (\<lambda>r. rState r = StateScheduled) runNowSet pgRunNow"
  unfolding pg_verb_def
proof (intro allI impI conjI)
  fix src jid db
  let ?w = "\<lambda>r. rId r = jid \<and> rSource r = src \<and> rState r = StateScheduled"
  assume db: "pg_keyed db" and none: "\<forall>r. tab db jid = Some r \<longrightarrow> \<not> (rSource r = src \<and> rState r = StateScheduled)"
  have "sql_update ?w (runNowSet (pgNow db)) db = ([], db)"
    by (rule row_miss(1) [where jid = jid]) (use db none in auto)
  then show "pgRunNow src jid db = (Inl (NotFound ''run now''), db)" by (simp add: pgRunNow_def)
next
  fix src jid db r
  let ?w = "\<lambda>r. rId r = jid \<and> rSource r = src \<and> rState r = StateScheduled"
  let ?u = "sql_update ?w (runNowSet (pgNow db)) db"
  assume db: "pg_keyed db" and r: "tab db jid = Some r \<and> rSource r = src \<and> rState r = StateScheduled"
  then have wr: "?w r" using pg_keyedD(2) [OF db] by simp
  note H = row_hit(1-3) [where w = ?w and jid = jid and f = "runNowSet (pgNow db)", OF db _ conjunct1 [OF r] wr]
  have k: "pg_keyed (snd ?u)" by (rule keyed_update [OF db]) simp
  have "pgRunNow src jid db = (Inr (), notifyAfterCommit src (rKind r) (snd ?u))"
    using H(1) by (simp add: pgRunNow_def case_prod_unfold)
  with H(2) k show "\<exists>db'. pgRunNow src jid db = (Inr (), db') \<and> tab db' = (tab db)(jid \<mapsto> runNowSet (pgNow db) r) \<and>
      pg_frame db' = pg_frame db \<and> pg_keyed db'"
    by (simp add: keyed_cong [OF jobs_effects(3)])
qed

lemma sim_verb:
  assumes sim: "sim env f db" and fk: "admin_verb opn adm tr fkv" and pg: "pg_verb opn admr F pgv"
    and frame: "fake_frame (snd (fkv src jid f)) = fake_frame f"
    and adm: "\<And>r j. row_rel env (events f) r j \<Longrightarrow> admr r \<longleftrightarrow> adm j"
    and rel: "\<And>r j. row_rel env (events f) r j \<Longrightarrow> admr r \<Longrightarrow> row_rel env (events f) (F (pgNow db) r) (tr (pgNow db) j)"
  shows "\<exists>f' db' a. fkv src jid f = (a, f') \<and> pgv src jid db = (a, db') \<and> sim env f' db'"
proof -
  note P = pg [unfolded pg_verb_def, rule_format, OF simD(9) [OF sim], where src = src and jid = jid]
  note K = fk [unfolded admin_verb_def, rule_format, OF simD(2) [OF sim], where src = src and jid = jid]
  show ?thesis
    using sim
  proof (cases rule: sim_rows [where k = jid])
    case none
    with P K sim show ?thesis by auto
  next
    case (row r j)
    show ?thesis
    proof (cases "rSource r = src \<and> admr r")
      case False
      with P K sim row row_relD(2) [OF row(3)] adm [OF row(3)] show ?thesis by auto
    next
      case True
      with K row row_relD(2) [OF row(3)] adm [OF row(3)] obtain f' where f': "fkv src jid f = (Inr (), f')"
        "wf_jobs f'" "map_of (jobs f') = (map_of (jobs f))(jid \<mapsto> tr (clock f) j)" by auto
      from P True row obtain db' where db': "pgv src jid db = (Inr (), db')"
        "tab db' = (tab db)(jid \<mapsto> F (pgNow db) r)" "pg_frame db' = pg_frame db" "pg_keyed db'" by auto
      have "row_rel env (events f) (F (pgNow db) r) (tr (clock f) j)"
        using rel [OF row(3)] True by (simp add: simD(3) [OF sim])
      moreover have "fake_frame f' = fake_frame f" using frame f'(1) by simp
      ultimately have "sim env f' db'" using sim_put [OF sim f'(2) _ db'(4,3,2) f'(3)] by blast
      with f' db' show ?thesis by simp
    qed
  qed
qed

lemma job_updates:
  "pgToJob env (r\<lparr>rState := x\<rparr>) = (pgToJob env r)\<lparr>jState := x\<rparr>" "pgToJob env (r\<lparr>rUpdatedAt := t\<rparr>) = pgToJob env r"
  "pgToJob env (r\<lparr>rRunAt := t\<rparr>) = (pgToJob env r)\<lparr>jRunAt := t\<rparr>"
  "pgToJob env (r\<lparr>rLeaseUntil := None\<rparr>) = (pgToJob env r)\<lparr>jLeaseUntil := zero_time\<rparr>"
  "toJob (j\<lparr>jState := x\<rparr>) = (toJob j)\<lparr>jState := x\<rparr>" "toJob (j\<lparr>jRunAt := t\<rparr>) = (toJob j)\<lparr>jRunAt := t\<rparr>"
  "toJob (j\<lparr>jLeaseUntil := t\<rparr>) = (toJob j)\<lparr>jLeaseUntil := t\<rparr>"
  by (simp_all add: pgToJob_def toJob_def job.truncate_def timeOf_def)

lemma verb_rel:
  assumes rel: "row_rel env evs r j"
  shows "waiting_row r \<Longrightarrow> row_rel env evs (archiveSet now r) (j\<lparr>jState := StateDead, jLeaseUntil := zero_time\<rparr>)"
    and "waiting_row r \<Longrightarrow> row_rel env evs (pauseSet now r) (j\<lparr>jState := StatePaused\<rparr>)"
    and "rState r = StatePaused \<Longrightarrow> row_rel env evs (resumeSet now r) (j\<lparr>jState := enqueue_state (jRunAt j) now\<rparr>)"
    and "rState r = StateScheduled \<Longrightarrow> row_rel env evs (runNowSet now r) (j\<lparr>jState := StatePending, jRunAt := now\<rparr>)"
    and "rState r = StateScheduled \<Longrightarrow>
      row_rel env evs (r\<lparr>rState := StatePending, rUpdatedAt := now\<rparr>) (j\<lparr>jState := StatePending\<rparr>)"
proof -
  have ok: "row_ok (r\<lparr>rState := x, rUpdatedAt := now\<rparr>)" "row_ok (r\<lparr>rState := x, rLeaseUntil := None, rUpdatedAt := now\<rparr>)"
    "row_ok (r\<lparr>rState := x, rRunAt := t, rUpdatedAt := now\<rparr>)"
    if "rState r \<noteq> StateActive" "x \<noteq> StateActive" "x \<noteq> StateSucceeded" for x t
    using row_relD(15) [OF rel] that by (simp_all add: row_ok_def)
  note simps = row_rel_def job_updates ok
  show "waiting_row r \<Longrightarrow> row_rel env evs (archiveSet now r) (j\<lparr>jState := StateDead, jLeaseUntil := zero_time\<rparr>)"
    "waiting_row r \<Longrightarrow> row_rel env evs (pauseSet now r) (j\<lparr>jState := StatePaused\<rparr>)"
    "rState r = StateScheduled \<Longrightarrow> row_rel env evs (runNowSet now r) (j\<lparr>jState := StatePending, jRunAt := now\<rparr>)"
    "rState r = StateScheduled \<Longrightarrow>
      row_rel env evs (r\<lparr>rState := StatePending, rUpdatedAt := now\<rparr>) (j\<lparr>jState := StatePending\<rparr>)"
    using rel by (auto simp: simps)
  show "row_rel env evs (resumeSet now r) (j\<lparr>jState := enqueue_state (jRunAt j) now\<rparr>)" if "rState r = StatePaused"
    using rel that row_relD(5) [OF rel] by (simp add: simps enqueue_state_def)
qed

lemma fake_verb_frames:
  "fake_frame (snd (ArchiveJob src jid f)) = fake_frame f" "fake_frame (snd (PauseJob src jid f)) = fake_frame f"
  "fake_frame (snd (ResumeJob src jid f)) = fake_frame f" "fake_frame (snd (RunNow src jid f)) = fake_frame f"
  by (auto simp: fake_frame_def ArchiveJob_def PauseJob_def ResumeJob_def RunNow_def Let_def split: option.split)

lemma sim_verbs:
  assumes sim: "sim env f db"
  shows "\<exists>f' db' a. ArchiveJob src jid f = (a, f') \<and> pgArchiveJob src jid db = (a, db') \<and> sim env f' db'"
    and "\<exists>f' db' a. PauseJob src jid f = (a, f') \<and> pgPauseJob src jid db = (a, db') \<and> sim env f' db'"
    and "\<exists>f' db' a. ResumeJob src jid f = (a, f') \<and> pgResumeJob src jid db = (a, db') \<and> sim env f' db'"
    and "\<exists>f' db' a. RunNow src jid f = (a, f') \<and> pgRunNow src jid db = (a, db') \<and> sim env f' db'"
  by (rule sim_verb [OF sim ArchiveJob_verb pg_verbs(1)] sim_verb [OF sim PauseJob_verb pg_verbs(2)]
      sim_verb [OF sim ResumeJob_verb pg_verbs(3)] sim_verb [OF sim RunNow_verb pg_run_now],
      simp_all add: fake_verb_frames row_relD(4) verb_rel)+

section \<open>Maintenance and deletion\<close>

lemma range_fold_frame:
  assumes "\<And>k v st. fake_frame (snd (body k v st)) = fake_frame (snd st)"
  shows "fake_frame (snd (range_fold get body s)) = fake_frame (snd s)"
  using range_fold_inv [where I = "\<lambda>st. fake_frame (snd st) = fake_frame (snd s)" and s = s and get = get and body = body]
  assms by auto

lemma fake_effect_frames [simp]:
  "fake_frame (recordAttempt jid a e t s) = fake_frame s" "fake_frame (bumpStat src kind fld n t s) = fake_frame s"
  "fake_frame (wake src kind s) = fake_frame s" "fake_frame (changeJob j s) = fake_frame s"
  "fake_frame (putJob j s) = fake_frame s" "fake_frame (delJob jid s) = fake_frame s"
  by (simp_all add: fake_frame_def)

lemma fake_loop_frames:
  "fake_frame (snd (PromoteDue src kinds f)) = fake_frame f"
  "fake_frame (snd (ReapExpired src kinds mr f)) = fake_frame f"
  "fake_frame (snd (range_fold (jobs \<circ> snd) (delete_body P) (0, f))) = fake_frame f"
proof -
  have b: "fake_frame (fold (\<lambda>p. bumpStat src (fst p) fld (snd p) t) ps s) = fake_frame s" for ps fld t s
    by (induction ps arbitrary: s) auto
  have "fake_frame (snd (promote_body src kinds k v st)) = fake_frame (snd st)" for k v st
    by (simp add: promote_body_def Let_def case_prod_unfold)
  note R = range_fold_frame [OF this]
  show "fake_frame (snd (PromoteDue src kinds f)) = fake_frame f"
    by (simp add: PromoteDue_def Let_def case_prod_unfold R)
  have "fake_frame (snd (reap_body src kinds mr k v st)) = fake_frame (snd st)" for k v st
    by (simp add: reap_body_def Let_def case_prod_unfold)
  note R = range_fold_frame [OF this]
  show "fake_frame (snd (ReapExpired src kinds mr f)) = fake_frame f"
    by (simp add: ReapExpired_def Let_def case_prod_unfold b R)
  have "fake_frame (snd (delete_body P k v st)) = fake_frame (snd st)" for k v st
    by (simp add: delete_body_def Let_def case_prod_unfold)
  note R = range_fold_frame [OF this]
  show "fake_frame (snd (range_fold (jobs \<circ> snd) (delete_body P) (0, f))) = fake_frame f" by (simp add: R)
qed

lemma promotable_rel: "row_rel env evs r j \<Longrightarrow> pg_promotable src kinds now r \<longleftrightarrow> promotable src kinds now j"
  by (auto simp: pg_promotable_def promotable_def sliceSet_def row_relD)

lemma expired_rel: "row_rel env evs r j \<Longrightarrow> pg_expired src kinds now r \<longleftrightarrow> expired src kinds now j"
  using row_relD(15) [of env evs r j]
  by (cases "rLeaseUntil r") (auto simp: pg_expired_def expired_def sliceSet_def timeOf_def row_ok_def row_relD)

lemma reap_rel:
  assumes "row_rel env evs r j" "rState r = StateActive"
  shows "row_rel env evs (reapSet mr now r) (reaped_job mr now j)"
proof -
  have "row_ok (reapSet mr now r)" using row_relD(15) [OF assms(1)] by (auto simp: row_ok_def reapSet_def Let_def)
  moreover have "pgToJob env (reapSet mr now r) = toJob (reaped_job mr now j)"
  proof -
    have "pgToJob env (reapSet mr now r) =
        (if mr \<le> rReapCount r + 1
         then (pgToJob env r)\<lparr>jReapCount := rReapCount r + 1, jLeaseToken := Nil_uuid, jLeaseUntil := zero_time,
                jState := StateDead, jLastError := ''lease expired '' @ itoa (rReapCount r + 1) @ '' times'', jFailedAt := now\<rparr>
         else (pgToJob env r)\<lparr>jReapCount := rReapCount r + 1, jLeaseToken := Nil_uuid, jLeaseUntil := zero_time,
                jState := StatePending\<rparr>)"
      by (simp add: pgToJob_def reapSet_def unleased_def timeOf_def toUUID_def Let_def)
    with assms(1) row_relD(7) [OF assms(1)] show ?thesis
      by (simp add: row_rel_def) (simp add: toJob_def job.truncate_def reaped_job_def Let_def)
  qed
  ultimately show ?thesis using assms(1)
    by (simp add: row_rel_def) (simp add: reapSet_def reaped_job_def Let_def)
qed

text \<open>A pass that rewrites exactly the matching rows, on both sides.\<close>

lemma sim_pass:
  assumes sim: "sim env f db" and f': "wf_jobs f'" "fake_frame f' = fake_frame f"
    and db': "pg_keyed db'" "pg_frame db' = pg_frame db"
    and tab: "tab db' = (\<lambda>k. Option.bind (tab db k) (\<lambda>r. if w r then G r else Some r))"
    and jobs: "map_of (jobs f') = (\<lambda>k. Option.bind (map_of (jobs f) k) (\<lambda>j. if P j then H j else Some j))"
    and same: "\<And>r j. row_rel env (events f) r j \<Longrightarrow> w r \<longleftrightarrow> P j"
    and rel: "\<And>r j. row_rel env (events f) r j \<Longrightarrow> w r \<Longrightarrow> rel_option (row_rel env (events f)) (G r) (H j)"
  shows "sim env f' db'"
proof (rule sim_step [OF sim f' db'])
  fix k
  from sim show "rel_option (row_rel env (events f)) (tab db' k) (map_of (jobs f') k)"
  proof (cases rule: sim_rows [where k = k])
    case (row r j)
    with same [OF row(3)] rel [OF row(3)] show ?thesis by (simp add: tab jobs)
  qed (simp add: tab jobs)
qed

lemma sim_promote:
  assumes sim: "sim env f db"
  shows "\<exists>f' db' a. PromoteDue src kinds f = (a, f') \<and>
    loop_outcome db (pgPromoteDue (finishInit st) (\<lambda>_ _. False) src kinds db) = (a, db') \<and> sim env f' db'"
proof (cases "kinds = []")
  case False
  let ?w = "pg_promotable src kinds (pgNow db)" and ?P = "promotable src kinds (clock f)"
  obtain f' where f': "PromoteDue src kinds f = (Inr (int (length (filter ?P (map snd (jobs f))))), f')" "wf_jobs f'"
    "map_of (jobs f') = (\<lambda>k. map_option (\<lambda>j. if ?P j then j\<lparr>jState := StatePending\<rparr> else j) (map_of (jobs f) k))"
    by (rule PromoteDue_result [OF simD(2) [OF sim] False])
  obtain S j db' where db': "pgPromoteDue (finishInit st) (\<lambda>_ _. False) src kinds db = Some ((None, int (card S)), db')"
    "pg_keyed db'" "pg_frame db' = pg_frame db" "S \<subseteq> wkeys ?w db" "{k \<in> wkeys ?w db. \<not> False} \<subseteq> S"
    "tab db' = (\<lambda>k. map_option (\<lambda>r. if k \<in> S then r\<lparr>rState := StatePending, rUpdatedAt := pgNow db\<rparr> else r) (tab db k))"
    by (rule pgPromoteDue_result [OF simD(9) [OF sim] False])
  from db'(4,5) have S: "S = wkeys ?w db" by auto
  have same: "?w r \<longleftrightarrow> ?P j" if "row_rel env (events f) r j" for r j
    using that by (simp add: promotable_rel simD(3) [OF sim])
  have "card S = length (filter ?P (map snd (jobs f)))" unfolding S by (rule sim_count [OF sim same])
  moreover have "sim env f' db'"
  proof (rule sim_pass [OF sim f'(2) _ db'(2,3)])
    show "fake_frame f' = fake_frame f" using fake_loop_frames(1) [of src kinds f] f'(1) by simp
    show "tab db' = (\<lambda>k. Option.bind (tab db k) (\<lambda>r. if ?w r then Some (r\<lparr>rState := StatePending, rUpdatedAt := pgNow db\<rparr>) else Some r))"
      by (auto simp: db'(6) S wkeys_def fun_eq_iff split: option.split bind_splits)
    show "map_of (jobs f') = (\<lambda>k. Option.bind (map_of (jobs f) k) (\<lambda>j. if ?P j then Some (j\<lparr>jState := StatePending\<rparr>) else Some j))"
      by (auto simp: f'(3) fun_eq_iff split: option.split bind_splits)
    show "?w r \<longleftrightarrow> ?P j" if "row_rel env (events f) r j" for r j using that by (rule same)
  qed (simp add: verb_rel(5) pg_promotable_def)
  ultimately show ?thesis using f'(1) db'(1) by (simp add: loop_outcome_def)
qed (simp add: PromoteDue_def pgPromoteDue_def loop_outcome_def sim)

lemma sim_reap:
  assumes sim: "sim env f db"
  shows "\<exists>f' db' a. ReapExpired src kinds mr f = (a, f') \<and>
    loop_outcome db (pgReapExpired env (finishInit st) (\<lambda>_ _. False) src kinds mr db) = (a, db') \<and> sim env f' db'"
proof (cases "kinds = []")
  case False
  let ?w = "pg_expired src kinds (pgNow db)" and ?P = "expired src kinds (clock f)"
  obtain f' where f': "ReapExpired src kinds mr f = (Inr (int (length (filter ?P (map snd (jobs f)))),
      int (length (filter (\<lambda>j. ?P j \<and> jReapCount j + 1 \<ge> mr) (map snd (jobs f))))), f')" "wf_jobs f'"
    "map_of (jobs f') = (\<lambda>k. map_option (\<lambda>j. if ?P j then reaped_job mr (clock f) j else j) (map_of (jobs f) k))"
    by (rule ReapExpired_result [OF simD(2) [OF sim] False])
  obtain S j db' where db': "pgReapExpired env (finishInit st) (\<lambda>_ _. False) src kinds mr db =
      Some ((None, reap_tally mr (tab db) S), db')"
    "pg_keyed db'" "pg_frame db' = pg_frame db" "S \<subseteq> wkeys ?w db" "{k \<in> wkeys ?w db. \<not> False} \<subseteq> S"
    "tab db' = (\<lambda>k. map_option (\<lambda>r. if k \<in> S then reapSet mr (pgNow db) r else r) (tab db k))"
    by (rule pgReapExpired_result [OF simD(9) [OF sim] False])
  from db'(4,5) have S: "S = wkeys ?w db" by auto
  have same: "?w r \<longleftrightarrow> ?P j" if "row_rel env (events f) r j" for r j
    using that by (simp add: expired_rel simD(3) [OF sim])
  have n1: "card S = length (filter ?P (map snd (jobs f)))" unfolding S by (rule sim_count [OF sim same])
  have "{k \<in> S. \<exists>r. tab db k = Some r \<and> rReapCount r + 1 \<ge> mr} = wkeys (\<lambda>r. ?w r \<and> rReapCount r + 1 \<ge> mr) db"
    by (auto simp: S wkeys_def)
  then have n2: "card {k \<in> S. \<exists>r. tab db k = Some r \<and> rReapCount r + 1 \<ge> mr} =
      length (filter (\<lambda>j. ?P j \<and> jReapCount j + 1 \<ge> mr) (map snd (jobs f)))"
    using sim_count [OF sim, of "\<lambda>r. ?w r \<and> rReapCount r + 1 \<ge> mr" "\<lambda>j. ?P j \<and> jReapCount j + 1 \<ge> mr"]
    by (simp add: same row_relD(7))
  have "sim env f' db'"
  proof (rule sim_pass [OF sim f'(2) _ db'(2,3)])
    show "fake_frame f' = fake_frame f" using fake_loop_frames(2) [of src kinds mr f] f'(1) by simp
    show "tab db' = (\<lambda>k. Option.bind (tab db k) (\<lambda>r. if ?w r then Some (reapSet mr (pgNow db) r) else Some r))"
      by (auto simp: db'(6) S wkeys_def fun_eq_iff split: option.split bind_splits)
    show "map_of (jobs f') = (\<lambda>k. Option.bind (map_of (jobs f) k) (\<lambda>j. if ?P j then Some (reaped_job mr (clock f) j) else Some j))"
      by (auto simp: f'(3) fun_eq_iff split: option.split bind_splits)
    show "?w r \<longleftrightarrow> ?P j" if "row_rel env (events f) r j" for r j using that by (rule same)
  qed (simp add: reap_rel pg_expired_def simD(3) [OF sim])
  with f'(1) db'(1) n1 n2 show ?thesis by (simp add: loop_outcome_def reap_tally_def)
qed (simp add: ReapExpired_def pgReapExpired_def loop_outcome_def sim)

text \<open>Deletions by a condition both sides read the same way.\<close>

lemma sim_delete_loop:
  assumes sim: "sim env f db" and same: "\<And>r j. row_rel env (events f) r j \<Longrightarrow> w (pgNow db) r \<longleftrightarrow> P j"
  obtains f' db' where "range_fold (jobs \<circ> snd) (delete_body P) (0, f) = (int (length (filter P (map snd (jobs f)))), f')"
    "execBatchLoop (finishInit st) (never_fails (\<lambda>_ d. delete_batch (w (pgNow d)) (maintenanceBatch (finishInit st)) d)) db =
       Some ((None, int (length (filter P (map snd (jobs f))))), db')" "sim env f' db'"
proof -
  obtain f' where f': "range_fold (jobs \<circ> snd) (delete_body P) (0, f) = (int (length (filter P (map snd (jobs f)))), f')"
    "wf_jobs f'"
    "map_of (jobs f') = (\<lambda>k. case map_of (jobs f) k of None \<Rightarrow> None | Some j \<Rightarrow> if P j then None else Some j)"
    by (rule delete_loop_result [OF simD(2) [OF sim]])
  obtain db' where db': "execBatchLoop (finishInit st)
      (never_fails (\<lambda>_ d. delete_batch (w (pgNow d)) (maintenanceBatch (finishInit st)) d)) db =
      Some ((None, int (card (wkeys (w (pgNow db)) db))), db')" "pg_keyed db'" "pg_frame db' = pg_frame db"
    "tab db' = (\<lambda>k. case tab db k of None \<Rightarrow> None | Some r \<Rightarrow> if w (pgNow db) r then None else Some r)"
    by (rule pg_delete_loop_result [OF simD(9) [OF sim]])
  have "card (wkeys (w (pgNow db)) db) = length (filter P (map snd (jobs f)))" by (rule sim_count [OF sim same])
  moreover have "sim env f' db'"
  proof (rule sim_pass [OF sim f'(2) _ db'(2,3)])
    show "fake_frame f' = fake_frame f" using fake_loop_frames(3) [of P f] f'(1) by simp
    show "tab db' = (\<lambda>k. Option.bind (tab db k) (\<lambda>r. if w (pgNow db) r then None else Some r))"
      by (auto simp: db'(4) fun_eq_iff split: option.split bind_splits)
    show "map_of (jobs f') = (\<lambda>k. Option.bind (map_of (jobs f) k) (\<lambda>j. if P j then None else Some j))"
      by (auto simp: f'(3) fun_eq_iff split: option.split bind_splits)
    show "w (pgNow db) r \<longleftrightarrow> P j" if "row_rel env (events f) r j" for r j using that by (rule same)
  qed simp
  ultimately show thesis using f'(1) db'(1) by (intro that [of f' db']) simp_all
qed

lemma sim_vacuum_completed:
  assumes sim: "sim env f db" and d: "whole retention"
  shows "\<exists>f' db' a. VacuumCompleted src retention f = (a, f') \<and>
    loop_outcome db (pgVacuumCompleted env (finishInit st) src retention db) = (a, db') \<and> sim env f' db'"
proof (cases "retention \<le> 0")
  case False
  let ?w = "\<lambda>now. pg_vacuumable src (now - make_interval env retention)" and ?P = "vacuumable src (clock f - retention)"
  have same: "?w (pgNow db) r \<longleftrightarrow> ?P j" if "row_rel env (events f) r j" for r j
    using row_relD(15) [OF that] row_relD [OF that] d simD(3,8) [OF sim]
    by (cases "rCompletedAt r"; cases "rDagId r"; cases "rRunId r")
      (auto simp: pg_vacuumable_def vacuumable_def exact_envD timeOf_def toUUID_def row_ok_def)
  obtain f' db' where "range_fold (jobs \<circ> snd) (delete_body ?P) (0, f) = (int (length (filter ?P (map snd (jobs f)))), f')"
    "execBatchLoop (finishInit st) (never_fails (\<lambda>_ d. delete_batch (?w (pgNow d)) (maintenanceBatch (finishInit st)) d)) db =
       Some ((None, int (length (filter ?P (map snd (jobs f))))), db')" "sim env f' db'"
    by (rule sim_delete_loop [where w = ?w and P = ?P, OF sim same])
  with False show ?thesis by (simp add: VacuumCompleted_def pgVacuumCompleted_def loop_outcome_def)
qed (simp add: VacuumCompleted_def pgVacuumCompleted_def loop_outcome_def sim)

lemma sim_vacuum_dead:
  assumes sim: "sim env f db" and d: "whole olderThan"
  shows "\<exists>f' db' a. VacuumDead src kind olderThan f = (a, f') \<and>
    loop_outcome db (pgVacuumDead env (finishInit st) src kind olderThan db) = (a, db') \<and> sim env f' db'"
proof -
  let ?w = "\<lambda>now r. rSource r = src \<and> kindClause kind r \<and> rState r = StateDead \<and> rEnqueuedAt r < now - make_interval env olderThan"
  let ?P = "\<lambda>j. jSource j = src \<and> (kind = [] \<or> jKind j = kind) \<and> jState j = StateDead \<and> jEnqueuedAt j < clock f - olderThan"
  have same: "?w (pgNow db) r \<longleftrightarrow> ?P j" if "row_rel env (events f) r j" for r j
    using row_relD [OF that] d simD(3,8) [OF sim] by (simp add: kindClause_def exact_envD)
  obtain f' db' where "range_fold (jobs \<circ> snd) (delete_body ?P) (0, f) = (int (length (filter ?P (map snd (jobs f)))), f')"
    "execBatchLoop (finishInit st) (never_fails (\<lambda>_ d. delete_batch (?w (pgNow d)) (maintenanceBatch (finishInit st)) d)) db =
       Some ((None, int (length (filter ?P (map snd (jobs f))))), db')" "sim env f' db'"
    by (rule sim_delete_loop [where w = ?w and P = ?P, OF sim same])
  then show ?thesis by (simp add: VacuumDead_def pgVacuumDead_def loop_outcome_def)
qed

lemma sim_delete_all:
  assumes sim: "sim env f db"
  shows "\<exists>f' db' a. DeleteAll src kind state f = (a, f') \<and>
    loop_outcome db (pgDeleteAll (finishInit st) src kind state db) = (a, db') \<and> sim env f' db'"
proof -
  let ?w = "\<lambda>now r. rSource r = src \<and> kindClause kind r \<and> rState r = state"
  let ?P = "\<lambda>j. jSource j = src \<and> (kind = [] \<or> jKind j = kind) \<and> jState j = state"
  have same: "?w (pgNow db) r \<longleftrightarrow> ?P j" if "row_rel env (events f) r j" for r j
    using row_relD [OF that] by (simp add: kindClause_def)
  obtain f' db' where "range_fold (jobs \<circ> snd) (delete_body ?P) (0, f) = (int (length (filter ?P (map snd (jobs f)))), f')"
    "execBatchLoop (finishInit st) (never_fails (\<lambda>_ d. delete_batch (?w (pgNow d)) (maintenanceBatch (finishInit st)) d)) db =
       Some ((None, int (length (filter ?P (map snd (jobs f))))), db')" "sim env f' db'"
    by (rule sim_delete_loop [where w = ?w and P = ?P, OF sim same])
  then show ?thesis by (simp add: DeleteAll_def pgDeleteAll_def loop_outcome_def)
qed

lemma sim_delete_job:
  assumes sim: "sim env f db"
  shows "\<exists>f' db' a. DeleteJob src jid state f = (a, f') \<and> pgDeleteJob src jid state db = (a, db') \<and> sim env f' db'"
proof -
  let ?w = "\<lambda>r. rId r = jid \<and> rSource r = src \<and> rState r = state"
  have miss: "?thesis" if "DeleteJob src jid state f = (Inl (NotFound ''delete''), f)" "\<And>r. tab db jid = Some r \<Longrightarrow> \<not> ?w r"
    using row_miss(3,4) [where w = ?w and jid = jid, OF simD(9) [OF sim] _ that(2)] that(1) sim
    by (simp add: pgDeleteJob_def requireRow_def case_prod_unfold)
  show ?thesis
    using sim
  proof (cases rule: sim_rows [where k = jid])
    case none
    then show ?thesis by (intro miss) (simp_all add: DeleteJob_def)
  next
    case (row r j)
    note R = row_relD [OF row(3)]
    show ?thesis
    proof (cases "?w r")
      case False
      then show ?thesis using row R by (intro miss) (auto simp: DeleteJob_def)
    next
      case True
      note H = row_hit(4,5) [where w = ?w and jid = jid, OF simD(9) [OF sim] _ row(1) True]
      from True row R have f': "DeleteJob src jid state f = (Inr (), delJob jid f)" by (simp add: DeleteJob_def)
      from H(1) have db': "pgDeleteJob src jid state db = (Inr (), snd (sql_delete ?w db))"
        by (simp add: pgDeleteJob_def requireRow_def case_prod_unfold)
      have "sim env (delJob jid f) (snd (sql_delete ?w db))"
        by (rule sim_step [OF sim wf_jobs_delJob [OF simD(2) [OF sim]] _ keyed_delete [OF simD(9) [OF sim]]])
          (use H(2) simD(7) [OF sim] in \<open>simp_all add: AList.delete_conv'\<close>)
      with f' db' show ?thesis by simp
    qed
  qed
qed

section \<open>Enqueue\<close>

text \<open>
  An enqueue both stores treat alike: no time window on its key, a delay of whole
  seconds, and a payload that is JSON in the server's canonical form.
\<close>

definition plain_enqueue :: "pgEnv \<Rightarrow> enqueueParams \<Rightarrow> bool" where
  "plain_enqueue env p =
     (\<not> (epIdempotencyKey p \<noteq> [] \<and> epIdempotencyTTL p > 0) \<and> whole (epDelay p) \<and> timestamptz env (epRunAt p) = epRunAt p \<and>
      (\<exists>payload. epPayload p = Some payload \<and> jsonb env payload = Some payload))"

lemma pgEnqueue_plain:
  assumes "plain_enqueue env p"
  obtains payload where "epPayload p = Some payload"
    "pgEnqueue env st p db =
       (let r = enqueueRow env p payload (pgNow db) in
        if epCoalesceKey p \<noteq> [] \<and> list_ex (coalesce_match p) (map snd (pgJobs db)) \<or>
           list_ex (index_clash r) (map snd (pgJobs db)) then (Inr False, db)
        else if tab db (epID p) \<noteq> None then (Inl AlreadyExists, db)
        else (Inr True, notifyAfterCommit SourceQueue (epKind p)
               (pgBumpStat env st SourceQueue (epKind p) statEnqueued 1 (db\<lparr>pgJobs := pgJobs db @ [(epID p, r)]\<rparr>))))"
proof -
  from assms obtain payload where p: "epPayload p = Some payload" "jsonb env payload = Some payload"
    by (auto simp: plain_enqueue_def)
  with assms show thesis
    by (intro that [of payload])
      (auto simp: pgEnqueue_def enqueue_def plain_enqueue_def Let_def nullableKey_def tab_def)
qed

lemma list_ex_rows: "pg_keyed db \<Longrightarrow> list_ex Q (map snd (pgJobs db)) \<longleftrightarrow> (\<exists>k r. tab db k = Some r \<and> Q r)"
proof -
  assume db: "pg_keyed db"
  have "list_ex Q (map snd (pgJobs db)) \<longleftrightarrow> (\<exists>r. tab db (rId r) = Some r \<and> Q r)"
    unfolding list_ex_iff set_map using in_rows [OF db] by blast
  also have "\<dots> \<longleftrightarrow> (\<exists>k r. tab db k = Some r \<and> Q r)" using pg_keyedD(2) [OF db] by metis
  finally show ?thesis .
qed

lemma list_ex_jobs: "wf_jobs f \<Longrightarrow> list_ex Q (map snd (jobs f)) \<longleftrightarrow> (\<exists>k j. map_of (jobs f) k = Some j \<and> Q j)"
  by (auto simp: list_ex_iff map_of_in_set [OF wf_jobsD(1), symmetric]) force+

lemma sim_list_ex:
  assumes "sim env f db" "\<And>r j. row_rel env (events f) r j \<Longrightarrow> Q r \<longleftrightarrow> Q' j"
  shows "list_ex Q (map snd (pgJobs db)) \<longleftrightarrow> list_ex Q' (map snd (jobs f))"
  unfolding list_ex_rows [OF simD(9) [OF assms(1)]] list_ex_jobs [OF simD(2) [OF assms(1)]]
  using assms(2) sim_get [OF assms(1)] by blast

lemma enqueue_row_rel:
  assumes "exact_env env" "whole (epDelay p)" "timestamptz env (epRunAt p) = epRunAt p" "epPayload p = Some payload"
  shows "row_rel env evs (enqueueRow env p payload now) (enqueue_job p now sq)"
  using assms by (auto simp: row_rel_def row_ok_def pgToJob_def toJob_def job.truncate_def enqueueRow_def enqueue_job_def
      zeroJob_def Let_def nullableTime_def nullableKey_def enqueue_runAt_def enqueue_state_def timeOf_def toUUID_def
      decodeMeta_def orEmptyMeta_def cloneMeta_def clonePayload_def exact_envD split: option.split)

lemma sim_enqueue:
  assumes sim: "sim env f db" and p: "plain_enqueue env p"
  shows "\<exists>f' db' a. Enqueue p f = (a, f') \<and> pgEnqueue env st p db = (a, db') \<and> sim env f' db'"
proof -
  obtain payload where pay: "epPayload p = Some payload" and run: "pgEnqueue env st p db =
       (let r = enqueueRow env p payload (pgNow db) in
        if epCoalesceKey p \<noteq> [] \<and> list_ex (coalesce_match p) (map snd (pgJobs db)) \<or>
           list_ex (index_clash r) (map snd (pgJobs db)) then (Inr False, db)
        else if tab db (epID p) \<noteq> None then (Inl AlreadyExists, db)
        else (Inr True, notifyAfterCommit SourceQueue (epKind p)
               (pgBumpStat env st SourceQueue (epKind p) statEnqueued 1 (db\<lparr>pgJobs := pgJobs db @ [(epID p, r)]\<rparr>))))"
    by (rule pgEnqueue_plain [OF p])
  let ?r = "enqueueRow env p payload (pgNow db)"
  have "coalesce_match p r \<longleftrightarrow> coalesces p j" if "row_rel env (events f) r j" "epCoalesceKey p \<noteq> []" for r j
    using that row_relD [OF that(1)] by (auto simp: coalesce_match_def coalesces_def row_rel_def nullableKey_def)
  then have c: "epCoalesceKey p \<noteq> [] \<Longrightarrow> list_ex (coalesce_match p) (map snd (pgJobs db)) \<longleftrightarrow>
      list_ex (coalesces p) (map snd (jobs f))" by (rule sim_list_ex [OF sim])
  have "index_clash ?r r \<longleftrightarrow> epIdempotencyKey p \<noteq> [] \<and> live_dup p j" if "row_rel env (events f) r j" for r j
    using that row_relD [OF that] by (auto simp: index_clash_def live_dup_def row_rel_def nullableKey_def enqueueRow_def Let_def)
  then have "list_ex (index_clash ?r) (map snd (pgJobs db)) \<longleftrightarrow>
      list_ex (\<lambda>j. epIdempotencyKey p \<noteq> [] \<and> live_dup p j) (map snd (jobs f))" by (rule sim_list_ex [OF sim])
  then have i: "list_ex (index_clash ?r) (map snd (pgJobs db)) \<longleftrightarrow>
      epIdempotencyKey p \<noteq> [] \<and> list_ex (live_dup p) (map snd (jobs f))" by (auto simp: list_ex_iff)
  have ref: "epCoalesceKey p \<noteq> [] \<and> list_ex (coalesce_match p) (map snd (pgJobs db)) \<or>
      list_ex (index_clash ?r) (map snd (pgJobs db)) \<longleftrightarrow> enqueue_refused p f"
    using c i p by (auto simp: enqueue_refused_def reserved_def plain_enqueue_def)
  have ids: "tab db (epID p) = None \<longleftrightarrow> map_of (jobs f) (epID p) = None"
    using sim by (cases rule: sim_rows [where k = "epID p"]) simp_all
  show ?thesis
  proof (cases rule: Enqueue_cases [of p f])
    case refused
    with run ref sim show ?thesis by (simp add: Let_def)
  next
    case exists
    with run ref ids sim show ?thesis by (simp add: Let_def)
  next
    case (inserted f')
    let ?db = "db\<lparr>pgJobs := pgJobs db @ [(epID p, ?r)]\<rparr>"
    let ?db' = "notifyAfterCommit SourceQueue (epKind p) (pgBumpStat env st SourceQueue (epKind p) statEnqueued 1 ?db)"
    from inserted ids have fresh: "tab db (epID p) = None" by simp
    have t: "tab ?db' = (tab db)(epID p \<mapsto> ?r)"
      using fresh by (auto simp: tab_def fun_eq_iff map_of_append map_add_def split: option.split)
    have "rId ?r = epID p" by (simp add: enqueueRow_def Let_def)
    then have "pg_keyed ?db" using simD(9) [OF sim] fresh
      by (auto simp: pg_keyed_def tab_def map_add_def map_of_eq_None_iff split: option.splits)
    then have k: "pg_keyed ?db'" by (simp add: keyed_cong [OF jobs_effects(3)] keyed_cong [OF jobs_effects(2)])
    have "fake_frame f' = fake_frame f" "wf_jobs f'" using inserted(3) Enqueue_wf [OF simD(2) [OF sim], of p]
      by (auto simp: Enqueue_def Let_def nextSeq_def fake_frame_def split: if_splits)
    moreover have "row_rel env (events f) ?r (enqueue_job p (clock f) (jobSeq f + 1))"
      using p pay by (auto simp: simD(3) [OF sim] plain_enqueue_def intro!: enqueue_row_rel simD(8) [OF sim])
    ultimately have "sim env f' ?db'"
      by (intro sim_put [OF sim _ _ k _ t]) (simp_all add: inserted(4) AList.update_conv' pg_frame_def
          notifyAfterCommit_def pgBumpStat_def Let_def)
    with inserted run ref fresh show ?thesis by (simp add: Let_def)
  qed
qed

section \<open>DequeueBatch\<close>

lemma lease_rel:
  assumes "row_rel env evs r j" "exact_env env" "whole (dpLease p)"
  shows "row_rel env evs (pg_lease env p now tok r) (lease_job p now tok j)"
proof -
  have "pgToJob env (pg_lease env p now tok r) =
      (pgToJob env r)\<lparr>jAttempt := rAttempt r + 1,
        jMaxAttempts := (if \<not> rMaxAttemptsExplicit r \<and> dpOverrideDefault p then dpDefaultMaxAttempts p
                         else jMaxAttempts (pgToJob env r)),
        jState := StateActive, jLeaseToken := tok, jLeaseUntil := now + dpLease p, jStartedAt := now\<rparr>"
    using assms(2,3) by (simp add: pgToJob_def pg_lease_def timeOf_def toUUID_def exact_envD)
  then have "pgToJob env (pg_lease env p now tok r) = toJob (lease_job p now tok j)"
    using assms(1) row_relD(6) [OF assms(1)]
    by (simp add: row_rel_def) (simp add: toJob_def job.truncate_def lease_job_def)
  moreover have "row_ok (pg_lease env p now tok r)"
    using row_relD(15) [OF assms(1)] by (simp add: row_ok_def pg_lease_def)
  ultimately show ?thesis using assms(1)
    by (simp add: row_rel_def) (simp add: pg_lease_def lease_job_def)
qed

lemma job_in_map: "wf_jobs f \<Longrightarrow> j \<in> snd ` set (jobs f) \<longleftrightarrow> map_of (jobs f) (jID j) = Some j"
proof
  assume wf: "wf_jobs f"
  note m = map_of_in_set [OF wf_jobsD(1) [OF wf], symmetric]
  { assume "j \<in> snd ` set (jobs f)"
    then obtain k where "map_of (jobs f) k = Some j" unfolding m by auto
    then show "map_of (jobs f) (jID j) = Some j" using wf_jobsD(2) [OF wf] by auto }
  { assume "map_of (jobs f) (jID j) = Some j"
    then show "j \<in> snd ` set (jobs f)" unfolding m by (rule image_eqI [rotated]) simp }
qed

text \<open>
  Both sides list related jobs in the same order when they sort by keys that agree
  on related rows and tell ids apart.
\<close>

lemma distinct_sort_key:
  assumes "distinct (map g xs)" and finer: "\<And>x y. key x = key y \<Longrightarrow> g x = g y"
  shows "distinct (map key (sort_key key xs))"
proof -
  have "inj_on key (set xs)"
  proof (rule inj_onI)
    fix x y assume "x \<in> set xs" "y \<in> set xs" "key x = key y"
    moreover have "inj_on g (set xs)" using assms(1) by (simp add: distinct_map)
    ultimately show "x = y" using inj_onD [of g "set xs" x y] finer [of x y] by blast
  qed
  then show ?thesis using assms(1) by (simp add: distinct_map)
qed

lemma sim_sorted:
  fixes key :: "pgJob \<Rightarrow> 'o::linorder" and key' :: "fakeJob \<Rightarrow> 'o"
  assumes sim: "sim env f db" and same: "\<And>r j. row_rel env (events f) r j \<Longrightarrow> w r \<longleftrightarrow> P j"
    and keys: "\<And>r j. row_rel env (events f) r j \<Longrightarrow> w r \<Longrightarrow> key r = key' j"
    and inj: "\<And>r r'. key r = key r' \<Longrightarrow> rId r = rId r'" "\<And>j j'. key' j = key' j' \<Longrightarrow> jID j = jID j'"
  shows "list_all2 (row_rel env (events f)) (sort_key key (filter w (map snd (pgJobs db))))
    (sort_key key' (filter P (map snd (jobs f))))"
    (is "list_all2 _ ?rs ?js")
proof -
  let ?R = "filter w (map snd (pgJobs db))" and ?J = "filter P (map snd (jobs f))"
  note db = simD(9) [OF sim] and f = simD(2) [OF sim]
  have R: "r \<in> set ?R \<longleftrightarrow> tab db (rId r) = Some r \<and> w r" for r using in_rows [OF db, of r] by simp
  have J: "j \<in> set ?J \<longleftrightarrow> map_of (jobs f) (jID j) = Some j \<and> P j" for j using job_in_map [OF f, of j] by simp
  have to_j: "\<exists>j\<in>set ?J. row_rel env (events f) r j \<and> key' j = key r" if "r \<in> set ?R" for r
  proof -
    from that have r: "tab db (rId r) = Some r" "w r" unfolding R by auto
    then obtain j where j: "map_of (jobs f) (rId r) = Some j" "row_rel env (events f) r j" using sim_get(2) [OF sim] by blast
    with r same row_relD(1) [OF j(2)] have "j \<in> set ?J" unfolding J by simp
    with keys [OF j(2) r(2)] j(2) show ?thesis by auto
  qed
  have to_r: "\<exists>r\<in>set ?R. row_rel env (events f) r j \<and> key' j = key r" if "j \<in> set ?J" for j
  proof -
    from that have j: "map_of (jobs f) (jID j) = Some j" "P j" unfolding J by auto
    then obtain r where r: "tab db (jID j) = Some r" "row_rel env (events f) r j" using sim_get(1) [OF sim] by blast
    with j same [OF r(2)] row_relD(1) [OF r(2)] have w: "w r" and "r \<in> set ?R" unfolding R by simp_all
    moreover have "row_rel env (events f) r j \<and> key' j = key r" using keys [OF r(2) w] r(2) by simp
    ultimately show ?thesis by blast
  qed
  have "key ` set ?R \<subseteq> key' ` set ?J"
  proof
    fix k assume "k \<in> key ` set ?R"
    then obtain r where r: "r \<in> set ?R" "k = key r" by (rule imageE)
    from to_j [OF r(1)] obtain j where "j \<in> set ?J" "key' j = key r" by (elim bexE conjE)
    then show "k \<in> key' ` set ?J" unfolding r(2) by (intro image_eqI) (rule sym)
  qed
  moreover have "key' ` set ?J \<subseteq> key ` set ?R"
  proof
    fix k assume "k \<in> key' ` set ?J"
    then obtain j where j: "j \<in> set ?J" "k = key' j" by (rule imageE)
    from to_r [OF j(1)] obtain r where "r \<in> set ?R" "key' j = key r" by (elim bexE conjE)
    then show "k \<in> key ` set ?R" unfolding j(2) by (intro image_eqI)
  qed
  ultimately have "key ` set ?R = key' ` set ?J" by blast
  then have sets: "set (map key ?rs) = set (map key' ?js)" by simp
  have "distinct (map rId (map snd (pgJobs db)))" unfolding map_rId [OF db] by (rule pg_keyedD [OF db])
  then have d1: "distinct (map key ?rs)" by (rule distinct_sort_key [OF distinct_map_filter inj(1)])
  have "map jID (map snd (jobs f)) = map fst (jobs f)" using f by (auto simp: wf_jobs_def)
  then have "distinct (map jID (map snd (jobs f)))" by (rule ssubst) (rule wf_jobsD(1) [OF f])
  then have d2: "distinct (map key' ?js)" by (rule distinct_sort_key [OF distinct_map_filter inj(2)])
  have eq: "map key ?rs = map key' ?js"
    by (rule sorted_distinct_set_unique [OF _ d1 _ d2 sets]) simp_all
  then have len: "length ?rs = length ?js" using map_eq_imp_length_eq by blast
  show ?thesis
  proof (rule list_all2_all_nthI [OF len])
    fix i assume i: "i < length ?rs"
    have "?js ! i \<in> set ?J" using nth_mem [of i ?js] i len by simp
    then obtain r where r: "r \<in> set ?R" "row_rel env (events f) r (?js ! i)" "key' (?js ! i) = key r" using to_r by blast
    have "key (?rs ! i) = key' (?js ! i)" using arg_cong [OF eq, of "\<lambda>l. l ! i"] i len by simp
    then have "rId (?rs ! i) = rId r" unfolding r(3) by (rule inj(1))
    moreover have "?rs ! i \<in> set ?R" using nth_mem [OF i] by simp
    ultimately have "Some (?rs ! i) = Some r" using r(1) unfolding R by metis
    then have "?rs ! i = r" by (rule option.inject [THEN iffD1])
    with r(2) show "row_rel env (events f) (?rs ! i) (?js ! i)" by (rule ssubst [rotated])
  qed
qed

lemma sim_due:
  assumes sim: "sim env f db" and lim: "0 < dpLimit p"
  shows "list_all2 (row_rel env (events f))
    (sql_pick (pg_due src (dpKind p) (pgNow db)) (\<lambda>r. (rRunAt r, rId r)) (\<lambda>_. False) (dpLimit p) db) (due_jobs src p f)"
proof -
  have "list_all2 (row_rel env (events f))
      (sort_key (\<lambda>r. (rRunAt r, rId r)) (filter (pg_due src (dpKind p) (pgNow db)) (map snd (pgJobs db))))
      (sort_key lease_order (filter (is_due src (dpKind p) (clock f)) (map snd (jobs f))))"
    by (rule sim_sorted [OF sim]) (auto simp: row_relD pg_due_def is_due_def lease_order_def simD(3) [OF sim])
  then have "list_all2 (row_rel env (events f))
      (take (nat (dpLimit p)) (sort_key (\<lambda>r. (rRunAt r, rId r)) (filter (pg_due src (dpKind p) (pgNow db)) (map snd (pgJobs db)))))
      (take (nat (dpLimit p)) (sort_key lease_order (filter (is_due src (dpKind p) (clock f)) (map snd (jobs f)))))"
    by (rule list_all2_takeI)
  moreover have "due_jobs src p f =
      take (nat (dpLimit p)) (sort_key lease_order (filter (is_due src (dpKind p) (clock f)) (map snd (jobs f))))"
    using lim by (auto simp: due_jobs_def Let_def)
  ultimately show ?thesis by (simp add: sql_pick_def)
qed

lemma map_of_fold_update:
  assumes "distinct (map rId xs)"
  shows "map_of (fold (\<lambda>r. AList.update (rId r) r) xs m) = map_of m ++ map_of (map (\<lambda>r. (rId r, r)) xs)"
    and "distinct_keys m \<Longrightarrow> distinct_keys (fold (\<lambda>r. AList.update (rId r) r) xs m)"
  using assms
proof (induction xs arbitrary: m)
  case (Cons x xs)
  { case 1
    then have "map_of (map (\<lambda>r. (rId r, r)) xs) (rId x) = None" by (auto simp: map_of_eq_None_iff)
    with 1 Cons.IH(1) show ?case
      by (auto simp: fun_eq_iff map_add_def AList.update_conv' split: option.split)
  next
    case 2
    with Cons.IH(2) show ?case by (simp add: distinct_keys_update)
  }
qed simp_all

lemma lookup_keyed: "map_of (map (\<lambda>r. (rId r, r)) xs) x = Some r \<Longrightarrow> rId r = x"
  by (auto dest!: map_of_SomeD)

lemma keyed_rel:
  assumes "list_all2 (row_rel env evs) rs js"
  shows "rel_option (row_rel env evs) (map_of (map (\<lambda>r. (rId r, r)) rs) k) (map_of (keyed js) k)"
  using assms by (induction rule: list_all2_induct) (auto dest: row_relD(1))

lemma leased_rel:
  assumes "list_all2 (row_rel env evs) rs js" "exact_env env" "whole (dpLease p)"
  shows "list_all2 (row_rel env evs)
    (map (\<lambda>(i, r). pg_lease env p (clock f) (gen (draws f + i)) r) (List.enumerate 0 rs)) (leased gen p f js)"
proof (rule list_all2_all_nthI)
  show "length (map (\<lambda>(i, r). pg_lease env p (clock f) (gen (draws f + i)) r) (List.enumerate 0 rs)) = length (leased gen p f js)"
    using list_all2_lengthD [OF assms(1)] by simp
  fix i assume "i < length (map (\<lambda>(i, r). pg_lease env p (clock f) (gen (draws f + i)) r) (List.enumerate 0 rs))"
  then have i: "i < length rs" "i < length js" using list_all2_lengthD [OF assms(1)] by simp_all
  have "row_rel env evs (rs ! i) (js ! i)" using assms(1) i(1) by (rule list_all2_nthD)
  from lease_rel [OF this assms(2,3)] i
  show "row_rel env evs (map (\<lambda>(i, r). pg_lease env p (clock f) (gen (draws f + i)) r) (List.enumerate 0 rs) ! i) (leased gen p f js ! i)"
    by (simp add: leased_nth nth_enumerate_eq)
qed

lemma map_rel_eq: "list_all2 P xs ys \<Longrightarrow> (\<And>x y. P x y \<Longrightarrow> F x = G y) \<Longrightarrow> map F xs = map G ys"
  by (induction rule: list_all2_induct) auto

text \<open>The event path: every delivery row joins its ledger row, so none is left out.\<close>

lemma rehydrate_rel:
  assumes sim: "sim env f db" and rel: "row_rel env (events f) r j"
  shows "src \<noteq> SourceEvent \<Longrightarrow> rehydrate src f j = pgToJob env r"
    and "rSource r = SourceEvent \<Longrightarrow> rehydrate SourceEvent f j =
      (pgToJob env r)\<lparr>jEvent := map_option (toRecord (toUUID (rEventId r)))
         (Option.bind (rEventId r) (map_of (pgEvents db)))\<rparr>"
    and "rSource r = SourceEvent \<Longrightarrow> Option.bind (rEventId r) (map_of (pgEvents db)) \<noteq> None"
proof -
  from rel have eq: "pgToJob env r = toJob j" by (simp add: row_rel_def)
  then show "rehydrate src f j = pgToJob env r" if "src \<noteq> SourceEvent" using that by (simp add: rehydrate_def)
  { assume "rSource r = SourceEvent"
    with rel obtain e ev where e: "rEventId r = Some e" "map_of (events f) e = Some ev" by (auto simp: row_rel_def)
    then show "Option.bind (rEventId r) (map_of (pgEvents db)) \<noteq> None" by (simp add: simD(5) [OF sim, symmetric])
    have "jEventID j = e" using row_relD(14) [OF rel] e(1) by (simp add: toUUID_def)
    moreover have "evID ev = e" using simD(6) [OF sim e(2)] .
    ultimately show "rehydrate SourceEvent f j =
      (pgToJob env r)\<lparr>jEvent := map_option (toRecord (toUUID (rEventId r)))
         (Option.bind (rEventId r) (map_of (pgEvents db)))\<rparr>"
      using e eq by (simp add: rehydrate_def Let_def simD(5) [OF sim, symmetric] toRecord_def toUUID_def decodeMeta_def
          cloneMeta_def clonePayload_def) }
qed

lemma dequeue_subscribers: "subscribers (snd (DequeueBatch gen src p f)) = subscribers f"
proof -
  have "subscribers (snd (fold (dequeue_step gen src p) js st)) = subscribers (snd st)" for js st
    by (rule fold_frame [where g = "subscribers \<circ> snd", simplified]) (simp add: dequeue_step_def Let_def split: prod.split)
  from this [of "due_jobs src p f" "([], f)"] show ?thesis
    by (simp add: DequeueBatch_def Let_def split: prod.split) (metis snd_conv)
qed

lemma sim_claim:
  assumes sim: "sim env f db" and lim: "0 < dpLimit p" and p: "whole (dpLease p)"
    and joined: "\<And>r j. row_rel env (events f) r j \<Longrightarrow> rSource r = src \<Longrightarrow> joined r"
    and ans: "\<And>r j. row_rel env (events f) r j \<Longrightarrow> rSource r = src \<Longrightarrow> rehydrate src f j = V r"
  obtains f' db' rows where "DequeueBatch (gen_random_uuid env) src p f = (Inr (map V rows), f')"
    "dequeueClaim env src p (\<lambda>_. False) joined db = (rows, db')" "sim env f' db'"
proof -
  let ?gen = "gen_random_uuid env"
  let ?rs = "sql_pick (pg_due src (dpKind p) (pgNow db)) (\<lambda>r. (rRunAt r, rId r)) (\<lambda>_. False) (dpLimit p) db"
  let ?js = "due_jobs src p f"
  let ?lr = "map (\<lambda>(i, r). pg_lease env p (clock f) (?gen (draws f + i)) r) (List.enumerate 0 ?rs)"
  have rs: "list_all2 (row_rel env (events f)) ?rs ?js" by (rule sim_due [OF sim lim])
  have lr: "list_all2 (row_rel env (events f)) ?lr (leased ?gen p f ?js)" by (rule leased_rel [OF rs simD(8) [OF sim] p])
  have src: "rSource r = src" if "r \<in> set ?rs" for r
    using pick_props(2) [OF simD(9) [OF sim] that] by (simp add: pg_due_def)
  then have all: "filter joined ?rs = ?rs"
    using joined rs by (intro filter_True) (metis (no_types, lifting) list_all2_conv_all_nth in_set_conv_nth)
  obtain f' where f': "DequeueBatch ?gen src p f = (Inr (map (rehydrate src f) (leased ?gen p f ?js)), f')"
    "clock f' = clock f" "events f' = events f" "wf_jobs f'" "draws f' = draws f + length ?js"
    "map_of (jobs f') = map_of (jobs f) ++ map_of (keyed (leased ?gen p f ?js))"
    by (rule DequeueBatch_result [OF simD(2) [OF sim] lim])
  let ?db' = "db\<lparr>pgJobs := fold (\<lambda>r. AList.update (rId r) r) ?lr (pgJobs db), pgTokens := pgTokens db + length ?lr\<rparr>"
  have db': "dequeueClaim env src p (\<lambda>_. False) joined db = (?lr, ?db')"
    by (simp add: dequeueClaim_def Let_def all simD(3,4) [OF sim])
  have ids: "map rId ?lr = map jID (leased ?gen p f ?js)"
    by (rule map_rel_eq [OF lr]) (simp add: row_relD(1))
  have dist: "distinct (map rId ?lr)" unfolding ids map_jID_leased by (rule due_jobs_props(1) [OF simD(2) [OF sim]])
  note U = map_of_fold_update [OF dist, of "pgJobs db"]
  have t: "tab ?db' = tab db ++ map_of (map (\<lambda>r. (rId r, r)) ?lr)" using U(1) by (simp add: tab_def)
  have rid: "rId r = x" if "tab ?db' x = Some r" for x r
    using that [unfolded t map_add_Some_iff]
  proof
    assume "map_of (map (\<lambda>r. (rId r, r)) ?lr) x = Some r"
    then show ?thesis by (rule lookup_keyed)
  next
    assume "map_of (map (\<lambda>r. (rId r, r)) ?lr) x = None \<and> tab db x = Some r"
    then show ?thesis by (intro pg_keyedD(2) [OF simD(9) [OF sim]]) simp
  qed
  have "distinct_keys (pgJobs ?db')" using U(2) [OF pg_keyedD(1) [OF simD(9) [OF sim]]] by simp
  then have k: "pg_keyed ?db'" unfolding pg_keyed_def using rid by blast
  have "rel_option (row_rel env (events f)) (tab ?db' x) (map_of (jobs f') x)" for x
    using keyed_rel [OF lr, of x] simD(7) [OF sim, of x]
    unfolding t f'(6) by (cases rule: option.rel_cases) (auto simp: map_add_def)
  then have "sim env f' ?db'"
    by (intro simI [OF sim f'(4) k])
      (use f' simD(3-5,11) [OF sim] list_all2_lengthD [OF rs] dequeue_subscribers [of ?gen src p f] in
        \<open>simp_all add: fake_frame_def\<close>)
  moreover have "map (rehydrate src f) (leased ?gen p f ?js) = map V ?lr"
  proof (rule nth_equalityI)
    show "length (map (rehydrate src f) (leased ?gen p f ?js)) = length (map V ?lr)" using list_all2_lengthD [OF rs] by simp
    fix i assume "i < length (map (rehydrate src f) (leased ?gen p f ?js))"
    then have i: "i < length ?lr" "i < length ?rs" using list_all2_lengthD [OF rs] by simp_all
    have "rSource (?lr ! i) = src" using src [OF nth_mem [OF i(2)]] i by (simp add: nth_enumerate_eq pg_lease_def)
    with ans [OF list_all2_nthD [OF lr i(1)]] i list_all2_lengthD [OF rs]
    show "map (rehydrate src f) (leased ?gen p f ?js) ! i = map V ?lr ! i" by simp
  qed
  ultimately show thesis using f'(1) db' by (intro that [of ?lr f' ?db']) simp_all
qed

lemma sim_dequeue:
  assumes sim: "sim env f db" and p: "whole (dpLease p)"
  shows "\<exists>f' db' a. DequeueBatch (gen_random_uuid env) src p f = (a, f') \<and>
    pgDequeueBatch env (\<lambda>_. False) src p db = (a, db') \<and> sim env f' db'"
proof (cases "dpLimit p \<le> 0")
  case False
  then have lim: "0 < dpLimit p" by simp
  show ?thesis
  proof (cases "src = SourceEvent")
    case True
    let ?V = "\<lambda>r. (pgToJob env r)\<lparr>jEvent := map_option (toRecord (toUUID (rEventId r)))
         (Option.bind (rEventId r) (map_of (pgEvents db)))\<rparr>"
    obtain f' db' rows where "DequeueBatch (gen_random_uuid env) SourceEvent p f = (Inr (map ?V rows), f')"
      "dequeueClaim env SourceEvent p (\<lambda>_. False) (\<lambda>r. Option.bind (rEventId r) (map_of (pgEvents db)) \<noteq> None) db = (rows, db')"
      "sim env f' db'"
      by (rule sim_claim [OF sim lim p, of SourceEvent "\<lambda>r. Option.bind (rEventId r) (map_of (pgEvents db)) \<noteq> None" ?V])
        (use rehydrate_rel [OF sim] in blast)+
    with False True show ?thesis by (simp add: pgDequeueBatch_def dequeueEvents_def Let_def)
  next
    case other: False
    obtain f' db' rows where "DequeueBatch (gen_random_uuid env) src p f = (Inr (map (pgToJob env) rows), f')"
      "dequeueClaim env src p (\<lambda>_. False) (\<lambda>_. True) db = (rows, db')" "sim env f' db'"
      by (rule sim_claim [OF sim lim p, of src "\<lambda>_. True" "pgToJob env"]) (use rehydrate_rel(1) [OF sim _ other] in blast)+
    with False other show ?thesis by (simp add: pgDequeueBatch_def)
  qed
qed (simp add: DequeueBatch_def pgDequeueBatch_def sim)

end
