(* ===== verification/Pg_Ledger.thy ===== *)
theory Pg_Ledger
  imports Pg_Refines
begin

text \<open>
  The event ledger of the PostgreSQL store (\<open>driver/azyncpgx/store_events.go\<close> and the
  ledger part of \<open>store_admin.go\<close>): publishing with fan-out, subscribers, replay,
  retention with the cascade of the foreign key, and the ledger listings; and the
  simulation of each operation by the in-memory store.

  An \<open>INSERT ... SELECT\<close> without an order draws its ids in some order of the selected
  rows; the model takes subscribers by name, and events by id. An id that is already
  taken violates the primary key and fails the statement.
\<close>

section \<open>Publish\<close>

definition eventRow :: "pgEnv \<Rightarrow> publishParams \<Rightarrow> string \<Rightarrow> eventRecord" where
  "eventRow env p payload =
     \<lparr>evID = ppID p, evType = ppType p, evAggregateType = ppAggregateType p, evAggregateID = ppAggregateID p,
      evVersion = ppVersion p, evOccurredAt = timestamptz env (ppOccurredAt p), evPayload = Some payload,
      evMeta = orEmptyMeta (ppMeta p)\<rparr>"

definition deliveryRow :: "uuid \<Rightarrow> uuid \<Rightarrow> subRecord \<Rightarrow> bool \<Rightarrow> time \<Rightarrow> pgJob" where
  "deliveryRow jid eid sub replay now =
     \<lparr>rId = jid, rSource = SourceEvent, rKind = subName sub, rState = StatePending, rRunAt = now,
      rLeaseUntil = None, rLeaseToken = None, rAttempt = 0, rMaxAttempts = subMaxAttempts sub,
      rMaxAttemptsExplicit = True, rReapCount = 0, rPayload = None, rMeta = Some [], rIdempotencyKey = None,
      rCoalesceKey = None, rEventId = Some eid, rReplay = replay, rLastError = None, rEnqueuedAt = now,
      rFailedAt = None, rCompletedAt = None, rStartedAt = None, rUpdatedAt = now, rDagId = None, rRunId = None,
      rTaskKey = None, rResult = None, rSignalName = None, rCompensationKind = None, rIgnoreDeadDeps = False,
      rSnoozeBudget = None, rDeadlineAt = None\<rparr>"

definition drawn :: "pgEnv \<Rightarrow> nat \<Rightarrow> pgdb \<Rightarrow> uuid list" where
  "drawn env n db = map (\<lambda>i. gen_random_uuid env (pgTokens db + i)) [0..<n]"

definition ids_fresh :: "pgEnv \<Rightarrow> nat \<Rightarrow> pgdb \<Rightarrow> bool" where
  "ids_fresh env n db = (distinct (drawn env n db) \<and> list_all (\<lambda>k. map_of (pgJobs db) k = None) (drawn env n db))"

text \<open>\<open>INSERT INTO azync_jobs ... SELECT gen_random_uuid(), 'event', ... RETURNING kind\<close>.\<close>

definition insert_deliveries ::
  "pgEnv \<Rightarrow> bool \<Rightarrow> (uuid \<times> subRecord) list \<Rightarrow> pgdb \<Rightarrow> (pgdb, string list) outcome" where
  "insert_deliveries env replay targets db =
     (if ids_fresh env (length targets) db
      then let rows = map2 (\<lambda>jid (eid, sub). deliveryRow jid eid sub replay (pgNow db)) (drawn env (length targets) db) targets
           in (Inr (map rKind rows),
               db\<lparr>pgJobs := pgJobs db @ map (\<lambda>r. (rId r, r)) rows, pgTokens := pgTokens db + length targets\<rparr>)
      else (Inl (OtherError ''azync_jobs_pkey''), db))"

definition subscribed :: "string \<Rightarrow> pgdb \<Rightarrow> subRecord list" where
  "subscribed etype db = sort_key subName (map snd (filter (\<lambda>(k, r). subEventType r = etype) (pgSubscribers db)))"

definition collectKinds :: "string list \<Rightarrow> string list \<times> int" where
  "collectKinds rows = (remdups rows, int (length rows))"

definition publish :: "pgEnv \<Rightarrow> publishParams \<Rightarrow> pgdb \<Rightarrow> (pgdb, string list \<times> int) outcome" where
  "publish env p db =
     (case jsonb env (the_default [] (ppPayload p)) of
        None \<Rightarrow> (Inl (OtherError ''azyncpgx: append event''), db)
      | Some payload \<Rightarrow>
          if map_of (pgEvents db) (ppID p) \<noteq> None then (Inl AlreadyExists, db)
          else
            let db1 = db\<lparr>pgEvents := pgEvents db @ [(ppID p, eventRow env p payload)]\<rparr>
            in case insert_deliveries env False (map (\<lambda>sub. (ppID p, sub)) (subscribed (ppType p) db1)) db1 of
                 (Inl e, db2) \<Rightarrow> (Inl e, db2)
               | (Inr rows, db2) \<Rightarrow> (Inr (collectKinds rows), db2))"

definition pgPublish :: "pgEnv \<Rightarrow> publishParams \<Rightarrow> pgdb \<Rightarrow> (pgdb, int) outcome" where
  "pgPublish env p db =
     (case publish env p db of
        (Inl e, _) \<Rightarrow> (Inl e, db)
      | (Inr (kinds, delivered), db') \<Rightarrow> (Inr delivered, fold (notifyAfterCommit SourceEvent) kinds db'))"

text \<open>Inside the caller's transaction the notifies are part of it; an error leaves it to the caller to roll back.\<close>

definition publishInTx :: "pgEnv \<Rightarrow> publishParams \<Rightarrow> pgdb \<Rightarrow> (pgdb, int) outcome" where
  "publishInTx env p db =
     (case publish env p db of
        (Inl e, db') \<Rightarrow> (Inl e, db')
      | (Inr (kinds, delivered), db') \<Rightarrow>
          (Inr delivered, fold (\<lambda>kind d. d\<lparr>pgNotified := pgNotified d @ [notifyPayload SourceEvent kind]\<rparr>) kinds db'))"

definition PublishTx :: "pgEnv \<Rightarrow> publishParams \<Rightarrow> pgdb \<Rightarrow> (pgdb, int) outcome" where
  "PublishTx env p db = publishInTx env p db"

section \<open>Subscribers\<close>

definition pgRegisterSubscriber :: "subscriber \<Rightarrow> pgdb \<Rightarrow> (pgdb, unit) outcome" where
  "pgRegisterSubscriber sub db =
     (let k = (subName sub, subEventType sub);
          created = (case map_of (pgSubscribers db) k of None \<Rightarrow> pgNow db | Some r \<Rightarrow> createdAt r)
      in if subMaxAttempts sub \<le> 0 then (Inl (OtherError ''azyncpgx: register subscriber''), db)
         else (Inr (), db\<lparr>pgSubscribers := AList.update k
                 (subscriber.extend sub \<lparr>createdAt = created, updatedAt = pgNow db\<rparr>) (pgSubscribers db)\<rparr>))"

definition pgSubscribersOf :: "string \<Rightarrow> pgdb \<Rightarrow> subscriber list" where
  "pgSubscribersOf etype db = map subscriber.truncate (subscribed etype db)"

definition pgDeleteSubscriber :: "string \<Rightarrow> string \<Rightarrow> pgdb \<Rightarrow> (pgdb, int) outcome" where
  "pgDeleteSubscriber name etype db =
     (let hit = (\<lambda>(k, r). subName r = name \<and> (etype = [] \<or> subEventType r = etype))
      in (Inr (int (length (filter hit (pgSubscribers db)))),
          db\<lparr>pgSubscribers := filter (\<lambda>e. \<not> hit e) (pgSubscribers db)\<rparr>))"

section \<open>Replay and retention\<close>

definition replayLimitDefault :: int where
  "replayLimitDefault = 1000000"

definition nullableUUID :: "uuid \<Rightarrow> uuid option" where
  "nullableUUID x = (if x = Nil_uuid then None else Some x)"

definition replay_where :: "pgEnv \<Rightarrow> replayFilter \<Rightarrow> eventRecord \<Rightarrow> bool" where
  "replay_where env flt e =
     ((rfEventType flt = [] \<or> evType e = rfEventType flt) \<and>
      (case nullableUUID (rfEventID flt) of None \<Rightarrow> True | Some x \<Rightarrow> evID e = x) \<and>
      (case nullableTime (rfSince flt) of None \<Rightarrow> True | Some t \<Rightarrow> timestamptz env t \<le> evOccurredAt e) \<and>
      (case nullableTime (rfUntil flt) of None \<Rightarrow> True | Some t \<Rightarrow> evOccurredAt e \<le> timestamptz env t))"

definition replay_targets :: "pgEnv \<Rightarrow> replayFilter \<Rightarrow> int \<Rightarrow> pgdb \<Rightarrow> (uuid \<times> subRecord) list" where
  "replay_targets env flt limit db =
     (let es = take (nat limit) (sort_key evID (filter (replay_where env flt) (map snd (pgEvents db))))
      in concat (map (\<lambda>e. map (\<lambda>sub. (evID e, sub))
           (filter (\<lambda>sub. rfSubscriber flt = [] \<or> subName sub = rfSubscriber flt) (subscribed (evType e) db))) es))"

definition pgReplay :: "pgEnv \<Rightarrow> replayFilter \<Rightarrow> pgdb \<Rightarrow> (pgdb, int) outcome" where
  "pgReplay env flt db =
     (let limit = (if rfLimit flt \<le> 0 then replayLimitDefault else rfLimit flt)
      in case insert_deliveries env True (replay_targets env flt limit db) db of
           (Inl e, _) \<Rightarrow> (Inl e, db)
         | (Inr rows, db') \<Rightarrow>
             (let (kinds, created) = collectKinds rows in (Inr created, fold (notifyAfterCommit SourceEvent) kinds db')))"

definition in_flight :: "uuid \<Rightarrow> pgJob \<Rightarrow> bool" where
  "in_flight eid r = (rEventId r = Some eid \<and> rState r \<noteq> StateSucceeded \<and> rState r \<noteq> StateDead)"

definition pgRetain :: "pgEnv \<Rightarrow> time \<Rightarrow> int \<Rightarrow> pgdb \<Rightarrow> (pgdb, int) outcome" where
  "pgRetain env before limit db =
     (if limit \<le> 0 then (Inr 0, db)
      else
        let gone = map evID (take (nat limit) (sort_key (\<lambda>e. (evOccurredAt e, evID e))
                     (filter (\<lambda>e. evOccurredAt e < timestamptz env before \<and>
                                   \<not> list_ex (in_flight (evID e)) (map snd (pgJobs db))) (map snd (pgEvents db)))));
            db1 = snd (sql_delete (\<lambda>r. (case rEventId r of None \<Rightarrow> False | Some e \<Rightarrow> e \<in> set gone)) db)
        in (Inr (int (length (filter (\<lambda>(k, e). k \<in> set gone) (pgEvents db)))),
            db1\<lparr>pgEvents := filter (\<lambda>(k, e). k \<notin> set gone) (pgEvents db1)\<rparr>))"

section \<open>Ledger listings\<close>

definition pg_deliveries :: "uuid \<Rightarrow> pgdb \<Rightarrow> int" where
  "pg_deliveries eid db =
     int (length (filter (\<lambda>r. rEventId r = Some eid \<and> rSource r = SourceEvent) (map snd (pgJobs db))))"

definition eventWhere :: "pgEnv \<Rightarrow> eventFilter \<Rightarrow> pgdb \<Rightarrow> eventRecord \<Rightarrow> bool" where
  "eventWhere env flt db e =
     ((efType flt \<noteq> [] \<longrightarrow> evType e = efType flt) \<and>
      (efSince flt \<noteq> zero_time \<longrightarrow> timestamptz env (efSince flt) \<le> evOccurredAt e) \<and>
      (efUntil flt \<noteq> zero_time \<longrightarrow> evOccurredAt e \<le> timestamptz env (efUntil flt)) \<and>
      (case efUndispatched flt of None \<Rightarrow> True | Some True \<Rightarrow> pg_deliveries (evID e) db = 0
         | Some False \<Rightarrow> pg_deliveries (evID e) db \<noteq> 0))"

definition scanEventAdminRow :: "eventRecord \<Rightarrow> pgdb \<Rightarrow> eventAdminRow" where
  "scanEventAdminRow e db =
     (let n = pg_deliveries (evID e) db
      in \<lparr>earEvent = e\<lparr>evMeta := decodeMeta (evMeta e)\<rparr>,
          earDispatchedAt = (if n > 0 then evOccurredAt e else zero_time), earDeliveries = n\<rparr>)"

definition pgListEvents :: "pgEnv \<Rightarrow> eventFilter \<Rightarrow> int \<Rightarrow> int \<Rightarrow> pgdb \<Rightarrow> eventAdminRow list \<times> int" where
  "pgListEvents env flt offset limit db =
     (let es = filter (eventWhere env flt db) (map snd (pgEvents db));
          offset = (if offset < 0 then 0 else offset)
      in (map (\<lambda>e. scanEventAdminRow e db)
            (sql_page offset (limitArg limit) (sort_key (\<lambda>e. (- evOccurredAt e, - int (evID e))) es)),
          int (length es)))"

definition pgGetEvent :: "uuid \<Rightarrow> pgdb \<Rightarrow> error + eventAdminRow" where
  "pgGetEvent eid db =
     (case filter (\<lambda>e. evID e = eid) (map snd (pgEvents db)) of
        [] \<Rightarrow> Inl (NotFound ''get event'')
      | e # _ \<Rightarrow> Inr (scanEventAdminRow e db))"

definition pgListSubscriberViews :: "string \<Rightarrow> pgdb \<Rightarrow> subscriberView list" where
  "pgListSubscriberViews etype db =
     sort_key (\<lambda>v. (svEventType v, svSubscriber v))
       (map (\<lambda>(k, r). \<lparr>svEventType = subEventType r, svSubscriber = subName r, svMaxAttempts = subMaxAttempts r,
               svCreatedAt = createdAt r, svUpdatedAt = updatedAt r\<rparr>)
          (filter (\<lambda>(k, r). etype = [] \<or> subEventType r = etype) (pgSubscribers db)))"

definition pgOpsStats :: "pgdb \<Rightarrow> opsStats" where
  "pgOpsStats db =
     (let es = map snd (pgEvents db);
          recent = filter (\<lambda>e. pgNow db - 24 * 3600 * nsPerSecond \<le> evOccurredAt e) es
      in \<lparr>osUndispatched = int (length (filter (\<lambda>e. pg_deliveries (evID e) db = 0) es)),
          osTotal24h = int (length recent), osTypes24h = int (length (remdups (map evType recent))),
          osSubscribers = int (length (pgSubscribers db))\<rparr>)"

section \<open>The ledger operations simulate\<close>

lemma sql_page_paginate: "sql_page (if offset < 0 then 0 else offset) (limitArg limit) xs = paginate offset limit xs"
  by (auto simp: sql_page_def limitArg_def paginate_def Let_def)

lemma delivery_rel:
  assumes "exact_env env" "map_of evs eid = Some ev"
  shows "row_rel env evs (deliveryRow jid eid sub replay now)
    (delivery_job jid eid (subName sub) (subMaxAttempts sub) replay now sq)"
  using assms by (auto simp: row_rel_def row_ok_def pgToJob_def toJob_def job.truncate_def deliveryRow_def delivery_job_def
      zeroJob_def nullableKey_def timeOf_def toUUID_def decodeMeta_def cloneMeta_def clonePayload_def exact_envD)

text \<open>One delivery on both sides.\<close>

definition pg_deliver :: "pgEnv \<Rightarrow> bool \<Rightarrow> uuid \<times> subRecord \<Rightarrow> pgdb \<Rightarrow> pgdb" where
  "pg_deliver env replay t db =
     (let jid = gen_random_uuid env (pgTokens db)
      in db\<lparr>pgJobs := pgJobs db @ [(jid, deliveryRow jid (fst t) (snd t) replay (pgNow db))], pgTokens := Suc (pgTokens db)\<rparr>)"

definition fake_deliver :: "pgEnv \<Rightarrow> bool \<Rightarrow> uuid \<times> subRecord \<Rightarrow> fake \<Rightarrow> fake" where
  "fake_deliver env replay t f =
     createDelivery (gen_random_uuid env) (fst t) (subName (snd t)) (subMaxAttempts (snd t)) replay (clock f) f"

lemma sim_deliver:
  assumes sim: "sim env f db" and new: "tab db (gen_random_uuid env (pgTokens db)) = None"
    and ev: "map_of (events f) (fst t) \<noteq> None"
  shows "sim env (fake_deliver env replay t f) (pg_deliver env replay t db)"
proof -
  let ?jid = "gen_random_uuid env (pgTokens db)"
  let ?f = "fake_deliver env replay t f" and ?db = "pg_deliver env replay t db"
  obtain ev' where ev': "map_of (events f) (fst t) = Some ev'" using ev by auto
  have tab: "tab ?db = (tab db)(?jid \<mapsto> deliveryRow ?jid (fst t) (snd t) replay (pgNow db))"
    using new by (auto simp: pg_deliver_def Let_def tab_def fun_eq_iff map_add_def split: option.split)
  have jobs: "map_of (jobs ?f) = (map_of (jobs f))(?jid \<mapsto>
      delivery_job ?jid (fst t) (subName (snd t)) (subMaxAttempts (snd t)) replay (clock f) (jobSeq f + 1))"
    by (simp add: fake_deliver_def AList.update_conv' simD(4) [OF sim])
  have keyed: "pg_keyed ?db" unfolding pg_keyed_def
  proof
    show "distinct_keys (pgJobs ?db)"
      using pg_keyedD(1) [OF simD(9) [OF sim]] new
      by (auto simp: pg_deliver_def Let_def tab_def map_of_eq_None_iff)
    show "\<forall>k r. tab ?db k = Some r \<longrightarrow> rId r = k"
      using pg_keyedD(2) [OF simD(9) [OF sim]] unfolding tab by (auto simp: deliveryRow_def split: if_splits)
  qed
  show ?thesis
  proof (rule simI [OF sim _ keyed])
    show "wf_jobs ?f" unfolding fake_deliver_def by (rule createDelivery_wf [OF simD(2) [OF sim]])
    fix k show "rel_option (row_rel env (events f)) (tab ?db k) (map_of (jobs ?f) k)"
      using simD(7) [OF sim, of k] delivery_rel [OF simD(8) [OF sim] ev']
      unfolding tab jobs by (auto simp: simD(3) [OF sim])
  qed (use simD(3-5,11) [OF sim] in \<open>simp_all add: fake_deliver_def pg_deliver_def Let_def fake_frame_def\<close>)
qed

lemma drawn_Suc: "drawn env (Suc n) db = gen_random_uuid env (pgTokens db) # drawn env n (pg_deliver env replay t db)"
  by (simp add: drawn_def pg_deliver_def Let_def upt_conv_Cons map_Suc_upt [symmetric] del: upt_Suc)

lemma ids_fresh_Suc:
  "ids_fresh env (Suc n) db \<longleftrightarrow> map_of (pgJobs db) (gen_random_uuid env (pgTokens db)) = None \<and>
     ids_fresh env n (pg_deliver env replay t db)"
proof -
  let ?k = "gen_random_uuid env (pgTokens db)"
  have "map_of (pgJobs (pg_deliver env replay t db)) x = None \<longleftrightarrow> map_of (pgJobs db) x = None \<and> x \<noteq> ?k" for x
    by (auto simp: pg_deliver_def Let_def map_add_def split: option.split)
  then show ?thesis
    unfolding ids_fresh_def drawn_Suc [of env n db replay t] by (auto simp: list_all_iff)
qed

lemma insert_deliveries_fold:
  "insert_deliveries env replay targets db =
     (if ids_fresh env (length targets) db
      then (Inr (map (subName \<circ> snd) targets), fold (pg_deliver env replay) targets db)
      else (Inl (OtherError ''azync_jobs_pkey''), db))"
proof (induction targets arbitrary: db)
  case (Cons t ts)
  let ?db1 = "pg_deliver env replay t db"
  have now: "pgNow ?db1 = pgNow db" "pgTokens ?db1 = Suc (pgTokens db)" by (simp_all add: pg_deliver_def Let_def)
  show ?case
  proof (cases "ids_fresh env (length (t # ts)) db")
    case True
    then have f1: "ids_fresh env (length ts) ?db1" using ids_fresh_Suc [of env "length ts" db replay t] by simp
    with Cons [of ?db1] True show ?thesis
      by (cases t) (simp add: insert_deliveries_def Let_def drawn_Suc [of env "length ts" db replay t] now,
        simp add: pg_deliver_def Let_def deliveryRow_def)
  qed (simp add: insert_deliveries_def)
qed (simp add: insert_deliveries_def ids_fresh_def drawn_def)

lemma fake_deliver_frame [simp]:
  "events (fake_deliver env replay t f) = events f" "subscribers (fake_deliver env replay t f) = subscribers f"
  "clock (fake_deliver env replay t f) = clock f"
  by (simp_all add: fake_deliver_def)

lemma sim_deliveries:
  assumes "sim env f db" "ids_fresh env (length targets) db" "\<forall>t\<in>set targets. map_of (events f) (fst t) \<noteq> None"
  shows "sim env (fold (fake_deliver env replay) targets f) (fold (pg_deliver env replay) targets db)"
  using assms
proof (induction targets arbitrary: f db)
  case (Cons t ts)
  from Cons.prems(2) have "tab db (gen_random_uuid env (pgTokens db)) = None" "ids_fresh env (length ts) (pg_deliver env replay t db)"
    using ids_fresh_Suc [of env "length ts" db replay t] by (simp_all add: tab_def)
  with Cons.prems show ?case by (simp add: Cons.IH sim_deliver)
qed simp

lemma sort_key_map: "sort_key k (map g xs) = map g (sort_key (k \<circ> g) xs)"
proof (induction xs)
  case (Cons x xs)
  have "insort_key k (g x) (map g ys) = map g (insort_key (k \<circ> g) x ys)" for ys by (induction ys) simp_all
  with Cons show ?case by (simp add: comp_def)
qed simp

lemma subscribersFor_eq: "subscribers f = pgSubscribers db \<Longrightarrow> subscribersFor etype f = map subscriber.truncate (subscribed etype db)"
  by (simp add: subscribersFor_def subscribed_def sort_key_map comp_def) (simp add: subscriber.truncate_def)

lemma fan_deliver:
  "fold (fan_step (gen_random_uuid env) eid replay now) (map subscriber.truncate subs) (n, f) =
     (n + int (length subs), fold (fake_deliver env replay) (map (\<lambda>sub. (eid, sub)) subs) f)" if "now = clock f"
  using that
proof (induction subs arbitrary: n f)
  case (Cons sub subs)
  have "fan_step (gen_random_uuid env) eid replay now (subscriber.truncate sub) (n, f) =
      (n + 1, fake_deliver env replay (eid, sub) f)"
    using Cons.prems by (simp add: fan_step_def fake_deliver_def subscriber.truncate_def)
  with Cons.IH [of "fake_deliver env replay (eid, sub) f" "n + 1"] Cons.prems show ?case by simp
qed simp

lemma fold_notify [simp]:
  "pgJobs (fold (notifyAfterCommit src) kinds db) = pgJobs db" "pg_frame (fold (notifyAfterCommit src) kinds db) = pg_frame db"
  by (induction kinds arbitrary: db) (simp_all add: jobs_effects frame_sql)

lemma sim_notified:
  assumes sim: "sim env f db"
  shows "sim env f (fold (notifyAfterCommit src) kinds db)"
proof (rule sim_step [OF sim simD(2) [OF sim] refl])
  show "pg_keyed (fold (notifyAfterCommit src) kinds db)" using simD(9) [OF sim] by (simp add: keyed_cong [OF fold_notify(1)])
  show "rel_option (row_rel env (events f)) (tab (fold (notifyAfterCommit src) kinds db) k) (map_of (jobs f) k)" for k
    using simD(7) [OF sim, of k] by (simp add: tab_def)
qed simp

lemma subscribed_frame [simp]: "subscribed etype (db\<lparr>pgEvents := evs\<rparr>) = subscribed etype db"
  by (simp add: subscribed_def)

lemma sim_new_event:
  assumes sim: "sim env f db" and new: "map_of (events f) (evID e) = None"
    and f': "fake_frame f' = (clock f, draws f, events f @ [(evID e, e)], subscribers f)" "jobs f' = jobs f"
  shows "sim env f' (db\<lparr>pgEvents := pgEvents db @ [(evID e, e)]\<rparr>)"
proof -
  have ev: "events f' = events f @ [(evID e, e)]" and sub: "subscribers f' = subscribers f" using f'(1) by (simp_all add: fake_frame_def)
  have "wf_jobs f'" using simD(2) [OF sim] by (rule wf_jobs_cong [OF f'(2)])
  then have "wf_ledger f'" using simD(12) [OF sim] new unfolding wf_ledger_def ev sub
    by (auto simp: map_of_eq_None_iff map_add_def split: option.splits)
  moreover have "row_rel env (events f') r j" if "row_rel env (events f) r j" for r j
    using that new unfolding row_rel_def ev by (auto simp: map_add_def split: option.splits)
  then have "rel_option (row_rel env (events f')) (tab db k) (map_of (jobs f) k)" for k
    by (rule option.rel_mono_strong [OF simD(7) [OF sim]])
  moreover have "pg_wf env (db\<lparr>pgEvents := pgEvents db @ [(evID e, e)]\<rparr>)"
    using simD(1) [OF sim] by (simp add: pg_wf_def pg_keyed_def tab_def)
  ultimately show ?thesis using f' simD(3-5,11) [OF sim] by (simp add: sim_def tab_def)
qed

definition plain_publish :: "pgEnv \<Rightarrow> publishParams \<Rightarrow> bool" where
  "plain_publish env p =
     ((\<exists>payload. ppPayload p = Some payload \<and> jsonb env payload = Some payload) \<and>
      timestamptz env (ppOccurredAt p) = ppOccurredAt p)"

lemma sim_publish:
  assumes sim: "sim env f db" and p: "plain_publish env p"
    and fresh: "ids_fresh env (length (subscribed (ppType p) db)) db"
  shows "\<exists>f' db' a. Publish (gen_random_uuid env) p f = (a, f') \<and> pgPublish env p db = (a, db') \<and> sim env f' db'"
proof -
  obtain payload where pay: "ppPayload p = Some payload" "jsonb env payload = Some payload"
    using p by (auto simp: plain_publish_def)
  have row: "eventRow env p payload = ledger_record p"
    using p pay by (simp add: eventRow_def ledger_record_def plain_publish_def clonePayload_def cloneMeta_def orEmptyMeta_def)
  show ?thesis
  proof (cases "map_of (events f) (ppID p)")
    case (Some e)
    then show ?thesis using sim pay
      by (simp add: Publish_def pgPublish_def publish_def simD(5) [OF sim, symmetric])
  next
    case None
    let ?e = "ledger_record p" let ?subs = "subscribed (ppType p) db" let ?ts = "map (\<lambda>sub. (ppID p, sub)) ?subs"
    let ?f1 = "changeEvent (ppID p) (ppType p) (f\<lparr>events := AList.update (ppID p) ?e (events f)\<rparr>)"
    let ?db1 = "db\<lparr>pgEvents := pgEvents db @ [(ppID p, ?e)]\<rparr>"
    have id: "evID ?e = ppID p" by (simp add: ledger_record_def)
    have up: "AList.update (ppID p) ?e (events f) = events f @ [(ppID p, ?e)]" 
      using None by (intro update_fresh) (simp add: map_of_eq_None_iff)
    have s1: "sim env ?f1 ?db1"
      using sim_new_event [OF sim, of ?e ?f1] None up by (simp add: id fake_frame_def)
    have fresh1: "ids_fresh env (length ?ts) ?db1" using fresh by (simp add: ids_fresh_def drawn_def)
    have step: "publish_step (gen_random_uuid env) p (clock f) = fan_step (gen_random_uuid env) (ppID p) False (clock f)"
      by (simp add: publish_step_def fan_step_def fun_eq_iff case_prod_unfold Let_def)
    have fk: "Publish (gen_random_uuid env) p f = (Inr (int (length ?subs)), fold (fake_deliver env False) ?ts ?f1)"
      using None subscribersFor_eq [of ?f1 db "ppType p"] simD(11) [OF sim] fan_deliver [of "clock f" ?f1 env "ppID p" False ?subs 0]
      by (simp add: Publish_def Let_def step)
    obtain kinds where pg: "pgPublish env p db =
        (Inr (int (length ?subs)), fold (notifyAfterCommit SourceEvent) kinds (fold (pg_deliver env False) ?ts ?db1))"
      using None pay fresh1 by (simp add: pgPublish_def publish_def simD(5) [OF sim, symmetric] Let_def row
          insert_deliveries_fold collectKinds_def)
    have "sim env (fold (fake_deliver env False) ?ts ?f1) (fold (pg_deliver env False) ?ts ?db1)"
      by (rule sim_deliveries [OF s1 fresh1]) (simp add: up map_add_def split: option.split)
    then show ?thesis unfolding fk pg by (blast intro: sim_notified)
  qed
qed

lemma wf_ledgerD:
  "wf_ledger f \<Longrightarrow> wf_jobs f" "wf_ledger f \<Longrightarrow> distinct_keys (events f)" "wf_ledger f \<Longrightarrow> distinct_keys (subscribers f)"
  "wf_ledger f \<Longrightarrow> map_of (events f) k = Some e \<Longrightarrow> evID e = k"
  "wf_ledger f \<Longrightarrow> map_of (subscribers f) q = Some r \<Longrightarrow> (subName r, subEventType r) = q"
  unfolding wf_ledger_def by blast+

lemma wf_ledgerI:
  assumes "wf_jobs f" "distinct_keys (events f)" "distinct_keys (subscribers f)"
    and "\<And>k e. map_of (events f) k = Some e \<Longrightarrow> evID e = k"
    and "\<And>q r. map_of (subscribers f) q = Some r \<Longrightarrow> (subName r, subEventType r) = q"
  shows "wf_ledger f"
  unfolding wf_ledger_def using assms by blast

lemma sim_register:
  assumes sim: "sim env f db" and pos: "0 < subMaxAttempts sub"
  shows "\<exists>db'. pgRegisterSubscriber sub db = (Inr (), db') \<and> sim env (RegisterSubscriber sub f) db'"
proof -
  let ?k = "(subName sub, subEventType sub)"
  let ?c = "case map_of (pgSubscribers db) ?k of None \<Rightarrow> pgNow db | Some r \<Rightarrow> createdAt r"
  let ?row = "subscriber.extend sub \<lparr>createdAt = ?c, updatedAt = pgNow db\<rparr>"
  let ?f = "RegisterSubscriber sub f"
  have key: "subName r = subName sub" "subEventType r = subEventType sub" if "map_of (subscribers f) ?k = Some r" for r
    using simD(12) [OF sim] that by (auto simp: wf_ledger_def)
  have subs: "subscribers ?f = AList.update ?k ?row (pgSubscribers db)"
    using key simD(3,11) [OF sim]
    by (auto simp: RegisterSubscriber_def Let_def subscriber.extend_def split: option.split intro!: arg_cong [where f = "\<lambda>r. AList.update ?k r _"])
  have frame: "jobs ?f = jobs f" "events ?f = events f" "clock ?f = clock f" "draws ?f = draws f"
    by (simp_all add: RegisterSubscriber_def Let_def split: option.split)
  have "wf_jobs ?f" using simD(2) [OF sim] by (rule wf_jobs_cong [OF frame(1)])
  then have "wf_ledger ?f"
    using simD(12) [OF sim] unfolding wf_ledger_def subs frame simD(11) [OF sim]
    by (auto simp: distinct_keys_update AList.update_conv' subscriber.extend_def split: if_splits)
  moreover have "pg_wf env (db\<lparr>pgSubscribers := AList.update ?k ?row (pgSubscribers db)\<rparr>)"
    using simD(1) [OF sim] by (simp add: pg_wf_def pg_keyed_def tab_def)
  ultimately have "sim env ?f (db\<lparr>pgSubscribers := AList.update ?k ?row (pgSubscribers db)\<rparr>)"
    using simD(3-5,7,11) [OF sim] by (simp add: sim_def fake_frame_def frame subs tab_def)
  with pos show ?thesis by (simp add: pgRegisterSubscriber_def Let_def)
qed

lemma sim_unregister:
  assumes sim: "sim env f db"
  shows "\<exists>f' db' a. DeleteSubscriber name etype f = (a, f') \<and> pgDeleteSubscriber name etype db = (a, db') \<and> sim env f' db'"
proof -
  let ?hit = "\<lambda>(k, r). subName r = name \<and> (etype = [] \<or> subEventType r = etype)"
  let ?fit = "\<lambda>((n, et), r :: subRecord). n = name \<and> (etype = [] \<or> et = etype)"
  have hit: "?fit e = ?hit e" if "e \<in> set (subscribers f)" for e
  proof -
    obtain k r where e: "e = (k, r)" by (cases e)
    then have "map_of (subscribers f) k = Some r" using simD(12) [OF sim] that by (auto simp: wf_ledger_def)
    then have "(subName r, subEventType r) = k" using simD(12) [OF sim] unfolding wf_ledger_def by blast
    then show ?thesis unfolding e by auto
  qed
  have flt: "filter ?fit (subscribers f) = filter ?hit (pgSubscribers db)"
    "filter (\<lambda>e. \<not> ?fit e) (subscribers f) = filter (\<lambda>e. \<not> ?hit e) (pgSubscribers db)"
    unfolding simD(11) [OF sim, symmetric] by (rule filter_cong; use hit in auto)+
  let ?subs = "filter (\<lambda>e. \<not> ?hit e) (pgSubscribers db)"
  note wf = simD(12) [OF sim]
  have "wf_ledger (f\<lparr>subscribers := ?subs\<rparr>)"
  proof (rule wf_ledgerI)
    show "wf_jobs (f\<lparr>subscribers := ?subs\<rparr>)" using simD(2) [OF sim] by (rule wf_jobs_cong [rotated]) simp
    show "distinct_keys (subscribers (f\<lparr>subscribers := ?subs\<rparr>))"
      using distinct_keys_filter [OF wf_ledgerD(3) [OF wf]] unfolding simD(11) [OF sim] by simp
    fix q r assume "map_of (subscribers (f\<lparr>subscribers := ?subs\<rparr>)) q = Some r"
    then have "(q, r) \<in> set (subscribers f)" unfolding simD(11) [OF sim] by (auto dest: map_of_SomeD)
    then have "map_of (subscribers f) q = Some r" by (rule map_of_is_SomeI [OF wf_ledgerD(3) [OF wf]])
    then show "(subName r, subEventType r) = q" by (rule wf_ledgerD(5) [OF wf])
  qed (use wf_ledgerD(2,4) [OF wf] in simp_all)
  moreover have "pg_wf env (db\<lparr>pgSubscribers := ?subs\<rparr>)" using simD(1) [OF sim] by (simp add: pg_wf_def pg_keyed_def tab_def)
  ultimately have "sim env (f\<lparr>subscribers := ?subs\<rparr>) (db\<lparr>pgSubscribers := ?subs\<rparr>)"
    using simD(3-5,7) [OF sim] by (simp add: sim_def fake_frame_def tab_def)
  then show ?thesis unfolding DeleteSubscriber_def pgDeleteSubscriber_def Let_def flt by blast
qed

lemma replay_fold:
  assumes "subscribers (snd st) = pgSubscribers db" "now = clock (snd st)"
    and "ts = concat (map (\<lambda>e. map (\<lambda>sub. (evID e, sub))
         (filter (\<lambda>sub. rfSubscriber flt = [] \<or> subName sub = rfSubscriber flt) (subscribed (evType e) db))) es)"
  shows "fold (replay_event (gen_random_uuid env) flt now) es st =
    (fst st + int (length ts), fold (fake_deliver env True) ts (snd st))"
  using assms
proof (induction es arbitrary: st ts)
  case (Cons e es)
  let ?subs = "filter (\<lambda>sub. rfSubscriber flt = [] \<or> subName sub = rfSubscriber flt) (subscribed (evType e) db)"
  have "replay_subs flt e (snd st) = map subscriber.truncate ?subs"
    using subscribersFor_eq [OF Cons.prems(1), of "evType e"]
    by (simp add: replay_subs_def filter_map comp_def subscriber.truncate_def)
  then have step: "replay_event (gen_random_uuid env) flt now e st =
      (fst st + int (length ?subs), fold (fake_deliver env True) (map (\<lambda>sub. (evID e, sub)) ?subs) (snd st))"
    using fan_deliver [of now "snd st" env "evID e" True ?subs "fst st"] Cons.prems(2) by (simp add: replay_event_fan)
  have frame: "subscribers (fold (fake_deliver env True) xs f) = subscribers f" "clock (fold (fake_deliver env True) xs f) = clock f" for xs f
    by (rule fold_frame, simp)+
  let ?st = "(fst st + int (length ?subs), fold (fake_deliver env True) (map (\<lambda>sub. (evID e, sub)) ?subs) (snd st))"
  let ?ts = "concat (map (\<lambda>e. map (\<lambda>sub. (evID e, sub))
         (filter (\<lambda>sub. rfSubscriber flt = [] \<or> subName sub = rfSubscriber flt) (subscribed (evType e) db))) es)"
  have "fold (replay_event (gen_random_uuid env) flt now) es ?st = (fst ?st + int (length ?ts), fold (fake_deliver env True) ?ts (snd ?st))"
    by (rule Cons.IH) (use Cons.prems in \<open>simp_all add: frame\<close>)
  then show ?case using Cons.prems(3) by (simp add: step)
qed simp

definition plain_replay :: "pgEnv \<Rightarrow> replayFilter \<Rightarrow> bool" where
  "plain_replay env flt =
     (0 < rfLimit flt \<and> timestamptz env (rfSince flt) = rfSince flt \<and> timestamptz env (rfUntil flt) = rfUntil flt)"

lemma sim_replay:
  assumes sim: "sim env f db" and p: "plain_replay env flt"
    and fresh: "ids_fresh env (length (replay_targets env flt (rfLimit flt) db)) db"
  shows "\<exists>f' db' a. Replay (gen_random_uuid env) flt f = (a, f') \<and> pgReplay env flt db = (a, db') \<and> sim env f' db'"
proof -
  let ?ts = "replay_targets env flt (rfLimit flt) db"
  have w: "replay_where env flt = replay_matches flt"
    using p by (auto simp: fun_eq_iff replay_where_def replay_matches_def nullableUUID_def nullableTime_def plain_replay_def)
  have es: "replay_events flt f = take (nat (rfLimit flt)) (sort_key evID (filter (replay_where env flt) (map snd (pgEvents db))))"
    using p by (auto simp: w replay_events_def Let_def simD(5) [OF sim] plain_replay_def)
  have fk: "Replay (gen_random_uuid env) flt f = (Inr (int (length ?ts)), fold (fake_deliver env True) ?ts f)"
    using replay_fold [of "(0, f)" db "clock f" ?ts flt "replay_events flt f" env] simD(11) [OF sim]
    by (simp add: Replay_def replay_targets_def Let_def es)
  obtain kinds where pg: "pgReplay env flt db =
      (Inr (int (length ?ts)), fold (notifyAfterCommit SourceEvent) kinds (fold (pg_deliver env True) ?ts db))"
    using fresh p by (simp add: pgReplay_def Let_def insert_deliveries_fold collectKinds_def plain_replay_def)
  have "map_of (events f) (fst t) \<noteq> None" if "t \<in> set ?ts" for t
  proof -
    from that obtain k e where "(k, e) \<in> set (events f)" "fst t = evID e"
      unfolding simD(5) [OF sim] by (auto simp: replay_targets_def Let_def dest!: in_set_takeD)
    then have k: "map_of (events f) k = Some e" by (intro map_of_is_SomeI [OF wf_ledgerD(2) [OF simD(12) [OF sim]]])
    from wf_ledgerD(4) [OF simD(12) [OF sim] k] k \<open>fst t = evID e\<close> show ?thesis by simp
  qed
  then have "sim env (fold (fake_deliver env True) ?ts f) (fold (pg_deliver env True) ?ts db)"
    by (intro sim_deliveries [OF sim fresh]) blast
  then show ?thesis unfolding fk pg by (blast intro: sim_notified)
qed

lemma retain_frame:
  assumes "wf_jobs (snd st)" "r = fold retain_event es st"
  shows "events (snd r) = filter (\<lambda>(k, e). k \<notin> evID ` set es) (events (snd st)) \<and>
    subscribers (snd r) = subscribers (snd st) \<and> draws (snd r) = draws (snd st)"
  using assms
proof (induction es arbitrary: st r)
  case Nil
  then show ?case by simp
next
  case (Cons e es)
  note R = retain_event_result [OF Cons.prems(1), of e]
  have "fake_frame (snd (range_fold (jobs \<circ> snd) (delete_body (is_delivery_of (evID e))) (0, snd st))) = fake_frame (snd st)"
    by (rule fake_loop_frames(3))
  then have "subscribers (snd (retain_event e st)) = subscribers (snd st)" "draws (snd (retain_event e st)) = draws (snd st)"
    by (simp_all add: retain_event_def Let_def case_prod_unfold fake_frame_def)
  with Cons.IH [OF R(1), of r] Cons.prems(2) show ?case
    by (auto simp: R(4) AList.delete_eq intro!: filter_cong)
qed

lemma sim_delivery_of:
  assumes "row_rel env evs r j"
  shows "rEventId r = Some eid \<longleftrightarrow> jSource j = SourceEvent \<and> jEventID j = eid"
  using row_relD(2,14,15) [OF assms] assms by (auto simp: row_rel_def row_ok_def toUUID_def)

lemma sim_cascade:
  assumes sim: "sim env f db" and wf': "wf_jobs f'"
    and frame: "fake_frame f' = (clock f, draws f, filter (\<lambda>(k, e). k \<notin> G) (events f), subscribers f)"
    and jobs: "map_of (jobs f') = (\<lambda>k. case map_of (jobs f) k of None \<Rightarrow> None
        | Some j \<Rightarrow> if jSource j = SourceEvent \<and> jEventID j \<in> G then None else Some j)"
    and keyed: "pg_keyed db'"
    and tab: "\<And>k. tab db' k = (case tab db k of None \<Rightarrow> None
        | Some r \<Rightarrow> if (case rEventId r of None \<Rightarrow> False | Some e \<Rightarrow> e \<in> G) then None else Some r)"
    and pgf: "pg_frame db' = (pgNow db, pgTokens db, (filter (\<lambda>(k, e). k \<notin> G) (pgEvents db), pgSubscribers db), pgKeys db)"
  shows "sim env f' db'"
proof -
  let ?w = "\<lambda>r. case rEventId r of None \<Rightarrow> False | Some e \<Rightarrow> e \<in> G"
  note wf = simD(12) [OF sim]
  have ev: "events f' = filter (\<lambda>(k, e). k \<notin> G) (events f)" and sub: "subscribers f' = subscribers f"
    using frame by (simp_all add: fake_frame_def)
  have look: "map_of (events f') e = (if e \<in> G then None else map_of (events f) e)" for e
    unfolding ev map_of_filter_keyed [OF wf_ledgerD(2) [OF wf]] by (simp split: option.split)
  have w: "?w r \<longleftrightarrow> jSource j = SourceEvent \<and> jEventID j \<in> G" if "row_rel env (events f) r j" for r j
    using sim_delivery_of [OF that, of "jEventID j"] sim_delivery_of [OF that, of "the (rEventId r)"]
    by (auto split: option.split)
  have kept: "row_rel env (events f') r j" if "row_rel env (events f) r j" "\<not> ?w r" for r j
    using that by (auto simp: row_rel_def look)
  have rel: "rel_option (row_rel env (events f')) (tab db' k) (map_of (jobs f') k)" for k
    using sim
  proof (cases rule: sim_rows [where k = k])
    case none
    then show ?thesis by (simp add: tab jobs)
  next
    case (row r j)
    then show ?thesis using w [OF row(3)] kept [OF row(3)] by (cases "?w r") (simp_all add: tab jobs)
  qed
  have led: "wf_ledger f'"
  proof (rule wf_ledgerI)
    show "distinct_keys (events f')" unfolding ev by (rule distinct_keys_filter [OF wf_ledgerD(2) [OF wf]])
    show "distinct_keys (subscribers f')" unfolding sub by (rule wf_ledgerD(3) [OF wf])
    show "(subName s, subEventType s) = q" if "map_of (subscribers f') q = Some s" for q s
      using that unfolding sub by (rule wf_ledgerD(5) [OF wf])
    show "evID e = k" if "map_of (events f') k = Some e" for k e
      using that unfolding look by (auto split: if_splits intro: wf_ledgerD(4) [OF wf])
  qed (rule wf')
  have "row_ok r" if "tab db' k = Some r" for k r
    using that simD(1) [OF sim] by (auto simp: tab dest: pg_wfD split: option.splits if_splits)
  then have "pg_wf env db'"
    unfolding pg_wf_def using simD(8,10) [OF sim] keyed pgf by (simp add: pg_frame_def)
  then show ?thesis
    unfolding sim_def using led rel frame pgf simD(3-5,11) [OF sim] by (simp add: fake_frame_def pg_frame_def)
qed

lemma sim_retain:
  assumes sim: "sim env f db" and before: "timestamptz env before = before"
  shows "\<exists>f' db' a. Retain before limit f = (a, f') \<and> pgRetain env before limit db = (a, db') \<and> sim env f' db'"
proof (cases "limit \<le> 0")
  case True
  with sim show ?thesis by (simp add: Retain_def pgRetain_def)
next
  case False
  let ?C = "retain_candidates before limit f" let ?gone = "map evID ?C"
  let ?w = "\<lambda>r. case rEventId r of None \<Rightarrow> False | Some e \<Rightarrow> e \<in> set ?gone"
  let ?db1 = "snd (sql_delete ?w db)" let ?r = "fold retain_event ?C (0, f)"
  let ?db' = "?db1\<lparr>pgEvents := filter (\<lambda>(k, e). k \<notin> set ?gone) (pgEvents ?db1)\<rparr>"
  note wf = simD(12) [OF sim]
  have "list_ex (in_flight eid) (map snd (pgJobs db)) \<longleftrightarrow> hasInFlightDelivery eid f" for eid
    unfolding hasInFlightDelivery_def
  proof (rule sim_list_ex [OF sim])
    fix r j assume rel: "row_rel env (events f) r j"
    show "in_flight eid r \<longleftrightarrow> jSource j = SourceEvent \<and> jEventID j = eid \<and> jState j \<noteq> StateSucceeded \<and> jState j \<noteq> StateDead"
      using sim_delivery_of [OF rel, of eid] row_relD(4) [OF rel] by (auto simp: in_flight_def)
  qed
  then have C: "?C = take (nat limit) (sort_key (\<lambda>e. (evOccurredAt e, evID e))
      (filter (\<lambda>e. evOccurredAt e < timestamptz env before \<and> \<not> list_ex (in_flight (evID e)) (map snd (pgJobs db))) (map snd (pgEvents db))))"
    using False by (auto simp: retain_candidates_def Let_def before simD(5) [OF sim])
  note F = retain_fold [of "(0, f)" ?r ?C, OF _ refl, simplified, OF simD(2) [OF sim]]
    and E = retain_frame [of "(0, f)" ?r ?C, OF _ refl, simplified, OF simD(2) [OF sim]]
  have ids: "distinct ?gone" "set ?gone \<subseteq> fst ` set (events f)"
  proof -
    have evk: "map evID (map snd (events f)) = map fst (events f)"
      using wf_ledgerD(4) [OF wf] map_of_is_SomeI [OF wf_ledgerD(2) [OF wf]] by (auto simp: comp_def)
    have "distinct (map evID (map snd (events f)))" unfolding evk by (rule wf_ledgerD(2) [OF wf])
    then have "distinct (map evID (filter P (map snd (events f))))" for P by (rule distinct_map_filter)
    then have "distinct (map evID (sort_key (\<lambda>e. (evOccurredAt e, evID e)) (filter P (map snd (events f)))))" for P
      unfolding distinct_map by simp
    then show "distinct ?gone" unfolding C take_map [symmetric] simD(5) [OF sim, symmetric] by (rule distinct_take)
    show "set ?gone \<subseteq> fst ` set (events f)"
    proof
      fix k assume "k \<in> set ?gone"
      then obtain e where "e \<in> set ?C" "k = evID e" by auto
      with retain_candidates_in [of e before limit f] have "k \<in> set (map evID (map snd (events f)))" by auto
      then show "k \<in> fst ` set (events f)" unfolding evk by simp
    qed
  qed
  have "length (filter (\<lambda>(k, e). k \<in> set ?gone) (pgEvents db)) = length ?gone"
  proof -
    have "length (filter (\<lambda>(k, e). k \<in> set ?gone) (events f)) = length (filter (\<lambda>k. k \<in> set ?gone) (map fst (events f)))"
      by (simp add: filter_map comp_def case_prod_unfold)
    also have "\<dots> = card (set ?gone)"
      using ids(2) wf_ledgerD(2) [OF wf] by (subst distinct_card [symmetric]) (auto simp: Int_absorb2 intro!: arg_cong [where f = card])
    finally show ?thesis using ids(1) distinct_card by (metis simD(5) [OF sim])
  qed
  then have pg: "pgRetain env before limit db = (Inr (int (length ?C)), ?db')"
    using False by (simp add: pgRetain_def Let_def C [symmetric])
  have fk: "Retain before limit f = (Inr (int (length ?C)), snd ?r)"
    using False F by (simp add: Retain_def Let_def case_prod_unfold)
  have "sim env (snd ?r) ?db'"
  proof (rule sim_cascade [OF sim, where G = "set ?gone"])
    show "pg_keyed ?db'" using keyed_delete [OF simD(9) [OF sim], of ?w] by (simp add: pg_keyed_def tab_def)
    show "tab ?db' k = (case tab db k of None \<Rightarrow> None | Some r \<Rightarrow> if ?w r then None else Some r)" for k
      using tab_delete [OF simD(9) [OF sim], of ?w k] by (simp add: tab_def)
    show "pg_frame ?db' = (pgNow db, pgTokens db, (filter (\<lambda>(k, e). k \<notin> set ?gone) (pgEvents db), pgSubscribers db), pgKeys db)"
      using frame_sql(2) [of ?w db] by (simp add: pg_frame_def)
    show "fake_frame (snd ?r) = (clock f, draws f, filter (\<lambda>(k, e). k \<notin> set ?gone) (events f), subscribers f)"
      using E F by (simp add: fake_frame_def)
  qed (use F in \<open>simp_all only: set_map\<close>)
  then show ?thesis unfolding fk pg by blast
qed

section \<open>The ledger listings agree\<close>

lemma sim_delivery_count:
  assumes sim: "sim env f db"
  shows "pg_deliveries eid db = deliveryCount eid f"
proof -
  let ?w = "\<lambda>r. rEventId r = Some eid \<and> rSource r = SourceEvent"
  have "?w r \<longleftrightarrow> is_delivery_of eid j" if "row_rel env (events f) r j" for r j
    using sim_delivery_of [OF that, of eid] row_relD(2) [OF that] by (auto simp: is_delivery_of_def)
  then have "card (wkeys ?w db) = length (filter (is_delivery_of eid) (map snd (jobs f)))" by (rule sim_count [OF sim])
  then show ?thesis by (simp only: pg_deliveries_def deliveryCount_def length_matching [OF simD(9) [OF sim]])
qed

lemma sim_admin_row: "sim env f db \<Longrightarrow> scanEventAdminRow e db = eventAdminRow e f"
  by (simp add: scanEventAdminRow_def eventAdminRow_def Let_def sim_delivery_count decodeMeta_def cloneMeta_def clonePayload_def)

lemma sim_list_events:
  assumes sim: "sim env f db" and t: "timestamptz env (efSince flt) = efSince flt" "timestamptz env (efUntil flt) = efUntil flt"
  shows "pgListEvents env flt offset limit db = ListEvents flt offset limit f"
proof -
  have "eventWhere env flt db e = eventMatches e flt f" for e
    using t by (auto simp: eventWhere_def eventMatches_def sim_delivery_count [OF sim] split: option.split bool.split)
  then have w: "eventWhere env flt db = (\<lambda>e. eventMatches e flt f)" by (rule ext)
  have key: "(\<lambda>e. (- evOccurredAt e, - int (evID e))) = newest_first" by (simp add: newest_first_def fun_eq_iff)
  show ?thesis
    by (simp add: pgListEvents_def ListEvents_def Let_def w key sql_page_paginate sim_admin_row [OF sim] simD(5) [OF sim])
qed

lemma filter_key:
  "distinct_keys al \<Longrightarrow> filter (\<lambda>e. fst e = q) al = (case map_of al q of None \<Rightarrow> [] | Some c \<Rightarrow> [(q, c)])"
  by (induction al) (auto simp: filter_empty_conv image_iff split: option.splits)

lemma sim_get_event:
  assumes sim: "sim env f db"
  shows "pgGetEvent eid db = GetEvent eid f"
proof -
  note wf = simD(12) [OF sim]
  have eq: "evID (snd x) = fst x" if "x \<in> set (events f)" for x
    using that wf_ledgerD(4) [OF wf, of "fst x" "snd x"] map_of_is_SomeI [OF wf_ledgerD(2) [OF wf], of "fst x" "snd x"] by simp
  have "filter (\<lambda>e. evID e = eid) (map snd (events f)) = map snd (filter (\<lambda>x. fst x = eid) (events f))"
    unfolding filter_map comp_def by (rule arg_cong [where f = "map snd"], rule filter_cong) (simp_all add: eq)
  also have "\<dots> = (case map_of (events f) eid of None \<Rightarrow> [] | Some e \<Rightarrow> [e])"
    using filter_key [OF wf_ledgerD(2) [OF wf], of eid] by (simp split: option.split)
  finally show ?thesis
    by (simp add: pgGetEvent_def GetEvent_def simD(5) [OF sim, symmetric] sim_admin_row [OF sim] split: option.split)
qed

lemma sim_ledger_views:
  assumes sim: "sim env f db"
  shows "pgListSubscriberViews etype db = ListSubscriberViews etype f" "pgOpsStats db = OpsStats f"
    "pgSubscribersOf etype db = Subscribers etype f"
  using simD(3,5,11) [OF sim] subscribersFor_eq [OF simD(11) [OF sim], of etype]
  by (simp_all add: pgListSubscriberViews_def ListSubscriberViews_def pgOpsStats_def OpsStats_def Let_def not_less
      sim_delivery_count [OF sim] pgSubscribersOf_def Subscribers_def)

end
