(* ===== verification/Pg_Drivers.thy ===== *)
theory Pg_Drivers
  imports Pg_Ledger
begin

text \<open>
  The two drivers side by side: sequences of calls of the store interface on the
  PostgreSQL store and on the in-memory store, which answer alike; and what the
  PostgreSQL store keeps of the worker's contract.
\<close>

section \<open>Sequences of operations\<close>

datatype driver_op =
    OpEnqueue enqueueParams
  | OpDequeue source dequeueParams
  | OpSettle settlement uuid uuid
  | OpExtend uuid uuid duration
  | OpPromote source "string list"
  | OpReap source "string list" int
  | OpVacuumCompleted source duration
  | OpVacuumDead source string duration
  | OpArchive source uuid
  | OpPause source uuid
  | OpResume source uuid
  | OpRunNow source uuid
  | OpDelete source uuid job_state
  | OpDeleteAll source string job_state
  | OpSubscribe subscriber
  | OpUnsubscribe string string
  | OpPublish publishParams
  | OpReplay replayFilter
  | OpRetain time int
  | OpTick duration

datatype answer =
    AnsError error
  | AnsUnit
  | AnsBool bool
  | AnsInt int
  | AnsInts "int \<times> int"
  | AnsJobs "job list"

definition answered_by :: "('a \<Rightarrow> answer) \<Rightarrow> ('s, 'a) outcome \<Rightarrow> answer \<times> 's" where
  "answered_by c res = (case fst res of Inl e \<Rightarrow> AnsError e | Inr a \<Rightarrow> c a, snd res)"

fun fake_exec :: "(nat \<Rightarrow> uuid) \<Rightarrow> driver_op \<Rightarrow> fake \<Rightarrow> answer \<times> fake" where
  "fake_exec gen (OpEnqueue p) f = answered_by AnsBool (Enqueue p f)"
| "fake_exec gen (OpDequeue src p) f = answered_by AnsJobs (DequeueBatch gen src p f)"
| "fake_exec gen (OpSettle c jid tok) f = answered_by AnsBool (settle_with (fake_ops gen) c jid tok f)"
| "fake_exec gen (OpExtend jid tok lease) f = answered_by (\<lambda>_. AnsUnit) (ExtendLease jid tok lease f)"
| "fake_exec gen (OpPromote src kinds) f = answered_by AnsInt (PromoteDue src kinds f)"
| "fake_exec gen (OpReap src kinds mr) f = answered_by AnsInts (ReapExpired src kinds mr f)"
| "fake_exec gen (OpVacuumCompleted src d) f = answered_by AnsInt (VacuumCompleted src d f)"
| "fake_exec gen (OpVacuumDead src kind d) f = answered_by AnsInt (VacuumDead src kind d f)"
| "fake_exec gen (OpArchive src jid) f = answered_by (\<lambda>_. AnsUnit) (ArchiveJob src jid f)"
| "fake_exec gen (OpPause src jid) f = answered_by (\<lambda>_. AnsUnit) (PauseJob src jid f)"
| "fake_exec gen (OpResume src jid) f = answered_by (\<lambda>_. AnsUnit) (ResumeJob src jid f)"
| "fake_exec gen (OpRunNow src jid) f = answered_by (\<lambda>_. AnsUnit) (RunNow src jid f)"
| "fake_exec gen (OpDelete src jid state) f = answered_by (\<lambda>_. AnsUnit) (DeleteJob src jid state f)"
| "fake_exec gen (OpDeleteAll src kind state) f = answered_by AnsInt (DeleteAll src kind state f)"
| "fake_exec gen (OpSubscribe sub) f = (AnsUnit, RegisterSubscriber sub f)"
| "fake_exec gen (OpUnsubscribe name etype) f = answered_by AnsInt (DeleteSubscriber name etype f)"
| "fake_exec gen (OpPublish p) f = answered_by AnsInt (Publish gen p f)"
| "fake_exec gen (OpReplay flt) f = answered_by AnsInt (Replay gen flt f)"
| "fake_exec gen (OpRetain before limit) f = answered_by AnsInt (Retain before limit f)"
| "fake_exec gen (OpTick d) f = (AnsUnit, f\<lparr>clock := clock f + d\<rparr>)"

text \<open>The same calls on the PostgreSQL store, with no row held by another transaction.\<close>

fun pg_exec :: "pgEnv \<Rightarrow> pgStore \<Rightarrow> driver_op \<Rightarrow> pgdb \<Rightarrow> answer \<times> pgdb" where
  "pg_exec env st (OpEnqueue p) db = answered_by AnsBool (pgEnqueue env st p db)"
| "pg_exec env st (OpDequeue src p) db = answered_by AnsJobs (pgDequeueBatch env (\<lambda>_. False) src p db)"
| "pg_exec env st (OpSettle c jid tok) db = answered_by AnsBool (settle_with (pg_ops env st (\<lambda>_ _. False)) c jid tok db)"
| "pg_exec env st (OpExtend jid tok lease) db = answered_by (\<lambda>_. AnsUnit) (pgExtendLease env jid tok lease db)"
| "pg_exec env st (OpPromote src kinds) db =
     answered_by AnsInt (loop_outcome db (pgPromoteDue st (\<lambda>_ _. False) src kinds db))"
| "pg_exec env st (OpReap src kinds mr) db =
     answered_by AnsInts (loop_outcome db (pgReapExpired env st (\<lambda>_ _. False) src kinds mr db))"
| "pg_exec env st (OpVacuumCompleted src d) db =
     answered_by AnsInt (loop_outcome db (pgVacuumCompleted env st src d db))"
| "pg_exec env st (OpVacuumDead src kind d) db =
     answered_by AnsInt (loop_outcome db (pgVacuumDead env st src kind d db))"
| "pg_exec env st (OpArchive src jid) db = answered_by (\<lambda>_. AnsUnit) (pgArchiveJob src jid db)"
| "pg_exec env st (OpPause src jid) db = answered_by (\<lambda>_. AnsUnit) (pgPauseJob src jid db)"
| "pg_exec env st (OpResume src jid) db = answered_by (\<lambda>_. AnsUnit) (pgResumeJob src jid db)"
| "pg_exec env st (OpRunNow src jid) db = answered_by (\<lambda>_. AnsUnit) (pgRunNow src jid db)"
| "pg_exec env st (OpDelete src jid state) db = answered_by (\<lambda>_. AnsUnit) (pgDeleteJob src jid state db)"
| "pg_exec env st (OpDeleteAll src kind state) db =
     answered_by AnsInt (loop_outcome db (pgDeleteAll st src kind state db))"
| "pg_exec env st (OpSubscribe sub) db = answered_by (\<lambda>_. AnsUnit) (pgRegisterSubscriber sub db)"
| "pg_exec env st (OpUnsubscribe name etype) db = answered_by AnsInt (pgDeleteSubscriber name etype db)"
| "pg_exec env st (OpPublish p) db = answered_by AnsInt (pgPublish env p db)"
| "pg_exec env st (OpReplay flt) db = answered_by AnsInt (pgReplay env flt db)"
| "pg_exec env st (OpRetain before limit) db = answered_by AnsInt (pgRetain env before limit db)"
| "pg_exec env st (OpTick d) db = (AnsUnit, db\<lparr>pgNow := pgNow db + d\<rparr>)"

text \<open>
  What an operation must ask for to be answered alike, and that the ids it draws are
  new. \<open>ops_ok\<close> says so of every operation of a run.
\<close>

fun op_plain :: "pgEnv \<Rightarrow> driver_op \<Rightarrow> bool" where
  "op_plain env (OpEnqueue p) = plain_enqueue env p"
| "op_plain env (OpDequeue src p) = whole (dpLease p)"
| "op_plain env (OpSettle c jid tok) = settle_dur whole c"
| "op_plain env (OpExtend jid tok lease) = whole lease"
| "op_plain env (OpVacuumCompleted src d) = whole d"
| "op_plain env (OpVacuumDead src kind d) = whole d"
| "op_plain env (OpSubscribe sub) = (0 < subMaxAttempts sub)"
| "op_plain env (OpPublish p) = plain_publish env p"
| "op_plain env (OpReplay flt) = plain_replay env flt"
| "op_plain env (OpRetain before limit) = (timestamptz env before = before)"
| "op_plain env (OpTick d) = (0 \<le> d)"
| "op_plain env op = True"

fun draws_fresh :: "pgEnv \<Rightarrow> driver_op \<Rightarrow> pgdb \<Rightarrow> bool" where
  "draws_fresh env (OpPublish p) db = ids_fresh env (length (subscribed (ppType p) db)) db"
| "draws_fresh env (OpReplay flt) db = ids_fresh env (length (replay_targets env flt (rfLimit flt) db)) db"
| "draws_fresh env op db = True"

text \<open>
  Runs of calls. Two stores that answer each ready call alike and stay related answer
  every run alike: the locale \<open>lockstep\<close>.
\<close>

fun run_ops :: "('op \<Rightarrow> 's \<Rightarrow> 'a \<times> 's) \<Rightarrow> 'op list \<Rightarrow> 's \<Rightarrow> 'a list \<times> 's" where
  "run_ops exec [] s = ([], s)"
| "run_ops exec (op # ops) s =
     (let (a, s1) = exec op s; (as, s2) = run_ops exec ops s1 in (a # as, s2))"

fun run_ready :: "('op \<Rightarrow> 's \<Rightarrow> bool) \<Rightarrow> ('op \<Rightarrow> 's \<Rightarrow> 'a \<times> 's) \<Rightarrow> 'op list \<Rightarrow> 's \<Rightarrow> bool" where
  "run_ready ready exec [] s = True"
| "run_ready ready exec (op # ops) s = (ready op s \<and> run_ready ready exec ops (snd (exec op s)))"

locale lockstep =
  fixes exec1 :: "'op \<Rightarrow> 's \<Rightarrow> 'a \<times> 's" and exec2 :: "'op \<Rightarrow> 't \<Rightarrow> 'a \<times> 't"
    and ready :: "'op \<Rightarrow> 't \<Rightarrow> bool" and related :: "'s \<Rightarrow> 't \<Rightarrow> bool"
  assumes step: "related s t \<Longrightarrow> ready op t \<Longrightarrow> \<exists>s' t' a. exec1 op s = (a, s') \<and> exec2 op t = (a, t') \<and> related s' t'"
begin

lemma runs_agree:
  assumes "related s t" "run_ready ready exec2 ops t"
  shows "\<exists>s' t' as. run_ops exec1 ops s = (as, s') \<and> run_ops exec2 ops t = (as, t') \<and> related s' t'"
  using assms
proof (induction ops arbitrary: s t)
  case (Cons op ops)
  then obtain s1 t1 a where 1: "exec1 op s = (a, s1)" "exec2 op t = (a, t1)" "related s1 t1" using step [of s t op] by auto
  from Cons.IH [OF 1(3)] Cons.prems(2) 1(1,2) show ?case by (auto simp: Let_def)
qed simp

end

definition op_ready :: "pgEnv \<Rightarrow> driver_op \<Rightarrow> pgdb \<Rightarrow> bool" where
  "op_ready env op db = (op_plain env op \<and> draws_fresh env op db)"

abbreviation ops_ok :: "pgEnv \<Rightarrow> pgStore \<Rightarrow> driver_op list \<Rightarrow> pgdb \<Rightarrow> bool" where
  "ops_ok env st ops db \<equiv> run_ready (op_ready env) (pg_exec env st) ops db"

lemma sim_tick: "sim env f db \<Longrightarrow> 0 \<le> d \<Longrightarrow> sim env (f\<lparr>clock := clock f + d\<rparr>) (db\<lparr>pgNow := pgNow db + d\<rparr>)"
  by (auto simp: sim_def pg_wf_def pg_keyed_def tab_def fake_frame_def wf_jobs_def wf_ledger_def)

lemma sim_exec:
  assumes sim: "sim env f db" and ok: "op_plain env op" "draws_fresh env op db"
  shows "\<exists>f' db' a. fake_exec (gen_random_uuid env) op f = (a, f') \<and> pg_exec env (finishInit st) op db = (a, db') \<and> sim env f' db'"
proof -
  have lift: "\<exists>f' db' a. answered_by c x = (a, f') \<and> answered_by c y = (a, db') \<and> sim env f' db'"
    if "\<exists>f' db' a. x = (a, f') \<and> y = (a, db') \<and> sim env f' db'" for c :: "'x \<Rightarrow> answer" and x y
    using that by (auto simp: answered_by_def)
  show ?thesis
  proof (cases op)
    case (OpTick d)
    with sim_tick [OF sim] ok show ?thesis by simp
  next
    case (OpSubscribe sub)
    with sim_register [OF sim, of sub] ok show ?thesis by (auto simp: answered_by_def)
  qed (use ok in \<open>simp_all del: settle_with.simps add: lift sim_enqueue [OF sim] sim_dequeue [OF sim] sim_settle [OF sim]
      sim_extend [OF sim] sim_promote [OF sim] sim_reap [OF sim] sim_vacuum_completed [OF sim] sim_vacuum_dead [OF sim]
      sim_verbs [OF sim] sim_delete_job [OF sim] sim_delete_all [OF sim]
      sim_unregister [OF sim] sim_publish [OF sim] sim_replay [OF sim] sim_retain [OF sim]\<close>)
qed

interpretation job_drivers: lockstep "fake_exec (gen_random_uuid env)" "pg_exec env (finishInit st)" "op_ready env" "sim env" for env st
  by unfold_locales (simp add: op_ready_def sim_exec)

lemma sim_view: "sim env f db \<Longrightarrow> pg_job_at env db jid = fake_job_at f jid"
  by (erule sim_rows [where k = jid]) (auto simp: pg_job_at_def fake_job_at_def row_rel_def)

section \<open>The drivers agree\<close>

definition pgEmpty :: "time \<Rightarrow> pgdb" where
  "pgEmpty now = \<lparr>pgNow = now, pgJobs = [], pgAttempts = [], pgKeys = [], pgStats = [], pgEvents = [],
     pgSubscribers = [], pgNotified = [], pgTokens = 0, pgSlots = 0\<rparr>"

lemma sim_empty: "exact_env env \<Longrightarrow> 0 < now \<Longrightarrow> sim env (NewFake now) (pgEmpty now)"
  by (simp add: sim_def pg_wf_def pg_keyed_def tab_def pgEmpty_def NewFake_def fake_frame_def wf_jobs_def wf_ledger_def)

lemma plain_code [code]:
  "plain_enqueue env p = (\<not> (epIdempotencyKey p \<noteq> [] \<and> epIdempotencyTTL p > 0) \<and> whole (epDelay p) \<and>
     timestamptz env (epRunAt p) = epRunAt p \<and>
     (case epPayload p of None \<Rightarrow> False | Some payload \<Rightarrow> jsonb env payload = Some payload))"
  "plain_publish env q = ((case ppPayload q of None \<Rightarrow> False | Some payload \<Rightarrow> jsonb env payload = Some payload) \<and>
     timestamptz env (ppOccurredAt q) = ppOccurredAt q)"
  by (simp_all add: plain_enqueue_def plain_publish_def split: option.splits)


definition run_env :: pgEnv where
  "run_env = \<lparr>make_interval = (\<lambda>d. d), timestamptz = (\<lambda>t. t), stored_seconds = (\<lambda>d. d), jsonb = Some, gen_random_uuid = (\<lambda>n. 50 + n),
     rand_IntN = (\<lambda>i n. int i mod n)\<rparr>"

definition agree_sub :: subscriber where
  "agree_sub = \<lparr>subName = ''s'', subEventType = ''t'', subMaxAttempts = 2\<rparr>"

definition agree_event :: publishParams where
  "agree_event = \<lparr>ppID = 7, ppType = ''t'', ppAggregateType = [], ppAggregateID = [], ppVersion = 1, ppOccurredAt = 9,
     ppPayload = Some ''{}'', ppMeta = None\<rparr>"

definition agree_ops :: "driver_op list" where
  "agree_ops =
     [OpSubscribe agree_sub, OpPublish agree_event, OpEnqueue (run_params 1 ''a''),
      OpDequeue SourceQueue ((run_dequeue 5)\<lparr>dpLease := 0\<rparr>), OpSettle DoAck 1 51]"

lemma agree_fresh: "draws_fresh run_env (OpPublish agree_event) (snd (pg_exec run_env st (OpSubscribe agree_sub) (pgEmpty 100)))"
  by code_simp

lemma agree_ok: "ops_ok run_env (pgNew opts) agree_ops (pgEmpty 100)"
  unfolding agree_ops_def run_ready.simps op_ready_def
  by (intro conjI agree_fresh)
     (simp_all add: plain_code whole_def run_params_def run_dequeue_def run_env_def nsPerSecond_def agree_sub_def agree_event_def)


text \<open>A database with one leased job, and one with a job whose run time has come.\<close>

definition run_pg :: "driver_op list \<Rightarrow> pgdb" where
  "run_pg ops = snd (run_ops (pg_exec run_env (pgNew [])) ops (pgEmpty 100))"

definition pg_leased_ops :: "driver_op list" where
  "pg_leased_ops = [OpEnqueue (run_params 1 ''a''), OpDequeue SourceQueue ((run_dequeue 5)\<lparr>dpLease := nsPerSecond\<rparr>)]"

definition pg_due_ops :: "driver_op list" where
  "pg_due_ops = [OpEnqueue ((run_params 1 ''a'')\<lparr>epDelay := nsPerSecond\<rparr>), OpTick nsPerSecond]"

lemma run_pg_wf: "ops_ok run_env (pgNew []) ops (pgEmpty 100) \<Longrightarrow> pg_wf run_env (run_pg ops)"
proof -
  assume ok: "ops_ok run_env (pgNew []) ops (pgEmpty 100)"
  have "exact_env run_env" by (simp add: exact_env_def run_env_def)
  then have "sim run_env (NewFake 100) (pgEmpty 100)" by (rule sim_empty) simp
  from job_drivers.runs_agree [OF this ok [unfolded pgNew_def]] show ?thesis
    by (auto simp: run_pg_def pgNew_def dest: simD(1))
qed

lemma run_ops_plain: "ops_ok run_env (pgNew []) pg_leased_ops (pgEmpty 100)" "ops_ok run_env (pgNew []) pg_due_ops (pgEmpty 100)"
  by (simp_all add: pg_leased_ops_def pg_due_ops_def op_ready_def plain_enqueue_def whole_def run_params_def run_dequeue_def run_env_def
      nsPerSecond_def)

text \<open>
  C14: On the PostgreSQL store too a lease is settled at most once: after one
  settlement with a lease token, every settlement and every renewal with that token
  (with whole-second delays) finds no row, is answered not-found and leaves the
  database as it is.
\<close>

theorem pg_lease_settled_once:
  assumes "pg_wf env db" "settle_dur whole c" "settle_with (pg_ops env st L) c jid tok db = (Inr r, db')"
  shows "(settle_dur whole c' \<longrightarrow>
      settle_with (pg_ops env st L) c' jid tok db' = (Inl (NotFound (settle_name c')), db')) \<and>
    (whole lease \<longrightarrow> pgExtendLease env jid tok lease db' = (Inl (NotFound ''extend lease''), db'))"
  using pg.settled_once_on(1) [OF assms, of c'] pg.settled_once_on(2) [OF assms, of lease] by (simp add: pg_ops_def)

theorem pg_lease_settled_once_witness:
  "\<exists>db'. pgAck run_env (pgNew []) 1 50 (run_pg pg_leased_ops) = (Inr (), db') \<and>
     pgDead run_env (pgNew []) 1 50 ''late'' db' = (Inl (NotFound ''dead''), db')"
proof -
  let ?db = "run_pg pg_leased_ops" and ?ops = "pg_ops run_env (pgNew []) (\<lambda>_ _. False)"
  let ?a = "pgAck run_env (pgNew []) 1 50 ?db"
  have wf: "pg_wf run_env ?db" by (rule run_pg_wf [OF run_ops_plain(1)])
  have ok: "fst ?a = Inr ()" by code_simp
  then have "settle_with ?ops DoAck 1 50 ?db = (Inr False, snd ?a)"
    by (simp add: pg_ops_def no_flag_def)
  from pg_lease_settled_once [OF wf _ this, of "DoDead ''late''" 0]
  have "no_flag (pgDead run_env (pgNew []) 1 50 ''late'' (snd ?a)) = (Inl (NotFound ''dead''), snd ?a)"
    by (simp add: pg_ops_def)
  then have "pgDead run_env (pgNew []) 1 50 ''late'' (snd ?a) = (Inl (NotFound ''dead''), snd ?a)"
    by (cases "pgDead run_env (pgNew []) 1 50 ''late'' (snd ?a)") (auto simp: no_flag_def map_sum_def split: sum.splits)
  with ok show ?thesis by (metis prod.collapse)
qed

text \<open>
  C15: Maintenance in bounded batches returns and misses nothing but rows that are
  being worked on. Whatever rows other transactions hold while it runs, promotion
  returns; it promotes due scheduled jobs only, counts each once, changes no other row
  and leaves behind only due jobs that were held during its last batch. The same
  holds for every batch size the options allow.
\<close>

theorem pg_promotion_drains:
  assumes "pg_keyed db" "kinds \<noteq> []"
  shows "\<exists>S j db'. pgPromoteDue (pgNew opts) L src kinds db = Some ((None, int (card S)), db') \<and>
    S \<subseteq> wkeys (pg_promotable src kinds (pgNow db)) db \<and>
    (\<forall>k\<in>wkeys (pg_promotable src kinds (pgNow db)) db. k \<notin> S \<longrightarrow> L j k) \<and>
    (\<forall>k. tab db' k = map_option (\<lambda>r. if k \<in> S then r\<lparr>rState := StatePending, rUpdatedAt := pgNow db\<rparr> else r) (tab db k))"
proof -
  let ?st = "fold (\<lambda>opt. opt) opts zeroStore"
  obtain S j db' where R: "pgPromoteDue (finishInit ?st) L src kinds db = Some ((None, int (card S)), db')"
    "S \<subseteq> wkeys (pg_promotable src kinds (pgNow db)) db"
    "{k \<in> wkeys (pg_promotable src kinds (pgNow db)) db. \<not> L j k} \<subseteq> S"
    "tab db' = (\<lambda>k. map_option (\<lambda>r. if k \<in> S then r\<lparr>rState := StatePending, rUpdatedAt := pgNow db\<rparr> else r) (tab db k))"
    by (rule pgPromoteDue_result [OF assms])
  show ?thesis
    using R(1-3) unfolding pgNew_def
    by (intro exI [of _ S] exI [of _ j] exI [of _ db'] conjI) (auto simp: R(4))
qed

theorem pg_promotion_drains_witness:
  "\<exists>db'. pgPromoteDue (pgNew []) (\<lambda>_ _. False) SourceQueue [''mail''] (run_pg pg_due_ops) = Some ((None, 1), db') \<and>
     map_option rState (tab db' 1) = Some StatePending"
proof -
  let ?db = "run_pg pg_due_ops"
  let ?D = "wkeys (pg_promotable SourceQueue [''mail''] (pgNow ?db)) ?db"
  have k: "pg_keyed ?db" by (rule pg_wfD(2) [OF run_pg_wf [OF run_ops_plain(2)]])
  have "map fst (pgJobs ?db) = [1]" by code_simp
  then have dom: "tab ?db k = None" if "k \<noteq> 1" for k
    using that by (simp add: tab_def map_of_eq_None_iff set_map [symmetric] del: set_map)
  have "map_option (\<lambda>r. (pg_promotable SourceQueue [''mail''] (pgNow ?db) r)) (tab ?db 1) = Some True" by code_simp
  then have D: "?D = {1}" using dom by (auto simp: wkeys_def) (metis option.distinct(1))
  from pg_promotion_drains [OF k, of "[''mail'']" "[]" "\<lambda>_ _. False" SourceQueue]
  obtain S db' where R: "pgPromoteDue (pgNew []) (\<lambda>_ _. False) SourceQueue [''mail''] ?db = Some ((None, int (card S)), db')"
    "S \<subseteq> ?D" "\<forall>k\<in>?D. k \<notin> S \<longrightarrow> False"
    "\<forall>k. tab db' k = map_option (\<lambda>r. if k \<in> S then r\<lparr>rState := StatePending, rUpdatedAt := pgNow ?db\<rparr> else r) (tab ?db k)"
    by auto
  from R(2,3) have S: "S = {1}" unfolding D by auto
  have "tab ?db 1 \<noteq> None" using D by (auto simp: wkeys_def)
  with R(1,4) S show ?thesis by (auto simp: map_option_case split: option.splits)
qed

end
