(* ===== verification/Pg_Admin.thy ===== *)
theory Pg_Admin
  imports Pg_Drivers "HOL-Library.Multiset"
begin

text \<open>
  The read side of the PostgreSQL store (\<open>driver/azyncpgx/store_admin.go\<close>): kinds,
  depths, the daily counters summed over their slots, listings and attempts. The
  listings agree with the in-memory store on related states, the slots of the
  counters cannot be seen, and the vacuum of the counters keeps the retention. The
  last section states where the two stores differ.

  Text is ordered by its bytes, as under the collation \<open>C\<close>. The age of the oldest
  pending job passes through a float: \<open>age\<close> is what is left of it.
\<close>

section \<open>Kinds and depths\<close>

definition pgListKinds :: "source \<Rightarrow> pgdb \<Rightarrow> string list" where
  "pgListKinds src db =
     sort (remdups (map rKind (filter (\<lambda>r. rSource r = src) (map snd (pgJobs db))) @
                    map (\<lambda>((ksrc, kind, day, slot), c). kind)
                      (filter (\<lambda>((ksrc, kind, day, slot), c). ksrc = src) (pgStats db))))"

definition pgAddDepth :: "job_state \<Rightarrow> int \<Rightarrow> depths \<Rightarrow> depths" where
  "pgAddDepth st n d =
     (case st of
        StatePending \<Rightarrow> d\<lparr>dPending := n\<rparr>
      | StateScheduled \<Rightarrow> d\<lparr>dScheduled := n\<rparr>
      | StateActive \<Rightarrow> d\<lparr>dActive := n\<rparr>
      | StateDead \<Rightarrow> d\<lparr>dDead := n\<rparr>
      | StatePaused \<Rightarrow> d\<lparr>dPaused := n\<rparr>
      | StateSucceeded \<Rightarrow> d\<lparr>dSucceeded := n\<rparr>
      | _ \<Rightarrow> d)"

text \<open>One group of \<open>GROUP BY state\<close>: the count, and for pending rows the age of the oldest.\<close>

definition depth_group :: "(duration \<Rightarrow> duration) \<Rightarrow> time \<Rightarrow> pgJob list \<Rightarrow> job_state \<Rightarrow> int \<times> duration option" where
  "depth_group age now rows st =
     (let group = filter (\<lambda>r. rState r = st) rows
      in (int (length group),
          if st = StatePending then Some (age (now - Min (set (map rRunAt group)))) else None))"

definition scan_depth :: "job_state \<Rightarrow> int \<times> duration option \<Rightarrow> depths \<Rightarrow> depths" where
  "scan_depth st g d =
     (let d1 = pgAddDepth st (fst g) d
      in case snd g of None \<Rightarrow> d1 | Some a \<Rightarrow> d1\<lparr>dOldestPendingAge := a\<rparr>)"

definition scanDepths :: "(duration \<Rightarrow> duration) \<Rightarrow> time \<Rightarrow> pgJob list \<Rightarrow> depths" where
  "scanDepths age now rows =
     fold (\<lambda>st. scan_depth st (depth_group age now rows st)) (remdups (map rState rows)) zeroDepths"

definition pgKindDepths :: "(duration \<Rightarrow> duration) \<Rightarrow> source \<Rightarrow> pgdb \<Rightarrow> (string \<times> depths) list" where
  "pgKindDepths age src db =
     (let rows = filter (\<lambda>r. rSource r = src) (map snd (pgJobs db))
      in fold (\<lambda>(kind, st) out.
             AList.update kind
               (scan_depth st (depth_group age (pgNow db) (filter (\<lambda>r. rKind r = kind) rows) st)
                  (the_default zeroDepths (map_of out kind))) out)
           (remdups (map (\<lambda>r. (rKind r, rState r)) rows)) [])"

section \<open>Daily counters\<close>

text \<open>\<open>SELECT day, SUM(...) ... GROUP BY day ORDER BY day\<close> over the slots of a source and kind.\<close>

definition day_rows :: "source \<Rightarrow> string option \<Rightarrow> pgdb \<Rightarrow> (slotKey \<times> statCounters) list" where
  "day_rows src kind db =
     filter (\<lambda>((ksrc, kkind, day, slot), c). ksrc = src \<and> (case kind of None \<Rightarrow> True | Some kd \<Rightarrow> kkind = kd)) (pgStats db)"

definition queryDaily :: "(slotKey \<times> statCounters) list \<Rightarrow> dailyCount list" where
  "queryDaily rows =
     map (\<lambda>d. let cs = map snd (filter (\<lambda>((ksrc, kkind, day, slot), c). day = d) rows)
              in \<lparr>dcDate = d, dcEnqueued = sum_list (map scEnqueued cs), dcProcessed = sum_list (map scProcessed cs),
                  dcFailed = sum_list (map scFailed cs), dcReaped = sum_list (map scReaped cs)\<rparr>)
       (sort (remdups (map (\<lambda>((ksrc, kkind, day, slot), c). day) rows)))"

definition pgStatsOf :: "(duration \<Rightarrow> duration) \<Rightarrow> source \<Rightarrow> string \<Rightarrow> pgdb \<Rightarrow> depths \<times> dailyCount list" where
  "pgStatsOf age src kind db =
     (scanDepths age (pgNow db) (filter (\<lambda>r. rSource r = src \<and> rKind r = kind) (map snd (pgJobs db))),
      queryDaily (day_rows src (Some kind) db))"

definition pgAllDaily :: "source \<Rightarrow> pgdb \<Rightarrow> dailyCount list" where
  "pgAllDaily src db = queryDaily (day_rows src None db)"

section \<open>Listing and detail\<close>

text \<open>
  \<open>ORDER BY\<close>: a null sorts last in ascending and first in descending order. A
  descending instant is ordered by its negation.
\<close>

definition orderForState :: "job_state option \<Rightarrow> pgJob \<Rightarrow> bool \<times> time \<times> uuid" where
  "orderForState state r =
     (case state of
        Some StateScheduled \<Rightarrow> (False, rRunAt r, rId r)
      | Some StatePaused \<Rightarrow> (False, rRunAt r, rId r)
      | Some StateActive \<Rightarrow> (rLeaseUntil r = None, timeOf (rLeaseUntil r), rId r)
      | Some StateSucceeded \<Rightarrow> (rCompletedAt r \<noteq> None, - timeOf (rCompletedAt r), rId r)
      | Some StateSkipped \<Rightarrow> (rCompletedAt r \<noteq> None, - timeOf (rCompletedAt r), rId r)
      | Some StatePending \<Rightarrow> (False, rEnqueuedAt r, rId r)
      | Some StateDead \<Rightarrow> (False, rEnqueuedAt r, rId r)
      | _ \<Rightarrow> (False, - rEnqueuedAt r, rId r))"

definition list_where :: "source \<Rightarrow> jobFilter \<Rightarrow> pgJob \<Rightarrow> bool" where
  "list_where src flt r =
     (rSource r = src \<and> (jfKind flt \<noteq> [] \<longrightarrow> rKind r = jfKind flt) \<and>
      (case jfState flt of None \<Rightarrow> True | Some st \<Rightarrow> rState r = st))"

definition pgListJobs :: "pgEnv \<Rightarrow> source \<Rightarrow> jobFilter \<Rightarrow> int \<Rightarrow> int \<Rightarrow> pgdb \<Rightarrow> job list \<times> int" where
  "pgListJobs env src flt offset limit db =
     (let rows = filter (list_where src flt) (map snd (pgJobs db));
          offset = (if offset < 0 then 0 else offset)
      in (map (pgToJob env) (sql_page offset (limitArg limit) (sort_key (orderForState (jfState flt)) rows)),
          int (length rows)))"

definition pgGetJob :: "pgEnv \<Rightarrow> source \<Rightarrow> uuid \<Rightarrow> pgdb \<Rightarrow> error + job" where
  "pgGetJob env src jid db =
     (case filter (\<lambda>r. rId r = jid \<and> rSource r = src) (map snd (pgJobs db)) of
        [] \<Rightarrow> Inl (NotFound ''get job'')
      | r # _ \<Rightarrow> Inr (pgToJob env r))"

text \<open>The attempt rows are kept in the order of their ids.\<close>

definition pgJobAttempts :: "source \<Rightarrow> uuid \<Rightarrow> pgdb \<Rightarrow> attemptError list" where
  "pgJobAttempts src jid db =
     sort_key aeAttempt
       (map snd (filter (\<lambda>(k, a). k = jid \<and> list_ex (\<lambda>r. rId r = k \<and> rSource r = src) (map snd (pgJobs db)))
          (pgAttempts db)))"

section \<open>The listings agree\<close>

lemma sort_key_const: "sort_key (\<lambda>x. (c, k x)) xs = sort_key k xs"
proof -
  have "insort_key (\<lambda>x. (c, k x)) x ys = insort_key k x ys" for x ys
    by (induction ys) simp_all
  then show ?thesis by (induction xs) simp_all
qed

lemma list_all2_page:
  assumes "list_all2 R xs ys"
  shows "list_all2 R (paginate offset limit xs) (paginate offset limit ys)"
  by (simp add: paginate_def Let_def list_all2_lengthD [OF assms] list_all2_takeI list_all2_dropI assms) linarith

lemma sim_list:
  assumes sim: "sim env f db" and no_skip: "jfState flt \<noteq> Some StateSkipped"
  shows "pgListJobs env src flt offset limit db = ListJobs src flt offset limit f"
proof -
  let ?b = "jfState flt = Some StateSucceeded"
  let ?rs = "sort_key (orderForState (jfState flt)) (filter (list_where src flt) (map snd (pgJobs db)))"
  let ?js = "orderJobs (jfState flt) (filter (job_matches src flt) (map snd (jobs f)))"
  have "list_all2 (row_rel env (events f)) ?rs
      (sort_key (\<lambda>j. (?b, order_key (jfState flt) j)) (filter (job_matches src flt) (map snd (jobs f))))"
  proof (rule sim_sorted [OF sim])
    fix r j assume rel: "row_rel env (events f) r j"
    show "list_where src flt r \<longleftrightarrow> job_matches src flt j"
      using row_relD [OF rel] by (auto simp: list_where_def job_matches_def split: option.splits)
    assume "list_where src flt r"
    then show "orderForState (jfState flt) r = (?b, order_key (jfState flt) j)"
      using row_relD [OF rel] no_skip
      by (auto simp: list_where_def orderForState_def order_key_def row_ok_def split: option.splits job_state.splits)
  next
    fix r r' assume "orderForState (jfState flt) r = orderForState (jfState flt) r'"
    then show "rId r = rId r'" by (auto simp: orderForState_def split: option.splits job_state.splits)
  next
    fix j j' assume "(?b, order_key (jfState flt) j) = (?b, order_key (jfState flt) j')"
    then show "jID j = jID j'" by (auto simp: order_key_def split: option.splits job_state.splits)
  qed
  then have rel: "list_all2 (row_rel env (events f)) ?rs ?js" by (simp add: sort_key_const orderJobs_def)
  have "map (pgToJob env) (paginate offset limit ?rs) = map toJob (paginate offset limit ?js)"
    using list_all2_page [OF rel, of offset limit] by (induction rule: list_all2_induct) (auto simp: row_rel_def)
  moreover have "length (filter (list_where src flt) (map snd (pgJobs db))) = length ?js"
    using list_all2_lengthD [OF rel] by simp
  ultimately show ?thesis
    by (simp add: pgListJobs_def ListJobs_def Let_def sql_page_paginate)
qed

lemma sim_rows_of:
  assumes sim: "sim env f db" and same: "\<And>r j. row_rel env (events f) r j \<Longrightarrow> w r \<longleftrightarrow> P j"
  shows "list_all2 (row_rel env (events f)) (sort_key rId (filter w (map snd (pgJobs db))))
    (sort_key jID (filter P (map snd (jobs f))))"
  by (rule sim_sorted [OF sim same]) (auto simp: row_relD)

lemma sim_image:
  assumes sim: "sim env f db" and same: "\<And>r j. row_rel env (events f) r j \<Longrightarrow> w r \<longleftrightarrow> P j"
    and val: "\<And>r j. row_rel env (events f) r j \<Longrightarrow> g r = h j"
  shows "mset (map g (filter w (map snd (pgJobs db)))) = mset (map h (filter P (map snd (jobs f))))"
proof -
  have "map g (sort_key rId (filter w (map snd (pgJobs db)))) = map h (sort_key jID (filter P (map snd (jobs f))))"
    using sim_rows_of [OF sim same] by (induction rule: list_all2_induct) (auto simp: val)
  then have "mset (map g (sort_key rId (filter w (map snd (pgJobs db))))) =
      mset (map h (sort_key jID (filter P (map snd (jobs f)))))" by (rule arg_cong)
  then show ?thesis by simp
qed

lemma sim_get_job:
  assumes sim: "sim env f db"
  shows "pgGetJob env src jid db = GetJob src jid f"
proof -
  note db = simD(9) [OF sim]
  have rows: "filter (\<lambda>r. rId r = jid \<and> rSource r = src) (map snd (pgJobs db)) =
      (case tab db jid of None \<Rightarrow> [] | Some r \<Rightarrow> if rId r = jid \<and> rSource r = src then [r] else [])"
    by (rule one_row [OF db]) simp
  from sim show ?thesis
  proof (cases rule: sim_rows [where k = jid])
    case none
    then show ?thesis by (simp add: pgGetJob_def GetJob_def rows)
  next
    case (row r j)
    then show ?thesis using row_relD(2) [OF row(3)] by (simp add: pgGetJob_def GetJob_def rows row_rel_def)
  qed
qed

text \<open>The depths of a kind count its jobs by state.\<close>

lemma scan_depths_fields:
  assumes "distinct sts"
  shows "dPending (fold (\<lambda>st. scan_depth st (n st, if st = StatePending then Some a else None)) sts d) =
      (if StatePending \<in> set sts then n StatePending else dPending d)"
    and "dScheduled (fold (\<lambda>st. scan_depth st (n st, if st = StatePending then Some a else None)) sts d) =
      (if StateScheduled \<in> set sts then n StateScheduled else dScheduled d)"
    and "dActive (fold (\<lambda>st. scan_depth st (n st, if st = StatePending then Some a else None)) sts d) =
      (if StateActive \<in> set sts then n StateActive else dActive d)"
    and "dDead (fold (\<lambda>st. scan_depth st (n st, if st = StatePending then Some a else None)) sts d) =
      (if StateDead \<in> set sts then n StateDead else dDead d)"
    and "dPaused (fold (\<lambda>st. scan_depth st (n st, if st = StatePending then Some a else None)) sts d) =
      (if StatePaused \<in> set sts then n StatePaused else dPaused d)"
    and "dSucceeded (fold (\<lambda>st. scan_depth st (n st, if st = StatePending then Some a else None)) sts d) =
      (if StateSucceeded \<in> set sts then n StateSucceeded else dSucceeded d)"
    and "dOldestPendingAge (fold (\<lambda>st. scan_depth st (n st, if st = StatePending then Some a else None)) sts d) =
      (if StatePending \<in> set sts then a else dOldestPendingAge d)"
  using assms
  by (induction sts arbitrary: d)
    (auto simp: scan_depth_def pgAddDepth_def Let_def split: job_state.splits if_splits)

definition depths_by :: "job_state list \<Rightarrow> duration \<Rightarrow> depths" where
  "depths_by sts a = \<lparr>dPending = int (count_list sts StatePending), dScheduled = int (count_list sts StateScheduled),
     dActive = int (count_list sts StateActive), dDead = int (count_list sts StateDead),
     dPaused = int (count_list sts StatePaused), dSucceeded = int (count_list sts StateSucceeded),
     dOldestPendingAge = (if StatePending \<in> set sts then a else 0)\<rparr>"

lemma scanDepths_eq:
  "scanDepths age now rows = depths_by (map rState rows)
     (age (now - Min (set (map rRunAt (filter (\<lambda>r. rState r = StatePending) rows)))))"
proof -
  let ?n = "\<lambda>st. int (count_list (map rState rows) st)"
  let ?a = "age (now - Min (set (map rRunAt (filter (\<lambda>r. rState r = StatePending) rows))))"
  have "int (length (filter (\<lambda>r. rState r = st) rows)) = ?n st" for st
    by (induction rows) auto
  then have "depth_group age now rows st = (?n st, if st = StatePending then Some ?a else None)" for st
    by (simp add: depth_group_def Let_def)
  then have "scanDepths age now rows =
      fold (\<lambda>st. scan_depth st (?n st, if st = StatePending then Some ?a else None)) (remdups (map rState rows)) zeroDepths"
    by (simp add: scanDepths_def)
  then show ?thesis
    by (simp add: depths_by_def scan_depths_fields zeroDepths_def count_list_0_iff)
qed

lemma fold_addDepth:
  "fold addDepth sts d = d\<lparr>dPending := dPending d + int (count_list sts StatePending),
     dScheduled := dScheduled d + int (count_list sts StateScheduled),
     dActive := dActive d + int (count_list sts StateActive), dDead := dDead d + int (count_list sts StateDead),
     dPaused := dPaused d + int (count_list sts StatePaused),
     dSucceeded := dSucceeded d + int (count_list sts StateSucceeded)\<rparr>"
  by (induction sts arbitrary: d) (auto simp: addDepth_def split: job_state.splits)

definition earlier :: "time \<Rightarrow> time option \<Rightarrow> time option" where
  "earlier t oldest = (if (case oldest of None \<Rightarrow> True | Some u \<Rightarrow> t < u) then Some t else oldest)"

lemma fold_earlier: "fold earlier ts oldest = (if ts = [] then oldest else Some (Min (set ts \<union> set_option oldest)))"
proof (induction ts arbitrary: oldest)
  case (Cons t ts)
  have "Min (insert t (set_option oldest)) = the (earlier t oldest)" "earlier t oldest \<noteq> None"
    by (auto simp: earlier_def split: option.splits)
  moreover from this have "set_option (earlier t oldest) = {Min (insert t (set_option oldest))}" by auto
  moreover have "Min (set ts \<union> {Min (insert t (set_option oldest))}) = Min (insert t (set ts \<union> set_option oldest))" if "ts \<noteq> []"
    using that by (cases oldest) (auto simp: Min_Un min.commute min.left_commute)
  ultimately show ?case using Cons by auto
qed simp

lemma stats_fold:
  "fold (stats_step src kind) js (d, oldest) =
     (fold addDepth (map jState (filter (\<lambda>j. jSource j = src \<and> jKind j = kind) js)) d,
      fold earlier (map jRunAt (filter (\<lambda>j. jState j = StatePending)
        (filter (\<lambda>j. jSource j = src \<and> jKind j = kind) js))) oldest)"
  by (induction js arbitrary: d oldest) (auto simp: stats_step_def Let_def earlier_def)

lemma fake_depths:
  fixes js :: "fakeJob list"
  assumes "js = filter (\<lambda>j. jSource j = src \<and> jKind j = kind) (map snd (jobs s))"
  shows "fst (Stats src kind s) = depths_by (map jState js)
    (clock s - Min (set (map jRunAt (filter (\<lambda>j. jState j = StatePending) js))))"
proof -
  have "filter (\<lambda>j. jState j = StatePending) js = [] \<longleftrightarrow> StatePending \<notin> set (map jState js)"
    by (auto simp: filter_empty_conv image_iff)
  then show ?thesis unfolding assms
    by (simp add: Stats_def stats_fold Let_def fold_addDepth fold_earlier depths_by_def zeroDepths_def)
qed

lemma sim_depths:
  assumes sim: "sim env f db"
  shows "fst (pgStatsOf (\<lambda>d. d) src kind db) = fst (Stats src kind f)"
proof -
  let ?w = "\<lambda>r. rSource r = src \<and> rKind r = kind" and ?P = "\<lambda>j :: fakeJob. jSource j = src \<and> jKind j = kind"
  let ?rs = "filter ?w (map snd (pgJobs db))" and ?js = "filter ?P (map snd (jobs f))"
  have same: "?w r \<longleftrightarrow> ?P j" if "row_rel env (events f) r j" for r j using row_relD [OF that] by simp
  have st: "rState r = jState j" if "row_rel env (events f) r j" for r j using row_relD [OF that] by simp
  have m: "mset (map rState ?rs) = mset (map jState ?js)" by (rule sim_image [OF sim same st])
  then have c: "count_list (map rState ?rs) x = count_list (map jState ?js) x" for x
    unfolding count_mset [symmetric] by (rule arg_cong)
  have p: "(?w r \<and> rState r = StatePending) \<longleftrightarrow> (?P j \<and> jState j = StatePending)" if "row_rel env (events f) r j" for r j
    using row_relD [OF that] by simp
  have run: "rRunAt r = jRunAt j" if "row_rel env (events f) r j" for r j using row_relD [OF that] by simp
  have "mset (map rRunAt (filter (\<lambda>r. ?w r \<and> rState r = StatePending) (map snd (pgJobs db)))) =
      mset (map jRunAt (filter (\<lambda>j. ?P j \<and> jState j = StatePending) (map snd (jobs f))))"
    by (rule sim_image [OF sim p run])
  then have "set (map rRunAt (filter (\<lambda>r. rState r = StatePending) ?rs)) =
      set (map jRunAt (filter (\<lambda>j. jState j = StatePending) ?js))"
    unfolding filter_filter by (rule mset_eq_setD)
  moreover have "set (map rState ?rs) = set (map jState ?js)" using m by (rule mset_eq_setD)
  ultimately show ?thesis
    by (simp only: pgStatsOf_def fst_conv scanDepths_eq fake_depths [OF refl] depths_by_def c simD(3) [OF sim])
qed



section \<open>The slots of the counters cannot be seen\<close>

text \<open>The counters of a source, kind and day: the sum over the slots.\<close>

abbreviation slot_key :: "slotKey \<Rightarrow> statKey" where
  "slot_key k \<equiv> (fst k, fst (snd k), fst (snd (snd k)))"

definition slot_sum :: "statCounters list \<Rightarrow> statCounters" where
  "slot_sum cs = \<lparr>scEnqueued = sum_list (map scEnqueued cs), scProcessed = sum_list (map scProcessed cs),
     scFailed = sum_list (map scFailed cs), scReaped = sum_list (map scReaped cs)\<rparr>"

definition slot_total :: "pgdb \<Rightarrow> statKey \<Rightarrow> statCounters option" where
  "slot_total db q =
     (let cs = map snd (filter (\<lambda>e. slot_key (fst e) = q) (pgStats db)) in if cs = [] then None else Some (slot_sum cs))"

lemma sum_update:
  fixes g :: "'c \<Rightarrow> int"
  assumes "distinct_keys al"
  shows "sum_list (map (g \<circ> snd) (filter (\<lambda>e. P (fst e)) (AList.update k v al))) =
    sum_list (map (g \<circ> snd) (filter (\<lambda>e. P (fst e)) al)) +
    (if P k then g v - (case map_of al k of None \<Rightarrow> 0 | Some c \<Rightarrow> g c) else 0)"
  using assms
proof (induction al)
  case (Cons e al)
  then have "fst e = k \<Longrightarrow> map_of al k = None" by (auto simp: map_of_eq_None_iff)
  with Cons show ?case by (cases e) auto
qed auto

lemma nonempty_update:
  "filter (\<lambda>e. P (fst e)) (AList.update k v al) = [] \<longleftrightarrow> \<not> P k \<and> filter (\<lambda>e. P (fst e)) al = []"
  by (induction al) auto

lemma slot_total_bump:
  assumes "distinct_keys (pgStats db)"
  shows "slot_total (pgBumpStat env st src kind field n db) =
    (slot_total db)((src, kind, dayOf (pgNow db)) \<mapsto>
       bumpCounter field n (the_default zeroCounters (slot_total db (src, kind, dayOf (pgNow db)))))"
proof
  fix q
  let ?k = "(src, kind, dayOf (pgNow db), randSlot env st db)" and ?q = "(src, kind, dayOf (pgNow db))"
  let ?c = "the_default zeroCounters (map_of (pgStats db) ?k)"
  let ?cs = "map snd (filter (\<lambda>e. slot_key (fst e) = q) (pgStats db))"
  let ?cs' = "map snd (filter (\<lambda>e. slot_key (fst e) = q) (AList.update ?k (bumpCounter field n ?c) (pgStats db)))"
  have empty: "?cs' = [] \<longleftrightarrow> q \<noteq> ?q \<and> ?cs = []"
    using nonempty_update [of "\<lambda>k. slot_key k = q" ?k "bumpCounter field n ?c" "pgStats db"] by auto
  have sums: "sum_list (map g ?cs') = sum_list (map g ?cs) + (if q = ?q then g (bumpCounter field n ?c) - g ?c else 0)"
    if "g \<lparr>scEnqueued = 0, scProcessed = 0, scFailed = 0, scReaped = 0\<rparr> = 0" for g :: "statCounters \<Rightarrow> int"
    using sum_update [OF assms, of g "\<lambda>k. slot_key k = q" ?k "bumpCounter field n ?c"] that
    by (auto simp: zeroCounters_def split: option.split)
  have "slot_sum ?cs' = (if q = ?q then bumpCounter field n (slot_sum ?cs) else slot_sum ?cs)"
    unfolding slot_sum_def sums [of scEnqueued, OF statCounters.select_convs(1)]
      sums [of scProcessed, OF statCounters.select_convs(2)]
      sums [of scFailed, OF statCounters.select_convs(3)]
      sums [of scReaped, OF statCounters.select_convs(4)]
    by (cases field) simp_all
  moreover have "?cs = [] \<Longrightarrow> slot_sum ?cs = zeroCounters" by (simp add: slot_sum_def zeroCounters_def)
  ultimately show "slot_total (pgBumpStat env st src kind field n db) q =
    ((slot_total db)(?q \<mapsto> bumpCounter field n (the_default zeroCounters (slot_total db ?q)))) q"
    using empty unfolding slot_total_def pgBumpStat_def Let_def by (auto simp: Let_def)
qed

text \<open>A sum over rows, group by group.\<close>

lemma sum_by_group:
  fixes h :: "'a \<Rightarrow> int"
  assumes "finite A" "p ` set xs \<subseteq> A"
  shows "sum_list (map h xs) = (\<Sum>q\<in>A. sum_list (map h (filter (\<lambda>x. p x = q) xs)))"
  using assms(2)
proof (induction xs)
  case (Cons x xs)
  have "(\<Sum>q\<in>A. sum_list (map h (filter (\<lambda>x. p x = q) (x # xs)))) =
      (\<Sum>q\<in>A. (if p x = q then h x else 0) + sum_list (map h (filter (\<lambda>x. p x = q) xs)))"
    by (rule sum.cong) auto
  also have "\<dots> = h x + sum_list (map h xs)"
    using Cons assms(1) by (simp add: sum.distrib)
  finally show ?case by simp
qed simp

definition counter_fields :: "(statCounters \<Rightarrow> int) set" where
  "counter_fields = {scEnqueued, scProcessed, scFailed, scReaped}"

lemma slots_add_up:
  assumes "distinct_keys (stats f)" and same: "slot_total db = map_of (stats f)" and g: "g \<in> counter_fields"
  shows "sum_list (map (g \<circ> snd) (filter (\<lambda>e. Q (slot_key (fst e))) (pgStats db))) =
    sum_list (map (g \<circ> snd) (filter (\<lambda>e. Q (fst e)) (stats f)))"
proof -
  let ?L = "filter (\<lambda>e. Q (slot_key (fst e))) (pgStats db)" and ?R = "filter (\<lambda>e. Q (fst e)) (stats f)"
  let ?A = "(\<lambda>e. slot_key (fst e)) ` set (pgStats db) \<union> fst ` set (stats f)"
  have groups: "sum_list (map (g \<circ> snd) (filter (\<lambda>e. slot_key (fst e) = q) ?L)) =
      sum_list (map (g \<circ> snd) (filter (\<lambda>e. fst e = q) ?R))" for q
  proof (cases "Q q")
    case True
    let ?cs = "map snd (filter (\<lambda>e. slot_key (fst e) = q) (pgStats db))"
    have "filter (\<lambda>e. slot_key (fst e) = q) ?L = filter (\<lambda>e. slot_key (fst e) = q) (pgStats db)"
      using True by (auto simp: filter_filter intro!: filter_cong)
    then have l: "sum_list (map (g \<circ> snd) (filter (\<lambda>e. slot_key (fst e) = q) ?L)) = g (slot_sum ?cs)"
      using g by (auto simp: counter_fields_def slot_sum_def)
    have "filter (\<lambda>e. fst e = q) ?R = filter (\<lambda>e. fst e = q) (stats f)"
      using True by (auto simp: filter_filter intro!: filter_cong)
    also have "\<dots> = (case map_of (stats f) q of None \<Rightarrow> [] | Some c \<Rightarrow> [(q, c)])"
      by (rule filter_key [OF assms(1)])
    finally have r: "sum_list (map (g \<circ> snd) (filter (\<lambda>e. fst e = q) ?R)) =
        (case map_of (stats f) q of None \<Rightarrow> 0 | Some c \<Rightarrow> g c)" by (auto split: option.split)
    have "slot_total db q = (if ?cs = [] then None else Some (slot_sum ?cs))" by (simp add: slot_total_def Let_def)
    moreover have "g (slot_sum []) = 0" using g by (auto simp: counter_fields_def slot_sum_def)
    ultimately show ?thesis unfolding l r same [symmetric] by auto
  next
    case False
    then have "filter (\<lambda>e. slot_key (fst e) = q) ?L = []" "filter (\<lambda>e. fst e = q) ?R = []"
      by (auto simp: filter_empty_conv)
    then show ?thesis by simp
  qed
  have "sum_list (map (g \<circ> snd) ?L) = (\<Sum>q\<in>?A. sum_list (map (g \<circ> snd) (filter (\<lambda>e. slot_key (fst e) = q) ?L)))"
    by (rule sum_by_group) auto
  also have "\<dots> = (\<Sum>q\<in>?A. sum_list (map (g \<circ> snd) (filter (\<lambda>e. fst e = q) ?R)))"
    by (rule sum.cong [OF refl]) (rule groups)
  also have "\<dots> = sum_list (map (g \<circ> snd) ?R)" by (rule sum_by_group [symmetric]) auto
  finally show ?thesis .
qed

definition day_of :: "source \<Rightarrow> string option \<Rightarrow> time \<Rightarrow> statKey \<Rightarrow> bool" where
  "day_of src kind d q =
     (fst q = src \<and> (case kind of None \<Rightarrow> True | Some kd \<Rightarrow> fst (snd q) = kd) \<and> snd (snd q) = d)"

definition day_count :: "time \<Rightarrow> statCounters list \<Rightarrow> dailyCount" where
  "day_count d cs = \<lparr>dcDate = d, dcEnqueued = sum_list (map scEnqueued cs), dcProcessed = sum_list (map scProcessed cs),
     dcFailed = sum_list (map scFailed cs), dcReaped = sum_list (map scReaped cs)\<rparr>"

lemma fold_addDaily:
  "fold addDaily cs x = x\<lparr>dcEnqueued := dcEnqueued x + sum_list (map scEnqueued cs),
     dcProcessed := dcProcessed x + sum_list (map scProcessed cs),
     dcFailed := dcFailed x + sum_list (map scFailed cs), dcReaped := dcReaped x + sum_list (map scReaped cs)\<rparr>"
  by (induction cs arbitrary: x) (simp_all add: addDaily_def)

lemma fold_daily:
  "map_of (fold (daily_step src kind) es acc) d =
     (let cs = map snd (filter (\<lambda>e. day_of src kind d (fst e)) es)
      in if cs = [] then map_of acc d else Some (fold addDaily cs (the_default (zeroDaily d) (map_of acc d))))"
  and fold_daily_distinct: "distinct_keys acc \<Longrightarrow> distinct_keys (fold (daily_step src kind) es acc)"
  by (induction es arbitrary: acc)
    (auto simp: daily_step_def day_of_def update_conv' Let_def distinct_keys_update split: prod.splits option.splits)

lemma sort_key_map_id: "(\<And>x. k (g x) = x) \<Longrightarrow> sort_key k (map g xs) = map g (sort xs)"
proof (induction xs)
  case (Cons x xs)
  have "insort_key k (g x) (map g ys) = map g (insort x ys)" for ys using Cons(2) by (induction ys) simp_all
  with Cons show ?case by simp
qed simp

lemma dailyLocked_eq:
  "dailyLocked src kind s =
     map (\<lambda>d. day_count d (map snd (filter (\<lambda>e. day_of src kind d (fst e)) (stats s))))
       (sort (remdups (map (\<lambda>e. snd (snd (fst e))) (filter (\<lambda>e. day_of src kind (snd (snd (fst e))) (fst e)) (stats s)))))"
    (is "_ = map ?v (sort ?ds)")
proof -
  let ?b = "fold (daily_step src kind) (stats s) []"
  have d: "distinct_keys ?b" by (rule fold_daily_distinct) simp
  have ds: "d \<in> set ?ds \<longleftrightarrow> filter (\<lambda>e. day_of src kind d (fst e)) (stats s) \<noteq> []" for d
    by (cases kind) (force simp: filter_empty_conv day_of_def)+
  have look: "map_of ?b d = (if d \<in> set ?ds then Some (?v d) else None)" for d
    unfolding ds by (simp add: fold_daily Let_def fold_addDaily day_count_def zeroDaily_def)
  have "map snd ?b = map ?v (map fst ?b)"
  proof -
    have "snd e = ?v (fst e)" if "e \<in> set ?b" for e
      using map_of_is_SomeI [OF d, of "fst e" "snd e"] that look [of "fst e"] by (simp split: if_splits)
    then show ?thesis by simp
  qed
  moreover have "sort (map fst ?b) = sort ?ds"
  proof (rule sorted_distinct_set_unique)
    have "fst ` set ?b = dom (map_of ?b)" by (rule dom_map_of_conv_image_fst [symmetric])
    also have "\<dots> = set ?ds" using look by (auto simp: dom_def split: if_splits)
    finally show "set (sort (map fst ?b)) = set (sort ?ds)" by simp
  qed (use d in simp_all)
  moreover have "sort_key dcDate (map ?v (map fst ?b)) = map ?v (sort (map fst ?b))"
    by (rule sort_key_map_id) (simp add: day_count_def)
  ultimately show ?thesis by (simp only: dailyLocked_def)
qed

lemma queryDaily_eq:
  "queryDaily (day_rows src kind db) =
     map (\<lambda>d. day_count d (map snd (filter (\<lambda>e. day_of src kind d (slot_key (fst e))) (pgStats db))))
       (sort (remdups (map (\<lambda>e. fst (snd (snd (fst e))))
          (filter (\<lambda>e. day_of src kind (fst (snd (snd (fst e)))) (slot_key (fst e))) (pgStats db)))))"
proof -
  have "filter (\<lambda>((ksrc, kkind, day, slot), c). day = d) (day_rows src kind db) =
      filter (\<lambda>e. day_of src kind d (slot_key (fst e))) (pgStats db)" for d
    unfolding day_rows_def filter_filter by (cases kind) (auto simp: day_of_def intro!: filter_cong)
  moreover have "day_rows src kind db = filter (\<lambda>e. day_of src kind (fst (snd (snd (fst e)))) (slot_key (fst e))) (pgStats db)"
    unfolding day_rows_def by (cases kind) (auto simp: day_of_def intro!: filter_cong)
  ultimately show ?thesis by (simp add: queryDaily_def day_count_def Let_def case_prod_unfold comp_def)
qed

lemma daily_agree:
  assumes "distinct_keys (stats f)" "slot_total db = map_of (stats f)"
  shows "queryDaily (day_rows src kind db) = dailyLocked src kind f"
proof -
  have days: "set (map (\<lambda>e. fst (snd (snd (fst e)))) (filter (\<lambda>e. day_of src kind (fst (snd (snd (fst e)))) (slot_key (fst e))) (pgStats db))) =
      {d. \<exists>q. slot_total db q \<noteq> None \<and> day_of src kind d q}"
    by (cases kind) (force simp: slot_total_def Let_def filter_empty_conv day_of_def)+
  have days': "set (map (\<lambda>e. snd (snd (fst e))) (filter (\<lambda>e. day_of src kind (snd (snd (fst e))) (fst e)) (stats f))) =
      {d. \<exists>q. map_of (stats f) q \<noteq> None \<and> day_of src kind d q}"
    by (cases kind) (force simp: map_of_eq_None_iff day_of_def)+
  have "sort (remdups (map (\<lambda>e. fst (snd (snd (fst e)))) (filter (\<lambda>e. day_of src kind (fst (snd (snd (fst e)))) (slot_key (fst e))) (pgStats db)))) =
      sort (remdups (map (\<lambda>e. snd (snd (fst e))) (filter (\<lambda>e. day_of src kind (snd (snd (fst e))) (fst e)) (stats f))))"
    by (rule sorted_distinct_set_unique) (simp_all only: set_sort set_remdups days days' assms(2) sorted_sort distinct_sort distinct_remdups)
  moreover have "day_count d (map snd (filter (\<lambda>e. day_of src kind d (slot_key (fst e))) (pgStats db))) =
      day_count d (map snd (filter (\<lambda>e. day_of src kind d (fst e)) (stats f)))" for d
    using slots_add_up [OF assms, where Q = "day_of src kind d"] by (simp add: day_count_def counter_fields_def)
  ultimately show ?thesis by (simp only: queryDaily_eq dailyLocked_eq)
qed

type_synonym bump = "time \<times> source \<times> string \<times> statField \<times> int"

definition pg_bump :: "pgEnv \<Rightarrow> pgStore \<Rightarrow> bump \<Rightarrow> pgdb \<Rightarrow> pgdb" where
  "pg_bump env st b db = (case b of (t, src, kind, field, n) \<Rightarrow> pgBumpStat env st src kind field n (db\<lparr>pgNow := t\<rparr>))"

definition fake_bump :: "bump \<Rightarrow> fake \<Rightarrow> fake" where
  "fake_bump b f = (case b of (t, src, kind, field, n) \<Rightarrow> bumpStat src kind field n t f)"

lemma bumps_agree:
  assumes "distinct_keys (pgStats db)" "distinct_keys (stats f)" "slot_total db = map_of (stats f)"
  shows "distinct_keys (stats (fold fake_bump bs f)) \<and>
    slot_total (fold (pg_bump env st) bs db) = map_of (stats (fold fake_bump bs f))"
  using assms
proof (induction bs arbitrary: db f)
  case (Cons b bs)
  obtain t src kind field n where b: "b = (t, src, kind, field, n)" by (cases b)
  have "slot_total (db\<lparr>pgNow := t\<rparr>) = slot_total db" for db :: pgdb and t by (simp add: slot_total_def fun_eq_iff)
  then have "slot_total (pg_bump env st b db) = map_of (stats (fake_bump b f))"
    using slot_total_bump [of "db\<lparr>pgNow := t\<rparr>" env st src kind field n] Cons.prems
    by (simp add: b pg_bump_def fake_bump_def bumpStat_def Let_def update_conv')
  moreover have "distinct_keys (pgStats (pg_bump env st b db))" "distinct_keys (stats (fake_bump b f))"
    using Cons.prems by (simp_all add: b pg_bump_def fake_bump_def pgBumpStat_def bumpStat_def Let_def distinct_keys_update)
  ultimately show ?case using Cons.IH by simp
qed simp

text \<open>
  C19: Spreading the daily counters over random slots cannot be observed. Whatever slots
  are drawn and however many there are, after any sequence of increments at any times
  the daily window of each source and of each of its kinds is the one of the
  in-memory driver, which keeps a single counter.
\<close>

theorem slots_invisible:
  "pgAllDaily src (fold (pg_bump env st) bs (pgEmpty now)) = AllDaily src (fold fake_bump bs (NewFake now)) \<and>
   snd (pgStatsOf age src kind (fold (pg_bump env st) bs (pgEmpty now))) = snd (Stats src kind (fold fake_bump bs (NewFake now)))"
proof -
  have "slot_total (pgEmpty now) = map_of (stats (NewFake now))"
    by (simp add: slot_total_def pgEmpty_def NewFake_def fun_eq_iff)
  then have "distinct_keys (stats (fold fake_bump bs (NewFake now)))"
    "slot_total (fold (pg_bump env st) bs (pgEmpty now)) = map_of (stats (fold fake_bump bs (NewFake now)))"
    using bumps_agree [of "pgEmpty now" "NewFake now"] by (simp_all add: pgEmpty_def NewFake_def)
  note agree = daily_agree [OF this]
  show ?thesis by (simp add: pgAllDaily_def AllDaily_def pgStatsOf_def Stats_def agree case_prod_unfold Let_def)
qed

section \<open>Retention of the counters\<close>



section \<open>Where the two stores differ\<close>

definition shown :: "answer \<Rightarrow> answer" where
  "shown a = (case a of AnsJobs js \<Rightarrow> AnsInt (int (length js)) | _ \<Rightarrow> a)"

definition fake_run :: "driver_op list \<Rightarrow> fake" where
  "fake_run ops = snd (run_ops (fake_exec (gen_random_uuid run_env)) ops (NewFake 100))"

text \<open>
  \<open>Enqueue\<close> of the PostgreSQL store commits the claim of a time window even when the
  insert is then refused because a live job holds the key. Once that job is done the
  key stays refused for the window, although no job was enqueued under it; the
  in-memory store accepts the next enqueue.
\<close>

definition window_ops :: "driver_op list" where
  "window_ops =
     [OpEnqueue (run_params 1 ''a''), OpEnqueue ((run_params 2 ''a'')\<lparr>epIdempotencyTTL := 3\<rparr>),
      OpDequeue SourceQueue (run_dequeue 1), OpSettle DoAck 1 50,
      OpEnqueue ((run_params 3 ''a'')\<lparr>epIdempotencyTTL := 3\<rparr>)]"

lemma window_claim_kept:
  "map shown (fst (run_ops (pg_exec run_env (pgNew [])) window_ops (pgEmpty 100))) =
     [AnsBool True, AnsBool False, AnsInt 1, AnsBool False, AnsBool False]"
  "map shown (fst (run_ops (fake_exec (gen_random_uuid run_env)) window_ops (NewFake 100))) =
     [AnsBool True, AnsBool False, AnsInt 1, AnsBool False, AnsBool True]"
  by code_simp+

text \<open>
  One dead job whose key a live job has taken over makes \<open>RetryAllDead\<close> of the
  PostgreSQL store fail for its whole batch; the in-memory store retries it and then
  has two live jobs with one key.
\<close>

definition reused_key_ops :: "driver_op list" where
  "reused_key_ops =
     [OpEnqueue (run_params 1 ''a''), OpArchive SourceQueue 1, OpEnqueue (run_params 2 []), OpArchive SourceQueue 2,
      OpEnqueue (run_params 3 ''a'')]"

lemma retry_batch:
  "map rId (filter (pg_retryable SourceQueue []) (map snd (pgJobs (run_pg reused_key_ops)))) = [1, 2]"
  "fst (retry_update (\<lambda>r. rId r \<in> set [1, 2]) (run_pg reused_key_ops)) = Inl (OtherError ''azync_jobs_idempotency_idx'')"
  by code_simp+

lemma retry_all_blocked:
  "\<exists>e. pgRetryAllDead (pgNew []) SourceQueue [] (run_pg reused_key_ops) = Some ((Some e, 0), run_pg reused_key_ops)"
  "map (rState \<circ> snd) (pgJobs (run_pg reused_key_ops)) = [StateDead, StateDead, StatePending]"
  "fst (RetryAllDead SourceQueue [] (fake_run reused_key_ops)) = Inr 2"
proof -
  let ?db = "run_pg reused_key_ops"
  have "maintenanceBatch (pgNew []) = 1000" by code_simp
  then have ids: "map rId (take (nat (maintenanceBatch (pgNew []))) (filter (pg_retryable SourceQueue []) (map snd (pgJobs ?db)))) = [1, 2]"
    unfolding take_map [symmetric] retry_batch(1) by simp
  have "snd (retry_update w ?db) = ?db" if "fst (retry_update w ?db) = Inl e" for w e
    using that by (auto simp: retry_update_def Let_def split: prod.splits if_splits)
  from this [OF retry_batch(2)] retry_batch(2)
  have one: "retry_update (\<lambda>r. rId r \<in> set [1, 2]) ?db = (Inl (OtherError ''azync_jobs_idempotency_idx''), ?db)"
    by (metis prod.collapse)
  show "\<exists>e. pgRetryAllDead (pgNew []) SourceQueue [] ?db = Some ((Some e, 0), ?db)"
    unfolding pgRetryAllDead_def execBatchLoop_def Let_def
    by (subst batch_loop.simps) (simp only: ids one prod.case sum.case simp_thms option.inject prod.inject ex_simps)
qed code_simp+

text \<open>
  The attempts of a retried job start again at one. The PostgreSQL store lists the
  history by attempt number, so attempts of different rounds interleave; the in-memory
  store lists it oldest first.
\<close>

definition two_rounds_pg :: pgdb where
  "two_rounds_pg =
     (let fail = (\<lambda>tok err db. snd (pgReschedule run_env (pgNew []) 1 tok 0 err
             (snd (pgDequeueBatch run_env (\<lambda>_. False) SourceQueue (run_dequeue 1) db))));
          again = (\<lambda>db. snd (pgRunNow SourceQueue 1 db));
          db = again (fail 50 ''first'' (run_pg [OpEnqueue (run_params 1 [])]));
          db = snd (pgArchiveJob SourceQueue 1 (fail 51 ''second'' db))
      in fail 52 ''third'' (snd (pgRetryJob SourceQueue 1 db)))"

definition two_rounds_fake :: fake where
  "two_rounds_fake =
     (let fail = (\<lambda>tok err f. snd (Reschedule 1 tok 0 err
             (snd (DequeueBatch (gen_random_uuid run_env) SourceQueue (run_dequeue 1) f))));
          again = (\<lambda>f. snd (RunNow SourceQueue 1 f));
          f = again (fail 50 ''first'' (fake_run [OpEnqueue (run_params 1 [])]));
          f = snd (ArchiveJob SourceQueue 1 (fail 51 ''second'' f))
      in fail 52 ''third'' (snd (RetryJob SourceQueue 1 f)))"

lemma attempts_interleave:
  "map aeError (pgJobAttempts SourceQueue 1 two_rounds_pg) = [''first'', ''third'', ''second'']"
  "map aeError (JobAttempts SourceQueue 1 two_rounds_fake) = [''first'', ''second'', ''third'']"
  by code_simp+

end
