(* ===== verification/Pg_Outbox.thy ===== *)
theory Pg_Outbox
  imports Pg_Ident Dag_Lifecycle
begin

text \<open>
  The outbox of the PostgreSQL driver (\<open>driver/azyncpgx/outbox.go\<close>): writes captured
  in a transaction on one database, forwarded later to a store that lives elsewhere.
  The JSON encoding of the parameters and the quoting of identifiers are parameters.
  The outbox table is a list of rows; a drain is one transaction on it, whose statements
  and commit may fail, while what it handed to the target stays there.
\<close>

section \<open>The outbox and its table\<close>

record outbox =
  obxTable :: string
  obxHistoryTable :: string
  obxCreateSchema :: string

definition outboxTableName :: string where
  "outboxTableName = ''azync_outbox''"

definition outboxHistoryName :: string where
  "outboxHistoryName = ''azync_outbox_migrations''"

definition outboxFormat :: int where
  "outboxFormat = 1"

definition defaultDrainLimit :: int where
  "defaultDrainLimit = 100"

definition outboxKindEvent :: string where
  "outboxKindEvent = ''event''"

definition outboxKindJob :: string where
  "outboxKindJob = ''job''"

definition outboxKindDAG :: string where
  "outboxKindDAG = ''dag''"

lemmas outbox_kinds = outboxKindEvent_def outboxKindJob_def outboxKindDAG_def

definition WithOutboxSchema :: "string \<Rightarrow> string \<Rightarrow> string" where
  "WithOutboxSchema schema cfg = schema"

text \<open>
  \<open>sanitize\<close> is \<open>pgx.Identifier.Sanitize\<close>. An identifier has ASCII letters only, so it
  equals its lower case unless it has a letter of \<open>A\<close> to \<open>Z\<close>.
\<close>

definition NewOutbox :: "(string list \<Rightarrow> string) \<Rightarrow> (string \<Rightarrow> string) list \<Rightarrow> error + outbox" where
  "NewOutbox sanitize opts =
     (let schema = fold (\<lambda>opt. opt) opts [] in
      if schema = [] then Inr \<lparr>obxTable = outboxTableName, obxHistoryTable = outboxHistoryName, obxCreateSchema = []\<rparr>
      else if \<not> isPostgresIdentifier schema \<or> list_ex (byte_between (CHR ''A'') (CHR ''Z'')) schema
      then Inl (OtherError ''azyncpgx: outbox schema is not a lowercase identifier'')
      else Inr \<lparr>obxTable = sanitize [schema, outboxTableName],
                obxHistoryTable = schema @ ''.'' @ outboxHistoryName,
                obxCreateSchema = ''CREATE SCHEMA IF NOT EXISTS '' @ sanitize [schema]\<rparr>)"

record outboxRow =
  rowSeq :: int
  rowId :: uuid
  rowKind :: string
  rowFormat :: int
  rowParams :: string

record outboxEntry = outboxRow +
  enTopic :: string
  enCreatedAt :: time
  enQuarantinedAt :: "time option"
  enLastError :: "string option"

record outboxDb =
  obNow :: time
  obNextSeq :: int
  obEntries :: "outboxEntry list"

record paramsCodec =
  marshalEvent :: "publishParams \<Rightarrow> string option"
  marshalJob :: "enqueueParams \<Rightarrow> string option"
  marshalDag :: "dagParams \<Rightarrow> string option"
  storedJson :: "string \<Rightarrow> string option"
  unmarshalEvent :: "string \<Rightarrow> string + publishParams"
  unmarshalJob :: "string \<Rightarrow> string + enqueueParams"
  unmarshalDag :: "string \<Rightarrow> string + dagParams"

section \<open>Capture\<close>

definition outboxEntryOf :: "string \<Rightarrow> uuid \<Rightarrow> string \<Rightarrow> string \<Rightarrow> outboxDb \<Rightarrow> outboxEntry" where
  "outboxEntryOf kind rid topic params db =
     \<lparr>rowSeq = obNextSeq db, rowId = rid, rowKind = kind, rowFormat = outboxFormat, rowParams = params,
      enTopic = topic, enCreatedAt = obNow db, enQuarantinedAt = None, enLastError = None\<rparr>"

definition capture ::
  "paramsCodec \<Rightarrow> string \<Rightarrow> uuid \<Rightarrow> string \<Rightarrow> string option \<Rightarrow> outboxDb \<Rightarrow> (outboxDb, unit) outcome" where
  "capture cdc kind rid topic raw db =
     (case raw of
        None \<Rightarrow> (Inl (OtherError ''azyncpgx: outbox encode''), db)
      | Some text \<Rightarrow>
          (case storedJson cdc text of
             None \<Rightarrow> (Inl (OtherError ''azyncpgx: outbox capture''), db)
           | Some params \<Rightarrow>
               if list_ex (\<lambda>e. rowId e = rid) (obEntries db) then (Inl AlreadyExists, db)
               else (Inr (), db\<lparr>obEntries := obEntries db @ [outboxEntryOf kind rid topic params db],
                               obNextSeq := obNextSeq db + 1\<rparr>)))"

definition OutboxPublishTx :: "paramsCodec \<Rightarrow> publishParams \<Rightarrow> outboxDb \<Rightarrow> (outboxDb, int) outcome" where
  "OutboxPublishTx cdc p db =
     (case capture cdc outboxKindEvent (ppID p) (ppType p) (marshalEvent cdc p) db of
        (Inl e, db') \<Rightarrow> (Inl e, db') | (Inr u, db') \<Rightarrow> (Inr 0, db'))"

definition OutboxEnqueueTx :: "paramsCodec \<Rightarrow> enqueueParams \<Rightarrow> outboxDb \<Rightarrow> (outboxDb, bool) outcome" where
  "OutboxEnqueueTx cdc p db =
     (case capture cdc outboxKindJob (epID p) (epKind p) (marshalJob cdc p) db of
        (Inl e, db') \<Rightarrow> (Inl e, db') | (Inr u, db') \<Rightarrow> (Inr True, db'))"

definition OutboxCreateDAGTx :: "paramsCodec \<Rightarrow> dagParams \<Rightarrow> outboxDb \<Rightarrow> (outboxDb, bool \<times> uuid) outcome" where
  "OutboxCreateDAGTx cdc p db =
     (case capture cdc outboxKindDAG (dgID p) (dgName p) (marshalDag cdc p) db of
        (Inl e, db') \<Rightarrow> (Inl e, db') | (Inr u, db') \<Rightarrow> (Inr (True, Nil_uuid), db'))"

section \<open>Forwarding\<close>

text \<open>The store a drain forwards to; \<open>tgCreateDAG\<close> is present when it is a \<open>driver.DAGStore\<close>.\<close>

record 's target =
  tgPublish :: "publishParams \<Rightarrow> 's \<Rightarrow> ('s, int) outcome"
  tgEnqueue :: "enqueueParams \<Rightarrow> 's \<Rightarrow> ('s, bool) outcome"
  tgCreateDAG :: "(dagParams \<Rightarrow> 's \<Rightarrow> ('s, bool \<times> uuid) outcome) option"

datatype forwardError = Undecodable string | Refused error

definition forwarded_as :: "('s, 'a) outcome \<Rightarrow> forwardError option \<times> 's" where
  "forwarded_as res = (case fst res of Inl e \<Rightarrow> Some (Refused e) | Inr a \<Rightarrow> None, snd res)"

definition undecodable :: "string \<Rightarrow> string \<Rightarrow> 's \<Rightarrow> forwardError option \<times> 's" where
  "undecodable kind reason s = (Some (Undecodable (''decode '' @ kind @ '' params: '' @ reason)), s)"

definition forward :: "paramsCodec \<Rightarrow> 's target \<Rightarrow> outboxRow \<Rightarrow> 's \<Rightarrow> forwardError option \<times> 's" where
  "forward cdc tgt row s =
     (if rowFormat row \<noteq> outboxFormat then (Some (Undecodable ''unknown outbox format''), s)
      else if rowKind row = outboxKindEvent then
        (case unmarshalEvent cdc (rowParams row) of
           Inl e \<Rightarrow> undecodable (rowKind row) e s
         | Inr p \<Rightarrow> forwarded_as (tgPublish tgt p s))
      else if rowKind row = outboxKindJob then
        (case unmarshalJob cdc (rowParams row) of
           Inl e \<Rightarrow> undecodable (rowKind row) e s
         | Inr p \<Rightarrow> forwarded_as (tgEnqueue tgt p s))
      else if rowKind row = outboxKindDAG then
        (case tgCreateDAG tgt of
           None \<Rightarrow> (Some (Refused NotSupported), s)
         | Some create \<Rightarrow>
             (case unmarshalDag cdc (rowParams row) of
                Inl e \<Rightarrow> undecodable (rowKind row) e s
              | Inr p \<Rightarrow> forwarded_as (create p s)))
      else (Some (Undecodable ''unknown outbox kind''), s))"

section \<open>Drain\<close>

record drainResult =
  drForwarded :: int
  drQuarantined :: int

text \<open>What the drain's transaction does to a row; a refused row has no effect and stops the batch.\<close>

datatype effect = Remove int | Quarantine int string

definition row_effect :: "outboxRow \<Rightarrow> forwardError option \<Rightarrow> effect option" where
  "row_effect row err =
     (case err of
        None \<Rightarrow> Some (Remove (rowSeq row))
      | Some (Refused e) \<Rightarrow> if e = AlreadyExists then Some (Remove (rowSeq row)) else None
      | Some (Undecodable reason) \<Rightarrow> Some (Quarantine (rowSeq row) reason))"

fun apply_effect :: "effect \<Rightarrow> outboxDb \<Rightarrow> outboxDb" where
  "apply_effect (Remove q) db = db\<lparr>obEntries := filter (\<lambda>e. rowSeq e \<noteq> q) (obEntries db)\<rparr>"
| "apply_effect (Quarantine q reason) db =
     db\<lparr>obEntries := map (\<lambda>e. if rowSeq e = q then e\<lparr>enQuarantinedAt := Some (obNow db), enLastError := Some reason\<rparr> else e)
          (obEntries db)\<rparr>"

fun tally :: "effect \<Rightarrow> drainResult \<Rightarrow> drainResult" where
  "tally (Remove q) res = res\<lparr>drForwarded := drForwarded res + 1\<rparr>"
| "tally (Quarantine q reason) res = res\<lparr>drQuarantined := drQuarantined res + 1\<rparr>"

text \<open>
  \<open>selectSQL\<close>: the live rows by sequence, without the rows another drain has locked.
\<close>

definition claim :: "(int \<Rightarrow> bool) \<Rightarrow> int \<Rightarrow> outboxDb \<Rightarrow> outboxRow list" where
  "claim locked limit db =
     take (nat limit) (sort_key rowSeq (map outboxRow.truncate
       (filter (\<lambda>e. enQuarantinedAt e = None \<and> \<not> locked (rowSeq e)) (obEntries db))))"

text \<open>
  The loop of \<open>Drain\<close>. \<open>broken\<close> says which removals and quarantines fail; such a failure
  ends the drain with an error and no result. The batch stops at the first refused row.
\<close>

fun drain_rows ::
  "paramsCodec \<Rightarrow> 's target \<Rightarrow> (int \<Rightarrow> bool) \<Rightarrow> outboxRow list \<Rightarrow> drainResult \<Rightarrow> outboxDb \<Rightarrow> 's \<Rightarrow>
   ((error + drainResult \<times> error option) \<times> outboxDb) \<times> 's" where
  "drain_rows cdc tgt broken [] res db s = ((Inr (res, None), db), s)"
| "drain_rows cdc tgt broken (row # rows) res db s =
     (let (err, s') = forward cdc tgt row s in
      case row_effect row err of
        None \<Rightarrow> ((Inr (res, Some (OtherError ''azyncpgx: outbox forward'')), db), s')
      | Some eff \<Rightarrow>
          if broken (rowSeq row) then ((Inl (OtherError ''azyncpgx: outbox remove''), db), s')
          else drain_rows cdc tgt broken rows (tally eff res) (apply_effect eff db) s')"

record drainFaults =
  fltBegin :: bool
  fltClaim :: bool
  fltRow :: "int \<Rightarrow> bool"
  fltCommit :: bool

definition Drain ::
  "paramsCodec \<Rightarrow> 's target \<Rightarrow> drainFaults \<Rightarrow> (int \<Rightarrow> bool) \<Rightarrow> int \<Rightarrow> outboxDb \<Rightarrow> 's \<Rightarrow>
   ((drainResult \<times> error option) \<times> outboxDb) \<times> 's" where
  "Drain cdc tgt flt locked lim db s =
     (let limit = (if lim \<le> 0 then defaultDrainLimit else lim);
          none = \<lparr>drForwarded = 0, drQuarantined = 0\<rparr>
      in if fltBegin flt then (((none, Some (OtherError ''azyncpgx: outbox drain begin'')), db), s)
         else if fltClaim flt then (((none, Some (OtherError ''azyncpgx: outbox claim'')), db), s)
         else case drain_rows cdc tgt (fltRow flt) (claim locked limit db) none db s of
                ((Inl e, db'), s') \<Rightarrow> (((none, Some e), db), s')
              | ((Inr (res, stopped), db'), s') \<Rightarrow>
                  if fltCommit flt then (((none, Some (OtherError ''azyncpgx: outbox drain commit'')), db), s')
                  else (((res, stopped), db'), s'))"

section \<open>Captures, drains and crashes interleaved\<close>

text \<open>
  The system: the outbox, the target, the drains under way and two history variables,
  the rows captured so far and the log of what was forwarded with the target's answer.
  A drain holds the locks of the rows it claimed until it commits or is lost. Its
  effects reach the table with its commit only.
\<close>

record drain =
  dnClaimed :: "outboxRow list"
  dnBatch :: "outboxRow list"
  dnEffects :: "effect list"

record 's outboxSys =
  sysDb :: outboxDb
  sysTarget :: 's
  sysDrains :: "nat \<Rightarrow> drain option"
  sysCaptured :: "outboxRow list"
  sysLog :: "(outboxRow \<times> forwardError option) list"

definition locked_by :: "'s outboxSys \<Rightarrow> int \<Rightarrow> bool" where
  "locked_by st q = (\<exists>w d. sysDrains st w = Some d \<and> q \<in> rowSeq ` set (dnClaimed d))"

definition handed :: "outboxRow \<Rightarrow> forwardError option \<Rightarrow> outboxRow list \<Rightarrow> drain \<Rightarrow> drain" where
  "handed row err rows d =
     (case row_effect row err of
        None \<Rightarrow> d\<lparr>dnBatch := []\<rparr>
      | Some eff \<Rightarrow> d\<lparr>dnBatch := rows, dnEffects := dnEffects d @ [eff]\<rparr>)"

definition captured :: "outboxDb \<Rightarrow> 's outboxSys \<Rightarrow> 's outboxSys" where
  "captured db st = st\<lparr>sysDb := db, sysCaptured := sysCaptured st @ [outboxRow.truncate (last (obEntries db))]\<rparr>"

inductive outbox_step ::
  "paramsCodec \<Rightarrow> 's target \<Rightarrow> (string \<Rightarrow> uuid \<Rightarrow> 's \<Rightarrow> bool) \<Rightarrow> 's outboxSys \<Rightarrow> 's outboxSys \<Rightarrow> bool"
  for cdc tgt holds where
  publish: "OutboxPublishTx cdc p (sysDb st) = (Inr n, db) \<Longrightarrow> outbox_step cdc tgt holds st (captured db st)"
| enqueue: "OutboxEnqueueTx cdc q (sysDb st) = (Inr b, db) \<Longrightarrow> outbox_step cdc tgt holds st (captured db st)"
| create: "OutboxCreateDAGTx cdc g (sysDb st) = (Inr r, db) \<Longrightarrow> outbox_step cdc tgt holds st (captured db st)"
| claim: "sysDrains st w = None \<Longrightarrow> batch = claim (locked_by st) limit (sysDb st) \<Longrightarrow>
    outbox_step cdc tgt holds st
      (st\<lparr>sysDrains := (sysDrains st)(w \<mapsto> \<lparr>dnClaimed = batch, dnBatch = batch, dnEffects = []\<rparr>)\<rparr>)"
| hand: "sysDrains st w = Some d \<Longrightarrow> dnBatch d = row # rows \<Longrightarrow> forward cdc tgt row (sysTarget st) = (err, s') \<Longrightarrow>
    outbox_step cdc tgt holds st
      (st\<lparr>sysTarget := s', sysLog := sysLog st @ [(row, err)], sysDrains := (sysDrains st)(w \<mapsto> handed row err rows d)\<rparr>)"
| lost: "sysDrains st w = Some d \<Longrightarrow> dnBatch d = row # rows \<Longrightarrow> forward cdc tgt row (sysTarget st) = (err, s') \<Longrightarrow>
    outbox_step cdc tgt holds st
      (st\<lparr>sysTarget := s', sysLog := sysLog st @ [(row, err)], sysDrains := (sysDrains st)(w \<mapsto> d\<lparr>dnBatch := []\<rparr>)\<rparr>)"
| commit: "sysDrains st w = Some d \<Longrightarrow> dnBatch d = [] \<Longrightarrow>
    outbox_step cdc tgt holds st
      (st\<lparr>sysDb := fold apply_effect (dnEffects d) (sysDb st), sysDrains := (sysDrains st)(w := None)\<rparr>)"
| rollback: "sysDrains st w = Some d \<Longrightarrow> outbox_step cdc tgt holds st (st\<lparr>sysDrains := (sysDrains st)(w := None)\<rparr>)"
| tick: "outbox_step cdc tgt holds st (st\<lparr>sysDb := (sysDb st)\<lparr>obNow := now\<rparr>\<rparr>)"
| other: "(\<And>k i. holds k i (sysTarget st) \<Longrightarrow> holds k i s') \<Longrightarrow> outbox_step cdc tgt holds st (st\<lparr>sysTarget := s'\<rparr>)"

text \<open>
  What the target must promise: an id it holds is refused without effect, or merged
  by a key, and what it accepted it holds. The encoding keeps the ids.
\<close>

definition codec_keeps_ids :: "paramsCodec \<Rightarrow> bool" where
  "codec_keeps_ids cdc =
     ((\<forall>p t u. marshalEvent cdc p = Some t \<and> storedJson cdc t = Some u \<longrightarrow>
        (\<exists>p'. unmarshalEvent cdc u = Inr p' \<and> ppID p' = ppID p)) \<and>
      (\<forall>p t u. marshalJob cdc p = Some t \<and> storedJson cdc t = Some u \<longrightarrow>
        (\<exists>p'. unmarshalJob cdc u = Inr p' \<and> epID p' = epID p)) \<and>
      (\<forall>p t u. marshalDag cdc p = Some t \<and> storedJson cdc t = Some u \<longrightarrow>
        (\<exists>p'. unmarshalDag cdc u = Inr p' \<and> dgID p' = dgID p)))"

definition sound_row :: "paramsCodec \<Rightarrow> outboxRow \<Rightarrow> bool" where
  "sound_row cdc row =
     (rowFormat row = outboxFormat \<and> rowKind row \<in> {outboxKindEvent, outboxKindJob, outboxKindDAG} \<and>
      (rowKind row = outboxKindEvent \<longrightarrow> (\<exists>p. unmarshalEvent cdc (rowParams row) = Inr p \<and> ppID p = rowId row)) \<and>
      (rowKind row = outboxKindJob \<longrightarrow> (\<exists>p. unmarshalJob cdc (rowParams row) = Inr p \<and> epID p = rowId row)) \<and>
      (rowKind row = outboxKindDAG \<longrightarrow> (\<exists>p. unmarshalDag cdc (rowParams row) = Inr p \<and> dgID p = rowId row)))"

locale outbox_target =
  fixes cdc :: paramsCodec and tgt :: "'s target" and holds :: "string \<Rightarrow> uuid \<Rightarrow> 's \<Rightarrow> bool"
  assumes publish_held: "holds outboxKindEvent (ppID p) s \<Longrightarrow> tgPublish tgt p s = (Inl AlreadyExists, s)"
    and publish_done: "tgPublish tgt p s = (Inr n, s') \<Longrightarrow> holds outboxKindEvent (ppID p) s'"
    and publish_refused: "tgPublish tgt p s = (Inl AlreadyExists, s') \<Longrightarrow> holds outboxKindEvent (ppID p) s"
    and publish_keeps: "holds k i s \<Longrightarrow> holds k i (snd (tgPublish tgt p s))"
    and enqueue_keeps: "holds k i s \<Longrightarrow> holds k i (snd (tgEnqueue tgt q s))"
    and create_keeps: "tgCreateDAG tgt = Some create \<Longrightarrow> holds k i s \<Longrightarrow> holds k i (snd (create g s))"
begin

lemma forward_keeps: "holds k i s \<Longrightarrow> forward cdc tgt row s = (err, s') \<Longrightarrow> holds k i s'"
  using publish_keeps [of k i s] enqueue_keeps [of k i s] create_keeps [of _ k i s]
  by (force simp: forward_def forwarded_as_def undecodable_def split: if_splits sum.splits option.splits)

lemma forward_event:
  assumes "sound_row cdc row" "rowKind row = outboxKindEvent" "forward cdc tgt row s = (err, s')"
  shows "err = None \<Longrightarrow> \<not> holds outboxKindEvent (rowId row) s \<and> holds outboxKindEvent (rowId row) s'"
    "err = Some (Refused AlreadyExists) \<Longrightarrow> holds outboxKindEvent (rowId row) s"
proof -
  obtain p where p: "unmarshalEvent cdc (rowParams row) = Inr p" "ppID p = rowId row"
    using assms(1,2) by (auto simp: sound_row_def)
  have f: "forwarded_as (tgPublish tgt p s) = (err, s')"
    using assms p by (simp add: forward_def sound_row_def)
  show "err = None \<Longrightarrow> \<not> holds outboxKindEvent (rowId row) s \<and> holds outboxKindEvent (rowId row) s'"
    using f p(2) publish_held [of p s] publish_done [of p s]
    by (cases "tgPublish tgt p s") (auto simp: forwarded_as_def split: sum.splits)
  show "err = Some (Refused AlreadyExists) \<Longrightarrow> holds outboxKindEvent (rowId row) s"
    using f p(2) publish_refused [of p s]
    by (cases "tgPublish tgt p s") (auto simp: forwarded_as_def split: sum.splits)
qed

end

definition table :: "outboxDb \<Rightarrow> outboxRow set" where
  "table db = outboxRow.truncate ` set (obEntries db)"

lemma rowSeq_truncate [simp]: "rowSeq (outboxRow.truncate e) = rowSeq e"
  by (simp add: outboxRow.truncate_def)

lemma truncate_quarantined [simp]:
  "outboxRow.truncate (e\<lparr>enQuarantinedAt := q, enLastError := m\<rparr>) = outboxRow.truncate (e :: outboxEntry)"
  by (simp add: outboxRow.truncate_def)

lemma table_effect: "table (apply_effect eff db) = {r \<in> table db. eff \<noteq> Remove (rowSeq r)}"
proof (cases eff)
  case (Remove q)
  then show ?thesis by (auto simp: table_def)
next
  case (Quarantine q m)
  then show ?thesis by (auto simp: table_def image_Un image_image)
qed

lemma table_effects:
  "table (fold apply_effect effs db) = {r \<in> table db. Remove (rowSeq r) \<notin> set effs}"
  "obNextSeq (fold apply_effect effs db) = obNextSeq db"
proof -
  have next_seq: "obNextSeq (apply_effect eff db) = obNextSeq db" for eff db by (cases eff) simp_all
  show "table (fold apply_effect effs db) = {r \<in> table db. Remove (rowSeq r) \<notin> set effs}"
    by (induction effs arbitrary: db) (auto simp: table_effect)
  show "obNextSeq (fold apply_effect effs db) = obNextSeq db"
    by (induction effs arbitrary: db) (simp_all add: next_seq)
qed

lemma claim_table: "set (claim locked limit db) \<subseteq> {r \<in> table db. \<not> locked (rowSeq r)}"
  by (auto simp: claim_def table_def dest!: in_set_takeD)

section \<open>Nothing is lost, nothing is forwarded twice\<close>

text \<open>The target answered for the row, and holds it when it is an event.\<close>

definition delivered :: "(string \<Rightarrow> uuid \<Rightarrow> 's \<Rightarrow> bool) \<Rightarrow> 's outboxSys \<Rightarrow> outboxRow \<Rightarrow> bool" where
  "delivered holds st row =
     ((\<exists>err. (row, err) \<in> set (sysLog st) \<and> (err = None \<or> err = Some (Refused AlreadyExists))) \<and>
      (rowKind row = outboxKindEvent \<longrightarrow> holds outboxKindEvent (rowId row) (sysTarget st)))"

text \<open>The events the target accepted, in order.\<close>

definition accepted :: "'s outboxSys \<Rightarrow> uuid list" where
  "accepted st = map (\<lambda>(row, err). rowId row) (filter (\<lambda>(row, err). rowKind row = outboxKindEvent \<and> err = None) (sysLog st))"

definition rows_inv :: "paramsCodec \<Rightarrow> 's outboxSys \<Rightarrow> bool" where
  "rows_inv cdc st =
     (distinct (map rowSeq (sysCaptured st)) \<and> table (sysDb st) \<subseteq> set (sysCaptured st) \<and>
      (\<forall>r\<in>set (sysCaptured st). rowSeq r < obNextSeq (sysDb st) \<and> sound_row cdc r))"

definition drain_inv :: "(string \<Rightarrow> uuid \<Rightarrow> 's \<Rightarrow> bool) \<Rightarrow> 's outboxSys \<Rightarrow> drain \<Rightarrow> bool" where
  "drain_inv holds st d =
     (set (dnClaimed d) \<subseteq> table (sysDb st) \<and> set (dnBatch d) \<subseteq> set (dnClaimed d) \<and>
      (\<forall>q. Remove q \<in> set (dnEffects d) \<longrightarrow> (\<exists>row\<in>set (dnClaimed d). rowSeq row = q \<and> delivered holds st row)))"

definition claims_apart :: "(nat \<Rightarrow> drain option) \<Rightarrow> bool" where
  "claims_apart ds =
     (\<forall>v w d e. ds v = Some d \<and> ds w = Some e \<and> v \<noteq> w \<longrightarrow>
        rowSeq ` set (dnClaimed d) \<inter> rowSeq ` set (dnClaimed e) = {})"

definition outbox_inv :: "paramsCodec \<Rightarrow> (string \<Rightarrow> uuid \<Rightarrow> 's \<Rightarrow> bool) \<Rightarrow> 's outboxSys \<Rightarrow> bool" where
  "outbox_inv cdc holds st =
     (rows_inv cdc st \<and> (\<forall>w d. sysDrains st w = Some d \<longrightarrow> drain_inv holds st d) \<and>
      claims_apart (sysDrains st) \<and>
      (\<forall>r\<in>set (sysCaptured st). r \<in> table (sysDb st) \<or> delivered holds st r) \<and>
      distinct (accepted st) \<and> (\<forall>i\<in>set (accepted st). holds outboxKindEvent i (sysTarget st)))"

lemma capture_adds:
  assumes "capture cdc kind rid topic raw db = (Inr (), db')"
  obtains t u where "raw = Some t" "storedJson cdc t = Some u"
    "obEntries db' = obEntries db @ [outboxEntryOf kind rid topic u db]" "obNextSeq db' = obNextSeq db + 1"
  using assms by (auto simp: capture_def split: option.splits if_splits)

text \<open>What every capture does: one sound row with a new sequence number.\<close>

lemma capture_txs:
  assumes "codec_keeps_ids cdc"
    and "OutboxPublishTx cdc p db = (Inr n, db') \<or> OutboxEnqueueTx cdc q db = (Inr b, db') \<or> OutboxCreateDAGTx cdc g db = (Inr r, db')"
  shows "\<exists>e. obEntries db' = obEntries db @ [e] \<and> rowSeq e = obNextSeq db \<and> obNextSeq db' = obNextSeq db + 1 \<and>
    sound_row cdc (outboxRow.truncate e)"
  using assms(2)
proof (elim disjE)
  assume "OutboxPublishTx cdc p db = (Inr n, db')"
  then have "capture cdc outboxKindEvent (ppID p) (ppType p) (marshalEvent cdc p) db = (Inr (), db')"
    by (auto simp: OutboxPublishTx_def split: prod.splits sum.splits)
  then show ?thesis
    by (rule capture_adds) (use assms(1) in \<open>auto simp: codec_keeps_ids_def sound_row_def outboxEntryOf_def outboxRow.truncate_def outbox_kinds\<close>)
next
  assume "OutboxEnqueueTx cdc q db = (Inr b, db')"
  then have "capture cdc outboxKindJob (epID q) (epKind q) (marshalJob cdc q) db = (Inr (), db')"
    by (auto simp: OutboxEnqueueTx_def split: prod.splits sum.splits)
  then show ?thesis
    by (rule capture_adds) (use assms(1) in \<open>auto simp: codec_keeps_ids_def sound_row_def outboxEntryOf_def outboxRow.truncate_def outbox_kinds\<close>)
next
  assume "OutboxCreateDAGTx cdc g db = (Inr r, db')"
  then have "capture cdc outboxKindDAG (dgID g) (dgName g) (marshalDag cdc g) db = (Inr (), db')"
    by (auto simp: OutboxCreateDAGTx_def split: prod.splits sum.splits)
  then show ?thesis
    by (rule capture_adds) (use assms(1) in \<open>auto simp: codec_keeps_ids_def sound_row_def outboxEntryOf_def outboxRow.truncate_def outbox_kinds\<close>)
qed

lemma drain_inv_mono:
  assumes "drain_inv holds st d" "set (dnClaimed d) \<subseteq> table (sysDb st')"
    and "\<And>row. delivered holds st row \<Longrightarrow> delivered holds st' row"
  shows "drain_inv holds st' d"
  using assms by (auto simp: drain_inv_def) blast

lemma claims_apart_upd:
  assumes "claims_apart ds"
  shows "(\<And>v d. ds v = Some d \<Longrightarrow> v \<noteq> w \<Longrightarrow> rowSeq ` set (dnClaimed e) \<inter> rowSeq ` set (dnClaimed d) = {}) \<Longrightarrow>
      claims_apart (ds(w \<mapsto> e))"
    and "claims_apart (ds(w := None))"
proof -
  assume new: "\<And>v d. ds v = Some d \<Longrightarrow> v \<noteq> w \<Longrightarrow> rowSeq ` set (dnClaimed e) \<inter> rowSeq ` set (dnClaimed d) = {}"
  show "claims_apart (ds(w \<mapsto> e))" unfolding claims_apart_def
  proof (intro allI impI)
    fix u v d f assume a: "(ds(w \<mapsto> e)) u = Some d \<and> (ds(w \<mapsto> e)) v = Some f \<and> u \<noteq> v"
    consider "u = w" | "v = w" | "u \<noteq> w" "v \<noteq> w" by blast
    then show "rowSeq ` set (dnClaimed d) \<inter> rowSeq ` set (dnClaimed f) = {}"
    proof cases
      case 1 with a new [of v f] show ?thesis by (simp split: if_splits)
    next
      case 2 with a new [of u d] show ?thesis by (simp add: Int_commute split: if_splits)
    next
      case 3 with a assms show ?thesis unfolding claims_apart_def by (metis fun_upd_other)
    qed
  qed
next
  show "claims_apart (ds(w := None))" using assms unfolding claims_apart_def by (metis fun_upd_apply option.distinct(1))
qed

lemma claims_apart_same:
  assumes "claims_apart ds" "ds w = Some d" "dnClaimed e = dnClaimed d"
  shows "claims_apart (ds(w \<mapsto> e))"
  by (rule claims_apart_upd(1) [OF assms(1)]) (use assms in \<open>unfold claims_apart_def, metis\<close>)

lemma delivered_frame:
  "delivered holds (st\<lparr>sysDb := db\<rparr>) = delivered holds st" "delivered holds (st\<lparr>sysDrains := ds\<rparr>) = delivered holds st"
  "delivered holds (st\<lparr>sysCaptured := cs\<rparr>) = delivered holds st"
  "accepted (st\<lparr>sysDb := db\<rparr>) = accepted st" "accepted (st\<lparr>sysDrains := ds\<rparr>) = accepted st"
  "accepted (st\<lparr>sysCaptured := cs\<rparr>) = accepted st" "accepted (st\<lparr>sysTarget := s\<rparr>) = accepted st"
  by (auto simp: delivered_def accepted_def fun_eq_iff)

lemma inv_captured:
  assumes inv: "outbox_inv cdc holds st" and db: "obEntries db = obEntries (sysDb st) @ [e]" "rowSeq e = obNextSeq (sysDb st)"
    "obNextSeq db = obNextSeq (sysDb st) + 1" "sound_row cdc (outboxRow.truncate e)"
  shows "outbox_inv cdc holds (captured db st)"
proof -
  let ?r = "outboxRow.truncate e"
  have tab: "table db = insert ?r (table (sysDb st))" by (simp add: table_def db(1))
  have fresh: "rowSeq ?r \<notin> rowSeq ` set (sysCaptured st)" using inv db(2) by (auto simp: outbox_inv_def rows_inv_def)
  have rows: "rows_inv cdc (captured db st)"
    using inv fresh db by (auto simp: outbox_inv_def rows_inv_def captured_def tab)
  have "drain_inv holds (captured db st) d" if "drain_inv holds st d" for d
    by (rule drain_inv_mono [OF that]) (use that in \<open>auto simp: captured_def tab drain_inv_def delivered_frame\<close>)
  with inv rows show ?thesis by (auto simp: outbox_inv_def captured_def tab db(1) delivered_frame)
qed

lemma inv_claim:
  assumes inv: "outbox_inv cdc holds st" and new: "sysDrains st w = None" and batch: "batch = claim (locked_by st) limit (sysDb st)"
  shows "outbox_inv cdc holds (st\<lparr>sysDrains := (sysDrains st)(w \<mapsto> \<lparr>dnClaimed = batch, dnBatch = batch, dnEffects = []\<rparr>)\<rparr>)"
proof -
  have claimed: "set batch \<subseteq> table (sysDb st)" "\<And>r. r \<in> set batch \<Longrightarrow> \<not> locked_by st (rowSeq r)"
    using claim_table [of "locked_by st" limit "sysDb st"] by (auto simp: batch)
  have free: "rowSeq ` set batch \<inter> rowSeq ` set (dnClaimed d) = {}" if "sysDrains st v = Some d" for v d
    using claimed(2) that by (fastforce simp: locked_by_def)
  let ?st = "st\<lparr>sysDrains := (sysDrains st)(w \<mapsto> \<lparr>dnClaimed = batch, dnBatch = batch, dnEffects = []\<rparr>)\<rparr>"
  have mono: "drain_inv holds ?st d" if "drain_inv holds st d" for d
    using that by (auto simp: drain_inv_def delivered_frame)
  have new_inv: "drain_inv holds ?st \<lparr>dnClaimed = batch, dnBatch = batch, dnEffects = []\<rparr>"
    using claimed(1) by (simp add: drain_inv_def)
  have "rows_inv cdc ?st" using inv by (simp add: outbox_inv_def rows_inv_def)
  moreover have "\<forall>v d. sysDrains ?st v = Some d \<longrightarrow> drain_inv holds ?st d"
    using inv mono new_inv by (auto simp: outbox_inv_def)
  moreover have "claims_apart (sysDrains ?st)"
    using inv free by (simp add: claims_apart_upd outbox_inv_def)
  ultimately show ?thesis using inv by (simp add: outbox_inv_def delivered_frame)
qed

lemma inv_drop:
  assumes inv: "outbox_inv cdc holds st"
  shows "outbox_inv cdc holds (st\<lparr>sysDrains := (sysDrains st)(w := None)\<rparr>)"
  using inv claims_apart_upd(2) [of "sysDrains st" w]
  by (auto simp: outbox_inv_def rows_inv_def drain_inv_def delivered_frame split: if_splits)

context outbox_target
begin

lemma inv_forward:
  assumes inv: "outbox_inv cdc holds st" and d: "sysDrains st w = Some d" "row \<in> set (dnBatch d)"
    and f: "forward cdc tgt row (sysTarget st) = (err, s')"
    and d': "dnClaimed d' = dnClaimed d" "set (dnBatch d') \<subseteq> set (dnBatch d)"
    and eff: "\<And>q. Remove q \<in> set (dnEffects d') \<Longrightarrow> Remove q \<in> set (dnEffects d) \<or>
      q = rowSeq row \<and> (err = None \<or> err = Some (Refused AlreadyExists))"
  shows "outbox_inv cdc holds
    (st\<lparr>sysTarget := s', sysLog := sysLog st @ [(row, err)], sysDrains := (sysDrains st)(w \<mapsto> d')\<rparr>)" (is "outbox_inv _ _ ?st")
proof -
  note keeps = forward_keeps [OF _ f]
  have di: "drain_inv holds st d" using inv d(1) by (auto simp: outbox_inv_def)
  then have row: "row \<in> set (dnClaimed d)" "row \<in> set (sysCaptured st)"
    using d(2) inv by (auto simp: drain_inv_def outbox_inv_def rows_inv_def)
  then have sound: "sound_row cdc row" using inv by (auto simp: outbox_inv_def rows_inv_def)
  have mono: "delivered holds ?st r" if "delivered holds st r" for r
    using that keeps by (fastforce simp: delivered_def)
  have now: "delivered holds ?st row" if "err = None \<or> err = Some (Refused AlreadyExists)"
    using that forward_event [OF sound _ f] keeps by (auto simp: delivered_def)
  have acc: "accepted ?st = accepted st @ (if rowKind row = outboxKindEvent \<and> err = None then [rowId row] else [])"
    by (simp add: accepted_def)
  have "distinct (accepted ?st) \<and> (\<forall>i\<in>set (accepted ?st). holds outboxKindEvent i (sysTarget ?st))"
    unfolding acc using inv forward_event(1) [OF sound _ f] keeps by (auto simp: outbox_inv_def)
  moreover have "drain_inv holds ?st d'"
    unfolding drain_inv_def
  proof (intro conjI allI impI)
    show "set (dnClaimed d') \<subseteq> table (sysDb ?st)" "set (dnBatch d') \<subseteq> set (dnClaimed d')"
      using di d' by (auto simp: drain_inv_def)
    fix q assume "Remove q \<in> set (dnEffects d')"
    from eff [OF this] show "\<exists>r\<in>set (dnClaimed d'). rowSeq r = q \<and> delivered holds ?st r"
      using di mono now row(1) unfolding drain_inv_def d'(1) by blast
  qed
  moreover have "drain_inv holds ?st e" if "drain_inv holds st e" for e
    by (rule drain_inv_mono [OF that]) (use that mono in \<open>auto simp: drain_inv_def\<close>)
  moreover have "claims_apart (sysDrains ?st)"
    using claims_apart_same [of "sysDrains st" w d d', OF _ d(1) d'(1)] inv by (simp add: outbox_inv_def)
  moreover have "rows_inv cdc ?st" using inv by (simp add: outbox_inv_def rows_inv_def)
  ultimately show ?thesis using inv mono by (auto simp: outbox_inv_def)
qed

lemma inv_commit:
  assumes inv: "outbox_inv cdc holds st" and d: "sysDrains st w = Some d"
  shows "outbox_inv cdc holds
    (st\<lparr>sysDb := fold apply_effect (dnEffects d) (sysDb st), sysDrains := (sysDrains st)(w := None)\<rparr>)" (is "outbox_inv _ _ ?st")
proof -
  have di: "drain_inv holds st d" using inv d by (auto simp: outbox_inv_def)
  have tab: "table (sysDb ?st) = {r \<in> table (sysDb st). Remove (rowSeq r) \<notin> set (dnEffects d)}" by (simp add: table_effects)
  have one: "r = r'" if "r \<in> set (sysCaptured st)" "r' \<in> set (sysCaptured st)" "rowSeq r = rowSeq r'" for r r'
    using that inv by (auto simp: outbox_inv_def rows_inv_def distinct_map dest: inj_onD)
  have sub: "set (dnClaimed e) \<subseteq> set (sysCaptured st)" if "drain_inv holds st e" for e
    using that inv by (auto simp: drain_inv_def outbox_inv_def rows_inv_def)
  have del: "delivered holds ?st = delivered holds st" by (simp add: delivered_def fun_eq_iff)
  have gone: "delivered holds ?st r" if r: "r \<in> set (sysCaptured st)" "Remove (rowSeq r) \<in> set (dnEffects d)" for r
  proof -
    obtain r' where "r' \<in> set (dnClaimed d)" "rowSeq r' = rowSeq r" "delivered holds st r'"
      using di r(2) by (auto simp: drain_inv_def)
    with one [of r r'] r(1) sub [OF di] show ?thesis unfolding del by auto
  qed
  have others: "drain_inv holds ?st e" if e: "sysDrains st v = Some e" "v \<noteq> w" for v e
  proof (rule drain_inv_mono)
    show ei: "drain_inv holds st e" using inv e(1) by (auto simp: outbox_inv_def)
    have apart: "rowSeq ` set (dnClaimed d) \<inter> rowSeq ` set (dnClaimed e) = {}"
      using inv d e unfolding outbox_inv_def claims_apart_def by blast
    have "Remove (rowSeq x) \<notin> set (dnEffects d)" if "x \<in> set (dnClaimed e)" for x
    proof
      assume "Remove (rowSeq x) \<in> set (dnEffects d)"
      then obtain row where "row \<in> set (dnClaimed d)" "rowSeq row = rowSeq x" using di by (auto simp: drain_inv_def)
      then have "rowSeq x \<in> rowSeq ` set (dnClaimed d) \<inter> rowSeq ` set (dnClaimed e)" using that by (metis IntI imageI)
      with apart show False by simp
    qed
    moreover have "set (dnClaimed e) \<subseteq> table (sysDb st)" using ei by (simp add: drain_inv_def)
    ultimately show "set (dnClaimed e) \<subseteq> table (sysDb ?st)" unfolding tab by blast
  qed (simp add: del)
  have "rows_inv cdc ?st" using inv by (auto simp: outbox_inv_def rows_inv_def table_effects)
  moreover have "claims_apart (sysDrains ?st)" using inv claims_apart_upd(2) by (simp add: outbox_inv_def)
  moreover have "\<forall>r\<in>set (sysCaptured st). r \<in> table (sysDb ?st) \<or> delivered holds ?st r"
    using inv gone unfolding tab del by (auto simp: outbox_inv_def)
  moreover have "accepted ?st = accepted st" by (simp add: accepted_def)
  ultimately show ?thesis using inv others by (auto simp: outbox_inv_def split: if_splits)
qed

lemma inv_step:
  assumes codec: "codec_keeps_ids cdc" and "outbox_step cdc tgt holds st st'" "outbox_inv cdc holds st"
  shows "outbox_inv cdc holds st'"
  using assms(2,3)
proof (induction rule: outbox_step.induct)
  case (publish p st n db)
  then show ?case using capture_txs [OF codec, of p "sysDb st" n db] inv_captured by blast
next
  case (enqueue q st b db)
  then show ?case using capture_txs [OF codec, where q = q and db = "sysDb st" and b = b and db' = db] inv_captured by blast
next
  case (create g st r db)
  then show ?case using capture_txs [OF codec, where g = g and db = "sysDb st" and r = r and db' = db] inv_captured by blast
next
  case (claim st w batch limit)
  then show ?case by (intro inv_claim)
next
  case (hand st w d row rows err s')
  show ?case
    by (rule inv_forward [OF hand.prems hand(1) _ hand(3)])
      (use hand(2) in \<open>auto simp: handed_def row_effect_def split: option.splits forwardError.splits if_splits\<close>)
next
  case (lost st w d row rows err s')
  show ?case by (rule inv_forward [OF lost.prems lost(1) _ lost(3)]) (use lost(2) in auto)
next
  case (commit st w d)
  then show ?case by (intro inv_commit)
next
  case (rollback st w d)
  then show ?case by (intro inv_drop)
next
  case (tick st now)
  have "table ((sysDb st)\<lparr>obNow := now\<rparr>) = table (sysDb st)" by (simp add: table_def)
  with tick show ?case by (simp add: outbox_inv_def rows_inv_def drain_inv_def delivered_frame)
next
  case (other st s')
  have mono: "delivered holds (st\<lparr>sysTarget := s'\<rparr>) r" if "delivered holds st r" for r
    using that other(1) by (auto simp: delivered_def)
  have "drain_inv holds (st\<lparr>sysTarget := s'\<rparr>) d" if "drain_inv holds st d" for d
    by (rule drain_inv_mono [OF that]) (use that mono in \<open>auto simp: drain_inv_def\<close>)
  with other mono show ?case by (auto simp: outbox_inv_def rows_inv_def delivered_frame)
qed

lemma inv_reachable:
  assumes "codec_keeps_ids cdc" "(outbox_step cdc tgt holds)\<^sup>*\<^sup>* st st'" "outbox_inv cdc holds st"
  shows "outbox_inv cdc holds st'"
  using assms(2,3) by (induction rule: rtranclp_induct) (auto intro: inv_step [OF assms(1)])

end

section \<open>The in-memory store as the target\<close>

definition fake_target :: "(nat \<Rightarrow> uuid) \<Rightarrow> fake target" where
  "fake_target gen = \<lparr>tgPublish = Publish gen, tgEnqueue = Enqueue, tgCreateDAG = Some (CreateDAG gen)\<rparr>"

definition fake_holds :: "string \<Rightarrow> uuid \<Rightarrow> fake \<Rightarrow> bool" where
  "fake_holds kind i s =
     (if kind = outboxKindEvent then map_of (events s) i \<noteq> None
      else if kind = outboxKindJob then map_of (jobs s) i \<noteq> None
      else kind = outboxKindDAG \<and> map_of (dags s) i \<noteq> None)"

lemma kinds_differ [simp]:
  "outboxKindEvent \<noteq> outboxKindJob" "outboxKindJob \<noteq> outboxKindDAG" "outboxKindEvent \<noteq> outboxKindDAG"
  "outboxKindJob \<noteq> outboxKindEvent" "outboxKindDAG \<noteq> outboxKindJob" "outboxKindDAG \<noteq> outboxKindEvent"
  by (simp_all add: outbox_kinds)

lemma fake_holds_grows:
  assumes "dom (map_of (events s)) \<subseteq> dom (map_of (events s'))" "dom (map_of (jobs s)) \<subseteq> dom (map_of (jobs s'))"
    "dom (map_of (dags s)) \<subseteq> dom (map_of (dags s'))" "fake_holds kind i s"
  shows "fake_holds kind i s'"
  using assms by (auto simp: fake_holds_def dom_def split: if_splits)

lemma fold_grows:
  assumes "\<And>x s. A s \<subseteq> A (f x s)"
  shows "A s \<subseteq> A (fold f xs s)"
proof (induction xs arbitrary: s)
  case (Cons x xs)
  from assms [of s x] Cons [of "f x s"] show ?case by simp
qed simp

lemma createDelivery_grows:
  "events (createDelivery gen eid sub mx rp now s) = events s" "dags (createDelivery gen eid sub mx rp now s) = dags s"
  "dom (map_of (jobs s)) \<subseteq> dom (map_of (jobs (createDelivery gen eid sub mx rp now s)))"
  by (auto simp: createDelivery_def nextSeq_def Let_def putJob_def AList.update_conv' dom_def)

lemma Publish_grows:
  "fake_holds kind i s \<Longrightarrow> fake_holds kind i (snd (Publish gen p s))"
  "Publish gen p s = (Inr n, s') \<Longrightarrow> map_of (events s') (ppID p) \<noteq> None"
proof -
  let ?s1 = "changeEvent (ppID p) (ppType p) (s\<lparr>events := AList.update (ppID p) (ledger_record p) (events s)\<rparr>)"
  let ?s2 = "snd (fold (publish_step gen p (clock s)) (subscribersFor (ppType p) ?s1) (0, ?s1))"
  have step: "events (snd (publish_step gen p now sub st)) = events (snd st)"
    "dags (snd (publish_step gen p now sub st)) = dags (snd st)"
    "dom (map_of (jobs (snd st))) \<subseteq> dom (map_of (jobs (snd (publish_step gen p now sub st))))" for now sub st
    using createDelivery_grows by (simp_all add: publish_step_def case_prod_unfold)
  have e: "events ?s2 = events ?s1" by (subst fold_frame [where g = "\<lambda>st. events (snd st)"]) (simp_all add: step)
  have d: "dags ?s2 = dags ?s1" by (subst fold_frame [where g = "\<lambda>st. dags (snd st)"]) (simp_all add: step)
  have j: "dom (map_of (jobs ?s1)) \<subseteq> dom (map_of (jobs ?s2))"
    using fold_grows [where A = "\<lambda>st. dom (map_of (jobs (snd st)))" and f = "publish_step gen p (clock s)" and s = "(0, ?s1)"
        and xs = "subscribersFor (ppType p) ?s1", OF step(3)] unfolding snd_conv .
  have "fake_holds kind i s \<Longrightarrow> fake_holds kind i ?s2"
    by (rule fake_holds_grows [of s]) (use e d j in \<open>auto simp: AList.update_conv' dom_def\<close>)
  then show "fake_holds kind i s \<Longrightarrow> fake_holds kind i (snd (Publish gen p s))"
    by (simp add: Publish_def Let_def case_prod_unfold)
  show "Publish gen p s = (Inr n, s') \<Longrightarrow> map_of (events s') (ppID p) \<noteq> None"
    using e by (auto simp: Publish_def Let_def case_prod_unfold AList.update_conv' split: if_splits)
qed

lemma CreateDAG_grows: "fake_holds kind i s \<Longrightarrow> fake_holds kind i (snd (CreateDAG gen p s))"
proof -
  have task: "events (insertDAGTask gen w tk b now st) = events st"
    "dom (map_of (jobs st)) \<subseteq> dom (map_of (jobs (insertDAGTask gen w tk b now st)))" for w tk b now st
    by (auto simp: insertDAGTask_def nextSeq_def Let_def putJob_def AList.update_conv' dom_def)
  have tasks: "events (fold (\<lambda>tk st. insertDAGTask gen w tk (B tk) now st) tks st) = events st"
    "dags (fold (\<lambda>tk st. insertDAGTask gen w tk (B tk) now st) tks st) = dags st"
    "dom (map_of (jobs st)) \<subseteq> dom (map_of (jobs (fold (\<lambda>tk st. insertDAGTask gen w tk (B tk) now st) tks st)))"
    for w B now tks st
    using fold_grows [of "\<lambda>st. dom (map_of (jobs st))" "\<lambda>tk st. insertDAGTask gen w tk (B tk) now st", OF task(2)]
    by (simp_all add: fold_frame task)
  assume h: "fake_holds kind i s"
  let ?w = "new_dag p (clock s)" let ?s1 = "changeDAG ?w (putDAG ?w s)"
  let ?s2 = "fold (\<lambda>tk st. insertDAGTask gen ?w tk (dtKey tk \<in> set (map ddTaskKey (dgDeps p))) (clock s) st) (dgTasks p) ?s1"
  have "dom (map_of (dags s)) \<subseteq> dom (map_of (dags ?s1))" "events ?s1 = events s" "jobs ?s1 = jobs s"
    by (auto simp: putDAG_def AList.update_conv')
  then have "fake_holds kind i ?s2"
    using fake_holds_grows [OF _ _ _ h, of ?s2] tasks(1,2) tasks(3) [of ?s1] by (simp only: order_refl)
  moreover have "snd (CreateDAG gen p s) \<in> {s, ?s2}"
    by (simp add: CreateDAG_def Let_def split: option.split)
  ultimately show ?thesis using h by auto
qed

lemma Enqueue_grows: "fake_holds kind i s \<Longrightarrow> fake_holds kind i (snd (Enqueue p s))"
proof -
  assume h: "fake_holds kind i s"
  have frame: "events (snd (Enqueue p s)) = events s" "dags (snd (Enqueue p s)) = dags s"
    by (auto simp: Enqueue_def Let_def nextSeq_def)
  have "dom (map_of (jobs s)) \<subseteq> dom (map_of (jobs (snd (Enqueue p s))))"
    by (cases p s rule: Enqueue_cases) (auto simp: AList.update_conv')
  with h show ?thesis using fake_holds_grows frame by (metis order_refl)
qed

interpretation fake_outbox: outbox_target cdc "fake_target gen" fake_holds for cdc gen
proof (unfold_locales, goal_cases)
  case (1 p s)
  then show ?case by (simp add: fake_target_def fake_holds_def Publish_def)
next
  case (2 p s n s')
  then show ?case using Publish_grows(2) [of gen p s n s'] by (simp add: fake_target_def fake_holds_def)
next
  case (3 p s s')
  then show ?case by (simp add: fake_target_def fake_holds_def Publish_def Let_def case_prod_unfold split: if_splits)
next
  case (4 k i s p)
  then show ?case by (simp add: fake_target_def Publish_grows(1))
next
  case (5 k i s q)
  then show ?case by (simp add: fake_target_def Enqueue_grows)
next
  case (6 create k i s g)
  then show ?case by (auto simp: fake_target_def CreateDAG_grows)
qed

text \<open>The system before anything was captured.\<close>

definition outbox_start :: "time \<Rightarrow> 's \<Rightarrow> 's outboxSys" where
  "outbox_start now s =
     \<lparr>sysDb = \<lparr>obNow = now, obNextSeq = 1, obEntries = []\<rparr>, sysTarget = s, sysDrains = Map.empty, sysCaptured = [], sysLog = []\<rparr>"

lemma start_inv: "outbox_inv cdc holds (outbox_start now s)"
  by (simp add: outbox_inv_def outbox_start_def rows_inv_def claims_apart_def accepted_def table_def)

section \<open>A drain is a run of the system\<close>

lemma rows_run:
  assumes "sysDrains st w = Some d" "dnBatch d = rows"
    and "drain_rows cdc tgt broken rows res (fold apply_effect (dnEffects d) (sysDb st)) (sysTarget st) = ((r, db'), s')"
  shows "\<exists>log d'. (outbox_step cdc tgt holds)\<^sup>*\<^sup>* st
      (st\<lparr>sysTarget := s', sysLog := sysLog st @ log, sysDrains := (sysDrains st)(w \<mapsto> d')\<rparr>) \<and>
    (\<forall>x. r = Inr x \<longrightarrow> dnBatch d' = [] \<and> fold apply_effect (dnEffects d') (sysDb st) = db')"
  using assms
proof (induction rows arbitrary: st d res)
  case Nil
  then have st: "st\<lparr>sysTarget := s', sysLog := sysLog st @ [], sysDrains := (sysDrains st)(w \<mapsto> d)\<rparr> = st"
    by (auto simp: fun_upd_idem)
  with Nil show ?case by (intro exI [of _ "[]"] exI [of _ d]) (simp only: st, simp)
next
  case (Cons row rows)
  obtain err s1 where f: "forward cdc tgt row (sysTarget st) = (err, s1)" by fastforce
  let ?st1 = "st\<lparr>sysTarget := s1, sysLog := sysLog st @ [(row, err)], sysDrains := (sysDrains st)(w \<mapsto> handed row err rows d)\<rparr>"
  have step: "outbox_step cdc tgt holds st ?st1" by (rule outbox_step.hand [OF Cons.prems(1,2) f])
  show ?case
  proof (cases "row_effect row err = None \<or> broken (rowSeq row)")
    case True
    then have "s' = s1" "\<forall>x. r = Inr x \<longrightarrow> row_effect row err = None \<and> fold apply_effect (dnEffects d) (sysDb st) = db'"
      using Cons.prems(3) f by (auto split: option.splits if_splits)
    note end_here = this
    have "(outbox_step cdc tgt holds)\<^sup>*\<^sup>* st ?st1" using step by (rule r_into_rtranclp)
    then have "(outbox_step cdc tgt holds)\<^sup>*\<^sup>* st
        (st\<lparr>sysTarget := s', sysLog := sysLog st @ [(row, err)], sysDrains := (sysDrains st)(w \<mapsto> handed row err rows d)\<rparr>)"
      unfolding end_here(1) .
    moreover have "\<forall>x. r = Inr x \<longrightarrow> dnBatch (handed row err rows d) = [] \<and>
        fold apply_effect (dnEffects (handed row err rows d)) (sysDb st) = db'"
      using end_here(2) by (simp add: handed_def)
    ultimately show ?thesis by blast
  next
    case False
    then obtain eff where eff: "row_effect row err = Some eff" by auto
    let ?d = "d\<lparr>dnBatch := rows, dnEffects := dnEffects d @ [eff]\<rparr>"
    have d1: "handed row err rows d = ?d" by (simp add: handed_def eff)
    have pre: "sysDrains ?st1 w = Some ?d" "dnBatch ?d = rows"
      "drain_rows cdc tgt broken rows (tally eff res) (fold apply_effect (dnEffects ?d) (sysDb ?st1)) (sysTarget ?st1) = ((r, db'), s')"
      using Cons.prems(3) f eff False by (simp_all add: d1)
    obtain log d' where run: "(outbox_step cdc tgt holds)\<^sup>*\<^sup>* ?st1
        (?st1\<lparr>sysTarget := s', sysLog := sysLog ?st1 @ log, sysDrains := (sysDrains ?st1)(w \<mapsto> d')\<rparr>)"
      and fin: "\<forall>x. r = Inr x \<longrightarrow> dnBatch d' = [] \<and> fold apply_effect (dnEffects d') (sysDb ?st1) = db'"
      using Cons.IH [OF pre] by blast
    from converse_rtranclp_into_rtranclp [OF step run] fin show ?thesis
      by (intro exI [of _ "(row, err) # log"] exI [of _ d'] conjI) (simp_all del: fun_upd_apply)
  qed
qed

lemma Drain_run:
  assumes free: "sysDrains st w = None"
    and drain: "Drain cdc tgt flt (locked_by st) lim (sysDb st) (sysTarget st) = ((res, db'), s')"
  shows "\<exists>log. (outbox_step cdc tgt holds)\<^sup>*\<^sup>* st (st\<lparr>sysDb := db', sysTarget := s', sysLog := sysLog st @ log\<rparr>)"
proof (cases "fltBegin flt \<or> fltClaim flt")
  case True
  then have "db' = sysDb st" "s' = sysTarget st" using drain by (auto simp: Drain_def Let_def split: if_splits)
  then show ?thesis by (intro exI [of _ "[]"]) simp
next
  case False
  let ?none = "\<lparr>drForwarded = 0, drQuarantined = 0\<rparr>" and ?lim = "if lim \<le> 0 then defaultDrainLimit else lim"
  let ?batch = "claim (locked_by st) ?lim (sysDb st)"
  let ?d = "\<lparr>dnClaimed = ?batch, dnBatch = ?batch, dnEffects = []\<rparr>"
  let ?st1 = "st\<lparr>sysDrains := (sysDrains st)(w \<mapsto> ?d)\<rparr>"
  have claim: "outbox_step cdc tgt holds st ?st1" by (rule outbox_step.claim [OF free refl])
  obtain r db1 s1 where rows: "drain_rows cdc tgt (fltRow flt) ?batch ?none (sysDb st) (sysTarget st) = ((r, db1), s1)"
    by (metis prod.collapse)
  have pre: "sysDrains ?st1 w = Some ?d" "dnBatch ?d = ?batch"
    "drain_rows cdc tgt (fltRow flt) ?batch ?none (fold apply_effect (dnEffects ?d) (sysDb ?st1)) (sysTarget ?st1) = ((r, db1), s1)"
    using rows by simp_all
  obtain log d' where run: "(outbox_step cdc tgt holds)\<^sup>*\<^sup>* ?st1
      (?st1\<lparr>sysTarget := s1, sysLog := sysLog ?st1 @ log, sysDrains := (sysDrains ?st1)(w \<mapsto> d')\<rparr>)"
    and fin: "\<forall>x. r = Inr x \<longrightarrow> dnBatch d' = [] \<and> fold apply_effect (dnEffects d') (sysDb ?st1) = db1"
    using rows_run [OF pre, of holds] by blast
  let ?st2 = "?st1\<lparr>sysTarget := s1, sysLog := sysLog ?st1 @ log, sysDrains := (sysDrains ?st1)(w \<mapsto> d')\<rparr>"
  have drop: "st\<lparr>sysTarget := s1, sysLog := sysLog st @ log\<rparr> = ?st2\<lparr>sysDrains := (sysDrains ?st2)(w := None)\<rparr>"
    using free by (simp add: fun_upd_idem)
  have two: "(outbox_step cdc tgt holds)\<^sup>*\<^sup>* st ?st2" using claim run by (rule converse_rtranclp_into_rtranclp)
  show ?thesis
  proof (cases "db' = sysDb st")
    case True
    have "s' = s1" using drain rows False by (auto simp: Drain_def Let_def split: sum.splits if_splits)
    moreover have "outbox_step cdc tgt holds ?st2 (st\<lparr>sysTarget := s1, sysLog := sysLog st @ log\<rparr>)"
      unfolding drop by (rule outbox_step.rollback [where d = d']) simp
    ultimately show ?thesis using two True by (intro exI [of _ log]) (simp add: rtranclp.rtrancl_into_rtrancl)
  next
    case neq: False
    then obtain x where x: "r = Inr x" "db' = db1" "s' = s1"
      using drain rows False by (auto simp: Drain_def Let_def split: sum.splits if_splits)
    with fin have d': "dnBatch d' = []" "fold apply_effect (dnEffects d') (sysDb st) = db'" by auto
    have "outbox_step cdc tgt holds ?st2
        (?st2\<lparr>sysDb := fold apply_effect (dnEffects d') (sysDb ?st2), sysDrains := (sysDrains ?st2)(w := None)\<rparr>)"
      by (rule outbox_step.commit) (simp_all add: d'(1))
    with two have "(outbox_step cdc tgt holds)\<^sup>*\<^sup>* st
        (?st2\<lparr>sysDb := fold apply_effect (dnEffects d') (sysDb ?st2), sysDrains := (sysDrains ?st2)(w := None)\<rparr>)"
      by (rule rtranclp.rtrancl_into_rtrancl)
    moreover have "?st2\<lparr>sysDb := fold apply_effect (dnEffects d') (sysDb ?st2), sysDrains := (sysDrains ?st2)(w := None)\<rparr> =
        st\<lparr>sysDb := db', sysTarget := s', sysLog := sysLog st @ log\<rparr>"
      using free d'(2) x(3) by (simp add: fun_upd_idem)
    ultimately show ?thesis by metis
  qed
qed

text \<open>
  C6: The outbox loses nothing and forwards no event twice. However captures, any number
  of concurrent drains, lost answers, failed commits, crashes and other work on the
  target interleave, every captured write is still in the outbox table or the
  target answered for it, an event that left the table is in the target's ledger,
  and the target accepted each event at most once.
\<close>

theorem outbox_exactly_once:
  assumes "codec_keeps_ids cdc" "(outbox_step cdc (fake_target gen) fake_holds)\<^sup>*\<^sup>* (outbox_start now s) st"
  shows "distinct (accepted st) \<and>
    (\<forall>row\<in>set (sysCaptured st). row \<in> table (sysDb st) \<or>
      (\<exists>err. (row, err) \<in> set (sysLog st) \<and> (err = None \<or> err = Some (Refused AlreadyExists))) \<and>
      (rowKind row = outboxKindEvent \<longrightarrow> map_of (events (sysTarget st)) (rowId row) \<noteq> None))"
  using fake_outbox.inv_reachable [OF assms start_inv]
  by (auto simp: outbox_inv_def delivered_def fake_holds_def)

section \<open>Draining\<close>

definition live :: "outboxDb \<Rightarrow> outboxEntry list" where
  "live db = filter (\<lambda>e. enQuarantinedAt e = None) (obEntries db)"

definition no_faults :: drainFaults where
  "no_faults = \<lparr>fltBegin = False, fltClaim = False, fltRow = (\<lambda>_. False), fltCommit = False\<rparr>"

fun effect_seq :: "effect \<Rightarrow> int" where
  "effect_seq (Remove q) = q"
| "effect_seq (Quarantine q reason) = q"

lemma fake_never_refuses:
  assumes "rowKind row \<noteq> outboxKindDAG"
  obtains eff where "row_effect row (fst (forward cdc (fake_target gen) row s)) = Some eff" "effect_seq eff = rowSeq row"
proof -
  have p: "fst (Publish gen p s) = Inl e \<Longrightarrow> e = AlreadyExists" for p e
    by (auto simp: Publish_def Let_def case_prod_unfold split: if_splits)
  have q: "fst (Enqueue q s) = Inl e \<Longrightarrow> e = AlreadyExists" for q e
    by (cases q s rule: Enqueue_cases) auto
  have "e = AlreadyExists" if "fst (forward cdc (fake_target gen) row s) = Some (Refused e)" for e
    using that assms p q by (auto simp: forward_def forwarded_as_def undecodable_def fake_target_def split: sum.splits if_splits)
  then have "\<exists>eff. row_effect row (fst (forward cdc (fake_target gen) row s)) = Some eff \<and> effect_seq eff = rowSeq row"
    by (auto simp: row_effect_def split: option.split forwardError.split)
  then show thesis using that by blast
qed

lemma map_sort_key: "map k (sort_key k xs) = sort (map k xs)"
proof -
  have "map k (insort_key k x ys) = insort (k x) (map k ys)" for x ys by (induction ys) simp_all
  then show ?thesis by (induction xs) simp_all
qed

lemma live_effect: "live (apply_effect eff db) = filter (\<lambda>e. rowSeq e \<noteq> effect_seq eff) (live db)"
proof (cases eff)
  case (Quarantine q m)
  have "filter (\<lambda>e. enQuarantinedAt e = None) (map (\<lambda>e. if rowSeq e = q then e\<lparr>enQuarantinedAt := Some t, enLastError := Some m\<rparr> else e) es) =
      filter (\<lambda>e. rowSeq e \<noteq> q) (filter (\<lambda>e. enQuarantinedAt e = None) es)" for t and es :: "outboxEntry list"
    by (induction es) auto
  with Quarantine show ?thesis by (simp add: live_def)
qed (auto simp: live_def conj_commute intro: filter_cong)

lemma drain_rows_all:
  assumes "\<forall>row\<in>set rows. rowKind row \<noteq> outboxKindDAG"
  shows "\<exists>res' db' s'. drain_rows cdc (fake_target gen) (\<lambda>_. False) rows res db s = ((Inr (res', None), db'), s') \<and>
    drForwarded res' + drQuarantined res' = drForwarded res + drQuarantined res + int (length rows) \<and>
    live db' = filter (\<lambda>e. rowSeq e \<notin> rowSeq ` set rows) (live db)"
  using assms
proof (induction rows arbitrary: res db s)
  case (Cons row rows)
  obtain err s1 where f: "forward cdc (fake_target gen) row s = (err, s1)" by fastforce
  obtain eff where eff: "row_effect row err = Some eff" "effect_seq eff = rowSeq row"
    using fake_never_refuses [of row cdc gen s] Cons.prems f by auto
  have sum: "drForwarded (tally eff res) + drQuarantined (tally eff res) = drForwarded res + drQuarantined res + 1"
    by (cases eff) simp_all
  obtain res' db' s' where ih: "drain_rows cdc (fake_target gen) (\<lambda>_. False) rows (tally eff res) (apply_effect eff db) s1 = ((Inr (res', None), db'), s')"
    "drForwarded res' + drQuarantined res' = drForwarded res + drQuarantined res + 1 + int (length rows)"
    "live db' = filter (\<lambda>e. rowSeq e \<notin> rowSeq ` set rows) (live (apply_effect eff db))"
    using Cons.IH [of "tally eff res" "apply_effect eff db" s1] Cons.prems unfolding sum by auto
  have "live db' = filter (\<lambda>e. rowSeq e \<notin> rowSeq ` set (row # rows)) (live db)"
    by (auto simp: ih(3) live_effect eff(2) intro!: filter_cong)
  with ih(1,2) f eff(1) show ?case by simp
qed simp

lemma claim_all: "claim (\<lambda>_. False) limit db = take (nat limit) (sort_key rowSeq (map outboxRow.truncate (live db)))"
  by (simp add: claim_def live_def)

lemma take_oldest:
  fixes xs :: "int list"
  assumes "distinct xs"
  shows "x \<in> set (take n (sort xs)) \<Longrightarrow> y \<in> set xs \<Longrightarrow> y \<notin> set (take n (sort xs)) \<Longrightarrow> x < y"
    and "length (filter (\<lambda>q. q \<notin> set (take n (sort xs))) xs) = length xs - n"
proof -
  let ?qs = "sort xs"
  have all: "set xs = set (take n ?qs) \<union> set (drop n ?qs)" by (metis append_take_drop_id set_append set_sort)
  assume xy: "x \<in> set (take n ?qs)" "y \<in> set xs" "y \<notin> set (take n ?qs)"
  then have "y \<in> set (drop n ?qs)" using all by blast
  then have "x \<le> y" using sorted_sort [of xs] xy(1) by (metis append_take_drop_id sorted_append)
  moreover have "x \<noteq> y" using xy by blast
  ultimately show "x < y" by simp
next
  let ?qs = "sort xs"
  have "set xs = set (take n ?qs) \<union> set (drop n ?qs)" by (metis append_take_drop_id set_append set_sort)
  moreover have "set (take n ?qs) \<inter> set (drop n ?qs) = {}"
    using assms by (simp add: set_take_disj_set_drop_if_distinct)
  ultimately have "set (filter (\<lambda>q. q \<notin> set (take n ?qs)) xs) = set (drop n ?qs)" by auto
  moreover have "distinct (filter (\<lambda>q. q \<notin> set (take n ?qs)) xs)" "distinct (drop n ?qs)" using assms by simp_all
  ultimately have "length (filter (\<lambda>q. q \<notin> set (take n ?qs)) xs) = length (drop n ?qs)" by (metis distinct_card)
  then show "length (filter (\<lambda>q. q \<notin> set (take n ?qs)) xs) = length xs - n" by simp
qed


text \<open>An encoding that keeps the id of what it encodes, and a captured event.\<close>

definition run_codec :: paramsCodec where
  "run_codec = \<lparr>marshalEvent = (\<lambda>p. Some (replicate (ppID p) (CHR ''x''))), marshalJob = (\<lambda>p. Some (replicate (epID p) (CHR ''x''))),
     marshalDag = (\<lambda>p. Some (replicate (dgID p) (CHR ''x''))), storedJson = Some,
     unmarshalEvent = (\<lambda>t. Inr \<lparr>ppID = length t, ppType = ''t'', ppAggregateType = [], ppAggregateID = [], ppVersion = 1,
       ppOccurredAt = 9, ppPayload = None, ppMeta = None\<rparr>),
     unmarshalJob = (\<lambda>t. Inr \<lparr>epID = length t, epKind = ''k'', epPayload = None, epMeta = None, epRunAt = 0, epDelay = 0,
       epMaxAttempts = 1, epMaxAttemptsExplicit = True, epIdempotencyKey = [], epIdempotencyTTL = 0, epCoalesceKey = []\<rparr>),
     unmarshalDag = (\<lambda>t. Inr \<lparr>dgID = length t, dgName = ''d'', dgOnFailure = None, dgIdempotencyKey = [], dgMeta = None,
       dgTasks = [], dgDeps = []\<rparr>)\<rparr>"

definition captured_event :: publishParams where
  "captured_event = \<lparr>ppID = 3, ppType = ''t'', ppAggregateType = [], ppAggregateID = [], ppVersion = 1, ppOccurredAt = 9,
     ppPayload = None, ppMeta = None\<rparr>"

definition captured_db :: outboxDb where
  "captured_db = snd (OutboxPublishTx run_codec captured_event \<lparr>obNow = 100, obNextSeq = 1, obEntries = []\<rparr>)"


text \<open>
  A run with a crash: the event is captured, a first drain forwards it and fails to
  commit, a second drain finds that the target has it and removes the row.
\<close>

definition crash_commit :: drainFaults where
  "crash_commit = no_faults\<lparr>fltCommit := True\<rparr>"

definition first_drain :: "((drainResult \<times> error option) \<times> outboxDb) \<times> fake" where
  "first_drain = Drain run_codec (fake_target Suc) crash_commit (\<lambda>_. False) 0 captured_db (NewFake 100)"

definition second_drain :: "((drainResult \<times> error option) \<times> outboxDb) \<times> fake" where
  "second_drain = Drain run_codec (fake_target Suc) no_faults (\<lambda>_. False) 0 (snd (fst first_drain)) (snd first_drain)"

lemma run_codec_ids: "codec_keeps_ids run_codec"
  by (simp add: codec_keeps_ids_def run_codec_def)

lemma no_locks: "sysDrains st = Map.empty \<Longrightarrow> locked_by st = (\<lambda>_. False)"
  by (simp add: locked_by_def fun_eq_iff)

lemma crash_run:
  "\<exists>st. (outbox_step run_codec (fake_target Suc) fake_holds)\<^sup>*\<^sup>* (outbox_start 100 (NewFake 100)) st \<and>
     sysDb st = snd (fst second_drain) \<and> sysTarget st = snd second_drain \<and> length (sysCaptured st) = 1"
proof -
  let ?step = "outbox_step run_codec (fake_target Suc) fake_holds"
  define st1 where "st1 = captured captured_db (outbox_start 100 (NewFake 100))"
  have st1: "sysDb st1 = captured_db" "sysTarget st1 = NewFake 100" "sysDrains st1 = Map.empty" "length (sysCaptured st1) = 1"
    by (simp_all add: st1_def captured_def outbox_start_def)
  have pub: "OutboxPublishTx run_codec captured_event (sysDb (outbox_start 100 (NewFake 100))) = (Inr 0, captured_db)"
    by (simp add: captured_db_def outbox_start_def OutboxPublishTx_def capture_def run_codec_def)
  have one: "?step (outbox_start 100 (NewFake 100)) st1"
    unfolding st1_def by (rule outbox_step.publish [OF pub])
  obtain log1 where two: "?step\<^sup>*\<^sup>* st1 (st1\<lparr>sysDb := snd (fst first_drain), sysTarget := snd first_drain, sysLog := sysLog st1 @ log1\<rparr>)"
    using Drain_run [of st1 0 run_codec "fake_target Suc" crash_commit 0 _ _ _ fake_holds] st1 no_locks [OF st1(3)]
    by (metis first_drain_def prod.collapse)
  define st2 where "st2 = st1\<lparr>sysDb := snd (fst first_drain), sysTarget := snd first_drain, sysLog := sysLog st1 @ log1\<rparr>"
  have st2: "sysDb st2 = snd (fst first_drain)" "sysTarget st2 = snd first_drain" "sysDrains st2 = Map.empty"
    "length (sysCaptured st2) = 1" by (simp_all add: st2_def st1)
  obtain log2 where three: "?step\<^sup>*\<^sup>* st2 (st2\<lparr>sysDb := snd (fst second_drain), sysTarget := snd second_drain, sysLog := sysLog st2 @ log2\<rparr>)"
    using Drain_run [of st2 0 run_codec "fake_target Suc" no_faults 0 _ _ _ fake_holds] st2 no_locks [OF st2(3)]
    by (metis second_drain_def prod.collapse)
  let ?st = "st2\<lparr>sysDb := snd (fst second_drain), sysTarget := snd second_drain, sysLog := sysLog st2 @ log2\<rparr>"
  have "?step\<^sup>*\<^sup>* (outbox_start 100 (NewFake 100)) ?st"
    using one two three unfolding st2_def by (meson converse_rtranclp_into_rtranclp rtranclp_trans)
  then show ?thesis by (intro exI [of _ ?st]) (simp add: st2(4))
qed

theorem outbox_exactly_once_witness:
  "\<exists>st. (outbox_step run_codec (fake_target Suc) fake_holds)\<^sup>*\<^sup>* (outbox_start 100 (NewFake 100)) st \<and>
     length (sysCaptured st) = 1 \<and> table (sysDb st) = {} \<and> distinct (accepted st)"
proof -
  obtain st where st: "(outbox_step run_codec (fake_target Suc) fake_holds)\<^sup>*\<^sup>* (outbox_start 100 (NewFake 100)) st"
    "sysDb st = snd (fst second_drain)" "length (sysCaptured st) = 1" using crash_run by blast
  have "obEntries (snd (fst second_drain)) = []" by code_simp
  then have "table (sysDb st) = {}" by (simp add: st(2) table_def)
  with outbox_exactly_once [OF run_codec_ids st(1)] st(1,3) show ?thesis by blast
qed

end
