(* ===== verification/Pg_Workflow.thy ===== *)
theory Pg_Workflow
  imports Pg_Drivers Workflow_History "HOL-Library.Multiset"
begin

text \<open>
  The workflow-as-code capability of the PostgreSQL store
  (\<open>driver/azyncpgx/workflow_store.go\<close>, tables of migrations 00003, 00004 and 00007):
  executions, history, signals, tasks and operations, statement by statement, and its
  simulation by the in-memory store.

  The reading of \<open>execution_key\<close> out of a payload, by the server and by Go, and the
  encoding of a signal are the parameter \<open>wfJson\<close>. The ids the driver draws with
  \<open>uuid.New\<close> come from the stream of \<open>pgEnv\<close>; the id of a signal row, which nothing
  reads, is left out. An execution that is gone has no rows in the other tables (the
  foreign keys cascade).
\<close>

section \<open>Tables\<close>

record pgExecution =
  xId :: uuid
  xName :: string
  xVersion :: string
  xState :: workflow_state
  xBusinessKey :: "string option"
  xTaskQueue :: string
  xInput :: raw
  xResult :: raw
  xFailureReason :: "string option"
  xMeta :: meta
  xCreatedAt :: time
  xUpdatedAt :: time
  xCompletedAt :: "time option"

record pgSignal =
  sgWorkflowId :: uuid
  sgName :: string
  sgMessageId :: "string option"
  sgPayload :: raw
  sgConsumed :: bool
  sgCreatedAt :: time

record pgWf =
  wfDb :: pgdb
  wfExecs :: "(uuid \<times> pgExecution) list"
  wfHistory :: "historyEvent list"
  wfSignals :: "pgSignal list"

record wfJson =
  sqlKey :: "string \<Rightarrow> string option"
  goKey :: "string \<Rightarrow> string option"
  sigJson :: "string \<Rightarrow> raw \<Rightarrow> error + string"

abbreviation wfNow :: "pgWf \<Rightarrow> time" where
  "wfNow w \<equiv> pgNow (wfDb w)"

definition nullableRawJSON :: "raw \<Rightarrow> raw" where
  "nullableRawJSON p = (case p of None \<Rightarrow> None | Some b \<Rightarrow> if b = [] then None else Some b)"

text \<open>The cast \<open>$n::jsonb\<close> of a nullable text.\<close>

definition cast_jsonb :: "pgEnv \<Rightarrow> raw \<Rightarrow> raw option" where
  "cast_jsonb env p = (case p of None \<Rightarrow> Some None | Some b \<Rightarrow> map_option Some (jsonb env b))"

definition pgWorkflowTaskKind :: "string \<Rightarrow> string" where
  "pgWorkflowTaskKind name = ''$wf:'' @ name"

definition pgTerminalState :: "workflow_state \<Rightarrow> bool" where
  "pgTerminalState st =
     (case st of WorkflowSucceeded \<Rightarrow> True | WorkflowFailed \<Rightarrow> True | WorkflowCancelled \<Rightarrow> True | _ \<Rightarrow> False)"

definition liveWorkflowState :: "workflow_state \<Rightarrow> bool" where
  "liveWorkflowState st = (st = WorkflowRunning \<or> st = WorkflowSuspended)"

section \<open>Workflow jobs\<close>

definition wfRow :: "uuid \<Rightarrow> string \<Rightarrow> time \<Rightarrow> uuid \<Rightarrow> time \<Rightarrow> pgJob" where
  "wfRow jid kind runAt wid now =
     \<lparr>rId = jid, rSource = SourceWorkflow, rKind = kind,
      rState = (if runAt > now then StateScheduled else StatePending), rRunAt = runAt, rLeaseUntil = None,
      rLeaseToken = None, rAttempt = 0, rMaxAttempts = 0, rMaxAttemptsExplicit = False, rReapCount = 0,
      rPayload = None, rMeta = Some [], rIdempotencyKey = None, rCoalesceKey = None, rEventId = None, rReplay = False,
      rLastError = None, rEnqueuedAt = now, rFailedAt = None, rCompletedAt = None, rStartedAt = None, rUpdatedAt = now,
      rDagId = None, rRunId = Some wid, rTaskKey = None, rResult = None, rSignalName = None,
      rCompensationKind = None, rIgnoreDeadDeps = False, rSnoozeBudget = None, rDeadlineAt = None\<rparr>"

text \<open>\<open>COALESCE($n::timestamptz, now())\<close>.\<close>

definition coalesceTime :: "pgEnv \<Rightarrow> time \<Rightarrow> time \<Rightarrow> time" where
  "coalesceTime env runAt now = the_default now (map_option (timestamptz env) (nullableTime runAt))"

definition scheduleTaskRow :: "pgEnv \<Rightarrow> uuid \<Rightarrow> string \<Rightarrow> time \<Rightarrow> time \<Rightarrow> uuid \<Rightarrow> pgJob" where
  "scheduleTaskRow env wid kind runAt now jid = wfRow jid kind (coalesceTime env runAt now) wid now"

text \<open>\<open>meta->>'execution_key'\<close>, and the partial unique index of migration 00004.\<close>

definition metaKey :: "pgJob \<Rightarrow> string option" where
  "metaKey r = (case rMeta r of None \<Rightarrow> None | Some kv \<Rightarrow> map_of kv ''execution_key'')"

definition live_op_row :: "pgJob \<Rightarrow> bool" where
  "live_op_row r = (rState r \<in> {StatePending, StateScheduled, StateActive, StateUncertain})"

definition exec_key_clash :: "pgJob \<Rightarrow> pgJob \<Rightarrow> bool" where
  "exec_key_clash a b =
     (rSource a = SourceWorkflow \<and> rSource b = SourceWorkflow \<and> metaKey a \<noteq> None \<and> metaKey a = metaKey b \<and>
      live_op_row a \<and> live_op_row b)"

text \<open>
  The insert of a workflow job with its counter: \<open>None\<close> is a unique violation, of the
  primary key or of the index.
\<close>

definition insert_wf_row :: "pgEnv \<Rightarrow> pgStore \<Rightarrow> (uuid \<Rightarrow> pgJob) \<Rightarrow> pgWf \<Rightarrow> (uuid \<times> pgWf) option" where
  "insert_wf_row env st mk w =
     (let db = wfDb w; jid = gen_random_uuid env (pgTokens db); r = mk jid
      in if map_of (pgJobs db) jid \<noteq> None \<or> list_ex (exec_key_clash r) (map snd (pgJobs db)) then None
         else Some (jid, w\<lparr>wfDb := pgBumpStat env st SourceWorkflow (rKind r) statEnqueued 1
                (db\<lparr>pgJobs := pgJobs db @ [(jid, r)], pgTokens := Suc (pgTokens db)\<rparr>)\<rparr>))"

definition notifyWf :: "string \<Rightarrow> pgWf \<Rightarrow> pgWf" where
  "notifyWf kind w = w\<lparr>wfDb := notifyAfterCommit SourceWorkflow kind (wfDb w)\<rparr>"

section \<open>StartWorkflow\<close>

definition live_holder :: "workflowStartParams \<Rightarrow> pgExecution \<Rightarrow> bool" where
  "live_holder p x =
     (xName x = wspName p \<and> xBusinessKey x = Some (wspBusinessIdempotencyKey p) \<and> liveWorkflowState (xState x))"

definition executionRow :: "workflowStartParams \<Rightarrow> raw \<Rightarrow> time \<Rightarrow> pgExecution" where
  "executionRow p input now =
     \<lparr>xId = wspID p, xName = wspName p, xVersion = wspVersion p, xState = WorkflowRunning,
      xBusinessKey = nullableKey (wspBusinessIdempotencyKey p),
      xTaskQueue = (if wspTaskQueue p = [] then ''default'' else wspTaskQueue p), xInput = input, xResult = None,
      xFailureReason = None, xMeta = orEmptyMeta (wspMeta p), xCreatedAt = now, xUpdatedAt = now, xCompletedAt = None\<rparr>"

text \<open>
  \<open>insertHistorySQL\<close>: false when the index of migration 00007 has the execution key for
  this result type.
\<close>

definition indexed_key :: "wfJson \<Rightarrow> historyEvent \<Rightarrow> string option" where
  "indexed_key js ev =
     (if heType ev \<in> {''OperationCompleted'', ''OperationFailed''} then Option.bind (hePayload ev) (sqlKey js) else None)"

definition history_clash :: "wfJson \<Rightarrow> historyEvent \<Rightarrow> historyEvent \<Rightarrow> bool" where
  "history_clash js a b =
     (heWorkflowID a = heWorkflowID b \<and> heType a = heType b \<and> indexed_key js a \<noteq> None \<and> indexed_key js a = indexed_key js b)"

definition insert_history :: "wfJson \<Rightarrow> historyEvent \<Rightarrow> pgWf \<Rightarrow> (pgWf, bool) outcome" where
  "insert_history js ev w =
     (if list_ex (history_clash js ev) (wfHistory w) then (Inr False, w)
      else if list_ex (\<lambda>h. heWorkflowID h = heWorkflowID ev \<and> heSeq h = heSeq ev) (wfHistory w)
      then (Inl (OtherError ''azync_workflow_history_pkey''), w)
      else (Inr True, w\<lparr>wfHistory := wfHistory w @ [ev]\<rparr>))"

definition pgStartWorkflow ::
  "pgEnv \<Rightarrow> pgStore \<Rightarrow> wfJson \<Rightarrow> workflowStartParams \<Rightarrow> pgWf \<Rightarrow> (pgWf, bool \<times> uuid) outcome" where
  "pgStartWorkflow env st js p w =
     (case cast_jsonb env (nullableRawJSON (wspInput p)) of
        None \<Rightarrow> (Inl (OtherError ''azyncpgx: insert workflow''), w)
      | Some input \<Rightarrow>
          if nullableKey (wspBusinessIdempotencyKey p) \<noteq> None \<and> list_ex (live_holder p) (map snd (wfExecs w))
          then (case find (live_holder p) (map snd (wfExecs w)) of
                  None \<Rightarrow> (Inl (OtherError ''azyncpgx: resolve deduplicated workflow''), w)
                | Some x \<Rightarrow> (Inr (False, xId x), w))
          else if map_of (wfExecs w) (wspID p) \<noteq> None then (Inl (OtherError ''azyncpgx: insert workflow''), w)
          else
            let w1 = w\<lparr>wfExecs := wfExecs w @ [(wspID p, executionRow p input (wfNow w))]\<rparr>;
                kind = pgWorkflowTaskKind (wspName p)
            in case insert_history js \<lparr>heWorkflowID = wspID p, heSeq = 1, heType = ''WorkflowStarted'',
                                       hePayload = input, heCreatedAt = wfNow w\<rparr> w1 of
                 (Inl e, _) \<Rightarrow> (Inl e, w)
               | (Inr _, w2) \<Rightarrow>
                   (case insert_wf_row env st (scheduleTaskRow env (wspID p) kind zero_time (wfNow w)) w2 of
                      None \<Rightarrow> (Inl (OtherError ''azyncpgx: schedule first workflow task''), w)
                    | Some (jid, w3) \<Rightarrow> (Inr (True, Nil_uuid), notifyWf kind w3)))"

definition scanWorkflowExecution :: "pgExecution \<Rightarrow> workflowExecutionView" where
  "scanWorkflowExecution x =
     \<lparr>exID = xId x, exName = xName x, exVersion = xVersion x, exState = xState x,
      exBusinessIdempotencyKey = the_default [] (xBusinessKey x), exTaskQueue = xTaskQueue x, exInput = xInput x,
      exResult = xResult x, exFailureReason = the_default [] (xFailureReason x), exMeta = decodeMeta (xMeta x),
      exCreatedAt = xCreatedAt x, exUpdatedAt = xUpdatedAt x, exCompletedAt = timeOf (xCompletedAt x)\<rparr>"

definition pgGetWorkflowExecution :: "uuid \<Rightarrow> pgWf \<Rightarrow> error + workflowExecutionView" where
  "pgGetWorkflowExecution wid w =
     (case map_of (wfExecs w) wid of
        None \<Rightarrow> Inl (NotFound ''get workflow execution'') | Some x \<Rightarrow> Inr (scanWorkflowExecution x))"

section \<open>History\<close>

definition history_of :: "uuid \<Rightarrow> pgWf \<Rightarrow> historyEvent list" where
  "history_of wid w = filter (\<lambda>h. heWorkflowID h = wid) (wfHistory w)"

definition nextHistorySeq :: "uuid \<Rightarrow> pgWf \<Rightarrow> int" where
  "nextHistorySeq wid w = (let rows = history_of wid w in (if rows = [] then 0 else Max (set (map heSeq rows))) + 1)"

definition pgExecutionKeyFromPayload :: "wfJson \<Rightarrow> raw \<Rightarrow> string option" where
  "pgExecutionKeyFromPayload js payload =
     (case payload of
        None \<Rightarrow> None
      | Some b \<Rightarrow> if b = [] then None
                  else (case goKey js b of None \<Rightarrow> None | Some k \<Rightarrow> if k = [] then None else Some k))"

definition pgAppendHistory ::
  "pgEnv \<Rightarrow> wfJson \<Rightarrow> uuid \<Rightarrow> string \<Rightarrow> raw \<Rightarrow> pgWf \<Rightarrow> (pgWf, int) outcome" where
  "pgAppendHistory env js wid etype payload w =
     (if map_of (wfExecs w) wid = None then (Inl (NotFound ''append history''), w)
      else
        let nseq = nextHistorySeq wid w
        in case cast_jsonb env (nullableRawJSON payload) of
             None \<Rightarrow> (Inl (OtherError ''azyncpgx: insert history''), w)
           | Some stored \<Rightarrow>
               (case insert_history js \<lparr>heWorkflowID = wid, heSeq = nseq, heType = etype, hePayload = stored,
                                        heCreatedAt = wfNow w\<rparr> w of
                  (Inl e, _) \<Rightarrow> (Inl e, w)
                | (Inr True, w') \<Rightarrow> (Inr nseq, w')
                | (Inr False, _) \<Rightarrow>
                    (case pgExecutionKeyFromPayload js payload of
                       None \<Rightarrow> (Inl (OtherError ''azyncpgx: insert history: conflict with no execution_key in payload''), w)
                     | Some key \<Rightarrow>
                         (case find (\<lambda>h. heType h = etype \<and> Option.bind (hePayload h) (sqlKey js) = Some key)
                                 (history_of wid w) of
                            None \<Rightarrow> (Inl (OtherError ''azyncpgx: resolve deduplicated history''), w)
                          | Some h \<Rightarrow> (Inr (heSeq h), w)))))"

definition requireWorkflow :: "string \<Rightarrow> uuid \<Rightarrow> pgWf \<Rightarrow> error option" where
  "requireWorkflow opn wid w = (if map_of (wfExecs w) wid = None then Some (NotFound opn) else None)"

definition pgListHistory :: "uuid \<Rightarrow> pgWf \<Rightarrow> error + historyEvent list" where
  "pgListHistory wid w =
     (case requireWorkflow ''list history'' wid w of
        Some e \<Rightarrow> Inl e | None \<Rightarrow> Inr (sort_key heSeq (history_of wid w)))"

section \<open>Signals\<close>

definition signal_clash :: "signalParams \<Rightarrow> pgSignal \<Rightarrow> bool" where
  "signal_clash p g =
     (sgWorkflowId g = spWorkflowID p \<and> sgName g = spName p \<and> spMessageID p \<noteq> [] \<and> sgMessageId g = Some (spMessageID p))"

definition pgSignalWorkflow ::
  "pgEnv \<Rightarrow> pgStore \<Rightarrow> wfJson \<Rightarrow> signalParams \<Rightarrow> pgWf \<Rightarrow> (pgWf, bool) outcome" where
  "pgSignalWorkflow env st js p w =
     (case map_of (wfExecs w) (spWorkflowID p) of
        None \<Rightarrow> (Inl (NotFound ''signal workflow''), w)
      | Some x \<Rightarrow>
          (case cast_jsonb env (nullableRawJSON (spPayload p)) of
             None \<Rightarrow> (Inl (OtherError ''azyncpgx: signal workflow''), w)
           | Some stored \<Rightarrow>
               if list_ex (signal_clash p) (wfSignals w) then (Inr False, w)
               else
                 let w1 = w\<lparr>wfSignals := wfSignals w @ [\<lparr>sgWorkflowId = spWorkflowID p, sgName = spName p,
                              sgMessageId = nullableKey (spMessageID p), sgPayload = stored, sgConsumed = False,
                              sgCreatedAt = wfNow w\<rparr>]\<rparr>
                 in case sigJson js (spName p) (spPayload p) of
                      Inl e \<Rightarrow> (Inl e, w)
                    | Inr body \<Rightarrow>
                        (case cast_jsonb env (nullableRawJSON (Some body)) of
                           None \<Rightarrow> (Inl (OtherError ''azyncpgx: signal workflow record''), w)
                         | Some recorded \<Rightarrow>
                             (case insert_history js \<lparr>heWorkflowID = spWorkflowID p, heSeq = nextHistorySeq (spWorkflowID p) w1,
                                       heType = ''SignalReceived'', hePayload = recorded, heCreatedAt = wfNow w\<rparr> w1 of
                                (Inl e, _) \<Rightarrow> (Inl e, w)
                              | (Inr _, w2) \<Rightarrow>
                                  if pgTerminalState (xState x) then (Inr True, w2)
                                  else
                                    let kind = pgWorkflowTaskKind (xName x)
                                    in case insert_wf_row env st (scheduleTaskRow env (spWorkflowID p) kind zero_time (wfNow w)) w2 of
                                         None \<Rightarrow> (Inl (OtherError ''azyncpgx: schedule signal wake task''), w)
                                       | Some (jid, w3) \<Rightarrow> (Inr True, notifyWf kind w3)))))"

section \<open>Settling an execution\<close>

definition exec_update_where :: "(pgExecution \<Rightarrow> bool) \<Rightarrow> (pgExecution \<Rightarrow> pgExecution) \<Rightarrow> pgWf \<Rightarrow> pgExecution list \<times> pgWf" where
  "exec_update_where c f w =
     (map f (filter c (map snd (wfExecs w))),
      w\<lparr>wfExecs := map (\<lambda>(k, x). (k, if c x then f x else x)) (wfExecs w)\<rparr>)"

definition settleWorkflow ::
  "string \<Rightarrow> uuid \<Rightarrow> (workflow_state \<Rightarrow> bool) \<Rightarrow> (pgExecution \<Rightarrow> pgExecution) \<Rightarrow> pgWf \<Rightarrow> (pgWf, unit) outcome" where
  "settleWorkflow opn wid guard f w =
     (let (rows, w') = exec_update_where (\<lambda>x. xId x = wid \<and> guard (xState x)) f w
      in (if rows = [] then Inl (NotFound opn) else Inr (), w'))"

definition pgCompleteWorkflow :: "pgEnv \<Rightarrow> uuid \<Rightarrow> raw \<Rightarrow> pgWf \<Rightarrow> (pgWf, unit) outcome" where
  "pgCompleteWorkflow env wid result w =
     (case cast_jsonb env (nullableRawJSON result) of
        None \<Rightarrow> (Inl (OtherError ''azyncpgx: complete workflow''), w)
      | Some stored \<Rightarrow>
          settleWorkflow ''complete workflow'' wid (\<lambda>_. True)
            (\<lambda>x. x\<lparr>xState := WorkflowSucceeded, xResult := stored, xCompletedAt := Some (wfNow w), xUpdatedAt := wfNow w\<rparr>) w)"

definition pgFailWorkflow :: "uuid \<Rightarrow> string \<Rightarrow> pgWf \<Rightarrow> (pgWf, unit) outcome" where
  "pgFailWorkflow wid reason w =
     settleWorkflow ''fail workflow'' wid (\<lambda>_. True)
       (\<lambda>x. x\<lparr>xState := WorkflowFailed, xFailureReason := Some reason, xCompletedAt := Some (wfNow w), xUpdatedAt := wfNow w\<rparr>) w"

definition pgCancelWorkflowExecution :: "uuid \<Rightarrow> pgWf \<Rightarrow> (pgWf, unit) outcome" where
  "pgCancelWorkflowExecution wid w =
     settleWorkflow ''cancel workflow execution'' wid (\<lambda>s. \<not> pgTerminalState s)
       (\<lambda>x. x\<lparr>xState := WorkflowCancelled, xCompletedAt := Some (wfNow w), xUpdatedAt := wfNow w\<rparr>) w"

definition pgSuspendWorkflow :: "uuid \<Rightarrow> string \<Rightarrow> pgWf \<Rightarrow> (pgWf, unit) outcome" where
  "pgSuspendWorkflow wid reason w =
     settleWorkflow ''suspend workflow'' wid (\<lambda>s. \<not> pgTerminalState s)
       (\<lambda>x. x\<lparr>xState := WorkflowSuspended, xFailureReason := Some reason, xUpdatedAt := wfNow w\<rparr>) w"

definition pgResumeWorkflow :: "uuid \<Rightarrow> pgWf \<Rightarrow> (pgWf, unit) outcome" where
  "pgResumeWorkflow wid w =
     settleWorkflow ''resume workflow'' wid (\<lambda>s. s = WorkflowSuspended)
       (\<lambda>x. x\<lparr>xState := WorkflowRunning, xFailureReason := None, xUpdatedAt := wfNow w\<rparr>) w"

section \<open>Tasks and operations\<close>

definition pgScheduleTask :: "pgEnv \<Rightarrow> pgStore \<Rightarrow> uuid \<Rightarrow> string \<Rightarrow> time \<Rightarrow> pgWf \<Rightarrow> (pgWf, unit) outcome" where
  "pgScheduleTask env st wid kind runAt w =
     (case requireWorkflow ''schedule workflow task'' wid w of
        Some e \<Rightarrow> (Inl e, w)
      | None \<Rightarrow>
          (case insert_wf_row env st (scheduleTaskRow env wid kind runAt (wfNow w)) w of
             None \<Rightarrow> (Inl (OtherError ''azyncpgx: schedule workflow task''), w)
           | Some (jid, w') \<Rightarrow>
               (Inr (), if runAt = zero_time \<or> \<not> runAt > wfNow w then notifyWf kind w' else w')))"

definition operationRow :: "pgEnv \<Rightarrow> scheduleOperationParams \<Rightarrow> raw \<Rightarrow> time \<Rightarrow> uuid \<Rightarrow> pgJob" where
  "operationRow env p payload now jid =
     (let kv = the_default [] (orEmptyMeta (sopMeta p))
      in (wfRow jid (sopKind p) (coalesceTime env (sopRunAt p) now) (sopWorkflowID p) now)
           \<lparr>rPayload := payload,
            rMeta := Some (if sopExecutionKey p \<noteq> [] then AList.update ''execution_key'' (sopExecutionKey p) kv else kv),
            rMaxAttempts := (if sopMaxAttempts p \<le> 0 then 25 else sopMaxAttempts p), rMaxAttemptsExplicit := True\<rparr>)"

definition operation_at :: "uuid \<Rightarrow> string \<Rightarrow> pgJob \<Rightarrow> bool" where
  "operation_at wid key r =
     (rSource r = SourceWorkflow \<and> rRunId r = Some wid \<and> metaKey r = Some key \<and> live_op_row r)"

definition pgScheduleOperation ::
  "pgEnv \<Rightarrow> pgStore \<Rightarrow> scheduleOperationParams \<Rightarrow> pgWf \<Rightarrow> (pgWf, uuid) outcome" where
  "pgScheduleOperation env st p w =
     (case requireWorkflow ''schedule operation'' (sopWorkflowID p) w of
        Some e \<Rightarrow> (Inl e, w)
      | None \<Rightarrow>
          let lookup = (if sopExecutionKey p \<noteq> []
                        then find (operation_at (sopWorkflowID p) (sopExecutionKey p)) (map snd (pgJobs (wfDb w))) else None)
          in case lookup of
               Some r \<Rightarrow> (Inr (rId r), w)
             | None \<Rightarrow>
                 (case cast_jsonb env (nullableRawJSON (sopPayload p)) of
                    None \<Rightarrow> (Inl (OtherError ''azyncpgx: schedule operation''), w)
                  | Some payload \<Rightarrow>
                      (case insert_wf_row env st (operationRow env p payload (wfNow w)) w of
                         None \<Rightarrow> (Inl (OtherError ''azyncpgx: schedule operation''), w)
                       | Some (jid, w') \<Rightarrow>
                           (Inr jid, if sopRunAt p = zero_time \<or> \<not> sopRunAt p > wfNow w then notifyWf (sopKind p) w' else w'))))"

definition uncertainSet :: "string \<Rightarrow> time \<Rightarrow> pgJob \<Rightarrow> pgJob" where
  "uncertainSet reason now r =
     (unleased r)\<lparr>rState := StateUncertain, rLastError := Some reason, rFailedAt := Some now, rUpdatedAt := now\<rparr>"

text \<open>
  \<open>markUncertainSQL\<close>: the job is updated by a CTE, which runs whether or not the update
  of the execution that follows finds a row; the error is about the latter.
\<close>

definition pgMarkUncertain :: "uuid \<Rightarrow> uuid \<Rightarrow> string \<Rightarrow> pgWf \<Rightarrow> (pgWf, unit) outcome" where
  "pgMarkUncertain jid tok reason w =
     (let now = wfNow w;
          (upd, db') = sql_update (\<lambda>r. fence jid tok r \<and> rSource r = SourceWorkflow) (uncertainSet reason now) (wfDb w);
          (rows, w') = exec_update_where (\<lambda>x. Some (xId x) \<in> set (map rRunId upd) \<and> liveWorkflowState (xState x))
             (\<lambda>x. x\<lparr>xState := WorkflowSuspended, xFailureReason := Some reason, xUpdatedAt := now\<rparr>) (w\<lparr>wfDb := db'\<rparr>)
      in (if rows = [] then Inl (NotFound ''mark uncertain'') else Inr (), w'))"

definition resolveUncertainSet :: "string \<Rightarrow> raw \<Rightarrow> time \<Rightarrow> (pgJob \<Rightarrow> pgJob) option" where
  "resolveUncertainSet decision result now =
     (if decision = ''complete''
      then Some (\<lambda>r. r\<lparr>rState := StateSucceeded, rCompletedAt := Some now, rUpdatedAt := now, rResult := result,
                       rLastError := None\<rparr>)
      else if decision = ''fail''
      then Some (\<lambda>r. r\<lparr>rState := StateDead, rFailedAt := Some now, rUpdatedAt := now, rLastError := Some ''uncertain: fail''\<rparr>)
      else if decision = ''retry''
      then Some (\<lambda>r. r\<lparr>rState := StatePending, rRunAt := now, rUpdatedAt := now, rLastError := None, rFailedAt := None\<rparr>)
      else None)"

definition pgResolveUncertain ::
  "pgEnv \<Rightarrow> uuid \<Rightarrow> string \<Rightarrow> raw \<Rightarrow> pgWf \<Rightarrow> (pgWf, uuid \<times> string) outcome" where
  "pgResolveUncertain env jid decision result w =
     (let cast = (if decision = ''complete'' then cast_jsonb env (nullableRawJSON result) else Some None)
      in case resolveUncertainSet decision (the_default None cast) (wfNow w) of
           None \<Rightarrow> (Inl (OtherError ''azyncpgx: unknown uncertain decision''), w)
         | Some f \<Rightarrow>
             if cast = None then (Inl (OtherError ''azyncpgx: resolve uncertain settle job''), w)
             else case sql_update (\<lambda>r. rId r = jid \<and> rSource r = SourceWorkflow \<and> rState r = StateUncertain) f (wfDb w) of
                    ([], _) \<Rightarrow> (Inl (NotFound ''resolve uncertain''), w)
                  | (r # _, db') \<Rightarrow>
                      let w' = snd (exec_update_where (\<lambda>x. xId x = toUUID (rRunId r) \<and> xState x = WorkflowSuspended)
                                 (\<lambda>x. x\<lparr>xState := WorkflowRunning, xFailureReason := None, xUpdatedAt := wfNow w\<rparr>)
                                 (w\<lparr>wfDb := db'\<rparr>))
                      in (Inr (toUUID (rRunId r), the_default [] (case rMeta r of None \<Rightarrow> None | Some kv \<Rightarrow> map_of kv ''workflow_name'')),
                          if decision = ''retry'' then notifyWf (rKind r) w' else w'))"

section \<open>Upkeep\<close>

definition pgVacuumWorkflows :: "pgEnv \<Rightarrow> duration \<Rightarrow> pgWf \<Rightarrow> (pgWf, int) outcome" where
  "pgVacuumWorkflows env retention w =
     (if retention \<le> 0 then (Inr 0, w)
      else
        let old = (\<lambda>x. pgTerminalState (xState x) \<and>
                       (case xCompletedAt x of None \<Rightarrow> False | Some t \<Rightarrow> t < wfNow w - make_interval env retention));
            gone = map xId (filter old (map snd (wfExecs w)))
        in (Inr (int (length gone)),
            w\<lparr>wfExecs := filter (\<lambda>(k, x). \<not> old x) (wfExecs w),
              wfHistory := filter (\<lambda>h. heWorkflowID h \<notin> set gone) (wfHistory w),
              wfSignals := filter (\<lambda>g. sgWorkflowId g \<notin> set gone) (wfSignals w),
              wfDb := snd (sql_delete (\<lambda>r. case rRunId r of None \<Rightarrow> False | Some k \<Rightarrow> k \<in> set gone) (wfDb w))\<rparr>))"

definition has_live_job :: "uuid \<Rightarrow> pgdb \<Rightarrow> bool" where
  "has_live_job wid db =
     list_ex (\<lambda>r. rRunId r = Some wid \<and> rSource r = SourceWorkflow \<and> live_op_row r) (map snd (pgJobs db))"

definition pgListStalledWorkflows :: "pgEnv \<Rightarrow> duration \<Rightarrow> int \<Rightarrow> pgWf \<Rightarrow> (uuid \<times> string) list" where
  "pgListStalledWorkflows env olderThan limit0 w =
     (let limit = (if limit0 \<le> 0 then 100 else limit0);
          rows = filter (\<lambda>x. xState x = WorkflowRunning \<and> xUpdatedAt x \<le> wfNow w - make_interval env olderThan \<and>
                   \<not> has_live_job (xId x) (wfDb w)) (map snd (wfExecs w))
      in map (\<lambda>x. (xId x, xName x)) (take (nat limit) (sort_key xUpdatedAt rows)))"

section \<open>The relation with the in-memory store\<close>

text \<open>Two association lists with the same keys, in the same order.\<close>

lemma all2_map_of:
  assumes "list_all2 R xs ys" and "\<And>a b. R a b \<Longrightarrow> fst a = fst b"
  shows "rel_option (\<lambda>x y. R (k, x) (k, y)) (map_of xs k) (map_of ys k)"
  using assms(1)
proof (induction rule: list_all2_induct)
  case (Cons a xs b ys)
  with assms(2) [OF Cons.hyps(1)] show ?case by (cases a; cases b) auto
qed simp

lemma all2_update:
  assumes "list_all2 R xs ys" "distinct_keys ys" "map_of ys k = Some e"
    and keys: "\<And>a b. R a b \<Longrightarrow> fst a = fst b"
    and at: "\<And>x. R (k, x) (k, e) \<Longrightarrow> R' (k, F x) (k, e')"
    and other: "\<And>a b. R a b \<Longrightarrow> fst b \<noteq> k \<Longrightarrow> R' a b"
  shows "list_all2 R' (map (\<lambda>(i, x). (i, if i = k then F x else x)) xs) (AList.update k e' ys)"
  using assms(1-3)
proof (induction rule: list_all2_induct)
  case (Cons a xs b ys)
  obtain i x where a: "a = (i, x)" by (cases a)
  obtain y where b: "b = (i, y)" using keys [OF Cons.hyps(1)] a by (cases b) auto
  show ?case
  proof (cases "i = k")
    case True
    with Cons.prems a b have y: "y = e" and fresh: "k \<notin> fst ` set ys" by auto
    have "list_all2 R' (map (\<lambda>(i, x). (i, if i = k then F x else x)) xs) ys"
      using Cons.hyps(2) fresh
    proof (induction rule: list_all2_induct)
      case (Cons c xs d ys)
      with keys [OF Cons.hyps(1)] other [OF Cons.hyps(1)] show ?case by (cases c; cases d) auto
    qed simp
    with True a b y at [of x] Cons.hyps(1) show ?thesis by simp
  next
    case False
    with Cons a b other [OF Cons.hyps(1)] show ?thesis by auto
  qed
qed simp

definition keys_agree :: "wfJson \<Rightarrow> historyEvent \<Rightarrow> bool" where
  "keys_agree js ev =
     (heType ev \<in> {''OperationCompleted'', ''OperationFailed''} \<longrightarrow>
      Option.bind (hePayload ev) (sqlKey js) = executionKeyFromPayload (goKey js) (hePayload ev))"

definition exec_rel :: "historyEvent list \<Rightarrow> uuid \<times> pgExecution \<Rightarrow> uuid \<times> fakeExecution \<Rightarrow> bool" where
  "exec_rel hs a b =
     (fst a = fst b \<and> fst b \<noteq> Nil_uuid \<and> xId (snd a) = fst b \<and> exID (snd b) = fst b \<and>
      scanWorkflowExecution (snd a) = exec_cloneView (snd b) \<and>
      xBusinessKey (snd a) = nullableKey (exBusinessIdempotencyKey (snd b)) \<and>
      filter (\<lambda>h. heWorkflowID h = fst b) hs = history (snd b))"

text \<open>At most one live operation of an execution has an execution key.\<close>

definition same_operation :: "fakeJob \<Rightarrow> fakeJob \<Rightarrow> bool" where
  "same_operation a b =
     (jSource a = SourceWorkflow \<and> jSource b = SourceWorkflow \<and> jRunID a = jRunID b \<and>
      meta_at (jMeta a) ''execution_key'' = meta_at (jMeta b) ''execution_key'' \<and> meta_at (jMeta a) ''execution_key'' \<noteq> [] \<and>
      open_state (jState a) \<and> open_state (jState b))"

definition one_operation :: "fake \<Rightarrow> bool" where
  "one_operation f =
     (\<forall>k a k' b. map_of (jobs f) k = Some a \<and> map_of (jobs f) k' = Some b \<and> same_operation a b \<longrightarrow> k = k')"

definition signals_agree :: "fake \<Rightarrow> pgWf \<Rightarrow> bool" where
  "signals_agree f w =
     (\<forall>p. spMessageID p \<noteq> [] \<longrightarrow>
        (map_of (signalKeys f) (spWorkflowID p, spName p, spMessageID p) = Some True) = list_ex (signal_clash p) (wfSignals w))"

definition history_owned :: "pgWf \<Rightarrow> bool" where
  "history_owned w = list_all (\<lambda>h. map_of (wfExecs w) (heWorkflowID h) \<noteq> None) (wfHistory w)"

definition wsim :: "pgEnv \<Rightarrow> wfJson \<Rightarrow> fake \<Rightarrow> pgWf \<Rightarrow> bool" where
  "wsim env js f w =
     (sim env f (wfDb w) \<and> execs_ok (goKey js) f \<and> distinct_keys (executions f) \<and>
      list_all2 (exec_rel (wfHistory w)) (wfExecs w) (executions f) \<and> list_all (keys_agree js) (wfHistory w) \<and>
      history_owned w \<and> signals_agree f w \<and> one_operation f)"

lemma wsimD:
  assumes "wsim env js f w"
  shows "sim env f (wfDb w)" "execs_ok (goKey js) f" "distinct_keys (executions f)"
    "list_all2 (exec_rel (wfHistory w)) (wfExecs w) (executions f)" "list_all (keys_agree js) (wfHistory w)"
    "history_owned w" "signals_agree f w" "one_operation f"
  using assms by (simp_all add: wsim_def)

lemma exec_rel_keys: "exec_rel hs a b \<Longrightarrow> fst a = fst b"
  by (simp add: exec_rel_def)

lemma wsim_execs [consumes 1]:
  assumes "wsim env js f w"
  obtains (none) "map_of (wfExecs w) wid = None" "map_of (executions f) wid = None"
  | (exec) x e where "map_of (wfExecs w) wid = Some x" "map_of (executions f) wid = Some e"
      "exec_rel (wfHistory w) (wid, x) (wid, e)"
  using all2_map_of [OF wsimD(4) [OF assms] exec_rel_keys, where k = wid] by (cases rule: option.rel_cases) (auto intro: none exec)

text \<open>The columns both sides read.\<close>

lemma exec_relD:
  assumes "exec_rel hs (wid, x) (wid, e)"
  shows "xState x = exState e" "xName x = exName e" "xId x = wid" "exID e = wid" "wid \<noteq> Nil_uuid"
    "filter (\<lambda>h. heWorkflowID h = wid) hs = history e" "scanWorkflowExecution x = exec_cloneView e"
    "xUpdatedAt x = exUpdatedAt e"
proof -
  have eq: "scanWorkflowExecution x = exec_cloneView e" using assms by (simp add: exec_rel_def)
  note defs = scanWorkflowExecution_def exec_cloneView_def workflowExecutionView.truncate_def
  from arg_cong [OF eq, of exState] show "xState x = exState e" by (simp add: defs)
  from arg_cong [OF eq, of exName] show "xName x = exName e" by (simp add: defs)
  from arg_cong [OF eq, of exUpdatedAt] show "xUpdatedAt x = exUpdatedAt e" by (simp add: defs)
  show "xId x = wid" "exID e = wid" "wid \<noteq> Nil_uuid" "filter (\<lambda>h. heWorkflowID h = wid) hs = history e"
    "scanWorkflowExecution x = exec_cloneView e" using assms by (simp_all add: exec_rel_def)
qed

lemma open_state_iff: "open_state st = live_wf_state st" "open_state st \<longleftrightarrow> st \<in> {StatePending, StateScheduled, StateActive, StateUncertain}"
  by (simp_all add: open_state_def live_wf_state_def split: job_state.split)

lemma terminal_iff_exec: "pgTerminalState (exState e) = exec_terminal e"
  by (simp add: pgTerminalState_def exec_terminal_def split: workflow_state.split)

lemma sim_cong:
  assumes "sim env f db" "jobs f' = jobs f" "fake_frame f' = fake_frame f"
  shows "sim env f' db"
  using assms by (auto simp: sim_def fake_frame_def wf_ledger_def wf_jobs_def)

lemma one_operation_cong: "jobs f' = jobs f \<Longrightarrow> one_operation f' = one_operation f"
  by (simp add: one_operation_def)

lemma one_operation_kept:
  assumes "one_operation f" "no_revival f f'"
  shows "one_operation f'"
  unfolding one_operation_def
proof (intro allI impI, elim conjE)
  fix k a k' b
  assume at: "map_of (jobs f') k = Some a" "map_of (jobs f') k' = Some b" and same: "same_operation a b"
  from assms(2) at obtain a0 b0 where "map_of (jobs f) k = Some a0" "kept a0 a" "map_of (jobs f) k' = Some b0" "kept b0 b"
    unfolding no_revival_def by blast
  moreover from this same have "same_operation a0 b0" by (auto simp: same_operation_def kept_def)
  ultimately show "k = k'" using assms(1) unfolding one_operation_def by blast
qed

section \<open>Worker calls\<close>

lemma settle_no_revival:
  assumes wf: "wf_jobs f"
  shows "no_revival f (snd (settle_with (fake_ops gen) c jid tok f))"
proof (cases "owned fake_job_at jid tok f")
  case True
  then obtain j where j: "map_of (jobs f) jid = Some j" "jState j = StateActive" "jLeaseToken j = tok"
    by (auto simp: owned_def fake_job_at_def split: option.splits)
  obtain f' where f': "settle_with (fake_ops gen) c jid tok f = (Inr (settle_result c (clock f) j), f')" "wf_jobs f'"
    "map_of (jobs f') = (map_of (jobs f))(jid \<mapsto> settle_wire c (clock f) j)"
    by (rule fake_settle_hit [OF wf j])
  have "kept j (settle_wire c (clock f) j)" using j(2) by (cases c) (simp_all add: kept_def wire_defs live_key_def)
  then show ?thesis using f' j(1) by (auto intro!: no_revivalI split: if_splits)
next
  case False
  with wf show ?thesis by (simp add: fake_settle_miss no_revival_refl)
qed

lemma extend_no_revival:
  assumes wf: "wf_jobs f"
  shows "no_revival f (snd (ExtendLease jid tok lease f))"
proof (cases "settle ''extend lease'' jid tok f")
  case (Inl e)
  with wf show ?thesis by (simp add: ExtendLease_def no_revival_refl)
next
  case (Inr j)
  then have j: "map_of (jobs f) jid = Some j" "jState j = StateActive" by (auto simp: settle_def split: option.splits if_splits)
  have "jID j = jid" using wf j(1) by (rule wf_jobsD)
  moreover have "wf_jobs (putJob (j\<lparr>jLeaseUntil := clock f + lease\<rparr>) f)"
    using j(2) by (intro wf_jobs_putJob wf) (simp add: job_ok_def)
  ultimately show ?thesis using Inr j by (intro no_revivalI) (auto simp: ExtendLease_def AList.update_conv' kept_def split: if_splits)
qed

text \<open>The calls of a worker; the operator's verbs do not see operations of workflows.\<close>

fun worker_op :: "driver_op \<Rightarrow> bool" where
  "worker_op (OpDequeue src p) = True"
| "worker_op (OpSettle c jid tok) = True"
| "worker_op (OpExtend jid tok lease) = True"
| "worker_op (OpPromote src kinds) = True"
| "worker_op (OpReap src kinds n) = True"
| "worker_op (OpTick d) = True"
| "worker_op op = False"

lemma worker_op_keeps:
  assumes "worker_op op" "wf_jobs f" "fake_exec gen op f = (a, f')"
  shows "wf_part f' = wf_part f" "one_operation f \<Longrightarrow> one_operation f'"
proof -
  have f': "f' = snd (fake_exec gen op f)" using assms(3) by simp
  show "wf_part f' = wf_part f"
    using assms(1) by (cases op) (simp_all add: f' answered_by_def worker_part maintenance_part del: settle_with.simps, simp add: wf_part_def)
  show "one_operation f'" if one: "one_operation f"
  proof (cases op)
    case (OpTick d)
    with one show ?thesis by (simp add: f' one_operation_def)
  qed (use assms(1) one in \<open>auto simp: f' answered_by_def simp del: settle_with.simps intro: one_operation_kept
      DequeueBatch_no_revival settle_no_revival extend_no_revival PromoteDue_no_revival ReapExpired_no_revival assms(2)\<close>)
qed

lemma wsim_worker:
  assumes ws: "wsim env js f w" and op: "worker_op op" "op_plain env op"
  shows "\<exists>f' db' a. fake_exec (gen_random_uuid env) op f = (a, f') \<and> pg_exec env (finishInit st) op (wfDb w) = (a, db') \<and>
    wsim env js f' (w\<lparr>wfDb := db'\<rparr>)"
proof -
  have "draws_fresh env op (wfDb w)" using op(1) by (cases op) simp_all
  from sim_exec [OF wsimD(1) [OF ws] op(2) this]
  obtain f' db' a where R: "fake_exec (gen_random_uuid env) op f = (a, f')" "pg_exec env (finishInit st) op (wfDb w) = (a, db')"
    "sim env f' db'" by blast
  note K = worker_op_keeps [OF op(1) simD(2) [OF wsimD(1) [OF ws]] R(1)]
  have "wsim env js f' (w\<lparr>wfDb := db'\<rparr>)"
    using ws K R(3) by (simp add: wsim_def wf_part_def execs_ok_def signals_agree_def history_owned_def)
  with R show ?thesis by blast
qed

section \<open>Inserting a workflow job\<close>

lemma sim_insert_row:
  assumes sim: "sim env f db" and new: "tab db jid = None" and rel: "row_rel env (events f) r j"
    and ids: "rId r = jid" "jID j = jid"
    and db': "pgJobs db' = pgJobs db @ [(jid, r)]" "pgNow db' = pgNow db" "pgEvents db' = pgEvents db"
      "pgSubscribers db' = pgSubscribers db" "pgTokens db' = Suc (pgTokens db)"
    and f': "jobs f' = AList.update jid j (jobs f)" "fake_frame f' = (clock f, Suc (draws f), events f, subscribers f)"
  shows "sim env f' db'"
proof -
  have tab: "tab db' = (tab db)(jid \<mapsto> r)"
    using new by (auto simp: tab_def db' fun_eq_iff map_add_def split: option.split)
  have keyed: "pg_keyed db'" unfolding pg_keyed_def
  proof
    show "distinct_keys (pgJobs db')"
      using pg_keyedD(1) [OF simD(9) [OF sim]] new by (auto simp: db' tab_def map_of_eq_None_iff)
    show "\<forall>k r. tab db' k = Some r \<longrightarrow> rId r = k"
      using pg_keyedD(2) [OF simD(9) [OF sim]] ids unfolding tab by (auto split: if_splits)
  qed
  have "job_ok j" using row_relD [OF rel] by (auto simp: job_ok_def row_ok_def toUUID_def timeOf_def)
  then have "wf_jobs (putJob j f)" by (rule wf_jobs_putJob [OF simD(2) [OF sim]])
  then have wf: "wf_jobs f'" by (simp add: wf_jobs_def f' putJob_def ids)
  show ?thesis
  proof (rule simI [OF sim wf keyed])
    fix k show "rel_option (row_rel env (events f)) (tab db' k) (map_of (jobs f') k)"
      using simD(7) [OF sim, of k] rel unfolding tab f' by (auto simp: AList.update_conv')
  qed (use simD(3-5,11) [OF sim] in \<open>simp_all add: db' f'\<close>)
qed

lemma insert_wf_job_result:
  obtains sq f' where "insert_wf_job mk gen f = (gen (draws f), f')" "wf_part f' = wf_part f"
    "jobs f' = AList.update (jID (mk (gen (draws f)) sq)) (mk (gen (draws f)) sq) (jobs f)"
    "fake_frame f' = (clock f, Suc (draws f), events f, subscribers f)"
proof (rule that [of "snd (insert_wf_job mk gen f)" "jobSeq f + 1"])
  have "wf_part (f\<lparr>draws := Suc (draws f), jobSeq := jobSeq f + 1\<rparr>) = wf_part f" by (simp add: wf_part_def)
  then show "wf_part (snd (insert_wf_job mk gen f)) = wf_part f" by (simp add: insert_wf_job_def nextSeq_def Let_def)
qed (simp_all add: insert_wf_job_def nextSeq_def Let_def fake_frame_def)

lemma same_operation_sym: "same_operation a b \<Longrightarrow> same_operation b a"
  by (auto simp: same_operation_def)

definition draw_fresh :: "pgEnv \<Rightarrow> pgdb \<Rightarrow> bool" where
  "draw_fresh env db = (map_of (pgJobs db) (gen_random_uuid env (pgTokens db)) = None)"

text \<open>The new job on both sides, with the wakeup that may follow it.\<close>

lemma wsim_insert:
  assumes ws: "wsim env js f w" and fresh: "draw_fresh env (wfDb w)"
    and rel: "\<And>jid sq. row_rel env (events f) (mkr jid) (mkj jid sq)"
    and ids: "\<And>jid. rId (mkr jid) = jid" "\<And>jid sq. jID (mkj jid sq) = jid"
    and clash: "\<And>jid r. r \<in> snd ` set (pgJobs (wfDb w)) \<Longrightarrow> \<not> exec_key_clash (mkr jid) r"
    and one: "\<And>jid sq k b. map_of (jobs f) k = Some b \<Longrightarrow> \<not> same_operation (mkj jid sq) b"
  obtains jid f' w' where "insert_wf_row env st mkr w = Some (jid, w')" "insert_wf_job mkj (gen_random_uuid env) f = (jid, f')"
    "wsim env js f' w'" "wsim env js f' (notifyWf kind w')"
proof -
  let ?db = "wfDb w" let ?jid = "gen_random_uuid env (pgTokens ?db)"
  note sim = wsimD(1) [OF ws]
  obtain sq f' where f': "insert_wf_job mkj (gen_random_uuid env) f = (gen_random_uuid env (draws f), f')" "wf_part f' = wf_part f"
    "jobs f' = AList.update (jID (mkj (gen_random_uuid env (draws f)) sq)) (mkj (gen_random_uuid env (draws f)) sq) (jobs f)"
    "fake_frame f' = (clock f, Suc (draws f), events f, subscribers f)"
    by (rule insert_wf_job_result)
  let ?db' = "pgBumpStat env st SourceWorkflow (rKind (mkr ?jid)) statEnqueued 1
    (?db\<lparr>pgJobs := pgJobs ?db @ [(?jid, mkr ?jid)], pgTokens := Suc (pgTokens ?db)\<rparr>)"
  have new: "tab ?db ?jid = None" using fresh by (simp add: draw_fresh_def tab_def)
  have ins: "insert_wf_row env st mkr w = Some (?jid, w\<lparr>wfDb := ?db'\<rparr>)"
    using fresh clash by (auto simp: insert_wf_row_def Let_def draw_fresh_def list_ex_iff)
  have jobs: "jobs f' = AList.update ?jid (mkj ?jid sq) (jobs f)" using f'(3) by (simp add: simD(4) [OF sim] ids)
  have "sim env f' db'" if "db' = ?db' \<or> db' = notifyAfterCommit SourceWorkflow kind ?db'" for db'
    by (rule sim_insert_row [OF sim new rel ids(1) ids(2) _ _ _ _ _ jobs f'(4)])
      (use that in \<open>auto simp: pgBumpStat_def notifyAfterCommit_def Let_def\<close>)
  moreover have "one_operation f'"
    using wsimD(8) [OF ws] one [of _ _ ?jid sq] same_operation_sym [of _ "mkj ?jid sq"] unfolding one_operation_def jobs
    by (auto simp: AList.update_conv' split: if_splits) blast+
  ultimately have "wsim env js f' (w\<lparr>wfDb := ?db'\<rparr>)" "wsim env js f' (notifyWf kind (w\<lparr>wfDb := ?db'\<rparr>))"
    using ws f'(2) by (simp_all add: wsim_def wf_part_def execs_ok_def signals_agree_def history_owned_def notifyWf_def)
  from that [OF ins _ this] f'(1) show thesis by (simp add: simD(4) [OF sim])
qed

lemma coalesceTime_plain: "runAt = zero_time \<or> timestamptz env runAt = runAt \<Longrightarrow> coalesceTime env runAt now = wf_runAt runAt now"
  by (auto simp: coalesceTime_def wf_runAt_def nullableTime_def)

lemmas wf_row_defs = row_rel_def row_ok_def pgToJob_def toJob_def job.truncate_def zeroJob_def nullableKey_def
  timeOf_def toUUID_def decodeMeta_def cloneMeta_def clonePayload_def

lemma task_rel:
  assumes "exact_env env" "wid \<noteq> Nil_uuid" "runAt = zero_time \<or> timestamptz env runAt = runAt"
  shows "row_rel env evs (scheduleTaskRow env wid kind runAt now jid) (wtask_job wid kind (wf_runAt runAt now) now jid sq)"
  using assms by (simp add: wf_row_defs scheduleTaskRow_def wfRow_def coalesceTime_plain wtask_job_def wf_state_def exact_envD)

text \<open>A task has no execution key.\<close>

lemma wsim_task_row:
  assumes ws: "wsim env js f w" and fresh: "draw_fresh env (wfDb w)" and wid: "wid \<noteq> Nil_uuid"
    and at: "runAt = zero_time \<or> timestamptz env runAt = runAt"
  obtains jid w' where "insert_wf_row env st (scheduleTaskRow env wid kind runAt (wfNow w)) w = Some (jid, w')"
    "wsim env js (scheduleTaskLocked (gen_random_uuid env) wid kind runAt f) w'"
    "wsim env js (scheduleTaskLocked (gen_random_uuid env) wid kind runAt f) (notifyWf kind w')"
proof -
  note sim = wsimD(1) [OF ws]
  let ?r = "scheduleTaskRow env wid kind runAt (wfNow w)" and ?j = "wtask_job wid kind (wf_runAt runAt (wfNow w)) (wfNow w)"
  have rel: "row_rel env (events f) (?r jid) (?j jid sq)" for jid sq by (rule task_rel [OF simD(8) [OF sim] wid at])
  have key: "metaKey (?r jid) = None" "meta_at (jMeta (?j jid sq)) ''execution_key'' = []" for jid sq
    by (simp_all add: scheduleTaskRow_def wfRow_def metaKey_def meta_at_def wtask_job_def zeroJob_def)
  have ids: "rId (?r jid) = jid" "jID (?j jid sq) = jid" for jid sq by (simp_all add: scheduleTaskRow_def wfRow_def wtask_job_def)
  have clash: "\<not> exec_key_clash (?r jid) r" "\<not> same_operation (?j jid sq) b" for jid r sq b
    using key by (simp_all add: exec_key_clash_def same_operation_def)
  obtain jid f' w' where R: "insert_wf_row env st ?r w = Some (jid, w')" "insert_wf_job ?j (gen_random_uuid env) f = (jid, f')"
    "wsim env js f' w'" "wsim env js f' (notifyWf kind w')"
    by (rule wsim_insert [OF ws fresh rel ids clash])
  from R(2) have "scheduleTaskLocked (gen_random_uuid env) wid kind runAt f = f'"
    by (simp add: scheduleTaskLocked_def simD(3) [OF sim])
  with R that show thesis by simp
qed

lemma wsim_task:
  assumes ws: "wsim env js f w" and fresh: "draw_fresh env (wfDb w)" and at: "runAt = zero_time \<or> timestamptz env runAt = runAt"
  shows "\<exists>f' w' a. ScheduleTask (gen_random_uuid env) wid kind runAt f = (a, f') \<and>
    pgScheduleTask env st wid kind runAt w = (a, w') \<and> wsim env js f' w'"
  using ws
proof (cases rule: wsim_execs [where wid = wid])
  case none
  with ws show ?thesis by (simp add: ScheduleTask_def pgScheduleTask_def requireWorkflow_def)
next
  case (exec x e)
  obtain jid w' where R: "insert_wf_row env st (scheduleTaskRow env wid kind runAt (wfNow w)) w = Some (jid, w')"
    "wsim env js (scheduleTaskLocked (gen_random_uuid env) wid kind runAt f) w'"
    "wsim env js (scheduleTaskLocked (gen_random_uuid env) wid kind runAt f) (notifyWf kind w')"
    by (rule wsim_task_row [OF ws fresh exec_relD(5) [OF exec(3)] at])
  with exec show ?thesis by (simp add: ScheduleTask_def pgScheduleTask_def requireWorkflow_def)
qed

definition plain_json :: "pgEnv \<Rightarrow> raw \<Rightarrow> bool" where
  "plain_json env p = (case p of None \<Rightarrow> True | Some b \<Rightarrow> b \<noteq> [] \<and> jsonb env b = Some b)"

lemma cast_plain [simp]: "plain_json env p \<Longrightarrow> cast_jsonb env (nullableRawJSON p) = Some p"
  by (auto simp: plain_json_def cast_jsonb_def nullableRawJSON_def split: option.splits)

section \<open>Operations\<close>

definition operation_plain :: "pgEnv \<Rightarrow> scheduleOperationParams \<Rightarrow> pgdb \<Rightarrow> bool" where
  "operation_plain env p db =
     (plain_json env (sopPayload p) \<and> (sopRunAt p = zero_time \<or> timestamptz env (sopRunAt p) = sopRunAt p) \<and>
      (sopExecutionKey p = [] \<longrightarrow> map_of (the_default [] (sopMeta p)) ''execution_key'' = None) \<and>
      list_all (\<lambda>r. rSource r = SourceWorkflow \<and> metaKey r = Some (sopExecutionKey p) \<and> live_op_row r \<longrightarrow>
         rRunId r = Some (sopWorkflowID p)) (map snd (pgJobs db)))"

lemma op_meta [simp]: "the_default [] (orEmptyMeta m) = the_default [] m" "the_default [] (cloneMeta m) = the_default [] m"
  by (simp_all add: orEmptyMeta_def cloneMeta_def the_default_def split: option.split)

lemma op_rel:
  assumes "exact_env env" "sopWorkflowID p \<noteq> Nil_uuid" "sopRunAt p = zero_time \<or> timestamptz env (sopRunAt p) = sopRunAt p"
  shows "row_rel env evs (operationRow env p (sopPayload p) now jid) (op_job p now jid sq)"
  using assms by (simp add: wf_row_defs operationRow_def Let_def wfRow_def coalesceTime_plain op_job_def wf_state_def exact_envD
) (auto simp: the_default_def split: option.split)

lemma row_rel_meta: "row_rel env evs r j \<Longrightarrow> decodeMeta (rMeta r) = cloneMeta (jMeta j)"
proof -
  assume "row_rel env evs r j"
  then have eq: "pgToJob env r = toJob j" by (simp add: row_rel_def)
  from arg_cong [OF this, of jMeta] show ?thesis by (simp add: pgToJob_def toJob_def job.truncate_def)
qed

lemma row_rel_key: "row_rel env evs r j \<Longrightarrow> key \<noteq> [] \<Longrightarrow> metaKey r = Some key \<longleftrightarrow> meta_at (jMeta j) ''execution_key'' = key"
  by (drule row_rel_meta) (auto simp: metaKey_def meta_at_def decodeMeta_def cloneMeta_def the_default_def split: option.splits)

lemma operation_at_iff:
  assumes "row_rel env evs r j" "sopExecutionKey p \<noteq> []" "sopWorkflowID p \<noteq> Nil_uuid"
  shows "operation_at (sopWorkflowID p) (sopExecutionKey p) r \<longleftrightarrow> op_holds p j"
  using row_relD [OF assms(1)] row_rel_key [OF assms(1,2)] assms(3)
  by (auto simp: operation_at_def op_holds_def wf_job_of_def live_op_row_def open_state_iff(1) [symmetric] open_state_def toUUID_def
      the_default_def split: option.splits)

lemma op_holds_same: "op_holds p a \<Longrightarrow> op_holds p b \<Longrightarrow> sopExecutionKey p \<noteq> [] \<Longrightarrow> same_operation a b"
  by (auto simp: op_holds_def same_operation_def wf_job_of_def open_state_iff(1))

lemma find_SomeD: "find P xs = Some x \<Longrightarrow> P x \<and> x \<in> set xs"
  by (auto simp: find_Some_iff)

lemma find_operation:
  assumes ws: "wsim env js f w" and key: "sopExecutionKey p \<noteq> []" and wid: "sopWorkflowID p \<noteq> Nil_uuid"
  shows "map_option rId (find (operation_at (sopWorkflowID p) (sopExecutionKey p)) (map snd (pgJobs (wfDb w)))) =
    map_option jID (find (op_holds p) (map snd (jobs f)))"
proof -
  let ?P = "operation_at (sopWorkflowID p) (sopExecutionKey p)" and ?rows = "map snd (pgJobs (wfDb w))" and ?js = "map snd (jobs f)"
  note sim = wsimD(1) [OF ws]
  have ex: "list_ex ?P ?rows \<longleftrightarrow> list_ex (op_holds p) ?js"
    by (rule sim_list_ex [OF sim]) (rule operation_at_iff [OF _ key wid])
  show ?thesis
  proof (cases "find (op_holds p) ?js")
    case None
    with ex have "find ?P ?rows = None" by (simp add: find_None_iff list_ex_iff)
    with None show ?thesis by simp
  next
    case (Some j)
    then have j: "op_holds p j" "j \<in> set ?js" by (auto dest: find_SomeD)
    with ex obtain r where r: "find ?P ?rows = Some r" by (cases "find ?P ?rows") (auto simp: find_None_iff list_ex_iff)
    then have rP: "?P r" "r \<in> set ?rows" by (auto dest: find_SomeD)
    from rP(2) have "tab (wfDb w) (rId r) = Some r" using in_rows [OF simD(9) [OF sim], of r] by simp
    then obtain j' where j': "map_of (jobs f) (rId r) = Some j'" "row_rel env (events f) r j'" using sim_get(2) [OF sim] by blast
    from rP(1) have "op_holds p j'" using operation_at_iff [OF j'(2) key wid] by simp
    moreover obtain k where k: "map_of (jobs f) k = Some j" using j(2) map_of_in_set [OF wf_jobsD(1) [OF simD(2) [OF sim]]] by force
    ultimately have "k = rId r" using wsimD(8) [OF ws] j' j(1) op_holds_same [OF j(1) _ key] unfolding one_operation_def by blast
    moreover have "jID j = k" using simD(2) [OF sim] k by (rule wf_jobsD)
    ultimately show ?thesis using r Some by simp
  qed
qed

lemma wsim_operation:
  assumes ws: "wsim env js f w" and fresh: "draw_fresh env (wfDb w)" and p: "operation_plain env p (wfDb w)"
  shows "\<exists>f' w' a. ScheduleOperation (gen_random_uuid env) p f = (a, f') \<and> pgScheduleOperation env st p w = (a, w') \<and> wsim env js f' w'"
  using ws
proof (cases rule: wsim_execs [where wid = "sopWorkflowID p"])
  case none
  with ws show ?thesis by (simp add: ScheduleOperation_def pgScheduleOperation_def requireWorkflow_def)
next
  case (exec x e)
  note sim = wsimD(1) [OF ws] and wid = exec_relD(5) [OF exec(3)]
  let ?P = "operation_at (sopWorkflowID p) (sopExecutionKey p)" and ?rows = "map snd (pgJobs (wfDb w))" and ?js = "map snd (jobs f)"
  let ?look = "if sopExecutionKey p \<noteq> [] then find (op_holds p) ?js else None"
  have same: "map_option rId (if sopExecutionKey p \<noteq> [] then find ?P ?rows else None) = map_option jID ?look"
    using find_operation [OF ws _ wid] by simp
  show ?thesis
  proof (cases ?look)
    case (Some j)
    with same obtain r where "(if sopExecutionKey p \<noteq> [] then find ?P ?rows else None) = Some r" "rId r = jID j" by auto
    with Some exec ws show ?thesis by (simp add: ScheduleOperation_def pgScheduleOperation_def requireWorkflow_def Let_def)
  next
    case None
    with same have none: "(if sopExecutionKey p \<noteq> [] then find ?P ?rows else None) = None" by simp
    let ?r = "operationRow env p (sopPayload p) (wfNow w)" and ?j = "op_job p (wfNow w)"
    have rel: "row_rel env (events f) (?r jid) (?j jid sq)" for jid sq
      by (rule op_rel [OF simD(8) [OF sim] wid]) (use p in \<open>simp add: operation_plain_def\<close>)
    have ids: "rId (?r jid) = jid" "jID (?j jid sq) = jid" for jid sq
      by (simp_all add: operationRow_def Let_def wfRow_def op_job_def)
    have key: "metaKey (?r jid) = (if sopExecutionKey p \<noteq> [] then Some (sopExecutionKey p) else None)" for jid
      using p by (simp add: metaKey_def operationRow_def Let_def operation_plain_def AList.update_conv')
    have clash: "\<not> exec_key_clash (?r jid) r" if r: "r \<in> snd ` set (pgJobs (wfDb w))" for jid r
    proof
      assume c: "exec_key_clash (?r jid) r"
      then have k: "sopExecutionKey p \<noteq> []" "metaKey r = Some (sopExecutionKey p)" "rSource r = SourceWorkflow" "live_op_row r"
        using key [of jid] by (auto simp: exec_key_clash_def split: if_splits)
      with p r have "rRunId r = Some (sopWorkflowID p)" by (auto simp: operation_plain_def list_all_iff)
      with k have "?P r" by (simp add: operation_at_def)
      with none k(1) r show False by (auto simp: find_None_iff)
    qed
    have one: "\<not> same_operation (?j jid sq) b" if b: "map_of (jobs f) k = Some b" for jid sq k b
    proof
      assume s: "same_operation (?j jid sq) b"
      have "meta_at (jMeta (?j jid sq)) ''execution_key'' = sopExecutionKey p"
        using p by (simp add: meta_at_def op_job_def Let_def operation_plain_def AList.update_conv')
      with s have k: "sopExecutionKey p \<noteq> []" "op_holds p b"
        by (auto simp: same_operation_def op_holds_def wf_job_of_def open_state_iff(1) op_job_def Let_def)
      moreover have "b \<in> set ?js" using b by (force dest: map_of_SomeD)
      ultimately show False using None by (auto simp: find_None_iff)
    qed
    obtain jid f' w' where R: "insert_wf_row env st ?r w = Some (jid, w')" "insert_wf_job ?j (gen_random_uuid env) f = (jid, f')"
      "wsim env js f' w'" "wsim env js f' (notifyWf (sopKind p) w')"
      by (rule wsim_insert [OF ws fresh rel ids clash one])
    have plain: "plain_json env (sopPayload p)" using p by (simp add: operation_plain_def)
    from R None none exec plain show ?thesis
      by (simp add: ScheduleOperation_def pgScheduleOperation_def requireWorkflow_def Let_def simD(3) [OF sim])
  qed
qed

section \<open>Updating an execution\<close>

lemma wsim_keys:
  assumes "wsim env js f w"
  shows "distinct_keys (wfExecs w)" "(i, x) \<in> set (wfExecs w) \<Longrightarrow> xId x = i"
proof -
  have "map fst (wfExecs w) = map fst (executions f)"
    using wsimD(4) [OF assms] by (induction rule: list_all2_induct) (simp_all add: exec_rel_def)
  then show "distinct_keys (wfExecs w)" using wsimD(3) [OF assms] by simp
  show "(i, x) \<in> set (wfExecs w) \<Longrightarrow> xId x = i"
    using wsimD(4) [OF assms] by (induction rule: list_all2_induct) (auto simp: exec_rel_def)
qed

lemma update_where:
  assumes ws: "wsim env js f w"
  shows "exec_update_where (\<lambda>x. xId x = wid \<and> guard x) F w =
    (case map_of (wfExecs w) wid of
       None \<Rightarrow> ([], w)
     | Some x \<Rightarrow> if guard x then ([F x], w\<lparr>wfExecs := map (\<lambda>(i, y). (i, if i = wid then F y else y)) (wfExecs w)\<rparr>) else ([], w))"
proof -
  have "map F (filter (\<lambda>x. xId x = wid \<and> guard x) (map snd xs)) =
      (case map_of xs wid of None \<Rightarrow> [] | Some x \<Rightarrow> if guard x then [F x] else []) \<and>
    map (\<lambda>(k, x). (k, if xId x = wid \<and> guard x then F x else x)) xs =
      (case map_of xs wid of None \<Rightarrow> xs | Some x \<Rightarrow> if guard x then map (\<lambda>(i, y). (i, if i = wid then F y else y)) xs else xs)"
    if "distinct_keys xs" "\<And>i x. (i, x) \<in> set xs \<Longrightarrow> xId x = i" for xs :: "(uuid \<times> pgExecution) list"
    using that
  proof (induction xs)
    case (Cons a xs)
    obtain i x where a: "a = (i, x)" by (cases a)
    with Cons.prems have x: "xId x = i" and fresh: "i \<notin> fst ` set xs" by auto
    have gone: "map_of xs i = None" using fresh by (simp add: map_of_eq_None_iff)
    from Cons.prems have keys: "distinct_keys xs" "\<And>i x. (i, x) \<in> set xs \<Longrightarrow> xId x = i" by auto
    note IH = Cons.IH [OF keys]
    show ?case
    proof (cases "i = wid")
      case True
      have same: "map (\<lambda>(k, y). (k, if k = wid then F y else y)) xs = xs"
        using fresh True by (intro map_idI) (auto simp: image_iff)
      from IH gone True have "filter (\<lambda>x. xId x = wid \<and> guard x) (map snd xs) = []"
        "map (\<lambda>(k, x). (k, if xId x = wid \<and> guard x then F x else x)) xs = xs" by simp_all
      then show ?thesis unfolding a using same x True by simp
    next
      case False
      with IH a x show ?thesis by (auto split: option.split)
    qed
  qed simp
  from this [OF wsim_keys [OF ws]] show ?thesis
    by (auto simp: exec_update_where_def split: option.split)
qed

lemma settleWorkflow_cases:
  assumes ws: "wsim env js f w"
  shows "settleWorkflow opn wid guard F w =
    (case map_of (wfExecs w) wid of
       None \<Rightarrow> (Inl (NotFound opn), w)
     | Some x \<Rightarrow> if guard (xState x) then (Inr (), w\<lparr>wfExecs := map (\<lambda>(i, y). (i, if i = wid then F y else y)) (wfExecs w)\<rparr>)
                 else (Inl (NotFound opn), w))"
  by (simp add: settleWorkflow_def update_where [OF ws] split: option.split)

lemma map_of_updated: "map_of (map (\<lambda>(i, y). (i, if i = k then F y else y)) xs) i = map_option (if i = k then F else id) (map_of xs i)"
  by (induction xs) auto

text \<open>One execution changes on both sides, and may get a history event.\<close>

lemma wsim_put:
  assumes ws: "wsim env js f w" and at: "map_of (executions f) wid = Some e"
    and f': "jobs f' = jobs f" "fake_frame f' = fake_frame f" "executions f' = AList.update wid e' (executions f)"
      "execs_ok (goKey js) f'" "signals_agree f' w'"
    and w': "wfDb w' = wfDb w" "wfExecs w' = map (\<lambda>(i, y). (i, if i = wid then F y else y)) (wfExecs w)"
      "wfHistory w' = wfHistory w @ evs"
    and evs: "list_all (\<lambda>ev. heWorkflowID ev = wid \<and> keys_agree js ev) evs"
    and rel: "\<And>x. exec_rel (wfHistory w) (wid, x) (wid, e) \<Longrightarrow> exec_rel (wfHistory w') (wid, F x) (wid, e')"
  shows "wsim env js f' w'"
proof -
  have "exec_rel (wfHistory w') a b" if "exec_rel (wfHistory w) a b" "fst b \<noteq> wid" for a b
    using that evs by (auto simp: exec_rel_def w' list_all_iff)
  then have "list_all2 (exec_rel (wfHistory w')) (wfExecs w') (executions f')" unfolding w'(2) f'(3)
    by (intro all2_update [where R = "exec_rel (wfHistory w)" and e = e] wsimD(3,4) [OF ws] at)
      (blast intro: exec_rel_keys rel)+
  moreover have "distinct_keys (executions f')" using wsimD(3) [OF ws] by (simp add: f' distinct_keys_update)
  moreover have "map_of (wfExecs w) wid \<noteq> None" using ws at by (cases rule: wsim_execs [where wid = wid]) auto
  then have "history_owned w'"
    using wsimD(6) [OF ws] evs by (auto simp: history_owned_def w' map_of_updated list_all_iff)
  moreover have "list_all (keys_agree js) (wfHistory w')" using wsimD(5) [OF ws] evs by (auto simp: w' list_all_iff)
  ultimately show ?thesis
    using sim_cong [OF wsimD(1) [OF ws] f'(1,2)] f'(4,5) wsimD(8) [OF ws] by (simp add: wsim_def w'(1) one_operation_cong [OF f'(1)])
qed

lemma putExec_keeps [simp]:
  "jobs (putExec e s) = jobs s" "fake_frame (putExec e s) = fake_frame s" "signalKeys (putExec e s) = signalKeys s"
  "executions (putExec e s) = AList.update (exID e) e (executions s)"
  by (simp_all add: putExec_def fake_frame_def)

lemma signals_agree_cong: "signalKeys f' = signalKeys f \<Longrightarrow> wfSignals w' = wfSignals w \<Longrightarrow> signals_agree f' w' = signals_agree f w"
  by (simp add: signals_agree_def)

lemma wsim_settle:
  assumes ws: "wsim env js f w"
    and fk: "\<And>e. map_of (executions f) wid = Some e \<Longrightarrow> fkf = (if guard (exState e) then (Inr (), putExec (G e) f) else (Inl (NotFound opn), f))"
      "map_of (executions f) wid = None \<Longrightarrow> fkf = (Inl (NotFound opn), f)"
    and pg: "pgf = settleWorkflow opn wid guard F w"
    and ok: "execs_ok (goKey js) (snd fkf)"
    and scan: "\<And>x e. scanWorkflowExecution x = exec_cloneView e \<Longrightarrow> scanWorkflowExecution (F x) = exec_cloneView (G e)"
    and keep: "\<And>x. xId (F x) = xId x" "\<And>x. xBusinessKey (F x) = xBusinessKey x" "\<And>e. exID (G e) = exID e"
      "\<And>e. exBusinessIdempotencyKey (G e) = exBusinessIdempotencyKey e" "\<And>e. history (G e) = history e"
  shows "\<exists>f' w' a. fkf = (a, f') \<and> pgf = (a, w') \<and> wsim env js f' w'"
proof -
  have rel: "exec_rel (wfHistory w) (wid, F x) (wid, G e)" if "exec_rel (wfHistory w) (wid, x) (wid, e)" for x e
    using that scan by (simp add: exec_rel_def keep)
  show ?thesis using ws
  proof (cases rule: wsim_execs [where wid = wid])
    case none
    with fk(2) ws show ?thesis by (simp add: pg settleWorkflow_cases [OF ws])
  next
    case (exec x e)
    show ?thesis
    proof (cases "guard (exState e)")
      case True
      have id: "exID (G e) = wid" using rel [OF exec(3)] by (simp add: exec_rel_def)
      have f: "fkf = (Inr (), putExec (G e) f)" using fk(1) [OF exec(2)] True by simp
      let ?w = "w\<lparr>wfExecs := map (\<lambda>(i, y). (i, if i = wid then F y else y)) (wfExecs w)\<rparr>"
      have "wsim env js (putExec (G e) f) ?w"
        by (rule wsim_put [OF ws exec(2), where evs = "[]" and F = F and e' = "G e"])
          (use ok f rel signals_agree_cong [of "putExec (G e) f" f ?w w] wsimD(7) [OF ws] in \<open>simp_all add: id\<close>)
      with f True exec_relD(1) [OF exec(3)] exec(1) show ?thesis by (simp add: pg settleWorkflow_cases [OF ws])
    next
      case False
      with fk(1) [OF exec(2)] exec_relD(1) [OF exec(3)] exec(1) ws show ?thesis by (simp add: pg settleWorkflow_cases [OF ws])
    qed
  qed
qed

lemma execs_ok_cong: "executions f' = executions f \<Longrightarrow> execs_ok execKey f' = execs_ok execKey f"
  by (simp add: execs_ok_def)

lemma step_ok:
  "wf_step execKey sigJSON gen {} f f' \<Longrightarrow> execs_ok execKey f \<Longrightarrow> execs_ok execKey f'"
  using wf_step_keeps [of execKey sigJSON gen "{}" f f'] by (simp add: execs_kept_def)

lemmas scan_defs = scanWorkflowExecution_def exec_cloneView_def workflowExecutionView.truncate_def clonePayload_def timeOf_def

lemma wsim_settles:
  assumes ws: "wsim env js f w"
  shows "plain_json env result \<Longrightarrow> \<exists>f' w' a. CompleteWorkflow wid result f = (a, f') \<and> pgCompleteWorkflow env wid result w = (a, w') \<and> wsim env js f' w'"
    "\<exists>f' w' a. FailWorkflow wid reason f = (a, f') \<and> pgFailWorkflow wid reason w = (a, w') \<and> wsim env js f' w'"
    "\<exists>f' w' a. CancelWorkflowExecution wid f = (a, f') \<and> pgCancelWorkflowExecution wid w = (a, w') \<and> wsim env js f' w'"
    "\<exists>f' w' a. SuspendWorkflow wid reason f = (a, f') \<and> pgSuspendWorkflow wid reason w = (a, w') \<and> wsim env js f' w'"
    "\<exists>f' w' a. ResumeWorkflow wid f = (a, f') \<and> pgResumeWorkflow wid w = (a, w') \<and> wsim env js f' w'"
proof -
  note now = simD(3) [OF wsimD(1) [OF ws]]
  have ok: "execs_ok (goKey js) (snd (CompleteWorkflow wid result f))" "execs_ok (goKey js) (snd (FailWorkflow wid reason f))"
    "execs_ok (goKey js) (snd (CancelWorkflowExecution wid f))" "execs_ok (goKey js) (snd (SuspendWorkflow wid reason f))"
    "execs_ok (goKey js) (snd (ResumeWorkflow wid f))"
    by (rule step_ok [OF _ wsimD(2) [OF ws]], rule wf_step.intros)+
  show "\<exists>f' w' a. CompleteWorkflow wid result f = (a, f') \<and> pgCompleteWorkflow env wid result w = (a, w') \<and> wsim env js f' w'"
    if "plain_json env result"
    by (rule wsim_settle [OF ws _ _ _ ok(1), where wid = wid and guard = "\<lambda>_. True" and opn = "''complete workflow''"
        and G = "\<lambda>e. e\<lparr>exState := WorkflowSucceeded, exResult := clonePayload result, exUpdatedAt := clock f, exCompletedAt := clock f\<rparr>"
        and F = "\<lambda>x. x\<lparr>xState := WorkflowSucceeded, xResult := result, xCompletedAt := Some (wfNow w), xUpdatedAt := wfNow w\<rparr>"])
      (use that in \<open>auto simp: CompleteWorkflow_def pgCompleteWorkflow_def scan_defs now\<close>)
  show "\<exists>f' w' a. FailWorkflow wid reason f = (a, f') \<and> pgFailWorkflow wid reason w = (a, w') \<and> wsim env js f' w'"
    by (rule wsim_settle [OF ws _ _ _ ok(2), where wid = wid and guard = "\<lambda>_. True" and opn = "''fail workflow''"
        and G = "\<lambda>e. e\<lparr>exState := WorkflowFailed, exFailureReason := reason, exUpdatedAt := clock f, exCompletedAt := clock f\<rparr>"
        and F = "\<lambda>x. x\<lparr>xState := WorkflowFailed, xFailureReason := Some reason, xCompletedAt := Some (wfNow w), xUpdatedAt := wfNow w\<rparr>"])
      (auto simp: FailWorkflow_def pgFailWorkflow_def scan_defs now)
  show "\<exists>f' w' a. CancelWorkflowExecution wid f = (a, f') \<and> pgCancelWorkflowExecution wid w = (a, w') \<and> wsim env js f' w'"
    by (rule wsim_settle [OF ws _ _ _ ok(3), where wid = wid and guard = "\<lambda>s. \<not> pgTerminalState s" and opn = "''cancel workflow execution''"
        and G = "\<lambda>e. e\<lparr>exState := WorkflowCancelled, exUpdatedAt := clock f, exCompletedAt := clock f\<rparr>"
        and F = "\<lambda>x. x\<lparr>xState := WorkflowCancelled, xCompletedAt := Some (wfNow w), xUpdatedAt := wfNow w\<rparr>"])
      (auto simp: CancelWorkflowExecution_def pgCancelWorkflowExecution_def terminal_iff_exec scan_defs now)
  show "\<exists>f' w' a. SuspendWorkflow wid reason f = (a, f') \<and> pgSuspendWorkflow wid reason w = (a, w') \<and> wsim env js f' w'"
    by (rule wsim_settle [OF ws _ _ _ ok(4), where wid = wid and guard = "\<lambda>s. \<not> pgTerminalState s" and opn = "''suspend workflow''"
        and G = "\<lambda>e. e\<lparr>exState := WorkflowSuspended, exFailureReason := reason, exUpdatedAt := clock f\<rparr>"
        and F = "\<lambda>x. x\<lparr>xState := WorkflowSuspended, xFailureReason := Some reason, xUpdatedAt := wfNow w\<rparr>"])
      (auto simp: SuspendWorkflow_def pgSuspendWorkflow_def terminal_iff_exec scan_defs now)
  show "\<exists>f' w' a. ResumeWorkflow wid f = (a, f') \<and> pgResumeWorkflow wid w = (a, w') \<and> wsim env js f' w'"
    by (rule wsim_settle [OF ws _ _ _ ok(5), where wid = wid and guard = "\<lambda>s. s = WorkflowSuspended" and opn = "''resume workflow''"
        and G = "\<lambda>e. e\<lparr>exState := WorkflowRunning, exFailureReason := [], exUpdatedAt := clock f\<rparr>"
        and F = "\<lambda>x. x\<lparr>xState := WorkflowRunning, xFailureReason := None, xUpdatedAt := wfNow w\<rparr>"])
      (auto simp: ResumeWorkflow_def pgResumeWorkflow_def scan_defs now)
qed

section \<open>History, start and signals\<close>

lemma nextHistorySeq_eq:
  assumes "history_ok execKey wid h" "history_of wid w = h"
  shows "nextHistorySeq wid w = next_seq h" "x \<in> set h \<Longrightarrow> heSeq x < next_seq h"
proof -
  from assms have seqs: "map heSeq h = [1..int (length h)]" and ne: "h \<noteq> []" by (simp_all add: history_ok_def)
  then have set: "heSeq ` set h = {1..int (length h)}" by (metis list.set_map set_upto)
  have "Max {1..int (length h)} = int (length h)" using ne by (intro Max_eqI) (auto simp: Suc_le_eq)
  with set ne show "nextHistorySeq wid w = next_seq h" by (simp add: nextHistorySeq_def Let_def assms(2) next_seq_length [OF seqs])
  show "heSeq x < next_seq h" if "x \<in> set h" using imageI [OF that, of heSeq] by (simp add: set next_seq_length [OF seqs])
qed

text \<open>The event a related pair of histories gets next, when the index has no entry for it.\<close>

lemma insert_next:
  assumes ok: "history_ok execKey wid h" and at: "history_of wid w = h" and ev: "heWorkflowID ev = wid" "heSeq ev = nextHistorySeq wid w"
    and new: "\<And>x. x \<in> set h \<Longrightarrow> \<not> history_clash js ev x"
  shows "insert_history js ev w = (Inr True, w\<lparr>wfHistory := wfHistory w @ [ev]\<rparr>)"
proof -
  have in_h: "x \<in> set h" if "x \<in> set (wfHistory w)" "heWorkflowID x = wid" for x using that at by (auto simp: history_of_def)
  have "\<not> list_ex (history_clash js ev) (wfHistory w)"
    using new in_h by (auto simp: list_ex_iff history_clash_def ev(1))
  moreover have "\<not> list_ex (\<lambda>x. heWorkflowID x = heWorkflowID ev \<and> heSeq x = heSeq ev) (wfHistory w)"
    using in_h nextHistorySeq_eq [OF ok at] by (auto simp: list_ex_iff ev) (metis less_irrefl)
  ultimately show ?thesis by (simp add: insert_history_def)
qed

lemma wsim_event:
  assumes ws: "wsim env js f w" and at: "map_of (executions f) wid = Some e"
    and ev: "ev = \<lparr>heWorkflowID = wid, heSeq = nextHistorySeq wid w, heType = etype, hePayload = payload, heCreatedAt = wfNow w\<rparr>"
    and agree: "keys_agree js ev"
    and f': "jobs f' = jobs f" "fake_frame f' = fake_frame f" "executions f' = AList.update wid (append_event wid etype payload (clock f) e) (executions f)"
      "execs_ok (goKey js) f'" "signals_agree f' w'"
    and w': "wfDb w' = wfDb w" "wfExecs w' = wfExecs w" "wfHistory w' = wfHistory w @ [ev]"
  shows "wsim env js f' w'"
proof (rule wsim_put [OF ws at f'(1-5) w'(1) _ w'(3), where F = "\<lambda>x. x"])
  show "wfExecs w' = map (\<lambda>(i, y). (i, if i = wid then y else y)) (wfExecs w)" by (simp add: w')
  show "list_all (\<lambda>ev. heWorkflowID ev = wid \<and> keys_agree js ev) [ev]" using agree by (simp add: ev)
  fix x
  assume rel: "exec_rel (wfHistory w) (wid, x) (wid, e)"
  have "history_of wid w = history e" using exec_relD(6) [OF rel] by (simp add: history_of_def)
  from nextHistorySeq_eq(1) [OF execs_okD(2) [OF wsimD(2) [OF ws] at] this]
  have "ev = \<lparr>heWorkflowID = wid, heSeq = next_seq (history e), heType = etype, hePayload = payload, heCreatedAt = clock f\<rparr>"
    by (simp add: ev simD(3) [OF wsimD(1) [OF ws]])
  with rel show "exec_rel (wfHistory w') (wid, x) (wid, append_event wid etype payload (clock f) e)"
    by (simp add: exec_rel_def w' append_event_def exec_cloneView_def workflowExecutionView.truncate_def)
qed

lemma indexed_agree:
  "keys_agree js ev \<Longrightarrow> indexed_key js ev =
     (if heType ev \<in> set operationResultTypes then executionKeyFromPayload (goKey js) (hePayload ev) else None)"
  by (simp add: keys_agree_def indexed_key_def operationResultTypes_def)

lemma wsim_append:
  assumes ws: "wsim env js f w" and plain: "plain_json env payload"
    and agree: "keys_agree js \<lparr>heWorkflowID = wid, heSeq = 0, heType = etype, hePayload = payload, heCreatedAt = 0\<rparr>"
  shows "\<exists>f' w' a. AppendHistory (goKey js) wid etype payload f = (a, f') \<and> pgAppendHistory env js wid etype payload w = (a, w') \<and> wsim env js f' w'"
  using ws
proof (cases rule: wsim_execs [where wid = wid])
  case none
  with ws show ?thesis by (simp add: AppendHistory_def pgAppendHistory_def)
next
  case (exec x e)
  let ?h = "history e"
  define ev where "ev = \<lparr>heWorkflowID = wid, heSeq = nextHistorySeq wid w, heType = etype, hePayload = payload, heCreatedAt = wfNow w\<rparr>"
  have hist: "history_of wid w = ?h" using exec_relD(6) [OF exec(3)] by (simp add: history_of_def)
  note hok = execs_okD(2) [OF wsimD(2) [OF ws] exec(2)]
  have ag: "keys_agree js ev" using agree by (simp add: ev_def keys_agree_def)
  have agh: "keys_agree js y \<and> heWorkflowID y = wid" if "y \<in> set ?h" for y
    using that wsimD(5) [OF ws] unfolding hist [symmetric] by (auto simp: history_of_def list_all_iff)
  have clash: "history_clash js ev y \<longleftrightarrow> etype \<in> set operationResultTypes \<and>
      (\<exists>key. executionKeyFromPayload (goKey js) payload = Some key \<and> same_result (goKey js) etype key y)"
    if "y \<in> set ?h" for y
    using agh [OF that] indexed_agree [OF ag] indexed_agree [of js y]
    by (auto simp: history_clash_def ev_def same_result_def split: if_splits)
  have same: "pgExecutionKeyFromPayload js payload = executionKeyFromPayload (goKey js) payload"
    by (simp add: pgExecutionKeyFromPayload_def executionKeyFromPayload_def)
  show ?thesis
  proof (cases "recorded_result (goKey js) etype payload ?h")
    case None
    have "\<not> history_clash js ev y" if y: "y \<in> set ?h" for y
      using None clash [OF y] y by (auto simp: recorded_result_def find_None_iff split: if_splits option.splits)
    from insert_next [OF hok hist _ _ this] have ins: "insert_history js ev w = (Inr True, w\<lparr>wfHistory := wfHistory w @ [ev]\<rparr>)"
      by (simp add: ev_def)
    let ?f = "putExec (append_event wid etype (clonePayload payload) (clock f) e) f"
    have fk: "AppendHistory (goKey js) wid etype payload f = (Inr (next_seq ?h), ?f)" using exec(2) None by (simp add: AppendHistory_def)
    have "execs_ok (goKey js) (snd (AppendHistory (goKey js) wid etype payload f))"
      by (rule step_ok [OF _ wsimD(2) [OF ws]], rule wf_step.append)
    then have "wsim env js ?f (w\<lparr>wfHistory := wfHistory w @ [ev]\<rparr>)"
      by (intro wsim_event [OF ws exec(2) ev_def ag]) (simp_all add: fk clonePayload_def append_event_def exec_relD(4) [OF exec(3)]
          signals_agree_cong [of "putExec _ f" f _ w] wsimD(7) [OF ws] signals_agree_cong [of f f _ w])
    with fk exec(1) plain ins nextHistorySeq_eq(1) [OF hok hist] show ?thesis by (simp add: pgAppendHistory_def Let_def ev_def)
  next
    case (Some y)
    then obtain key where key: "executionKeyFromPayload (goKey js) payload = Some key" "etype \<in> set operationResultTypes"
      "find (same_result (goKey js) etype key) ?h = Some y" by (auto simp: recorded_result_def split: if_splits option.splits)
    from find_SomeD [OF key(3)] have y: "same_result (goKey js) etype key y" "y \<in> set ?h" by auto
    have "history_clash js ev y" using clash [OF y(2)] y(1) key by simp
    then have "list_ex (history_clash js ev) (wfHistory w)" using y(2) unfolding hist [symmetric] by (auto simp: history_of_def list_ex_iff)
    then have ins: "insert_history js ev w = (Inr False, w)" by (simp add: insert_history_def)
    have "(heType h = etype \<and> Option.bind (hePayload h) (sqlKey js) = Some key) = same_result (goKey js) etype key h" if "h \<in> set ?h" for h
      using agh [OF that] key(2) by (auto simp: same_result_def keys_agree_def operationResultTypes_def)
    then have "find (\<lambda>h. heType h = etype \<and> Option.bind (hePayload h) (sqlKey js) = Some key) ?h =
        find (same_result (goKey js) etype key) ?h" by (rule find_cong [OF refl])
    with Some exec plain ins same key(1,3) ws show ?thesis
      by (simp add: AppendHistory_def pgAppendHistory_def Let_def ev_def hist)
  qed
qed

definition start_plain :: "pgEnv \<Rightarrow> workflowStartParams \<Rightarrow> pgWf \<Rightarrow> bool" where
  "start_plain env p w =
     (plain_json env (wspInput p) \<and> wspID p \<noteq> Nil_uuid \<and>
      (map_of (wfExecs w) (wspID p) = None \<or>
       wspBusinessIdempotencyKey p \<noteq> [] \<and> list_ex (live_holder p) (map snd (wfExecs w))))"

lemma all2_find:
  assumes "list_all2 R xs ys" and "\<And>a b. R a b \<Longrightarrow> P (snd a) = Q (snd b)"
  shows "rel_option (\<lambda>x y. \<exists>k k'. R (k, x) (k', y)) (find P (map snd xs)) (find Q (map snd ys))"
  using assms(1)
proof (induction rule: list_all2_induct)
  case (Cons a xs b ys)
  with assms(2) [OF Cons.hyps(1)] show ?case by (cases a; cases b) auto
qed simp

lemma holder_iff:
  assumes "exec_rel hs a b" "wspBusinessIdempotencyKey p \<noteq> []"
  shows "live_holder p (snd a) = holds_key p (snd b)"
proof -
  obtain i x e where ab: "a = (i, x)" "b = (i, e)" using exec_rel_keys [OF assms(1)] by (cases a; cases b) auto
  note D = exec_relD(1,2) [OF assms(1) [unfolded ab]]
  have "xBusinessKey x = nullableKey (exBusinessIdempotencyKey e)" using assms(1) by (simp add: exec_rel_def ab)
  then show ?thesis using D assms(2)
    by (auto simp: live_holder_def holds_key_def ab liveWorkflowState_def exec_live_def nullableKey_def split: if_splits)
qed

lemma find_holder:
  assumes ws: "wsim env js f w" and key: "wspBusinessIdempotencyKey p \<noteq> []"
  shows "map_option xId (find (live_holder p) (map snd (wfExecs w))) = map_option exID (find (holds_key p) (map snd (executions f)))"
  using all2_find [OF wsimD(4) [OF ws], of "live_holder p" "holds_key p", OF holder_iff [OF _ key]]
  by (cases rule: option.rel_cases) (auto simp: exec_rel_def)

lemma wsim_new_exec:
  assumes ws: "wsim env js f w" and p: "plain_json env (wspInput p)" "wspID p \<noteq> Nil_uuid" and new: "map_of (wfExecs w) (wspID p) = None"
    and ev: "ev = \<lparr>heWorkflowID = wspID p, heSeq = 1, heType = ''WorkflowStarted'', hePayload = wspInput p, heCreatedAt = wfNow w\<rparr>"
    and w1: "w1 = w\<lparr>wfExecs := wfExecs w @ [(wspID p, executionRow p (wspInput p) (wfNow w))]\<rparr>"
  shows "insert_history js ev w1 = (Inr True, w1\<lparr>wfHistory := wfHistory w1 @ [ev]\<rparr>)"
    "wsim env js (putExec (new_exec p (clock f)) f) (w1\<lparr>wfHistory := wfHistory w1 @ [ev]\<rparr>)"
proof -
  let ?f = "putExec (new_exec p (clock f)) f" and ?w = "w1\<lparr>wfHistory := wfHistory w1 @ [ev]\<rparr>"
  have none: "heWorkflowID h \<noteq> wspID p" if "h \<in> set (wfHistory w)" for h
    using wsimD(6) [OF ws] that new by (auto simp: history_owned_def list_all_iff)
  then show "insert_history js ev w1 = (Inr True, ?w)"
    by (auto simp: insert_history_def w1 ev list_ex_iff history_clash_def indexed_key_def)
  have newf: "map_of (executions f) (wspID p) = None" using ws new by (cases rule: wsim_execs [where wid = "wspID p"]) auto
  then have up: "executions ?f = executions f @ [(wspID p, new_exec p (clock f))]"
    using update_fresh [of "wspID p" "executions f"] by (simp add: new_exec_def map_of_eq_None_iff)
  have keys: "fst b \<noteq> wspID p" if "b \<in> set (executions f)" for b using that newf by (metis imageI map_of_eq_None_iff)
  have "list_all2 (exec_rel (wfHistory ?w)) (wfExecs w) (executions f)"
  proof (rule list.rel_mono_strong [OF wsimD(4) [OF ws]])
    fix a b assume "b \<in> set (executions f)" "exec_rel (wfHistory w) a b"
    with keys [of b] show "exec_rel (wfHistory ?w) a b" by (simp add: exec_rel_def w1 ev)
  qed
  moreover have "exec_rel (wfHistory ?w) (wspID p, executionRow p (wspInput p) (wfNow w)) (wspID p, new_exec p (clock f))"
    using none p(2) simD(3) [OF wsimD(1) [OF ws]]
    by (simp add: exec_rel_def w1 ev executionRow_def new_exec_def scan_defs orEmptyMeta_def cloneMeta_def decodeMeta_def
        nullableKey_def filter_empty_conv the_default_def split: option.split)
  ultimately have "list_all2 (exec_rel (wfHistory ?w)) (wfExecs ?w) (executions ?f)"
    unfolding up by (simp add: w1 list_all2_appendI)
  moreover have "execs_ok (goKey js) ?f"
  proof -
    have "history_ok (goKey js) (wspID p) (history (new_exec p (clock f)))" "exID (new_exec p (clock f)) = wspID p"
      by (simp_all add: history_ok_def new_exec_def List.map_filter_def result_key_def operationResultTypes_def)
    with wsimD(2) [OF ws] show ?thesis by (auto simp: execs_ok_def AList.update_conv')
  qed
  moreover have "distinct_keys (executions ?f)" using wsimD(3) [OF ws] by (simp add: distinct_keys_update)
  moreover have "list_all (keys_agree js) (wfHistory ?w)" using wsimD(5) [OF ws] by (simp add: w1 ev keys_agree_def)
  moreover have "history_owned ?w" using wsimD(6) [OF ws] by (auto simp: history_owned_def w1 ev list_all_iff map_add_def split: option.splits)
  moreover have "signals_agree ?f ?w" using wsimD(7) [OF ws] by (simp add: signals_agree_def w1)
  ultimately show "wsim env js ?f ?w"
    using sim_cong [OF wsimD(1) [OF ws], of ?f] wsimD(8) [OF ws] by (simp add: wsim_def w1 one_operation_def)
qed

lemma wsim_start:
  assumes ws: "wsim env js f w" and fresh: "draw_fresh env (wfDb w)" and p: "start_plain env p w"
  shows "\<exists>f' w' a. StartWorkflow (gen_random_uuid env) p f = (a, f') \<and> pgStartWorkflow env st js p w = (a, w') \<and> wsim env js f' w'"
proof -
  let ?key = "wspBusinessIdempotencyKey p \<noteq> []"
  have plain: "plain_json env (wspInput p)" "wspID p \<noteq> Nil_uuid" using p by (simp_all add: start_plain_def)
  show ?thesis
  proof (cases "if ?key then find (holds_key p) (map snd (executions f)) else None")
    case (Some e)
    then have k: ?key "find (holds_key p) (map snd (executions f)) = Some e" by (simp_all split: if_splits)
    then obtain x where x: "find (live_holder p) (map snd (wfExecs w)) = Some x" "xId x = exID e" using find_holder [OF ws k(1)] by auto
    then have "list_ex (live_holder p) (map snd (wfExecs w))" using find_SomeD by (fastforce simp: list_ex_iff)
    with k x plain ws show ?thesis by (simp add: StartWorkflow_def pgStartWorkflow_def nullableKey_def)
  next
    case None
    have no: "\<not> (?key \<and> list_ex (live_holder p) (map snd (wfExecs w)))"
    proof
      assume "?key \<and> list_ex (live_holder p) (map snd (wfExecs w))"
      moreover from this have "find (live_holder p) (map snd (wfExecs w)) = None" using None find_holder [OF ws, of p] by simp
      ultimately show False by (auto simp: find_None_iff list_ex_iff)
    qed
    then have new: "map_of (wfExecs w) (wspID p) = None" using p by (auto simp: start_plain_def)
    have newf: "map_of (executions f) (wspID p) = None" using ws new by (cases rule: wsim_execs [where wid = "wspID p"]) auto
    note N = wsim_new_exec [OF ws plain new refl refl]
    let ?ev = "\<lparr>heWorkflowID = wspID p, heSeq = 1, heType = ''WorkflowStarted'', hePayload = wspInput p, heCreatedAt = wfNow w\<rparr>"
    let ?w1 = "w\<lparr>wfExecs := wfExecs w @ [(wspID p, executionRow p (wspInput p) (wfNow w))]\<rparr>"
    let ?w2 = "?w1\<lparr>wfHistory := wfHistory ?w1 @ [?ev]\<rparr>" and ?kind = "workflowTaskKindFmt (wspName p)"
    have "draw_fresh env (wfDb ?w2)" using fresh by simp
    then obtain jid w' where ins: "insert_wf_row env st (scheduleTaskRow env (wspID p) ?kind zero_time (wfNow ?w2)) ?w2 = Some (jid, w')"
      and R: "wsim env js (scheduleTaskLocked (gen_random_uuid env) (wspID p) ?kind zero_time (putExec (new_exec p (clock f)) f)) (notifyWf ?kind w')"
      by (rule wsim_task_row [OF N(2) _ plain(2) disjI1 [OF refl]])
    have kind: "pgWorkflowTaskKind (wspName p) = ?kind" by (simp add: pgWorkflowTaskKind_def workflowTaskKindFmt_def)
    have "pgStartWorkflow env st js p w = (Inr (True, Nil_uuid), notifyWf ?kind w')"
      using plain(1) no new N(1) ins by (auto simp: pgStartWorkflow_def nullableKey_def Let_def kind)
    with None newf R show ?thesis by (simp add: StartWorkflow_def)
  qed
qed

definition signal_plain :: "pgEnv \<Rightarrow> wfJson \<Rightarrow> signalParams \<Rightarrow> bool" where
  "signal_plain env js p =
     (plain_json env (spPayload p) \<and>
      (case sigJson js (spName p) (spPayload p) of Inl e \<Rightarrow> False | Inr body \<Rightarrow> plain_json env (Some body)))"

lemma nextHistorySeq_signals [simp]: "nextHistorySeq wid (w\<lparr>wfSignals := g\<rparr>) = nextHistorySeq wid w" "history_of wid (w\<lparr>wfSignals := g\<rparr>) = history_of wid w"
  by (simp_all add: nextHistorySeq_def history_of_def)

text \<open>The message id is taken on both sides.\<close>

lemma signals_agree_taken:
  assumes "signals_agree f w" "signalKeys f' = (if spMessageID p \<noteq> [] then AList.update (spWorkflowID p, spName p, spMessageID p) True (signalKeys f) else signalKeys f)"
    "wfSignals w' = wfSignals w @ [g]" "sgWorkflowId g = spWorkflowID p" "sgName g = spName p" "sgMessageId g = nullableKey (spMessageID p)"
  shows "signals_agree f' w'"
  unfolding signals_agree_def
proof (intro allI impI)
  fix q :: signalParams assume q: "spMessageID q \<noteq> []"
  have "signal_clash q g \<longleftrightarrow> spMessageID p \<noteq> [] \<and> (spWorkflowID q, spName q, spMessageID q) = (spWorkflowID p, spName p, spMessageID p)"
    using q by (auto simp: signal_clash_def assms(4-6) nullableKey_def)
  with assms(1) q show "(map_of (signalKeys f') (spWorkflowID q, spName q, spMessageID q) = Some True) = list_ex (signal_clash q) (wfSignals w')"
    by (auto simp: signals_agree_def assms(2,3) AList.update_conv')
qed

lemma wsim_signal:
  assumes ws: "wsim env js f w" and fresh: "draw_fresh env (wfDb w)" and p: "signal_plain env js p"
  shows "\<exists>f' w' a. SignalWorkflow (sigJson js) (gen_random_uuid env) p f = (a, f') \<and> pgSignalWorkflow env st js p w = (a, w') \<and> wsim env js f' w'"
  using ws
proof (cases rule: wsim_execs [where wid = "spWorkflowID p"])
  case none
  with ws show ?thesis by (simp add: SignalWorkflow_def pgSignalWorkflow_def)
next
  case (exec x e)
  let ?wid = "spWorkflowID p" let ?key = "(?wid, spName p, spMessageID p)"
  obtain body where body: "sigJson js (spName p) (spPayload p) = Inr body" "plain_json env (Some body)" "plain_json env (spPayload p)"
    using p by (auto simp: signal_plain_def split: sum.splits)
  have dup: "spMessageID p \<noteq> [] \<and> map_of (signalKeys f) ?key = Some True \<longleftrightarrow> list_ex (signal_clash p) (wfSignals w)"
    using wsimD(7) [OF ws] by (auto simp: signals_agree_def signal_clash_def list_ex_iff)
  show ?thesis
  proof (cases "list_ex (signal_clash p) (wfSignals w)")
    case True
    with dup exec body ws show ?thesis by (simp add: SignalWorkflow_def pgSignalWorkflow_def Let_def)
  next
    case False
    define g where "g = \<lparr>sgWorkflowId = ?wid, sgName = spName p, sgMessageId = nullableKey (spMessageID p), sgPayload = spPayload p,
      sgConsumed = False, sgCreatedAt = wfNow w\<rparr>"
    define ev where "ev = \<lparr>heWorkflowID = ?wid, heSeq = nextHistorySeq ?wid w, heType = ''SignalReceived'', hePayload = Some body,
      heCreatedAt = wfNow w\<rparr>"
    define w1 where "w1 = w\<lparr>wfSignals := wfSignals w @ [g]\<rparr>"
    define f1 where "f1 = (if spMessageID p \<noteq> [] then f\<lparr>signalKeys := AList.update ?key True (signalKeys f)\<rparr> else f)"
    let ?f2 = "putExec (append_event ?wid ''SignalReceived'' (Some body) (clock f) e) f1" and ?w2 = "w1\<lparr>wfHistory := wfHistory w1 @ [ev]\<rparr>"
    have hist: "history_of ?wid w1 = history e" using exec_relD(6) [OF exec(3)] by (simp add: history_of_def w1_def)
    note hok = execs_okD(2) [OF wsimD(2) [OF ws] exec(2)]
    have ins: "insert_history js ev w1 = (Inr True, ?w2)"
      by (rule insert_next [OF hok hist]) (simp_all add: ev_def w1_def history_clash_def indexed_key_def)
    have f1: "jobs f1 = jobs f" "fake_frame f1 = fake_frame f" "executions f1 = executions f" "clock f1 = clock f"
      by (simp_all add: f1_def fake_frame_def)
    have fk: "SignalWorkflow (sigJson js) (gen_random_uuid env) p f = (Inr True, if exec_terminal e then ?f2
        else scheduleTaskLocked (gen_random_uuid env) ?wid (workflowTaskKindFmt (exName e)) zero_time ?f2)"
      using exec(2) False dup body by (simp add: SignalWorkflow_def Let_def f1_def)
    have "execs_ok (goKey js) (snd (SignalWorkflow (sigJson js) (gen_random_uuid env) p f))"
      by (rule step_ok [OF _ wsimD(2) [OF ws]], rule wf_step.signal)
    then have "execs_ok (goKey js) ?f2"
      using execs_ok_cong [OF scheduleTaskLocked_executions] by (simp add: fk split: if_splits)
    moreover have "signals_agree ?f2 ?w2"
      by (rule signals_agree_taken [OF wsimD(7) [OF ws], of _ p _ g]) (simp_all add: f1_def w1_def g_def)
    ultimately have s2: "wsim env js ?f2 ?w2"
      by (intro wsim_event [OF ws exec(2) ev_def]) (simp_all add: ev_def keys_agree_def f1 w1_def append_event_def exec_relD(4) [OF exec(3)])
    have kind: "pgWorkflowTaskKind (xName x) = workflowTaskKindFmt (exName e)"
      by (simp add: pgWorkflowTaskKind_def workflowTaskKindFmt_def exec_relD(2) [OF exec(3)])
    have pg: "pgSignalWorkflow env st js p w =
        (if exec_terminal e then (Inr True, ?w2)
         else case insert_wf_row env st (scheduleTaskRow env ?wid (workflowTaskKindFmt (exName e)) zero_time (wfNow w)) ?w2 of
                None \<Rightarrow> (Inl (OtherError ''azyncpgx: schedule signal wake task''), w)
              | Some (jid, w3) \<Rightarrow> (Inr True, notifyWf (workflowTaskKindFmt (exName e)) w3))"
    proof -
      have casts: "cast_jsonb env (nullableRawJSON (spPayload p)) = Some (spPayload p)" "cast_jsonb env (nullableRawJSON (Some body)) = Some (Some body)"
        using body(2,3) by simp_all
      note final = terminal_iff_exec [of e, folded exec_relD(1) [OF exec(3)]]
      show ?thesis using False ins unfolding pgSignalWorkflow_def exec(1) option.case casts body(1) Let_def sum.case kind w1_def g_def ev_def
        by (simp add: final)
    qed
    show ?thesis
    proof (cases "exec_terminal e")
      case True
      with fk pg s2 show ?thesis by simp
    next
      case nonterm: False
      have "draw_fresh env (wfDb ?w2)" using fresh by (simp add: w1_def)
      then obtain jid w' where "insert_wf_row env st (scheduleTaskRow env ?wid (workflowTaskKindFmt (exName e)) zero_time (wfNow ?w2)) ?w2 = Some (jid, w')"
        and R: "wsim env js (scheduleTaskLocked (gen_random_uuid env) ?wid (workflowTaskKindFmt (exName e)) zero_time ?f2)
           (notifyWf (workflowTaskKindFmt (exName e)) w')"
        by (rule wsim_task_row [OF s2 _ exec_relD(5) [OF exec(3)] disjI1 [OF refl]])
      moreover have "wfNow ?w2 = wfNow w" by (simp add: w1_def)
      ultimately show ?thesis using fk pg nonterm by simp
    qed
  qed
qed

section \<open>Uncertain operations\<close>

definition mark_plain :: "uuid \<Rightarrow> uuid \<Rightarrow> pgWf \<Rightarrow> bool" where
  "mark_plain jid tok w =
     list_all (\<lambda>r. fence jid tok r \<and> rSource r = SourceWorkflow \<longrightarrow>
        (case map_of (wfExecs w) (toUUID (rRunId r)) of None \<Rightarrow> False | Some x \<Rightarrow> liveWorkflowState (xState x)))
       (map snd (pgJobs (wfDb w)))"

definition mark_job :: "string \<Rightarrow> time \<Rightarrow> 'a job_scheme \<Rightarrow> 'a job_scheme" where
  "mark_job reason now j =
     j\<lparr>jState := StateUncertain, jLeaseUntil := zero_time, jLeaseToken := Nil_uuid, jLastError := reason, jFailedAt := now\<rparr>"

lemma mark_rel:
  assumes "row_rel env evs r j" "0 < now"
  shows "row_rel env evs (uncertainSet reason now r) (mark_job reason now j)"
proof -
  have eq: "pgToJob env r = toJob j" "row_ok r" using assms by (simp_all add: row_rel_def)
  have "pgToJob env (uncertainSet reason now r) = mark_job reason now (pgToJob env r)"
    by (simp add: pgToJob_def uncertainSet_def unleased_def mark_job_def timeOf_def toUUID_def)
  moreover have "toJob (mark_job reason now j) = mark_job reason now (toJob j)" by (simp add: toJob_def job.truncate_def mark_job_def)
  moreover have "row_ok (uncertainSet reason now r)" using eq(2) by (simp add: row_ok_def uncertainSet_def unleased_def)
  ultimately show ?thesis using assms(1) by (simp add: row_rel_def uncertainSet_def unleased_def mark_job_def)
qed

lemma wsim_mark:
  assumes ws: "wsim env js f w" and p: "mark_plain jid tok w"
  shows "\<exists>f' w' a. MarkUncertain jid tok reason f = (a, f') \<and> pgMarkUncertain jid tok reason w = (a, w') \<and> wsim env js f' w'"
proof -
  note sim = wsimD(1) [OF ws]
  let ?hit = "\<lambda>r. fence jid tok r \<and> rSource r = SourceWorkflow" and ?set = "uncertainSet reason (wfNow w)"
  have key: "rId r = jid" if "?hit r" for r using that by (simp add: fence_def)
  have miss: ?thesis if none: "\<And>r. tab (wfDb w) jid = Some r \<Longrightarrow> \<not> ?hit r" and fk: "MarkUncertain jid tok reason f = (Inl (NotFound ''mark uncertain''), f)"
  proof -
    have "sql_update ?hit ?set (wfDb w) = ([], wfDb w)" by (rule row_miss(1) [OF simD(9) [OF sim] key none])
    then have "pgMarkUncertain jid tok reason w = (Inl (NotFound ''mark uncertain''), w)"
      by (simp add: pgMarkUncertain_def Let_def exec_update_where_def)
    with fk ws show ?thesis by blast
  qed
  show ?thesis using sim
  proof (cases rule: sim_rows [where k = jid])
    case none
    then show ?thesis by (intro miss) (simp_all add: MarkUncertain_def settle_def)
  next
    case (row r j)
    note own = sim_owned(2) [OF sim row(3,1,2), of tok]
    show ?thesis
    proof (cases "?hit r")
      case False
      with row own row_relD(2) [OF row(3)] show ?thesis by (intro miss) (auto simp: MarkUncertain_def settle_def)
    next
      case True
      with own have act: "jState j = StateActive" "jLeaseToken j = tok" "jSource j = SourceWorkflow" using row_relD(2) [OF row(3)] by auto
      let ?wid = "jRunID j"
      have wid: "toUUID (rRunId r) = ?wid" using row_relD(13) [OF row(3)] by simp
      have "r \<in> snd ` set (pgJobs (wfDb w))" using in_rows [OF simD(9) [OF sim], of r] row by simp
      then obtain x where x: "map_of (wfExecs w) ?wid = Some x" "liveWorkflowState (xState x)"
        using p True wid by (auto simp: mark_plain_def list_all_iff split: option.splits)
      from ws x(1) obtain e where e: "map_of (executions f) ?wid = Some e" "exec_rel (wfHistory w) (?wid, x) (?wid, e)"
        by (cases rule: wsim_execs [where wid = ?wid]) auto
      have run: "rRunId r = Some ?wid" using wid exec_relD(5) [OF e(2)] by (cases "rRunId r") (simp_all add: toUUID_def)
      let ?db = "snd (sql_update ?hit ?set (wfDb w))" and ?j = "mark_job reason (clock f) j"
      let ?f1 = "changeJob ?j (putJob ?j f)" and ?w1 = "w\<lparr>wfDb := snd (sql_update ?hit ?set (wfDb w))\<rparr>"
      note H = row_hit(1,2) [where w = ?hit and jid = jid and f = ?set, OF simD(9) [OF sim] key row(1) True]
      have ids: "jID ?j = jid" using row(5) by (simp add: mark_job_def)
      have jobs1: "jobs ?f1 = AList.update jid ?j (jobs f)" "fake_frame ?f1 = fake_frame f" "wf_part ?f1 = wf_part f"
        by (simp_all add: ids fake_frame_def)
      have wf1: "wf_jobs ?f1" by (simp add: wf_jobs_putJob [OF simD(2) [OF sim]] job_ok_def mark_job_def)
      have now: "clock f = wfNow w" by (rule simD(3) [OF sim])
      have "row_rel env (events f) (?set r) ?j" using mark_rel [OF row(3) simD(10) [OF sim]] now by simp
      then have "sim env ?f1 ?db"
        by (intro sim_put [OF sim wf1 jobs1(2) keyed_update [OF simD(9) [OF sim]] frame_sql(1) H(2)])
          (simp_all add: jobs1 ids AList.update_conv' uncertainSet_def)
      moreover have "no_revival f ?f1" using row(2,5) act
        by (intro no_revivalI [OF wf1]) (auto simp: jobs1 AList.update_conv' kept_def mark_job_def live_key_def split: if_splits)
      then have "one_operation ?f1" by (rule one_operation_kept [OF wsimD(8) [OF ws]])
      ultimately have ws1: "wsim env js ?f1 ?w1"
        using ws jobs1(3) by (simp add: wsim_def wf_part_def execs_ok_def signals_agree_def history_owned_def)
      let ?G = "e\<lparr>exState := WorkflowSuspended, exFailureReason := reason, exUpdatedAt := clock f\<rparr>"
      let ?F = "\<lambda>x. x\<lparr>xState := WorkflowSuspended, xFailureReason := Some reason, xUpdatedAt := wfNow w\<rparr>"
      let ?w2 = "?w1\<lparr>wfExecs := map (\<lambda>(i, y). (i, if i = ?wid then ?F y else y)) (wfExecs ?w1)\<rparr>"
      have alive: "\<not> exec_terminal e" using x(2) exec_relD(1) [OF e(2)]
        by (auto simp: liveWorkflowState_def terminal_iff_exec [symmetric] pgTerminalState_def)
      have e1: "map_of (executions ?f1) ?wid = Some e" using e(1) wf_part_executions [OF jobs1(3)] by simp
      have fk: "MarkUncertain jid tok reason f = (Inr (), putExec ?G ?f1)"
        using row(2) act e1 alive by (simp add: MarkUncertain_def settle_def Let_def mark_job_def)
      have ex: "Some (xId y) \<in> set (map rRunId [?set r]) \<and> liveWorkflowState (xState y) \<longleftrightarrow> xId y = ?wid \<and> liveWorkflowState (xState y)" for y
        using run by (auto simp: uncertainSet_def unleased_def)
      have pg: "pgMarkUncertain jid tok reason w = (Inr (), ?w2)"
      proof -
        obtain db2 where upd: "sql_update ?hit ?set (wfDb w) = ([?set r], db2)" using H(1) by (metis prod.collapse)
        have "pgMarkUncertain jid tok reason w =
            (let (rows, w') = exec_update_where (\<lambda>y. xId y = ?wid \<and> liveWorkflowState (xState y)) ?F ?w1
             in (if rows = [] then Inl (NotFound ''mark uncertain'') else Inr (), w'))"
          unfolding pgMarkUncertain_def Let_def upd prod.case snd_conv ex by (rule refl)
        then show ?thesis using update_where [OF ws1, of ?wid "\<lambda>y. liveWorkflowState (xState y)" ?F] x by simp
      qed
      have "execs_ok (goKey js) (snd (MarkUncertain jid tok reason f))"
        by (rule step_ok [OF _ wsimD(2) [OF ws]], rule wf_step.mark)
      then have "wsim env js (putExec ?G ?f1) ?w2"
        by (intro wsim_put [OF ws1 e1, where evs = "[]" and F = ?F and e' = ?G])
          (use wsimD(7) [OF ws1] exec_relD(4) [OF e(2)] in \<open>simp_all add: fk exec_rel_def scan_defs now signals_agree_def nullableKey_def\<close>)
      with fk pg show ?thesis by blast
    qed
  qed
qed

section \<open>Both drivers run the same workflows\<close>

datatype wf_op =
    WfWorker driver_op
  | WfStart workflowStartParams
  | WfAppend uuid string raw
  | WfSignal signalParams
  | WfComplete uuid raw
  | WfFail uuid string
  | WfCancel uuid
  | WfSuspend uuid string
  | WfResume uuid
  | WfTask uuid string time
  | WfOperation scheduleOperationParams
  | WfMark uuid uuid string
  | WfGet uuid
  | WfList uuid

datatype wf_answer =
    WaWorker answer
  | WaError error
  | WaStart "bool \<times> uuid"
  | WaSeq int
  | WaBool bool
  | WaUnit unit
  | WaId uuid
  | WaExecution workflowExecutionView
  | WaHistory "historyEvent list"

definition wf_answered :: "('a \<Rightarrow> wf_answer) \<Rightarrow> ('s, 'a) outcome \<Rightarrow> wf_answer \<times> 's" where
  "wf_answered c res = (case fst res of Inl e \<Rightarrow> WaError e | Inr a \<Rightarrow> c a, snd res)"

fun fake_wf :: "(nat \<Rightarrow> uuid) \<Rightarrow> wfJson \<Rightarrow> wf_op \<Rightarrow> fake \<Rightarrow> wf_answer \<times> fake" where
  "fake_wf gen js (WfWorker op) f = map_prod WaWorker id (fake_exec gen op f)"
| "fake_wf gen js (WfStart p) f = wf_answered WaStart (StartWorkflow gen p f)"
| "fake_wf gen js (WfAppend wid etype payload) f = wf_answered WaSeq (AppendHistory (goKey js) wid etype payload f)"
| "fake_wf gen js (WfSignal p) f = wf_answered WaBool (SignalWorkflow (sigJson js) gen p f)"
| "fake_wf gen js (WfComplete wid result) f = wf_answered WaUnit (CompleteWorkflow wid result f)"
| "fake_wf gen js (WfFail wid reason) f = wf_answered WaUnit (FailWorkflow wid reason f)"
| "fake_wf gen js (WfCancel wid) f = wf_answered WaUnit (CancelWorkflowExecution wid f)"
| "fake_wf gen js (WfSuspend wid reason) f = wf_answered WaUnit (SuspendWorkflow wid reason f)"
| "fake_wf gen js (WfResume wid) f = wf_answered WaUnit (ResumeWorkflow wid f)"
| "fake_wf gen js (WfTask wid kind runAt) f = wf_answered WaUnit (ScheduleTask gen wid kind runAt f)"
| "fake_wf gen js (WfOperation p) f = wf_answered WaId (ScheduleOperation gen p f)"
| "fake_wf gen js (WfMark jid tok reason) f = wf_answered WaUnit (MarkUncertain jid tok reason f)"
| "fake_wf gen js (WfGet wid) f = wf_answered WaExecution (GetWorkflowExecution wid f, f)"
| "fake_wf gen js (WfList wid) f = wf_answered WaHistory (ListHistory wid f, f)"

fun pg_wf_exec :: "pgEnv \<Rightarrow> pgStore \<Rightarrow> wfJson \<Rightarrow> wf_op \<Rightarrow> pgWf \<Rightarrow> wf_answer \<times> pgWf" where
  "pg_wf_exec env st js (WfWorker op) w = map_prod WaWorker (\<lambda>db. w\<lparr>wfDb := db\<rparr>) (pg_exec env st op (wfDb w))"
| "pg_wf_exec env st js (WfStart p) w = wf_answered WaStart (pgStartWorkflow env st js p w)"
| "pg_wf_exec env st js (WfAppend wid etype payload) w = wf_answered WaSeq (pgAppendHistory env js wid etype payload w)"
| "pg_wf_exec env st js (WfSignal p) w = wf_answered WaBool (pgSignalWorkflow env st js p w)"
| "pg_wf_exec env st js (WfComplete wid result) w = wf_answered WaUnit (pgCompleteWorkflow env wid result w)"
| "pg_wf_exec env st js (WfFail wid reason) w = wf_answered WaUnit (pgFailWorkflow wid reason w)"
| "pg_wf_exec env st js (WfCancel wid) w = wf_answered WaUnit (pgCancelWorkflowExecution wid w)"
| "pg_wf_exec env st js (WfSuspend wid reason) w = wf_answered WaUnit (pgSuspendWorkflow wid reason w)"
| "pg_wf_exec env st js (WfResume wid) w = wf_answered WaUnit (pgResumeWorkflow wid w)"
| "pg_wf_exec env st js (WfTask wid kind runAt) w = wf_answered WaUnit (pgScheduleTask env st wid kind runAt w)"
| "pg_wf_exec env st js (WfOperation p) w = wf_answered WaId (pgScheduleOperation env st p w)"
| "pg_wf_exec env st js (WfMark jid tok reason) w = wf_answered WaUnit (pgMarkUncertain jid tok reason w)"
| "pg_wf_exec env st js (WfGet wid) w = wf_answered WaExecution (pgGetWorkflowExecution wid w, w)"
| "pg_wf_exec env st js (WfList wid) w = wf_answered WaHistory (pgListHistory wid w, w)"

text \<open>
  What a call must satisfy, in the state it meets, to be answered alike: payloads are
  JSON in canonical form, instants are kept by the server, a drawn id is new, server and
  driver read the same execution key, execution keys belong to one execution, an id is
  not started twice, and an operation that turns uncertain belongs to a live execution.
\<close>

fun wf_ready :: "pgEnv \<Rightarrow> wfJson \<Rightarrow> wf_op \<Rightarrow> pgWf \<Rightarrow> bool" where
  "wf_ready env js (WfWorker op) w = (worker_op op \<and> op_plain env op)"
| "wf_ready env js (WfStart p) w = (start_plain env p w \<and> draw_fresh env (wfDb w))"
| "wf_ready env js (WfAppend wid etype payload) w =
     (plain_json env payload \<and>
      keys_agree js \<lparr>heWorkflowID = wid, heSeq = 0, heType = etype, hePayload = payload, heCreatedAt = 0\<rparr>)"
| "wf_ready env js (WfSignal p) w = (signal_plain env js p \<and> draw_fresh env (wfDb w))"
| "wf_ready env js (WfComplete wid result) w = plain_json env result"
| "wf_ready env js (WfTask wid kind runAt) w = ((runAt = zero_time \<or> timestamptz env runAt = runAt) \<and> draw_fresh env (wfDb w))"
| "wf_ready env js (WfOperation p) w = (operation_plain env p (wfDb w) \<and> draw_fresh env (wfDb w))"
| "wf_ready env js (WfMark jid tok reason) w = mark_plain jid tok w"
| "wf_ready env js op w = True"

lemma wsim_get: "wsim env js f w \<Longrightarrow> pgGetWorkflowExecution wid w = GetWorkflowExecution wid f"
  by (cases rule: wsim_execs [where wid = wid]) (auto simp: pgGetWorkflowExecution_def GetWorkflowExecution_def exec_relD(7))

lemma wsim_history: "wsim env js f w \<Longrightarrow> pgListHistory wid w = ListHistory wid f"
proof -
  assume ws: "wsim env js f w"
  then show ?thesis
  proof (cases rule: wsim_execs [where wid = wid])
    case (exec x e)
    have "sorted (map heSeq (history e))"
      using execs_okD(2) [OF wsimD(2) [OF ws] exec(2)] by (simp add: history_ok_def)
    then have "sort_key heSeq (history e) = history e" by (simp add: sort_key_id_if_sorted)
    moreover have "history_of wid w = history e" using exec_relD(6) [OF exec(3)] by (simp add: history_of_def)
    ultimately show ?thesis using exec(1,2)
      by (simp add: pgListHistory_def requireWorkflow_def ListHistory_def clonePayload_def)
  qed (simp add: pgListHistory_def requireWorkflow_def ListHistory_def)
qed

lemma wsim_exec:
  assumes ws: "wsim env js f w" and ok: "wf_ready env js op w"
  shows "\<exists>f' w' a. fake_wf (gen_random_uuid env) js op f = (a, f') \<and> pg_wf_exec env (finishInit st) js op w = (a, w') \<and> wsim env js f' w'"
proof -
  have lift: "\<exists>f' w' a. wf_answered c x = (a, f') \<and> wf_answered c y = (a, w') \<and> wsim env js f' w'"
    if "\<exists>f' w' a. x = (a, f') \<and> y = (a, w') \<and> wsim env js f' w'" for c :: "'x \<Rightarrow> wf_answer" and x y
    using that by (auto simp: wf_answered_def)
  show ?thesis
  proof (cases op)
    case (WfWorker wop)
    with ok wsim_worker [OF ws, of wop st] show ?thesis by (auto simp: map_prod_def)
  next
    case (WfStart p)
    with ok wsim_start [OF ws, of p "finishInit st"] show ?thesis by (simp add: lift)
  next
    case (WfSignal p)
    with ok wsim_signal [OF ws, of p "finishInit st"] show ?thesis by (simp add: lift)
  next
    case (WfGet wid)
    with ws show ?thesis by (simp add: wsim_get wf_answered_def)
  next
    case (WfList wid)
    with ws show ?thesis by (simp add: wsim_history wf_answered_def)
  qed (use ok in \<open>simp_all add: lift wsim_append [OF ws] wsim_settles [OF ws] wsim_task [OF ws] wsim_operation [OF ws] wsim_mark [OF ws]\<close>)
qed

interpretation workflow_drivers: lockstep "fake_wf (gen_random_uuid env) js" "pg_wf_exec env (finishInit st) js"
    "wf_ready env js" "wsim env js" for env js st
  by unfold_locales (simp add: wsim_exec)

definition wfEmpty :: "time \<Rightarrow> pgWf" where
  "wfEmpty now = \<lparr>wfDb = pgEmpty now, wfExecs = [], wfHistory = [], wfSignals = []\<rparr>"

lemma wsim_empty: "exact_env env \<Longrightarrow> 0 < now \<Longrightarrow> wsim env js (NewFake now) (wfEmpty now)"
  using sim_empty [of env now]
  by (simp add: wsim_def wfEmpty_def execs_ok_def history_owned_def signals_agree_def one_operation_def NewFake_def)


text \<open>
  A run: an order is started, an operation is scheduled, its result is recorded twice,
  and the order is cancelled twice.
\<close>

definition agree_json :: wfJson where
  "agree_json = \<lparr>sqlKey = order_execKey, goKey = order_execKey, sigJson = order_sig\<rparr>"

definition agree_operation :: scheduleOperationParams where
  "agree_operation = \<lparr>sopWorkflowID = 9, sopKind = ''charge'', sopPayload = Some ''p'', sopMeta = None, sopExecutionKey = ''k1'',
     sopRunAt = 0, sopMaxAttempts = 3\<rparr>"

definition wf_agree_ops :: "wf_op list" where
  "wf_agree_ops =
     [WfStart order_start, WfOperation agree_operation, WfAppend 9 ''OperationCompleted'' (Some ''k1''), WfAppend 9 ''OperationCompleted'' (Some ''k1''), WfCancel 9, WfCancel 9]"

lemma wf_agree_ok: "run_ready (wf_ready run_env agree_json) (pg_wf_exec run_env (pgNew []) agree_json) wf_agree_ops (wfEmpty 100)"
  unfolding wf_agree_ops_def run_ready.simps by (intro conjI; code_simp)


section \<open>Where the drivers differ, and upkeep\<close>

text \<open>
  An operation of an execution that has ended meanwhile: the caller is told that there
  was nothing to mark, yet the job is uncertain now, which the in-memory store reports.
\<close>

lemma mark_uncertain_half_done:
  assumes "pg_keyed (wfDb w)" "tab (wfDb w) jid = Some r" "fence jid tok r" "rSource r = SourceWorkflow"
    and ended: "\<And>i x. (i, x) \<in> set (wfExecs w) \<Longrightarrow> Some (xId x) = rRunId r \<Longrightarrow> pgTerminalState (xState x)"
  shows "fst (pgMarkUncertain jid tok reason w) = Inl (NotFound ''mark uncertain'')"
    "map_option rState (tab (wfDb (snd (pgMarkUncertain jid tok reason w))) jid) = Some StateUncertain"
proof -
  let ?hit = "\<lambda>r. fence jid tok r \<and> rSource r = SourceWorkflow" and ?set = "uncertainSet reason (wfNow w)"
  note H = row_hit(1,2) [where w = ?hit and jid = jid and f = ?set, OF assms(1) _ assms(2)]
  obtain db2 where upd: "sql_update ?hit ?set (wfDb w) = ([?set r], db2)" and db2: "tab db2 jid = Some (?set r)"
    using H assms(3,4) by (metis (no_types, lifting) fence_def fun_upd_same prod.collapse)
  have run: "rRunId (?set r) = rRunId r" "rState (?set r) = StateUncertain" by (simp_all add: uncertainSet_def unleased_def)
  have none: "filter (\<lambda>x. Some (xId x) = rRunId r \<and> liveWorkflowState (xState x)) (map snd (wfExecs w)) = []"
    using ended by (fastforce simp: filter_empty_conv pgTerminalState_def liveWorkflowState_def)
  show "fst (pgMarkUncertain jid tok reason w) = Inl (NotFound ''mark uncertain'')"
    using none by (simp add: pgMarkUncertain_def Let_def upd exec_update_where_def run)
  show "map_option rState (tab (wfDb (snd (pgMarkUncertain jid tok reason w))) jid) = Some StateUncertain"
    by (simp add: pgMarkUncertain_def Let_def upd exec_update_where_def db2 run)
qed

text \<open>Resolving an operation resumes a suspended execution and leaves every other as it is.\<close>

lemma resolve_resumes_suspended:
  assumes "map_of (wfExecs w) wid = Some x" "xState x \<noteq> WorkflowSuspended"
  shows "map_of (wfExecs (snd (pgResolveUncertain env jid decision result w))) wid = Some x"
proof -
  have "map_of (map (\<lambda>(k, y). (k, if xId y = i \<and> xState y = WorkflowSuspended then F y else y)) xs) wid = Some x"
    if "map_of xs wid = Some x" for i F xs
    using that assms(2) by (induction xs) (auto split: if_splits)
  from this [OF assms(1)] show ?thesis using assms(1)
    by (auto simp: pgResolveUncertain_def Let_def exec_update_where_def notifyWf_def split: option.splits list.splits prod.splits)
qed

text \<open>Vacuuming removes the old ended executions with all that belongs to them, and nothing else.\<close>

definition old_execution :: "pgEnv \<Rightarrow> duration \<Rightarrow> time \<Rightarrow> pgExecution \<Rightarrow> bool" where
  "old_execution env retention now x =
     (pgTerminalState (xState x) \<and>
      (case xCompletedAt x of None \<Rightarrow> False | Some t \<Rightarrow> t < now - make_interval env retention))"

lemma pg_vacuum_exact:
  assumes keys: "distinct_keys (wfExecs w)" "\<And>i x. (i, x) \<in> set (wfExecs w) \<Longrightarrow> xId x = i" and d: "0 < retention"
    and keyed: "pg_keyed (wfDb w)"
    and gone: "gone = {k. \<exists>x. map_of (wfExecs w) k = Some x \<and> old_execution env retention (wfNow w) x}"
  obtains w' where "pgVacuumWorkflows env retention w = (Inr (int (card gone)), w')"
    "\<And>k. map_of (wfExecs w') k = (if k \<in> gone then None else map_of (wfExecs w) k)"
    "\<And>k. history_of k w' = (if k \<in> gone then [] else history_of k w)"
    "\<And>jid. tab (wfDb w') jid = (case tab (wfDb w) jid of None \<Rightarrow> None | Some r \<Rightarrow> if rRunId r \<in> Some ` gone then None else Some r)"
proof -
  let ?old = "old_execution env retention (wfNow w)" and ?rows = "map snd (wfExecs w)"
  let ?ids = "map xId (filter ?old ?rows)"
  have at: "map_of (wfExecs w) k = Some x \<longleftrightarrow> (k, x) \<in> set (wfExecs w)" for k x by (rule map_of_in_set [OF keys(1), symmetric])
  have ids: "set ?ids = gone"
    using keys(2) by (force simp: gone at image_iff)
  have "?ids = map fst (filter (\<lambda>(k, x). ?old x) (wfExecs w))"
    using keys(2) by (induction "wfExecs w") (auto simp: filter_map comp_def case_prod_unfold map_eq_conv)
  then have "distinct ?ids" using distinct_keys_filter [OF keys(1), of "\<lambda>(k, x). ?old x"] by simp
  then have count: "length ?ids = card gone" using distinct_card [of ?ids] ids by simp
  let ?w = "snd (pgVacuumWorkflows env retention w)"
  have vac: "pgVacuumWorkflows env retention w = (Inr (int (card gone)), ?w)"
    using d count by (simp add: pgVacuumWorkflows_def Let_def old_execution_def [symmetric] del: length_map)
  have w': "wfExecs ?w = filter (\<lambda>(k, x). \<not> ?old x) (wfExecs w)" "wfHistory ?w = filter (\<lambda>h. heWorkflowID h \<notin> gone) (wfHistory w)"
    "wfDb ?w = snd (sql_delete (\<lambda>r. case rRunId r of None \<Rightarrow> False | Some k \<Rightarrow> k \<in> gone) (wfDb w))"
    using d unfolding ids [symmetric] by (simp_all add: pgVacuumWorkflows_def Let_def old_execution_def [symmetric] del: set_map set_filter)
  show thesis
  proof (rule that [OF vac])
    fix k
    show "map_of (wfExecs ?w) k = (if k \<in> gone then None else map_of (wfExecs w) k)"
      using map_of_filter_keyed [OF keys(1), of "\<lambda>_ x. \<not> ?old x" k] by (auto simp: w' gone split: option.splits)
    show "history_of k ?w = (if k \<in> gone then [] else history_of k w)"
      by (auto simp: history_of_def w' filter_empty_conv intro: filter_cong)
    show "tab (wfDb ?w) jid = (case tab (wfDb w) jid of None \<Rightarrow> None | Some r \<Rightarrow> if rRunId r \<in> Some ` gone then None else Some r)" for jid
      using keyed by (auto simp: w' tab_delete split: option.splits)
  qed
qed

text \<open>
  The reconciler finds the same stalled executions, as long as they fit the limit; in what order, among
  executions updated at the same instant, is up to the server.
\<close>

lemma sim_live_job:
  assumes "sim env f db" "wid \<noteq> Nil_uuid"
  shows "has_live_job wid db = hasLiveWorkflowJobLocked wid f"
  unfolding has_live_job_def hasLiveWorkflowJobLocked_def
proof (rule sim_list_ex [OF assms(1)])
  fix r j assume "row_rel env (events f) r j"
  from row_relD [OF this] assms(2) show "(rRunId r = Some wid \<and> rSource r = SourceWorkflow \<and> live_op_row r) = (wf_job_of wid j \<and> live_wf_state (jState j))"
    by (auto simp: wf_job_of_def live_op_row_def open_state_iff(1) [symmetric] open_state_def toUUID_def the_default_def split: option.splits)
qed

lemma all2_filter_map:
  assumes "list_all2 R xs ys" and "\<And>a b. R a b \<Longrightarrow> P (snd a) = Q (snd b) \<and> g (snd a) = h (snd b)"
  shows "map g (filter P (map snd xs)) = map h (filter Q (map snd ys))"
  using assms(1) by (induction rule: list_all2_induct) (use assms(2) in auto)

lemma stalled_agree:
  assumes ws: "wsim env js f w" and d: "whole olderThan" and limit: "0 < limit"
    and few: "int (length (filter (stalled (clock f - olderThan) f) (map snd (executions f)))) \<le> limit"
  shows "mset (pgListStalledWorkflows env olderThan limit w) = mset (ListStalledWorkflows olderThan limit f)"
proof -
  note sim = wsimD(1) [OF ws]
  let ?P = "\<lambda>x. xState x = WorkflowRunning \<and> xUpdatedAt x \<le> wfNow w - make_interval env olderThan \<and> \<not> has_live_job (xId x) (wfDb w)"
  let ?Q = "stalled (clock f - olderThan) f"
  have "?P (snd a) = ?Q (snd b) \<and> (xId (snd a), xName (snd a)) = (exID (snd b), exName (snd b))"
    if rel: "exec_rel (wfHistory w) a b" for a b
  proof -
    obtain i x e where ab: "a = (i, x)" "b = (i, e)" using exec_rel_keys [OF rel] by (cases a; cases b) auto
    note D = exec_relD [OF rel [unfolded ab]]
    show ?thesis
      by (simp add: ab stalled_def D(1-4,8) sim_live_job [OF sim D(5)] exact_envD(1) [OF simD(8) [OF sim] d] simD(3) [OF sim] not_less)
  qed
  then have rows: "map (\<lambda>x. (xId x, xName x)) (filter ?P (map snd (wfExecs w))) = map (\<lambda>e. (exID e, exName e)) (filter ?Q (map snd (executions f)))"
    by (rule all2_filter_map [OF wsimD(4) [OF ws]])
  from arg_cong [OF this, of length] have "length (filter ?P (map snd (wfExecs w))) = length (filter ?Q (map snd (executions f)))"
    by (simp only: length_map)
  with few limit have len: "length (filter ?P (map snd (wfExecs w))) \<le> nat limit" "length (filter ?Q (map snd (executions f))) \<le> nat limit" by simp_all
  have "mset (pgListStalledWorkflows env olderThan limit w) = mset (map (\<lambda>x. (xId x, xName x)) (filter ?P (map snd (wfExecs w))))"
    using limit len(1) by (simp add: pgListStalledWorkflows_def Let_def)
  moreover have "mset (ListStalledWorkflows olderThan limit f) = mset (map (\<lambda>e. (exID e, exName e)) (filter ?Q (map snd (executions f))))"
    using limit few by (simp add: ListStalledWorkflows_def Let_def)
  ultimately show ?thesis using rows by simp
qed

end
