(* ===== verification/Pg_Dag.thy ===== *)
theory Pg_Dag
  imports Pg_Workflow Dag_Signals Dag_Lifecycle
begin

text \<open>
  The DAG capability of the PostgreSQL store (\<open>driver/azyncpgx/dag_store.go\<close>, tables
  of migrations 00002 and 00008): headers, edges, the signal inbox and the tasks, which
  are rows of \<open>azync_jobs\<close>, statement by statement.

  The column \<open>compensation_payload\<close> is the table \<open>gCompensation\<close>, keyed by the job's id,
  since no statement outside this file reads or writes it. The column \<open>created_at\<close> of a
  job, which every insert leaves to its default, equals \<open>enqueued_at\<close>. The encoding of a
  timer's duration, and its reading by the server, are the parameter \<open>dagJson\<close>. Text is
  ordered bytewise. A transaction is one function, which returns the tables it met
  when it fails.
\<close>

section \<open>Tables\<close>

record pgDag =
  hId :: uuid
  hName :: string
  hState :: dag_state
  hOnFailure :: on_failure
  hIdempotencyKey :: "string option"
  hFailureReason :: "string option"
  hCancelRequested :: bool
  hMeta :: meta
  hCreatedAt :: time
  hUpdatedAt :: time
  hCompletedAt :: "time option"

record pgDagSignal =
  ibId :: uuid
  ibDagId :: uuid
  ibName :: string
  ibMessageId :: "string option"
  ibPayload :: raw
  ibConsumed :: bool
  ibCreatedAt :: time

record pgDags =
  gDb :: pgdb
  gDags :: "(uuid \<times> pgDag) list"
  gEdges :: "(uuid \<times> dagDep) list"
  gInbox :: "pgDagSignal list"
  gCompensation :: "(uuid \<times> raw) list"

record dagJson =
  sleepEnc :: "duration \<Rightarrow> string"
  sleepSeconds :: "string \<Rightarrow> error + duration option"

abbreviation gNow :: "pgDags \<Rightarrow> time" where
  "gNow g \<equiv> pgNow (gDb g)"

abbreviation gRows :: "pgDags \<Rightarrow> pgJob list" where
  "gRows g \<equiv> map snd (pgJobs (gDb g))"

definition isTerminalDAGState :: "dag_state \<Rightarrow> bool" where
  "isTerminalDAGState st = (case st of DAGSucceeded \<Rightarrow> True | DAGFailed \<Rightarrow> True | DAGCancelled \<Rightarrow> True | _ \<Rightarrow> False)"

definition liveDAGState :: "dag_state \<Rightarrow> bool" where
  "liveDAGState st = (st \<in> {DAGRunning, DAGSuspended, DAGCompensating, DAGPaused})"

text \<open>\<open>dag_id = $1 AND source = 'dag'\<close>, and \<open>task_key LIKE 'comp:%'\<close>.\<close>

definition task_of :: "uuid \<Rightarrow> pgJob \<Rightarrow> bool" where
  "task_of did r = (rDagId r = Some did \<and> rSource r = SourceDAG)"

definition comp_row :: "pgJob \<Rightarrow> bool" where
  "comp_row r = (case rTaskKey r of None \<Rightarrow> False
     | Some key \<Rightarrow> take (length TaskKeyCompensationPrefix) key = TaskKeyCompensationPrefix)"

text \<open>\<open>UPDATE azync_dags SET f WHERE c\<close>: the number of rows, and the tables.\<close>

definition dag_update :: "(pgDag \<Rightarrow> bool) \<Rightarrow> (pgDag \<Rightarrow> pgDag) \<Rightarrow> pgDags \<Rightarrow> int \<times> pgDags" where
  "dag_update c f g =
     (int (length (filter c (map snd (gDags g)))), g\<lparr>gDags := map (\<lambda>(k, h). (k, if c h then f h else h)) (gDags g)\<rparr>)"

text \<open>An update of \<open>azync_jobs\<close>, as in \<open>sql_update\<close>.\<close>

definition task_update :: "(pgJob \<Rightarrow> bool) \<Rightarrow> (pgJob \<Rightarrow> pgJob) \<Rightarrow> pgDags \<Rightarrow> pgJob list \<times> pgDags" where
  "task_update c f g = (let (rows, db) = sql_update c f (gDb g) in (rows, g\<lparr>gDb := db\<rparr>))"

definition notifyDAGKinds :: "string list \<Rightarrow> pgDags \<Rightarrow> pgDags" where
  "notifyDAGKinds kinds g =
     g\<lparr>gDb := (gDb g)\<lparr>pgNotified := pgNotified (gDb g) @ map (notifyPayload SourceDAG) (remdups kinds)\<rparr>\<rparr>"

section \<open>Creation\<close>

definition initialTaskState :: "string \<Rightarrow> bool \<Rightarrow> job_state" where
  "initialTaskState kind hasDeps =
     (if hasDeps then StateBlocked
      else if kind = KindSleep then StateScheduled
      else if kind = KindSignal then StateWaiting
      else StatePending)"

definition dagRow :: "dagParams \<Rightarrow> time \<Rightarrow> pgDag" where
  "dagRow p now =
     \<lparr>hId = dgID p, hName = dgName p, hState = DAGRunning,
      hOnFailure = (if dgOnFailure p = Some OnFailureSuspend then OnFailureSuspend else OnFailureCancel),
      hIdempotencyKey = nullableKey (dgIdempotencyKey p), hFailureReason = None, hCancelRequested = False,
      hMeta = orEmptyMeta (dgMeta p), hCreatedAt = now, hUpdatedAt = now, hCompletedAt = None\<rparr>"

definition dag_holder :: "string \<Rightarrow> string \<Rightarrow> pgDag \<Rightarrow> bool" where
  "dag_holder name key h = (hName h = name \<and> hIdempotencyKey h = Some key \<and> liveDAGState (hState h))"

definition taskRow ::
  "pgEnv \<Rightarrow> dagParams \<Rightarrow> dagTask \<Rightarrow> job_state \<Rightarrow> duration \<Rightarrow> raw \<Rightarrow> time \<Rightarrow> uuid \<Rightarrow> pgJob" where
  "taskRow env p tk state offset payload now jid =
     \<lparr>rId = jid, rSource = SourceDAG, rKind = dtKind tk, rState = state, rRunAt = now + make_interval env offset,
      rLeaseUntil = None, rLeaseToken = None, rAttempt = 0, rMaxAttempts = dtMaxAttempts tk,
      rMaxAttemptsExplicit = (dtMaxAttempts tk > 0), rReapCount = 0, rPayload = payload,
      rMeta = orEmptyMeta (dgMeta p), rIdempotencyKey = None, rCoalesceKey = None, rEventId = None, rReplay = False,
      rLastError = None, rEnqueuedAt = now, rFailedAt = None, rCompletedAt = None, rStartedAt = None, rUpdatedAt = now,
      rDagId = Some (dgID p), rRunId = None, rTaskKey = Some (dtKey tk), rResult = None,
      rSignalName = nullableKey (dtSignalName tk), rCompensationKind = nullableKey (dtCompensationKind tk),
      rIgnoreDeadDeps = dtIgnoreDeadDeps tk,
      rSnoozeBudget = (if dtDeadline tk = 0 then None else Some (dtDeadline tk)), rDeadlineAt = None\<rparr>"

text \<open>
  The insert of a task with its counter. The unique index \<open>azync_jobs_dag_task_idx\<close> has
  one task per DAG and key; its violation and that of the primary key fail the insert.
\<close>

definition insert_task_row :: "pgEnv \<Rightarrow> pgStore \<Rightarrow> (uuid \<Rightarrow> pgJob) \<Rightarrow> raw \<Rightarrow> pgDags \<Rightarrow> pgDags option" where
  "insert_task_row env st mk undo g =
     (let db = gDb g; jid = gen_random_uuid env (pgTokens db); r = mk jid
      in if map_of (pgJobs db) jid \<noteq> None \<or>
            list_ex (\<lambda>o'. rDagId o' = rDagId r \<and> rTaskKey o' = rTaskKey r) (map snd (pgJobs db)) then None
         else Some (g\<lparr>gDb := pgBumpStat env st SourceDAG (rKind r) statEnqueued 1
                        (db\<lparr>pgJobs := pgJobs db @ [(jid, r)], pgTokens := Suc (pgTokens db)\<rparr>),
                      gCompensation := AList.update jid undo (gCompensation g)\<rparr>))"

definition insertDAGTaskRow ::
  "pgEnv \<Rightarrow> pgStore \<Rightarrow> dagJson \<Rightarrow> dagParams \<Rightarrow> bool \<Rightarrow> dagTask \<Rightarrow> pgDags \<Rightarrow> (pgDags, unit) outcome" where
  "insertDAGTaskRow env st dj p hasDeps tk g =
     (let state = initialTaskState (dtKind tk) hasDeps;
          payload = (if dtKind tk = KindSleep then Some (sleepEnc dj (dtSleepFor tk)) else nullableRawJSON (dtPayload tk));
          offset = (if dtKind tk = KindSleep \<and> state = StateScheduled then dtSleepFor tk else 0);
          failed = (Inl (OtherError (''azyncpgx: insert dag task '' @ dtKey tk)), g)
      in case (cast_jsonb env payload, cast_jsonb env (nullableRawJSON (dtCompensationPayload tk))) of
           (Some stored, Some undo) \<Rightarrow>
             (case insert_task_row env st (taskRow env p tk state offset stored (gNow g)) undo g of
                None \<Rightarrow> failed | Some g' \<Rightarrow> (Inr (), g'))
         | _ \<Rightarrow> failed)"

fun exec_all :: "('x \<Rightarrow> 's \<Rightarrow> ('s, unit) outcome) \<Rightarrow> 'x list \<Rightarrow> 's \<Rightarrow> ('s, unit) outcome" where
  "exec_all f [] s = (Inr (), s)"
| "exec_all f (x # xs) s = (case f x s of (Inl e, s') \<Rightarrow> (Inl e, s') | (Inr _, s') \<Rightarrow> exec_all f xs s')"

definition insertDep :: "uuid \<Rightarrow> dagDep \<Rightarrow> pgDags \<Rightarrow> (pgDags, unit) outcome" where
  "insertDep did d g =
     (if (did, d) \<in> set (gEdges g) then (Inl (OtherError ''azync_dag_deps_pkey''), g)
      else (Inr (), g\<lparr>gEdges := gEdges g @ [(did, d)]\<rparr>))"

definition createDAG ::
  "pgEnv \<Rightarrow> pgStore \<Rightarrow> dagJson \<Rightarrow> dagParams \<Rightarrow> pgDags \<Rightarrow> (pgDags, bool \<times> uuid) outcome" where
  "createDAG env st dj p g =
     (let headers = map snd (gDags g); key = dgIdempotencyKey p in
      if nullableKey key \<noteq> None \<and> list_ex (dag_holder (dgName p) key) headers
      then (case find (dag_holder (dgName p) key) headers of
              None \<Rightarrow> (Inl (OtherError ''azyncpgx: resolve deduplicated dag''), g)
            | Some h \<Rightarrow> (Inr (False, hId h), g))
      else if map_of (gDags g) (dgID p) \<noteq> None then (Inl AlreadyExists, g)
      else
        let g1 = g\<lparr>gDags := gDags g @ [(dgID p, dagRow p (gNow g))]\<rparr>;
            hasDeps = (\<lambda>tk. dtKey tk \<in> set (map ddTaskKey (dgDeps p)));
            pending = map dtKind (filter (\<lambda>tk. initialTaskState (dtKind tk) (hasDeps tk) = StatePending) (dgTasks p))
        in case exec_all (\<lambda>tk. insertDAGTaskRow env st dj p (hasDeps tk) tk) (dgTasks p) g1 of
             (Inl e, _) \<Rightarrow> (Inl e, g)
           | (Inr _, g2) \<Rightarrow>
               (case exec_all (insertDep (dgID p)) (dgDeps p) g2 of
                  (Inl e, _) \<Rightarrow> (Inl e, g)
                | (Inr _, g3) \<Rightarrow> (Inr (True, Nil_uuid), notifyDAGKinds pending g3)))"

definition pgCreateDAG ::
  "pgEnv \<Rightarrow> pgStore \<Rightarrow> dagJson \<Rightarrow> dagParams \<Rightarrow> pgDags \<Rightarrow> (pgDags, bool \<times> uuid) outcome" where
  "pgCreateDAG env st dj p g = createDAG env st dj p g"

definition CreateDAGTx ::
  "pgEnv \<Rightarrow> pgStore \<Rightarrow> dagJson \<Rightarrow> dagParams \<Rightarrow> pgDags \<Rightarrow> (pgDags, bool \<times> uuid) outcome" where
  "CreateDAGTx env st dj p g = createDAG env st dj p g"

section \<open>Signals\<close>

definition inbox_clash :: "dagSignalParams \<Rightarrow> pgDagSignal \<Rightarrow> bool" where
  "inbox_clash p sg =
     (ibDagId sg = dspDAGID p \<and> ibName sg = dspName p \<and> dspMessageID p \<noteq> [] \<and> ibMessageId sg = Some (dspMessageID p))"

definition waiting_signal :: "pgJob \<Rightarrow> bool" where
  "waiting_signal r = (rKind r = KindSignal \<and> rState r = StateWaiting)"

definition running_timer :: "pgJob \<Rightarrow> bool" where
  "running_timer r = (rKind r = KindSleep \<and> rState r = StateScheduled)"

definition signalSet :: "raw \<Rightarrow> time \<Rightarrow> pgJob \<Rightarrow> pgJob" where
  "signalSet payload now r = r\<lparr>rState := StateSucceeded, rResult := payload, rCompletedAt := Some now, rUpdatedAt := now\<rparr>"

definition wakeSet :: "time \<Rightarrow> pgJob \<Rightarrow> pgJob" where
  "wakeSet now r = r\<lparr>rRunAt := now, rUpdatedAt := now\<rparr>"

definition deliverSignalNow :: "uuid \<Rightarrow> string \<Rightarrow> raw \<Rightarrow> pgDags \<Rightarrow> int \<times> pgDags" where
  "deliverSignalNow did name payload g =
     (let now = gNow g;
          named = (\<lambda>r. task_of did r \<and> rSignalName r = Some name);
          (sig, g1) = task_update (\<lambda>r. named r \<and> waiting_signal r) (signalSet payload now) g;
          (slp, g2) = task_update (\<lambda>r. named r \<and> running_timer r) (wakeSet now) g1
      in (int (length sig) + int (length slp), g2))"

definition consumeDAGSignal :: "(uuid \<Rightarrow> bool) \<Rightarrow> pgDags \<Rightarrow> int \<times> pgDags" where
  "consumeDAGSignal c g =
     (int (length (filter (\<lambda>sg. c (ibId sg)) (gInbox g))),
      g\<lparr>gInbox := map (\<lambda>sg. if c (ibId sg) then sg\<lparr>ibConsumed := True\<rparr> else sg) (gInbox g)\<rparr>)"

definition pgSignalDAG :: "pgEnv \<Rightarrow> dagSignalParams \<Rightarrow> pgDags \<Rightarrow> (pgDags, int \<times> bool) outcome" where
  "pgSignalDAG env p g =
     (case map_of (gDags g) (dspDAGID p) of
        None \<Rightarrow> (Inl (NotFound ''signal dag''), g)
      | Some h \<Rightarrow>
          if isTerminalDAGState (hState h) then (Inl (NotFound ''signal dag''), g)
          else
            (case cast_jsonb env (nullableRawJSON (dspPayload p)) of
               None \<Rightarrow> (Inl (OtherError ''azyncpgx: signal inbox insert''), g)
             | Some payload \<Rightarrow>
                 if list_ex (inbox_clash p) (gInbox g) then (Inr (0, True), g)
                 else
                   let db = gDb g; sid = gen_random_uuid env (pgTokens db) in
                   if list_ex (\<lambda>sg. ibId sg = sid) (gInbox g) then (Inl (OtherError ''azyncpgx: signal inbox insert''), g)
                   else
                     let g1 = g\<lparr>gDb := db\<lparr>pgTokens := Suc (pgTokens db)\<rparr>,
                              gInbox := gInbox g @ [\<lparr>ibId = sid, ibDagId = dspDAGID p, ibName = dspName p,
                                ibMessageId = nullableKey (dspMessageID p), ibPayload = payload, ibConsumed = False,
                                ibCreatedAt = gNow g\<rparr>]\<rparr>;
                         (delivered, g2) = deliverSignalNow (dspDAGID p) (dspName p) payload g1
                     in (Inr (delivered, False), if delivered > 0 then snd (consumeDAGSignal (\<lambda>i. i = sid) g2) else g2)))"

text \<open>
  \<open>deliverBufferedSignalsSQL\<close>: \<open>deliverableSignal\<close> is the row of the CTE \<open>deliverable\<close> for
  one task, the oldest unconsumed signal of its name. All tasks read the same snapshot.
\<close>

definition dag_in :: "(dag_state \<Rightarrow> bool) \<Rightarrow> uuid option \<Rightarrow> pgDags \<Rightarrow> bool" where
  "dag_in c did g = list_ex (\<lambda>h. did = Some (hId h) \<and> c (hState h)) (map snd (gDags g))"

definition schedulable :: "dag_state \<Rightarrow> bool" where
  "schedulable st = (st = DAGRunning \<or> st = DAGCompensating)"

definition deliverableSignal :: "pgDags \<Rightarrow> pgJob \<Rightarrow> pgDagSignal option" where
  "deliverableSignal g r =
     (if rSource r = SourceDAG \<and> dag_in schedulable (rDagId r) g \<and> (waiting_signal r \<or> running_timer r)
      then (case sort_key (\<lambda>sg. (ibCreatedAt sg, ibId sg))
                   (filter (\<lambda>sg. rDagId r = Some (ibDagId sg) \<and> rSignalName r = Some (ibName sg) \<and> \<not> ibConsumed sg) (gInbox g)) of
              [] \<Rightarrow> None | sg # _ \<Rightarrow> Some sg)
      else None)"

definition pgDeliverBufferedSignals :: "pgDags \<Rightarrow> (pgDags, int) outcome" where
  "pgDeliverBufferedSignals g =
     (let now = gNow g;
          used = map ibId (List.map_filter (deliverableSignal g) (gRows g));
          hit = (\<lambda>r. deliverableSignal g r \<noteq> None);
          g1 = snd (task_update hit
                 (\<lambda>r. if waiting_signal r then signalSet (ibPayload (the (deliverableSignal g r))) now r else wakeSet now r) g);
          (n, g2) = consumeDAGSignal (\<lambda>i. i \<in> set used) g1
      in (Inr n, g2))"

section \<open>Promotion and timers\<close>

definition task_at :: "uuid option \<Rightarrow> string \<Rightarrow> (pgJob \<Rightarrow> bool) \<Rightarrow> pgDags \<Rightarrow> bool" where
  "task_at did key c g = list_ex (\<lambda>r. rDagId r = did \<and> rTaskKey r = Some key \<and> rSource r = SourceDAG \<and> c r) (gRows g)"

definition satisfies :: "bool \<Rightarrow> pgJob \<Rightarrow> bool" where
  "satisfies ignoreDead dep =
     (rState dep \<in> {StateSucceeded, StateSkipped} \<or> ignoreDead \<and> rState dep \<in> {StateDead, StateCancelled})"

definition unblockedRow :: "pgDags \<Rightarrow> pgJob \<Rightarrow> bool" where
  "unblockedRow g t =
     (rSource t = SourceDAG \<and> rState t = StateBlocked \<and> dag_in schedulable (rDagId t) g \<and>
      \<not> list_ex (\<lambda>(k, d). rDagId t = Some k \<and> rTaskKey t = Some (ddTaskKey d) \<and>
           \<not> task_at (Some k) (ddDependsOnKey d) (satisfies (rIgnoreDeadDeps t)) g) (gEdges g))"

definition timerSeconds :: "dagJson \<Rightarrow> pgJob \<Rightarrow> error + duration option" where
  "timerSeconds dj r = (case rPayload r of None \<Rightarrow> Inr None | Some b \<Rightarrow> sleepSeconds dj b)"

definition promoteSet :: "pgEnv \<Rightarrow> dagJson \<Rightarrow> time \<Rightarrow> pgJob \<Rightarrow> pgJob" where
  "promoteSet env dj now r =
     (if rKind r = KindSignal then r\<lparr>rState := StateWaiting, rUpdatedAt := now\<rparr>
      else if rKind r = KindSleep
      then r\<lparr>rState := StateScheduled, rUpdatedAt := now,
             rRunAt := now + make_interval env (case timerSeconds dj r of Inr (Some d) \<Rightarrow> d | _ \<Rightarrow> 0)\<rparr>
      else r\<lparr>rState := StatePending, rRunAt := now, rUpdatedAt := now\<rparr>)"

definition pgPromoteUnblocked :: "pgEnv \<Rightarrow> dagJson \<Rightarrow> pgDags \<Rightarrow> (pgDags, int) outcome" where
  "pgPromoteUnblocked env dj g =
     (if list_ex (\<lambda>r. unblockedRow g r \<and> rKind r = KindSleep \<and> isl (timerSeconds dj r)) (gRows g)
      then (Inl (OtherError ''azyncpgx: promote unblocked''), g)
      else
        let (rows, g1) = task_update (unblockedRow g) (promoteSet env dj (gNow g)) g;
            pending = map rKind (filter (\<lambda>r. rKind r \<noteq> KindSleep \<and> rKind r \<noteq> KindSignal) rows)
        in (Inr (int (length rows)), notifyDAGKinds pending g1))"

definition pgCompleteDueSleeps :: "pgDags \<Rightarrow> (pgDags, int) outcome" where
  "pgCompleteDueSleeps g =
     (let now = gNow g;
          (rows, g1) = task_update (\<lambda>r. rSource r = SourceDAG \<and> running_timer r \<and> rRunAt r \<le> now \<and>
               dag_in (\<lambda>st. st = DAGRunning) (rDagId r) g)
            (\<lambda>r. r\<lparr>rState := StateSucceeded, rCompletedAt := Some now, rUpdatedAt := now\<rparr>) g
      in (Inr (int (length rows)), g1))"

section \<open>Failure policy and compensation\<close>

text \<open>
  A dead task triggers the policy unless it has a dependent and every dependent
  tolerates its death.
\<close>

definition triggersPolicy :: "pgDags \<Rightarrow> uuid \<Rightarrow> string \<Rightarrow> bool" where
  "triggersPolicy g did key =
     (let ds = filter (\<lambda>(k, d). k = did \<and> ddDependsOnKey d = key) (gEdges g)
      in ds = [] \<or> list_ex (\<lambda>(k, d). \<not> task_at (Some k) (ddTaskKey d) rIgnoreDeadDeps g) ds)"

definition triggeringDeadTasks :: "pgDags \<Rightarrow> (uuid \<times> on_failure \<times> string) list" where
  "triggeringDeadTasks g =
     concat (map (\<lambda>h. map (\<lambda>r. (hId h, hOnFailure h, the_default [] (rTaskKey r)))
         (filter (\<lambda>r. task_of (hId h) r \<and> rState r = StateDead \<and> triggersPolicy g (hId h) (the_default [] (rTaskKey r)))
            (gRows g)))
       (filter (\<lambda>h. hState h = DAGRunning) (map snd (gDags g))))"

definition deadTasksReason :: "string list \<Rightarrow> string" where
  "deadTasksReason keys = ''dead tasks: '' @ join '', '' keys"

definition lockDAGForUpdate :: "uuid \<Rightarrow> pgDags \<Rightarrow> error + dag_state" where
  "lockDAGForUpdate did g =
     (case map_of (gDags g) did of None \<Rightarrow> Inl (OtherError ''azyncpgx: lock dag'') | Some h \<Rightarrow> Inr (hState h))"

definition remaining :: "job_state \<Rightarrow> bool" where
  "remaining st = (st \<in> {StatePending, StateScheduled, StateBlocked, StateWaiting, StatePaused})"

definition cancelRemainingTasks :: "uuid \<Rightarrow> pgDags \<Rightarrow> pgDags" where
  "cancelRemainingTasks did g =
     snd (task_update (\<lambda>r. task_of did r \<and> remaining (rState r))
            (\<lambda>r. r\<lparr>rState := StateCancelled, rCompletedAt := Some (gNow g), rUpdatedAt := gNow g\<rparr>) g)"

definition compensationCandidates :: "uuid \<Rightarrow> pgDags \<Rightarrow> pgJob list" where
  "compensationCandidates did g =
     sort_key (\<lambda>r. (- timeOf (rCompletedAt r), - rEnqueuedAt r, - int (rId r)))
       (filter (\<lambda>r. task_of did r \<and> rState r = StateSucceeded \<and> the_default [] (rCompensationKind r) \<noteq> [] \<and> \<not> comp_row r)
          (gRows g))"

definition compensationRow :: "pgJob \<Rightarrow> job_state \<Rightarrow> string \<Rightarrow> raw \<Rightarrow> time \<Rightarrow> uuid \<Rightarrow> pgJob" where
  "compensationRow orig state key payload now jid =
     \<lparr>rId = jid, rSource = SourceDAG, rKind = the_default [] (rCompensationKind orig), rState = state, rRunAt = now,
      rLeaseUntil = None, rLeaseToken = None, rAttempt = 0, rMaxAttempts = rMaxAttempts orig,
      rMaxAttemptsExplicit = rMaxAttemptsExplicit orig, rReapCount = 0, rPayload = payload, rMeta = rMeta orig,
      rIdempotencyKey = None, rCoalesceKey = None, rEventId = None, rReplay = False, rLastError = None,
      rEnqueuedAt = now, rFailedAt = None, rCompletedAt = None, rStartedAt = None, rUpdatedAt = now,
      rDagId = rDagId orig, rRunId = None, rTaskKey = Some key, rResult = None, rSignalName = None,
      rCompensationKind = None, rIgnoreDeadDeps = False, rSnoozeBudget = None, rDeadlineAt = None\<rparr>"

text \<open>One turn of the insertion loop; \<open>prev\<close> is the key of the turn before.\<close>

definition compensate_one ::
  "pgEnv \<Rightarrow> pgStore \<Rightarrow> uuid \<Rightarrow> pgJob \<Rightarrow> string option \<times> pgDags \<Rightarrow> (string option \<times> pgDags, unit) outcome" where
  "compensate_one env st did c pg =
     (let (prev, g) = pg;
          key = TaskKeyCompensationPrefix @ the_default [] (rTaskKey c);
          state = (if prev = None then StatePending else StateBlocked);
          payload = the_default None (map_of (gCompensation g) (rId c))
      in case insert_task_row env st (compensationRow c state key payload (gNow g)) None g of
           None \<Rightarrow> (Inl (OtherError (''azyncpgx: insert compensation '' @ key)), pg)
         | Some g1 \<Rightarrow>
             (case prev of
                None \<Rightarrow> (Inr (), (Some key, notifyDAGKinds [the_default [] (rCompensationKind c)] g1))
              | Some pk \<Rightarrow>
                  (case insertDep did \<lparr>ddTaskKey = key, ddDependsOnKey = pk\<rparr> g1 of
                     (Inl e, _) \<Rightarrow> (Inl e, pg) | (Inr _, g2) \<Rightarrow> (Inr (), (Some key, g2)))))"

definition insertCompensations :: "pgEnv \<Rightarrow> pgStore \<Rightarrow> uuid \<Rightarrow> pgDags \<Rightarrow> (pgDags, int) outcome" where
  "insertCompensations env st did g =
     (let existing = length (filter (\<lambda>r. task_of did r \<and> comp_row r) (gRows g))
      in if existing > 0 then (Inr (int existing), g)
         else
           let cs = compensationCandidates did g
           in case exec_all (compensate_one env st did) cs (None, g) of
                (Inl e, _) \<Rightarrow> (Inl e, g) | (Inr _, (_, g')) \<Rightarrow> (Inr (int (length cs)), g'))"

text \<open>
  The work both compensating operations share: cancel what has not started, insert the
  chain and settle the header, with the reason where there is one.
\<close>

definition compensateHeader ::
  "pgEnv \<Rightarrow> pgStore \<Rightarrow> uuid \<Rightarrow> string option \<Rightarrow> pgDags \<Rightarrow> (pgDags, unit) outcome" where
  "compensateHeader env st did reason g =
     (case insertCompensations env st did (cancelRemainingTasks did g) of
        (Inl e, _) \<Rightarrow> (Inl e, g)
      | (Inr comps, g1) \<Rightarrow>
          let now = gNow g;
              because = (\<lambda>h. case reason of None \<Rightarrow> h | Some why \<Rightarrow> h\<lparr>hFailureReason := Some why\<rparr>)
          in (Inr (),
              snd (dag_update (\<lambda>h. hId h = did)
                (\<lambda>h. if comps = 0
                     then (because h)\<lparr>hState := DAGFailed, hCompletedAt := Some now, hUpdatedAt := now\<rparr>
                     else (because h)\<lparr>hState := DAGCompensating, hUpdatedAt := now\<rparr>) g1)))"

definition apply_policy ::
  "pgEnv \<Rightarrow> pgStore \<Rightarrow> uuid \<times> on_failure \<times> string list \<Rightarrow> dagFailure list \<times> pgDags \<Rightarrow> (dagFailure list \<times> pgDags, unit) outcome" where
  "apply_policy env st act og =
     (let (out, g) = og; (did, policy, keys) = act;
          deadKeys = sort keys; reason = deadTasksReason deadKeys;
          failure = \<lparr>dflDAGID = did, dflPolicy = policy, dflDeadTasks = deadKeys\<rparr>
      in if policy = OnFailureSuspend
         then (case dag_update (\<lambda>h. hId h = did \<and> hState h = DAGRunning)
                      (\<lambda>h. h\<lparr>hState := DAGSuspended, hFailureReason := Some reason, hUpdatedAt := gNow g\<rparr>) g of
                 (n, g') \<Rightarrow> (Inr (), if n = 0 then (out, g') else (out @ [failure], g')))
         else (case lockDAGForUpdate did g of
                 Inl e \<Rightarrow> (Inl e, og)
               | Inr state \<Rightarrow>
                   if state \<noteq> DAGRunning then (Inr (), og)
                   else (case compensateHeader env st did (Some reason) g of
                           (Inl e, _) \<Rightarrow> (Inl e, og) | (Inr _, g') \<Rightarrow> (Inr (), (out @ [failure], g')))))"

text \<open>The acting DAGs, in the order of their ids, each with its dead keys.\<close>

definition actingDAGs :: "pgDags \<Rightarrow> (uuid \<times> on_failure \<times> string list) list" where
  "actingDAGs g =
     (let rows = triggeringDeadTasks g
      in map (\<lambda>did. (did, fst (the (map_of rows did)), map (snd \<circ> snd) (filter (\<lambda>row. fst row = did) rows)))
           (sort (remdups (map fst rows))))"

definition pgApplyFailurePolicy :: "pgEnv \<Rightarrow> pgStore \<Rightarrow> pgDags \<Rightarrow> (pgDags, dagFailure list) outcome" where
  "pgApplyFailurePolicy env st g =
     (case exec_all (apply_policy env st) (actingDAGs g) ([], g) of
        (Inl e, _) \<Rightarrow> (Inl e, g) | (Inr _, (out, g')) \<Rightarrow> (Inr out, g'))"

section \<open>Completion\<close>

definition dagRows :: "pgDag \<Rightarrow> pgDags \<Rightarrow> pgJob list" where
  "dagRows h g = filter (task_of (hId h)) (gRows g)"

definition completeRunningSucceeded :: "pgDags \<Rightarrow> int \<times> pgDags" where
  "completeRunningSucceeded g =
     dag_update (\<lambda>h. hState h = DAGRunning \<and> dagRows h g \<noteq> [] \<and>
         list_all (\<lambda>r. rState r \<in> {StateSucceeded, StateSkipped}) (dagRows h g))
       (\<lambda>h. h\<lparr>hState := DAGSucceeded, hCompletedAt := Some (gNow g), hUpdatedAt := gNow g\<rparr>) g"

definition completeRunningFailed :: "pgDags \<Rightarrow> int \<times> pgDags" where
  "completeRunningFailed g =
     (let dead = (\<lambda>h. filter (\<lambda>r. rState r = StateDead) (dagRows h g)) in
      dag_update (\<lambda>h. hState h = DAGRunning \<and> dead h \<noteq> [] \<and>
          list_all (\<lambda>r. rState r \<in> {StateSucceeded, StateSkipped, StateDead}) (dagRows h g) \<and>
          \<not> list_ex (\<lambda>r. triggersPolicy g (hId h) (the_default [] (rTaskKey r))) (dead h))
        (\<lambda>h. h\<lparr>hState := DAGFailed,
               hFailureReason := Some (deadTasksReason (sort (map (\<lambda>r. the_default [] (rTaskKey r)) (dead h)))),
               hCompletedAt := Some (gNow g), hUpdatedAt := gNow g\<rparr>) g)"

definition completeCompensatingSuspend :: "pgDags \<Rightarrow> int \<times> pgDags" where
  "completeCompensatingSuspend g =
     dag_update (\<lambda>h. hState h = DAGCompensating \<and> \<not> hCancelRequested h \<and>
         list_ex (\<lambda>r. comp_row r \<and> rState r = StateDead) (dagRows h g))
       (\<lambda>h. h\<lparr>hState := DAGSuspended, hUpdatedAt := gNow g\<rparr>) g"

definition completeCompensatingSettle :: "pgDags \<Rightarrow> int \<times> pgDags" where
  "completeCompensatingSettle g =
     dag_update (\<lambda>h. hState h = DAGCompensating \<and> list_ex comp_row (dagRows h g) \<and>
         list_all (\<lambda>r. comp_row r \<longrightarrow> rState r \<in> {StateSucceeded, StateCancelled, StateDead}) (dagRows h g))
       (\<lambda>h. h\<lparr>hState := (if hCancelRequested h then DAGCancelled else DAGFailed), hCompletedAt := Some (gNow g),
              hUpdatedAt := gNow g\<rparr>) g"

definition pgCompleteDAGs :: "pgDags \<Rightarrow> (pgDags, int) outcome" where
  "pgCompleteDAGs g =
     (let (n1, g1) = completeRunningSucceeded g;
          (n2, g2) = completeRunningFailed g1;
          (n3, g3) = completeCompensatingSuspend g2;
          (n4, g4) = completeCompensatingSettle g3
      in (Inr (n1 + n2 + n3 + n4), g4))"

section \<open>Results\<close>

definition pgTaskResults :: "uuid \<Rightarrow> string list \<Rightarrow> pgDags \<Rightarrow> (string \<times> taskResult) list" where
  "pgTaskResults did keys g =
     fold (\<lambda>r out. let skipped = (rState r = StateSkipped)
                    in AList.update (the_default [] (rTaskKey r))
                         \<lparr>trResult = (if skipped then None else rResult r), trSkipped = skipped\<rparr> out)
       (filter (\<lambda>r. task_of did r \<and> rState r \<in> {StateSucceeded, StateSkipped} \<and>
                    (keys = [] \<or> the_default [] (rTaskKey r) \<in> set keys)) (gRows g)) []"

definition ackResultSet :: "raw \<Rightarrow> time \<Rightarrow> pgJob \<Rightarrow> pgJob" where
  "ackResultSet result now r =
     (unleased r)\<lparr>rState := StateSucceeded, rResult := result, rCompletedAt := Some now, rUpdatedAt := now\<rparr>"

definition pgAckTaskResult :: "pgEnv \<Rightarrow> pgStore \<Rightarrow> uuid \<Rightarrow> uuid \<Rightarrow> raw \<Rightarrow> pgdb \<Rightarrow> (pgdb, unit) outcome" where
  "pgAckTaskResult env st jid tok result db =
     (case cast_jsonb env (nullableRawJSON result) of
        None \<Rightarrow> (Inl (OtherError ''azyncpgx: ack task result''), db)
      | Some stored \<Rightarrow>
          failTransition ''ack task result''
            (chained_sql env st jid tok (ackResultSet stored (pgNow db)) (\<lambda>_. True) None statProcessed) db)"

section \<open>Listings\<close>

definition scanDAGView :: "pgDag \<Rightarrow> dagView" where
  "scanDAGView h =
     \<lparr>wID = hId h, wName = hName h, wState = hState h, wOnFailure = hOnFailure h,
      wIdempotencyKey = the_default [] (hIdempotencyKey h), wFailureReason = the_default [] (hFailureReason h),
      wMeta = decodeMeta (hMeta h), wCreatedAt = hCreatedAt h, wUpdatedAt = hUpdatedAt h,
      wCompletedAt = timeOf (hCompletedAt h)\<rparr>"

definition pgGetDAG :: "uuid \<Rightarrow> pgDags \<Rightarrow> error + dagView" where
  "pgGetDAG did g =
     (case filter (\<lambda>h. hId h = did) (map snd (gDags g)) of
        [] \<Rightarrow> Inl (NotFound ''get dag'') | h # _ \<Rightarrow> Inr (scanDAGView h))"

definition pgListDAGs :: "dagFilter \<Rightarrow> int \<Rightarrow> int \<Rightarrow> pgDags \<Rightarrow> dagView list \<times> int" where
  "pgListDAGs flt offset limit g =
     (let rows = filter (\<lambda>h. (dfName flt \<noteq> [] \<longrightarrow> hName h = dfName flt) \<and>
                              (case dfState flt of None \<Rightarrow> True | Some st \<Rightarrow> hState h = st)) (map snd (gDags g));
          start = (if offset < 0 then 0 else offset)
      in (map scanDAGView (sql_page start (limitArg limit) (sort_key (\<lambda>h. (- hCreatedAt h, - int (hId h))) rows)),
          int (length rows)))"

definition requireDAG :: "string \<Rightarrow> uuid \<Rightarrow> pgDags \<Rightarrow> error option" where
  "requireDAG opn did g = (if list_ex (\<lambda>h. hId h = did) (map snd (gDags g)) then None else Some (NotFound opn))"

definition pgDAGTasks :: "pgEnv \<Rightarrow> uuid \<Rightarrow> pgDags \<Rightarrow> error + job list" where
  "pgDAGTasks env did g =
     (case requireDAG ''dag tasks'' did g of
        Some e \<Rightarrow> Inl e
      | None \<Rightarrow> Inr (map (pgToJob env) (sort_key (\<lambda>r. (rEnqueuedAt r, rId r)) (filter (task_of did) (gRows g)))))"

definition pgDAGDeps :: "uuid \<Rightarrow> pgDags \<Rightarrow> dagDep list" where
  "pgDAGDeps did g =
     sort_key (\<lambda>d. (ddTaskKey d, ddDependsOnKey d)) (map snd (filter (\<lambda>(k, d). k = did) (gEdges g)))"

text \<open>\<open>GROUP BY\<close> two columns, read into a map of maps.\<close>

definition group_count :: "('x \<Rightarrow> 'k \<times> 's) \<Rightarrow> 'x list \<Rightarrow> ('k \<times> ('s \<times> int) list) list" where
  "group_count col rows =
     fold (\<lambda>(k, s) out. AList.update k
             (AList.update s (int (length (filter (\<lambda>x. col x = (k, s)) rows))) (the_default [] (map_of out k))) out)
       (remdups (map col rows)) []"

definition pgDAGNameStateCounts :: "pgDags \<Rightarrow> (string \<times> (dag_state \<times> int) list) list" where
  "pgDAGNameStateCounts g = group_count (\<lambda>h. (hName h, hState h)) (map snd (gDags g))"

definition pgDAGTaskCounts :: "uuid list \<Rightarrow> pgDags \<Rightarrow> (uuid \<times> (job_state \<times> int) list) list" where
  "pgDAGTaskCounts ids g =
     (if ids = [] then []
      else group_count (\<lambda>r. (toUUID (rDagId r), rState r))
             (filter (\<lambda>r. rSource r = SourceDAG \<and> (case rDagId r of None \<Rightarrow> False | Some k \<Rightarrow> k \<in> set ids)) (gRows g)))"

definition pgFindDAGByKey :: "string \<Rightarrow> string \<Rightarrow> pgDags \<Rightarrow> error + uuid" where
  "pgFindDAGByKey name key g =
     (case find (dag_holder name key) (map snd (gDags g)) of
        None \<Rightarrow> Inl (NotFound ''find dag by key'') | Some h \<Rightarrow> Inr (hId h))"

section \<open>Manager verbs\<close>

definition requireNonTerminalDAG :: "string \<Rightarrow> uuid \<Rightarrow> pgDags \<Rightarrow> error + bool" where
  "requireNonTerminalDAG opn did g =
     (case map_of (gDags g) did of
        None \<Rightarrow> Inl (NotFound opn)
      | Some h \<Rightarrow> if isTerminalDAGState (hState h) then Inl (NotFound opn)
                  else Inr (list_ex (\<lambda>r. task_of did r \<and> comp_row r) (gRows g)))"

definition resetSet :: "time \<Rightarrow> pgJob \<Rightarrow> pgJob" where
  "resetSet now r =
     r\<lparr>rState := StatePending, rRunAt := now, rAttempt := 0, rReapCount := 0, rLastError := None, rFailedAt := None,
       rDeadlineAt := None, rStartedAt := None, rUpdatedAt := now\<rparr>"

definition unpauseSet :: "time \<Rightarrow> pgJob \<Rightarrow> pgJob" where
  "unpauseSet now r =
     r\<lparr>rState := (if rRunAt r \<le> now then StatePending else StateScheduled), rDeadlineAt := None, rUpdatedAt := now\<rparr>"

definition resumeDAGSet :: "bool \<Rightarrow> time \<Rightarrow> pgDag \<Rightarrow> pgDag" where
  "resumeDAGSet hasComps now h =
     (let stopped = (hState h = DAGSuspended \<or> hState h = DAGPaused)
      in h\<lparr>hState := (if stopped then if hasComps then DAGCompensating else DAGRunning else hState h),
           hFailureReason := (if stopped \<and> \<not> hasComps then None else hFailureReason h), hUpdatedAt := now\<rparr>)"

definition pgRetryDAG :: "uuid \<Rightarrow> pgDags \<Rightarrow> (pgDags, unit) outcome" where
  "pgRetryDAG did g =
     (case requireNonTerminalDAG ''retry dag'' did g of
        Inl e \<Rightarrow> (Inl e, g)
      | Inr hasComps \<Rightarrow>
          let now = gNow g;
              (dead, g1) = task_update (\<lambda>r. task_of did r \<and> rState r = StateDead \<and> (\<not> hasComps \<or> comp_row r)) (resetSet now) g;
              (released, g2) = task_update (\<lambda>r. task_of did r \<and> rState r = StatePaused) (unpauseSet now) g1;
              g3 = snd (dag_update (\<lambda>h. hId h = did) (resumeDAGSet hasComps now) g2)
          in (Inr (), notifyDAGKinds (map rKind dead @ map rKind (filter (\<lambda>r. rRunAt r \<le> now) released)) g3))"

definition pgPauseDAG :: "uuid \<Rightarrow> string \<Rightarrow> pgDags \<Rightarrow> (pgDags, unit) outcome" where
  "pgPauseDAG did reason g =
     (case map_of (gDags g) did of
        None \<Rightarrow> (Inl (NotFound ''pause dag''), g)
      | Some h \<Rightarrow>
          if hState h \<noteq> DAGRunning then (Inl (NotFound ''pause dag''), g)
          else
            let now = gNow g;
                g1 = snd (dag_update (\<lambda>h. hId h = did \<and> hState h = DAGRunning)
                       (\<lambda>h. h\<lparr>hState := DAGPaused, hFailureReason := Some reason, hUpdatedAt := now\<rparr>) g);
                g2 = snd (task_update (\<lambda>r. task_of did r \<and> (rState r = StatePending \<or> rState r = StateScheduled))
                       (\<lambda>r. r\<lparr>rState := StatePaused, rUpdatedAt := now\<rparr>) g1)
            in (Inr (), g2))"

definition pgCompensateDAG :: "pgEnv \<Rightarrow> pgStore \<Rightarrow> uuid \<Rightarrow> pgDags \<Rightarrow> (pgDags, unit) outcome" where
  "pgCompensateDAG env st did g =
     (case map_of (gDags g) did of
        None \<Rightarrow> (Inl (NotFound ''compensate dag''), g)
      | Some h \<Rightarrow>
          if hState h \<noteq> DAGRunning \<and> hState h \<noteq> DAGSuspended \<and> hState h \<noteq> DAGPaused
          then (Inl (NotFound ''compensate dag''), g)
          else compensateHeader env st did None g)"

definition cancelSet :: "time \<Rightarrow> pgDag \<Rightarrow> pgDag" where
  "cancelSet now h =
     h\<lparr>hCancelRequested := True, hState := (if hState h = DAGCompensating then hState h else DAGCancelled),
       hCompletedAt := (if hState h = DAGCompensating then hCompletedAt h else Some now), hUpdatedAt := now\<rparr>"

definition pgCancelDAG :: "uuid \<Rightarrow> pgDags \<Rightarrow> (pgDags, unit) outcome" where
  "pgCancelDAG did g =
     (case map_of (gDags g) did of
        None \<Rightarrow> (Inl (NotFound ''cancel dag''), g)
      | Some h \<Rightarrow>
          if isTerminalDAGState (hState h) then (Inl (NotFound ''cancel dag''), g)
          else (Inr (), cancelRemainingTasks did (snd (dag_update (\<lambda>h. hId h = did) (cancelSet (gNow g)) g))))"

definition pgVacuumDAGs :: "pgEnv \<Rightarrow> duration \<Rightarrow> pgDags \<Rightarrow> (pgDags, int) outcome" where
  "pgVacuumDAGs env retention g =
     (if retention \<le> 0 then (Inr 0, g)
      else
        let old = (\<lambda>h. isTerminalDAGState (hState h) \<and>
                       (case hCompletedAt h of None \<Rightarrow> False | Some t \<Rightarrow> t < gNow g - make_interval env retention));
            gone = map hId (filter old (map snd (gDags g)));
            lost = (\<lambda>r. case rDagId r of None \<Rightarrow> False | Some k \<Rightarrow> k \<in> set gone)
        in (Inr (int (length gone)),
            g\<lparr>gDags := filter (\<lambda>(k, h). \<not> old h) (gDags g), gEdges := filter (\<lambda>(k, d). k \<notin> set gone) (gEdges g),
              gInbox := filter (\<lambda>sg. ibDagId sg \<notin> set gone) (gInbox g),
              gCompensation := filter (\<lambda>(k, c). k \<notin> set (map rId (filter lost (gRows g)))) (gCompensation g),
              gDb := snd (sql_delete lost (gDb g))\<rparr>))"

end
