(* ===== verification/Pg_Dag_Agree.thy ===== *)
theory Pg_Dag_Agree
  imports Pg_Dag
begin

text \<open>
  The PostgreSQL store and the in-memory store run DAGs alike: the relation between the
  tables of \<open>Pg_Dag\<close> and the maps of \<open>Fake_Dag\<close>, a simulation for each operation, and
  runs of both side by side.
\<close>

section \<open>The relation\<close>

definition sig_rel :: "pgDagSignal \<Rightarrow> fakeDAGSignal \<Rightarrow> bool" where
  "sig_rel a b =
     (ibId a = sgID b \<and> ibName a = fakeDAGSignal.sgName b \<and> ibMessageId a = nullableKey (sgMessageID b) \<and>
      ibPayload a = fakeDAGSignal.sgPayload b \<and> ibConsumed a = fakeDAGSignal.sgConsumed b \<and>
      ibCreatedAt a = fakeDAGSignal.sgCreatedAt b)"

definition dag_rel :: "pgDags \<Rightarrow> uuid \<Rightarrow> pgDag \<Rightarrow> fakeDAG \<Rightarrow> bool" where
  "dag_rel g did h w =
     (did \<noteq> Nil_uuid \<and> hId h = did \<and> wID w = did \<and> scanDAGView h = Fake_Dag.cloneView w \<and>
      hIdempotencyKey h = nullableKey (wIdempotencyKey w) \<and> hCancelRequested h = cancelRequested w \<and>
      map snd (filter (\<lambda>(k, d). k = did) (gEdges g)) = deps w \<and>
      list_all2 sig_rel (filter (\<lambda>sg. ibDagId sg = did) (gInbox g)) (signals w))"

text \<open>
  The tasks: exactly the jobs with a DAG are tasks; a task has a key, belongs to a header
  and has its meta, and a timer carries its duration. No two tasks of a DAG share a key,
  and no two live DAGs of a name share an idempotency key.
\<close>

definition task_ok :: "dagJson \<Rightarrow> fake \<Rightarrow> fakeJob \<Rightarrow> bool" where
  "task_ok dj f j =
     ((jDAGID j \<noteq> Nil_uuid) = (jSource j = SourceDAG) \<and>
      (jSource j = SourceDAG \<longrightarrow> jTaskKey j \<noteq> [] \<and> jCompensationKind j \<noteq> KindSleep \<and>
         (\<exists>w. map_of (dags f) (jDAGID j) = Some w \<and> cloneMeta (jMeta j) = cloneMeta (wMeta w)) \<and>
         (jKind j = KindSleep \<longrightarrow> jPayload j = Some (sleepEnc dj (sleepFor j)) \<and> whole (sleepFor j))))"

definition tasks_ok :: "dagJson \<Rightarrow> fake \<Rightarrow> bool" where
  "tasks_ok dj f = (\<forall>k j. map_of (jobs f) k = Some j \<longrightarrow> task_ok dj f j)"

definition one_task :: "fake \<Rightarrow> bool" where
  "one_task f =
     (\<forall>k a k' b. map_of (jobs f) k = Some a \<and> map_of (jobs f) k' = Some b \<and> jSource a = SourceDAG \<and>
        jSource b = SourceDAG \<and> jDAGID a = jDAGID b \<and> jTaskKey a = jTaskKey b \<longrightarrow> k = k')"

definition one_live :: "fake \<Rightarrow> bool" where
  "one_live f =
     (\<forall>k v k' w name key. map_of (dags f) k = Some v \<and> map_of (dags f) k' = Some w \<and> key \<noteq> [] \<and>
        live_dag name key v \<and> live_dag name key w \<longrightarrow> k = k')"

definition undo_ok :: "fake \<Rightarrow> pgDags \<Rightarrow> bool" where
  "undo_ok f g =
     (\<forall>k j. map_of (jobs f) k = Some j \<and> jSource j = SourceDAG \<longrightarrow>
        the_default None (map_of (gCompensation g) k) = compensationPayload j)"

definition rows_owned :: "pgDags \<Rightarrow> bool" where
  "rows_owned g =
     (list_all (\<lambda>(k, d). map_of (gDags g) k \<noteq> None) (gEdges g) \<and>
      list_all (\<lambda>sg. map_of (gDags g) (ibDagId sg) \<noteq> None) (gInbox g))"

definition headers_rel :: "fake \<Rightarrow> pgDags \<Rightarrow> bool" where
  "headers_rel f g = (\<forall>did. rel_option (dag_rel g did) (map_of (gDags g) did) (map_of (dags f) did))"

definition json_ok :: "dagJson \<Rightarrow> bool" where
  "json_ok dj = (\<forall>d. whole d \<longrightarrow> sleepSeconds dj (sleepEnc dj d) = Inr (Some d))"

definition dsim :: "pgEnv \<Rightarrow> dagJson \<Rightarrow> fake \<Rightarrow> pgDags \<Rightarrow> bool" where
  "dsim env dj f g =
     (json_ok dj \<and> sim env f (gDb g) \<and> wf_dags f \<and> distinct_keys (gDags g) \<and> headers_rel f g \<and> tasks_ok dj f \<and>
      one_task f \<and> one_live f \<and> undo_ok f g \<and> rows_owned g)"

lemma dsimD:
  assumes "dsim env dj f g"
  shows "json_ok dj" "sim env f (gDb g)" "wf_dags f" "distinct_keys (gDags g)" "headers_rel f g" "tasks_ok dj f"
    "one_task f" "one_live f" "undo_ok f g" "rows_owned g" "wf_jobs f" "clock f = gNow g"
  using assms by (auto simp: dsim_def dest: simD wf_dagsD)

lemma dsim_headers [consumes 1]:
  assumes "dsim env dj f g"
  obtains (none) "map_of (gDags g) did = None" "map_of (dags f) did = None"
  | (header) h w where "map_of (gDags g) did = Some h" "map_of (dags f) did = Some w" "dag_rel g did h w"
proof -
  have "rel_option (dag_rel g did) (map_of (gDags g) did) (map_of (dags f) did)"
    using dsimD(5) [OF assms] by (simp add: headers_rel_def)
  then show thesis by (cases rule: option.rel_cases) (auto intro: none header)
qed

lemma dag_relD:
  assumes "dag_rel g did h w"
  shows "did \<noteq> Nil_uuid" "hId h = did" "wID w = did" "hState h = wState w" "hName h = wName w" "hOnFailure h = wOnFailure w"
    "hIdempotencyKey h = nullableKey (wIdempotencyKey w)" "hCancelRequested h = cancelRequested w"
    "map snd (filter (\<lambda>(k, d). k = did) (gEdges g)) = deps w"
    "list_all2 sig_rel (filter (\<lambda>sg. ibDagId sg = did) (gInbox g)) (signals w)"
    "decodeMeta (hMeta h) = cloneMeta (wMeta w)" "hCreatedAt h = wCreatedAt w" "timeOf (hCompletedAt h) = wCompletedAt w"
    "scanDAGView h = Fake_Dag.cloneView w"
proof -
  have eq: "scanDAGView h = Fake_Dag.cloneView w" using assms by (simp add: dag_rel_def)
  note defs = scanDAGView_def Fake_Dag.cloneView_def dagView.truncate_def
  from arg_cong [OF eq, of wState] show "hState h = wState w" by (simp add: defs)
  from arg_cong [OF eq, of wName] show "hName h = wName w" by (simp add: defs)
  from arg_cong [OF eq, of wOnFailure] show "hOnFailure h = wOnFailure w" by (simp add: defs)
  from arg_cong [OF eq, of wMeta] show "decodeMeta (hMeta h) = cloneMeta (wMeta w)" by (simp add: defs)
  from arg_cong [OF eq, of wCreatedAt] show "hCreatedAt h = wCreatedAt w" by (simp add: defs)
  from arg_cong [OF eq, of wCompletedAt] show "timeOf (hCompletedAt h) = wCompletedAt w" by (simp add: defs)
qed (use assms in \<open>simp_all add: dag_rel_def\<close>)

lemma row_rel_task:
  assumes "row_rel env evs r j"
  shows "jPayload j = rPayload r" "cloneMeta (jMeta j) = decodeMeta (rMeta r)" "jTaskKey j = the_default [] (rTaskKey r)"
    "jSignalName j = the_default [] (rSignalName r)" "jCompensationKind j = the_default [] (rCompensationKind r)"
    "jIgnoreDeadDeps j = rIgnoreDeadDeps r" "jResult j = rResult r" "jMaxAttempts j = rMaxAttempts r"
    "maxAttemptsExplicit j = rMaxAttemptsExplicit r"
proof -
  from assms have "pgToJob env r = toJob j" by (simp add: row_rel_def)
  note eq = this [symmetric, unfolded pgToJob_def toJob_def job.truncate_def clonePayload_def]
  from eq show "jPayload j = rPayload r" "cloneMeta (jMeta j) = decodeMeta (rMeta r)" "jTaskKey j = the_default [] (rTaskKey r)"
    "jSignalName j = the_default [] (rSignalName r)" "jCompensationKind j = the_default [] (rCompensationKind r)"
    "jIgnoreDeadDeps j = rIgnoreDeadDeps r" "jResult j = rResult r" "jMaxAttempts j = rMaxAttempts r" by simp_all
  show "maxAttemptsExplicit j = rMaxAttemptsExplicit r" using assms by (simp add: row_rel_def)
qed

text \<open>Related rows and jobs are the same task.\<close>

lemma same_task:
  assumes rel: "row_rel env evs r j" and ok: "task_ok dj f j"
  shows "task_of did r = dag_of did j" "jSource j = SourceDAG \<Longrightarrow> rDagId r = Some (jDAGID j)"
    "jSource j = SourceDAG \<Longrightarrow> rTaskKey r = Some (jTaskKey j)" "rDagId r = Some did \<Longrightarrow> rSource r = SourceDAG \<and> jDAGID j = did"
    "jSource j = SourceDAG \<Longrightarrow> comp_row r = is_comp j"
    "name \<noteq> [] \<Longrightarrow> rSignalName r = Some name \<longleftrightarrow> jSignalName j = name"
proof -
  note D = row_relD [OF rel] and T = row_rel_task [OF rel]
  have dag: "rDagId r \<noteq> Some Nil_uuid" using D(15) by (simp add: row_ok_def)
  show id: "rDagId r = Some (jDAGID j)" if "jSource j = SourceDAG"
    using that ok D(12) by (cases "rDagId r") (auto simp: task_ok_def toUUID_def)
  show "rSource r = SourceDAG \<and> jDAGID j = did" if "rDagId r = Some did"
    using that ok D(2,12) dag by (auto simp: task_ok_def toUUID_def)
  then show "task_of did r = dag_of did j" using id D(2) by (auto simp: task_of_def dag_of_def)
  show key: "rTaskKey r = Some (jTaskKey j)" if "jSource j = SourceDAG"
    using that ok T(3) by (cases "rTaskKey r") (auto simp: task_ok_def)
  then show "comp_row r = is_comp j" if "jSource j = SourceDAG" using that by (simp add: comp_row_def is_comp_def)
  show "rSignalName r = Some name \<longleftrightarrow> jSignalName j = name" if "name \<noteq> []"
    using that T(4) by (cases "rSignalName r") auto
qed

text \<open>A statement that looks for a row finds one exactly when the map has the job.\<close>

lemma rows_ex: "pg_keyed db \<Longrightarrow> list_ex c (map snd (pgJobs db)) \<longleftrightarrow> (\<exists>k r. tab db k = Some r \<and> c r)"
  using in_rows [of db] pg_keyedD(2) [of db] by (force simp: list_ex_iff image_iff)

lemma dsim_ex:
  assumes ds: "dsim env dj f g" and same: "\<And>r j. row_rel env (events f) r j \<Longrightarrow> task_ok dj f j \<Longrightarrow> c r \<longleftrightarrow> C j"
  shows "list_ex c (gRows g) \<longleftrightarrow> (\<exists>k j. map_of (jobs f) k = Some j \<and> C j)"
proof -
  note sim = dsimD(2) [OF ds]
  have ok: "task_ok dj f j" if "map_of (jobs f) k = Some j" for k j using that dsimD(6) [OF ds] by (simp add: tasks_ok_def)
  show ?thesis unfolding rows_ex [OF simD(9) [OF sim]] using sim_get [OF sim] same ok by metis
qed

lemma dagTask_iff:
  assumes wf: "wf_jobs f" and one: "one_task f"
  shows "(case dagTaskLocked did key f of None \<Rightarrow> False | Some j \<Rightarrow> C j) \<longleftrightarrow>
    (\<exists>k j. map_of (jobs f) k = Some j \<and> dag_of did j \<and> jTaskKey j = key \<and> C j)"
proof (cases "dagTaskLocked did key f")
  case None
  then have "\<not> (dag_of did j \<and> jTaskKey j = key)" if "map_of (jobs f) k = Some j" for k j
    using that map_of_SomeD [OF that] by (force simp: dagTaskLocked_def find_None_iff)
  with None show ?thesis by auto
next
  case (Some j0)
  then have "j0 \<in> snd ` set (jobs f)" and j0: "dag_of did j0" "jTaskKey j0 = key"
    using find_SomeD [of "\<lambda>j. dag_of did j \<and> jTaskKey j = key" "map snd (jobs f)" j0] by (auto simp: dagTaskLocked_def)
  then have at: "map_of (jobs f) (jID j0) = Some j0" using in_jobs [OF wf] by blast
  have "j = j0" if "map_of (jobs f) k = Some j" "dag_of did j" "jTaskKey j = key" for k j
  proof -
    have "k = jID j0" by (rule one [unfolded one_task_def, rule_format, of k j "jID j0" j0]) (use at j0 that in \<open>simp add: dag_of_def\<close>)
    with at that(1) show ?thesis by simp
  qed
  then have "(\<exists>k j. map_of (jobs f) k = Some j \<and> dag_of did j \<and> jTaskKey j = key \<and> C j) \<longleftrightarrow> C j0"
    using at j0 by metis
  with Some show ?thesis by simp
qed

lemma task_at_iff:
  assumes ds: "dsim env dj f g" and same: "\<And>r j. row_rel env (events f) r j \<Longrightarrow> c r \<longleftrightarrow> C j"
  shows "task_at (Some did) key c g \<longleftrightarrow> (case dagTaskLocked did key f of None \<Rightarrow> False | Some j \<Rightarrow> C j)"
  unfolding task_at_def dagTask_iff [OF dsimD(11) [OF ds] dsimD(7) [OF ds]]
proof (subst dsim_ex [OF ds, where C = "\<lambda>j. dag_of did j \<and> jTaskKey j = key \<and> C j"])
  fix r j assume R: "row_rel env (events f) r j" "task_ok dj f j"
  show "(rDagId r = Some did \<and> rTaskKey r = Some key \<and> rSource r = SourceDAG \<and> c r) \<longleftrightarrow> (dag_of did j \<and> jTaskKey j = key \<and> C j)"
    using same_task [OF R] same [OF R(1)] row_relD(2) [OF R(1)] by (auto simp: dag_of_def)
qed auto

lemma dag_in_iff:
  assumes ds: "dsim env dj f g"
  shows "dag_in c (Some did) g \<longleftrightarrow> (case map_of (dags f) did of None \<Rightarrow> False | Some w \<Rightarrow> c (wState w))"
proof -
  have ids: "hId h = k" if "(k, h) \<in> set (gDags g)" for k h
    using ds map_of_is_SomeI [OF dsimD(4) [OF ds] that] by (cases rule: dsim_headers [where did = k]) (auto dest: dag_relD)
  have "dag_in c (Some did) g \<longleftrightarrow> (\<exists>h. (did, h) \<in> set (gDags g) \<and> c (hState h))"
    unfolding dag_in_def list_ex_iff using ids by force
  also have "\<dots> \<longleftrightarrow> (case map_of (gDags g) did of None \<Rightarrow> False | Some h \<Rightarrow> c (hState h))"
    using map_of_in_set [OF dsimD(4) [OF ds]] by (auto split: option.split)
  finally have eq: "dag_in c (Some did) g \<longleftrightarrow> (case map_of (gDags g) did of None \<Rightarrow> False | Some h \<Rightarrow> c (hState h))" .
  from ds show ?thesis by (cases rule: dsim_headers [where did = did]) (auto simp: eq dest: dag_relD)
qed

section \<open>Steps that keep the tasks\<close>

definition task_kept :: "fakeJob \<Rightarrow> fakeJob \<Rightarrow> bool" where
  "task_kept a b =
     (jSource b = jSource a \<and> jKind b = jKind a \<and> jDAGID b = jDAGID a \<and> jTaskKey b = jTaskKey a \<and> jMeta b = jMeta a \<and>
      jPayload b = jPayload a \<and> compensationPayload b = compensationPayload a \<and> jCompensationKind b = jCompensationKind a \<and>
      sleepFor b = sleepFor a)"

definition jobs_kept :: "fake \<Rightarrow> fake \<Rightarrow> bool" where
  "jobs_kept f f' = (\<forall>k b. map_of (jobs f') k = Some b \<longrightarrow> (\<exists>a. map_of (jobs f) k = Some a \<and> task_kept a b))"

lemma task_kept_refl [simp]: "task_kept a a"
  by (simp add: task_kept_def)

lemma task_kept_trans: "task_kept a b \<Longrightarrow> task_kept b c \<Longrightarrow> task_kept a c"
  by (simp add: task_kept_def)

lemma jobs_kept_refl: "jobs f' = jobs f \<Longrightarrow> jobs_kept f f'"
  by (simp add: jobs_kept_def)

lemma jobs_kept_trans: "jobs_kept a b \<Longrightarrow> jobs_kept b c \<Longrightarrow> jobs_kept a c"
  unfolding jobs_kept_def using task_kept_trans by blast

lemma jobs_kept_revival: "no_revival f f' \<Longrightarrow> jobs_kept f f'"
  by (force simp: no_revival_def jobs_kept_def kept_def task_kept_def)

lemma jobs_kept_pass:
  assumes "\<And>k. map_of (jobs f') k = map_option (\<lambda>j. if P j then F j else j) (map_of (jobs f) k)"
    and "\<And>j. P j \<Longrightarrow> task_kept j (F j)"
  shows "jobs_kept f f'"
  using assms by (auto simp: jobs_kept_def)

lemma one_live_evolves:
  assumes one: "one_live f" and ev: "dag_evolves f f'"
  shows "one_live f'"
  unfolding one_live_def
proof (intro allI impI, elim conjE)
  have was: "\<exists>v. map_of (dags f) k = Some v \<and> live_dag name key v"
    if at: "map_of (dags f') k = Some v'" and live: "live_dag name key v'" for k v' name key
  proof -
    obtain v where v: "map_of (dags f) k = Some v" using at dag_evolves_None [OF ev, of k] by fastforce
    with dag_evolves_Some [OF ev v] at have "header_kept v v'" by auto
    with live v show ?thesis by (auto simp: live_dag_def header_kept_def terminal_iff)
  qed
  fix k v k' w name key
  assume at: "map_of (dags f') k = Some v" "map_of (dags f') k' = Some w" and key: "key \<noteq> []"
    and live: "live_dag name key v" "live_dag name key w"
  from was [OF at(1) live(1)] was [OF at(2) live(2)] obtain v0 w0 where
    "map_of (dags f) k = Some v0" "live_dag name key v0" "map_of (dags f) k' = Some w0" "live_dag name key w0" by blast
  with key show "k = k'" by (intro one [unfolded one_live_def, rule_format, of k v0 k' w0 key name]) simp
qed

lemma dag_rel_cong: "dag_rel (g\<lparr>gDb := db\<rparr>) = dag_rel g" "dag_rel (g\<lparr>gDags := ds\<rparr>) = dag_rel g" "dag_rel (g\<lparr>gCompensation := cs\<rparr>) = dag_rel g"
  by (simp_all add: dag_rel_def fun_eq_iff)

lemma dsim_step:
  assumes ds: "dsim env dj f g" and sim: "sim env f' (gDb g')" and wf: "wf_dags f'" and ev: "dag_evolves f f'"
    and rel: "headers_rel f' g'" "distinct_keys (gDags g')" "rows_owned g'"
    and kept: "jobs_kept f f'" and undo: "gCompensation g' = gCompensation g"
  shows "dsim env dj f' g'"
proof -
  have job: "\<exists>a. map_of (jobs f) k = Some a \<and> task_kept a b" if "map_of (jobs f') k = Some b" for k b
    using kept that by (simp add: jobs_kept_def)
  have "task_ok dj f' b" if b: "map_of (jobs f') k = Some b" for k b
  proof -
    obtain a where a: "map_of (jobs f) k = Some a" "task_kept a b" using job [OF b] by blast
    have ok: "task_ok dj f a" using dsimD(6) [OF ds] a(1) by (simp add: tasks_ok_def)
    have "\<exists>w. map_of (dags f') (jDAGID b) = Some w \<and> cloneMeta (jMeta b) = cloneMeta (wMeta w)" if src: "jSource b = SourceDAG"
    proof -
      obtain w where w: "map_of (dags f) (jDAGID a) = Some w" "cloneMeta (jMeta a) = cloneMeta (wMeta w)"
        using ok src a(2) by (auto simp: task_ok_def task_kept_def)
      with dag_evolves_Some [OF ev w(1)] a(2) show ?thesis by (auto simp: header_kept_def task_kept_def)
    qed
    with ok a(2) show ?thesis by (simp add: task_ok_def task_kept_def)
  qed
  then have "tasks_ok dj f'" by (simp add: tasks_ok_def)
  moreover have "one_task f'" unfolding one_task_def
  proof (intro allI impI, elim conjE)
    fix k a k' b
    assume at: "map_of (jobs f') k = Some a" "map_of (jobs f') k' = Some b"
      and same: "jSource a = SourceDAG" "jSource b = SourceDAG" "jDAGID a = jDAGID b" "jTaskKey a = jTaskKey b"
    from job [OF at(1)] job [OF at(2)] obtain a0 b0 where
      "map_of (jobs f) k = Some a0" "task_kept a0 a" "map_of (jobs f) k' = Some b0" "task_kept b0 b" by blast
    with same show "k = k'"
      by (intro dsimD(7) [OF ds, unfolded one_task_def, rule_format, of k a0 k' b0]) (simp add: task_kept_def)
  qed
  moreover have "undo_ok f' g'" using dsimD(9) [OF ds] job by (fastforce simp: undo_ok_def undo task_kept_def)
  ultimately show ?thesis using dsimD(1) [OF ds] sim wf rel one_live_evolves [OF dsimD(8) [OF ds] ev] by (simp add: dsim_def)
qed

text \<open>A step that leaves the headers and their tables alone.\<close>

lemma dsim_jobs:
  assumes ds: "dsim env dj f g" and sim: "sim env f' db'" and kept: "jobs_kept f f'" and same: "dags f' = dags f"
  shows "dsim env dj f' (g\<lparr>gDb := db'\<rparr>)"
proof (rule dsim_step [OF ds])
  show "wf_dags f'" using dsimD(3) [OF ds] simD(2) [OF sim] by (simp add: wf_dags_def same)
  show "headers_rel f' (g\<lparr>gDb := db'\<rparr>)" using dsimD(5) [OF ds] by (simp add: headers_rel_def same dag_rel_cong)
qed (use assms dsimD(4,10) [OF ds] in \<open>simp_all add: dag_evolves_same rows_owned_def\<close>)

lemma worker_op_dags:
  "worker_op op \<Longrightarrow> fake_exec gen op f = (a, f') \<Longrightarrow> dags f' = dags f"
  by (cases op) (auto simp: answered_by_def maintenance_dags worker_dags simp del: settle_with.simps)

lemma worker_op_jobs:
  assumes "worker_op op" "wf_jobs f" "fake_exec gen op f = (a, f')"
  shows "jobs_kept f f'"
proof -
  have f': "f' = snd (fake_exec gen op f)" using assms(3) by simp
  show ?thesis
  proof (cases op)
    case (OpTick d)
    then show ?thesis by (simp add: f' jobs_kept_refl)
  qed (use assms(1) in \<open>auto simp: f' answered_by_def simp del: settle_with.simps intro: jobs_kept_revival
      DequeueBatch_no_revival settle_no_revival extend_no_revival PromoteDue_no_revival ReapExpired_no_revival assms(2)\<close>)
qed

lemma dsim_worker:
  assumes ds: "dsim env dj f g" and op: "worker_op op" "op_plain env op"
  shows "\<exists>f' db' a. fake_exec (gen_random_uuid env) op f = (a, f') \<and> pg_exec env (finishInit st) op (gDb g) = (a, db') \<and>
    dsim env dj f' (g\<lparr>gDb := db'\<rparr>)"
proof -
  have "draws_fresh env op (gDb g)" using op(1) by (cases op) simp_all
  from sim_exec [OF dsimD(2) [OF ds] op(2) this]
  obtain f' db' a where R: "fake_exec (gen_random_uuid env) op f = (a, f')" "pg_exec env (finishInit st) op (gDb g) = (a, db')"
    "sim env f' db'" by blast
  with dsim_jobs [OF ds R(3) worker_op_jobs [OF op(1) dsimD(11) [OF ds] R(1)] worker_op_dags [OF op(1) R(1)]] show ?thesis by blast
qed

section \<open>Statements over the tasks\<close>

lemma dsim_task: "dsim env dj f g \<Longrightarrow> map_of (jobs f) k = Some j \<Longrightarrow> task_ok dj f j"
  using dsimD(6) by (simp add: tasks_ok_def)

lemma dsim_count:
  assumes ds: "dsim env dj f g" and same: "\<And>r j. row_rel env (events f) r j \<Longrightarrow> task_ok dj f j \<Longrightarrow> c r \<longleftrightarrow> P j"
  shows "length (filter c (gRows g)) = length (filter P (map snd (jobs f)))"
proof -
  note sim = dsimD(2) [OF ds]
  have "wkeys c (gDb g) = {k. \<exists>j. map_of (jobs f) k = Some j \<and> P j}"
    using same sim_get [OF sim] dsim_task [OF ds] by (force simp: wkeys_def)
  then show ?thesis unfolding length_matching [OF simD(9) [OF sim]] fake_count [OF dsimD(11) [OF ds]] by simp
qed

lemma dsim_update:
  assumes ds: "dsim env dj f g" and f': "wf_jobs f'" "fake_frame f' = fake_frame f"
    and jobs: "\<And>k. map_of (jobs f') k = map_option (\<lambda>j. if P j then F j else j) (map_of (jobs f) k)"
    and same: "\<And>r j. row_rel env (events f) r j \<Longrightarrow> task_ok dj f j \<Longrightarrow> c r \<longleftrightarrow> P j"
    and rel: "\<And>r j. row_rel env (events f) r j \<Longrightarrow> task_ok dj f j \<Longrightarrow> P j \<Longrightarrow> row_rel env (events f) (h r) (F j)"
    and ids: "\<And>r. rId (h r) = rId r"
  shows "sim env f' (snd (sql_update c h (gDb g)))"
proof (rule sim_step [OF dsimD(2) [OF ds] f'])
  note sim = dsimD(2) [OF ds]
  show "pg_keyed (snd (sql_update c h (gDb g)))" by (rule keyed_update [OF simD(9) [OF sim] ids])
  fix k
  from sim show "rel_option (row_rel env (events f)) (tab (snd (sql_update c h (gDb g))) k) (map_of (jobs f') k)"
  proof (cases rule: sim_rows [where k = k])
    case (row r j)
    with same [OF row(3)] rel [OF row(3)] dsim_task [OF ds row(2)] show ?thesis by (simp add: tab_update jobs)
  qed (simp add: tab_update jobs)
qed simp

lemma task_update_eq:
  "task_update c h g = (map h (filter c (gRows g)), g\<lparr>gDb := snd (sql_update c h (gDb g))\<rparr>)"
  by (simp add: task_update_def sql_update_def)

lemma sim_notify:
  assumes "sim env f db" "pg_frame db' = pg_frame db" "pgJobs db' = pgJobs db"
  shows "sim env f db'"
  using assms by (auto simp: sim_def pg_wf_def pg_keyed_def tab_def pg_frame_def)

lemma dsim_notify: "dsim env dj f g \<Longrightarrow> dsim env dj f (notifyDAGKinds kinds g)"
proof -
  assume ds: "dsim env dj f g"
  have "sim env f ((gDb g)\<lparr>pgNotified := ns\<rparr>)" for ns
    by (rule sim_notify [OF dsimD(2) [OF ds]]) (simp_all add: pg_frame_def)
  from dsim_jobs [OF ds this jobs_kept_refl] show ?thesis by (simp add: notifyDAGKinds_def)
qed

text \<open>A pass over the tasks on both sides.\<close>

lemma dsim_pass:
  assumes ds: "dsim env dj f g" and f': "wf_jobs f'" "fake_frame f' = fake_frame f" "dags f' = dags f"
    and jobs: "\<And>k. map_of (jobs f') k = map_option (\<lambda>j. if P j then F j else j) (map_of (jobs f) k)"
    and same: "\<And>r j. row_rel env (events f) r j \<Longrightarrow> task_ok dj f j \<Longrightarrow> c r \<longleftrightarrow> P j"
    and rel: "\<And>r j. row_rel env (events f) r j \<Longrightarrow> task_ok dj f j \<Longrightarrow> P j \<Longrightarrow> row_rel env (events f) (h r) (F j)"
    and keep: "\<And>r. rId (h r) = rId r" "\<And>j. task_kept j (F j)"
  shows "dsim env dj f' (snd (task_update c h g))"
  unfolding task_update_eq snd_conv
  by (rule dsim_jobs [OF ds dsim_update [OF ds f'(1,2) jobs same rel keep(1)] jobs_kept_pass [OF jobs keep(2)] f'(3)])

subsection \<open>Promotion\<close>

lemma unblockedRow_iff:
  assumes ds: "dsim env dj f g" and rel: "row_rel env (events f) r j" and ok: "task_ok dj f j"
  shows "unblockedRow g r \<longleftrightarrow> unblockable f j"
proof (cases "jSource j = SourceDAG")
  case True
  note D = row_relD [OF rel] and T = same_task [OF rel ok]
  let ?did = "jDAGID j"
  have id: "rDagId r = Some ?did" "rTaskKey r = Some (jTaskKey j)" using T True by auto
  have sat: "task_at (Some k) key (satisfies (rIgnoreDeadDeps r)) g \<longleftrightarrow>
      (case dagTaskLocked k key f of None \<Rightarrow> False | Some dep \<Rightarrow> dep_ok (jIgnoreDeadDeps j) (jState dep))" for k key
    by (rule task_at_iff [OF ds]) (auto simp: satisfies_def dep_ok_iff row_relD row_rel_task(6) [OF rel])
  obtain w where w: "map_of (dags f) ?did = Some w" using ok True by (auto simp: task_ok_def)
  from ds obtain h where h: "dag_rel g ?did h w" by (cases rule: dsim_headers [where did = ?did]) (auto simp: w)
  have "list_ex (\<lambda>(k, d). rDagId r = Some k \<and> rTaskKey r = Some (ddTaskKey d) \<and>
       \<not> task_at (Some k) (ddDependsOnKey d) (satisfies (rIgnoreDeadDeps r)) g) (gEdges g) \<longleftrightarrow> \<not> depsSatisfiedLocked w j f"
    unfolding depsSatisfiedLocked_def dag_relD(9) [OF h, symmetric] sat dag_relD(3) [OF h] id
    by (force simp: list_ex_iff list_all_iff)
  then show ?thesis using True D(2,4) w unfolding unblockedRow_def unblockable_def id dag_in_iff [OF ds] schedulable_def by simp
qed (use row_relD [OF rel] in \<open>simp add: unblockedRow_def unblockable_def\<close>)

text \<open>Rows that change as their jobs do stay related.\<close>

lemma row_relI:
  assumes rel: "row_rel env evs r j" and ok: "row_ok r'" and eq: "\<And>J. pgToJob env r = J \<Longrightarrow> pgToJob env r' = U J" "U (toJob j) = toJob j'"
    and same: "rMaxAttemptsExplicit r' = rMaxAttemptsExplicit r" "rIdempotencyKey r' = rIdempotencyKey r"
      "rCoalesceKey r' = rCoalesceKey r" "rSource r' = rSource r" "rEventId r' = rEventId r"
      "maxAttemptsExplicit j' = maxAttemptsExplicit j" "idempotencyKey j' = idempotencyKey j" "coalesceKey j' = coalesceKey j"
  shows "row_rel env evs r' j'"
  using rel eq by (simp add: row_rel_def ok same)

lemma timer_seconds:
  assumes ds: "dsim env dj f g" and rel: "row_rel env (events f) r j" and ok: "task_ok dj f j" and "jSource j = SourceDAG" "jKind j = KindSleep"
  shows "timerSeconds dj r = Inr (Some (sleepFor j))" "make_interval env (sleepFor j) = sleepFor j"
proof -
  have p: "rPayload r = Some (sleepEnc dj (sleepFor j))" "whole (sleepFor j)"
    using ok assms(4,5) row_rel_task(1) [OF rel] by (auto simp: task_ok_def)
  then show "timerSeconds dj r = Inr (Some (sleepFor j))" using dsimD(1) [OF ds] by (simp add: timerSeconds_def json_ok_def)
  show "make_interval env (sleepFor j) = sleepFor j" using p(2) simD(8) [OF dsimD(2) [OF ds]] by (rule exact_envD(1) [rotated])
qed

lemma promote_rel:
  assumes ds: "dsim env dj f g" and rel: "row_rel env (events f) r j" and ok: "task_ok dj f j" and P: "unblockable f j"
  shows "row_rel env (events f) (promoteSet env dj (pgNow (gDb g)) r) (unblocked_job (clock f) j)"
proof -
  note D = row_relD [OF rel]
  have st: "rState r = StateBlocked" "jSource j = SourceDAG" using P D(4) by (auto simp: unblockable_def)
  have rok: "row_ok (promoteSet env dj (pgNow (gDb g)) r)" using D(15) st by (auto simp: row_ok_def promoteSet_def)
  have "pgToJob env (promoteSet env dj (pgNow (gDb g)) r) = toJob (unblocked_job (clock f) j)"
  proof -
    have eq: "pgToJob env r = toJob j" using rel by (simp add: row_rel_def)
    let ?run = "if rKind r = KindSignal then rRunAt r else if rKind r = KindSleep then pgNow (gDb g) + sleepFor j else pgNow (gDb g)"
    let ?st = "if rKind r = KindSignal then StateWaiting else if rKind r = KindSleep then StateScheduled else StatePending"
    have "pgToJob env (promoteSet env dj (pgNow (gDb g)) r) = (pgToJob env r)\<lparr>jState := ?st, jRunAt := ?run\<rparr>"
      using timer_seconds [OF ds rel ok st(2)] D(3) by (simp add: promoteSet_def pgToJob_def)
    also have "\<dots> = toJob (unblocked_job (clock f) j)"
      using D(3,5) by (simp add: eq unblocked_job_def toJob_defs dsimD(12) [OF ds])
    finally show ?thesis .
  qed
  with rel rok show ?thesis by (simp add: row_rel_def promoteSet_def unblocked_job_def)
qed

lemma unblock_frame: "fake_frame (snd (PromoteUnblocked f)) = fake_frame f"
proof -
  have "fake_frame (snd (unblock_body k v st)) = fake_frame (snd st)" for k v st
    by (simp add: unblock_body_def Let_def case_prod_unfold fake_frame_def)
  note R = range_fold_frame [OF this]
  show ?thesis by (simp add: PromoteUnblocked_def Let_def case_prod_unfold R)
qed

lemma dsim_promote:
  assumes ds: "dsim env dj f g"
  shows "\<exists>f' g' a. PromoteUnblocked f = (a, f') \<and> pgPromoteUnblocked env dj g = (a, g') \<and> dsim env dj f' g'"
proof -
  obtain f' where f': "PromoteUnblocked f = (Inr (int (length (filter (unblockable f) (map snd (jobs f))))), f')"
    "dags f' = dags f" "wf_jobs f'"
    "map_of (jobs f') = (\<lambda>k. map_option (\<lambda>j. if unblockable f j then unblocked_job (clock f) j else j) (map_of (jobs f) k))"
    by (rule PromoteUnblocked_result [OF dsimD(11) [OF ds]]) blast
  note same = unblockedRow_iff [OF ds]
  have "\<not> list_ex (\<lambda>r. unblockedRow g r \<and> rKind r = KindSleep \<and> isl (timerSeconds dj r)) (gRows g)"
  proof (subst dsim_ex [OF ds, where C = "\<lambda>_. False"])
    fix r j assume R: "row_rel env (events f) r j" "task_ok dj f j"
    show "(unblockedRow g r \<and> rKind r = KindSleep \<and> isl (timerSeconds dj r)) = False"
      using same [OF R] timer_seconds(1) [OF ds R] row_relD(3) [OF R(1)] by (auto simp: unblockable_def)
  qed simp
  moreover have "dsim env dj f' (snd (task_update (unblockedRow g) (promoteSet env dj (gNow g)) g))"
  proof (rule dsim_pass [OF ds f'(3) _ f'(2) _ same promote_rel [OF ds]])
    show "fake_frame f' = fake_frame f" using unblock_frame [of f] f'(1) by simp
    show "map_of (jobs f') k = map_option (\<lambda>j. if unblockable f j then unblocked_job (clock f) j else j) (map_of (jobs f) k)" for k
      by (simp add: f'(4))
    show "task_kept j (unblocked_job (clock f) j)" for j by (simp add: task_kept_def unblocked_job_def)
  qed (simp_all add: promoteSet_def)
  moreover have "length (filter (unblockedRow g) (gRows g)) = length (filter (unblockable f) (map snd (jobs f)))"
    by (rule dsim_count [OF ds same])
  ultimately show ?thesis using f'(1) by (simp add: pgPromoteUnblocked_def Let_def task_update_eq dsim_notify)
qed

subsection \<open>Timers\<close>

lemma timer_body_eq:
  "sleep_body k j st =
     (if sleep_due (snd st) j
      then (fst st + 1, changeJob (j\<lparr>jState := StateSucceeded, jCompletedAt := clock (snd st)\<rparr>)
             (putJob (j\<lparr>jState := StateSucceeded, jCompletedAt := clock (snd st)\<rparr>) (snd st)))
      else st)"
  by (simp add: sleep_body_def Let_def case_prod_unfold)

lemma sleep_due_cong: "dags s' = dags s \<Longrightarrow> clock s' = clock s \<Longrightarrow> sleep_due s' j = sleep_due s j"
  by (simp add: sleep_due_def)

interpretation timers: pointwise_loop "jobs \<circ> snd" sleep_body "\<lambda>st. wf_jobs (snd st) \<and> dags (snd st) = dags s0 \<and> clock (snd st) = clock s0"
    "\<lambda>j. Some (if sleep_due s0 j then j\<lparr>jState := StateSucceeded, jCompletedAt := clock s0\<rparr> else j)" for s0
proof (unfold_locales, goal_cases)
  case (1 st k v)
  then have "wf_jobs (putJob (v\<lparr>jState := StateSucceeded, jCompletedAt := clock s0\<rparr>) (snd st))" if "sleep_due s0 v"
    using that by (intro wf_jobs_putJob) (auto simp: sleep_due_def job_ok_def dest: wf_jobsD)
  with 1 sleep_due_cong [of "snd st" s0 v] show ?case by (auto simp: timer_body_eq)
next
  case (2 st k v)
  then have "jID v = k" by (auto dest: wf_jobsD)
  moreover have "k \<in> fst ` set (jobs (snd st))" using 2(2) by (force dest: map_of_SomeD)
  ultimately show ?case using 2 sleep_due_cong [of "snd st" s0 v]
    by (auto simp: timer_body_eq AList.update_conv' update_keys_in fun_eq_iff)
qed

lemma CompleteDueSleeps_result:
  assumes wf: "wf_jobs s"
  obtains s' where "CompleteDueSleeps s = (Inr (int (length (filter (sleep_due s) (map snd (jobs s))))), s')"
    "dags s' = dags s" "wf_jobs s'" "fake_frame s' = fake_frame s"
    "\<And>k. map_of (jobs s') k = map_option (\<lambda>j. if sleep_due s j then j\<lparr>jState := StateSucceeded, jCompletedAt := clock s\<rparr> else j) (map_of (jobs s) k)"
proof -
  let ?r = "range_fold (jobs \<circ> snd) sleep_body (0::int, s)"
  have I: "wf_jobs (snd (0::int, s)) \<and> dags (snd (0::int, s)) = dags s \<and> clock (snd (0::int, s)) = clock s" using wf by simp
  have d: "distinct_keys ((jobs \<circ> snd) (0::int, s))" using wf by (simp add: wf_jobsD)
  note L = timers.loop_get [OF I d]
  have "fst ?r = fst (0::int, s) + sum_list (map (\<lambda>(k, v). if sleep_due s v then 1 else 0) ((jobs \<circ> snd) (0::int, s)))"
    by (rule timers.loop_acc [OF I d]) (auto simp: timer_body_eq sleep_due_def)
  then have cnt: "fst ?r = int (length (filter (sleep_due s) (map snd (jobs s))))" by (simp add: sum_list_count_values)
  have "fake_frame (snd (sleep_body k v st)) = fake_frame (snd st)" for k v st by (simp add: timer_body_eq fake_frame_def)
  note R = range_fold_frame [OF this]
  have "fake_frame (snd ?r) = fake_frame s" by (simp add: R)
  with that [of "snd ?r"] cnt L show thesis
    by (auto simp: CompleteDueSleeps_def case_prod_unfold Let_def fun_eq_iff split: option.splits bind_splits)
qed

lemma ended_rel:
  assumes rel: "row_rel env evs r j" and idle: "rState r \<noteq> StateActive" and st: "st \<noteq> StateActive"
  shows "row_rel env evs (r\<lparr>rState := st, rCompletedAt := Some now, rUpdatedAt := now\<rparr>) (j\<lparr>jState := st, jCompletedAt := now\<rparr>)"
proof -
  let ?r = "r\<lparr>rState := st, rCompletedAt := Some now, rUpdatedAt := now\<rparr>"
  have eq: "pgToJob env r = toJob j" using rel by (simp add: row_rel_def)
  have "pgToJob env ?r = (pgToJob env r)\<lparr>jState := st, jCompletedAt := now\<rparr>" by (simp add: pgToJob_def timeOf_def)
  also have "\<dots> = toJob (j\<lparr>jState := st, jCompletedAt := now\<rparr>)" by (simp add: eq toJob_defs)
  finally have "pgToJob env ?r = toJob (j\<lparr>jState := st, jCompletedAt := now\<rparr>)" .
  moreover have "row_ok ?r" using row_relD(15) [OF rel] idle st by (auto simp: row_ok_def)
  ultimately show ?thesis using rel by (simp add: row_rel_def)
qed

lemma sleep_due_iff:
  assumes ds: "dsim env dj f g" and rel: "row_rel env (events f) r j" and ok: "task_ok dj f j"
  shows "(rSource r = SourceDAG \<and> running_timer r \<and> rRunAt r \<le> gNow g \<and> dag_in (\<lambda>st. st = DAGRunning) (rDagId r) g) \<longleftrightarrow> sleep_due f j"
proof (cases "jSource j = SourceDAG")
  case True
  with row_relD [OF rel] same_task(2) [OF rel ok True] show ?thesis
    by (auto simp: sleep_due_def running_timer_def dag_in_iff [OF ds] dsimD(12) [OF ds])
qed (use row_relD [OF rel] in \<open>simp add: sleep_due_def\<close>)

lemma dsim_sleeps:
  assumes ds: "dsim env dj f g"
  shows "\<exists>f' g' a. CompleteDueSleeps f = (a, f') \<and> pgCompleteDueSleeps g = (a, g') \<and> dsim env dj f' g'"
proof -
  obtain f' where f': "CompleteDueSleeps f = (Inr (int (length (filter (sleep_due f) (map snd (jobs f))))), f')"
    "dags f' = dags f" "wf_jobs f'" "fake_frame f' = fake_frame f"
    "\<And>k. map_of (jobs f') k = map_option (\<lambda>j. if sleep_due f j then j\<lparr>jState := StateSucceeded, jCompletedAt := clock f\<rparr> else j) (map_of (jobs f) k)"
    by (rule CompleteDueSleeps_result [OF dsimD(11) [OF ds]]) blast
  note same = sleep_due_iff [OF ds]
  have "dsim env dj f' (snd (task_update (\<lambda>r. rSource r = SourceDAG \<and> running_timer r \<and> rRunAt r \<le> gNow g \<and> dag_in (\<lambda>st. st = DAGRunning) (rDagId r) g)
      (\<lambda>r. r\<lparr>rState := StateSucceeded, rCompletedAt := Some (gNow g), rUpdatedAt := gNow g\<rparr>) g))"
  proof (rule dsim_pass [OF ds f'(3,4,2,5) same])
    fix r j assume R: "row_rel env (events f) r j" "sleep_due f j"
    then show "row_rel env (events f) (r\<lparr>rState := StateSucceeded, rCompletedAt := Some (gNow g), rUpdatedAt := gNow g\<rparr>)
        (j\<lparr>jState := StateSucceeded, jCompletedAt := clock f\<rparr>)"
      unfolding dsimD(12) [OF ds] using row_relD(4) [OF R(1)] by (intro ended_rel) (auto simp: sleep_due_def)
  qed (simp_all add: task_kept_def)
  with f'(1) dsim_count [OF ds same] show ?thesis by (simp add: pgCompleteDueSleeps_def Let_def task_update_eq)
qed

subsection \<open>Results\<close>

definition acked_job :: "raw \<Rightarrow> time \<Rightarrow> fakeJob \<Rightarrow> fakeJob" where
  "acked_job result now j =
     j\<lparr>jState := StateSucceeded, jResult := result, jLeaseToken := Nil_uuid, jLeaseUntil := zero_time, jCompletedAt := now\<rparr>"

lemma ack_result_rel:
  assumes rel: "row_rel env evs r j"
  shows "row_rel env evs (ackResultSet result now r) (acked_job result now j)" (is "row_rel env evs ?r ?j")
proof -
  have eq: "pgToJob env r = toJob j" using rel by (simp add: row_rel_def)
  have "pgToJob env ?r = (pgToJob env r)\<lparr>jState := StateSucceeded, jResult := result, jLeaseToken := Nil_uuid, jLeaseUntil := zero_time, jCompletedAt := now\<rparr>"
    by (simp add: pgToJob_def ackResultSet_def unleased_def timeOf_def toUUID_def)
  also have "\<dots> = toJob ?j" by (simp add: eq toJob_defs acked_job_def)
  finally have "pgToJob env ?r = toJob ?j" .
  moreover have "row_ok ?r" using row_relD(15) [OF rel] by (auto simp: row_ok_def ackResultSet_def)
  ultimately show ?thesis using rel by (simp add: row_rel_def ackResultSet_def acked_job_def)
qed

lemma ack_result_hit:
  assumes wf: "wf_jobs f" and j: "map_of (jobs f) jid = Some j" "jState j = StateActive" "jLeaseToken j = tok"
  shows "\<exists>f'. AckTaskResult jid tok result f = (Inr (), f') \<and> wf_jobs f' \<and> fake_frame f' = fake_frame f \<and>
    map_of (jobs f') = (map_of (jobs f))(jid \<mapsto> acked_job result (clock f) j)"
proof -
  have ID: "jID j = jid" using wf j(1) by (rule wf_jobsD)
  let ?j = "acked_job result (clock f) j" let ?r = "AckTaskResult jid tok result f"
  have "wf_jobs (putJob ?j f)" by (rule wf_jobs_putJob [OF wf]) (simp add: acked_job_def job_ok_def)
  moreover have "snd ?r = changeJob ?j (bumpStat (jSource j) (jKind j) statProcessed 1 (clock f) (putJob ?j f))" "fst ?r = Inr ()"
    using j by (simp_all add: AckTaskResult_def settle_def clonePayload_def acked_job_def Let_def)
  ultimately show ?thesis using ID
    by (intro exI [of _ "snd ?r"]) (auto simp: prod_eq_iff fake_frame_def AList.update_conv' acked_job_def)
qed

lemma dsim_ack:
  assumes ds: "dsim env dj f g" and res: "plain_json env result"
  shows "\<exists>f' db' a. AckTaskResult jid tok result f = (a, f') \<and> pgAckTaskResult env st jid tok result (gDb g) = (a, db') \<and>
    dsim env dj f' (g\<lparr>gDb := db'\<rparr>)"
proof -
  note sim = dsimD(2) [OF ds] and wf = dsimD(11) [OF ds]
  have op: "pg_fenced_op ''ack task result'' (ackResultSet result) (\<lambda>_ _. ()) (\<lambda>jid tok. pgAckTaskResult env st jid tok result)"
    by (rule chained_op [where err = None and counts = "\<lambda>_. True" and field = statProcessed and env = env and st = st])
      (simp_all add: ackResultSet_def pgAckTaskResult_def res)
  have "\<exists>f' db' a. AckTaskResult jid tok result f = (a, f') \<and> pgAckTaskResult env st jid tok result (gDb g) = (a, db') \<and> sim env f' db'"
  proof (rule sim_fenced [OF sim op])
    show "AckTaskResult jid tok result f = (Inl (NotFound ''ack task result''), f)" if "\<not> owned fake_job_at jid tok f"
      using that by (auto simp: AckTaskResult_def settle_def owned_def fake_job_at_def split: option.splits)
    show "\<exists>f'. AckTaskResult jid tok result f = (Inr (), f') \<and> wf_jobs f' \<and> fake_frame f' = fake_frame f \<and>
        map_of (jobs f') = (map_of (jobs f))(jid \<mapsto> acked_job result (clock f) j)"
      if "map_of (jobs f) jid = Some j" "jState j = StateActive" "jLeaseToken j = tok" for j
      by (rule ack_result_hit [OF wf that])
  qed (simp add: ack_result_rel)
  then obtain f' db' a where R: "AckTaskResult jid tok result f = (a, f')" "pgAckTaskResult env st jid tok result (gDb g) = (a, db')" "sim env f' db'"
    by blast
  have "jobs_kept f f'"
  proof (cases "settle ''ack task result'' jid tok f")
    case (Inl e)
    then show ?thesis using R(1) by (auto simp: AckTaskResult_def intro: jobs_kept_refl)
  next
    case (Inr j)
    then have j: "map_of (jobs f) jid = Some j" "jState j = StateActive" "jLeaseToken j = tok"
      by (auto simp: settle_def split: option.splits if_splits)
    from ack_result_hit [OF wf j, of result] R(1) show ?thesis using j(1) by (auto simp: jobs_kept_def task_kept_def acked_job_def)
  qed
  moreover have "dags f' = dags f" using R(1) worker_dags(1) [of jid tok result f] by simp
  ultimately show ?thesis using R dsim_jobs [OF ds R(3)] by blast
qed

section \<open>Statements over the headers\<close>

lemma dag_update_get:
  "map_of (gDags (snd (dag_update c F g))) k = map_option (\<lambda>h. if c h then F h else h) (map_of (gDags g) k)"
  "gEdges (snd (dag_update c F g)) = gEdges g" "gInbox (snd (dag_update c F g)) = gInbox g"
  "gCompensation (snd (dag_update c F g)) = gCompensation g" "gDb (snd (dag_update c F g)) = gDb g"
  "map fst (gDags (snd (dag_update c F g))) = map fst (gDags g)"
  by (simp_all add: dag_update_def map_of_map_snd) (simp add: comp_def case_prod_unfold)

lemma dag_rel_tables: "gEdges g' = gEdges g \<Longrightarrow> gInbox g' = gInbox g \<Longrightarrow> dag_rel g' = dag_rel g"
  by (simp add: dag_rel_def fun_eq_iff)

lemma dsim_set_headers:
  assumes ds: "dsim env dj f g" and f': "jobs f' = jobs f" "fake_frame f' = fake_frame f" "wf_dags f'"
    and dags: "\<And>k. map_of (dags f') k = map_option W (map_of (dags f) k)"
    and kept: "\<And>k w. map_of (dags f) k = Some w \<Longrightarrow> header_kept w (W w)"
    and rel: "\<And>k h w. map_of (gDags g) k = Some h \<Longrightarrow> map_of (dags f) k = Some w \<Longrightarrow> dag_rel g k h w \<Longrightarrow>
      dag_rel g k (if c h then F h else h) (W w)"
  shows "dsim env dj f' (snd (dag_update c F g))"
proof (rule dsim_step [OF ds])
  let ?g = "snd (dag_update c F g)"
  show "sim env f' (gDb ?g)" using sim_cong [OF dsimD(2) [OF ds] f'(1,2)] by (simp add: dag_update_get)
  show "dag_evolves f f'" using kept by (auto simp: dag_evolves_def dags split: option.split)
  have "rel_option (dag_rel g k) (map_of (gDags ?g) k) (map_of (dags f') k)" for k
    using ds by (cases rule: dsim_headers [where did = k]) (auto simp: dag_update_get dags dest: rel)
  then show "headers_rel f' ?g" by (simp add: headers_rel_def dag_rel_tables [of ?g g] dag_update_get)
  show "rows_owned ?g" using dsimD(10) [OF ds] by (simp add: rows_owned_def dag_update_get(1-3))
qed (use f' jobs_kept_refl dsimD(4) [OF ds] in \<open>simp_all add: dag_update_get\<close>)

text \<open>Updates of a header as its view shows them.\<close>

lemma scan_upd [simp]:
  "scanDAGView (h\<lparr>hState := s\<rparr>) = (scanDAGView h)\<lparr>wState := s\<rparr>"
  "scanDAGView (h\<lparr>hFailureReason := Some why\<rparr>) = (scanDAGView h)\<lparr>wFailureReason := why\<rparr>"
  "scanDAGView (h\<lparr>hFailureReason := None\<rparr>) = (scanDAGView h)\<lparr>wFailureReason := []\<rparr>"
  "scanDAGView (h\<lparr>hUpdatedAt := t\<rparr>) = (scanDAGView h)\<lparr>wUpdatedAt := t\<rparr>"
  "scanDAGView (h\<lparr>hCompletedAt := Some t\<rparr>) = (scanDAGView h)\<lparr>wCompletedAt := t\<rparr>"
  "scanDAGView (h\<lparr>hCancelRequested := b\<rparr>) = scanDAGView h"
  by (simp_all add: scanDAGView_def timeOf_def)

lemma clone_upd [simp]:
  "Fake_Dag.cloneView (w\<lparr>wState := s\<rparr>) = (Fake_Dag.cloneView w)\<lparr>wState := s\<rparr>"
  "Fake_Dag.cloneView (w\<lparr>wFailureReason := why\<rparr>) = (Fake_Dag.cloneView w)\<lparr>wFailureReason := why\<rparr>"
  "Fake_Dag.cloneView (w\<lparr>wUpdatedAt := t\<rparr>) = (Fake_Dag.cloneView w)\<lparr>wUpdatedAt := t\<rparr>"
  "Fake_Dag.cloneView (w\<lparr>wCompletedAt := t\<rparr>) = (Fake_Dag.cloneView w)\<lparr>wCompletedAt := t\<rparr>"
  "Fake_Dag.cloneView (w\<lparr>cancelRequested := b\<rparr>) = Fake_Dag.cloneView w"
  "Fake_Dag.cloneView (w\<lparr>deps := ds\<rparr>) = Fake_Dag.cloneView w" "Fake_Dag.cloneView (w\<lparr>signals := sgs\<rparr>) = Fake_Dag.cloneView w"
  by (simp_all add: Fake_Dag.cloneView_def dagView.truncate_def)

text \<open>One header changes, in both stores.\<close>

lemma dsim_set_header:
  assumes ds: "dsim env dj f g" and at: "map_of (dags f) did = Some w"
    and f': "jobs f' = jobs f" "fake_frame f' = fake_frame f" "map_of (dags f') = (map_of (dags f))(did \<mapsto> w')" "distinct_keys (dags f')"
    and kept: "header_kept w w'"
    and rel: "\<And>h. map_of (gDags g) did = Some h \<Longrightarrow> dag_rel g did h w \<Longrightarrow> c h \<and> dag_rel g did (F h) w'"
    and other: "\<And>h. c h \<Longrightarrow> hId h = did"
  shows "dsim env dj f' (snd (dag_update c F g))"
proof (rule dsim_set_headers [OF ds f'(1,2), where W = "\<lambda>v. if wID v = did then w' else v"])
  have ids: "wID v = k" if "map_of (dags f) k = Some v" for k v using wf_dagsD(3) [OF dsimD(3) [OF ds] that] .
  show "wf_dags f'"
    unfolding wf_dags_def using dsimD(11) [OF ds] kept ids ids [OF at] f'(1) by (auto simp: f'(3,4) wf_jobs_def header_kept_def split: if_splits)
  show "map_of (dags f') k = map_option (\<lambda>v. if wID v = did then w' else v) (map_of (dags f) k)" for k
    using ids [of k] at by (cases "map_of (dags f) k") (auto simp: f')
  show "header_kept v (if wID v = did then w' else v)" if "map_of (dags f) k = Some v" for k v
    using kept at that ids [OF that] by auto
  show "dag_rel g k (if c h then F h else h) (if wID v = did then w' else v)"
    if "map_of (gDags g) k = Some h" "map_of (dags f) k = Some v" "dag_rel g k h v" for k h v
  proof (cases "k = did")
    case True
    with that rel at show ?thesis using ids [OF at] by auto
  next
    case False
    with that(3) other [of h] show ?thesis by (auto dest: dag_relD)
  qed
qed

lemma terminal_state: "terminal w = isTerminalDAGState (wState w)"
  by (simp add: terminal_def isTerminalDAGState_def)

lemma update_commute: "snd (task_update c h (snd (dag_update d F g))) = snd (dag_update d F (snd (task_update c h g)))"
  by (simp add: task_update_eq dag_update_def)

text \<open>A pass over the tasks of one DAG.\<close>

lemma dsim_dag_pass:
  assumes ds: "dsim env dj f g" and f': "wf_jobs f'" "fake_frame f' = fake_frame f" "dags f' = dags f"
    and jobs: "\<And>k. map_of (jobs f') k = map_option (\<lambda>j. if dag_of did j \<and> P j then F j else j) (map_of (jobs f) k)"
    and same: "\<And>r j. row_rel env (events f) r j \<Longrightarrow> task_ok dj f j \<Longrightarrow> dag_of did j \<Longrightarrow> q r \<longleftrightarrow> P j"
    and rel: "\<And>r j. row_rel env (events f) r j \<Longrightarrow> P j \<Longrightarrow> row_rel env (events f) (h r) (F j)"
    and keep: "\<And>r. rId (h r) = rId r" "\<And>j. task_kept j (F j)"
  shows "dsim env dj f' (snd (task_update (\<lambda>r. task_of did r \<and> q r) h g))"
proof (rule dsim_pass [OF ds f' jobs _ _ keep])
  show "(task_of did r \<and> q r) = (dag_of did j \<and> P j)" if R: "row_rel env (events f) r j" "task_ok dj f j" for r j
    using same_task(1) [OF R, of did] same [OF R] by auto
qed (auto intro: rel)

lemma state_rel:
  assumes rel: "row_rel env evs r j" and idle: "rState r \<noteq> StateActive" and st: "st \<noteq> StateActive" "st \<noteq> StateSucceeded"
  shows "row_rel env evs (r\<lparr>rState := st, rUpdatedAt := now\<rparr>) (j\<lparr>jState := st\<rparr>)"
proof -
  have eq: "pgToJob env r = toJob j" using rel by (simp add: row_rel_def)
  have "pgToJob env (r\<lparr>rState := st, rUpdatedAt := now\<rparr>) = (pgToJob env r)\<lparr>jState := st\<rparr>" by (simp add: pgToJob_def)
  also have "\<dots> = toJob (j\<lparr>jState := st\<rparr>)" by (simp add: eq toJob_defs)
  finally have "pgToJob env (r\<lparr>rState := st, rUpdatedAt := now\<rparr>) = toJob (j\<lparr>jState := st\<rparr>)" .
  moreover have "row_ok (r\<lparr>rState := st, rUpdatedAt := now\<rparr>)" using row_relD(15) [OF rel] idle st by (auto simp: row_ok_def)
  ultimately show ?thesis using rel by (simp add: row_rel_def)
qed

lemma header_frames [simp]:
  "fake_frame (putDAG w f) = fake_frame f" "fake_frame (changeDAG w f) = fake_frame f"
  "fake_frame (set_header did F f) = fake_frame f" "fake_frame (announce_dag did f) = fake_frame f"
  by (simp_all add: fake_frame_def putDAG_def set_header_def announce_dag_def split: option.split)

lemma pass_frames:
  "fake_frame (fold pause_task js f) = fake_frame f" "fake_frame (fold (cancel_task now) js f) = fake_frame f"
  "fake_frame (fold unpause_task js f) = fake_frame f"
  "fake_frame (fold (\<lambda>j st. if jState j \<noteq> StateDead \<or> (hasComps \<and> \<not> is_comp j) then st else resetToPending j st) js f) = fake_frame f"
  by (rule fold_frame; simp add: pause_task_def cancel_task_def unpause_task_def resetToPending_def Let_def fake_frame_def)+

lemma dsim_pause_tasks:
  assumes ds: "dsim env dj f g"
  shows "dsim env dj (fold pause_task (dagJobsLocked did f) f)
    (snd (task_update (\<lambda>r. task_of did r \<and> (rState r = StatePending \<or> rState r = StateScheduled)) (\<lambda>r. r\<lparr>rState := StatePaused, rUpdatedAt := now\<rparr>) g))"
proof (rule dsim_dag_pass [OF ds _ pass_frames(1) _ pause.dag_pass(1) [OF TrueI dsimD(11) [OF ds]]])
  show "row_rel env (events f) (r\<lparr>rState := StatePaused, rUpdatedAt := now\<rparr>) (j\<lparr>jState := StatePaused\<rparr>)"
    if "row_rel env (events f) r j" "jState j = StatePending \<or> jState j = StateScheduled" for r j
    using that row_relD(4) [OF that(1)] by (intro state_rel) auto
qed (use dsimD(11) [OF ds] in \<open>simp_all add: pause.dag_pass(2) row_relD(4) task_kept_def\<close>)

lemma dsim_cancel_tasks:
  assumes ds: "dsim env dj f g"
  shows "dsim env dj (cancelRemainingTasksLocked did (clock f) f) (cancelRemainingTasks did g)"
  unfolding cancelRemainingTasksLocked_def cancelRemainingTasks_def
proof (rule dsim_dag_pass [OF ds _ pass_frames(2) _ cancel.dag_pass(1) [OF TrueI dsimD(11) [OF ds]]])
  show "row_rel env (events f) (r\<lparr>rState := StateCancelled, rCompletedAt := Some (gNow g), rUpdatedAt := gNow g\<rparr>)
      (j\<lparr>jState := StateCancelled, jCompletedAt := clock f\<rparr>)"
    if "row_rel env (events f) r j" "cancellable (jState j)" for r j
    unfolding dsimD(12) [OF ds] using that row_relD(4) [OF that(1)] by (intro ended_rel) (auto simp: cancellable_def)
  show "remaining (rState r) = cancellable (jState j)" if "row_rel env (events f) r j" for r j
    unfolding row_relD(4) [OF that] by (simp add: remaining_def cancellable_def split: job_state.split)
qed (use dsimD(11) [OF ds] in \<open>simp_all add: cancel.dag_pass(2) task_kept_def\<close>)

lemma dsim_pause:
  assumes ds: "dsim env dj f g"
  shows "\<exists>f' g' a. PauseDAG did reason f = (a, f') \<and> pgPauseDAG did reason g = (a, g') \<and> dsim env dj f' g'"
  using ds
proof (cases rule: dsim_headers [where did = did])
  case none
  with ds show ?thesis by (simp add: PauseDAG_def pgPauseDAG_def)
next
  case (header h w)
  note D = dag_relD [OF header(3)]
  show ?thesis
  proof (cases "wState w = DAGRunning")
    case False
    with ds header D(4) show ?thesis by (simp add: PauseDAG_def pgPauseDAG_def)
  next
    case True
    let ?f1 = "fold pause_task (dagJobsLocked did f) f"
    let ?w = "w\<lparr>wState := DAGPaused, wFailureReason := reason, wUpdatedAt := clock f\<rparr>"
    let ?c = "\<lambda>h. hId h = did \<and> hState h = DAGRunning"
    let ?F = "\<lambda>h. h\<lparr>hState := DAGPaused, hFailureReason := Some reason, hUpdatedAt := gNow g\<rparr>"
    let ?t = "task_update (\<lambda>r. task_of did r \<and> (rState r = StatePending \<or> rState r = StateScheduled)) (\<lambda>r. r\<lparr>rState := StatePaused, rUpdatedAt := gNow g\<rparr>)"
    have "dsim env dj (changeDAG ?w (putDAG ?w ?f1)) (snd (dag_update ?c ?F (snd (?t g))))"
    proof (rule dsim_set_header [OF dsim_pause_tasks [OF ds], where did = did and w = w])
      fix h' assume "dag_rel (snd (?t g)) did h' w"
      then have R: "dag_rel g did h' w" by (simp add: task_update_eq dag_rel_cong)
      note E = dag_relD [OF R]
      show "?c h' \<and> dag_rel (snd (?t g)) did (?F h') ?w"
        using E True R by (simp add: task_update_eq dag_rel_cong) (simp add: dag_rel_def dsimD(12) [OF ds])
    qed (use header D True dsimD(3) [OF ds] in \<open>simp_all add: AList.update_conv' distinct_keys_update wf_dagsD header_kept_def terminal_state isTerminalDAGState_def\<close>)
    then have "dsim env dj (changeDAG ?w (putDAG ?w ?f1)) (snd (?t (snd (dag_update ?c ?F g))))" by (simp only: update_commute)
    moreover have "PauseDAG did reason f = (Inr (), changeDAG ?w (putDAG ?w ?f1))" using header True by (simp add: PauseDAG_def Let_def)
    moreover have "pgPauseDAG did reason g = (Inr (), snd (?t (snd (dag_update ?c ?F g))))"
      using header D(4) True by (simp add: pgPauseDAG_def Let_def)
    ultimately show ?thesis by blast
  qed
qed

end
