(* ===== verification/Change_Stream.thy ===== *)
theory Change_Stream
  imports Fake_State Pg_Ident "HOL-Library.Multiset"
begin

text \<open>
  The change hints on their way to a client: the listener of the PostgreSQL driver
  (\<open>driver/azyncpgx/listener.go\<close>, generic in what it carries), the parsing of the change
  payloads (\<open>changes.go\<close>) and the filtered subscriptions of \<open>watch/watch.go\<close>. A channel is
  the list of what it buffers; a send that does not block is a branch on its length.
\<close>

section \<open>The listener\<close>

definition pgWakeBuffer :: nat where
  "pgWakeBuffer = 64"

definition listenBackoffMin :: duration where
  "listenBackoffMin = 500000000"

definition listenBackoffMax :: duration where
  "listenBackoffMax = 30 * nsPerSecond"

record 'a subscription =
  sbCh :: "'a list"
  sbOverflowed :: bool

text \<open>
  The configuration of a listener and its state. A subscription is known by its number;
  the channel of a removed subscription is closed. \<open>lnReset\<close> mints the gap signal from the
  current time.
\<close>

record 'a listenerCfg =
  lnPollOnly :: bool
  lnBuffer :: nat
  lnParse :: "string \<Rightarrow> 'a option"
  lnReset :: "(time \<Rightarrow> 'a) option"

record 'a listener =
  lnSubs :: "(nat \<times> 'a subscription) list"
  lnNext :: nat
  lnStarted :: bool
  lnConnected :: bool
  lnClosed :: bool

definition newListener :: "'a listener" where
  "newListener = \<lparr>lnSubs = [], lnNext = 0, lnStarted = False, lnConnected = False, lnClosed = False\<rparr>"

definition deliverLocked :: "'a listenerCfg \<Rightarrow> time \<Rightarrow> 'a \<Rightarrow> 'a subscription \<Rightarrow> 'a subscription" where
  "deliverLocked cfg now v sub =
     (case (if sbOverflowed sub then lnReset cfg else None) of
        None \<Rightarrow> if length (sbCh sub) < lnBuffer cfg then sub\<lparr>sbCh := sbCh sub @ [v]\<rparr> else sub\<lparr>sbOverflowed := True\<rparr>
      | Some reset \<Rightarrow>
          if length (sbCh sub) < lnBuffer cfg
          then let sub1 = sub\<lparr>sbCh := sbCh sub @ [reset now], sbOverflowed := False\<rparr>
               in if length (sbCh sub1) < lnBuffer cfg then sub1\<lparr>sbCh := sbCh sub1 @ [v]\<rparr> else sub1\<lparr>sbOverflowed := True\<rparr>
          else sub)"

definition ensureStartedLocked :: "'a listener \<Rightarrow> 'a listener" where
  "ensureStartedLocked l = (if lnStarted l then l else l\<lparr>lnStarted := True\<rparr>)"

text \<open>A poll-only listener answers with no channel and no error.\<close>

definition subscribe :: "'a listenerCfg \<Rightarrow> time \<Rightarrow> 'a listener \<Rightarrow> (error + nat option) \<times> 'a listener" where
  "subscribe cfg now l =
     (if lnPollOnly cfg then (Inr None, l)
      else if lnClosed l then (Inl (OtherError ''azyncpgx: listener is closed''), l)
      else let l1 = ensureStartedLocked l;
               ch = (case lnReset cfg of Some reset \<Rightarrow> if lnConnected l1 then [reset now] else [] | None \<Rightarrow> [])
           in (Inr (Some (lnNext l1)),
               l1\<lparr>lnSubs := lnSubs l1 @ [(lnNext l1, \<lparr>sbCh = ch, sbOverflowed = False\<rparr>)], lnNext := Suc (lnNext l1)\<rparr>))"

definition broadcast :: "'a listenerCfg \<Rightarrow> time \<Rightarrow> 'a \<Rightarrow> 'a listener \<Rightarrow> 'a listener" where
  "broadcast cfg now v l = l\<lparr>lnSubs := map (\<lambda>(i, sub). (i, deliverLocked cfg now v sub)) (lnSubs l)\<rparr>"

definition markConnectedAndReset :: "'a listenerCfg \<Rightarrow> time \<Rightarrow> 'a listener \<Rightarrow> 'a listener" where
  "markConnectedAndReset cfg now l =
     (let l1 = l\<lparr>lnConnected := True\<rparr>
      in case lnReset cfg of
           None \<Rightarrow> l1
         | Some reset \<Rightarrow> l1\<lparr>lnSubs := map (\<lambda>(i, sub). (i, deliverLocked cfg now (reset now) sub)) (lnSubs l1)\<rparr>)"

definition markDisconnected :: "'a listener \<Rightarrow> 'a listener" where
  "markDisconnected l = l\<lparr>lnConnected := False\<rparr>"

definition removeSubscriber :: "nat \<Rightarrow> 'a listener \<Rightarrow> 'a listener" where
  "removeSubscriber i l = l\<lparr>lnSubs := AList.delete i (lnSubs l)\<rparr>"

text \<open>\<open>close\<close> returns once every subscription is removed and the loop has ended.\<close>

definition listenerClose :: "'a listener \<Rightarrow> 'a listener" where
  "listenerClose l =
     (if lnClosed l then l
      else fold removeSubscriber (map fst (lnSubs l)) (l\<lparr>lnClosed := True, lnConnected := False\<rparr>))"

text \<open>One notification read by \<open>listenOnce\<close>, and the reconnect delay of \<open>listenLoop\<close>.\<close>

definition notified :: "'a listenerCfg \<Rightarrow> time \<Rightarrow> string \<Rightarrow> 'a listener \<Rightarrow> 'a listener" where
  "notified cfg now payload l = (case lnParse cfg payload of None \<Rightarrow> l | Some v \<Rightarrow> broadcast cfg now v l)"

definition next_backoff :: "bool \<Rightarrow> duration \<Rightarrow> duration" where
  "next_backoff connected backoff =
     (let b = (if connected then listenBackoffMin else backoff) in min (b * 2) listenBackoffMax)"

section \<open>Change payloads\<close>

definition changeChannel :: string where
  "changeChannel = ''azync_changes''"

definition pgChangeBuffer :: nat where
  "pgChangeBuffer = 256"

record changeWire =
  cwSchema :: string
  cwEntity :: string
  cwSource :: string
  cwID :: string
  cwDAGID :: string
  cwKind :: string
  cwTaskKey :: string
  cwState :: string
  cwAtMs :: int
  cwBulk :: bool
  cwCount :: int

definition jobStateString :: "job_state \<Rightarrow> string" where
  "jobStateString st =
     (case st of StatePending \<Rightarrow> ''pending'' | StateScheduled \<Rightarrow> ''scheduled'' | StateActive \<Rightarrow> ''active''
        | StateDead \<Rightarrow> ''dead'' | StatePaused \<Rightarrow> ''paused'' | StateSucceeded \<Rightarrow> ''succeeded'' | StateBlocked \<Rightarrow> ''blocked''
        | StateWaiting \<Rightarrow> ''waiting'' | StateCancelled \<Rightarrow> ''cancelled'' | StateUncertain \<Rightarrow> ''uncertain''
        | StateSkipped \<Rightarrow> ''skipped'')"

definition dagStateString :: "dag_state \<Rightarrow> string" where
  "dagStateString st =
     (case st of DAGRunning \<Rightarrow> ''running'' | DAGSuspended \<Rightarrow> ''suspended'' | DAGCompensating \<Rightarrow> ''compensating''
        | DAGPaused \<Rightarrow> ''paused'' | DAGSucceeded \<Rightarrow> ''succeeded'' | DAGFailed \<Rightarrow> ''failed'' | DAGCancelled \<Rightarrow> ''cancelled'')"

definition entityString :: "change_entity \<Rightarrow> string" where
  "entityString e = (case e of ChangeJob \<Rightarrow> ''job'' | ChangeDAG \<Rightarrow> ''dag'' | ChangeEvent \<Rightarrow> ''event'' | ChangeReset \<Rightarrow> ''reset'')"

text \<open>
  The texts of sources and states as values of the model; a text that the contract does
  not name has none.
\<close>

definition sourceOf :: "string \<Rightarrow> source option" where
  "sourceOf t = find (\<lambda>x. sourceString x = t) [SourceQueue, SourceEvent, SourceDAG, SourceWorkflow]"

definition stateOf :: "change_entity \<Rightarrow> string \<Rightarrow> change_state" where
  "stateOf e t =
     (if e = ChangeJob then
        (case find (\<lambda>x. jobStateString x = t) [StatePending, StateScheduled, StateActive, StateDead, StatePaused,
           StateSucceeded, StateBlocked, StateWaiting, StateCancelled, StateUncertain, StateSkipped] of
           None \<Rightarrow> NoState | Some st \<Rightarrow> JobSt st)
      else if e = ChangeDAG then
        (case find (\<lambda>x. dagStateString x = t) [DAGRunning, DAGSuspended, DAGCompensating, DAGPaused, DAGSucceeded,
           DAGFailed, DAGCancelled] of
           None \<Rightarrow> NoState | Some st \<Rightarrow> DagSt st)
      else NoState)"

text \<open>\<open>decode\<close> is \<open>json.Unmarshal\<close> into the wire record, \<open>parseUUID\<close> is \<open>uuid.Parse\<close>.\<close>

definition parseChange ::
  "(string \<Rightarrow> changeWire option) \<Rightarrow> (string \<Rightarrow> uuid option) \<Rightarrow> string \<Rightarrow> (change \<times> string) option" where
  "parseChange decode parseUUID payload =
     Option.bind (decode payload) (\<lambda>w.
       if cwSchema w = [] then None
       else Option.bind (find (\<lambda>e. entityString e = cwEntity w) [ChangeJob, ChangeDAG, ChangeEvent]) (\<lambda>entity.
         let c = \<lparr>cEntity = entity, cSource = sourceOf (cwSource w), cID = Nil_uuid, cDAGID = Nil_uuid, cKind = cwKind w,
                  cTaskKey = cwTaskKey w, cState = stateOf entity (cwState w), cAt = cwAtMs w * 1000000,
                  cBulk = cwBulk w, cCount = cwCount w\<rparr>
         in if cwBulk w then Some (c, cwSchema w)
            else Option.bind (parseUUID (cwID w)) (\<lambda>i.
              if cwDAGID w = [] then Some (c\<lparr>cID := i\<rparr>, cwSchema w)
              else map_option (\<lambda>g. (c\<lparr>cID := i, cDAGID := g\<rparr>, cwSchema w)) (parseUUID (cwDAGID w)))))"

text \<open>
  The schema hints are filtered by: the configured one, else what the server answers to
  \<open>current_schema()\<close> (an error, null, or a name).
\<close>

definition resolveChangeSchema :: "string \<Rightarrow> error + string option \<Rightarrow> string \<Rightarrow> error + string" where
  "resolveChangeSchema schema answer changeSchema =
     (if changeSchema \<noteq> [] then Inr changeSchema
      else if schema \<noteq> [] then Inr schema
      else case answer of
             Inl e \<Rightarrow> Inl e
           | Inr None \<Rightarrow> Inl (OtherError ''azyncpgx: current_schema() resolves to nothing'')
           | Inr (Some name) \<Rightarrow>
               if name = [] then Inl (OtherError ''azyncpgx: current_schema() resolves to nothing'') else Inr name)"

definition matchesChangeSchema :: "string \<Rightarrow> string \<Rightarrow> bool" where
  "matchesChangeSchema changeSchema schema = (schema = changeSchema)"

definition parseChangePayload ::
  "(string \<Rightarrow> changeWire option) \<Rightarrow> (string \<Rightarrow> uuid option) \<Rightarrow> string \<Rightarrow> string \<Rightarrow> change option" where
  "parseChangePayload decode parseUUID changeSchema payload =
     (case parseChange decode parseUUID payload of
        None \<Rightarrow> None
      | Some (c, schema) \<Rightarrow> if matchesChangeSchema changeSchema schema then Some c else None)"

definition pgChanges ::
  "'a listenerCfg \<Rightarrow> string \<Rightarrow> error + string option \<Rightarrow> string \<Rightarrow> time \<Rightarrow> 'a listener \<Rightarrow>
   ((error + nat option) \<times> string) \<times> 'a listener" where
  "pgChanges cfg schema answer changeSchema now l =
     (if lnPollOnly cfg then ((Inr None, changeSchema), l)
      else case resolveChangeSchema schema answer changeSchema of
             Inl e \<Rightarrow> ((Inl e, changeSchema), l)
           | Inr resolved \<Rightarrow> (let (res, l') = subscribe cfg now l in ((res, resolved), l')))"

text \<open>The listeners the store builds: wakeups drop what does not fit, changes reset.\<close>

definition wakeListener :: "bool \<Rightarrow> (string \<times> string) listenerCfg" where
  "wakeListener pollOnly = \<lparr>lnPollOnly = pollOnly, lnBuffer = pgWakeBuffer, lnParse = parseWake, lnReset = None\<rparr>"

definition changeListener ::
  "(string \<Rightarrow> changeWire option) \<Rightarrow> (string \<Rightarrow> uuid option) \<Rightarrow> string \<Rightarrow> bool \<Rightarrow> change listenerCfg" where
  "changeListener decode parseUUID changeSchema pollOnly =
     \<lparr>lnPollOnly = pollOnly, lnBuffer = pgChangeBuffer, lnParse = parseChangePayload decode parseUUID changeSchema,
      lnReset = Some resetAt\<rparr>"

section \<open>Watch subscriptions\<close>

definition defaultBuffer :: int where
  "defaultBuffer = 256"

record watchFilter =
  wfEntities :: "change_entity list"
  wfSources :: "source list"
  wfKinds :: "string list"
  wfDAGID :: uuid

definition matches :: "watchFilter \<Rightarrow> change \<Rightarrow> bool" where
  "matches f c =
     (if cEntity c = ChangeReset then True
      else if wfEntities f \<noteq> [] \<and> cEntity c \<notin> set (wfEntities f) then False
      else if wfSources f \<noteq> [] \<and> cEntity c = ChangeJob \<and> cSource c \<notin> Some ` set (wfSources f) then False
      else if cBulk c then True
      else if wfKinds f \<noteq> [] \<and> cKind c \<notin> set (wfKinds f) then False
      else if wfDAGID f \<noteq> Nil_uuid then
        (case cEntity c of ChangeDAG \<Rightarrow> cID c = wfDAGID f | ChangeJob \<Rightarrow> cDAGID c = wfDAGID f | _ \<Rightarrow> False)
      else True)"

record watchState =
  wsOut :: "change list"
  wsPendingReset :: bool

text \<open>One turn of the goroutine of \<open>Watcher.Watch\<close>; \<open>n\<close> is the buffer of the subscription.\<close>

definition send_hint :: "nat \<Rightarrow> change \<Rightarrow> watchState \<Rightarrow> watchState" where
  "send_hint n c ws =
     (if length (wsOut ws) < n
      then ws\<lparr>wsOut := wsOut ws @ [c], wsPendingReset := (if cEntity c = ChangeReset then False else wsPendingReset ws)\<rparr>
      else ws\<lparr>wsPendingReset := True\<rparr>)"

definition watch_turn :: "nat \<Rightarrow> watchFilter \<Rightarrow> change \<Rightarrow> watchState \<Rightarrow> watchState" where
  "watch_turn n f c ws =
     (if \<not> matches f c then ws
      else if wsPendingReset ws \<and> cEntity c \<noteq> ChangeReset then
        if length (wsOut ws) < n
        then send_hint n c (ws\<lparr>wsOut := wsOut ws @ [resetAt (cAt c)], wsPendingReset := False\<rparr>)
        else ws
      else send_hint n c ws)"

text \<open>The options of a watcher: the buffer, and whether core options were given.\<close>

record watchConfig =
  wcBuffer :: int
  wcCoreOptions :: nat

definition WithBuffer :: "int \<Rightarrow> watchConfig \<Rightarrow> error + watchConfig" where
  "WithBuffer n c = (if n \<le> 0 then Inl (OtherError ''watch: WithBuffer: value must be positive'') else Inr (c\<lparr>wcBuffer := n\<rparr>))"

definition WithCoreOptions :: "nat \<Rightarrow> watchConfig \<Rightarrow> error + watchConfig" where
  "WithCoreOptions k c = Inr (c\<lparr>wcCoreOptions := wcCoreOptions c + k\<rparr>)"

fun apply_options :: "('c \<Rightarrow> error + 'c) list \<Rightarrow> 'c \<Rightarrow> error + 'c" where
  "apply_options [] c = Inr c"
| "apply_options (opt # opts) c = (case opt c of Inl e \<Rightarrow> Inl e | Inr c' \<Rightarrow> apply_options opts c')"

definition resolveWatchConfig :: "(watchConfig \<Rightarrow> error + watchConfig) list \<Rightarrow> bool \<Rightarrow> error + watchConfig" where
  "resolveWatchConfig opts forOpen =
     (case apply_options opts \<lparr>wcBuffer = defaultBuffer, wcCoreOptions = 0\<rparr> of
        Inl e \<Rightarrow> Inl e
      | Inr c \<Rightarrow> if \<not> forOpen \<and> wcCoreOptions c > 0
                 then Inl (OtherError ''watch: WithCoreOptions applies only to Open'') else Inr c)"

section \<open>From the database to the client\<close>

text \<open>
  The stream of one client: the notifications on the listening connection (already
  parsed; a payload that is not ours goes nowhere), the listener with all its
  subscriptions, the watch goroutine of the client, and what the client has received.
  \<open>smOwed\<close> is a history variable: the hints of the client's filter that were sent and that
  the client has neither received nor covered by refetching on a later reset.
\<close>

record stream =
  smLive :: bool
  smWire :: "change list"
  smListener :: "change listener"
  smWatch :: watchState
  smSeen :: "change list"
  smOwed :: "change multiset"

definition is_reset :: "change \<Rightarrow> bool" where
  "is_reset c = (cEntity c = ChangeReset)"

definition settle_owed :: "change \<Rightarrow> change multiset \<Rightarrow> change multiset" where
  "settle_owed c owed = (if is_reset c then {#} else owed - {#c#})"

text \<open>
  The steps: a committed change is notified; the listener reads a notification; the
  goroutine takes one hint from its subscription \<open>i\<close>; the client receives one; the
  connection breaks, which loses what it carried; the listener notices; it listens
  again; it announces that; other subscriptions come and go.
\<close>

inductive stream_step ::
  "change listenerCfg \<Rightarrow> nat \<Rightarrow> watchFilter \<Rightarrow> nat \<Rightarrow> stream \<Rightarrow> stream \<Rightarrow> bool" for cfg n f i where
  emit: "\<not> is_reset c \<Longrightarrow> stream_step cfg n f i st
    (st\<lparr>smWire := (if smLive st then smWire st @ [c] else smWire st),
        smOwed := (if matches f c then add_mset c (smOwed st) else smOwed st)\<rparr>)"
| read: "smLive st \<Longrightarrow> lnConnected (smListener st) \<Longrightarrow> smWire st = c # cs \<Longrightarrow> stream_step cfg n f i st
    (st\<lparr>smWire := cs, smListener := broadcast cfg now c (smListener st)\<rparr>)"
| turn: "map_of (lnSubs (smListener st)) i = Some sub \<Longrightarrow> sbCh sub = c # cs \<Longrightarrow> stream_step cfg n f i st
    (st\<lparr>smListener := (smListener st)\<lparr>lnSubs := AList.update i (sub\<lparr>sbCh := cs\<rparr>) (lnSubs (smListener st))\<rparr>,
        smWatch := watch_turn n f c (smWatch st)\<rparr>)"
| receive: "wsOut (smWatch st) = c # cs \<Longrightarrow> stream_step cfg n f i st
    (st\<lparr>smWatch := (smWatch st)\<lparr>wsOut := cs\<rparr>, smSeen := smSeen st @ [c], smOwed := settle_owed c (smOwed st)\<rparr>)"
| lose: "stream_step cfg n f i st (st\<lparr>smLive := False, smWire := []\<rparr>)"
| mark_down: "\<not> smLive st \<Longrightarrow> stream_step cfg n f i st (st\<lparr>smListener := markDisconnected (smListener st)\<rparr>)"
| listen: "\<not> smLive st \<Longrightarrow> \<not> lnConnected (smListener st) \<Longrightarrow> stream_step cfg n f i st (st\<lparr>smLive := True, smWire := []\<rparr>)"
| announce: "smLive st \<Longrightarrow> \<not> lnConnected (smListener st) \<Longrightarrow> stream_step cfg n f i st
    (st\<lparr>smListener := markConnectedAndReset cfg now (smListener st)\<rparr>)"
| join: "subscribe cfg now (smListener st) = (Inr (Some j), l) \<Longrightarrow> stream_step cfg n f i st (st\<lparr>smListener := l\<rparr>)"
| leave: "j \<noteq> i \<Longrightarrow> stream_step cfg n f i st (st\<lparr>smListener := removeSubscriber j (smListener st)\<rparr>)"

section \<open>No gap is silent\<close>

text \<open>
  A gap is announced: a reset is on its way, or a mark that forces one before any
  further hint, or the connection is down and will announce itself when it is back.
\<close>

definition alarm :: "stream \<Rightarrow> change subscription \<Rightarrow> bool" where
  "alarm st sub =
     (list_ex is_reset (sbCh sub @ wsOut (smWatch st)) \<or> sbOverflowed sub \<or> wsPendingReset (smWatch st) \<or>
      \<not> (smLive st \<and> lnConnected (smListener st)))"

definition on_the_way :: "watchFilter \<Rightarrow> stream \<Rightarrow> change subscription \<Rightarrow> change multiset" where
  "on_the_way f st sub = filter_mset (matches f) (mset (smWire st) + mset (sbCh sub) + mset (wsOut (smWatch st)))"

definition opening_reset :: "stream \<Rightarrow> change subscription \<Rightarrow> bool" where
  "opening_reset st sub =
     (case smSeen st @ wsOut (smWatch st) @ sbCh sub of
        [] \<Rightarrow> \<not> sbOverflowed sub \<and> \<not> lnConnected (smListener st) \<and> \<not> wsPendingReset (smWatch st)
      | c # cs \<Rightarrow> is_reset c)"

definition listener_ok :: "'a listener \<Rightarrow> bool" where
  "listener_ok l = (distinct_keys (lnSubs l) \<and> (\<forall>i\<in>fst ` set (lnSubs l). i < lnNext l))"

definition stream_inv :: "change listenerCfg \<Rightarrow> nat \<Rightarrow> watchFilter \<Rightarrow> nat \<Rightarrow> stream \<Rightarrow> bool" where
  "stream_inv cfg n f i st =
     (\<exists>sub. map_of (lnSubs (smListener st)) i = Some sub \<and> listener_ok (smListener st) \<and>
        length (sbCh sub) \<le> lnBuffer cfg \<and> length (wsOut (smWatch st)) \<le> n \<and> opening_reset st sub \<and>
        (alarm st sub \<or> smOwed st \<subseteq># on_the_way f st sub))"

lemma matches_reset [simp]: "is_reset c \<Longrightarrow> matches f c" "is_reset (resetAt t)"
  by (simp_all add: is_reset_def matches_def resetAt_def)

lemma map_of_subs: "map_of (map (\<lambda>(i, sub). (i, g sub)) subs) i = map_option g (map_of subs i)"
  by (induction subs) auto

text \<open>What a delivery does to a subscription: it is bounded and loses a value only under a mark.\<close>

lemma deliver_cases:
  assumes "lnReset cfg = Some resetAt" "length (sbCh sub) \<le> lnBuffer cfg" "0 < lnBuffer cfg"
  obtains (fits) "\<not> sbOverflowed sub" "deliverLocked cfg now v sub = sub\<lparr>sbCh := sbCh sub @ [v]\<rparr>" "length (sbCh sub) < lnBuffer cfg"
  | (full) "sbCh sub \<noteq> []" "deliverLocked cfg now v sub = sub\<lparr>sbOverflowed := True\<rparr>"
  | (announced) xs where "deliverLocked cfg now v sub = \<lparr>sbCh = sbCh sub @ resetAt now # xs, sbOverflowed = (xs = [])\<rparr>"
      "xs = [] \<or> xs = [v]" "length (sbCh sub @ resetAt now # xs) \<le> lnBuffer cfg"
proof (cases "length (sbCh sub) < lnBuffer cfg")
  case True
  show ?thesis
  proof (cases "sbOverflowed sub")
    case True
    with \<open>length (sbCh sub) < lnBuffer cfg\<close> announced [of "if Suc (length (sbCh sub)) < lnBuffer cfg then [v] else []"] assms(1)
    show ?thesis by (auto simp: deliverLocked_def Let_def split: if_splits)
  qed (use True fits in \<open>simp add: deliverLocked_def\<close>)
next
  case False
  with assms have "sbCh sub \<noteq> []" by auto
  moreover have "deliverLocked cfg now v sub = sub\<lparr>sbOverflowed := True\<rparr>"
    using False assms(1) by (cases sub) (auto simp: deliverLocked_def split: option.splits)
  ultimately show ?thesis by (rule full)
qed

lemma turn_cases:
  assumes "length (wsOut ws) \<le> n" "0 < n"
  obtains (dropped) "\<not> matches f c" "watch_turn n f c ws = ws"
  | (sent) "matches f c" "\<not> wsPendingReset ws \<or> is_reset c"
      "watch_turn n f c ws = \<lparr>wsOut = wsOut ws @ [c], wsPendingReset = False\<rparr>" "length (wsOut ws) < n"
  | (marked) "wsOut ws \<noteq> []" "watch_turn n f c ws = ws\<lparr>wsPendingReset := True\<rparr>"
  | (announced) xs where "wsPendingReset ws"
      "watch_turn n f c ws = \<lparr>wsOut = wsOut ws @ resetAt (cAt c) # xs, wsPendingReset = (xs = [])\<rparr>"
      "\<not> is_reset c" "length (wsOut ws @ resetAt (cAt c) # xs) \<le> n"
proof (cases "matches f c")
  case m: True
  show ?thesis
  proof (cases "length (wsOut ws) < n")
    case True
    show ?thesis
    proof (cases "wsPendingReset ws \<and> \<not> is_reset c")
      case True
      with \<open>length (wsOut ws) < n\<close> m announced [of "if Suc (length (wsOut ws)) < n then [c] else []"]
      show ?thesis by (auto simp: watch_turn_def send_hint_def is_reset_def split: if_splits)
    next
      case False
      with \<open>length (wsOut ws) < n\<close> m sent show ?thesis
        by (cases ws) (auto simp: watch_turn_def send_hint_def is_reset_def split: if_splits)
    qed
  next
    case False
    with assms have "wsOut ws \<noteq> []" by auto
    moreover have "watch_turn n f c ws = ws\<lparr>wsPendingReset := True\<rparr>"
      using False m by (cases ws) (auto simp: watch_turn_def send_hint_def)
    ultimately show ?thesis by (rule marked)
  qed
qed (use dropped in \<open>simp add: watch_turn_def\<close>)

lemma opening_reset_app:
  assumes "smSeen st @ wsOut (smWatch st) @ sbCh sub \<noteq> []" "opening_reset st sub"
    and "smSeen st' @ wsOut (smWatch st') @ sbCh sub' = (smSeen st @ wsOut (smWatch st) @ sbCh sub) @ xs"
  shows "opening_reset st' sub'"
  using assms(1,2) unfolding opening_reset_def assms(3) by (cases "smSeen st @ wsOut (smWatch st) @ sbCh sub") simp_all

lemma inv_delivered:
  assumes inv: "map_of (lnSubs (smListener st)) i = Some sub" "listener_ok (smListener st)"
    "length (sbCh sub) \<le> lnBuffer cfg" "length (wsOut (smWatch st)) \<le> n" "opening_reset st sub"
    and cfg: "lnReset cfg = Some resetAt" "0 < lnBuffer cfg"
    and begun: "smSeen st @ wsOut (smWatch st) @ sbCh sub \<noteq> [] \<or> is_reset v \<and> \<not> sbOverflowed sub"
    and st': "smWatch st' = smWatch st" "smSeen st' = smSeen st" "lnNext (smListener st') = lnNext (smListener st)"
      "lnSubs (smListener st') = map (\<lambda>(i, sub). (i, deliverLocked cfg now v sub)) (lnSubs (smListener st))"
    and owed: "is_reset v \<or> (alarm st sub \<longrightarrow> alarm st' sub) \<and>
      (alarm st sub \<or> smOwed st \<subseteq># on_the_way f st sub) \<and> smWire st = v # smWire st' \<and> smOwed st' = smOwed st"
  shows "stream_inv cfg n f i st'"
proof -
  let ?sub = "deliverLocked cfg now v sub"
  have look: "map_of (lnSubs (smListener st')) i = Some ?sub" by (simp add: st' map_of_subs inv)
  have keys: "map fst (lnSubs (smListener st')) = map fst (lnSubs (smListener st))" by (simp add: st' comp_def case_prod_unfold)
  have ok: "listener_ok (smListener st')"
    using inv(2) keys st'(3) unfolding listener_ok_def by (metis list.set_map)
  have "length (sbCh ?sub) \<le> lnBuffer cfg \<and> opening_reset st' ?sub \<and> (alarm st' ?sub \<or> smOwed st' \<subseteq># on_the_way f st' ?sub)"
    using cfg(1) inv(3) cfg(2)
  proof (cases rule: deliver_cases [where now = now and v = v])
    case fits
    have "opening_reset st' ?sub"
    proof (cases "smSeen st @ wsOut (smWatch st) @ sbCh sub = []")
      case True
      with begun st' fits(2) show ?thesis by (auto simp: opening_reset_def)
    next
      case False
      then show ?thesis by (rule opening_reset_app [OF _ inv(5), of st' _ "[v]"]) (simp add: st' fits(2))
    qed
    moreover have "alarm st' ?sub \<or> smOwed st' \<subseteq># on_the_way f st' ?sub"
      using owed by (auto simp: fits(2) alarm_def on_the_way_def st')
    ultimately show ?thesis using fits by simp
  next
    case full
    have "opening_reset st' ?sub"
      by (rule opening_reset_app [OF _ inv(5), of st' _ "[]"]) (simp_all add: st' full)
    then show ?thesis using inv(3) by (simp add: full(2) alarm_def)
  next
    case (announced xs)
    have "opening_reset st' ?sub"
    proof (cases "smSeen st @ wsOut (smWatch st) @ sbCh sub = []")
      case True
      then show ?thesis by (simp add: opening_reset_def st' announced(1))
    next
      case False
      then show ?thesis by (rule opening_reset_app [OF _ inv(5), of st' _ "resetAt now # xs"]) (simp add: st' announced(1))
    qed
    then show ?thesis using announced(3) by (simp add: announced(1) alarm_def)
  qed
  with look ok inv(4) show ?thesis unfolding stream_inv_def st'(1) by blast
qed

lemma opening_reset_iff:
  "opening_reset st sub =
     (if smSeen st \<noteq> [] then is_reset (hd (smSeen st))
      else if wsOut (smWatch st) \<noteq> [] then is_reset (hd (wsOut (smWatch st)))
      else if sbCh sub \<noteq> [] then is_reset (hd (sbCh sub))
      else \<not> sbOverflowed sub \<and> \<not> lnConnected (smListener st) \<and> \<not> wsPendingReset (smWatch st))"
  by (cases "smSeen st"; cases "wsOut (smWatch st)"; cases "sbCh sub") (simp_all add: opening_reset_def)

lemma inv_turned:
  assumes inv: "stream_inv cfg n f i st" "0 < n" and sub: "map_of (lnSubs (smListener st)) i = Some sub" "sbCh sub = c # cs"
  shows "stream_inv cfg n f i
    (st\<lparr>smListener := (smListener st)\<lparr>lnSubs := AList.update i (sub\<lparr>sbCh := cs\<rparr>) (lnSubs (smListener st))\<rparr>,
        smWatch := watch_turn n f c (smWatch st)\<rparr>)" (is "stream_inv _ _ _ _ ?st")
proof -
  let ?sub = "sub\<lparr>sbCh := cs\<rparr>" and ?ws = "watch_turn n f c (smWatch st)"
  have i: "listener_ok (smListener st)" "length (sbCh sub) \<le> lnBuffer cfg" "length (wsOut (smWatch st)) \<le> n" "opening_reset st sub"
    "alarm st sub \<or> smOwed st \<subseteq># on_the_way f st sub"
    using inv(1) sub(1) by (auto simp: stream_inv_def)
  have look: "map_of (lnSubs (smListener ?st)) i = Some ?sub" by (simp add: AList.update_conv')
  have "i \<in> fst ` set (lnSubs (smListener st))" using sub(1) by (metis domI dom_map_of_conv_image_fst)
  then have ok: "listener_ok (smListener ?st)"
    using i(1) by (auto simp: listener_ok_def distinct_keys_update AList.dom_update)
  have first: "is_reset c \<or> smSeen st @ wsOut (smWatch st) \<noteq> []"
    using i(4) sub(2) by (auto simp: opening_reset_iff split: if_splits)
  have "length (wsOut ?ws) \<le> n \<and> opening_reset ?st ?sub \<and> (alarm ?st ?sub \<or> smOwed ?st \<subseteq># on_the_way f ?st ?sub)"
    using i(3) inv(2)
  proof (cases rule: turn_cases [where f = f and c = c])
    case dropped
    then have "smSeen st @ wsOut (smWatch st) \<noteq> []" using first by auto
    then have "opening_reset ?st ?sub" using i(4) sub(2) dropped(2) by (auto simp: opening_reset_iff split: if_splits)
    moreover have "alarm ?st ?sub \<or> smOwed ?st \<subseteq># on_the_way f ?st ?sub"
      using i(5) dropped sub(2) by (auto simp: alarm_def on_the_way_def)
    ultimately show ?thesis using i(3) dropped(2) by simp
  next
    case sent
    have "opening_reset ?st ?sub"
      using i(4) sub(2) sent(3) by (auto simp: opening_reset_iff split: if_splits)
    moreover have "alarm ?st ?sub \<or> smOwed ?st \<subseteq># on_the_way f ?st ?sub"
      using i(5) sent sub(2) by (auto simp: alarm_def on_the_way_def)
    ultimately show ?thesis using sent(3,4) by simp
  next
    case marked
    then have "opening_reset ?st ?sub" using i(4) sub(2) by (auto simp: opening_reset_iff split: if_splits)
    then show ?thesis using i(3) marked(2) by (simp add: alarm_def)
  next
    case (announced xs)
    then have "smSeen st @ wsOut (smWatch st) \<noteq> []" using first by auto
    then have "opening_reset ?st ?sub"
      using i(4) sub(2) announced(2) by (auto simp: opening_reset_iff split: if_splits)
    then show ?thesis using announced(2,4) by (simp add: alarm_def)
  qed
  with look ok i(2) sub(2) show ?thesis by (auto simp: stream_inv_def)
qed

lemma inv_received:
  assumes inv: "stream_inv cfg n f i st" and out: "wsOut (smWatch st) = c # cs"
  shows "stream_inv cfg n f i
    (st\<lparr>smWatch := (smWatch st)\<lparr>wsOut := cs\<rparr>, smSeen := smSeen st @ [c], smOwed := settle_owed c (smOwed st)\<rparr>)" (is "stream_inv _ _ _ _ ?st")
proof -
  obtain sub where i: "map_of (lnSubs (smListener st)) i = Some sub" "listener_ok (smListener st)"
    "length (sbCh sub) \<le> lnBuffer cfg" "length (wsOut (smWatch st)) \<le> n" "opening_reset st sub"
    "alarm st sub \<or> smOwed st \<subseteq># on_the_way f st sub"
    using inv by (auto simp: stream_inv_def)
  have "opening_reset ?st sub" using i(5) out by (simp add: opening_reset_iff split: if_splits)
  moreover have "alarm ?st sub \<or> smOwed ?st \<subseteq># on_the_way f ?st sub"
  proof (cases "is_reset c")
    case False
    show ?thesis
    proof (cases "alarm st sub")
      case True
      with False out have "alarm ?st sub" by (auto simp: alarm_def)
      then show ?thesis ..
    next
      case nalarm: False
      then have "smOwed st - {#c#} \<subseteq># on_the_way f st sub - {#c#}" using i(6) by (auto simp: subseteq_mset_def diff_le_mono)
      moreover have "on_the_way f st sub - {#c#} \<subseteq># on_the_way f ?st sub"
        by (auto simp: on_the_way_def out diff_subset_eq_self)
      ultimately have "smOwed ?st \<subseteq># on_the_way f ?st sub" using False by (auto simp: settle_owed_def)
      then show ?thesis ..
    qed
  qed (simp add: settle_owed_def)
  ultimately show ?thesis using i out by (auto simp: stream_inv_def)
qed

lemma inv_frame:
  assumes inv: "stream_inv cfg n f i st" and same: "smWatch st' = smWatch st" "smSeen st' = smSeen st"
    "map_of (lnSubs (smListener st')) i = map_of (lnSubs (smListener st)) i" "listener_ok (smListener st')"
    and conn: "lnConnected (smListener st') = lnConnected (smListener st) \<or> \<not> lnConnected (smListener st')"
    and owed: "\<And>sub. alarm st sub \<or> smOwed st \<subseteq># on_the_way f st sub \<Longrightarrow> alarm st' sub \<or> smOwed st' \<subseteq># on_the_way f st' sub"
  shows "stream_inv cfg n f i st'"
proof -
  obtain sub where i: "map_of (lnSubs (smListener st)) i = Some sub" "length (sbCh sub) \<le> lnBuffer cfg"
    "length (wsOut (smWatch st)) \<le> n" "opening_reset st sub" "alarm st sub \<or> smOwed st \<subseteq># on_the_way f st sub"
    using inv by (auto simp: stream_inv_def)
  have "opening_reset st' sub" using i(4) conn by (auto simp: opening_reset_iff same split: if_splits)
  with i same(3,4) owed [OF i(5)] show ?thesis unfolding stream_inv_def same(1) by metis
qed

lemma subscribe_ok:
  assumes "listener_ok l" "subscribe cfg now l = (Inr (Some j), l')"
  shows "listener_ok l'" "map_of (lnSubs l) i \<noteq> None \<Longrightarrow> map_of (lnSubs l') i = map_of (lnSubs l) i"
    "j \<notin> fst ` set (lnSubs l)" "lnConnected l' = lnConnected l"
    "lnReset cfg = Some reset \<Longrightarrow>
      map_of (lnSubs l') j = Some \<lparr>sbCh = if lnConnected l then [reset now] else [], sbOverflowed = False\<rparr>"
proof -
  have l': "j = lnNext l" "lnNext l' = Suc (lnNext l)" "lnConnected l' = lnConnected l"
    "lnSubs l' = lnSubs l @ [(lnNext l, \<lparr>sbCh = (case lnReset cfg of Some reset \<Rightarrow> if lnConnected l then [reset now] else [] | None \<Rightarrow> []),
       sbOverflowed = False\<rparr>)]"
    using assms(2) by (auto simp: subscribe_def ensureStartedLocked_def Let_def split: if_splits option.splits)
  show fresh: "j \<notin> fst ` set (lnSubs l)" using assms(1) by (auto simp: listener_ok_def l'(1))
  then have none: "map_of (lnSubs l) j = None" by (simp add: map_of_eq_None_iff)
  show "listener_ok l'" using assms(1) fresh by (auto simp: listener_ok_def l' less_Suc_eq)
  show "map_of (lnSubs l) i \<noteq> None \<Longrightarrow> map_of (lnSubs l') i = map_of (lnSubs l) i" by (auto simp: l'(4) map_add_def)
  show "lnConnected l' = lnConnected l" by (rule l')
  show "lnReset cfg = Some reset \<Longrightarrow>
      map_of (lnSubs l') j = Some \<lparr>sbCh = if lnConnected l then [reset now] else [], sbOverflowed = False\<rparr>"
    using none by (simp add: l'(1,4) map_add_def)
qed

lemma stream_inv_ok: "stream_inv cfg n f i st \<Longrightarrow> listener_ok (smListener st)"
  by (auto simp: stream_inv_def)

lemma stream_step_inv:
  assumes cfg: "lnReset cfg = Some resetAt" "0 < lnBuffer cfg" "0 < n" and "stream_step cfg n f i st st'" "stream_inv cfg n f i st"
  shows "stream_inv cfg n f i st'"
  using assms(4,5)
proof (induction rule: stream_step.induct)
  case (emit c st)
  then show ?case
    by (intro inv_frame [OF emit.prems])
      (auto simp: stream_inv_ok [OF emit.prems] alarm_def on_the_way_def ac_simps)
next
  case (read st c cs now)
  obtain sub where i: "map_of (lnSubs (smListener st)) i = Some sub" "listener_ok (smListener st)"
    "length (sbCh sub) \<le> lnBuffer cfg" "length (wsOut (smWatch st)) \<le> n" "opening_reset st sub"
    "alarm st sub \<or> smOwed st \<subseteq># on_the_way f st sub"
    using read.prems by (auto simp: stream_inv_def)
  have begun: "smSeen st @ wsOut (smWatch st) @ sbCh sub \<noteq> []"
    using i(5) read(2) by (auto simp: opening_reset_iff split: if_splits)
  show ?case
    by (rule inv_delivered [OF i(1-5) cfg(1,2), of c _ now])
      (use begun i(6) read in \<open>auto simp: broadcast_def alarm_def\<close>)
next
  case (turn st sub c cs)
  then show ?case using inv_turned [OF turn.prems cfg(3)] by blast
next
  case (receive st c cs)
  then show ?case by (intro inv_received)
next
  case (lose st)
  then show ?case by (intro inv_frame [OF lose.prems]) (auto simp: stream_inv_ok alarm_def)
next
  case (mark_down st)
  then show ?case by (intro inv_frame [OF mark_down.prems]) (use stream_inv_ok [OF mark_down.prems] in \<open>auto simp: alarm_def markDisconnected_def listener_ok_def\<close>)
next
  case (listen st)
  then show ?case by (intro inv_frame [OF listen.prems]) (auto simp: stream_inv_ok alarm_def)
next
  case (announce st now)
  obtain sub where i: "map_of (lnSubs (smListener st)) i = Some sub" "listener_ok (smListener st)"
    "length (sbCh sub) \<le> lnBuffer cfg" "length (wsOut (smWatch st)) \<le> n" "opening_reset st sub"
    using announce.prems by (auto simp: stream_inv_def)
  have "smSeen st @ wsOut (smWatch st) @ sbCh sub \<noteq> [] \<or> is_reset (resetAt now) \<and> \<not> sbOverflowed sub"
    using i(5) by (auto simp: opening_reset_iff split: if_splits)
  then show ?case
    by (rule inv_delivered [OF i(1-5) cfg(1,2), where now = now]) (auto simp: markConnectedAndReset_def cfg(1) Let_def)
next
  case (join now st j l)
  have "listener_ok (smListener st)" "map_of (lnSubs (smListener st)) i \<noteq> None" using join.prems by (auto simp: stream_inv_def)
  note s = subscribe_ok [OF this(1) join(1)] this
  show ?case
    by (rule inv_frame [OF join.prems]) (use s in \<open>auto simp: alarm_def on_the_way_def\<close>)
next
  case (leave j st)
  then show ?case
    by (intro inv_frame [OF leave.prems])
      (use stream_inv_ok [OF leave.prems] in \<open>auto simp: alarm_def on_the_way_def removeSubscriber_def listener_ok_def distinct_delete delete_conv' in_set_delete\<close>)
qed

text \<open>A client that just subscribed, at a listener in any state.\<close>

definition stream_start :: "bool \<Rightarrow> change list \<Rightarrow> change listener \<Rightarrow> stream" where
  "stream_start live wire l = \<lparr>smLive = live, smWire = wire, smListener = l,
     smWatch = \<lparr>wsOut = [], wsPendingReset = False\<rparr>, smSeen = [], smOwed = {#}\<rparr>"

lemma stream_start_inv:
  assumes "lnReset cfg = Some resetAt" "0 < lnBuffer cfg" "listener_ok l" "subscribe cfg now l = (Inr (Some i), l')"
  shows "stream_inv cfg n f i (stream_start live wire l')"
  using subscribe_ok [OF assms(3,4)] assms(1,2)
  by (simp add: stream_inv_def stream_start_def opening_reset_iff)


text \<open>
  A run with a subscription of one slot: the client refetches on the opening reset,
  receives a first hint, and the second one finds the buffer full.
\<close>

definition run_hint :: "uuid \<Rightarrow> change" where
  "run_hint i = \<lparr>cEntity = ChangeEvent, cSource = None, cID = i, cDAGID = Nil_uuid, cKind = ''t'', cTaskKey = [],
     cState = NoState, cAt = 7, cBulk = False, cCount = 0\<rparr>"

definition all_hints :: watchFilter where
  "all_hints = \<lparr>wfEntities = [], wfSources = [], wfKinds = [], wfDAGID = Nil_uuid\<rparr>"

definition small_cfg :: "change listenerCfg" where
  "small_cfg = \<lparr>lnPollOnly = False, lnBuffer = 4, lnParse = (\<lambda>_. None), lnReset = Some resetAt\<rparr>"

definition up_listener :: "(nat \<times> change subscription) list \<Rightarrow> change listener" where
  "up_listener subs = \<lparr>lnSubs = subs, lnNext = 1, lnStarted = True, lnConnected = True, lnClosed = False\<rparr>"

definition one_slot :: "change list \<Rightarrow> change list \<Rightarrow> change list \<Rightarrow> bool \<Rightarrow> change list \<Rightarrow> change multiset \<Rightarrow> stream" where
  "one_slot wire ch out pend seen owed = \<lparr>smLive = True, smWire = wire, smListener = up_listener [(0, \<lparr>sbCh = ch, sbOverflowed = False\<rparr>)],
     smWatch = \<lparr>wsOut = out, wsPendingReset = pend\<rparr>, smSeen = seen, smOwed = owed\<rparr>"

lemmas one_slot_simps = one_slot_def up_listener_def small_cfg_def broadcast_def deliverLocked_def watch_turn_def send_hint_def
  matches_def all_hints_def run_hint_def resetAt_def settle_owed_def is_reset_def

abbreviation small_step :: "stream \<Rightarrow> stream \<Rightarrow> bool" where
  "small_step \<equiv> stream_step small_cfg 1 all_hints 0"

lemma small_emit: "small_step (one_slot wire ch out pend seen owed) (one_slot (wire @ [run_hint k]) ch out pend seen (add_mset (run_hint k) owed))"
  using stream_step.emit [of "run_hint k" small_cfg 1 all_hints 0 "one_slot wire ch out pend seen owed"]
  by (simp add: one_slot_simps)

lemma small_read: "small_step (one_slot (run_hint k # wire) [] out pend seen owed) (one_slot wire [run_hint k] out pend seen owed)"
  using stream_step.read [of "one_slot (run_hint k # wire) [] out pend seen owed" "run_hint k" wire small_cfg 1 all_hints 0 0]
  by (simp add: one_slot_simps)

lemma small_turn:
  "small_step (one_slot wire (c # ch) out pend seen owed)
     (one_slot wire ch (wsOut (watch_turn 1 all_hints c \<lparr>wsOut = out, wsPendingReset = pend\<rparr>))
       (wsPendingReset (watch_turn 1 all_hints c \<lparr>wsOut = out, wsPendingReset = pend\<rparr>)) seen owed)"
  using stream_step.turn [of "one_slot wire (c # ch) out pend seen owed" 0 "\<lparr>sbCh = c # ch, sbOverflowed = False\<rparr>" c ch small_cfg 1 all_hints]
  by (cases "watch_turn 1 all_hints c \<lparr>wsOut = out, wsPendingReset = pend\<rparr>") (simp add: one_slot_def up_listener_def)

lemma small_receive:
  "small_step (one_slot wire ch (c # out) pend seen owed) (one_slot wire ch out pend (seen @ [c]) (settle_owed c owed))"
  using stream_step.receive [of "one_slot wire ch (c # out) pend seen owed" c out small_cfg 1 all_hints 0]
  by (simp add: one_slot_def)

lemma one_slot_run:
  "small_step\<^sup>*\<^sup>* (one_slot [] [resetAt 5] [] False [] {#}) (one_slot [] [] [] True [resetAt 5, run_hint 1] {#run_hint 2#})"
proof -
  have 1: "small_step (one_slot [] [resetAt 5] [] False [] {#}) (one_slot [] [] [resetAt 5] False [] {#})"
    using small_turn [of "[]" "resetAt 5" "[]" "[]" False "[]" "{#}"] by (simp add: one_slot_simps)
  have 2: "small_step (one_slot [] [] [resetAt 5] False [] {#}) (one_slot [] [] [] False [resetAt 5] {#})"
    using small_receive [of "[]" "[]" "resetAt 5" "[]" False "[]" "{#}"] by (simp add: settle_owed_def)
  have 3: "small_step (one_slot [] [] [] False [resetAt 5] {#}) (one_slot [run_hint 1] [] [] False [resetAt 5] {#run_hint 1#})"
    using small_emit [of "[]" "[]" "[]" False "[resetAt 5]" "{#}" 1] by simp
  have 4: "small_step (one_slot [run_hint 1] [] [] False [resetAt 5] {#run_hint 1#})
      (one_slot [] [run_hint 1] [] False [resetAt 5] {#run_hint 1#})" by (rule small_read)
  have 5: "small_step (one_slot [] [run_hint 1] [] False [resetAt 5] {#run_hint 1#})
      (one_slot [] [] [run_hint 1] False [resetAt 5] {#run_hint 1#})"
    using small_turn [of "[]" "run_hint 1" "[]" "[]" False "[resetAt 5]" "{#run_hint 1#}"] by (simp add: watch_turn_def send_hint_def matches_def all_hints_def run_hint_def)
  have 6: "small_step (one_slot [] [] [run_hint 1] False [resetAt 5] {#run_hint 1#})
      (one_slot [run_hint 2] [] [run_hint 1] False [resetAt 5] {#run_hint 1, run_hint 2#})"
    using small_emit [of "[]" "[]" "[run_hint 1]" False "[resetAt 5]" "{#run_hint 1#}" 2] by (simp add: add_mset_commute)
  have 7: "small_step (one_slot [run_hint 2] [] [run_hint 1] False [resetAt 5] {#run_hint 1, run_hint 2#})
      (one_slot [] [run_hint 2] [run_hint 1] False [resetAt 5] {#run_hint 1, run_hint 2#})" by (rule small_read)
  have 8: "small_step (one_slot [] [run_hint 2] [run_hint 1] False [resetAt 5] {#run_hint 1, run_hint 2#})
      (one_slot [] [] [run_hint 1] True [resetAt 5] {#run_hint 1, run_hint 2#})"
    using small_turn [of "[]" "run_hint 2" "[]" "[run_hint 1]" False "[resetAt 5]" "{#run_hint 1, run_hint 2#}"] by (simp add: watch_turn_def send_hint_def matches_def all_hints_def run_hint_def)
  have 9: "small_step (one_slot [] [] [run_hint 1] True [resetAt 5] {#run_hint 1, run_hint 2#})
      (one_slot [] [] [] True [resetAt 5, run_hint 1] {#run_hint 2#})"
    using small_receive [of "[]" "[]" "run_hint 1" "[]" True "[resetAt 5]" "{#run_hint 1, run_hint 2#}"] by (simp add: settle_owed_def is_reset_def run_hint_def)
  from 1 2 3 4 5 6 7 8 9 show ?thesis by (meson converse_rtranclp_into_rtranclp rtranclp.rtrancl_refl)
qed

lemma one_slot_start:
  "listener_ok \<lparr>lnSubs = [], lnNext = 0, lnStarted = True, lnConnected = True, lnClosed = False\<rparr>"
  "subscribe small_cfg 5 \<lparr>lnSubs = [], lnNext = 0, lnStarted = True, lnConnected = True, lnClosed = False\<rparr> =
     (Inr (Some 0), up_listener [(0, \<lparr>sbCh = [resetAt 5], sbOverflowed = False\<rparr>)])"
  "stream_start True [] (up_listener [(0, \<lparr>sbCh = [resetAt 5], sbOverflowed = False\<rparr>)]) = one_slot [] [resetAt 5] [] False [] {#}"
  by (simp_all add: listener_ok_def subscribe_def small_cfg_def ensureStartedLocked_def up_listener_def stream_start_def one_slot_def)


text \<open>
  The mark alone is not a signal: in the state of the run above the client has received
  all there is, the connection is up, a hint is lost, and nothing is sent until
  another change of the filter happens to come.
\<close>

lemma quiet_gap:
  "\<exists>st. small_step\<^sup>*\<^sup>* (one_slot [] [resetAt 5] [] False [] {#}) st \<and> smOwed st = {#run_hint 2#} \<and> smLive st \<and>
     lnConnected (smListener st) \<and> smWire st = [] \<and> wsOut (smWatch st) = [] \<and>
     map_of (lnSubs (smListener st)) 0 = Some \<lparr>sbCh = [], sbOverflowed = False\<rparr>"
  by (rule exI, rule conjI, rule one_slot_run) (simp add: one_slot_def up_listener_def)

text \<open>The next hint of the filter does bring the reset.\<close>

lemma next_hint_recovers:
  assumes "wsPendingReset ws" "length (wsOut ws) < n" "matches f c" "\<not> is_reset c"
  shows "\<exists>xs. wsOut (watch_turn n f c ws) = wsOut ws @ resetAt (cAt c) # xs"
  using assms by (auto simp: watch_turn_def send_hint_def is_reset_def)

section \<open>The two drivers feed their clients alike\<close>

definition sub_of :: "changeSub \<Rightarrow> change subscription" where
  "sub_of s = \<lparr>sbCh = csCh s, sbOverflowed = csOverflowed s\<rparr>"

lemma deliver_is_notify:
  "deliverLocked (changeListener decode parseUUID schema poll) (cAt c) c (sub_of s) = sub_of (notifySub c s)"
  by (simp add: deliverLocked_def changeListener_def notifySub_def sub_of_def Let_def changeBuffer_def pgChangeBuffer_def)

lemma backoff_bounds:
  assumes "listenBackoffMin \<le> b" "b \<le> listenBackoffMax"
  shows "listenBackoffMin \<le> next_backoff connected b" "next_backoff connected b \<le> listenBackoffMax"
    "\<not> connected \<Longrightarrow> b < listenBackoffMax \<Longrightarrow> b < next_backoff connected b"
  using assms by (auto simp: next_backoff_def Let_def listenBackoffMin_def listenBackoffMax_def nsPerSecond_def)

text \<open>A closed listener has no subscriptions left and takes no more.\<close>

lemma listener_closed:
  assumes "listener_ok l" "\<not> lnPollOnly cfg"
  shows "\<not> lnClosed l \<Longrightarrow> lnSubs (listenerClose l) = []"
    "fst (subscribe cfg now (listenerClose l)) = Inl (OtherError ''azyncpgx: listener is closed'')"
proof -
  have none: "lnSubs (fold removeSubscriber ks m) = filter (\<lambda>e. fst e \<notin> set ks) (lnSubs m)" for ks and m :: "'a listener"
    by (induction ks arbitrary: m) (auto simp: removeSubscriber_def AList.delete_eq case_prod_unfold intro!: filter_cong)
  have closed: "lnClosed (fold removeSubscriber ks m) = lnClosed m" for ks and m :: "'a listener"
    by (rule fold_frame) (simp add: removeSubscriber_def)
  show "\<not> lnClosed l \<Longrightarrow> lnSubs (listenerClose l) = []"
    by (auto simp: listenerClose_def none filter_empty_conv)
  show "fst (subscribe cfg now (listenerClose l)) = Inl (OtherError ''azyncpgx: listener is closed'')"
    using assms(2) by (simp add: subscribe_def listenerClose_def closed)
qed

text \<open>A filter on a job's DAG or kind hides no coalesced hint, and none hides a reset.\<close>

lemma matches_bulk:
  "cBulk c \<Longrightarrow> wfEntities f = [] \<Longrightarrow> wfSources f = [] \<Longrightarrow> matches f c"
  by (simp add: matches_def)

lemma resolved_buffer_positive:
  "resolveWatchConfig opts forOpen = Inr c \<Longrightarrow> \<forall>opt\<in>set opts. (\<exists>n. opt = WithBuffer n) \<or> (\<exists>k. opt = WithCoreOptions k) \<Longrightarrow>
   0 < wcBuffer c"
proof -
  have "0 < wcBuffer c" if "apply_options os d = Inr c" "0 < wcBuffer d"
    "\<forall>opt\<in>set os. (\<exists>n. opt = WithBuffer n) \<or> (\<exists>k. opt = WithCoreOptions k)" for os d
    using that
    by (induction os arbitrary: d) (auto simp: WithBuffer_def WithCoreOptions_def split: sum.splits if_splits)
  then show "resolveWatchConfig opts forOpen = Inr c \<Longrightarrow>
      \<forall>opt\<in>set opts. (\<exists>n. opt = WithBuffer n) \<or> (\<exists>k. opt = WithCoreOptions k) \<Longrightarrow> 0 < wcBuffer c"
    by (auto simp: resolveWatchConfig_def defaultBuffer_def split: sum.splits if_splits)
qed

end
