(* ===== verification/Spec2Isabelle.thy ===== *)
theory Spec2Isabelle
  imports Fake_Store Dag_Define Dag_Signals Workflow_Worker Engine_Slots Runtime_Errors Pg_Admin Pg_Outbox Pg_Workflow Pg_Dag_Agree Change_Stream
begin

text \<open>
  A verification development for azync, a library of durable background work for
  Go: job queues, an event bus, static DAGs and workflows-as-code over one driver
  contract.

  \<^bold>\<open>Parts and how they interact.\<close> A driver (\<open>src/driver\<close>) is a store of jobs,
  events, DAGs and workflow executions. Every runtime turns its work into jobs of one
  source (queue, event, dag, workflow). Workers lease due jobs under a random token,
  run a handler and settle the job with the same token; the lease expires and the job
  is reaped when a worker dies. \<open>src/internal/engine\<close> is the worker loop of the queue,
  event and dag runtimes; \<open>src/workflow\<close> has its own, which replays a workflow
  function against its recorded history. \<open>src/internal/drivertest\<close> is the in-memory
  driver, which the repository uses as the reference for the semantics of the
  contract; \<open>src/driver/azyncpgx\<close> is the PostgreSQL driver, which production uses. The
  runtimes are run here on the in-memory driver, and the PostgreSQL driver is proved to
  agree with it.

  \<^bold>\<open>Theories and the code they model.\<close>
  \<^item> \<open>Azync_Prelude\<close>: Go values (instants and durations as integers, UUIDs, raw JSON),
    error values, Go maps as association lists, the \<open>range\<close> loop and its laws
    (locale \<open>pointwise_loop\<close>, interpreted by each loop of the store).
  \<^item> \<open>Driver_Rows\<close>: the records and states of \<open>driver/rows.go\<close>, \<open>dag.go\<close>, \<open>workflow.go\<close>.
  \<^item> \<open>Store_Contract\<close>: the worker-facing operations of \<open>driver.Store\<close> as a record, what
    each settlement does to a row, and the contract as the locale \<open>fenced_store\<close>.
  \<^item> \<open>Fake_State\<close>, \<open>Fake_Jobs\<close>, \<open>Fake_Admin\<close>, \<open>Fake_Ledger\<close>: the state and every method of
    \<open>fake.go\<close> and \<open>fake_watch.go\<close>; \<open>Fake_Jobs\<close> interprets \<open>fenced_store\<close>. \<open>Fake_Store\<close>
    holds the properties of these parts.
  \<^item> \<open>Fake_Dag\<close>: every method of \<open>fake_dag.go\<close>. \<open>Dag_Scheduler\<close> (promotion, completion,
    compensation; locale \<open>task_pass\<close>), \<open>Dag_Lifecycle\<close> (all operations interleaved) and
    \<open>Dag_Signals\<close> hold its properties.
  \<^item> \<open>Dag_Define\<close>: \<open>dag/define.go\<close>, \<open>dag/client.go\<close> and the scheduler pass of
    \<open>dag/worker.go\<close>; Kahn's algorithm with its termination proof.
  \<^item> \<open>Fake_Workflow\<close>: every method of \<open>fake_wac.go\<close>; \<open>Workflow_History\<close> its properties.
  \<^item> \<open>Workflow_Replay\<close>: \<open>workflow/kernel\<close>, the primitives of a workflow function and the
    replay pass. \<open>Workflow_Worker\<close>: \<open>workflow/worker.go\<close>, the operation executor of
    \<open>operation.go\<close>, the client and the manager.
  \<^item> \<open>Engine\<close>: \<open>backoff.go\<close>, \<open>executor.go\<close>, the configuration, classification and
    maintenance ticks of \<open>engine.go\<close> and \<open>maintenance.go\<close>, generic in the store (locale
    \<open>engine_store\<close>, which extends \<open>fenced_store\<close>). \<open>Engine_Slots\<close>: the fetch loops of
    \<open>fetcher.go\<close> with their semaphores and the shutdown as a step relation.
  \<^item> \<open>Runtime_Errors\<close>: the sentinels of \<open>queue/errors.go\<close>, \<open>event/errors.go\<close>, \<open>dag/errors.go\<close>.
  \<^item> \<open>Pg_Ident\<close>: \<open>ident.go\<close>, the channel names, the wakeup payloads and the lock keys of the
    PostgreSQL driver. \<open>Pg_Store\<close>: \<open>store_jobs.go\<close>, \<open>store_maintenance.go\<close> and the verbs of
    \<open>store_admin.go\<close>, statement by statement, on a record of tables. \<open>Pg_Loops\<close>: the
    batched loops reach what one unbounded statement would. \<open>Pg_Contract\<close>: the invariant
    of the tables, and \<open>fenced_store\<close> interpreted for this driver. \<open>Pg_Refines\<close>: the
    simulation with the in-memory driver. \<open>Pg_Ledger\<close>: \<open>store_events.go\<close> and the event
    listings, with their simulation. \<open>Pg_Drivers\<close>: runs of both drivers side by side (locale
    \<open>lockstep\<close>). \<open>Pg_Admin\<close>: the listings and statistics of \<open>store_admin.go\<close>.
    \<open>Pg_Workflow\<close>: \<open>workflow_store.go\<close>, its tables and its simulation. \<open>Pg_Dag\<close>:
    \<open>dag_store.go\<close>, statement by statement; \<open>Pg_Dag_Agree\<close>: its simulation.
  \<^item> \<open>Pg_Outbox\<close>: \<open>outbox.go\<close>, capture and drain, with captures and concurrent drains as a
    step relation over a target that meets the locale \<open>outbox_target\<close>.
  \<^item> \<open>Change_Stream\<close>: \<open>listener.go\<close>, \<open>changes.go\<close> and \<open>watch/watch.go\<close>, the path of a change
    hint from the database to a client as a step relation.
  \<^item> this theory: the engine run on the in-memory store.

  \<^bold>\<open>How state and operations correspond.\<close> A struct is a record with the struct's
  fields, an enumeration a datatype, a map an association list with distinct keys. A
  method that holds the mutex for its whole body is one function from state to result
  and state; its error returns are \<open>Inl\<close>. Concurrency is interleaving of such
  functions: \<open>dag_step\<close>, \<open>wf_step\<close>, \<open>slot_step\<close>, \<open>outbox_step\<close> and \<open>stream_step\<close> are the
  step relations, and a statement about them holds for every schedule. The store's clock is a field of the
  state, set by a step of its own. A Go panic is a value: the handler's panic in
  \<open>Engine\<close>, the park signal and replay errors in \<open>Workflow_Replay\<close>.

  \<^bold>\<open>Parameters.\<close> Code outside the repository is an argument: \<open>gen\<close> draws UUIDs
  (freshness is a hypothesis where it matters), \<open>codec\<close> is \<open>encoding/json\<close> and the
  rendering of values (\<open>codec_ok\<close> states the round trips that replay relies on; the
  codec \<open>plain_codec\<close> meets them), \<open>pgEnv\<close> is what the database server computes (interval
  and timestamp rounding, jsonb, random UUIDs and slots; \<open>exact_env\<close> says that whole
  seconds are kept), \<open>locked\<close> the rows other transactions hold, \<open>paramsCodec\<close> the JSON of the
  outbox (\<open>codec_keeps_ids\<close>: what was encoded is decoded with its id), \<open>wfJson\<close> the reading
  of history payloads by Go and by the server, \<open>dagJson\<close> the payload of a timer, \<open>sanitize\<close> the quoting
  of identifiers, \<open>decode\<close> and \<open>parseUUID\<close> the reading of change payloads, handlers and workflow functions are what the
  application supplies. A workflow function is the tree of its primitive calls.

  \<^bold>\<open>What the lemmas show.\<close>
  \<^item> Leases: a token settles its job at most once, exactly as the contract says, and a
    dequeue hands a job to one worker; keys deduplicate; promotion, reaping, vacuum,
    retention, replay, paging and the operator verbs do exactly what they name.
  \<^item> Engine: every handler outcome lands the job where it should, budgets end, slots are
    neither exceeded nor lost, shutdown drains, the 64-bit backoff stays within bounds.
  \<^item> DAGs: validation is exact, running inserts the declared graph, promotion and
    completion are exact, compensation is a chain in reverse order, a finished DAG stays
    finished, signals reach exactly their tasks, an idle DAG always has a next step.
  \<^item> Workflows: histories only grow and are numbered without gaps, a result is recorded
    once, a signal and a finished operation never go without a wakeup, each task is
    settled as its replay calls for, and a replay resumes where the history ends for
    functions that await what they start (\<open>sequential\<close>).
  \<^item> The PostgreSQL driver: its leases are fenced too, its batched loops end and drain, it
    answers every sequence of job and ledger operations as the in-memory driver does and
    shows operators the same listings; random counter slots cannot be observed, the
    trimming of counters keeps the retention, and wakeups are read back as sent. It runs
    workflows as the in-memory driver does: the same answers, jobs, executions and
    gapless histories under the conditions \<open>wf_ready\<close>, which exclude the known differences.
  \<^item> Outbox and change hints: a captured write is in the outbox or answered for, an event is
    accepted once, an undisturbed drain takes exactly the oldest rows; a hint that a client
    missed is always announced by a reset, at the latest before the next hint.
  \<^item> Lemmas named after a defect (\<open>retried_sleep_stranded\<close>, \<open>skipped_compensation_stranded\<close>,
    \<open>signal_key_burned\<close>, \<open>resolve_revives_cancelled\<close>, \<open>lost_timer_unreplayable\<close>,
    \<open>late_signal_changes_branch\<close>, \<open>early_result_strands\<close>, \<open>abandoned_lease_kept\<close>,
    \<open>window_claim_kept\<close>, \<open>retry_all_blocked\<close>, \<open>attempts_interleave\<close>, \<open>advisory_keys_collide\<close>,
    \<open>quiet_gap\<close>, \<open>mark_uncertain_half_done\<close>)
    prove that the code departs from what its comments promise.

  \<^bold>\<open>Bounds and termination.\<close> No definition uses fuel. The loops are folds or structural
  recursions; Kahn's loop terminates by the number of open edges and queued tasks; the
  batched loops of the PostgreSQL driver are a partial function (\<open>batch_loop\<close>), proved to
  return because each full batch shrinks the rows that match; the fetch loops drain by a rank of their phases. Instants and durations are unbounded
  integers, which differ from Go only beyond the range of 64-bit nanoseconds; the
  backoff, whose product can overflow, is computed on 64-bit words.

  \<^bold>\<open>Not modelled.\<close> The migrations and the connections of the PostgreSQL driver, the conformance suites and examples (test
  code), the typed front ends of the queue and event packages and the managers that only
  forward to the store, option parsing and construction of the core, metrics, tracing and
  logging, cron expressions (a third-party parser), and timers
  and goroutines beyond the step relations above.
\<close>

section \<open>The engine on the in-memory store\<close>

interpretation fe: engine_store "fake_ops gen" clock fake_job_at wf_jobs for gen
  by unfold_locales

text \<open>
  The job handed to an execution is the job the store leased: the same id, token,
  attempt and budget (a delivery also carries its event).
\<close>

definition leased_as :: "fake \<Rightarrow> job \<Rightarrow> bool" where
  "leased_as s job =
     (\<exists>j. fake_job_at s (jID job) = Some j \<and> jState j = StateActive \<and> jLeaseToken j = jLeaseToken job \<and>
          jAttempt j = jAttempt job \<and> jMaxAttempts j = jMaxAttempts job)"

lemma leased_asE:
  assumes "leased_as s job"
  obtains j where "fake_job_at s (jID job) = Some j" "jState j = StateActive" "jLeaseToken j = jLeaseToken job"
    "jAttempt j = jAttempt job" "jMaxAttempts j = jMaxAttempts job"
  using assms by (auto simp: leased_as_def)

text \<open>The state an execution leaves its job in, by what the handler returned.\<close>

definition landing :: "goError option \<Rightarrow> time \<Rightarrow> job \<Rightarrow> job_state" where
  "landing err t j =
     (case err of None \<Rightarrow> StateSucceeded | Some x \<Rightarrow>
        (case oKind (ClassifyOutcome x) of
           OutcomeSnooze \<Rightarrow> if deadlined t j then StateDead else StateScheduled
         | OutcomeSkip \<Rightarrow> StateSkipped
         | OutcomeAbort \<Rightarrow> StateDead
         | OutcomeRetry \<Rightarrow> if jAttempt j < jMaxAttempts j then StateScheduled else StateDead))"

lemma execute_lands:
  assumes wf: "wf_jobs s" and leased: "leased_as s job" and cls: "kClassify k = Some ClassifyOutcome"
    and e: "e = New (fake_ops gen) src stg None" and run: "runHandler k job = (result, err)"
    and readable: "err \<noteq> None \<Longrightarrow> errorText (the err) \<noteq> None"
  obtains l s' j j' where "execute e k job s = (Settled l, s')" "wf_jobs s'" "clock s' = clock s"
    "fake_job_at s (jID job) = Some j" "fake_job_at s' = (fake_job_at s)(jID job \<mapsto> j')"
    "jState j' = landing err (clock s) j"
    "jState j' = StateScheduled \<and> oKind (ClassifyOutcome (the err)) = OutcomeRetry \<longrightarrow> clock s < jRunAt j'"
    "\<forall>m. err = Some (Plain m) \<longrightarrow> j' = (if jAttempt j < jMaxAttempts j
       then wire_reschedule (Backoff (jAttempt j)) m (clock s) j else wire_dead m (clock s) j)"
proof -
  obtain j where j: "fake_job_at s (jID job) = Some j" "jState j = StateActive" "jLeaseToken j = jLeaseToken job"
    and same: "jAttempt j = jAttempt job" "jMaxAttempts j = jMaxAttempts job"
    by (rule leased_asE [OF leased])
  show thesis
  proof (cases err)
    case None
    then have none: "snd (runHandler k job) = None" using run by simp
    obtain s' where s': "execute e k job s = (Settled ''succeeded'', s')" "wf_jobs s'" "clock s' = clock s"
      "fake_job_at s' = (fake_job_at s)(jID job \<mapsto> wire_ack (clock s) j)"
      by (rule fe.execute_success [OF wf j e none])
    show thesis
      by (rule that [OF s'(1-3) j(1) s'(4)]) (simp_all add: None landing_def wire_ack_def)
  next
    case (Some x)
    with readable obtain msg0 where msg: "errorText x = Some msg0" by auto
    have some: "snd (runHandler k job) = Some x" using run Some by simp
    let ?d = "decide k job x msg0" let ?j' = "settle_wire ?d (clock s) j"
    obtain l s' where s': "execute e k job s = (Settled l, s')" "wf_jobs s'" "clock s' = clock s"
      "fake_job_at s' = (fake_job_at s)(jID job \<mapsto> ?j')"
      by (rule fe.execute_failure [OF wf j e some msg])
    have cl: "classify_of k y = ClassifyOutcome y" for y by (simp add: classify_of_def cls)
    have plain: "ClassifyOutcome (Plain m) = retryOutcome" for m by (simp add: ClassifyOutcome_def)
    show thesis
    proof (rule that [OF s'(1-3) j(1) s'(4)])
      show "jState ?j' = landing err (clock s) j"
        by (simp add: decide_state cl Some landing_def same split: outcomeKind.split)
      show "jState ?j' = StateScheduled \<and> oKind (ClassifyOutcome (the err)) = OutcomeRetry \<longrightarrow> clock s < jRunAt ?j'"
        using backoff_pos [of "jAttempt job"] Some by (auto simp: decide_def cl Let_def wire_defs split: if_splits)
    qed (use Some msg same in \<open>auto simp: decide_def cl plain retryOutcome_def Let_def\<close>)
  qed
qed


text \<open>
  C38: A handler that asks whether it will be retried is told the truth. For an
  execution within a positive budget, and apart from a snooze that has run past
  its deadline, \<open>WillRetry\<close> is true exactly when the settlement of the same error
  puts the job back to scheduled.
\<close>

theorem WillRetry_agrees:
  assumes wf: "wf_jobs s" and leased: "leased_as s job" and cls: "kClassify k = Some ClassifyOutcome"
    and e: "e = New (fake_ops gen) src stg None" and run: "runHandler k job = (result, Some x)"
    and readable: "errorText x \<noteq> None" and budget: "0 < jMaxAttempts job"
    and alive: "\<not> deadlined (clock s) (the (fake_job_at s (jID job)))"
  shows "WillRetry (Some x) (jAttempt job) (jMaxAttempts job) =
    (\<exists>j'. fake_job_at (snd (execute e k job s)) (jID job) = Some j' \<and> jState j' = StateScheduled)"
proof -
  have rd: "errorText (the (Some x)) \<noteq> None" using readable by simp
  obtain l s' j j' where x: "execute e k job s = (Settled l, s')" "fake_job_at s (jID job) = Some j"
    "fake_job_at s' = (fake_job_at s)(jID job \<mapsto> j')" "jState j' = landing (Some x) (clock s) j"
    by (rule execute_lands [OF wf leased cls e run rd])
  from leased x(2) have "jAttempt j = jAttempt job" "jMaxAttempts j = jMaxAttempts job" by (auto simp: leased_as_def)
  with x alive budget show ?thesis
    by (auto simp: WillRetry_def landing_def split: outcomeKind.splits)
qed

definition run_kind :: "handlerRun \<Rightarrow> kindReg" where
  "run_kind h =
     \<lparr>kName = ''mail'', kConcurrency = 2, kTimeout = 0, kMaxAttempts = 5, kMaxAttemptsSet = True,
      kHandler = (\<lambda>_. h), kClassify = Some ClassifyOutcome\<rparr>"

definition run_engine :: "fake engine" where
  "run_engine = New (fake_ops (\<lambda>n. 50 + n)) SourceQueue (scSettings run_cfg) None"

definition run_job :: job where
  "run_job = hd (run_out 1 run_queued)"

lemma run_job_leased: "leased_as run_leased run_job"
proof -
  let ?j = "the (fake_job_at run_leased (jID run_job))"
  have "fake_job_at run_leased (jID run_job) = Some ?j" "jState ?j = StateActive" "jLeaseToken ?j = jLeaseToken run_job"
    "jAttempt ?j = jAttempt run_job" "jMaxAttempts ?j = jMaxAttempts run_job" by code_simp+
  then show ?thesis unfolding leased_as_def by blast
qed


theorem WillRetry_agrees_witness:
  "WillRetry (Some (queue_Abort (Some (Plain ''bad'')))) 1 5 =
     (\<exists>j'. fake_job_at (snd (execute run_engine (run_kind (Returns None (Some (queue_Abort (Some (Plain ''bad'')))))) run_job run_leased)) 1
        = Some j' \<and> jState j' = StateScheduled)"
proof -
  let ?x = "queue_Abort (Some (Plain ''bad''))" let ?k = "run_kind (Returns None (Some ?x))"
  have cls: "kClassify ?k = Some ClassifyOutcome" by (simp add: run_kind_def)
  have run: "runHandler ?k run_job = (None, Some ?x)" by (simp add: runHandler_def run_kind_def)
  have rd: "errorText ?x \<noteq> None" by (simp add: queue_Abort_def jobError_def)
  have at: "jID run_job = 1" "jAttempt run_job = 1" "jMaxAttempts run_job = 5" by code_simp+
  have b: "0 < jMaxAttempts run_job" using at by simp
  have al: "\<not> deadlined (clock run_leased) (the (fake_job_at run_leased (jID run_job)))" by code_simp
  from WillRetry_agrees [OF run_wf(2) run_job_leased cls run_engine_def run rd b al] show ?thesis
    unfolding at .
qed

section \<open>The retry budget ends\<close>

text \<open>
  One cycle of a worker over a job: lease it (the batch is large enough for every
  stored job), run it, wait 300 seconds and promote what has come due.
\<close>

definition attempt_cycle ::
  "(nat \<Rightarrow> uuid) \<Rightarrow> settings \<Rightarrow> kindReg \<Rightarrow> dequeueParams \<Rightarrow> uuid \<Rightarrow> fake \<Rightarrow> fake" where
  "attempt_cycle gen stg k d jid s =
     (let (r, s1) = DequeueBatch gen SourceQueue (d\<lparr>dpLimit := int (length (jobs s))\<rparr>) s in
      case r of
        Inl err \<Rightarrow> s1
      | Inr out \<Rightarrow>
          (case find (\<lambda>j. jID j = jid) out of
             None \<Rightarrow> s1
           | Some job \<Rightarrow>
               let s2 = snd (execute (New (fake_ops gen) SourceQueue stg None) k job s1);
                   s3 = s2\<lparr>clock := clock s2 + 300 * nsPerSecond\<rparr>
               in snd (PromoteDue SourceQueue [dpKind d] s3)))"

definition waiting_at :: "dequeueParams \<Rightarrow> uuid \<Rightarrow> int \<Rightarrow> int \<Rightarrow> fake \<Rightarrow> bool" where
  "waiting_at d jid a m s =
     (wf_jobs s \<and> (\<exists>j. map_of (jobs s) jid = Some j \<and> is_due SourceQueue (dpKind d) (clock s) j \<and>
        jAttempt j = a \<and> jMaxAttempts j = m))"

definition dead_at :: "uuid \<Rightarrow> int \<Rightarrow> fake \<Rightarrow> bool" where
  "dead_at jid a s =
     (\<exists>j. fake_job_at s jid = Some j \<and> jState j = StateDead \<and> jAttempt j = a)"

lemma find_by_id:
  assumes "x \<in> set xs" "jID x = jid" "distinct (map jID xs)"
  shows "find (\<lambda>j. jID j = jid) xs = Some x"
  using assms by (induction xs) (auto simp: rev_image_eqI)

text \<open>A cycle in which the handler fails plainly spends exactly one attempt.\<close>

lemma failed_cycle:
  assumes w: "waiting_at d jid a m s" and keep: "\<not> dpOverrideDefault d"
    and cls: "kClassify k = Some ClassifyOutcome" and bad: "\<And>job. snd (runHandler k job) = Some (Plain msg)"
  shows "if a + 1 < m then waiting_at d jid (a + 1) m (attempt_cycle gen stg k d jid s)
    else dead_at jid (a + 1) (attempt_cycle gen stg k d jid s)"
proof -
  let ?d = "d\<lparr>dpLimit := int (length (jobs s))\<rparr>" let ?e = "New (fake_ops gen) SourceQueue stg None"
  from w obtain j where wf: "wf_jobs s" and j: "map_of (jobs s) jid = Some j"
    "is_due SourceQueue (dpKind d) (clock s) j" and am: "jAttempt j = a" "jMaxAttempts j = m"
    by (auto simp: waiting_at_def)
  obtain out s1 where deq: "DequeueBatch gen SourceQueue ?d s = (Inr out, s1)"
    by (cases "int (length (jobs s)) \<le> 0") (auto simp: DequeueBatch_def case_prod_unfold Let_def)
  have due': "is_due SourceQueue (dpKind ?d) (clock s) j" using j(2) by simp
  have room: "dpLimit ?d \<ge> int (length (jobs s))" by simp
  obtain tok where l: "rehydrate SourceQueue s (lease_job ?d (clock s) tok j) \<in> set out"
    "map_of (jobs s1) jid = Some (lease_job ?d (clock s) tok j)" "wf_jobs s1" "clock s1 = clock s"
    "distinct (map jID out)"
    by (rule full_batch_leases [OF wf room j(1) due' deq])
  let ?l = "lease_job ?d (clock s) tok j" let ?job = "rehydrate SourceQueue s ?l"
  have id: "jID j = jid" by (rule wf_jobsD(2) [OF wf j(1)])
  have f: "find (\<lambda>x. jID x = jid) out = Some ?job" by (rule find_by_id [OF l(1) _ l(5)]) (simp add: id)
  have ma: "jMaxAttempts ?l = m" using keep am by (simp add: lease_job_def)
  have at1: "fake_job_at s1 jid = Some (toJob ?l)" by (simp add: fake_job_at_def l(2))
  have leased: "leased_as s1 ?job"
    using at1 by (simp add: leased_as_def id rehydrate_def)
  obtain result where run: "runHandler k ?job = (result, Some (Plain msg))"
    using bad [of ?job] by (cases "runHandler k ?job") auto
  obtain la s2 j0 j' where x: "execute ?e k ?job s1 = (Settled la, s2)" "wf_jobs s2" "clock s2 = clock s1"
    "fake_job_at s1 (jID ?job) = Some j0" "fake_job_at s2 = (fake_job_at s1)(jID ?job \<mapsto> j')"
    "jState j' = landing (Some (Plain msg)) (clock s1) j0"
    "\<forall>mm. Some (Plain msg) = Some (Plain mm) \<longrightarrow> j' = (if jAttempt j0 < jMaxAttempts j0
       then wire_reschedule (Backoff (jAttempt j0)) mm (clock s1) j0 else wire_dead mm (clock s1) j0)"
    by (rule execute_lands [OF l(3) leased cls refl run]) auto
  from x(4) at1 have j0: "j0 = toJob ?l" by (simp add: id)
  let ?s3 = "s2\<lparr>clock := clock s2 + 300 * nsPerSecond\<rparr>"
  have cyc: "attempt_cycle gen stg k d jid s = snd (PromoteDue SourceQueue [dpKind d] ?s3)"
    by (simp add: attempt_cycle_def deq f x(1) Let_def)
  have wf3: "wf_jobs ?s3" using x(2) by (simp add: wf_jobs_def)
  obtain j3 where j3: "map_of (jobs s2) jid = Some j3" "j' = toJob j3"
    using x(5) by (auto simp: fake_job_at_def id fun_eq_iff dest: spec [of _ jid] split: if_splits)
  have ne: "[dpKind d] \<noteq> []" by simp
  obtain s4 where s4: "PromoteDue SourceQueue [dpKind d] ?s3 = (Inr (int (length (filter (promotable SourceQueue [dpKind d] (clock ?s3)) (map snd (jobs ?s3))))), s4)"
    "clock s4 = clock ?s3" "wf_jobs s4"
    "map_of (jobs s4) = (\<lambda>k. map_option (\<lambda>j. if promotable SourceQueue [dpKind d] (clock ?s3) j
        then j\<lparr>jState := StatePending\<rparr> else j) (map_of (jobs ?s3) k))"
    by (rule PromoteDue_result [OF wf3 ne])
  have cyc4: "attempt_cycle gen stg k d jid s = s4" using cyc s4(1) by simp
  have src: "jSource j = SourceQueue" "jKind j = dpKind d" using j(2) by (auto simp: is_due_def)
  have att: "jAttempt j0 = a + 1" "jMaxAttempts j0 = m" using j0 ma am by simp_all
  show ?thesis
  proof (cases "a + 1 < m")
    case True
    then have "toJob j3 = wire_reschedule (Backoff (a + 1)) msg (clock s) j0" using x(7) att j3(2) l(4) by simp
    then have w: "jState (toJob j3) = StateScheduled" "jRunAt (toJob j3) = clock s + Backoff (a + 1)"
      "jSource (toJob j3) = SourceQueue" "jKind (toJob j3) = dpKind d" "jAttempt (toJob j3) = a + 1" "jMaxAttempts (toJob j3) = m"
      using att src j0 by (simp_all add: wire_reschedule_def)
    have late: "jRunAt j3 \<le> clock s4"
      using w(2) backoff_le [of "a + 1"] s4(2) x(3) l(4) by simp
    with w j3(1) s4 have "map_of (jobs s4) jid = Some (j3\<lparr>jState := StatePending\<rparr>)"
      by (simp add: promotable_def sliceSet_def)
    then have "waiting_at d jid (a + 1) m s4"
      using w late s4(3) by (simp add: waiting_at_def is_due_def)
    with True cyc4 show ?thesis by simp
  next
    case False
    then have "toJob j3 = wire_dead msg (clock s) j0" using x(7) att j3(2) l(4) by simp
    then have w: "jState (toJob j3) = StateDead" "jAttempt (toJob j3) = a + 1"
      using att by (simp_all add: wire_dead_def)
    with j3(1) s4(4) have "map_of (jobs s4) jid = Some j3" by (simp add: promotable_def)
    with False cyc4 w show ?thesis by (simp add: dead_at_def fake_job_at_def)
  qed
qed

text \<open>
  C11: A job that always fails is given exactly its budget of attempts. A due job
  with no attempt spent and a budget of \<open>m\<close>, whose handler fails plainly every
  time, is waiting for its next attempt after each of the first \<open>m - 1\<close> cycles and
  dead, with \<open>m\<close> attempts counted, after the \<open>m\<close>-th.
\<close>

theorem retry_budget_ends:
  assumes w: "waiting_at d jid 0 m s" and m: "0 < m" and keep: "\<not> dpOverrideDefault d"
    and cls: "kClassify k = Some ClassifyOutcome" and bad: "\<And>job. snd (runHandler k job) = Some (Plain msg)"
  shows "(\<forall>n<nat m. waiting_at d jid (int n) m ((attempt_cycle gen stg k d jid ^^ n) s)) \<and>
    dead_at jid m ((attempt_cycle gen stg k d jid ^^ nat m) s)"
proof -
  let ?c = "attempt_cycle gen stg k d jid"
  have wait: "waiting_at d jid (int n) m ((?c ^^ n) s)" if "n < nat m" for n
    using that
  proof (induction n)
    case (Suc n)
    then have "waiting_at d jid (int n) m ((?c ^^ n) s)" by simp
    moreover have "int n + 1 < m" using Suc.prems by linarith
    ultimately have "waiting_at d jid (int n + 1) m (?c ((?c ^^ n) s))"
      using failed_cycle [OF _ keep cls bad, of jid "int n" m "(?c ^^ n) s" gen stg] by simp
    then show ?case by (simp add: add.commute)
  qed (use w in simp)
  obtain n where n: "nat m = Suc n" using m by (cases "nat m") auto
  have "waiting_at d jid (int n) m ((?c ^^ n) s)" by (rule wait) (simp add: n)
  moreover have last: "int n + 1 = m" using n m by linarith
  ultimately have "dead_at jid (int n + 1) (?c ((?c ^^ n) s))"
    using failed_cycle [OF _ keep cls bad, of jid "int n" m "(?c ^^ n) s" gen stg] by simp
  then have "dead_at jid (int n + 1) ((?c ^^ nat m) s)" using n by simp
  moreover note last
  ultimately show ?thesis using wait by simp
qed

theorem retry_budget_ends_witness:
  "dead_at 1 3 ((attempt_cycle (\<lambda>n. 50 + n) (scSettings run_cfg) (run_kind (Returns None (Some (Plain ''no''))))
      ((run_dequeue 1)\<lparr>dpOverrideDefault := False\<rparr>) 1 ^^ 3) run_queued)"
proof -
  let ?d = "(run_dequeue 1)\<lparr>dpOverrideDefault := False\<rparr>" let ?k = "run_kind (Returns None (Some (Plain ''no'')))"
  have "map_of (jobs run_queued) 1 = Some (the (map_of (jobs run_queued) 1))"
    "is_due SourceQueue (dpKind ?d) (clock run_queued) (the (map_of (jobs run_queued) 1))"
    "jAttempt (the (map_of (jobs run_queued) 1)) = 0" "jMaxAttempts (the (map_of (jobs run_queued) 1)) = 3"
    by code_simp+
  then have w: "waiting_at ?d 1 0 3 run_queued" using run_wf(1) unfolding waiting_at_def by blast
  have "\<not> dpOverrideDefault ?d" "kClassify ?k = Some ClassifyOutcome" by (simp_all add: run_kind_def)
  moreover have "snd (runHandler ?k job) = Some (Plain ''no'')" for job by (simp add: runHandler_def run_kind_def)
  ultimately show ?thesis using retry_budget_ends [OF w] by simp
qed

end
